(* ===== verification/Prelude.thy ===== *)
theory Prelude
  imports Main "HOL-Library.Word" "HOL-Library.Product_Lexorder"
begin

text \<open>
  Shared vocabulary of the development: machine integers and byte slices, Rust's \<open>?\<close>
  operator on results with and without state, big-endian conversion between fixed-size
  byte arrays and words, and in-place writes into a caller-owned buffer.

  Conventions used by every component:
  \<^item> \<open>u8\<close>, \<open>u16\<close>, \<open>u32\<close>, \<open>u64\<close> are words of that width; \<open>i64\<close> is a 64-bit word read
    with \<open>sint\<close>; \<open>usize\<close> is \<open>nat\<close>, since every \<open>usize\<close> of the program counts bytes or
    entries that exist in memory;
  \<^item> a fixed-size array \<open>[u8; N]\<close> is the word of \<open>8 * N\<close> bits whose big-endian bytes are the
    array, so its length is part of its type; \<open>to_be_bytes\<close> gives the bytes back. The
    derived (lexicographic) order of the arrays is the order of the words
    (\<open>array_order_lexicographic\<close>);
  \<^item> \<open>Result<T, E>\<close> is \<open>E + T\<close> with \<open>Inl\<close> the error; \<open>tryE\<close> is \<open>?\<close>;
  \<^item> a method that mutates and may fail returns the pair of its result and the state it
    leaves behind, also when it fails; \<open>tryS\<close> is \<open>?\<close> there.
\<close>

type_synonym u8 = "8 word"
type_synonym u16 = "16 word"
type_synonym u32 = "32 word"
type_synonym u64 = "64 word"
type_synonym i64 = "64 word"
type_synonym usize = nat
type_synonym bytes = "u8 list"
type_synonym array16 = "128 word"
type_synonym array32 = "256 word"
type_synonym array64 = "512 word"

named_theorems result_simps \<open>rewriting of the result combinators\<close>
named_theorems range_simps \<open>reading and writing ranges of a buffer\<close>
named_theorems const_defs \<open>the numeric protocol constants\<close>

section \<open>Results\<close>

definition tryE :: "'e + 'a \<Rightarrow> ('a \<Rightarrow> 'e + 'b) \<Rightarrow> 'e + 'b" where
  "tryE r k = (case r of Inl e \<Rightarrow> Inl e | Inr x \<Rightarrow> k x)"

definition tryS :: "('e + 'a) \<times> 's \<Rightarrow> ('a \<Rightarrow> 's \<Rightarrow> ('e + 'b) \<times> 's) \<Rightarrow> ('e + 'b) \<times> 's" where
  "tryS r k = (case r of (Inl e, s) \<Rightarrow> (Inl e, s) | (Inr x, s) \<Rightarrow> k x s)"

definition ok_or :: "'a option \<Rightarrow> 'e \<Rightarrow> 'e + 'a" where
  "ok_or x e = (case x of None \<Rightarrow> Inl e | Some y \<Rightarrow> Inr y)"

definition map_err :: "('e \<Rightarrow> 'f) \<Rightarrow> 'e + 'a \<Rightarrow> 'f + 'a" where
  "map_err f r = (case r of Inl e \<Rightarrow> Inl (f e) | Inr x \<Rightarrow> Inr x)"

definition is_ok :: "'e + 'a \<Rightarrow> bool" where
  "is_ok r = (case r of Inl _ \<Rightarrow> False | Inr _ \<Rightarrow> True)"

lemma tryE_simps [simp, result_simps]:
  "tryE (Inl e) k = Inl e" "tryE (Inr x) k = k x"
  by (simp_all add: tryE_def)

lemma tryS_simps [simp, result_simps]:
  "tryS (Inl e, s) k = (Inl e, s)" "tryS (Inr x, s) k = k x s"
  by (simp_all add: tryS_def)

lemma ok_or_simps [simp, result_simps]:
  "ok_or None e = Inl e" "ok_or (Some x) e = Inr x"
  by (simp_all add: ok_or_def)

lemma map_err_simps [simp, result_simps]:
  "map_err f (Inl e) = Inl (f e)" "map_err f (Inr x) = Inr x"
  by (simp_all add: map_err_def)

lemma is_ok_simps [simp, result_simps]: "\<not> is_ok (Inl e)" "is_ok (Inr x)"
  by (simp_all add: is_ok_def)

lemma is_ok_iff: "is_ok r \<longleftrightarrow> (\<exists>x. r = Inr x)"
  by (cases r) auto

lemma tryE_Inr_iff: "tryE r k = Inr y \<longleftrightarrow> (\<exists>x. r = Inr x \<and> k x = Inr y)"
  by (cases r) auto

lemma ok_or_Inr_iff: "ok_or x e = Inr y \<longleftrightarrow> x = Some y"
  by (cases x) auto

lemma map_err_Inr_iff [simp]: "map_err f r = Inr y \<longleftrightarrow> r = Inr y"
  by (cases r) auto

lemma tryS_Inr_iff:
  "tryS r k = (Inr y, t) \<longleftrightarrow> (\<exists>x s. r = (Inr x, s) \<and> k x s = (Inr y, t))"
  by (cases r; cases "fst r") auto

lemmas result_iffs = tryE_Inr_iff ok_or_Inr_iff tryS_Inr_iff

lemma tryE_cong [fundef_cong]:
  "r = r' \<Longrightarrow> (\<And>x. r' = Inr x \<Longrightarrow> k x = k' x) \<Longrightarrow> tryE r k = tryE r' k'"
  by (cases r') auto

lemma tryS_cong [fundef_cong]:
  "r = r' \<Longrightarrow> (\<And>x s. r' = (Inr x, s) \<Longrightarrow> k x s = k' x s) \<Longrightarrow> tryS r k = tryS r' k'"
  by (cases r'; cases "fst r'") auto

section \<open>Big-endian bytes\<close>

text \<open>\<open>be_bytes n k\<close> are the \<open>n\<close> low-order bytes of \<open>k\<close>, most significant first.\<close>

primrec be_bytes :: "nat \<Rightarrow> nat \<Rightarrow> bytes" where
  "be_bytes 0 k = []"
| "be_bytes (Suc n) k = be_bytes n (k div 256) @ [of_nat k]"

definition be_value :: "bytes \<Rightarrow> nat" where
  "be_value bs = foldl (\<lambda>a b. a * 256 + unat b) 0 bs"

definition to_be_bytes :: "'a::len word \<Rightarrow> bytes" where
  "to_be_bytes w = be_bytes (LENGTH('a) div 8) (unat w)"

definition from_be_bytes :: "bytes \<Rightarrow> 'a::len word" where
  "from_be_bytes bs = of_nat (be_value bs)"

text \<open>\<open>TryInto\<close> from a slice to an array: exactly the array's length is accepted.\<close>

definition try_into_array :: "bytes \<Rightarrow> 'a::len word option" where
  "try_into_array bs = (if length bs = LENGTH('a) div 8 then Some (from_be_bytes bs) else None)"

lemma length_be_bytes [simp]: "length (be_bytes n k) = n"
  by (induction n arbitrary: k) auto

lemma length_to_be_bytes [simp]: "length (to_be_bytes (w :: 'a::len word)) = LENGTH('a) div 8"
  by (simp add: to_be_bytes_def)

lemma be_value_simps [simp]:
  "be_value [] = 0" "be_value (bs @ [b]) = be_value bs * 256 + unat b"
  by (simp_all add: be_value_def)

lemma unat_u8_less [simp]: "unat (b :: u8) < 256"
  using unsigned_less [of b, where 'a = nat] by simp

lemma be_value_less: "be_value bs < 256 ^ length bs"
proof (induction bs rule: rev_induct)
  case (snoc b bs)
  have "be_value bs * 256 + unat b < (be_value bs + 1) * 256" by simp
  also have "\<dots> \<le> 256 ^ length bs * 256"
    using snoc.IH by (intro mult_le_mono1) simp
  finally show ?case by simp
qed simp

lemma unat_of_nat_u8: "unat (of_nat k :: u8) = k mod 256"
  by (simp add: unat_of_nat)

lemma be_value_be_bytes: "be_value (be_bytes n k) = k mod 256 ^ n"
proof (induction n arbitrary: k)
  case (Suc n)
  have "k mod 256 ^ Suc n = k div 256 mod 256 ^ n * 256 + k mod 256"
    by (metis add.commute mod_mult2_eq mult.commute power_Suc)
  with Suc.IH show ?case by (simp add: unat_of_nat_u8)
qed simp

lemma be_bytes_be_value: "be_bytes (length bs) (be_value bs) = bs"
proof (induction bs rule: rev_induct)
  case (snoc b bs)
  have "of_nat (be_value bs * 256 + unat b) = b"
  proof (rule word_unat_eq_iff [THEN iffD2])
    show "unat (of_nat (be_value bs * 256 + unat b) :: u8) = unat b"
      by (simp only: unat_of_nat_u8 mod_mult_self3 mod_less unat_u8_less)
  qed
  with snoc show ?case by simp
qed simp

lemma power_256_div8:
  assumes "8 dvd n"
  shows "(256 :: nat) ^ (n div 8) = 2 ^ n"
proof -
  have "(256 :: nat) ^ (n div 8) = (2 ^ 8) ^ (n div 8)" by simp
  also have "\<dots> = 2 ^ (8 * (n div 8))" by (simp only: power_mult)
  also have "8 * (n div 8) = n" using assms by simp
  finally show ?thesis .
qed

lemma from_to_be_bytes [simp]:
  assumes "8 dvd LENGTH('a)"
  shows "from_be_bytes (to_be_bytes w) = (w :: 'a::len word)"
proof -
  have "be_value (to_be_bytes w) = unat w"
    using unsigned_less [of w, where 'a = nat] by (simp add: to_be_bytes_def be_value_be_bytes power_256_div8 assms)
  then show ?thesis by (simp add: from_be_bytes_def)
qed

lemma unat_from_be_bytes:
  assumes "8 dvd LENGTH('a)" "length bs = LENGTH('a) div 8"
  shows "unat (from_be_bytes bs :: 'a::len word) = be_value bs"
proof -
  have "be_value bs < 2 ^ LENGTH('a)"
    using be_value_less [of bs] by (simp add: assms power_256_div8)
  then show ?thesis by (simp add: from_be_bytes_def unat_of_nat)
qed

lemma to_from_be_bytes [simp]:
  assumes "8 dvd LENGTH('a)" "length bs = LENGTH('a) div 8"
  shows "to_be_bytes (from_be_bytes bs :: 'a::len word) = bs"
  using assms be_bytes_be_value [of bs] by (simp add: to_be_bytes_def unat_from_be_bytes)

lemma to_be_bytes_inject [simp]:
  assumes "8 dvd LENGTH('a)"
  shows "to_be_bytes v = to_be_bytes w \<longleftrightarrow> v = (w :: 'a::len word)"
  using assms from_to_be_bytes by metis

lemma try_into_array_to_be_bytes [simp]:
  assumes "8 dvd LENGTH('a)"
  shows "try_into_array (to_be_bytes w) = Some (w :: 'a::len word)"
  using assms by (simp add: try_into_array_def)

lemma try_into_array_Some_iff:
  assumes "8 dvd LENGTH('a)"
  shows "try_into_array bs = Some (w :: 'a::len word) \<longleftrightarrow> bs = to_be_bytes w"
  using assms by (auto simp: try_into_array_def)

text \<open>The array order: comparing the words compares the byte arrays lexicographically.\<close>

lemma be_value_append:
  "be_value (xs @ ys) = be_value xs * 256 ^ length ys + be_value ys"
proof (induction ys rule: rev_induct)
  case (snoc y ys)
  have "be_value (xs @ ys @ [y]) = be_value (xs @ ys) * 256 + unat y"
    by (metis append_assoc be_value_simps(2))
  with snoc show ?case by (simp add: algebra_simps)
qed simp

lemma be_value_Cons: "be_value (x # xs) = unat x * 256 ^ length xs + be_value xs"
  using be_value_append [of "[x]" xs] be_value_simps(2) [of "[]" x] by simp

lemma digit_less_iff:
  fixes a b p q m :: nat
  assumes "p < m" "q < m"
  shows "a * m + p < b * m + q \<longleftrightarrow> a < b \<or> a = b \<and> p < q"
proof (cases a b rule: linorder_cases)
  case less
  then have "a * m + m \<le> b * m" by (metis add.commute Suc_leI mult_Suc mult_le_mono1)
  with assms less show ?thesis by simp
next
  case greater
  then have "b * m + m \<le> a * m" by (metis add.commute Suc_leI mult_Suc mult_le_mono1)
  with assms greater show ?thesis by simp
qed simp

lemma be_value_less_iff_lex:
  "length xs = length ys \<Longrightarrow>
     be_value xs < be_value ys \<longleftrightarrow> (xs, ys) \<in> lexord {(x, y). unat x < unat y}"
proof (induction xs ys rule: list_induct2)
  case (Cons x xs y ys)
  then show ?case
    using be_value_less [of xs] be_value_less [of ys]
    by (simp add: be_value_Cons digit_less_iff word_unat_eq_iff)
qed simp

lemma array_order_lexicographic:
  assumes "8 dvd LENGTH('a)"
  shows "(v :: 'a::len word) < w \<longleftrightarrow>
    (to_be_bytes v, to_be_bytes w) \<in> lexord {(x, y). unat x < unat y}"
proof -
  have "unat x = be_value (to_be_bytes x)" for x :: "'a word"
    using unat_from_be_bytes [of "to_be_bytes x", where 'a = 'a] assms by simp
  then show ?thesis
    by (simp add: word_less_nat_alt be_value_less_iff_lex)
qed

section \<open>Ranges of a slice\<close>

text \<open>\<open>range_of xs a b\<close> is \<open>&xs[a..b]\<close>; the code indexes so only under a length guard.
  \<open>get_range\<close> is \<open>xs.get(a..b)\<close>, and \<open>copy_at\<close> is \<open>out[a..a+n].copy_from_slice(src)\<close>.\<close>

definition range_of :: "bytes \<Rightarrow> nat \<Rightarrow> nat \<Rightarrow> bytes" where
  "range_of xs a b = take (b - a) (drop a xs)"

definition get_range :: "bytes \<Rightarrow> nat \<Rightarrow> nat \<Rightarrow> bytes option" where
  "get_range xs a b = (if a \<le> b \<and> b \<le> length xs then Some (range_of xs a b) else None)"

definition copy_at :: "bytes \<Rightarrow> nat \<Rightarrow> bytes \<Rightarrow> bytes" where
  "copy_at out a src = take a out @ src @ drop (a + length src) out"

definition checked_add :: "nat \<Rightarrow> nat \<Rightarrow> nat option" where
  "checked_add a b = (if a + b < 2 ^ 64 then Some (a + b) else None)"

definition saturating_add :: "u64 \<Rightarrow> u64 \<Rightarrow> u64" where
  "saturating_add a b = (if unat a + unat b < 2 ^ 64 then a + b else - 1)"

lemma length_range_of: "b \<le> length xs \<Longrightarrow> length (range_of xs a b) = b - a"
  by (simp add: range_of_def)

lemma range_of_append_first [range_simps]:
  "a + n = b \<Longrightarrow> length xs = a \<Longrightarrow> length ys = n \<Longrightarrow> range_of (xs @ ys @ zs) a b = ys"
  by (auto simp: range_of_def)

lemma range_of_skip [range_simps]:
  "length xs \<le> a \<Longrightarrow> range_of (xs @ ys) a b = range_of ys (a - length xs) (b - length xs)"
  by (simp add: range_of_def)

lemma range_of_0 [range_simps]: "length xs = b \<Longrightarrow> range_of (xs @ ys) 0 b = xs"
  by (simp add: range_of_def)

lemma range_of_0_self [range_simps]: "length xs = b \<Longrightarrow> range_of xs 0 b = xs"
  by (simp add: range_of_def)

lemma range_of_split: "a \<le> b \<Longrightarrow> b \<le> c \<Longrightarrow> range_of xs a c = range_of xs a b @ range_of xs b c"
proof -
  assume "a \<le> b" "b \<le> c"
  then obtain m n where [simp]: "b = a + m" "c = a + m + n"
    by (metis le_iff_add)
  show ?thesis
    by (simp add: range_of_def take_add add.commute)
qed

lemma range_of_one: "i < length xs \<Longrightarrow> range_of xs i (Suc i) = [xs ! i]"
  by (simp add: range_of_def take_Suc_conv_app_nth)

lemma range_of_all: "range_of xs 0 (length xs) = xs"
  by (simp add: range_of_def)

lemma length_copy_at [simp]: "a + length src \<le> length out \<Longrightarrow> length (copy_at out a src) = length out"
  by (simp add: copy_at_def)

lemma copy_at_append [range_simps]:
  "length pre = a \<Longrightarrow> copy_at (pre @ rest) a src = pre @ src @ drop (length src) rest"
  by (simp add: copy_at_def)

lemma copy_at_0 [range_simps]: "copy_at out 0 src = src @ drop (length src) out"
  by (simp add: copy_at_def)

lemma unat_saturating_add: "unat (saturating_add a b) = min (unat a + unat b) (2 ^ 64 - 1)"
proof (cases "unat a + unat b < 2 ^ 64")
  case True
  then have "unat (a + b) = unat a + unat b"
    by (simp add: unat_word_ariths)
  with True show ?thesis by (simp add: saturating_add_def)
next
  case False
  moreover have "unat (- 1 :: u64) = 2 ^ 64 - 1"
    by (simp add: unsigned_minus_1_eq_mask mask_eq_exp_minus_1)
  ultimately show ?thesis by (simp add: saturating_add_def)
qed

lemma saturating_add_ge: "a \<le> saturating_add a b"
proof -
  have "unat a \<le> 2 ^ 64 - 1" using unsigned_less [of a, where 'a = nat] by simp
  then show ?thesis by (simp add: word_le_nat_alt unat_saturating_add)
qed

end
