(* ===== verification/Btree.thy ===== *)
theory Btree
  imports Prelude
begin

text \<open>
  \<open>std::collections::BTreeMap\<close> as the program uses it: lookup, insertion that replaces,
  removal, \<open>retain\<close>, \<open>len\<close> and iteration in key order. A map is the association list of
  its entries in ascending key order, so iteration is the list itself. The locale
  \<open>ordered_map\<close> is the contract the stores rely on; the bounded-insertion lemmas, which
  every store of the program needs for its capacity checks, are proved once inside it.
\<close>

type_synonym ('k, 'v) btree = "('k \<times> 'v) list"

named_theorems btree_simps \<open>lookup and length after an operation of the map\<close>

definition bt_empty :: "('k::linorder, 'v) btree" where
  "bt_empty = []"

definition bt_get :: "('k::linorder, 'v) btree \<Rightarrow> 'k \<Rightarrow> 'v option" where
  "bt_get m k = map_of m k"

definition bt_contains_key :: "('k::linorder, 'v) btree \<Rightarrow> 'k \<Rightarrow> bool" where
  "bt_contains_key m k = (bt_get m k \<noteq> None)"

fun bt_insert :: "'k::linorder \<Rightarrow> 'v \<Rightarrow> ('k, 'v) btree \<Rightarrow> ('k, 'v) btree" where
  "bt_insert k v [] = [(k, v)]"
| "bt_insert k v ((k', v') # m) =
     (if k' < k then (k', v') # bt_insert k v m
      else if k' = k then (k, v) # m
      else (k, v) # (k', v') # m)"

definition bt_remove :: "'k::linorder \<Rightarrow> ('k, 'v) btree \<Rightarrow> ('k, 'v) btree" where
  "bt_remove k m = filter (\<lambda>(k', _). k' \<noteq> k) m"

definition bt_retain :: "('k \<Rightarrow> 'v \<Rightarrow> bool) \<Rightarrow> ('k::linorder, 'v) btree \<Rightarrow> ('k, 'v) btree" where
  "bt_retain P m = filter (\<lambda>(k, v). P k v) m"

definition bt_len :: "('k::linorder, 'v) btree \<Rightarrow> nat" where
  "bt_len m = length m"

definition bt_wf :: "('k::linorder, 'v) btree \<Rightarrow> bool" where
  "bt_wf m = sorted_wrt (<) (map fst m)"

section \<open>The contract\<close>

locale ordered_map =
  fixes empty :: "'m"
    and insert :: "'k::linorder \<Rightarrow> 'v \<Rightarrow> 'm \<Rightarrow> 'm"
    and remove :: "'k \<Rightarrow> 'm \<Rightarrow> 'm"
    and retain :: "('k \<Rightarrow> 'v \<Rightarrow> bool) \<Rightarrow> 'm \<Rightarrow> 'm"
    and get :: "'m \<Rightarrow> 'k \<Rightarrow> 'v option"
    and len :: "'m \<Rightarrow> nat"
    and wf :: "'m \<Rightarrow> bool"
  assumes wf_empty: "wf empty"
    and wf_insert: "wf m \<Longrightarrow> wf (insert k v m)"
    and wf_remove: "wf m \<Longrightarrow> wf (remove k m)"
    and wf_retain: "wf m \<Longrightarrow> wf (retain P m)"
    and get_empty: "get empty k = None"
    and get_insert: "get (insert k v m) k' = (if k' = k then Some v else get m k')"
    and get_remove: "get (remove k m) k' = (if k' = k then None else get m k')"
    and get_retain: "wf m \<Longrightarrow> get (retain P m) k =
          (case get m k of None \<Rightarrow> None | Some v \<Rightarrow> if P k v then Some v else None)"
    and finite_keys: "finite (dom (get m))"
    and len_card: "wf m \<Longrightarrow> len m = card (dom (get m))"
begin

text \<open>Length after an operation is a count of keys, whatever the representation.\<close>

lemma len_empty: "len empty = 0"
proof -
  have "dom (get empty) = {}" by (simp add: dom_def get_empty)
  then show ?thesis using wf_empty by (simp add: len_card)
qed

lemma keys_insert: "dom (get (insert k v m)) = Set.insert k (dom (get m))"
  by (auto simp: get_insert dom_def)

lemma keys_remove: "dom (get (remove k m)) = dom (get m) - {k}"
  by (auto simp: get_remove dom_def split: if_splits)

lemma keys_retain: "wf m \<Longrightarrow> dom (get (retain P m)) \<subseteq> dom (get m)"
  by (auto simp: get_retain dom_def split: option.splits)

lemma len_insert:
  assumes "wf m"
  shows "len (insert k v m) = (if get m k = None then Suc (len m) else len m)"
  using assms by (simp add: len_card wf_insert keys_insert card_insert_if finite_keys domIff)

lemma len_remove:
  assumes "wf m"
  shows "len (remove k m) = (if get m k = None then len m else len m - 1)"
  using assms by (simp add: len_card wf_remove keys_remove domIff)

lemma len_retain: "wf m \<Longrightarrow> len (retain P m) \<le> len m"
  by (simp add: len_card wf_retain card_mono finite_keys keys_retain)

text \<open>The capacity check of the stores: an insertion that passes it keeps the bound.\<close>

lemma bounded_insert:
  assumes "wf m" "len m \<le> maximum" "get m k \<noteq> None \<or> len m < maximum"
  shows "len (insert k v m) \<le> maximum"
  using assms by (auto simp: len_insert)

end

section \<open>The implementation meets it\<close>

lemma map_of_bt_insert: "map_of (bt_insert k v m) k' = (if k' = k then Some v else map_of m k')"
  by (induction m) auto

lemma fst_set_bt_insert: "fst ` set (bt_insert k v m) = insert k (fst ` set m)"
proof -
  have "dom (map_of (bt_insert k v m)) = insert k (dom (map_of m))"
    by (auto simp: map_of_bt_insert dom_def)
  then show ?thesis by (simp add: dom_map_of_conv_image_fst)
qed

lemma bt_wf_insert: "bt_wf m \<Longrightarrow> bt_wf (bt_insert k v m)"
  unfolding bt_wf_def
proof (induction m)
  case (Cons p m)
  obtain a b where [simp]: "p = (a, b)" by fastforce
  have less: "\<forall>x \<in> fst ` set m. a < x" using Cons.prems by auto
  have "\<forall>x \<in> fst ` set (bt_insert k v m). a < x" if "a < k"
    using less that by (simp add: fst_set_bt_insert)
  with Cons less show ?case by fastforce
qed simp

lemma map_of_filter_wf:
  "bt_wf m \<Longrightarrow> map_of (filter (\<lambda>(k, v). P k v) m) k =
     (case map_of m k of None \<Rightarrow> None | Some v \<Rightarrow> if P k v then Some v else None)"
proof (induction m)
  case (Cons p m)
  obtain a b where [simp]: "p = (a, b)" by fastforce
  have "a \<notin> fst ` set m" using Cons.prems by (auto simp: bt_wf_def)
  then have "map_of m a = None" by (simp add: map_of_eq_None_iff)
  with Cons show ?case by (auto simp: bt_wf_def)
qed simp

lemma bt_wf_filter: "bt_wf m \<Longrightarrow> bt_wf (filter P m)"
  unfolding bt_wf_def by (induction m) auto

lemma bt_wf_distinct: "bt_wf m \<Longrightarrow> distinct (map fst m)"
  by (simp add: bt_wf_def strict_sorted_iff)

interpretation bt: ordered_map bt_empty bt_insert bt_remove bt_retain bt_get bt_len bt_wf
proof (unfold_locales, goal_cases)
  case (5 k)
  then show ?case by (simp add: bt_get_def bt_empty_def)
next
  case (7 k m k')
  then show ?case by (induction m) (auto simp: bt_get_def bt_remove_def)
next
  case (8 m P k)
  then show ?case by (simp add: bt_get_def bt_retain_def map_of_filter_wf)
next
  case (9 m)
  have "bt_get m = map_of m" by (auto simp: bt_get_def)
  then show ?case by (simp add: finite_dom_map_of)
next
  case (10 m)
  then have "card (fst ` set m) = length m"
    using distinct_card [OF bt_wf_distinct] by fastforce
  moreover have "bt_get m = map_of m" by (auto simp: bt_get_def)
  ultimately show ?case by (simp add: bt_len_def dom_map_of_conv_image_fst)
qed (auto simp: bt_get_def bt_empty_def bt_remove_def bt_retain_def map_of_bt_insert
       bt_wf_insert bt_wf_filter bt_wf_def [of "[]"])

lemmas [simp, btree_simps] = bt.get_empty bt.get_insert bt.get_remove bt.len_empty
lemmas [simp, intro] = bt.wf_empty bt.wf_insert bt.wf_remove bt.wf_retain
lemmas [btree_simps] = bt.get_retain bt.len_insert bt.len_remove

text \<open>Iteration visits exactly the entries that lookup finds.\<close>

lemma bt_iter_iff: "bt_wf m \<Longrightarrow> (k, v) \<in> set m \<longleftrightarrow> bt_get m k = Some v"
  by (simp add: bt_get_def bt_wf_distinct)

lemma bt_get_iter: "bt_get m k = Some v \<Longrightarrow> (k, v) \<in> set m"
  by (simp add: bt_get_def map_of_SomeD)

text \<open>Two well-formed maps with the same lookups are the same list.\<close>

lemma bt_rebuild: "distinct (map fst m) \<Longrightarrow> map (\<lambda>k. (k, the (map_of m k))) (map fst m) = m"
  by (rule map_idI [of m, THEN trans [rotated]]) (auto intro!: map_cong)

lemma bt_ext:
  assumes "bt_wf m" "bt_wf n" "\<And>k. bt_get m k = bt_get n k"
  shows "m = n"
proof -
  have lookups: "map_of m = map_of n"
    using assms(3) by (auto simp: bt_get_def)
  then have "fst ` set m = fst ` set n"
    by (metis dom_map_of_conv_image_fst)
  then have "map fst m = map fst n"
    using assms(1,2) by (intro strict_sorted_equal) (simp_all add: bt_wf_def)
  with lookups bt_rebuild [of m] bt_rebuild [of n] assms(1,2) show ?thesis
    by (metis bt_wf_distinct)
qed

end
