(* ===== verification/Types.thy ===== *)
theory Types
  imports Btree
begin

text \<open>
  \<open>protocol-core/src/types.rs\<close>: the protocol constants, the wire-safe identifiers with
  their derived order, the envelope purposes, the comparison operators and the public
  protocol errors. Identifiers are newtypes over their array or integer, as in the source.
\<close>

section \<open>Constants\<close>

definition ascii :: "string \<Rightarrow> bytes" where
  "ascii s = map of_char s"

lemma length_ascii [simp]: "length (ascii s) = length s"
  by (simp add: ascii_def)

definition MAGIC :: bytes where
  "MAGIC = ascii ''SPUBSUB'' @ [0]"

definition PROTOCOL_ID :: bytes where
  "PROTOCOL_ID = ascii ''SecurePubSub/v1''"

definition VERSION :: u8 where "VERSION = 1"

definition HEADER_LEN :: usize where [const_defs]: "HEADER_LEN = 148"
definition TAG_LEN :: usize where [const_defs]: "TAG_LEN = 16"
definition SIGNATURE_LEN :: usize where [const_defs]: "SIGNATURE_LEN = 64"
definition MAX_PLAINTEXT_LEN :: usize where [const_defs]: "MAX_PLAINTEXT_LEN = 4096"
definition MAX_FRAME_LEN :: usize where
  [const_defs]: "MAX_FRAME_LEN = HEADER_LEN + MAX_PLAINTEXT_LEN + TAG_LEN + SIGNATURE_LEN"
definition MAX_ATTRIBUTES :: usize where [const_defs]: "MAX_ATTRIBUTES = 16"
definition MAX_CLAUSES :: usize where [const_defs]: "MAX_CLAUSES = 8"
definition MAX_ATTRIBUTE_BYTES :: usize where [const_defs]: "MAX_ATTRIBUTE_BYTES = 64"
definition MAX_VALUE_BYTES :: usize where [const_defs]: "MAX_VALUE_BYTES = 3072"

lemma length_MAGIC [simp]: "length MAGIC = 8"
  by (simp add: MAGIC_def)

section \<open>Identifiers\<close>

datatype AgentId = AgentId (agent_array: array16)
datatype SessionId = SessionId (session_array: array16)
datatype HandlerId = HandlerId (handler_array: array16)
datatype TypeId = TypeId (type_u32: u32)
datatype AttributeId = AttributeId (attribute_u16: u16)

definition AgentId_CA :: AgentId where "AgentId_CA = AgentId 0"
definition HandlerId_NONE :: HandlerId where "HandlerId_NONE = HandlerId 0"

instantiation AgentId :: linorder
begin
definition less_eq_AgentId :: "AgentId \<Rightarrow> AgentId \<Rightarrow> bool" where
  "less_eq_AgentId a b \<longleftrightarrow> agent_array a \<le> agent_array b"
definition less_AgentId :: "AgentId \<Rightarrow> AgentId \<Rightarrow> bool" where
  "less_AgentId a b \<longleftrightarrow> agent_array a < agent_array b"
instance
  by standard (auto simp: less_eq_AgentId_def less_AgentId_def AgentId.expand)
end

instantiation SessionId :: linorder
begin
definition less_eq_SessionId :: "SessionId \<Rightarrow> SessionId \<Rightarrow> bool" where
  "less_eq_SessionId a b \<longleftrightarrow> session_array a \<le> session_array b"
definition less_SessionId :: "SessionId \<Rightarrow> SessionId \<Rightarrow> bool" where
  "less_SessionId a b \<longleftrightarrow> session_array a < session_array b"
instance
  by standard (auto simp: less_eq_SessionId_def less_SessionId_def SessionId.expand)
end

instantiation HandlerId :: linorder
begin
definition less_eq_HandlerId :: "HandlerId \<Rightarrow> HandlerId \<Rightarrow> bool" where
  "less_eq_HandlerId a b \<longleftrightarrow> handler_array a \<le> handler_array b"
definition less_HandlerId :: "HandlerId \<Rightarrow> HandlerId \<Rightarrow> bool" where
  "less_HandlerId a b \<longleftrightarrow> handler_array a < handler_array b"
instance
  by standard (auto simp: less_eq_HandlerId_def less_HandlerId_def HandlerId.expand)
end

instantiation TypeId :: linorder
begin
definition less_eq_TypeId :: "TypeId \<Rightarrow> TypeId \<Rightarrow> bool" where
  "less_eq_TypeId a b \<longleftrightarrow> type_u32 a \<le> type_u32 b"
definition less_TypeId :: "TypeId \<Rightarrow> TypeId \<Rightarrow> bool" where
  "less_TypeId a b \<longleftrightarrow> type_u32 a < type_u32 b"
instance
  by standard (auto simp: less_eq_TypeId_def less_TypeId_def TypeId.expand)
end

instantiation AttributeId :: linorder
begin
definition less_eq_AttributeId :: "AttributeId \<Rightarrow> AttributeId \<Rightarrow> bool" where
  "less_eq_AttributeId a b \<longleftrightarrow> attribute_u16 a \<le> attribute_u16 b"
definition less_AttributeId :: "AttributeId \<Rightarrow> AttributeId \<Rightarrow> bool" where
  "less_AttributeId a b \<longleftrightarrow> attribute_u16 a < attribute_u16 b"
instance
  by standard (auto simp: less_eq_AttributeId_def less_AttributeId_def AttributeId.expand)
end

section \<open>Purposes, operators and errors\<close>

datatype MessageType =
    MT_SetEnvironment | MT_SubscribePermanent | MT_Publish | MT_PublicationResponse | MT_Subscribe

fun MessageType_u8 :: "MessageType \<Rightarrow> u8" where
  "MessageType_u8 MT_SetEnvironment = 1"
| "MessageType_u8 MT_SubscribePermanent = 2"
| "MessageType_u8 MT_Publish = 3"
| "MessageType_u8 MT_PublicationResponse = 4"
| "MessageType_u8 MT_Subscribe = 5"

definition MessageType_from_u8 :: "u8 \<Rightarrow> MessageType option" where
  "MessageType_from_u8 value =
     (if value = 1 then Some MT_SetEnvironment
      else if value = 2 then Some MT_SubscribePermanent
      else if value = 3 then Some MT_Publish
      else if value = 4 then Some MT_PublicationResponse
      else if value = 5 then Some MT_Subscribe
      else None)"

fun MessageType_direction :: "MessageType \<Rightarrow> u8" where
  "MessageType_direction MT_PublicationResponse = 2"
| "MessageType_direction _ = 1"

fun MessageType_domain :: "MessageType \<Rightarrow> bytes" where
  "MessageType_domain MT_SetEnvironment = ascii ''env''"
| "MessageType_domain MT_SubscribePermanent = ascii ''subscription''"
| "MessageType_domain MT_Subscribe = ascii ''subscription-one-shot''"
| "MessageType_domain MT_Publish = ascii ''publication-request''"
| "MessageType_domain MT_PublicationResponse = ascii ''publication-response''"

datatype Operator =
    Operator_Eq | Operator_Ne | Operator_Lt | Operator_Le | Operator_Gt | Operator_Ge

fun Operator_u8 :: "Operator \<Rightarrow> u8" where
  "Operator_u8 Operator_Eq = 1"
| "Operator_u8 Operator_Ne = 2"
| "Operator_u8 Operator_Lt = 3"
| "Operator_u8 Operator_Le = 4"
| "Operator_u8 Operator_Gt = 5"
| "Operator_u8 Operator_Ge = 6"

definition Operator_from_u8 :: "u8 \<Rightarrow> Operator option" where
  "Operator_from_u8 value =
     (if value = 1 then Some Operator_Eq
      else if value = 2 then Some Operator_Ne
      else if value = 3 then Some Operator_Lt
      else if value = 4 then Some Operator_Le
      else if value = 5 then Some Operator_Gt
      else if value = 6 then Some Operator_Ge
      else None)"

datatype Error =
    Malformed | UnsupportedVersion | Oversized | BadSignature | Replay | CryptoFailure
  | WrongRecipient | WrongMessageType | WrongHandler | RandomFailure | Capacity
  | UnauthorizedEnvironment

lemma MessageType_from_u8_iff:
  "MessageType_from_u8 b = Some t \<longleftrightarrow> b = MessageType_u8 t"
  by (cases t) (auto simp: MessageType_from_u8_def)

lemma MessageType_from_to [simp]: "MessageType_from_u8 (MessageType_u8 t) = Some t"
  by (simp add: MessageType_from_u8_iff)

lemma Operator_from_u8_iff: "Operator_from_u8 b = Some t \<longleftrightarrow> b = Operator_u8 t"
  by (cases t) (auto simp: Operator_from_u8_def)

lemma Operator_from_to [simp]: "Operator_from_u8 (Operator_u8 t) = Some t"
  by (simp add: Operator_from_u8_iff)

lemma MessageType_u8_inject [simp]: "MessageType_u8 s = MessageType_u8 t \<longleftrightarrow> s = t"
  by (metis MessageType_from_to option.inject)

lemma Operator_u8_inject [simp]: "Operator_u8 s = Operator_u8 t \<longleftrightarrow> s = t"
  by (metis Operator_from_to option.inject)

end
