(* ===== verification/Replay.thy ===== *)
theory Replay
  imports Types
begin

text \<open>
  Replay protection. The trait \<open>ReplayProtector\<close> of \<open>protocol-core/src/traits.rs\<close> is the locale
  \<open>replay_protector\<close>; its two implementations are \<open>FixedReplayCache\<close> of
  \<open>agent-core/src/lib.rs\<close> (an array of optional entries) and \<open>ReplayCache\<close> of
  \<open>ca-core/src/lib.rs\<close> (a bounded ordered map). Both are shown to compute the same abstract
  step on the partial map from sessions to expiry times, and the guarantee that an accepted
  session is refused until it expires is proved once, for every sequence of calls.
\<close>

section \<open>FixedReplayCache\<close>

record ReplayEntry =
  replay_sender :: AgentId
  replay_session :: SessionId
  replay_expires_at :: u64

record FixedReplayCache =
  fixed_entries :: "ReplayEntry option list"
  fixed_ttl_seconds :: u64

definition FixedReplayCache_new :: "nat \<Rightarrow> u64 \<Rightarrow> FixedReplayCache" where
  "FixedReplayCache_new N ttl_seconds = \<lparr>fixed_entries = replicate N None, fixed_ttl_seconds = ttl_seconds\<rparr>"

definition FixedReplayCache_len :: "FixedReplayCache \<Rightarrow> usize" where
  "FixedReplayCache_len cache = length (filter (\<lambda>entry. entry \<noteq> None) (fixed_entries cache))"

definition expire_entry :: "u64 \<Rightarrow> ReplayEntry option \<Rightarrow> ReplayEntry option" where
  "expire_entry now_seconds entry =
     (case entry of None \<Rightarrow> None
      | Some e \<Rightarrow> if replay_expires_at e \<le> now_seconds then None else Some e)"

text \<open>\<open>iter_mut().find(|entry| entry.is_none())\<close> followed by the assignment through it.\<close>

fun fill_vacant :: "ReplayEntry \<Rightarrow> ReplayEntry option list \<Rightarrow> ReplayEntry option list option" where
  "fill_vacant e [] = None"
| "fill_vacant e (None # entries) = Some (Some e # entries)"
| "fill_vacant e (Some x # entries) =
     (case fill_vacant e entries of None \<Rightarrow> None | Some entries \<Rightarrow> Some (Some x # entries))"

definition fixed_check_and_mark ::
  "FixedReplayCache \<Rightarrow> AgentId \<Rightarrow> SessionId \<Rightarrow> u64 \<Rightarrow> (Error + unit) \<times> FixedReplayCache" where
  "fixed_check_and_mark cache sender session now_seconds =
     (let entries = map (expire_entry now_seconds) (fixed_entries cache);
          cache = cache\<lparr>fixed_entries := entries\<rparr> in
      if list_ex (\<lambda>entry. case entry of None \<Rightarrow> False
           | Some e \<Rightarrow> replay_sender e = sender \<and> replay_session e = session) entries
      then (Inl Replay, cache)
      else case fill_vacant \<lparr>replay_sender = sender, replay_session = session,
             replay_expires_at = saturating_add now_seconds (fixed_ttl_seconds cache)\<rparr> entries of
        None \<Rightarrow> (Inl Capacity, cache)
      | Some entries \<Rightarrow> (Inr (), cache\<lparr>fixed_entries := entries\<rparr>))"

section \<open>ReplayCache\<close>

record ReplayCache =
  cache_entries :: "(AgentId \<times> SessionId, u64) btree"
  cache_maximum :: usize
  cache_ttl_seconds :: u64

definition ReplayCache_new :: "usize \<Rightarrow> u64 \<Rightarrow> ReplayCache" where
  "ReplayCache_new maximum ttl_seconds =
     \<lparr>cache_entries = bt_empty, cache_maximum = maximum, cache_ttl_seconds = ttl_seconds\<rparr>"

definition cache_check_and_mark ::
  "ReplayCache \<Rightarrow> AgentId \<Rightarrow> SessionId \<Rightarrow> u64 \<Rightarrow> (Error + unit) \<times> ReplayCache" where
  "cache_check_and_mark cache sender session now_seconds =
     (let cache = cache\<lparr>cache_entries := bt_retain (\<lambda>_ expires. expires > now_seconds) (cache_entries cache)\<rparr> in
      if bt_contains_key (cache_entries cache) (sender, session) then (Inl Replay, cache)
      else if bt_len (cache_entries cache) \<ge> cache_maximum cache then (Inl Capacity, cache)
      else
        let expires = saturating_add now_seconds (cache_ttl_seconds cache) in
        (Inr (), cache\<lparr>cache_entries := bt_insert (sender, session) expires (cache_entries cache)\<rparr>))"

section \<open>The contract\<close>

type_synonym replay_map = "AgentId \<times> SessionId \<rightharpoonup> u64"

definition unexpired :: "u64 \<Rightarrow> replay_map \<Rightarrow> replay_map" where
  "unexpired now m = (\<lambda>k. case m k of None \<Rightarrow> None | Some x \<Rightarrow> if x > now then Some x else None)"

lemma unexpired_Some: "unexpired now m k = Some x \<longleftrightarrow> m k = Some x \<and> x > now"
  by (auto simp: unexpired_def split: option.splits)

lemma dom_unexpired: "dom (unexpired now m) \<subseteq> dom m"
  by (auto simp: unexpired_def dom_def split: option.splits)

text \<open>The step every implementation takes on the map of remembered sessions.\<close>

definition replay_step ::
  "nat \<Rightarrow> u64 \<Rightarrow> replay_map \<Rightarrow> AgentId \<times> SessionId \<Rightarrow> u64 \<Rightarrow> (Error + unit) \<times> replay_map" where
  "replay_step maximum ttl m k now =
     (let m = unexpired now m in
      if k \<in> dom m then (Inl Replay, m)
      else if card (dom m) \<ge> maximum then (Inl Capacity, m)
      else (Inr (), m(k \<mapsto> saturating_add now ttl)))"

text \<open>A sequence of calls, each with its own clock reading.\<close>

fun mark_all ::
  "('s \<Rightarrow> AgentId \<Rightarrow> SessionId \<Rightarrow> u64 \<Rightarrow> (Error + unit) \<times> 's) \<Rightarrow> ((AgentId \<times> SessionId) \<times> u64) list \<Rightarrow> 's \<Rightarrow> 's"
  where
  "mark_all mark [] s = s"
| "mark_all mark (((a, b), now) # calls) s = mark_all mark calls (snd (mark s a b now))"

locale replay_protector =
  fixes mark :: "'s \<Rightarrow> AgentId \<Rightarrow> SessionId \<Rightarrow> u64 \<Rightarrow> (Error + unit) \<times> 's"
    and remembered :: "'s \<Rightarrow> replay_map"
    and maximum :: "'s \<Rightarrow> nat"
    and ttl :: "'s \<Rightarrow> u64"
    and inv :: "'s \<Rightarrow> bool"
  assumes inv_mark: "inv s \<Longrightarrow> inv (snd (mark s a b now))"
    and maximum_mark: "maximum (snd (mark s a b now)) = maximum s"
    and ttl_mark: "ttl (snd (mark s a b now)) = ttl s"
    and finite_remembered: "finite (dom (remembered s))"
    and mark_result: "inv s \<Longrightarrow> fst (mark s a b now) =
          fst (replay_step (maximum s) (ttl s) (remembered s) (a, b) now)"
    and mark_remembered: "inv s \<Longrightarrow> remembered (snd (mark s a b now)) =
          snd (replay_step (maximum s) (ttl s) (remembered s) (a, b) now)"
begin

lemma accepted_remembered:
  assumes "inv s" "fst (mark s a b now) = Inr ()"
  shows "remembered (snd (mark s a b now)) (a, b) = Some (saturating_add now (ttl s))"
  using assms by (auto simp: mark_result mark_remembered replay_step_def Let_def split: if_splits)

lemma remembered_refused:
  assumes "inv s" "remembered s (a, b) = Some x" "now < x"
  shows "fst (mark s a b now) = Inl Replay"
proof -
  have "unexpired now (remembered s) (a, b) = Some x" using assms by (simp add: unexpired_Some)
  then have "(a, b) \<in> dom (unexpired now (remembered s))" by blast
  with assms(1) show ?thesis by (simp add: mark_result replay_step_def)
qed

lemma remembered_kept:
  assumes "inv s" "remembered s k = Some x" "now < x"
  shows "remembered (snd (mark s a b now)) k = Some x"
proof -
  have k: "unexpired now (remembered s) k = Some x" using assms by (simp add: unexpired_Some)
  then have "k \<in> dom (unexpired now (remembered s))" by blast
  with k assms(1) show ?thesis by (auto simp: mark_remembered replay_step_def Let_def)
qed

lemma inv_marks: "inv s \<Longrightarrow> inv (mark_all mark calls s)"
  by (induction calls arbitrary: s) (auto simp: inv_mark)

lemma marks_kept:
  "inv s \<Longrightarrow> remembered s k = Some x \<Longrightarrow> \<forall>(_, now)\<in>set calls. now < x \<Longrightarrow>
     remembered (mark_all mark calls s) k = Some x"
  by (induction calls arbitrary: s) (auto simp: inv_mark remembered_kept)

lemma no_replay_until_expiry:
  assumes "inv s" "fst (mark s a b now) = Inr ()"
    and "\<forall>(_, t)\<in>set calls. t < saturating_add now (ttl s)" "later < saturating_add now (ttl s)"
  shows "fst (mark (mark_all mark calls (snd (mark s a b now))) a b later) = Inl Replay"
  using assms by (intro remembered_refused [OF inv_marks [OF inv_mark] marks_kept [OF inv_mark accepted_remembered]])

text \<open>The memory never holds more than \<open>maximum\<close> sessions, and a full memory refuses new ones.\<close>

lemma bounded_mark:
  assumes "inv s" "card (dom (remembered s)) \<le> maximum s"
  shows "card (dom (remembered (snd (mark s a b now)))) \<le> maximum (snd (mark s a b now))"
proof -
  have fin: "finite (dom (unexpired now (remembered s)))"
    using finite_subset [OF dom_unexpired finite_remembered] .
  have "card (dom (unexpired now (remembered s))) \<le> maximum s"
    using card_mono [OF finite_remembered dom_unexpired] assms(2) le_trans by blast
  with fin assms(1) show ?thesis
    by (auto simp: mark_remembered maximum_mark replay_step_def Let_def card_insert_if)
qed

lemma bounded_marks:
  "inv s \<Longrightarrow> card (dom (remembered s)) \<le> maximum s \<Longrightarrow>
     card (dom (remembered (mark_all mark calls s))) \<le> maximum (mark_all mark calls s)"
proof (induction calls arbitrary: s)
  case (Cons call calls)
  obtain a b now where "call = ((a, b), now)" by (metis prod.exhaust)
  with Cons show ?case using bounded_mark [of s a b now] inv_mark [of s a b now] by simp
qed simp

end

section \<open>FixedReplayCache implements the contract\<close>

definition entry_key :: "ReplayEntry \<Rightarrow> AgentId \<times> SessionId" where
  "entry_key e = (replay_sender e, replay_session e)"

definition held :: "ReplayEntry option list \<Rightarrow> ReplayEntry list" where
  "held entries = concat (map (\<lambda>entry. case entry of None \<Rightarrow> [] | Some e \<Rightarrow> [e]) entries)"

definition fixed_remembered :: "FixedReplayCache \<Rightarrow> replay_map" where
  "fixed_remembered cache = map_of (map (\<lambda>e. (entry_key e, replay_expires_at e)) (held (fixed_entries cache)))"

definition fixed_inv :: "FixedReplayCache \<Rightarrow> bool" where
  "fixed_inv cache \<longleftrightarrow> distinct (map entry_key (held (fixed_entries cache)))"

lemma held_simps [simp]:
  "held [] = []" "held (None # entries) = held entries" "held (Some e # entries) = e # held entries"
  by (simp_all add: held_def)

lemma held_expire:
  "held (map (expire_entry now) entries) = filter (\<lambda>e. replay_expires_at e > now) (held entries)"
proof (induction entries)
  case (Cons x xs)
  then show ?case by (cases x) (auto simp: expire_entry_def)
qed simp

lemma map_of_filter_entries:
  "distinct (map entry_key es) \<Longrightarrow>
     map_of (map (\<lambda>e. (entry_key e, replay_expires_at e)) (filter (\<lambda>e. replay_expires_at e > now) es)) =
       unexpired now (map_of (map (\<lambda>e. (entry_key e, replay_expires_at e)) es))"
proof (induction es)
  case (Cons e es)
  have "map_of (map (\<lambda>e. (entry_key e, replay_expires_at e)) es) (entry_key e) = None"
    using Cons.prems by (force simp: map_of_eq_None_iff)
  with Cons show ?case by (auto simp: unexpired_def fun_eq_iff)
qed (simp add: unexpired_def)

lemma fill_vacant_None: "fill_vacant e entries = None \<longleftrightarrow> length entries \<le> length (held entries)"
proof (induction e entries rule: fill_vacant.induct)
  case (2 e entries)
  have "length (held es) \<le> length es" for es
  proof (induction es)
    case (Cons x xs) then show ?case by (cases x) simp_all
  qed simp
  from this [of entries] show ?case by simp
qed (auto split: option.splits)

lemma fill_vacant_Some:
  assumes "fill_vacant e entries = Some entries'"
  shows "length entries' = length entries"
    and "\<exists>xs ys. held entries = xs @ ys \<and> held entries' = xs @ e # ys"
proof -
  have "length entries' = length entries \<and> (\<exists>xs ys. held entries = xs @ ys \<and> held entries' = xs @ e # ys)"
    using assms
  proof (induction e entries arbitrary: entries' rule: fill_vacant.induct)
    case (2 e entries)
    then show ?case by (auto intro: exI [of _ "[]"])
  next
    case (3 e x entries)
    then show ?case by (auto split: option.splits) (metis append_Cons)+
  qed simp
  then show "length entries' = length entries" "\<exists>xs ys. held entries = xs @ ys \<and> held entries' = xs @ e # ys"
    by blast+
qed

lemma map_of_insert_entry:
  "k \<notin> fst ` set (xs @ ys) \<Longrightarrow> map_of (xs @ (k, v) # ys) = (map_of (xs @ ys))(k \<mapsto> v)"
  by (induction xs) auto

lemma list_ex_held:
  "list_ex (\<lambda>entry. case entry of None \<Rightarrow> False
     | Some e \<Rightarrow> replay_sender e = a \<and> replay_session e = b) entries \<longleftrightarrow> (a, b) \<in> entry_key ` set (held entries)"
proof (induction entries)
  case (Cons x xs)
  then show ?case by (cases x) (auto simp: entry_key_def)
qed simp

lemma fixed_mark_step:
  assumes "fixed_inv cache"
  shows "fixed_inv (snd (fixed_check_and_mark cache a b now)) \<and>
    (fst (fixed_check_and_mark cache a b now), fixed_remembered (snd (fixed_check_and_mark cache a b now))) =
      replay_step (length (fixed_entries cache)) (fixed_ttl_seconds cache) (fixed_remembered cache) (a, b) now"
proof -
  let ?es = "map (expire_entry now) (fixed_entries cache)" and ?kv = "\<lambda>e. (entry_key e, replay_expires_at e)"
  let ?m = "unexpired now (fixed_remembered cache)"
  let ?e = "\<lparr>replay_sender = a, replay_session = b,
    replay_expires_at = saturating_add now (fixed_ttl_seconds cache)\<rparr>"
  have dist: "distinct (map entry_key (held ?es))"
    using assms by (simp add: fixed_inv_def held_expire distinct_map_filter)
  have m: "map_of (map ?kv (held ?es)) = ?m"
    using assms by (simp add: held_expire map_of_filter_entries fixed_inv_def fixed_remembered_def)
  have dom: "dom ?m = entry_key ` set (held ?es)"
    unfolding m [symmetric] by (simp add: dom_map_of_conv_image_fst image_image)
  have card: "card (entry_key ` set (held ?es)) = length (held ?es)"
    using distinct_card [OF dist] by simp
  have upd: "fixed_remembered (cache\<lparr>fixed_entries := es\<rparr>) = map_of (map ?kv (held es))"
    "fixed_inv (cache\<lparr>fixed_entries := es\<rparr>) \<longleftrightarrow> distinct (map entry_key (held es))" for es
    by (simp_all add: fixed_remembered_def fixed_inv_def)
  show ?thesis
  proof (cases "fill_vacant ?e ?es")
    case None
    with fill_vacant_None [of ?e ?es] have "length (fixed_entries cache) \<le> length (held ?es)" by simp
    with None m dist show ?thesis
      by (simp add: fixed_check_and_mark_def replay_step_def Let_def list_ex_held dom card
          upd)
  next
    case (Some entries')
    obtain xs ys where h: "held ?es = xs @ ys" "held entries' = xs @ ?e # ys"
      using fill_vacant_Some(2) [OF Some] by blast
    have len: "\<not> length (fixed_entries cache) \<le> length (held ?es)"
      using Some fill_vacant_None [of ?e ?es] by simp
    have "fixed_inv (cache\<lparr>fixed_entries := entries'\<rparr>) \<and>
        fixed_remembered (cache\<lparr>fixed_entries := entries'\<rparr>) = ?m((a, b) \<mapsto> saturating_add now (fixed_ttl_seconds cache))"
      if "(a, b) \<notin> entry_key ` set (held ?es)"
      using that dist map_of_insert_entry [of "(a, b)" "map ?kv xs" "map ?kv ys"]
      by (simp add: upd h m [symmetric] entry_key_def image_Un image_image)
    with Some m dist len show ?thesis
      by (simp add: fixed_check_and_mark_def replay_step_def Let_def list_ex_held dom card
          upd)
  qed
qed

interpretation fixed: replay_protector fixed_check_and_mark fixed_remembered
  "\<lambda>cache. length (fixed_entries cache)" fixed_ttl_seconds fixed_inv
proof unfold_locales
  fix s :: FixedReplayCache and a b now
  show "length (fixed_entries (snd (fixed_check_and_mark s a b now))) = length (fixed_entries s)"
    using fill_vacant_Some(1) by (force simp: fixed_check_and_mark_def Let_def split: option.splits)
  show "fixed_ttl_seconds (snd (fixed_check_and_mark s a b now)) = fixed_ttl_seconds s"
    by (simp add: fixed_check_and_mark_def Let_def split: option.splits)
  show "finite (dom (fixed_remembered s))" by (simp add: fixed_remembered_def finite_dom_map_of)
  assume "fixed_inv s"
  note step = fixed_mark_step [OF this, of a b now]
  then show "fixed_inv (snd (fixed_check_and_mark s a b now))" ..
  show "fst (fixed_check_and_mark s a b now) =
      fst (replay_step (length (fixed_entries s)) (fixed_ttl_seconds s) (fixed_remembered s) (a, b) now)"
    "fixed_remembered (snd (fixed_check_and_mark s a b now)) =
      snd (replay_step (length (fixed_entries s)) (fixed_ttl_seconds s) (fixed_remembered s) (a, b) now)"
    using step by (metis fst_conv, metis snd_conv)
qed

section \<open>ReplayCache implements the contract\<close>

definition cache_inv :: "ReplayCache \<Rightarrow> bool" where
  "cache_inv cache \<longleftrightarrow> bt_wf (cache_entries cache)"

definition cache_remembered :: "ReplayCache \<Rightarrow> replay_map" where
  "cache_remembered cache = bt_get (cache_entries cache)"

lemma get_retain_unexpired:
  "bt_wf m \<Longrightarrow> bt_get (bt_retain (\<lambda>_ expires. expires > now) m) = unexpired now (bt_get m)"
  by (auto simp: bt.get_retain unexpired_def fun_eq_iff split: option.splits)

interpretation cache: replay_protector cache_check_and_mark cache_remembered
  cache_maximum cache_ttl_seconds cache_inv
proof unfold_locales
  fix s :: ReplayCache and a b now
  assume inv: "cache_inv s"
  then have wf: "bt_wf (bt_retain (\<lambda>_ expires. expires > now) (cache_entries s))"
    by (simp add: cache_inv_def)
  have "(fst (cache_check_and_mark s a b now), cache_remembered (snd (cache_check_and_mark s a b now))) =
      replay_step (cache_maximum s) (cache_ttl_seconds s) (cache_remembered s) (a, b) now"
    using inv
    by (auto simp: cache_check_and_mark_def replay_step_def Let_def cache_remembered_def bt_contains_key_def
        bt.len_card [OF wf] get_retain_unexpired cache_inv_def bt.keys_insert fun_eq_iff split: if_splits)
  then show "fst (cache_check_and_mark s a b now) =
      fst (replay_step (cache_maximum s) (cache_ttl_seconds s) (cache_remembered s) (a, b) now)"
    "cache_remembered (snd (cache_check_and_mark s a b now)) =
      snd (replay_step (cache_maximum s) (cache_ttl_seconds s) (cache_remembered s) (a, b) now)"
    by (metis fst_conv, metis snd_conv)
  show "cache_inv (snd (cache_check_and_mark s a b now))"
    using inv by (simp add: cache_check_and_mark_def cache_inv_def Let_def)
qed (simp_all add: cache_check_and_mark_def Let_def cache_remembered_def bt.finite_keys)

section \<open>Properties\<close>

text \<open>The agent's cache. After a session was accepted at \<open>now\<close>, whatever calls follow, at clock
  readings before \<open>now + ttl\<close> (saturating), the same session is refused as \<open>Replay\<close> by every
  call before that time.\<close>

theorem fixed_cache_no_replay:
  assumes "fixed_inv cache" "fst (fixed_check_and_mark cache a b now) = Inr ()"
    and "\<forall>(_, t)\<in>set calls. t < saturating_add now (fixed_ttl_seconds cache)"
    and "later < saturating_add now (fixed_ttl_seconds cache)"
  shows "fst (fixed_check_and_mark
    (mark_all fixed_check_and_mark calls (snd (fixed_check_and_mark cache a b now))) a b later) = Inl Replay"
  using assms by (rule fixed.no_replay_until_expiry)

theorem fixed_cache_witness:
  "fst (fixed_check_and_mark (mark_all fixed_check_and_mark [((AgentId 2, SessionId 8), 12)]
     (snd (fixed_check_and_mark (FixedReplayCache_new 1 10) (AgentId 1) (SessionId 7) 5))) (AgentId 1) (SessionId 7) 14) =
   Inl Replay"
  by (rule fixed_cache_no_replay)
    (simp_all add: fixed_inv_def FixedReplayCache_new_def fixed_check_and_mark_def saturating_add_def expire_entry_def)

text \<open>The same guarantee for the CA's cache, which is a bounded ordered map.\<close>

theorem cache_no_replay:
  assumes "cache_inv cache" "fst (cache_check_and_mark cache a b now) = Inr ()"
    and "\<forall>(_, t)\<in>set calls. t < saturating_add now (cache_ttl_seconds cache)"
    and "later < saturating_add now (cache_ttl_seconds cache)"
  shows "fst (cache_check_and_mark
    (mark_all cache_check_and_mark calls (snd (cache_check_and_mark cache a b now))) a b later) = Inl Replay"
  using assms by (rule cache.no_replay_until_expiry)

theorem cache_no_replay_witness:
  "fst (cache_check_and_mark (mark_all cache_check_and_mark [((AgentId 2, SessionId 8), 12)]
     (snd (cache_check_and_mark (ReplayCache_new 1 10) (AgentId 1) (SessionId 7) 5))) (AgentId 1) (SessionId 7) 14) =
   Inl Replay"
  by (rule cache_no_replay)
    (simp_all add: cache_inv_def ReplayCache_new_def cache_check_and_mark_def saturating_add_def
      bt_contains_key_def bt.get_retain bt.len_retain bt_retain_def bt_empty_def bt_len_def bt_get_def bt_wf_def)

text \<open>The CA's cache never holds more entries than its maximum, after any sequence of calls
  from an empty cache.\<close>

theorem cache_bounded:
  "bt_len (cache_entries (mark_all cache_check_and_mark calls (ReplayCache_new maximum ttl))) \<le> maximum"
proof -
  have new: "cache_inv (ReplayCache_new maximum ttl)" "cache_remembered (ReplayCache_new maximum ttl) = Map.empty"
    by (auto simp: cache_inv_def ReplayCache_new_def cache_remembered_def)
  have "cache_maximum (mark_all cache_check_and_mark calls c) = cache_maximum c" for c
    by (induction calls arbitrary: c) (auto simp: cache.maximum_mark)
  then have "card (dom (cache_remembered (mark_all cache_check_and_mark calls (ReplayCache_new maximum ttl)))) \<le> maximum"
    using cache.bounded_marks [OF new(1), of calls] new(2) by (simp add: ReplayCache_new_def)
  then show ?thesis
    using cache.inv_marks [OF new(1), of calls] by (simp add: cache_remembered_def cache_inv_def bt.len_card)
qed

end
