(* ===== verification/Codec.thy ===== *)
theory Codec
  imports Types
begin

text \<open>
  \<open>protocol-core/src/codec.rs\<close>: the canonical envelope. \<open>encode_header\<close> writes the fixed
  header into the caller's buffer, \<open>parse_envelope\<close> validates a complete frame. The
  specification is the explicit frame layout \<open>frame_bytes\<close>: the parser accepts exactly the
  frames of that shape and returns their fields, and the encoder writes that header.
\<close>

record EnvelopeRef =
  envelope_message_type :: MessageType
  envelope_sender :: AgentId
  envelope_recipient :: AgentId
  envelope_handler :: HandlerId
  envelope_session_id :: SessionId
  envelope_ephemeral_public :: array32
  envelope_salt :: array32
  envelope_ciphertext :: bytes
  envelope_tag :: array16
  envelope_signature :: array64
  envelope_header :: bytes
  envelope_signed_bytes :: bytes

definition array_copy :: "bytes \<Rightarrow> Error + 'a::len word" where
  "array_copy bs = ok_or (try_into_array bs) Malformed"

definition read_u32 :: "bytes \<Rightarrow> Error + u32" where
  "read_u32 bs = array_copy bs"

definition total_frame_len :: "usize \<Rightarrow> usize option" where
  "total_frame_len ciphertext_len =
     Option.bind (checked_add HEADER_LEN ciphertext_len)
       (\<lambda>v. checked_add v (TAG_LEN + SIGNATURE_LEN))"

definition encode_header ::
  "bytes \<Rightarrow> MessageType \<Rightarrow> AgentId \<Rightarrow> AgentId \<Rightarrow> HandlerId \<Rightarrow> SessionId \<Rightarrow> array32 \<Rightarrow> array32
     \<Rightarrow> usize \<Rightarrow> (Error + usize) \<times> bytes" where
  "encode_header output message_type sender recipient handler session_id ephemeral_public salt
     ciphertext_len =
   (if ciphertext_len > MAX_PLAINTEXT_LEN then (Inl Oversized, output)
    else case total_frame_len ciphertext_len of
      None \<Rightarrow> (Inl Oversized, output)
    | Some total_len \<Rightarrow>
        if length output < HEADER_LEN \<or> total_len > MAX_FRAME_LEN then (Inl Oversized, output)
        else if \<not> total_len < 2 ^ 32 then (Inl Oversized, output)
        else if \<not> ciphertext_len < 2 ^ 32 then (Inl Oversized, output)
        else
          let total_u32 = (of_nat total_len :: u32);
              cipher_u32 = (of_nat ciphertext_len :: u32);
              output = copy_at output 0 MAGIC;
              output = output[8 := VERSION];
              output = output[9 := MessageType_u8 message_type];
              output = copy_at output 10 (to_be_bytes (0 :: u16));
              output = copy_at output 12 (to_be_bytes total_u32);
              output = copy_at output 16 (to_be_bytes (agent_array sender));
              output = copy_at output 32 (to_be_bytes (agent_array recipient));
              output = copy_at output 48 (to_be_bytes (handler_array handler));
              output = copy_at output 64 (to_be_bytes (session_array session_id));
              output = copy_at output 80 (to_be_bytes ephemeral_public);
              output = copy_at output 112 (to_be_bytes salt);
              output = copy_at output 144 (to_be_bytes cipher_u32)
          in (Inr total_len, output))"

definition parse_envelope :: "bytes \<Rightarrow> Error + EnvelopeRef" where
  "parse_envelope input =
   (if length input < HEADER_LEN + TAG_LEN + SIGNATURE_LEN then Inl Malformed
    else if length input > MAX_FRAME_LEN then Inl Oversized
    else if get_range input 0 8 \<noteq> Some MAGIC then Inl Malformed
    else if input ! 8 \<noteq> VERSION then Inl UnsupportedVersion
    else tryE (ok_or (MessageType_from_u8 (input ! 9)) Malformed) (\<lambda>message_type.
    if range_of input 10 12 \<noteq> [0, 0] then Inl Malformed
    else tryE (read_u32 (range_of input 12 16)) (\<lambda>total.
    let total_len = unat total in
    if total_len \<noteq> length input then Inl Malformed
    else tryE (read_u32 (range_of input 144 148)) (\<lambda>cipher.
    let ciphertext_len = unat cipher in
    if ciphertext_len > MAX_PLAINTEXT_LEN then Inl Oversized
    else tryE (ok_or (total_frame_len ciphertext_len) Oversized) (\<lambda>expected.
    if expected \<noteq> total_len then Inl Malformed
    else
    let ciphertext_end = HEADER_LEN + ciphertext_len;
        tag_end = ciphertext_end + TAG_LEN in
    tryE (array_copy (range_of input 80 112)) (\<lambda>ephemeral_public.
    tryE (array_copy (range_of input 112 144)) (\<lambda>salt.
    tryE (array_copy (range_of input ciphertext_end tag_end)) (\<lambda>tag.
    tryE (array_copy (range_of input tag_end total_len)) (\<lambda>signature.
    tryE (array_copy (range_of input 16 32)) (\<lambda>sender.
    tryE (array_copy (range_of input 32 48)) (\<lambda>recipient.
    tryE (array_copy (range_of input 48 64)) (\<lambda>handler.
    tryE (array_copy (range_of input 64 80)) (\<lambda>session_id.
    Inr \<lparr>envelope_message_type = message_type,
         envelope_sender = AgentId sender,
         envelope_recipient = AgentId recipient,
         envelope_handler = HandlerId handler,
         envelope_session_id = SessionId session_id,
         envelope_ephemeral_public = ephemeral_public,
         envelope_salt = salt,
         envelope_ciphertext = range_of input HEADER_LEN ciphertext_end,
         envelope_tag = tag,
         envelope_signature = signature,
         envelope_header = range_of input 0 HEADER_LEN,
         envelope_signed_bytes = range_of input 0 tag_end\<rparr>)))))))))))))"

section \<open>The frame layout\<close>

text \<open>The specification: the fields of a frame, in wire order.\<close>

definition header_bytes ::
  "MessageType \<Rightarrow> AgentId \<Rightarrow> AgentId \<Rightarrow> HandlerId \<Rightarrow> SessionId \<Rightarrow> array32 \<Rightarrow> array32 \<Rightarrow> usize \<Rightarrow> bytes"
  where
  "header_bytes message_type sender recipient handler session_id ephemeral_public salt n =
     MAGIC @ [VERSION] @ [MessageType_u8 message_type] @ [0, 0]
     @ to_be_bytes (of_nat (HEADER_LEN + n + TAG_LEN + SIGNATURE_LEN) :: u32)
     @ to_be_bytes (agent_array sender) @ to_be_bytes (agent_array recipient)
     @ to_be_bytes (handler_array handler) @ to_be_bytes (session_array session_id)
     @ to_be_bytes ephemeral_public @ to_be_bytes salt @ to_be_bytes (of_nat n :: u32)"

definition frame_bytes :: "EnvelopeRef \<Rightarrow> bytes" where
  "frame_bytes e =
     header_bytes (envelope_message_type e) (envelope_sender e) (envelope_recipient e)
       (envelope_handler e) (envelope_session_id e) (envelope_ephemeral_public e)
       (envelope_salt e) (length (envelope_ciphertext e))
     @ envelope_ciphertext e @ to_be_bytes (envelope_tag e) @ to_be_bytes (envelope_signature e)"

definition envelope_wf :: "EnvelopeRef \<Rightarrow> bool" where
  "envelope_wf e \<longleftrightarrow>
     length (envelope_ciphertext e) \<le> MAX_PLAINTEXT_LEN \<and>
     envelope_header e =
       header_bytes (envelope_message_type e) (envelope_sender e) (envelope_recipient e)
         (envelope_handler e) (envelope_session_id e) (envelope_ephemeral_public e)
         (envelope_salt e) (length (envelope_ciphertext e)) \<and>
     envelope_signed_bytes e =
       envelope_header e @ envelope_ciphertext e @ to_be_bytes (envelope_tag e)"

lemma length_header_bytes [simp]: "length (header_bytes t s r h i p x n) = 148"
  by (simp add: header_bytes_def)

lemma length_frame_bytes: "length (frame_bytes e) = 228 + length (envelope_ciphertext e)"
  by (simp add: frame_bytes_def)

lemma total_frame_len_small: "n \<le> MAX_PLAINTEXT_LEN \<Longrightarrow> total_frame_len n = Some (n + 228)"
  by (simp add: total_frame_len_def checked_add_def const_defs)

lemma array_copy_Inr_iff [simp]:
  assumes "8 dvd LENGTH('a)"
  shows "array_copy bs = Inr (w :: 'a::len word) \<longleftrightarrow> bs = to_be_bytes w"
  using assms by (simp add: array_copy_def ok_or_Inr_iff try_into_array_Some_iff)

lemma array_copy_to_be_bytes [simp]:
  assumes "8 dvd LENGTH('a)"
  shows "array_copy (to_be_bytes w) = Inr (w :: 'a::len word)"
  using assms by simp

lemma array_copy_exact:
  assumes "8 dvd LENGTH('a)" "length bs = LENGTH('a) div 8"
  shows "array_copy bs = Inr (from_be_bytes bs :: 'a::len word)"
  using assms by simp

section \<open>Encoding\<close>

text \<open>Consecutive copies that start at the front of a buffer lay the pieces out in order.\<close>

fun copies :: "bytes \<Rightarrow> nat \<Rightarrow> bytes list \<Rightarrow> bytes" where
  "copies out a [] = out"
| "copies out a (c # cs) = copies (copy_at out a c) (a + length c) cs"

lemma copies_append:
  "length pre = a \<Longrightarrow> copies (pre @ drop a out) a cs =
     pre @ concat cs @ drop (a + length (concat cs)) out"
proof (induction cs arbitrary: pre a)
  case (Cons c cs)
  have "copy_at (pre @ drop a out) a c = (pre @ c) @ drop (a + length c) out"
    using Cons.prems by (simp add: range_simps add.commute)
  with Cons.IH [of "pre @ c" "a + length c"] Cons.prems show ?case
    by (simp add: add.assoc)
qed simp

lemma to_be_bytes_0_u16 [simp]: "to_be_bytes (0 :: u16) = [0, 0]"
  by (simp add: to_be_bytes_def numeral_2_eq_2)

lemma list_update_copy_at: "i < length xs \<Longrightarrow> xs[i := v] = copy_at xs i [v]"
  by (simp add: copy_at_def upd_conv_take_nth_drop)

lemma encode_header_ok:
  assumes "n \<le> MAX_PLAINTEXT_LEN" "HEADER_LEN \<le> length output"
  shows "encode_header output t s r h i p x n = (Inr (n + 228), header_bytes t s r h i p x n @ drop 148 output)"
proof -
  let ?chunks = "[MAGIC, [VERSION], [MessageType_u8 t], to_be_bytes (0 :: u16),
    to_be_bytes (of_nat (n + 228) :: u32), to_be_bytes (agent_array s), to_be_bytes (agent_array r),
    to_be_bytes (handler_array h), to_be_bytes (session_array i), to_be_bytes p, to_be_bytes x,
    to_be_bytes (of_nat n :: u32)]"
  have "encode_header output t s r h i p x n = (Inr (n + 228), copies output 0 ?chunks)"
    using assms
    by (simp add: encode_header_def total_frame_len_small list_update_copy_at Let_def const_defs)
  also have "copies output 0 ?chunks = concat ?chunks @ drop 148 output"
    using copies_append [where pre = "[]" and a = 0 and out = "output" and cs = ?chunks] by simp
  also have "concat ?chunks = header_bytes t s r h i p x n"
    by (simp add: header_bytes_def const_defs add.commute)
  finally show ?thesis .
qed

lemma encode_header_err:
  assumes "\<not> (n \<le> MAX_PLAINTEXT_LEN \<and> HEADER_LEN \<le> length output)"
  shows "encode_header output t s r h i p x n = (Inl Oversized, output)"
  using assms total_frame_len_small [of n] by (auto simp: encode_header_def not_le)

section \<open>Parsing\<close>

lemma range_of_Cons [range_simps]:
  "0 < a \<Longrightarrow> range_of (x # xs) a b = range_of xs (a - 1) (b - 1)"
  by (cases a; cases b) (simp_all add: range_of_def)

lemma range_of_Cons_0 [range_simps]:
  "0 < b \<Longrightarrow> range_of (x # xs) 0 b = x # range_of xs 0 (b - 1)" "range_of xs 0 0 = []"
  by (cases b) (simp_all add: range_of_def)

lemma unat_of_nat_u32: "n < 2 ^ 32 \<Longrightarrow> unat (of_nat n :: u32) = n"
  by (simp add: unat_of_nat)

lemma read_u32_to_be_bytes [simp]: "read_u32 (to_be_bytes w) = Inr w"
  by (simp add: read_u32_def)

lemma read_u32_Inr_iff [simp]: "read_u32 bs = Inr w \<longleftrightarrow> bs = to_be_bytes w"
  by (simp add: read_u32_def)

lemma header_layout:
  assumes "length m = 8" "length l = 4" "length s = 16" "length r = 16" "length h = 16" "length i = 16" "length p = 32" "length x = 32" "length c = 4"
    and f: "f = m @ [v] @ [t] @ [0, 0] @ l @ s @ r @ h @ i @ p @ x @ c @ rest"
  shows "range_of f 0 8 = m" "f ! 8 = v" "f ! 9 = t" "range_of f 10 12 = [0, 0]" "range_of f 12 16 = l" "range_of f 16 32 = s"
    "range_of f 32 48 = r" "range_of f 48 64 = h" "range_of f 64 80 = i" "range_of f 80 112 = p" "range_of f 112 144 = x" "range_of f 144 148 = c"
  unfolding f by (simp_all add: range_of_def nth_append assms(1-9))

lemma header_fields:
  assumes f: "f = header_bytes t s r h i p x n @ rest"
  shows "range_of f 0 8 = MAGIC" "f ! 8 = VERSION" "f ! 9 = MessageType_u8 t"
    "range_of f 10 12 = [0, 0]"
    "range_of f 12 16 = to_be_bytes (of_nat (n + 228) :: u32)"
    "range_of f 16 32 = to_be_bytes (agent_array s)"
    "range_of f 32 48 = to_be_bytes (agent_array r)"
    "range_of f 48 64 = to_be_bytes (handler_array h)"
    "range_of f 64 80 = to_be_bytes (session_array i)"
    "range_of f 80 112 = to_be_bytes p"
    "range_of f 112 144 = to_be_bytes x"
    "range_of f 144 148 = to_be_bytes (of_nat n :: u32)"
proof -
  have "length MAGIC = 8" "HEADER_LEN + n + TAG_LEN + SIGNATURE_LEN = n + 228" by (simp_all add: const_defs)
  with f header_layout [of MAGIC "to_be_bytes (of_nat (n + 228) :: u32)" "to_be_bytes (agent_array s)" "to_be_bytes (agent_array r)"
      "to_be_bytes (handler_array h)" "to_be_bytes (session_array i)" "to_be_bytes p" "to_be_bytes x" "to_be_bytes (of_nat n :: u32)" f VERSION
      "MessageType_u8 t" rest]
  show "range_of f 0 8 = MAGIC" "f ! 8 = VERSION" "f ! 9 = MessageType_u8 t"
    "range_of f 10 12 = [0, 0]"
    "range_of f 12 16 = to_be_bytes (of_nat (n + 228) :: u32)"
    "range_of f 16 32 = to_be_bytes (agent_array s)"
    "range_of f 32 48 = to_be_bytes (agent_array r)"
    "range_of f 48 64 = to_be_bytes (handler_array h)"
    "range_of f 64 80 = to_be_bytes (session_array i)"
    "range_of f 80 112 = to_be_bytes p"
    "range_of f 112 144 = to_be_bytes x"
    "range_of f 144 148 = to_be_bytes (of_nat n :: u32)"
    by (simp_all add: header_bytes_def)
qed

lemma frame_payload_fields:
  assumes f: "f = hdr @ c @ to_be_bytes (t :: array16) @ to_be_bytes (g :: array64)"
    and len: "length hdr = 148" "length c = n"
  shows "range_of f 148 (148 + n) = c"
    "range_of f (148 + n) (164 + n) = to_be_bytes t"
    "range_of f (164 + n) (228 + n) = to_be_bytes g"
    "range_of f 0 148 = hdr"
    "range_of f 0 (164 + n) = hdr @ c @ to_be_bytes t"
  unfolding f using len by (simp_all add: range_of_def)

lemma parse_frame_bytes:
  assumes "envelope_wf e"
  shows "parse_envelope (frame_bytes e) = Inr e"
proof -
  let ?n = "length (envelope_ciphertext e)" and ?f = "frame_bytes e"
  have n: "?n \<le> 4096" using assms by (simp add: envelope_wf_def const_defs)
  note fields = header_fields [OF frame_bytes_def [of e]]
  note payload = frame_payload_fields [OF frame_bytes_def [of e] length_header_bytes refl]
  have len: "length ?f = 228 + ?n" by (rule length_frame_bytes)
  have u: "unat (word_of_nat ?n + 228 :: u32) = 228 + ?n" "unat (228 + word_of_nat ?n :: u32) = 228 + ?n"
    "unat (word_of_nat ?n :: u32) = ?n"
    using unat_of_nat_u32 [of "?n + 228"] unat_of_nat_u32 [of ?n] n by (simp_all add: add.commute)
  have "parse_envelope ?f =
     Inr (e\<lparr>envelope_header := range_of ?f 0 148, envelope_signed_bytes := range_of ?f 0 (164 + ?n)\<rparr>)"
    using n by (simp add: parse_envelope_def Let_def get_range_def len fields payload(1-3) u
        total_frame_len_def checked_add_def const_defs add.commute [of ?n])
  also have "\<dots> = Inr e"
    using assms by (simp add: payload(4,5) envelope_wf_def)
  finally show ?thesis .
qed

text \<open>What a successful parse has checked, field by field.\<close>

lemma parse_envelope_checks:
  assumes "parse_envelope input = Inr e"
  defines "n \<equiv> length (envelope_ciphertext e)"
  shows "length input = 228 + n" "n \<le> 4096"
    "range_of input 0 8 = MAGIC" "input ! 8 = VERSION" "input ! 9 = MessageType_u8 (envelope_message_type e)"
    "range_of input 10 12 = [0, 0]"
    "range_of input 12 16 = to_be_bytes (of_nat (n + 228) :: u32)"
    "range_of input 16 32 = to_be_bytes (agent_array (envelope_sender e))"
    "range_of input 32 48 = to_be_bytes (agent_array (envelope_recipient e))"
    "range_of input 48 64 = to_be_bytes (handler_array (envelope_handler e))"
    "range_of input 64 80 = to_be_bytes (session_array (envelope_session_id e))"
    "range_of input 80 112 = to_be_bytes (envelope_ephemeral_public e)"
    "range_of input 112 144 = to_be_bytes (envelope_salt e)"
    "range_of input 144 148 = to_be_bytes (of_nat n :: u32)"
    "range_of input 148 (148 + n) = envelope_ciphertext e"
    "range_of input (148 + n) (164 + n) = to_be_bytes (envelope_tag e)"
    "range_of input (164 + n) (228 + n) = to_be_bytes (envelope_signature e)"
    "envelope_header e = range_of input 0 148"
    "envelope_signed_bytes e = range_of input 0 (164 + n)"
proof -
  let ?len = "\<lambda>c. HEADER_LEN + unat (c :: u32)"
  obtain mt total cipher eph salt tag sig sender recipient handler session where
    guards: "\<not> length input < HEADER_LEN + TAG_LEN + SIGNATURE_LEN" "get_range input 0 8 = Some MAGIC"
      "input ! 8 = VERSION" "range_of input 10 12 = [0, 0]" "unat total = length input"
      "\<not> unat cipher > MAX_PLAINTEXT_LEN" "total_frame_len (unat cipher) = Some (unat total)"
    and reads: "MessageType_from_u8 (input ! 9) = Some mt" "read_u32 (range_of input 12 16) = Inr total"
      "read_u32 (range_of input 144 148) = Inr cipher" "array_copy (range_of input 80 112) = Inr eph"
      "array_copy (range_of input 112 144) = Inr salt"
      "array_copy (range_of input (?len cipher) (?len cipher + TAG_LEN)) = Inr tag"
      "array_copy (range_of input (?len cipher + TAG_LEN) (unat total)) = Inr sig"
      "array_copy (range_of input 16 32) = Inr sender" "array_copy (range_of input 32 48) = Inr recipient"
      "array_copy (range_of input 48 64) = Inr handler" "array_copy (range_of input 64 80) = Inr session"
    and e: "e = \<lparr>envelope_message_type = mt, envelope_sender = AgentId sender,
         envelope_recipient = AgentId recipient, envelope_handler = HandlerId handler,
         envelope_session_id = SessionId session, envelope_ephemeral_public = eph,
         envelope_salt = salt, envelope_ciphertext = range_of input HEADER_LEN (?len cipher),
         envelope_tag = tag, envelope_signature = sig, envelope_header = range_of input 0 HEADER_LEN,
         envelope_signed_bytes = range_of input 0 (?len cipher + TAG_LEN)\<rparr>"
    using assms(1) unfolding parse_envelope_def Let_def
    by (auto simp: result_iffs simp del: array_copy_Inr_iff read_u32_Inr_iff split: if_splits)
  have small: "unat cipher \<le> 4096" "length input = 228 + unat cipher"
    using guards by (simp_all add: total_frame_len_def checked_add_def const_defs split: if_splits)
  have n: "n = unat cipher"
    using small by (simp add: n_def e length_range_of const_defs)
  show "length input = 228 + n" "n \<le> 4096" using small n by simp_all
  have total: "total = of_nat (n + 228)"
  proof (rule word_unat_eq_iff [THEN iffD2])
    show "unat total = unat (of_nat (n + 228) :: u32)"
      using guards(5) small n unat_of_nat_u32 [of "n + 228"] by (simp del: of_nat_add)
  qed
  show "range_of input 12 16 = to_be_bytes (of_nat (n + 228) :: u32)"
    using reads(2) by (simp only: read_u32_Inr_iff total)
  show "range_of input 144 148 = to_be_bytes (of_nat n :: u32)"
    using reads(3) by (simp add: n)
  show "range_of input 0 8 = MAGIC"
    using guards(1,2) by (simp add: get_range_def split: if_splits)
  show "input ! 8 = VERSION" "range_of input 10 12 = [0, 0]" by (rule guards)+
  show "input ! 9 = MessageType_u8 (envelope_message_type e)"
    using reads(1) by (simp add: e MessageType_from_u8_iff)
  have tail: "range_of input (148 + n) (164 + n) = to_be_bytes tag"
    "range_of input (164 + n) (228 + n) = to_be_bytes sig"
    using reads(6,7) guards(5) small by (simp_all add: n const_defs)
  show "range_of input 148 (148 + n) = envelope_ciphertext e"
    "range_of input (148 + n) (164 + n) = to_be_bytes (envelope_tag e)"
    "range_of input (164 + n) (228 + n) = to_be_bytes (envelope_signature e)"
    "envelope_header e = range_of input 0 148"
    "envelope_signed_bytes e = range_of input 0 (164 + n)"
    using tail by (simp_all add: e n const_defs)
  show "range_of input 16 32 = to_be_bytes (agent_array (envelope_sender e))"
    "range_of input 32 48 = to_be_bytes (agent_array (envelope_recipient e))"
    "range_of input 48 64 = to_be_bytes (handler_array (envelope_handler e))"
    "range_of input 64 80 = to_be_bytes (session_array (envelope_session_id e))"
    "range_of input 80 112 = to_be_bytes (envelope_ephemeral_public e)"
    "range_of input 112 144 = to_be_bytes (envelope_salt e)"
    using reads by (simp_all add: e)
qed

lemma parse_envelope_sound:
  assumes "parse_envelope input = Inr e"
  shows "envelope_wf e" "input = frame_bytes e"
proof -
  note c = parse_envelope_checks [OF assms]
  let ?n = "length (envelope_ciphertext e)"
  have one: "range_of input 8 9 = [VERSION]" "range_of input 9 10 = [MessageType_u8 (envelope_message_type e)]"
    using c(1,4,5) range_of_one [of 8 input] range_of_one [of 9 input] by simp_all
  have cuts: "range_of input 0 148 = range_of input 0 8 @ range_of input 8 9 @ range_of input 9 10
      @ range_of input 10 12 @ range_of input 12 16 @ range_of input 16 32 @ range_of input 32 48
      @ range_of input 48 64 @ range_of input 64 80 @ range_of input 80 112 @ range_of input 112 144
      @ range_of input 144 148"
    by (simp flip: range_of_split)
  have header: "range_of input 0 148 = header_bytes (envelope_message_type e) (envelope_sender e)
      (envelope_recipient e) (envelope_handler e) (envelope_session_id e)
      (envelope_ephemeral_public e) (envelope_salt e) ?n"
    unfolding cuts header_bytes_def one c(3,6-14) by (simp add: const_defs add.commute)
  have "range_of input 0 (164 + ?n) = range_of input 0 148 @ range_of input 148 (148 + ?n)
      @ range_of input (148 + ?n) (164 + ?n)"
    by (simp flip: range_of_split)
  then have signed: "range_of input 0 (164 + ?n) =
      range_of input 0 148 @ envelope_ciphertext e @ to_be_bytes (envelope_tag e)"
    by (simp add: c(15,16))
  show "envelope_wf e"
    using c(2) by (simp add: envelope_wf_def c(18,19) header signed const_defs)
  have "input = range_of input 0 (164 + ?n) @ range_of input (164 + ?n) (228 + ?n)"
    using range_of_all [of input] c(1) by (simp flip: range_of_split)
  then show "input = frame_bytes e"
    by (simp add: frame_bytes_def signed header c(17))
qed

section \<open>Properties\<close>

text \<open>C36: the envelope parser decides the frame layout. It accepts an input exactly when the input
  is the layout of a well-formed envelope (magic, version, known type, zero reserved bytes, both
  length fields, a ciphertext of at most \<open>MAX_PLAINTEXT_LEN\<close> bytes), and it returns the fields of
  that envelope, with the header and the signed bytes the slices they name. No other frame is
  accepted and none is accepted with two readings.\<close>

theorem envelope_parser_exact:
  "parse_envelope input = Inr e \<longleftrightarrow> envelope_wf e \<and> input = frame_bytes e"
  using parse_envelope_sound parse_frame_bytes by blast

text \<open>The header encoder on every input. It writes exactly the 148 header bytes of the layout,
  keeps the rest of the caller's buffer and returns the total frame length; a plaintext or buffer
  of the wrong size is refused as \<open>Oversized\<close> and leaves the buffer untouched.\<close>

theorem encode_header_exact:
  "encode_header out t s r h i p x n =
     (if n \<le> MAX_PLAINTEXT_LEN \<and> HEADER_LEN \<le> length out
      then (Inr (n + 228), header_bytes t s r h i p x n @ drop 148 out)
      else (Inl Oversized, out))"
  using encode_header_ok encode_header_err by simp

end
