(* ===== verification/Wire.thy ===== *)
theory Wire
  imports Prelude
begin

text \<open>
  The contract between a reader that advances a cursor and the bytes it accepts, and the
  contract of a writer that fills a caller-owned buffer. \<open>cur pre rest\<close> is the cursor that
  has consumed \<open>pre\<close> and has \<open>rest\<close> in front of it; the payload cursor of
  \<open>protocol-core/src/payload.rs\<close> and the state cursor of \<open>ca-core/src/lib.rs\<close> both
  interpret these locales with their own readers.
\<close>

section \<open>Readers\<close>

locale wire_cursor =
  fixes cur :: "bytes \<Rightarrow> bytes \<Rightarrow> 'c"
  assumes cur_inject: "cur pre rest = cur pre' rest' \<Longrightarrow> pre = pre' \<and> rest = rest'"

locale wire_format = wire_cursor cur
  for cur :: "bytes \<Rightarrow> bytes \<Rightarrow> 'c" +
  fixes parse :: "'c \<Rightarrow> 'e + 'a \<times> 'c"
    and print :: "'a \<Rightarrow> bytes"
    and valid :: "'a \<Rightarrow> bool"
  assumes parse_print:
      "valid x \<Longrightarrow> parse (cur pre (print x @ rest)) = Inr (x, cur (pre @ print x) rest)"
    and parse_sound:
      "parse (cur pre rest) = Inr (x, c) \<Longrightarrow>
         valid x \<and> (\<exists>rest'. rest = print x @ rest' \<and> c = cur (pre @ print x) rest')"
begin

lemma parse_iff:
  "parse (cur pre rest) = Inr (x, c) \<longleftrightarrow>
     valid x \<and> (\<exists>rest'. rest = print x @ rest' \<and> c = cur (pre @ print x) rest')"
  using parse_print parse_sound by blast

text \<open>No accepted encoding is a proper prefix of another: reading is unambiguous.\<close>

lemma prefix_free:
  assumes "valid x" "valid y" "print x @ r = print y @ s"
  shows "x = y \<and> r = s"
  using parse_print [OF assms(1), of "[]" r] parse_print [OF assms(2), of "[]" s] assms(3)
    cur_inject by fastforce

lemma list_prefix_free:
  assumes "length xs = length ys" "\<forall>x\<in>set xs. valid x" "\<forall>y\<in>set ys. valid y"
    "concat (map print xs) @ r = concat (map print ys) @ s"
  shows "xs = ys \<and> r = s"
  using assms
proof (induction xs ys rule: list_induct2)
  case (Cons x xs y ys)
  from Cons.prems have "x = y \<and> concat (map print xs) @ r = concat (map print ys) @ s"
    by (intro prefix_free) simp_all
  with Cons show ?case by simp
qed simp

end

text \<open>Two readers in sequence read the concatenation of their formats.\<close>

locale wire_pair =
  first: wire_format cur parse1 print1 valid1 + second: wire_format cur parse2 print2 valid2
  for cur :: "bytes \<Rightarrow> bytes \<Rightarrow> 'c"
    and parse1 :: "'c \<Rightarrow> 'e + 'a \<times> 'c" and print1 valid1
    and parse2 :: "'c \<Rightarrow> 'e + 'b \<times> 'c" and print2 valid2

sublocale wire_pair \<subseteq> both: wire_format cur
  "\<lambda>c. tryE (parse1 c) (\<lambda>(x, c). tryE (parse2 c) (\<lambda>(y, c). Inr ((x, y), c)))"
  "\<lambda>(x, y). print1 x @ print2 y" "\<lambda>(x, y). valid1 x \<and> valid2 y"
proof unfold_locales
  show "tryE (parse1 (cur pre ((case x of (x, y) \<Rightarrow> print1 x @ print2 y) @ rest)))
          (\<lambda>(x, c). tryE (parse2 c) (\<lambda>(y, c). Inr ((x, y), c))) =
        Inr (x, cur (pre @ (case x of (x, y) \<Rightarrow> print1 x @ print2 y)) rest)"
    if "case x of (x, y) \<Rightarrow> valid1 x \<and> valid2 y" for x pre rest
    using that by (auto simp: first.parse_print second.parse_print split: prod.splits)
  show "(case x of (x, y) \<Rightarrow> valid1 x \<and> valid2 y) \<and>
      (\<exists>rest'. rest = (case x of (x, y) \<Rightarrow> print1 x @ print2 y) @ rest' \<and>
        c = cur (pre @ (case x of (x, y) \<Rightarrow> print1 x @ print2 y)) rest')"
    if "tryE (parse1 (cur pre rest)) (\<lambda>(x, c). tryE (parse2 c) (\<lambda>(y, c). Inr ((x, y), c))) = Inr (x, c)"
    for x pre rest c
    using that by (auto simp: tryE_Inr_iff first.parse_iff second.parse_iff split: prod.splits)
qed

section \<open>Writers\<close>

text \<open>\<open>emits wr m ok bs\<close>: when \<open>ok\<close> holds and \<open>bs\<close> fits, the writer \<open>m\<close> puts \<open>bs\<close> at its
  position; otherwise it fails with the error \<open>e\<close>.\<close>

definition emits ::
  "(bytes \<Rightarrow> bytes \<Rightarrow> 'w) \<Rightarrow> 'e \<Rightarrow> ('w \<Rightarrow> ('e + unit) \<times> 'w) \<Rightarrow> bool \<Rightarrow> bytes \<Rightarrow> bool" where
  "emits wr e m ok bs \<longleftrightarrow>
     (\<forall>pre room. if ok \<and> length bs \<le> length room
        then m (wr pre room) = (Inr (), wr (pre @ bs) (drop (length bs) room))
        else fst (m (wr pre room)) = Inl e)"

lemma emits_ok:
  "emits wr e m ok bs \<Longrightarrow> ok \<Longrightarrow> length bs \<le> length room \<Longrightarrow>
     m (wr pre room) = (Inr (), wr (pre @ bs) (drop (length bs) room))"
  by (simp add: emits_def)

lemma emits_err:
  "emits wr e m ok bs \<Longrightarrow> \<not> (ok \<and> length bs \<le> length room) \<Longrightarrow> fst (m (wr pre room)) = Inl e"
  unfolding emits_def by metis

lemma emits_seq:
  assumes 1: "emits wr e m1 ok1 bs1" and 2: "emits wr e m2 ok2 bs2"
  shows "emits wr e (\<lambda>w. tryS (m1 w) (\<lambda>_. m2)) (ok1 \<and> ok2) (bs1 @ bs2)"
  unfolding emits_def
proof (intro allI)
  fix pre room
  show "if (ok1 \<and> ok2) \<and> length (bs1 @ bs2) \<le> length room
    then tryS (m1 (wr pre room)) (\<lambda>_. m2) = (Inr (), wr (pre @ bs1 @ bs2) (drop (length (bs1 @ bs2)) room))
    else fst (tryS (m1 (wr pre room)) (\<lambda>_. m2)) = Inl e"
  proof (cases "ok1 \<and> length bs1 \<le> length room")
    case True
    let ?w = "wr (pre @ bs1) (drop (length bs1) room)"
    from True have m1: "m1 (wr pre room) = (Inr (), ?w)" by (simp add: emits_ok [OF 1])
    show ?thesis
    proof (cases "ok2 \<and> length bs2 \<le> length (drop (length bs1) room)")
      case True
      then show ?thesis
        using m1 emits_ok [OF 2, of "drop (length bs1) room" "pre @ bs1"] \<open>ok1 \<and> _\<close>
        by (simp add: add.commute le_diff_conv2 del: drop_eq_Nil)
    next
      case False
      with emits_err [OF 2 False, of "pre @ bs1"] m1 \<open>ok1 \<and> _\<close> show ?thesis
        by auto
    qed
  next
    case False
    then have "fst (m1 (wr pre room)) = Inl e" by (rule emits_err [OF 1])
    then have "fst (tryS (m1 (wr pre room)) (\<lambda>_. m2)) = Inl e" by (auto simp: tryS_def split: prod.splits sum.splits)
    with False show ?thesis by auto
  qed
qed

lemma emits_nothing: "emits wr e (\<lambda>w. (Inr (), w)) True []"
  by (simp add: emits_def)

lemma emits_guard:
  "(g \<Longrightarrow> emits wr e m ok bs) \<Longrightarrow>
     emits wr e (\<lambda>w. if g then m w else (Inl e, w)) (g \<and> ok) bs"
  by (auto simp: emits_def)

lemma emits_cong:
  "emits wr e m ok bs \<Longrightarrow> (\<And>w. m' w = m w) \<Longrightarrow> ok \<longleftrightarrow> ok' \<Longrightarrow> bs = bs' \<Longrightarrow> emits wr e m' ok' bs'"
  by (simp add: emits_def)

end
