(* ===== verification/Payload.thy ===== *)
theory Payload
  imports Codec Wire "HOL-Library.List_Lexorder"
begin

text \<open>
  \<open>protocol-core/src/payload.rs\<close>: the bounded operation codec and the predicate evaluator.
  The cursor and the writer are records that the methods thread through, environments and
  predicates stay the byte slices the parser validated, and \<open>evaluate\<close> walks those bytes.

  The locale \<open>wire_format\<close> is the contract between a reader of the cursor and the bytes it
  accepts; every reader of the file is an instance of it, and the lemmas on repeated items
  are proved once inside it. The specification gives an environment as its attribute list
  and a predicate as its clause list; the byte-level operations are shown to implement it.

  The \<open>checked_add\<close> of \<open>Cursor::take\<close> and \<open>Writer::raw\<close> fails only where the range does not
  fit the slice either, with the same error, so the sum is taken in \<open>nat\<close>.
\<close>

section \<open>Data\<close>

definition OP_ENVIRONMENT :: u8 where "OP_ENVIRONMENT = 1"
definition OP_SUBSCRIBE_PERMANENT :: u8 where "OP_SUBSCRIBE_PERMANENT = 2"
definition OP_PUBLISH :: u8 where "OP_PUBLISH = 3"
definition OP_RESPONSE :: u8 where "OP_RESPONSE = 4"
definition OP_SUBSCRIBE :: u8 where "OP_SUBSCRIBE = 5"

lemmas op_defs = OP_ENVIRONMENT_def OP_SUBSCRIBE_PERMANENT_def OP_PUBLISH_def OP_RESPONSE_def
  OP_SUBSCRIBE_def

datatype ValueRef = Value_Bool bool | Value_I64 i64 | Value_Bytes bytes

record AttributeRef =
  attribute_id :: AttributeId
  attribute_value :: ValueRef

record ClauseRef =
  clause_attribute :: AttributeId
  clause_operator :: Operator
  clause_value :: ValueRef

record EnvironmentRef =
  environment_bytes :: bytes
  environment_count :: u8

record PredicateRef =
  predicate_bytes :: bytes
  predicate_count :: u8

datatype OperationRef =
    Op_SetEnvironment EnvironmentRef
  | Op_Subscribe TypeId PredicateRef
  | Op_SubscribePermanent TypeId PredicateRef
  | Op_Publish TypeId PredicateRef bytes
  | Op_PublicationResponse TypeId AgentId bytes

section \<open>Reading\<close>

record Cursor =
  cursor_input :: bytes
  cursor_position :: usize

definition Cursor_new :: "bytes \<Rightarrow> Cursor" where
  "Cursor_new input = \<lparr>cursor_input = input, cursor_position = 0\<rparr>"

definition cursor_take :: "usize \<Rightarrow> Cursor \<Rightarrow> Error + bytes \<times> Cursor" where
  "cursor_take n c =
     (let end = cursor_position c + n in
      tryE (ok_or (get_range (cursor_input c) (cursor_position c) end) Malformed) (\<lambda>bs.
      Inr (bs, c\<lparr>cursor_position := end\<rparr>)))"

definition cursor_u8 :: "Cursor \<Rightarrow> Error + u8 \<times> Cursor" where
  "cursor_u8 c =
     tryE (cursor_take 1 c) (\<lambda>(bs, c).
     case bs of [] \<Rightarrow> Inl Malformed | b # _ \<Rightarrow> Inr (b, c))"

definition cursor_array :: "Cursor \<Rightarrow> Error + 'a::len word \<times> Cursor" where
  "cursor_array c =
     tryE (cursor_take (LENGTH('a) div 8) c) (\<lambda>(bs, c).
     tryE (ok_or (try_into_array bs) Malformed) (\<lambda>w. Inr (w, c)))"

definition cursor_u16 :: "Cursor \<Rightarrow> Error + u16 \<times> Cursor" where
  "cursor_u16 c = cursor_array c"

definition cursor_u32 :: "Cursor \<Rightarrow> Error + u32 \<times> Cursor" where
  "cursor_u32 c = cursor_array c"

definition cursor_bytes_u16 :: "usize \<Rightarrow> Cursor \<Rightarrow> Error + bytes \<times> Cursor" where
  "cursor_bytes_u16 maximum c =
     tryE (cursor_u16 c) (\<lambda>(length, c).
     if unat length > maximum then Inl Oversized else cursor_take (unat length) c)"

definition cursor_value :: "usize \<Rightarrow> Cursor \<Rightarrow> Error + ValueRef \<times> Cursor" where
  "cursor_value maximum_bytes c =
     tryE (cursor_u8 c) (\<lambda>(tag, c).
     if tag = 1 then
       tryE (cursor_u8 c) (\<lambda>(b, c).
       if b = 0 then Inr (Value_Bool False, c)
       else if b = 1 then Inr (Value_Bool True, c)
       else Inl Malformed)
     else if tag = 2 then tryE (cursor_array c) (\<lambda>(w, c). Inr (Value_I64 w, c))
     else if tag = 3 then tryE (cursor_bytes_u16 maximum_bytes c) (\<lambda>(bs, c). Inr (Value_Bytes bs, c))
     else Inl Malformed)"

text \<open>The clause loop of \<open>Cursor::predicate\<close>; the values it reads are dropped.\<close>

fun cursor_clauses :: "nat \<Rightarrow> Cursor \<Rightarrow> Error + Cursor" where
  "cursor_clauses 0 c = Inr c"
| "cursor_clauses (Suc n) c =
     tryE (cursor_u16 c) (\<lambda>(_, c).
     tryE (cursor_u8 c) (\<lambda>(op, c).
     tryE (ok_or (Operator_from_u8 op) Malformed) (\<lambda>_.
     tryE (cursor_value MAX_ATTRIBUTE_BYTES c) (\<lambda>(_, c).
     cursor_clauses n c))))"

definition cursor_predicate :: "bytes \<Rightarrow> Cursor \<Rightarrow> Error + PredicateRef \<times> Cursor" where
  "cursor_predicate complete c =
     tryE (cursor_u8 c) (\<lambda>(count, c).
     if unat count > MAX_CLAUSES then Inl Oversized
     else
       let start = cursor_position c in
       tryE (cursor_clauses (unat count) c) (\<lambda>c.
       Inr (\<lparr>predicate_bytes = range_of complete start (cursor_position c), predicate_count = count\<rparr>, c)))"

text \<open>The attribute loop of \<open>parse_operation\<close>; \<open>ids\<close> holds the identifiers read so far.\<close>

fun cursor_attributes :: "nat \<Rightarrow> u16 list \<Rightarrow> Cursor \<Rightarrow> Error + Cursor" where
  "cursor_attributes 0 ids c = Inr c"
| "cursor_attributes (Suc n) ids c =
     tryE (cursor_u16 c) (\<lambda>(ident, c).
     if ident \<in> set ids then Inl Malformed
     else tryE (cursor_value MAX_ATTRIBUTE_BYTES c) (\<lambda>(_, c).
     cursor_attributes n (ids @ [ident]) c))"

definition parse_operation :: "bytes \<Rightarrow> Error + OperationRef" where
  "parse_operation input =
     tryE (cursor_u8 (Cursor_new input)) (\<lambda>(op, c).
     tryE
       (if op = OP_ENVIRONMENT then
          tryE (cursor_u8 c) (\<lambda>(count, c).
          if unat count > MAX_ATTRIBUTES then Inl Oversized
          else
            let start = cursor_position c in
            tryE (cursor_attributes (unat count) [] c) (\<lambda>c.
            Inr (Op_SetEnvironment \<lparr>environment_bytes = range_of input start (cursor_position c),
                   environment_count = count\<rparr>, c)))
        else if op = OP_SUBSCRIBE then
          tryE (cursor_u32 c) (\<lambda>(type_id, c).
          tryE (cursor_predicate input c) (\<lambda>(predicate, c).
          Inr (Op_Subscribe (TypeId type_id) predicate, c)))
        else if op = OP_SUBSCRIBE_PERMANENT then
          tryE (cursor_u32 c) (\<lambda>(type_id, c).
          tryE (cursor_predicate input c) (\<lambda>(predicate, c).
          Inr (Op_SubscribePermanent (TypeId type_id) predicate, c)))
        else if op = OP_PUBLISH then
          tryE (cursor_u32 c) (\<lambda>(type_id, c).
          tryE (cursor_predicate input c) (\<lambda>(predicate, c).
          tryE (cursor_bytes_u16 MAX_VALUE_BYTES c) (\<lambda>(val, c).
          Inr (Op_Publish (TypeId type_id) predicate val, c))))
        else if op = OP_RESPONSE then
          tryE (cursor_u32 c) (\<lambda>(type_id, c).
          tryE (cursor_array c) (\<lambda>(publisher, c).
          tryE (cursor_bytes_u16 MAX_VALUE_BYTES c) (\<lambda>(val, c).
          Inr (Op_PublicationResponse (TypeId type_id) (AgentId publisher) val, c))))
        else Inl Malformed)
     (\<lambda>(operation, c).
     if cursor_position c \<noteq> length input then Inl Malformed else Inr operation))"

section \<open>Environments\<close>

definition environment_len :: "EnvironmentRef \<Rightarrow> usize" where
  "environment_len environment = unat (environment_count environment)"

fun environment_get_loop :: "nat \<Rightarrow> AttributeId \<Rightarrow> Cursor \<Rightarrow> ValueRef option" where
  "environment_get_loop 0 wanted c = None"
| "environment_get_loop (Suc n) wanted c =
     (case cursor_u16 c of Inl _ \<Rightarrow> None
      | Inr (ident, c) \<Rightarrow>
        (case cursor_value MAX_ATTRIBUTE_BYTES c of Inl _ \<Rightarrow> None
         | Inr (val, c) \<Rightarrow>
             if AttributeId ident = wanted then Some val else environment_get_loop n wanted c))"

definition environment_get :: "EnvironmentRef \<Rightarrow> AttributeId \<Rightarrow> ValueRef option" where
  "environment_get environment wanted =
     environment_get_loop (unat (environment_count environment)) wanted
       (Cursor_new (environment_bytes environment))"

record EnvironmentIter =
  iter_cursor :: Cursor
  iter_remaining :: u8

definition environment_iter :: "EnvironmentRef \<Rightarrow> EnvironmentIter" where
  "environment_iter environment =
     \<lparr>iter_cursor = Cursor_new (environment_bytes environment),
      iter_remaining = environment_count environment\<rparr>"

text \<open>\<open>next\<close> gives the item and the iterator after it; the callers stop at \<open>None\<close>.\<close>

definition EnvironmentIter_next :: "EnvironmentIter \<Rightarrow> (AttributeRef \<times> EnvironmentIter) option" where
  "EnvironmentIter_next it =
     (if iter_remaining it = 0 then None
      else
        case cursor_u16 (iter_cursor it) of Inl _ \<Rightarrow> None
        | Inr (ident, c) \<Rightarrow>
          (case cursor_value MAX_ATTRIBUTE_BYTES c of Inl _ \<Rightarrow> None
           | Inr (val, c) \<Rightarrow>
               Some (\<lparr>attribute_id = AttributeId ident, attribute_value = val\<rparr>,
                     \<lparr>iter_cursor = c, iter_remaining = iter_remaining it - 1\<rparr>)))"

lemma EnvironmentIter_next_remaining:
  "EnvironmentIter_next it = Some (a, it') \<Longrightarrow> unat (iter_remaining it') < unat (iter_remaining it)"
  by (auto simp: EnvironmentIter_next_def unat_minus_one unat_gt_0 split: if_splits sum.splits prod.splits)

text \<open>The items a \<open>for\<close> loop over \<open>environment.iter()\<close> visits.\<close>

function environment_items :: "EnvironmentIter \<Rightarrow> AttributeRef list" where
  "environment_items it =
     (case EnvironmentIter_next it of None \<Rightarrow> [] | Some (a, it') \<Rightarrow> a # environment_items it')"
  by pat_completeness auto
termination
  by (relation "measure (\<lambda>it. unat (iter_remaining it))") (auto dest: EnvironmentIter_next_remaining)

declare environment_items.simps [simp del]

section \<open>Predicates\<close>

datatype Ordering = Less | Equal | Greater

definition cmp :: "'a::linorder \<Rightarrow> 'a \<Rightarrow> Ordering" where
  "cmp a b = (if a < b then Less else if a = b then Equal else Greater)"

definition compare :: "ValueRef \<Rightarrow> Operator \<Rightarrow> ValueRef \<Rightarrow> bool" where
  "compare lhs operator rhs =
     (let ordering =
        (case (lhs, rhs) of
           (Value_Bool a, Value_Bool b) \<Rightarrow> Some (cmp a b)
         | (Value_I64 a, Value_I64 b) \<Rightarrow> Some (cmp (sint a) (sint b))
         | (Value_Bytes a, Value_Bytes b) \<Rightarrow> Some (cmp a b)
         | _ \<Rightarrow> None)
      in case ordering of None \<Rightarrow> False
         | Some o1 \<Rightarrow>
           (case operator of
              Operator_Eq \<Rightarrow> o1 = Equal
            | Operator_Ne \<Rightarrow> o1 \<noteq> Equal
            | Operator_Lt \<Rightarrow> o1 = Less
            | Operator_Le \<Rightarrow> o1 = Less \<or> o1 = Equal
            | Operator_Gt \<Rightarrow> o1 = Greater
            | Operator_Ge \<Rightarrow> o1 = Greater \<or> o1 = Equal))"

fun predicate_loop :: "nat \<Rightarrow> EnvironmentRef \<Rightarrow> Cursor \<Rightarrow> bool" where
  "predicate_loop 0 environment c = True"
| "predicate_loop (Suc n) environment c =
     (case cursor_u16 c of Inl _ \<Rightarrow> False
      | Inr (attribute, c) \<Rightarrow>
        (case cursor_u8 c of Inl _ \<Rightarrow> False
         | Inr (op, c) \<Rightarrow>
           (case Operator_from_u8 op of None \<Rightarrow> False
            | Some operator \<Rightarrow>
              (case cursor_value MAX_ATTRIBUTE_BYTES c of Inl _ \<Rightarrow> False
               | Inr (rhs, c) \<Rightarrow>
                 (case environment_get environment (AttributeId attribute) of None \<Rightarrow> False
                  | Some lhs \<Rightarrow>
                      if \<not> compare lhs operator rhs then False
                      else predicate_loop n environment c)))))"

definition predicate_evaluate :: "PredicateRef \<Rightarrow> EnvironmentRef \<Rightarrow> bool" where
  "predicate_evaluate predicate environment =
     predicate_loop (unat (predicate_count predicate)) environment
       (Cursor_new (predicate_bytes predicate))"

section \<open>Writing\<close>

record Writer =
  writer_output :: bytes
  writer_position :: usize

definition Writer_new :: "bytes \<Rightarrow> Writer" where
  "Writer_new output = \<lparr>writer_output = output, writer_position = 0\<rparr>"

definition writer_raw :: "bytes \<Rightarrow> Writer \<Rightarrow> (Error + unit) \<times> Writer" where
  "writer_raw val w =
     (let end = writer_position w + length val in
      if end \<le> length (writer_output w)
      then (Inr (), w\<lparr>writer_output := copy_at (writer_output w) (writer_position w) val,
                      writer_position := end\<rparr>)
      else (Inl Oversized, w))"

definition writer_u8 :: "u8 \<Rightarrow> Writer \<Rightarrow> (Error + unit) \<times> Writer" where
  "writer_u8 val w = writer_raw [val] w"

definition writer_u16 :: "u16 \<Rightarrow> Writer \<Rightarrow> (Error + unit) \<times> Writer" where
  "writer_u16 val w = writer_raw (to_be_bytes val) w"

definition writer_u32 :: "u32 \<Rightarrow> Writer \<Rightarrow> (Error + unit) \<times> Writer" where
  "writer_u32 val w = writer_raw (to_be_bytes val) w"

definition writer_bytes_u16 :: "bytes \<Rightarrow> usize \<Rightarrow> Writer \<Rightarrow> (Error + unit) \<times> Writer" where
  "writer_bytes_u16 val maximum w =
     (if length val > maximum then (Inl Oversized, w)
      else if \<not> length val < 2 ^ 16 then (Inl Oversized, w)
      else tryS (writer_u16 (of_nat (length val)) w) (\<lambda>_. writer_raw val))"

definition writer_value :: "ValueRef \<Rightarrow> usize \<Rightarrow> Writer \<Rightarrow> (Error + unit) \<times> Writer" where
  "writer_value val maximum_bytes w =
     (case val of
        Value_Bool b \<Rightarrow> tryS (writer_u8 1 w) (\<lambda>_. writer_u8 (if b then 1 else 0))
      | Value_I64 i \<Rightarrow> tryS (writer_u8 2 w) (\<lambda>_. writer_raw (to_be_bytes i))
      | Value_Bytes bs \<Rightarrow> tryS (writer_u8 3 w) (\<lambda>_. writer_bytes_u16 bs maximum_bytes))"

fun writer_clauses :: "ClauseRef list \<Rightarrow> Writer \<Rightarrow> (Error + unit) \<times> Writer" where
  "writer_clauses [] w = (Inr (), w)"
| "writer_clauses (clause # clauses) w =
     tryS (writer_u16 (attribute_u16 (clause_attribute clause)) w) (\<lambda>_ w.
     tryS (writer_u8 (Operator_u8 (clause_operator clause)) w) (\<lambda>_ w.
     tryS (writer_value (clause_value clause) MAX_ATTRIBUTE_BYTES w) (\<lambda>_ w.
     writer_clauses clauses w)))"

definition writer_predicate :: "ClauseRef list \<Rightarrow> Writer \<Rightarrow> (Error + unit) \<times> Writer" where
  "writer_predicate clauses w =
     (if length clauses > MAX_CLAUSES then (Inl Oversized, w)
      else if \<not> length clauses < 2 ^ 8 then (Inl Oversized, w)
      else tryS (writer_u8 (of_nat (length clauses)) w) (\<lambda>_. writer_clauses clauses))"

fun writer_attributes :: "AttributeRef list \<Rightarrow> Writer \<Rightarrow> (Error + unit) \<times> Writer" where
  "writer_attributes [] w = (Inr (), w)"
| "writer_attributes (a # attributes) w =
     tryS (writer_u16 (attribute_u16 (attribute_id a)) w) (\<lambda>_ w.
     tryS (writer_value (attribute_value a) MAX_ATTRIBUTE_BYTES w) (\<lambda>_ w.
     writer_attributes attributes w))"

text \<open>\<open>ensure_unique_attributes\<close> looks for an earlier entry with the same identifier.\<close>

fun unique_attributes_loop :: "AttributeRef list \<Rightarrow> AttributeRef list \<Rightarrow> Error + unit" where
  "unique_attributes_loop earlier [] = Inr ()"
| "unique_attributes_loop earlier (a # attributes) =
     (if list_ex (\<lambda>prior. attribute_id prior = attribute_id a) earlier then Inl Malformed
      else unique_attributes_loop (earlier @ [a]) attributes)"

definition ensure_unique_attributes :: "AttributeRef list \<Rightarrow> Error + unit" where
  "ensure_unique_attributes attributes = unique_attributes_loop [] attributes"

text \<open>What every encoder returns: the position it reached, and the buffer it wrote into.\<close>

definition writer_finish :: "(Error + unit) \<times> Writer \<Rightarrow> (Error + usize) \<times> bytes" where
  "writer_finish r = (case r of
     (Inl e, w) \<Rightarrow> (Inl e, writer_output w)
   | (Inr _, w) \<Rightarrow> (Inr (writer_position w), writer_output w))"

definition encode_environment :: "bytes \<Rightarrow> AttributeRef list \<Rightarrow> (Error + usize) \<times> bytes" where
  "encode_environment output attributes =
     (if length attributes > MAX_ATTRIBUTES then (Inl Oversized, output)
      else case ensure_unique_attributes attributes of Inl e \<Rightarrow> (Inl e, output)
      | Inr _ \<Rightarrow> writer_finish (
          tryS (writer_u8 OP_ENVIRONMENT (Writer_new output)) (\<lambda>_ w.
          if \<not> length attributes < 2 ^ 8 then (Inl Oversized, w)
          else tryS (writer_u8 (of_nat (length attributes)) w) (\<lambda>_.
          writer_attributes attributes))))"

definition encode_subscribe :: "bytes \<Rightarrow> TypeId \<Rightarrow> ClauseRef list \<Rightarrow> (Error + usize) \<times> bytes" where
  "encode_subscribe output type_id clauses = writer_finish (
     tryS (writer_u8 OP_SUBSCRIBE (Writer_new output)) (\<lambda>_ w.
     tryS (writer_u32 (type_u32 type_id) w) (\<lambda>_.
     writer_predicate clauses)))"

definition encode_subscribe_permanent ::
  "bytes \<Rightarrow> TypeId \<Rightarrow> ClauseRef list \<Rightarrow> (Error + usize) \<times> bytes" where
  "encode_subscribe_permanent output type_id clauses = writer_finish (
     tryS (writer_u8 OP_SUBSCRIBE_PERMANENT (Writer_new output)) (\<lambda>_ w.
     tryS (writer_u32 (type_u32 type_id) w) (\<lambda>_.
     writer_predicate clauses)))"

definition encode_publish ::
  "bytes \<Rightarrow> TypeId \<Rightarrow> ClauseRef list \<Rightarrow> bytes \<Rightarrow> (Error + usize) \<times> bytes" where
  "encode_publish output type_id clauses val =
     (if length val > MAX_VALUE_BYTES then (Inl Oversized, output)
      else writer_finish (
        tryS (writer_u8 OP_PUBLISH (Writer_new output)) (\<lambda>_ w.
        tryS (writer_u32 (type_u32 type_id) w) (\<lambda>_ w.
        tryS (writer_predicate clauses w) (\<lambda>_.
        writer_bytes_u16 val MAX_VALUE_BYTES)))))"

definition encode_response :: "bytes \<Rightarrow> TypeId \<Rightarrow> AgentId \<Rightarrow> bytes \<Rightarrow> (Error + usize) \<times> bytes" where
  "encode_response output type_id publisher val =
     (if length val > MAX_VALUE_BYTES then (Inl Oversized, output)
      else writer_finish (
        tryS (writer_u8 OP_RESPONSE (Writer_new output)) (\<lambda>_ w.
        tryS (writer_u32 (type_u32 type_id) w) (\<lambda>_ w.
        tryS (writer_raw (to_be_bytes (agent_array publisher)) w) (\<lambda>_.
        writer_bytes_u16 val MAX_VALUE_BYTES)))))"

section \<open>The wire format of the payload\<close>

text \<open>The bytes of each item, and the items that may be written.\<close>

definition bytes_u16_bytes :: "bytes \<Rightarrow> bytes" where
  "bytes_u16_bytes bs = to_be_bytes (of_nat (length bs) :: u16) @ bs"

fun value_bytes :: "ValueRef \<Rightarrow> bytes" where
  "value_bytes (Value_Bool b) = [1, if b then 1 else 0]"
| "value_bytes (Value_I64 i) = 2 # to_be_bytes i"
| "value_bytes (Value_Bytes bs) = 3 # bytes_u16_bytes bs"

fun value_valid :: "ValueRef \<Rightarrow> bool" where
  "value_valid (Value_Bytes bs) = (length bs \<le> MAX_ATTRIBUTE_BYTES)"
| "value_valid _ = True"

definition attribute_bytes :: "AttributeRef \<Rightarrow> bytes" where
  "attribute_bytes a = to_be_bytes (attribute_u16 (attribute_id a)) @ value_bytes (attribute_value a)"

definition clause_bytes :: "ClauseRef \<Rightarrow> bytes" where
  "clause_bytes c = to_be_bytes (attribute_u16 (clause_attribute c)) @ [Operator_u8 (clause_operator c)]
     @ value_bytes (clause_value c)"

definition attributes_valid :: "AttributeRef list \<Rightarrow> bool" where
  "attributes_valid attributes \<longleftrightarrow> length attributes \<le> MAX_ATTRIBUTES \<and>
     distinct (map attribute_id attributes) \<and> (\<forall>a\<in>set attributes. value_valid (attribute_value a))"

definition clauses_valid :: "ClauseRef list \<Rightarrow> bool" where
  "clauses_valid clauses \<longleftrightarrow>
     length clauses \<le> MAX_CLAUSES \<and> (\<forall>c\<in>set clauses. value_valid (clause_value c))"

text \<open>The environment and the predicate that the parser returns for these items.\<close>

definition environment_of :: "AttributeRef list \<Rightarrow> EnvironmentRef" where
  "environment_of attributes = \<lparr>environment_bytes = concat (map attribute_bytes attributes),
     environment_count = of_nat (length attributes)\<rparr>"

definition predicate_of :: "ClauseRef list \<Rightarrow> PredicateRef" where
  "predicate_of clauses = \<lparr>predicate_bytes = concat (map clause_bytes clauses),
     predicate_count = of_nat (length clauses)\<rparr>"

section \<open>Every reader implements its format\<close>

definition cur :: "bytes \<Rightarrow> bytes \<Rightarrow> Cursor" where
  "cur pre rest = \<lparr>cursor_input = pre @ rest, cursor_position = length pre\<rparr>"

lemma cur_simps [simp]:
  "cursor_position (cur pre rest) = length pre" "cursor_input (cur pre rest) = pre @ rest"
  by (simp_all add: cur_def)

lemma Cursor_new_cur: "Cursor_new input = cur [] input"
  by (simp add: Cursor_new_def cur_def)

lemma cursor_take_cur:
  "cursor_take n (cur pre rest) =
     (if n \<le> length rest then Inr (take n rest, cur (pre @ take n rest) (drop n rest)) else Inl Malformed)"
  by (simp add: cursor_take_def get_range_def range_of_def cur_def)

interpretation payload_cursor: wire_cursor cur
  by unfold_locales (auto simp: cur_def append_eq_append_conv)

interpretation u8_format: wire_format cur cursor_u8 "\<lambda>b. [b]" "\<lambda>_. True"
proof unfold_locales
  show "True \<and> (\<exists>rest'. rest = [x] @ rest' \<and> c = cur (pre @ [x]) rest')"
    if "cursor_u8 (cur pre rest) = Inr (x, c)" for pre rest x c
    using that by (cases rest) (auto simp: cursor_u8_def cursor_take_cur)
qed (simp add: cursor_u8_def cursor_take_cur)

lemma cursor_array_print:
  assumes "8 dvd LENGTH('a)"
  shows "cursor_array (cur pre (to_be_bytes w @ rest)) = Inr (w :: 'a::len word, cur (pre @ to_be_bytes w) rest)"
  using assms by (simp add: cursor_array_def cursor_take_cur)

lemma cursor_array_sound:
  assumes "8 dvd LENGTH('a)" "cursor_array (cur pre rest) = Inr (w :: 'a::len word, c)"
  shows "\<exists>rest'. rest = to_be_bytes w @ rest' \<and> c = cur (pre @ to_be_bytes w) rest'"
  using assms
  by (auto simp: cursor_array_def cursor_take_cur result_iffs try_into_array_Some_iff split: if_splits)
    (metis append_take_drop_id)

interpretation u16_format: wire_format cur cursor_u16 to_be_bytes "\<lambda>_. True"
  by unfold_locales (auto simp: cursor_u16_def cursor_array_print dest: cursor_array_sound [rotated])

interpretation u32_format: wire_format cur cursor_u32 to_be_bytes "\<lambda>_. True"
  by unfold_locales (auto simp: cursor_u32_def cursor_array_print dest: cursor_array_sound [rotated])

interpretation i64_format: wire_format cur "cursor_array :: Cursor \<Rightarrow> Error + i64 \<times> Cursor" to_be_bytes "\<lambda>_. True"
  by unfold_locales (auto simp: cursor_array_print dest: cursor_array_sound [rotated])

interpretation array16_format: wire_format cur "cursor_array :: Cursor \<Rightarrow> Error + array16 \<times> Cursor" to_be_bytes "\<lambda>_. True"
  by unfold_locales (auto simp: cursor_array_print dest: cursor_array_sound [rotated])

lemma unat_of_nat_u16: "n < 65536 \<Longrightarrow> unat (of_nat n :: u16) = n"
  by (simp add: unat_of_nat)

interpretation bytes_format: wire_format cur "cursor_bytes_u16 maximum" bytes_u16_bytes
  "\<lambda>bs. length bs \<le> maximum \<and> length bs < 65536" for maximum
proof unfold_locales
  show "cursor_bytes_u16 maximum (cur pre (bytes_u16_bytes x @ rest)) = Inr (x, cur (pre @ bytes_u16_bytes x) rest)"
    if "length x \<le> maximum \<and> length x < 65536" for x pre rest
    using that by (simp add: cursor_bytes_u16_def bytes_u16_bytes_def u16_format.parse_print
        unat_of_nat_u16 cursor_take_cur)
  show "(length x \<le> maximum \<and> length x < 65536) \<and>
      (\<exists>rest'. rest = bytes_u16_bytes x @ rest' \<and> c = cur (pre @ bytes_u16_bytes x) rest')"
    if "cursor_bytes_u16 maximum (cur pre rest) = Inr (x, c)" for x pre rest c
  proof -
    from that obtain w :: u16 and rest' where w: "rest = to_be_bytes w @ rest'" "\<not> unat w > maximum"
      "cursor_take (unat w) (cur (pre @ to_be_bytes w) rest') = Inr (x, c)"
      by (auto simp: cursor_bytes_u16_def tryE_Inr_iff u16_format.parse_iff split: if_splits)
    have "unat w < 65536" using unsigned_less [of w, where 'a = nat] by simp
    with w show ?thesis
      by (intro conjI exI [of _ "drop (unat w) rest'"])
        (auto simp: cursor_take_cur bytes_u16_bytes_def split: if_splits)
  qed
qed

interpretation value_format: wire_format cur "cursor_value MAX_ATTRIBUTE_BYTES" value_bytes value_valid
proof unfold_locales
  show "cursor_value MAX_ATTRIBUTE_BYTES (cur pre (value_bytes x @ rest)) = Inr (x, cur (pre @ value_bytes x) rest)"
    if "value_valid x" for x pre rest
    using that u8_format.parse_print
    by (cases x) (simp_all add: cursor_value_def i64_format.parse_print bytes_format.parse_print const_defs)
  show "value_valid x \<and> (\<exists>rest'. rest = value_bytes x @ rest' \<and> c = cur (pre @ value_bytes x) rest')"
    if "cursor_value MAX_ATTRIBUTE_BYTES (cur pre rest) = Inr (x, c)" for x pre rest c
    using that
    by (auto simp: cursor_value_def tryE_Inr_iff u8_format.parse_iff i64_format.parse_iff
        bytes_format.parse_iff split: if_splits)
qed

interpretation clause_head: wire_pair cur cursor_u16 to_be_bytes "\<lambda>_. True" cursor_u8 "\<lambda>b. [b]" "\<lambda>_. True"
  by unfold_locales

interpretation clause_format: wire_pair cur
  "\<lambda>c. tryE (cursor_u16 c) (\<lambda>(x, c). tryE (cursor_u8 c) (\<lambda>(y, c). Inr ((x, y), c)))"
  "\<lambda>(x, y). to_be_bytes x @ [y]" "\<lambda>(x, y). True \<and> True"
  "cursor_value MAX_ATTRIBUTE_BYTES" value_bytes value_valid
  by unfold_locales

lemma clause_bytes_fields:
  "clause_bytes \<lparr>clause_attribute = AttributeId a, clause_operator = op, clause_value = v\<rparr> =
     to_be_bytes a @ [Operator_u8 op] @ value_bytes v"
  by (simp add: clause_bytes_def)

lemma attribute_bytes_fields:
  "attribute_bytes \<lparr>attribute_id = AttributeId a, attribute_value = v\<rparr> = to_be_bytes a @ value_bytes v"
  by (simp add: attribute_bytes_def)

lemma cursor_clauses_print:
  assumes "\<forall>c\<in>set clauses. value_valid (clause_value c)"
  shows "cursor_clauses (length clauses) (cur pre (concat (map clause_bytes clauses) @ rest)) =
    Inr (cur (pre @ concat (map clause_bytes clauses)) rest)"
  using assms
proof (induction clauses arbitrary: pre)
  case (Cons c cs)
  then show ?case
    using u8_format.parse_print [where x = "Operator_u8 (clause_operator c)"]
    by (simp add: clause_bytes_def u16_format.parse_print value_format.parse_print)
qed simp

lemma cursor_clauses_sound:
  assumes "cursor_clauses n (cur pre rest) = Inr c"
  shows "\<exists>clauses rest'. length clauses = n \<and> (\<forall>c\<in>set clauses. value_valid (clause_value c)) \<and>
    rest = concat (map clause_bytes clauses) @ rest' \<and> c = cur (pre @ concat (map clause_bytes clauses)) rest'"
  using assms
proof (induction n arbitrary: pre rest)
  case (Suc n)
  then obtain a op v rest1 where step: "rest = to_be_bytes a @ [Operator_u8 op] @ value_bytes v @ rest1" "value_valid v"
    "cursor_clauses n (cur (pre @ to_be_bytes (a :: u16) @ [Operator_u8 op] @ value_bytes v) rest1) = Inr c"
    by (auto simp: tryE_Inr_iff ok_or_Inr_iff u16_format.parse_iff u8_format.parse_iff
        value_format.parse_iff Operator_from_u8_iff)
  from Suc.IH [OF step(3)] obtain cs rest' where "length cs = n" "\<forall>c\<in>set cs. value_valid (clause_value c)"
    "rest1 = concat (map clause_bytes cs) @ rest'"
    "c = cur ((pre @ to_be_bytes a @ [Operator_u8 op] @ value_bytes v) @ concat (map clause_bytes cs)) rest'"
    by blast
  with step show ?case
    by (intro exI [of _ "\<lparr>clause_attribute = AttributeId a, clause_operator = op, clause_value = v\<rparr> # cs"] exI [of _ rest'])
      (simp add: clause_bytes_fields)
qed simp

lemma cursor_attributes_print:
  assumes "\<forall>a\<in>set attributes. value_valid (attribute_value a)"
    "distinct (ids @ map (\<lambda>a. attribute_u16 (attribute_id a)) attributes)"
  shows "cursor_attributes (length attributes) ids (cur pre (concat (map attribute_bytes attributes) @ rest)) =
    Inr (cur (pre @ concat (map attribute_bytes attributes)) rest)"
  using assms
proof (induction attributes arbitrary: pre ids)
  case (Cons a as)
  then show ?case
    by (simp add: attribute_bytes_def u16_format.parse_print value_format.parse_print)
qed simp

lemma cursor_attributes_sound:
  assumes "cursor_attributes n ids (cur pre rest) = Inr c" "distinct ids"
  shows "\<exists>attributes rest'. length attributes = n \<and> (\<forall>a\<in>set attributes. value_valid (attribute_value a)) \<and>
    distinct (ids @ map (\<lambda>a. attribute_u16 (attribute_id a)) attributes) \<and>
    rest = concat (map attribute_bytes attributes) @ rest' \<and>
    c = cur (pre @ concat (map attribute_bytes attributes)) rest'"
  using assms
proof (induction n arbitrary: pre rest ids)
  case (Suc n)
  then obtain a v rest1 where step: "rest = to_be_bytes a @ value_bytes v @ rest1" "value_valid v" "a \<notin> set ids"
    "cursor_attributes n (ids @ [a]) (cur (pre @ to_be_bytes (a :: u16) @ value_bytes v) rest1) = Inr c"
    by (auto simp: tryE_Inr_iff u16_format.parse_iff value_format.parse_iff split: if_splits)
  have "distinct (ids @ [a])" using step(3) Suc.prems(2) by simp
  from Suc.IH [OF step(4) this] obtain as rest' where "length as = n"
    "\<forall>a\<in>set as. value_valid (attribute_value a)"
    "distinct ((ids @ [a]) @ map (\<lambda>a. attribute_u16 (attribute_id a)) as)" "rest1 = concat (map attribute_bytes as) @ rest'"
    "c = cur ((pre @ to_be_bytes a @ value_bytes v) @ concat (map attribute_bytes as)) rest'"
    by blast
  with step show ?case
    by (intro exI [of _ "\<lparr>attribute_id = AttributeId a, attribute_value = v\<rparr> # as"] exI [of _ rest'])
      (simp add: attribute_bytes_fields)
qed simp

lemma distinct_attribute_u16:
  "distinct (map (\<lambda>a. attribute_u16 (attribute_id a)) attributes) \<longleftrightarrow> distinct (map attribute_id attributes)"
  by (auto simp: distinct_map inj_on_def intro: AttributeId.expand)

text \<open>The operations as the application sees them, with their canonical bytes.\<close>

datatype Operation =
    SetEnvironment "AttributeRef list"
  | Subscribe TypeId "ClauseRef list"
  | SubscribePermanent TypeId "ClauseRef list"
  | Publish TypeId "ClauseRef list" bytes
  | PublicationResponse TypeId AgentId bytes

definition predicate_wire :: "ClauseRef list \<Rightarrow> bytes" where
  "predicate_wire clauses = of_nat (length clauses) # concat (map clause_bytes clauses)"

fun operation_bytes :: "Operation \<Rightarrow> bytes" where
  "operation_bytes (SetEnvironment attributes) =
     OP_ENVIRONMENT # of_nat (length attributes) # concat (map attribute_bytes attributes)"
| "operation_bytes (Subscribe t clauses) = OP_SUBSCRIBE # to_be_bytes (type_u32 t) @ predicate_wire clauses"
| "operation_bytes (SubscribePermanent t clauses) =
     OP_SUBSCRIBE_PERMANENT # to_be_bytes (type_u32 t) @ predicate_wire clauses"
| "operation_bytes (Publish t clauses val) =
     OP_PUBLISH # to_be_bytes (type_u32 t) @ predicate_wire clauses @ bytes_u16_bytes val"
| "operation_bytes (PublicationResponse t publisher val) =
     OP_RESPONSE # to_be_bytes (type_u32 t) @ to_be_bytes (agent_array publisher) @ bytes_u16_bytes val"

fun operation_valid :: "Operation \<Rightarrow> bool" where
  "operation_valid (SetEnvironment attributes) = attributes_valid attributes"
| "operation_valid (Subscribe t clauses) = clauses_valid clauses"
| "operation_valid (SubscribePermanent t clauses) = clauses_valid clauses"
| "operation_valid (Publish t clauses val) = (clauses_valid clauses \<and> length val \<le> MAX_VALUE_BYTES)"
| "operation_valid (PublicationResponse t publisher val) = (length val \<le> MAX_VALUE_BYTES)"

fun operation_ref :: "Operation \<Rightarrow> OperationRef" where
  "operation_ref (SetEnvironment attributes) = Op_SetEnvironment (environment_of attributes)"
| "operation_ref (Subscribe t clauses) = Op_Subscribe t (predicate_of clauses)"
| "operation_ref (SubscribePermanent t clauses) = Op_SubscribePermanent t (predicate_of clauses)"
| "operation_ref (Publish t clauses val) = Op_Publish t (predicate_of clauses) val"
| "operation_ref (PublicationResponse t publisher val) = Op_PublicationResponse t publisher val"

lemma unat_of_nat_u8_small: "n < 256 \<Longrightarrow> unat (of_nat n :: u8) = n"
  by (simp add: unat_of_nat)

lemma of_nat_unat_length: "length xs = unat w \<Longrightarrow> of_nat (length xs) = (w :: u8)"
  by simp

lemma cursor_predicate_print:
  assumes "clauses_valid clauses"
  shows "cursor_predicate (pre @ predicate_wire clauses @ rest) (cur pre (predicate_wire clauses @ rest)) =
     Inr (predicate_of clauses, cur (pre @ predicate_wire clauses) rest)"
  using assms u8_format.parse_print [where x = "of_nat (length clauses)"]
    cursor_clauses_print [of clauses "pre @ [of_nat (length clauses)]" rest]
  by (simp add: cursor_predicate_def predicate_wire_def clauses_valid_def unat_of_nat_u8_small
      const_defs predicate_of_def Let_def range_of_def)

lemma cursor_predicate_sound:
  assumes "cursor_predicate (pre @ rest) (cur pre rest) = Inr (p, c)"
  shows "\<exists>clauses rest'. clauses_valid clauses \<and> p = predicate_of clauses \<and>
    rest = predicate_wire clauses @ rest' \<and> c = cur (pre @ predicate_wire clauses) rest'"
proof -
  from assms obtain count rest1 c1 where 1: "rest = count # rest1" "unat count \<le> MAX_CLAUSES"
    "cursor_clauses (unat count) (cur (pre @ [count]) rest1) = Inr c1" "c = c1"
    "p = \<lparr>predicate_bytes = range_of (pre @ rest) (Suc (length pre)) (cursor_position c1), predicate_count = count\<rparr>"
    by (auto simp: cursor_predicate_def tryE_Inr_iff u8_format.parse_iff Let_def split: if_splits)
  from cursor_clauses_sound [OF 1(3)] obtain clauses rest' where 2: "length clauses = unat count"
    "\<forall>c\<in>set clauses. value_valid (clause_value c)" "rest1 = concat (map clause_bytes clauses) @ rest'"
    "c1 = cur ((pre @ [count]) @ concat (map clause_bytes clauses)) rest'"
    by blast
  with 1 show ?thesis
    by (intro exI [of _ clauses] exI [of _ rest'])
      (simp add: clauses_valid_def predicate_wire_def predicate_of_def of_nat_unat_length range_of_def)
qed

lemma parse_operation_print:
  assumes "operation_valid op"
  shows "parse_operation (operation_bytes op) = Inr (operation_ref op)"
proof (cases op)
  case (SetEnvironment as)
  have u: "unat (of_nat (length as) :: u8) = length as" "length as \<le> 16"
    using assms SetEnvironment by (simp_all add: attributes_valid_def const_defs unat_of_nat_u8_small)
  have "cursor_attributes (length as) []
     (cur [OP_ENVIRONMENT, of_nat (length as)] (concat (map attribute_bytes as) @ [])) =
     Inr (cur ([OP_ENVIRONMENT, of_nat (length as)] @ concat (map attribute_bytes as)) [])"
    using assms SetEnvironment
    by (intro cursor_attributes_print) (simp_all add: attributes_valid_def distinct_attribute_u16)
  with SetEnvironment u show ?thesis
    using u8_format.parse_print [where x = OP_ENVIRONMENT and pre = "[]"]
      u8_format.parse_print [where x = "of_nat (length as)"]
    by (simp add: parse_operation_def Cursor_new_cur const_defs Let_def environment_of_def range_of_def)
next
  case (Subscribe t cs)
  then show ?thesis
    using assms u8_format.parse_print [where x = OP_SUBSCRIBE and pre = "[]"]
      cursor_predicate_print [where rest = "[]" and clauses = cs and pre = "OP_SUBSCRIBE # to_be_bytes (type_u32 t)"]
    by (simp add: parse_operation_def Cursor_new_cur u32_format.parse_print op_defs)
next
  case (SubscribePermanent t cs)
  then show ?thesis
    using assms u8_format.parse_print [where x = OP_SUBSCRIBE_PERMANENT and pre = "[]"]
      cursor_predicate_print [where rest = "[]" and clauses = cs and pre = "OP_SUBSCRIBE_PERMANENT # to_be_bytes (type_u32 t)"]
    by (simp add: parse_operation_def Cursor_new_cur u32_format.parse_print op_defs)
next
  case (Publish t cs val)
  then show ?thesis
    using assms u8_format.parse_print [where x = OP_PUBLISH and pre = "[]"]
      cursor_predicate_print [where rest = "bytes_u16_bytes val" and clauses = cs and pre = "OP_PUBLISH # to_be_bytes (type_u32 t)"]
      bytes_format.parse_print [where rest = "[]" and x = val and maximum = MAX_VALUE_BYTES]
    by (simp add: parse_operation_def Cursor_new_cur u32_format.parse_print op_defs const_defs)
next
  case (PublicationResponse t publisher val)
  then show ?thesis
    using assms u8_format.parse_print [where x = OP_RESPONSE and pre = "[]"]
      bytes_format.parse_print [where rest = "[]" and x = val and maximum = MAX_VALUE_BYTES]
    by (simp add: parse_operation_def Cursor_new_cur u32_format.parse_print array16_format.parse_print op_defs const_defs)
qed

lemma cur_at_end: "length pre = length (pre @ rest) \<longleftrightarrow> rest = []"
  by simp

lemma parse_environment_sound:
  assumes "cursor_attributes (unat count) [] (cur [OP_ENVIRONMENT, count] rest) = Inr c"
    "unat count \<le> MAX_ATTRIBUTES" "cursor_position c = Suc (Suc (length rest))"
  shows "\<exists>as. attributes_valid as \<and> count = of_nat (length as) \<and> rest = concat (map attribute_bytes as)"
proof -
  from cursor_attributes_sound [OF assms(1)] obtain as rest' where "length as = unat count"
    "\<forall>a\<in>set as. value_valid (attribute_value a)" "distinct (map (\<lambda>a. attribute_u16 (attribute_id a)) as)"
    "rest = concat (map attribute_bytes as) @ rest'"
    "c = cur ([OP_ENVIRONMENT, count] @ concat (map attribute_bytes as)) rest'"
    by auto
  with assms(2,3) show ?thesis
    by (intro exI [of _ as]) (simp add: attributes_valid_def distinct_attribute_u16 of_nat_unat_length)
qed

lemma cursor_predicate_soundE:
  assumes "cursor_predicate input (cur pre rest) = Inr (p, c)" "input = pre @ rest"
  obtains clauses rest' where "clauses_valid clauses" "p = predicate_of clauses"
    "rest = predicate_wire clauses @ rest'" "c = cur (pre @ predicate_wire clauses) rest'"
  using cursor_predicate_sound assms by metis

lemma parse_operation_cases:
  assumes "parse_operation input = Inr r"
  obtains (env) count rest c where "input = OP_ENVIRONMENT # count # rest" "unat count \<le> MAX_ATTRIBUTES"
      "cursor_attributes (unat count) [] (cur [OP_ENVIRONMENT, count] rest) = Inr c"
      "cursor_position c = length input"
      "r = Op_SetEnvironment \<lparr>environment_bytes = range_of input 2 (cursor_position c), environment_count = count\<rparr>"
  | (sub) t rest p c where "input = OP_SUBSCRIBE # to_be_bytes t @ rest"
      "cursor_predicate input (cur (OP_SUBSCRIBE # to_be_bytes t) rest) = Inr (p, c)"
      "cursor_position c = length input" "r = Op_Subscribe (TypeId t) p"
  | (perm) t rest p c where "input = OP_SUBSCRIBE_PERMANENT # to_be_bytes t @ rest"
      "cursor_predicate input (cur (OP_SUBSCRIBE_PERMANENT # to_be_bytes t) rest) = Inr (p, c)"
      "cursor_position c = length input" "r = Op_SubscribePermanent (TypeId t) p"
  | (pub) t rest p c val c' where "input = OP_PUBLISH # to_be_bytes t @ rest"
      "cursor_predicate input (cur (OP_PUBLISH # to_be_bytes t) rest) = Inr (p, c)"
      "cursor_bytes_u16 MAX_VALUE_BYTES c = Inr (val, c')"
      "cursor_position c' = length input" "r = Op_Publish (TypeId t) p val"
  | (resp) t publisher val where "r = Op_PublicationResponse (TypeId t) (AgentId publisher) val"
      "input = OP_RESPONSE # to_be_bytes t @ to_be_bytes publisher @ bytes_u16_bytes val"
      "length val \<le> MAX_VALUE_BYTES"
proof -
  from assms obtain b rest where input: "input = b # rest"
    by (auto simp: parse_operation_def tryE_Inr_iff Cursor_new_cur u8_format.parse_iff)
  have first: "cursor_u8 (Cursor_new input) = Inr (b, cur [b] rest)"
    using u8_format.parse_print [where x = b and pre = "[]" and rest = rest] by (simp add: input Cursor_new_cur)
  note body = assms [unfolded parse_operation_def first tryE_simps split_conv]
  consider "b = OP_ENVIRONMENT" | "b = OP_SUBSCRIBE" | "b = OP_SUBSCRIBE_PERMANENT"
    | "b = OP_PUBLISH" | "b = OP_RESPONSE"
    using body by (auto split: if_splits)
  then show thesis
  proof cases
    case 1
    with body show thesis
      by (auto simp: op_defs input tryE_Inr_iff u8_format.parse_iff Let_def numeral_2_eq_2
          split: if_splits intro: env [unfolded op_defs])
  next
    case 2
    with body show thesis
      by (auto simp: op_defs input tryE_Inr_iff u32_format.parse_iff split: if_splits intro: sub [unfolded op_defs])
  next
    case 3
    with body show thesis
      by (auto simp: op_defs input tryE_Inr_iff u32_format.parse_iff split: if_splits intro: perm [unfolded op_defs])
  next
    case 4
    with body show thesis
      by (auto simp: op_defs input tryE_Inr_iff u32_format.parse_iff split: if_splits intro: pub [unfolded op_defs])
  next
    case 5
    with body show thesis
      by (auto simp: op_defs input tryE_Inr_iff u32_format.parse_iff array16_format.parse_iff
          bytes_format.parse_iff split: if_splits) (rule resp, auto simp: input op_defs)
  qed
qed

lemma parse_operation_sound:
  assumes "parse_operation input = Inr r"
  shows "\<exists>op. operation_valid op \<and> input = operation_bytes op \<and> r = operation_ref op"
  using assms
proof (cases rule: parse_operation_cases)
  case (env count rest c)
  with parse_environment_sound [OF env(3,2)] obtain as where "attributes_valid as"
    "count = of_nat (length as)" "rest = concat (map attribute_bytes as)" by auto
  with env show ?thesis
    by (intro exI [of _ "SetEnvironment as"]) (simp add: environment_of_def range_of_def)
next
  case (sub t rest p c)
  from cursor_predicate_soundE [OF sub(2)] sub(1) obtain cs rest' where "clauses_valid cs"
    "p = predicate_of cs" "rest = predicate_wire cs @ rest'"
    "c = cur ((OP_SUBSCRIBE # to_be_bytes t) @ predicate_wire cs) rest'" by auto
  with sub show ?thesis by (intro exI [of _ "Subscribe (TypeId t) cs"]) simp
next
  case (perm t rest p c)
  from cursor_predicate_soundE [OF perm(2)] perm(1) obtain cs rest' where "clauses_valid cs"
    "p = predicate_of cs" "rest = predicate_wire cs @ rest'"
    "c = cur ((OP_SUBSCRIBE_PERMANENT # to_be_bytes t) @ predicate_wire cs) rest'" by auto
  with perm show ?thesis by (intro exI [of _ "SubscribePermanent (TypeId t) cs"]) simp
next
  case (pub t rest p c val c')
  from cursor_predicate_soundE [OF pub(2)] pub(1) obtain cs rest' where 1: "clauses_valid cs"
    "p = predicate_of cs" "rest = predicate_wire cs @ rest'"
    "c = cur ((OP_PUBLISH # to_be_bytes t) @ predicate_wire cs) rest'" by auto
  with pub(3) obtain rest'' where "length val \<le> MAX_VALUE_BYTES" "rest' = bytes_u16_bytes val @ rest''"
    "c' = cur (((OP_PUBLISH # to_be_bytes t) @ predicate_wire cs) @ bytes_u16_bytes val) rest''"
    by (auto simp: bytes_format.parse_iff)
  with 1 pub show ?thesis by (intro exI [of _ "Publish (TypeId t) cs val"]) simp
next
  case (resp t publisher val)
  then show ?thesis by (intro exI [of _ "PublicationResponse (TypeId t) (AgentId publisher) val"]) simp
qed

section \<open>Environments and predicates mean their items\<close>

definition attribute_lookup :: "AttributeRef list \<Rightarrow> AttributeId \<Rightarrow> ValueRef option" where
  "attribute_lookup attributes = map_of (map (\<lambda>a. (attribute_id a, attribute_value a)) attributes)"

lemma attribute_lookup_simps [simp]:
  "attribute_lookup [] i = None"
  "attribute_lookup (a # as) i = (if attribute_id a = i then Some (attribute_value a) else attribute_lookup as i)"
  by (simp_all add: attribute_lookup_def)

lemma attributes_valid_count:
  "attributes_valid as \<Longrightarrow> unat (environment_count (environment_of as)) = length as"
  by (simp add: attributes_valid_def environment_of_def const_defs unat_of_nat_u8_small)

lemma attributes_valid_values: "attributes_valid as \<Longrightarrow> \<forall>a\<in>set as. value_valid (attribute_value a)"
  by (simp add: attributes_valid_def)

lemma environment_get_loop_cur:
  "\<forall>a\<in>set as. value_valid (attribute_value a) \<Longrightarrow>
     environment_get_loop (length as) wanted (cur pre (concat (map attribute_bytes as) @ rest)) =
       attribute_lookup as wanted"
  by (induction as arbitrary: pre)
    (auto simp: attribute_bytes_def u16_format.parse_print value_format.parse_print)

lemma environment_get_of:
  assumes "attributes_valid as"
  shows "environment_get (environment_of as) wanted = attribute_lookup as wanted"
  using environment_get_loop_cur [OF attributes_valid_values [OF assms], of wanted "[]" "[]"]
  by (simp add: environment_get_def attributes_valid_count assms Cursor_new_cur) (simp add: environment_of_def)

lemma environment_items_cur:
  "\<forall>a\<in>set as. value_valid (attribute_value a) \<Longrightarrow> unat n = length as \<Longrightarrow>
     environment_items \<lparr>iter_cursor = cur pre (concat (map attribute_bytes as) @ rest), iter_remaining = n\<rparr> = as"
proof (induction as arbitrary: pre n)
  case (Cons a as)
  then have n: "n \<noteq> 0" by auto
  then have m: "unat (n - 1) = length as" using Cons.prems(2) by (simp add: unat_minus_one)
  have "EnvironmentIter_next \<lparr>iter_cursor = cur pre (concat (map attribute_bytes (a # as)) @ rest), iter_remaining = n\<rparr> =
    Some (a, \<lparr>iter_cursor = cur (pre @ attribute_bytes a) (concat (map attribute_bytes as) @ rest), iter_remaining = n - 1\<rparr>)"
    using Cons.prems n
    by (simp add: EnvironmentIter_next_def attribute_bytes_def u16_format.parse_print value_format.parse_print)
  with Cons.IH [of "n - 1" "pre @ attribute_bytes a"] Cons.prems m show ?case
    by (subst environment_items.simps) simp
qed (simp add: environment_items.simps [of "\<lparr>iter_cursor = _, iter_remaining = _\<rparr>"] EnvironmentIter_next_def unat_eq_0)

lemma environment_items_of:
  assumes "attributes_valid as"
  shows "environment_items (environment_iter (environment_of as)) = as"
  using environment_items_cur [OF attributes_valid_values [OF assms] attributes_valid_count [OF assms], of "[]" "[]"]
  by (simp add: environment_iter_def Cursor_new_cur) (simp add: environment_of_def)

text \<open>A clause holds when the attribute is present and the comparison holds; the comparison of
  values of different types never does.\<close>

fun operator_holds :: "Operator \<Rightarrow> 'a::linorder \<Rightarrow> 'a \<Rightarrow> bool" where
  "operator_holds Operator_Eq a b = (a = b)"
| "operator_holds Operator_Ne a b = (a \<noteq> b)"
| "operator_holds Operator_Lt a b = (a < b)"
| "operator_holds Operator_Le a b = (a \<le> b)"
| "operator_holds Operator_Gt a b = (a > b)"
| "operator_holds Operator_Ge a b = (a \<ge> b)"

fun values_compare :: "Operator \<Rightarrow> ValueRef \<Rightarrow> ValueRef \<Rightarrow> bool" where
  "values_compare op (Value_Bool a) (Value_Bool b) = operator_holds op a b"
| "values_compare op (Value_I64 a) (Value_I64 b) = operator_holds op (sint a) (sint b)"
| "values_compare op (Value_Bytes a) (Value_Bytes b) = operator_holds op a b"
| "values_compare op _ _ = False"

definition clause_holds :: "AttributeRef list \<Rightarrow> ClauseRef \<Rightarrow> bool" where
  "clause_holds attributes c =
     (case attribute_lookup attributes (clause_attribute c) of
        None \<Rightarrow> False
      | Some v \<Rightarrow> values_compare (clause_operator c) v (clause_value c))"

lemma cmp_operator:
  "(case op of Operator_Eq \<Rightarrow> cmp a b = Equal | Operator_Ne \<Rightarrow> cmp a b \<noteq> Equal | Operator_Lt \<Rightarrow> cmp a b = Less
    | Operator_Le \<Rightarrow> cmp a b = Less \<or> cmp a b = Equal | Operator_Gt \<Rightarrow> cmp a b = Greater
    | Operator_Ge \<Rightarrow> cmp a b = Greater \<or> cmp a b = Equal) = operator_holds op a b"
  by (cases op) (auto simp: cmp_def)

lemma compare_values: "compare lhs op rhs = values_compare op lhs rhs"
  by (cases lhs; cases rhs) (simp_all add: compare_def cmp_operator)

lemma predicate_loop_cur:
  assumes "\<forall>c\<in>set clauses. value_valid (clause_value c)" "attributes_valid as"
  shows "predicate_loop (length clauses) (environment_of as) (cur pre (concat (map clause_bytes clauses) @ rest)) =
    list_all (clause_holds as) clauses"
  using assms
proof (induction clauses arbitrary: pre)
  case (Cons c cs)
  have op: "cursor_u8 (cur pre (Operator_u8 (clause_operator c) # rest)) =
      Inr (Operator_u8 (clause_operator c), cur (pre @ [Operator_u8 (clause_operator c)]) rest)" for pre rest
    using u8_format.parse_print [where x = "Operator_u8 (clause_operator c)"] by simp
  from Cons show ?case
    by (cases "attribute_lookup as (clause_attribute c)")
      (simp_all add: clause_bytes_def [of c] u16_format.parse_print op value_format.parse_print
        environment_get_of clause_holds_def [of as c] compare_values)
qed simp

lemma predicate_evaluate_of:
  assumes "clauses_valid clauses" "attributes_valid as"
  shows "predicate_evaluate (predicate_of clauses) (environment_of as) = list_all (clause_holds as) clauses"
proof -
  have "unat (predicate_count (predicate_of clauses)) = length clauses"
    using assms(1) by (simp add: clauses_valid_def predicate_of_def const_defs unat_of_nat_u8_small)
  then show ?thesis
    using predicate_loop_cur [of clauses as "[]" "[]"] assms
    by (simp add: predicate_evaluate_def Cursor_new_cur clauses_valid_def) (simp add: predicate_of_def)
qed

section \<open>Encoders write the canonical bytes\<close>

definition wr :: "bytes \<Rightarrow> bytes \<Rightarrow> Writer" where
  "wr pre room = \<lparr>writer_output = pre @ room, writer_position = length pre\<rparr>"

abbreviation "writes m ok bs \<equiv> emits wr Oversized m ok bs"

lemma writer_raw_writes: "writes (writer_raw bs) True bs"
  by (simp add: emits_def writer_raw_def wr_def copy_at_append)

lemma writer_ints_write:
  "writes (writer_u8 b) True [b]" "writes (writer_u16 h) True (to_be_bytes h)" "writes (writer_u32 i) True (to_be_bytes i)"
  using writer_raw_writes by (simp_all add: writer_u8_def [abs_def] writer_u16_def [abs_def] writer_u32_def [abs_def])

lemma writer_bytes_u16_writes:
  "writes (writer_bytes_u16 val maximum) (length val \<le> maximum \<and> length val < 65536) (bytes_u16_bytes val)"
  by (rule emits_cong [OF emits_guard [where g = "length val \<le> maximum \<and> length val < 65536",
          OF emits_seq [OF writer_ints_write(2) writer_raw_writes]]])
    (auto simp: writer_bytes_u16_def bytes_u16_bytes_def)

lemma writer_value_writes: "writes (writer_value v MAX_ATTRIBUTE_BYTES) (value_valid v) (value_bytes v)"
proof (cases v)
  case (Value_Bool b)
  show ?thesis
    by (rule emits_cong [OF emits_seq [OF writer_ints_write(1) writer_ints_write(1)]])
      (simp_all add: writer_value_def Value_Bool)
next
  case (Value_I64 i)
  show ?thesis
    by (rule emits_cong [OF emits_seq [OF writer_ints_write(1) writer_raw_writes]])
      (simp_all add: writer_value_def Value_I64)
next
  case (Value_Bytes bs)
  show ?thesis
    by (rule emits_cong [OF emits_seq [OF writer_ints_write(1) writer_bytes_u16_writes]])
      (auto simp: writer_value_def Value_Bytes const_defs)
qed

lemma writer_clauses_writes:
  "writes (writer_clauses cs) (\<forall>c\<in>set cs. value_valid (clause_value c)) (concat (map clause_bytes cs))"
proof (induction cs)
  case (Cons c cs)
  from emits_seq [OF writer_ints_write(2) emits_seq [OF writer_ints_write(1) emits_seq [OF writer_value_writes Cons]]]
  show ?case by (simp add: clause_bytes_def [of c])
qed (simp add: emits_nothing)

lemma writer_attributes_writes:
  "writes (writer_attributes as) (\<forall>a\<in>set as. value_valid (attribute_value a)) (concat (map attribute_bytes as))"
proof (induction as)
  case (Cons a as)
  from emits_seq [OF writer_ints_write(2) emits_seq [OF writer_value_writes Cons]]
  show ?case by (simp add: attribute_bytes_def [of a])
qed (simp add: emits_nothing)

lemma writer_predicate_writes: "writes (writer_predicate cs) (clauses_valid cs) (predicate_wire cs)"
  by (rule emits_cong [OF emits_guard [where g = "length cs \<le> MAX_CLAUSES",
          OF emits_seq [OF writer_ints_write(1) writer_clauses_writes]]])
    (simp_all add: writer_predicate_def predicate_wire_def clauses_valid_def const_defs)

lemma Writer_new_wr: "Writer_new buf = wr [] buf"
  by (simp add: Writer_new_def wr_def)

lemma writer_finish_ok:
  assumes "writes m ok bs" "ok" "length bs \<le> length buf"
  shows "writer_finish (m (Writer_new buf)) = (Inr (length bs), bs @ drop (length bs) buf)"
  using emits_ok [OF assms, of "[]"] by (simp add: Writer_new_wr writer_finish_def) (simp add: wr_def)

lemma writer_finish_err:
  assumes "writes m ok bs" "\<not> (ok \<and> length bs \<le> length buf)"
  shows "fst (writer_finish (m (Writer_new buf))) = Inl Oversized"
  using emits_err [OF assms, of "[]"] by (auto simp: Writer_new_wr writer_finish_def split: prod.splits sum.splits)

lemma unique_attributes_loop_iff:
  "distinct (map attribute_id earlier) \<Longrightarrow>
   unique_attributes_loop earlier as =
     (if distinct (map attribute_id (earlier @ as)) then Inr () else Inl Malformed)"
proof (induction as arbitrary: earlier)
  case (Cons a as)
  show ?case
  proof (cases "attribute_id a \<in> attribute_id ` set earlier")
    case True
    then have "list_ex (\<lambda>prior. attribute_id prior = attribute_id a) earlier" by (auto simp: list_ex_iff)
    with True show ?thesis by simp
  next
    case False
    then have "\<not> list_ex (\<lambda>prior. attribute_id prior = attribute_id a) earlier" by (auto simp: list_ex_iff image_iff dest: sym)
    with False Cons show ?thesis by simp
  qed
qed simp

lemma ensure_unique_attributes_iff:
  "ensure_unique_attributes as = (if distinct (map attribute_id as) then Inr () else Inl Malformed)"
  by (simp add: ensure_unique_attributes_def unique_attributes_loop_iff)

text \<open>The encoder of each operation, and what all of them have in common.\<close>

fun encode_operation :: "bytes \<Rightarrow> Operation \<Rightarrow> (Error + usize) \<times> bytes" where
  "encode_operation buf (SetEnvironment attributes) = encode_environment buf attributes"
| "encode_operation buf (Subscribe t clauses) = encode_subscribe buf t clauses"
| "encode_operation buf (SubscribePermanent t clauses) = encode_subscribe_permanent buf t clauses"
| "encode_operation buf (Publish t clauses val) = encode_publish buf t clauses val"
| "encode_operation buf (PublicationResponse t publisher val) = encode_response buf t publisher val"

fun operation_writer :: "Operation \<Rightarrow> Writer \<Rightarrow> (Error + unit) \<times> Writer" where
  "operation_writer (SetEnvironment attributes) w =
     tryS (writer_u8 OP_ENVIRONMENT w) (\<lambda>_ w. tryS (writer_u8 (of_nat (length attributes)) w) (\<lambda>_. writer_attributes attributes))"
| "operation_writer (Subscribe t clauses) w =
     tryS (writer_u8 OP_SUBSCRIBE w) (\<lambda>_ w. tryS (writer_u32 (type_u32 t) w) (\<lambda>_. writer_predicate clauses))"
| "operation_writer (SubscribePermanent t clauses) w =
     tryS (writer_u8 OP_SUBSCRIBE_PERMANENT w) (\<lambda>_ w. tryS (writer_u32 (type_u32 t) w) (\<lambda>_. writer_predicate clauses))"
| "operation_writer (Publish t clauses val) w =
     tryS (writer_u8 OP_PUBLISH w) (\<lambda>_ w. tryS (writer_u32 (type_u32 t) w) (\<lambda>_ w.
     tryS (writer_predicate clauses w) (\<lambda>_. writer_bytes_u16 val MAX_VALUE_BYTES)))"
| "operation_writer (PublicationResponse t publisher val) w =
     tryS (writer_u8 OP_RESPONSE w) (\<lambda>_ w. tryS (writer_u32 (type_u32 t) w) (\<lambda>_ w.
     tryS (writer_raw (to_be_bytes (agent_array publisher)) w) (\<lambda>_. writer_bytes_u16 val MAX_VALUE_BYTES)))"

fun writer_valid :: "Operation \<Rightarrow> bool" where
  "writer_valid (SetEnvironment attributes) = (\<forall>a\<in>set attributes. value_valid (attribute_value a))"
| "writer_valid op = operation_valid op"

lemma operation_writer_writes: "writes (operation_writer op) (writer_valid op) (operation_bytes op)"
proof (cases op)
  case (SetEnvironment as)
  show ?thesis
    by (rule emits_cong [OF emits_seq [OF writer_ints_write(1) emits_seq [OF writer_ints_write(1) writer_attributes_writes]]])
      (simp_all add: SetEnvironment)
next
  case (Subscribe t cs)
  show ?thesis
    by (rule emits_cong [OF emits_seq [OF writer_ints_write(1) emits_seq [OF writer_ints_write(3) writer_predicate_writes]]])
      (simp_all add: Subscribe)
next
  case (SubscribePermanent t cs)
  show ?thesis
    by (rule emits_cong [OF emits_seq [OF writer_ints_write(1) emits_seq [OF writer_ints_write(3) writer_predicate_writes]]])
      (simp_all add: SubscribePermanent)
next
  case (Publish t cs val)
  show ?thesis
    by (rule emits_cong [OF emits_seq [OF writer_ints_write(1) emits_seq [OF writer_ints_write(3)
          emits_seq [OF writer_predicate_writes writer_bytes_u16_writes]]]])
      (auto simp: Publish const_defs)
next
  case (PublicationResponse t publisher val)
  show ?thesis
    by (rule emits_cong [OF emits_seq [OF writer_ints_write(1) emits_seq [OF writer_ints_write(3)
          emits_seq [OF writer_raw_writes writer_bytes_u16_writes]]]])
      (auto simp: PublicationResponse const_defs)
qed

text \<open>Why an encoder refuses an operation.\<close>

fun encode_error :: "Operation \<Rightarrow> Error" where
  "encode_error (SetEnvironment attributes) =
     (if length attributes \<le> MAX_ATTRIBUTES \<and> \<not> distinct (map attribute_id attributes)
      then Malformed else Oversized)"
| "encode_error op = Oversized"

lemma encode_operation_writer:
  "encode_operation buf op =
     (case op of
        SetEnvironment as \<Rightarrow>
          if length as > MAX_ATTRIBUTES then (Inl Oversized, buf)
          else if \<not> distinct (map attribute_id as) then (Inl Malformed, buf)
          else writer_finish (operation_writer op (Writer_new buf))
      | Publish t cs val \<Rightarrow> if length val > MAX_VALUE_BYTES then (Inl Oversized, buf)
          else writer_finish (operation_writer op (Writer_new buf))
      | PublicationResponse t p val \<Rightarrow> if length val > MAX_VALUE_BYTES then (Inl Oversized, buf)
          else writer_finish (operation_writer op (Writer_new buf))
      | _ \<Rightarrow> writer_finish (operation_writer op (Writer_new buf)))"
  by (cases op) (auto simp: encode_environment_def encode_subscribe_def encode_subscribe_permanent_def
      encode_publish_def encode_response_def ensure_unique_attributes_iff const_defs)

lemma encode_operation_ok:
  assumes "operation_valid op" "length (operation_bytes op) \<le> length buf"
  shows "encode_operation buf op =
    (Inr (length (operation_bytes op)), operation_bytes op @ drop (length (operation_bytes op)) buf)"
proof -
  have "writer_valid op" using assms(1) by (cases op) (simp_all add: attributes_valid_def)
  note finish = writer_finish_ok [OF operation_writer_writes this assms(2)]
  show ?thesis
    unfolding encode_operation_writer finish using assms(1) by (cases op) (simp_all add: attributes_valid_def)
qed

lemma encode_operation_err:
  assumes "\<not> (operation_valid op \<and> length (operation_bytes op) \<le> length buf)"
  shows "fst (encode_operation buf op) = Inl (encode_error op)"
proof (cases "writer_valid op \<and> length (operation_bytes op) \<le> length buf")
  case True
  with assms have "\<not> operation_valid op" "writer_valid op" by auto
  then show ?thesis
    unfolding encode_operation_writer by (cases op) (auto simp: attributes_valid_def)
next
  case False
  from writer_finish_err [OF operation_writer_writes this] show ?thesis
    unfolding encode_operation_writer by (cases op) simp_all
qed

section \<open>Length bounds\<close>

lemma length_value_bytes: "value_valid v \<Longrightarrow> length (value_bytes v) \<le> 67"
  by (cases v) (simp_all add: bytes_u16_bytes_def const_defs)

lemma length_concat_bounded:
  "\<forall>x\<in>set xs. length (f x) \<le> k \<Longrightarrow> length (concat (map f xs)) \<le> k * length xs"
  by (induction xs) auto

lemma length_attributes_bytes:
  assumes "attributes_valid as"
  shows "length (concat (map attribute_bytes as)) \<le> 1104"
proof -
  have "\<forall>a\<in>set as. length (attribute_bytes a) \<le> 69"
    using assms length_value_bytes by (fastforce simp: attributes_valid_def attribute_bytes_def)
  from length_concat_bounded [OF this] assms show ?thesis
    by (simp add: attributes_valid_def const_defs)
qed

lemma length_predicate_wire:
  assumes "clauses_valid cs"
  shows "length (predicate_wire cs) \<le> 561"
proof -
  have "\<forall>c\<in>set cs. length (clause_bytes c) \<le> 70"
    using assms length_value_bytes by (fastforce simp: clauses_valid_def clause_bytes_def)
  from length_concat_bounded [OF this] assms show ?thesis
    by (simp add: clauses_valid_def predicate_wire_def const_defs)
qed

lemma length_operation_bytes:
  assumes "operation_valid op"
  shows "length (operation_bytes op) \<le> 3640"
  using assms length_attributes_bytes length_predicate_wire
  by (cases op) (fastforce simp: bytes_u16_bytes_def const_defs)+

section \<open>Canonical encodings\<close>

text \<open>The parsed environment and predicate determine the items they were written from, so a
  frame has one meaning.\<close>

lemma environment_of_inject:
  "attributes_valid as \<Longrightarrow> attributes_valid bs \<Longrightarrow> environment_of as = environment_of bs \<Longrightarrow> as = bs"
  using environment_items_of by metis

definition clause_fields :: "ClauseRef \<Rightarrow> (u16 \<times> u8) \<times> ValueRef" where
  "clause_fields c = ((attribute_u16 (clause_attribute c), Operator_u8 (clause_operator c)), clause_value c)"

lemma clause_fields_inject: "clause_fields c = clause_fields d \<Longrightarrow> c = d"
  by (cases c; cases d) (auto simp: clause_fields_def intro: AttributeId.expand)

lemma predicate_of_inject:
  assumes "clauses_valid cs" "clauses_valid ds" "predicate_of cs = predicate_of ds"
  shows "cs = ds"
proof -
  let ?print = "\<lambda>((x, y), v). (to_be_bytes x @ [y]) @ value_bytes v"
  have print: "concat (map clause_bytes xs) = concat (map ?print (map clause_fields xs))" for xs
    by (simp add: clause_bytes_def [abs_def] clause_fields_def comp_def)
  have count: "unat (of_nat (length xs) :: u8) = length xs" if "clauses_valid xs" for xs
    using that by (simp add: clauses_valid_def const_defs unat_of_nat_u8_small)
  have "predicate_count (predicate_of cs) = predicate_count (predicate_of ds)" using assms(3) by simp
  then have "length cs = length ds"
    using count [OF assms(1)] count [OF assms(2)] by (metis PredicateRef.select_convs(2) predicate_of_def)
  moreover have "\<forall>x\<in>set (map clause_fields xs). case x of (h, v) \<Rightarrow> (case h of (x, y) \<Rightarrow> True \<and> True) \<and> value_valid v"
    if "clauses_valid xs" for xs
    using that by (auto simp: clauses_valid_def clause_fields_def)
  moreover have "concat (map ?print (map clause_fields cs)) = concat (map ?print (map clause_fields ds))"
    using assms(3) unfolding print [symmetric] by (simp add: predicate_of_def)
  ultimately have "map clause_fields cs = map clause_fields ds \<and> ([] :: bytes) = []"
    using assms(1,2) by (intro clause_format.both.list_prefix_free) (simp_all only: length_map append_Nil2 case_prod_unfold fst_conv snd_conv)
  then have "map clause_fields cs = map clause_fields ds" by blast
  moreover have "inj clause_fields" by (rule injI) (rule clause_fields_inject)
  ultimately show ?thesis by (simp add: inj_map_eq_map)
qed

lemma operation_ref_inject:
  "operation_valid x \<Longrightarrow> operation_valid y \<Longrightarrow> operation_ref x = operation_ref y \<Longrightarrow> x = y"
  by (cases x; cases y) (auto dest: environment_of_inject predicate_of_inject)

lemma parse_response_iff:
  "parse_operation input = Inr (Op_PublicationResponse t publisher val) \<longleftrightarrow>
     input = operation_bytes (PublicationResponse t publisher val) \<and> length val \<le> MAX_VALUE_BYTES"
proof
  assume "parse_operation input = Inr (Op_PublicationResponse t publisher val)"
  from parse_operation_sound [OF this] obtain op where op: "operation_valid op" "input = operation_bytes op"
    "Op_PublicationResponse t publisher val = operation_ref op" by blast
  from op(3) have "op = PublicationResponse t publisher val" by (cases op) simp_all
  with op show "input = operation_bytes (PublicationResponse t publisher val) \<and> length val \<le> MAX_VALUE_BYTES" by simp
qed (use parse_operation_print [of "PublicationResponse t publisher val"] in auto)

section \<open>Properties\<close>

text \<open>C37: the operation parser decides the wire format. It accepts an input exactly when the input
  is the canonical encoding of an operation within the protocol's limits (at most 16 attributes
  with distinct identifiers, at most 8 clauses with known operators, bounded byte strings, no
  trailing bytes), and it returns that operation's borrowed form.\<close>

theorem operation_parser_exact:
  "parse_operation input = Inr r \<longleftrightarrow>
     (\<exists>op. operation_valid op \<and> input = operation_bytes op \<and> r = operation_ref op)"
  using parse_operation_sound parse_operation_print by blast

text \<open>The canonical encoding is unambiguous: two operations within the limits that have the same
  bytes are the same operation, down to every clause and attribute.\<close>

theorem operation_encoding_injective: "inj_on operation_bytes {op. operation_valid op}"
proof (rule inj_onI)
  fix x y
  assume "x \<in> {op. operation_valid op}" "y \<in> {op. operation_valid op}" "operation_bytes x = operation_bytes y"
  then show "x = y"
    using parse_operation_print [of x] parse_operation_print [of y] by (auto intro: operation_ref_inject)
qed

text \<open>Every encoder, on every operation and every buffer. A valid operation that fits is written
  as its canonical bytes at the front of the buffer, the rest of which is kept, and the length is
  returned; otherwise the encoder fails, with \<open>Malformed\<close> for a repeated attribute identifier
  and \<open>Oversized\<close> for everything else.\<close>

theorem operation_encoders_exact:
  "if operation_valid op \<and> length (operation_bytes op) \<le> length buf
   then encode_operation buf op =
     (Inr (length (operation_bytes op)), operation_bytes op @ drop (length (operation_bytes op)) buf)
   else fst (encode_operation buf op) = Inl (encode_error op)"
  using encode_operation_ok encode_operation_err by simp

text \<open>C38: the evaluator that walks the predicate's bytes against the environment's bytes computes the
  conjunction: the parsed predicate holds exactly when every clause names a present attribute
  whose value has the clause's type and compares as its operator says (booleans, signed 64-bit
  integers, byte strings in lexicographic order).\<close>

theorem predicate_evaluation_refines:
  assumes "clauses_valid clauses" "attributes_valid attributes"
  shows "predicate_evaluate (predicate_of clauses) (environment_of attributes) =
    list_all (clause_holds attributes) clauses"
  using assms by (rule predicate_evaluate_of)

theorem predicate_evaluation_witness:
  "predicate_evaluate
     (predicate_of [\<lparr>clause_attribute = AttributeId 7, clause_operator = Operator_Lt, clause_value = Value_I64 (- 3)\<rparr>])
     (environment_of [\<lparr>attribute_id = AttributeId 7, attribute_value = Value_I64 (- 5)\<rparr>])"
  by (subst predicate_evaluation_refines)
    (simp_all add: clauses_valid_def attributes_valid_def const_defs clause_holds_def)

text \<open>Lookup and iteration of a parsed environment return the attributes it was written from:
  \<open>iter\<close> yields them in wire order and \<open>get\<close> is the map they define.\<close>

theorem environment_access_refines:
  assumes "attributes_valid attributes"
  shows "environment_items (environment_iter (environment_of attributes)) = attributes \<and>
    (\<forall>wanted. environment_get (environment_of attributes) wanted = attribute_lookup attributes wanted)"
  using environment_items_of [OF assms] environment_get_of [OF assms] by blast

theorem environment_access_witness:
  "environment_get (environment_of [\<lparr>attribute_id = AttributeId 2, attribute_value = Value_Bool True\<rparr>,
     \<lparr>attribute_id = AttributeId 1, attribute_value = Value_Bytes [9]\<rparr>]) (AttributeId 1) = Some (Value_Bytes [9])"
  using environment_access_refines [of "[\<lparr>attribute_id = AttributeId 2, attribute_value = Value_Bool True\<rparr>,
     \<lparr>attribute_id = AttributeId 1, attribute_value = Value_Bytes [9]\<rparr>]"]
  by (simp add: attributes_valid_def const_defs)

end
