(* ===== verification/Store.thy ===== *)
theory Store
  imports Replay Payload
begin

text \<open>
  The stores of \<open>ca-core/src/lib.rs\<close>. \<open>MemoryStore\<close> keeps its four tables in memory,
  \<open>PersistentStore\<close> clones its state, encodes the candidate, commits it to a file and only then
  publishes it. Every method runs under a lock of its own, so it is one atomic step here. The
  file system is the pair of the snapshot and its temporary file; what the operating system may
  refuse at each call is the record \<open>io_faults\<close>, and a store carries the list of the outcomes
  of its coming commits.

  The four storage traits of the CA are the record \<open>ca_store\<close> of their methods and the locale
  \<open>ca_store_laws\<close>, their contract over an abstract view of the tables.
\<close>

section \<open>Data\<close>

record PublicKeys =
  public_ed25519 :: array32
  public_x25519 :: array32

datatype SubscriptionKind = OneShot | Permanent

record StoredSubscription =
  sub_subscriber :: AgentId
  sub_type_id :: TypeId
  sub_handler :: HandlerId
  sub_kind :: SubscriptionKind
  sub_encoded :: bytes

record StoreLimits =
  limit_agents :: usize
  limit_environments :: usize
  limit_subscriptions :: usize
  limit_replays :: usize
  limit_replay_ttl_seconds :: u64

definition DEFAULT_MAX_AGENTS :: usize where "DEFAULT_MAX_AGENTS = 1024"
definition DEFAULT_MAX_ENVIRONMENTS :: usize where "DEFAULT_MAX_ENVIRONMENTS = 1024"
definition DEFAULT_MAX_SUBSCRIPTIONS :: usize where "DEFAULT_MAX_SUBSCRIPTIONS = 4096"
definition DEFAULT_MAX_REPLAYS :: usize where "DEFAULT_MAX_REPLAYS = 16384"

definition StoreLimits_default :: StoreLimits where
  "StoreLimits_default = \<lparr>limit_agents = DEFAULT_MAX_AGENTS, limit_environments = DEFAULT_MAX_ENVIRONMENTS,
     limit_subscriptions = DEFAULT_MAX_SUBSCRIPTIONS, limit_replays = DEFAULT_MAX_REPLAYS,
     limit_replay_ttl_seconds = 600\<rparr>"

section \<open>MemoryStore\<close>

record MemoryStore =
  mem_keys :: "(AgentId, PublicKeys) btree"
  mem_environments :: "(AgentId, bytes) btree"
  mem_subscriptions :: "(TypeId, StoredSubscription list) btree"
  mem_replay :: ReplayCache
  mem_limits :: StoreLimits

definition MemoryStore_new :: "StoreLimits \<Rightarrow> MemoryStore" where
  "MemoryStore_new limits = \<lparr>mem_keys = bt_empty, mem_environments = bt_empty, mem_subscriptions = bt_empty,
     mem_replay = ReplayCache_new (limit_replays limits) (limit_replay_ttl_seconds limits), mem_limits = limits\<rparr>"

definition mem_get_keys :: "MemoryStore \<Rightarrow> AgentId \<Rightarrow> Error + PublicKeys" where
  "mem_get_keys s agent = ok_or (bt_get (mem_keys s) agent) BadSignature"

definition mem_provision :: "MemoryStore \<Rightarrow> AgentId \<Rightarrow> PublicKeys \<Rightarrow> (Error + unit) \<times> MemoryStore" where
  "mem_provision s agent keys =
     (if agent = AgentId_CA then (Inl Malformed, s)
      else if \<not> bt_contains_key (mem_keys s) agent \<and> bt_len (mem_keys s) \<ge> limit_agents (mem_limits s)
      then (Inl Capacity, s)
      else (Inr (), s\<lparr>mem_keys := bt_insert agent keys (mem_keys s)\<rparr>))"

definition mem_environment :: "MemoryStore \<Rightarrow> AgentId \<Rightarrow> Error + bytes option" where
  "mem_environment s agent = Inr (bt_get (mem_environments s) agent)"

definition mem_set_environment :: "MemoryStore \<Rightarrow> AgentId \<Rightarrow> bytes \<Rightarrow> (Error + unit) \<times> MemoryStore" where
  "mem_set_environment s agent encoded =
     (if \<not> bt_contains_key (mem_environments s) agent \<and>
         bt_len (mem_environments s) \<ge> limit_environments (mem_limits s)
      then (Inl Capacity, s)
      else (Inr (), s\<lparr>mem_environments := bt_insert agent encoded (mem_environments s)\<rparr>))"

definition subscription_count :: "(TypeId, StoredSubscription list) btree \<Rightarrow> usize" where
  "subscription_count subscriptions = sum_list (map (\<lambda>(_, bucket). length bucket) subscriptions)"

text \<open>\<open>iter_mut().find(p)\<close> with an assignment through the result.\<close>

fun replace_first :: "('a \<Rightarrow> bool) \<Rightarrow> 'a \<Rightarrow> 'a list \<Rightarrow> 'a list option" where
  "replace_first p x [] = None"
| "replace_first p x (y # ys) = (if p y then Some (x # ys) else map_option (Cons y) (replace_first p x ys))"

definition same_slot :: "StoredSubscription \<Rightarrow> StoredSubscription \<Rightarrow> bool" where
  "same_slot subscription entry \<longleftrightarrow>
     sub_subscriber entry = sub_subscriber subscription \<and> sub_handler entry = sub_handler subscription"

definition bucket_of :: "(TypeId, StoredSubscription list) btree \<Rightarrow> TypeId \<Rightarrow> StoredSubscription list" where
  "bucket_of subscriptions type_id = (case bt_get subscriptions type_id of None \<Rightarrow> [] | Some bucket \<Rightarrow> bucket)"

text \<open>The part of \<open>put_subscription\<close> that both stores share. \<open>entry().or_default()\<close> inserts an
  empty bucket before the capacity check.\<close>

definition upsert_subscription ::
  "usize \<Rightarrow> StoredSubscription \<Rightarrow> (TypeId, StoredSubscription list) btree
     \<Rightarrow> (Error + unit) \<times> (TypeId, StoredSubscription list) btree" where
  "upsert_subscription limit subscription subscriptions =
     (let count = subscription_count subscriptions;
          type_id = sub_type_id subscription;
          bucket = bucket_of subscriptions type_id;
          subscriptions = bt_insert type_id bucket subscriptions in
      case replace_first (same_slot subscription) subscription bucket of
        Some bucket \<Rightarrow> (Inr (), bt_insert type_id bucket subscriptions)
      | None \<Rightarrow>
          if count \<ge> limit then (Inl Capacity, subscriptions)
          else (Inr (), bt_insert type_id
                  (sort_key (\<lambda>entry. (sub_subscriber entry, sub_handler entry)) (bucket @ [subscription]))
                  subscriptions))"

definition mem_put_subscription :: "MemoryStore \<Rightarrow> StoredSubscription \<Rightarrow> (Error + unit) \<times> MemoryStore" where
  "mem_put_subscription s subscription =
     (let (result, subscriptions) =
        upsert_subscription (limit_subscriptions (mem_limits s)) subscription (mem_subscriptions s)
      in (result, s\<lparr>mem_subscriptions := subscriptions\<rparr>))"

definition mem_subscriptions_for :: "MemoryStore \<Rightarrow> TypeId \<Rightarrow> Error + StoredSubscription list" where
  "mem_subscriptions_for s type_id = Inr (bucket_of (mem_subscriptions s) type_id)"

definition mem_claim_subscription :: "MemoryStore \<Rightarrow> StoredSubscription \<Rightarrow> (Error + bool) \<times> MemoryStore" where
  "mem_claim_subscription s subscription =
     (case bt_get (mem_subscriptions s) (sub_type_id subscription) of
        None \<Rightarrow> (Inr False, s)
      | Some bucket \<Rightarrow>
          if subscription \<notin> set bucket then (Inr False, s)
          else if sub_kind subscription = OneShot
          then (Inr True, s\<lparr>mem_subscriptions :=
                  bt_insert (sub_type_id subscription) (remove1 subscription bucket) (mem_subscriptions s)\<rparr>)
          else (Inr True, s))"

definition mem_check_and_mark :: "MemoryStore \<Rightarrow> AgentId \<Rightarrow> SessionId \<Rightarrow> u64 \<Rightarrow> (Error + unit) \<times> MemoryStore" where
  "mem_check_and_mark s sender session now_seconds =
     (let (result, replay) = cache_check_and_mark (mem_replay s) sender session now_seconds
      in (result, s\<lparr>mem_replay := replay\<rparr>))"

section \<open>SnapshotFile\<close>

text \<open>What the operating system refuses during one commit: opening, writing after some bytes,
  syncing, renaming.\<close>

record io_faults =
  fault_open :: bool
  fault_write :: "nat option"
  fault_sync :: bool
  fault_rename :: bool

definition no_faults :: io_faults where
  "no_faults = \<lparr>fault_open = False, fault_write = None, fault_sync = False, fault_rename = False\<rparr>"

record snapshot_files =
  snapshot_path :: "bytes option"
  temporary_path :: "bytes option"

definition SNAPSHOT_MAX :: usize where "SNAPSHOT_MAX = 16 * 1024 * 1024"

definition snapshot_commit :: "io_faults \<Rightarrow> snapshot_files \<Rightarrow> bytes \<Rightarrow> (Error + unit) \<times> snapshot_files" where
  "snapshot_commit io files bs =
     (if length bs > SNAPSHOT_MAX then (Inl Oversized, files)
      else if fault_open io \<or> temporary_path files \<noteq> None then (Inl Capacity, files)
      else
        let files = files\<lparr>temporary_path := Some []\<rparr> in
        case fault_write io of
          Some n \<Rightarrow> (Inl Capacity, files\<lparr>temporary_path := Some (take n bs)\<rparr>)
        | None \<Rightarrow>
            let files = files\<lparr>temporary_path := Some bs\<rparr> in
            if fault_sync io then (Inl Capacity, files)
            else if fault_rename io then (Inl Capacity, files)
            else (Inr (), files\<lparr>snapshot_path := temporary_path files, temporary_path := None\<rparr>))"

definition snapshot_load :: "bool \<Rightarrow> snapshot_files \<Rightarrow> Error + bytes option" where
  "snapshot_load read_fault files =
     (if read_fault then Inl Capacity
      else case snapshot_path files of
        None \<Rightarrow> Inr None
      | Some bs \<Rightarrow> if length bs \<le> SNAPSHOT_MAX then Inr (Some bs) else Inl Oversized)"

section \<open>The state encoding\<close>

record PersistentState =
  state_keys :: "(AgentId, PublicKeys) btree"
  state_environments :: "(AgentId, bytes) btree"
  state_subscriptions :: "(TypeId, StoredSubscription list) btree"
  state_replay :: ReplayCache

definition STATE_MAGIC :: bytes where "STATE_MAGIC = ascii ''SPSTATE1''"

definition push_u32 :: "bytes \<Rightarrow> usize \<Rightarrow> Error + bytes" where
  "push_u32 output val =
     (if \<not> val < 2 ^ 32 then Inl Oversized else Inr (output @ to_be_bytes (of_nat val :: u32)))"

definition push_bytes :: "bytes \<Rightarrow> bytes \<Rightarrow> Error + bytes" where
  "push_bytes output val = tryE (push_u32 output (length val)) (\<lambda>output. Inr (output @ val))"

fun encode_keys :: "bytes \<Rightarrow> (AgentId, PublicKeys) btree \<Rightarrow> bytes" where
  "encode_keys output [] = output"
| "encode_keys output ((agent, keys) # rest) =
     encode_keys (output @ to_be_bytes (agent_array agent) @ to_be_bytes (public_ed25519 keys)
       @ to_be_bytes (public_x25519 keys)) rest"

fun encode_environments :: "bytes \<Rightarrow> (AgentId, bytes) btree \<Rightarrow> Error + bytes" where
  "encode_environments output [] = Inr output"
| "encode_environments output ((agent, encoded) # rest) =
     tryE (push_bytes (output @ to_be_bytes (agent_array agent)) encoded) (\<lambda>output.
     encode_environments output rest)"

fun encode_bucket :: "bytes \<Rightarrow> StoredSubscription list \<Rightarrow> Error + bytes" where
  "encode_bucket output [] = Inr output"
| "encode_bucket output (subscription # rest) =
     tryE (push_bytes (output @ to_be_bytes (agent_array (sub_subscriber subscription))
         @ to_be_bytes (type_u32 (sub_type_id subscription))
         @ to_be_bytes (handler_array (sub_handler subscription))) (sub_encoded subscription)) (\<lambda>output.
     encode_bucket output rest)"

fun encode_subscriptions :: "bytes \<Rightarrow> (TypeId, StoredSubscription list) btree \<Rightarrow> Error + bytes" where
  "encode_subscriptions output [] = Inr output"
| "encode_subscriptions output ((_, bucket) # rest) =
     tryE (encode_bucket output bucket) (\<lambda>output. encode_subscriptions output rest)"

fun encode_replays :: "bytes \<Rightarrow> (AgentId \<times> SessionId, u64) btree \<Rightarrow> bytes" where
  "encode_replays output [] = output"
| "encode_replays output (((sender, session), expires) # rest) =
     encode_replays (output @ to_be_bytes (agent_array sender) @ to_be_bytes (session_array session)
       @ to_be_bytes expires) rest"

definition encode_state :: "PersistentState \<Rightarrow> Error + bytes" where
  "encode_state state =
     tryE (push_u32 STATE_MAGIC (bt_len (state_keys state))) (\<lambda>output.
     let output = encode_keys output (state_keys state) in
     tryE (push_u32 output (bt_len (state_environments state))) (\<lambda>output.
     tryE (encode_environments output (state_environments state)) (\<lambda>output.
     tryE (push_u32 output (subscription_count (state_subscriptions state))) (\<lambda>output.
     tryE (encode_subscriptions output (state_subscriptions state)) (\<lambda>output.
     tryE (push_u32 output (bt_len (cache_entries (state_replay state)))) (\<lambda>output.
     Inr (encode_replays output (cache_entries (state_replay state)))))))))"

record StateCursor =
  state_input :: bytes
  state_position :: usize

definition state_take :: "usize \<Rightarrow> StateCursor \<Rightarrow> Error + bytes \<times> StateCursor" where
  "state_take n c =
     (let end = state_position c + n in
      tryE (ok_or (get_range (state_input c) (state_position c) end) Malformed) (\<lambda>bs.
      Inr (bs, c\<lparr>state_position := end\<rparr>)))"

definition state_array :: "StateCursor \<Rightarrow> Error + 'a::len word \<times> StateCursor" where
  "state_array c =
     tryE (state_take (LENGTH('a) div 8) c) (\<lambda>(bs, c).
     tryE (ok_or (try_into_array bs) Malformed) (\<lambda>w. Inr (w, c)))"

definition state_count :: "usize \<Rightarrow> StateCursor \<Rightarrow> Error + usize \<times> StateCursor" where
  "state_count maximum c =
     tryE (state_array c) (\<lambda>(val, c).
     if unat (val :: u32) > maximum then Inl Capacity else Inr (unat val, c))"

definition state_bytes :: "usize \<Rightarrow> StateCursor \<Rightarrow> Error + bytes \<times> StateCursor" where
  "state_bytes maximum c = tryE (state_count maximum c) (\<lambda>(n, c). state_take n c)"

fun decode_keys ::
  "nat \<Rightarrow> (AgentId, PublicKeys) btree \<Rightarrow> StateCursor \<Rightarrow> Error + (AgentId, PublicKeys) btree \<times> StateCursor" where
  "decode_keys 0 keys c = Inr (keys, c)"
| "decode_keys (Suc n) keys c =
     tryE (state_array c) (\<lambda>(agent, c).
     if AgentId agent = AgentId_CA then Inl Malformed
     else tryE (state_array c) (\<lambda>(ed25519, c).
     tryE (state_array c) (\<lambda>(x25519, c).
     if bt_contains_key keys (AgentId agent) then Inl Malformed
     else decode_keys n
       (bt_insert (AgentId agent) \<lparr>public_ed25519 = ed25519, public_x25519 = x25519\<rparr> keys) c)))"

definition is_environment :: "bytes \<Rightarrow> bool" where
  "is_environment encoded = (case parse_operation encoded of Inr (Op_SetEnvironment _) \<Rightarrow> True | _ \<Rightarrow> False)"

fun decode_environments ::
  "nat \<Rightarrow> (AgentId, bytes) btree \<Rightarrow> StateCursor \<Rightarrow> Error + (AgentId, bytes) btree \<times> StateCursor" where
  "decode_environments 0 environments c = Inr (environments, c)"
| "decode_environments (Suc n) environments c =
     tryE (state_array c) (\<lambda>(agent, c).
     tryE (state_bytes MAX_PLAINTEXT_LEN c) (\<lambda>(encoded, c).
     if \<not> is_environment encoded \<or> bt_contains_key environments (AgentId agent) then Inl Malformed
     else decode_environments n (bt_insert (AgentId agent) encoded environments) c))"

definition kind_of :: "bytes \<Rightarrow> TypeId \<Rightarrow> SubscriptionKind option" where
  "kind_of encoded type_id =
     (case parse_operation encoded of
        Inr (Op_Subscribe parsed _) \<Rightarrow> if parsed = type_id then Some OneShot else None
      | Inr (Op_SubscribePermanent parsed _) \<Rightarrow> if parsed = type_id then Some Permanent else None
      | _ \<Rightarrow> None)"

fun decode_subscriptions ::
  "nat \<Rightarrow> (TypeId, StoredSubscription list) btree \<Rightarrow> StateCursor
     \<Rightarrow> Error + (TypeId, StoredSubscription list) btree \<times> StateCursor" where
  "decode_subscriptions 0 subscriptions c = Inr (subscriptions, c)"
| "decode_subscriptions (Suc n) subscriptions c =
     tryE (state_array c) (\<lambda>(subscriber, c).
     tryE (state_array c) (\<lambda>(type_id, c).
     tryE (state_array c) (\<lambda>(handler, c).
     tryE (state_bytes MAX_PLAINTEXT_LEN c) (\<lambda>(encoded, c).
     tryE (ok_or (kind_of encoded (TypeId type_id)) Malformed) (\<lambda>kind.
     if HandlerId handler = HandlerId_NONE then Inl Malformed
     else decode_subscriptions n
       (bt_insert (TypeId type_id) (bucket_of subscriptions (TypeId type_id) @
          [\<lparr>sub_subscriber = AgentId subscriber, sub_type_id = TypeId type_id, sub_handler = HandlerId handler,
            sub_kind = kind, sub_encoded = encoded\<rparr>]) subscriptions) c)))))"

fun decode_replays ::
  "nat \<Rightarrow> (AgentId \<times> SessionId, u64) btree \<Rightarrow> StateCursor
     \<Rightarrow> Error + (AgentId \<times> SessionId, u64) btree \<times> StateCursor" where
  "decode_replays 0 entries c = Inr (entries, c)"
| "decode_replays (Suc n) entries c =
     tryE (state_array c) (\<lambda>(sender, c).
     tryE (state_array c) (\<lambda>(session, c).
     tryE (state_array c) (\<lambda>(expires, c).
     if bt_contains_key entries (AgentId sender, SessionId session) then Inl Malformed
     else decode_replays n (bt_insert (AgentId sender, SessionId session) expires entries) c)))"

definition decode_state :: "bytes \<Rightarrow> StoreLimits \<Rightarrow> Error + PersistentState" where
  "decode_state input limits =
     tryE (state_take 8 \<lparr>state_input = input, state_position = 0\<rparr>) (\<lambda>(magic, c).
     if magic \<noteq> STATE_MAGIC then Inl Malformed
     else tryE (state_count (limit_agents limits) c) (\<lambda>(key_count, c).
     tryE (decode_keys key_count bt_empty c) (\<lambda>(keys, c).
     tryE (state_count (limit_environments limits) c) (\<lambda>(environment_count, c).
     tryE (decode_environments environment_count bt_empty c) (\<lambda>(environments, c).
     tryE (state_count (limit_subscriptions limits) c) (\<lambda>(subscription_count, c).
     tryE (decode_subscriptions subscription_count bt_empty c) (\<lambda>(subscriptions, c).
     tryE (state_count (limit_replays limits) c) (\<lambda>(replay_count, c).
     tryE (decode_replays replay_count bt_empty c) (\<lambda>(entries, c).
     if state_position c \<noteq> length input then Inl Malformed
     else Inr \<lparr>state_keys = keys, state_environments = environments, state_subscriptions = subscriptions,
       state_replay = (ReplayCache_new (limit_replays limits) (limit_replay_ttl_seconds limits))
         \<lparr>cache_entries := entries\<rparr>\<rparr>)))))))))"

section \<open>PersistentStore\<close>

record PersistentStore =
  ps_state :: PersistentState
  ps_files :: snapshot_files
  ps_limits :: StoreLimits
  ps_faults :: "io_faults list"

definition ps_open :: "bool \<Rightarrow> io_faults list \<Rightarrow> snapshot_files \<Rightarrow> StoreLimits \<Rightarrow> Error + PersistentStore" where
  "ps_open read_fault faults files limits =
     tryE (snapshot_load read_fault files) (\<lambda>loaded.
     tryE (case loaded of
         Some bs \<Rightarrow> decode_state bs limits
       | None \<Rightarrow> Inr \<lparr>state_keys = bt_empty, state_environments = bt_empty, state_subscriptions = bt_empty,
           state_replay = ReplayCache_new (limit_replays limits) (limit_replay_ttl_seconds limits)\<rparr>) (\<lambda>state.
     Inr \<lparr>ps_state = state, ps_files = files, ps_limits = limits, ps_faults = faults\<rparr>))"

definition ps_commit :: "PersistentStore \<Rightarrow> PersistentState \<Rightarrow> (Error + unit) \<times> PersistentStore" where
  "ps_commit s next_state =
     tryS (encode_state next_state, s) (\<lambda>encoded s.
     let (io, faults) = (case ps_faults s of [] \<Rightarrow> (no_faults, []) | f # fs \<Rightarrow> (f, fs));
         (result, files) = snapshot_commit io (ps_files s) encoded;
         s = s\<lparr>ps_files := files, ps_faults := faults\<rparr> in
     tryS (result, s) (\<lambda>_ s. (Inr (), s\<lparr>ps_state := next_state\<rparr>)))"

fun reconcile_keys ::
  "(AgentId \<times> PublicKeys) list \<Rightarrow> (AgentId, PublicKeys) btree \<Rightarrow> Error + (AgentId, PublicKeys) btree" where
  "reconcile_keys [] keys = Inr keys"
| "reconcile_keys ((agent, public_keys) # configured) keys =
     (if agent = AgentId_CA \<or> bt_contains_key keys agent then Inl Malformed
      else reconcile_keys configured (bt_insert agent public_keys keys))"

definition reconcile_agents ::
  "PersistentStore \<Rightarrow> (AgentId \<times> PublicKeys) list \<Rightarrow> (Error + unit) \<times> PersistentStore" where
  "reconcile_agents s configured =
     (if length configured > limit_agents (ps_limits s) then (Inl Capacity, s)
      else tryS (reconcile_keys configured bt_empty, s) (\<lambda>keys s.
      let state = ps_state s;
          unchanged = (\<lambda>agent. case (bt_get (state_keys state) agent, bt_get keys agent) of
            (Some old, Some new) \<Rightarrow> old = new | _ \<Rightarrow> False);
          replay = state_replay state in
      ps_commit s
        \<lparr>state_keys = keys,
         state_environments = bt_retain (\<lambda>agent _. unchanged agent) (state_environments state),
         state_subscriptions = bt_retain (\<lambda>_ bucket. bucket \<noteq> [])
           (map (\<lambda>(t, bucket). (t, filter (\<lambda>subscription. unchanged (sub_subscriber subscription)) bucket))
             (state_subscriptions state)),
         state_replay = replay\<lparr>cache_entries :=
           bt_retain (\<lambda>(agent, _) _. unchanged agent) (cache_entries replay)\<rparr>\<rparr>))"

definition ps_get_keys :: "PersistentStore \<Rightarrow> AgentId \<Rightarrow> Error + PublicKeys" where
  "ps_get_keys s agent = ok_or (bt_get (state_keys (ps_state s)) agent) BadSignature"

definition ps_provision :: "PersistentStore \<Rightarrow> AgentId \<Rightarrow> PublicKeys \<Rightarrow> (Error + unit) \<times> PersistentStore" where
  "ps_provision s agent keys =
     (if agent = AgentId_CA then (Inl Malformed, s)
      else
        let state = ps_state s in
        if \<not> bt_contains_key (state_keys state) agent \<and> bt_len (state_keys state) \<ge> limit_agents (ps_limits s)
        then (Inl Capacity, s)
        else ps_commit s (state\<lparr>state_keys := bt_insert agent keys (state_keys state)\<rparr>))"

definition ps_environment :: "PersistentStore \<Rightarrow> AgentId \<Rightarrow> Error + bytes option" where
  "ps_environment s agent = Inr (bt_get (state_environments (ps_state s)) agent)"

definition ps_set_environment :: "PersistentStore \<Rightarrow> AgentId \<Rightarrow> bytes \<Rightarrow> (Error + unit) \<times> PersistentStore" where
  "ps_set_environment s agent encoded =
     (if \<not> is_environment encoded then (Inl Malformed, s)
      else
        let state = ps_state s in
        if \<not> bt_contains_key (state_environments state) agent \<and>
           bt_len (state_environments state) \<ge> limit_environments (ps_limits s)
        then (Inl Capacity, s)
        else ps_commit s (state\<lparr>state_environments := bt_insert agent encoded (state_environments state)\<rparr>))"

definition ps_put_subscription :: "PersistentStore \<Rightarrow> StoredSubscription \<Rightarrow> (Error + unit) \<times> PersistentStore" where
  "ps_put_subscription s subscription =
     (if kind_of (sub_encoded subscription) (sub_type_id subscription) \<noteq> Some (sub_kind subscription)
      then (Inl Malformed, s)
      else
        let state = ps_state s;
            (result, subscriptions) =
              upsert_subscription (limit_subscriptions (ps_limits s)) subscription (state_subscriptions state) in
        tryS (result, s) (\<lambda>_ s. ps_commit s (state\<lparr>state_subscriptions := subscriptions\<rparr>)))"

definition ps_subscriptions_for :: "PersistentStore \<Rightarrow> TypeId \<Rightarrow> Error + StoredSubscription list" where
  "ps_subscriptions_for s type_id = Inr (bucket_of (state_subscriptions (ps_state s)) type_id)"

definition ps_claim_subscription :: "PersistentStore \<Rightarrow> StoredSubscription \<Rightarrow> (Error + bool) \<times> PersistentStore" where
  "ps_claim_subscription s subscription =
     (let state = ps_state s; type_id = sub_type_id subscription in
      if sub_kind subscription = Permanent
      then (Inr (case bt_get (state_subscriptions state) type_id of
                   None \<Rightarrow> False | Some bucket \<Rightarrow> subscription \<in> set bucket), s)
      else case bt_get (state_subscriptions state) type_id of
        None \<Rightarrow> (Inr False, s)
      | Some bucket \<Rightarrow>
          if subscription \<notin> set bucket then (Inr False, s)
          else tryS (ps_commit s (state\<lparr>state_subscriptions :=
                 bt_insert type_id (remove1 subscription bucket) (state_subscriptions state)\<rparr>)) (\<lambda>_ s.
               (Inr True, s)))"

definition ps_check_and_mark :: "PersistentStore \<Rightarrow> AgentId \<Rightarrow> SessionId \<Rightarrow> u64 \<Rightarrow> (Error + unit) \<times> PersistentStore" where
  "ps_check_and_mark s sender session now_seconds =
     (let state = ps_state s;
          (result, replay) = cache_check_and_mark (state_replay state) sender session now_seconds in
      tryS (result, s) (\<lambda>_ s. ps_commit s (state\<lparr>state_replay := replay\<rparr>)))"

section \<open>The store interface\<close>

record 's ca_store =
  store_keys :: "'s \<Rightarrow> AgentId \<Rightarrow> Error + PublicKeys"
  store_environment :: "'s \<Rightarrow> AgentId \<Rightarrow> Error + bytes option"
  store_set_environment :: "'s \<Rightarrow> AgentId \<Rightarrow> bytes \<Rightarrow> (Error + unit) \<times> 's"
  store_put_subscription :: "'s \<Rightarrow> StoredSubscription \<Rightarrow> (Error + unit) \<times> 's"
  store_subscriptions_for :: "'s \<Rightarrow> TypeId \<Rightarrow> Error + StoredSubscription list"
  store_claim_subscription :: "'s \<Rightarrow> StoredSubscription \<Rightarrow> (Error + bool) \<times> 's"
  store_check_and_mark :: "'s \<Rightarrow> AgentId \<Rightarrow> SessionId \<Rightarrow> u64 \<Rightarrow> (Error + unit) \<times> 's"

definition memory_store :: "MemoryStore ca_store" where
  "memory_store = \<lparr>store_keys = mem_get_keys, store_environment = mem_environment,
     store_set_environment = mem_set_environment, store_put_subscription = mem_put_subscription,
     store_subscriptions_for = mem_subscriptions_for, store_claim_subscription = mem_claim_subscription,
     store_check_and_mark = mem_check_and_mark\<rparr>"

definition persistent_store :: "PersistentStore ca_store" where
  "persistent_store = \<lparr>store_keys = ps_get_keys, store_environment = ps_environment,
     store_set_environment = ps_set_environment, store_put_subscription = ps_put_subscription,
     store_subscriptions_for = ps_subscriptions_for, store_claim_subscription = ps_claim_subscription,
     store_check_and_mark = ps_check_and_mark\<rparr>"

text \<open>What a client sees of a store.\<close>

record store_view =
  view_keys :: "AgentId \<rightharpoonup> PublicKeys"
  view_environments :: "AgentId \<rightharpoonup> bytes"
  view_subscriptions :: "TypeId \<Rightarrow> StoredSubscription list"

text \<open>A subscription takes the slot of its subscriber and handler, or a new place in slot order.\<close>

definition upsert :: "StoredSubscription \<Rightarrow> StoredSubscription list \<Rightarrow> StoredSubscription list" where
  "upsert subscription bucket =
     (case replace_first (same_slot subscription) subscription bucket of
        Some bucket \<Rightarrow> bucket
      | None \<Rightarrow> sort_key (\<lambda>entry. (sub_subscriber entry, sub_handler entry)) (bucket @ [subscription]))"

locale ca_store_laws =
  fixes S :: "'s ca_store" and view :: "'s \<Rightarrow> store_view"
  assumes keys_law: "store_keys S s a = ok_or (view_keys (view s) a) BadSignature"
    and environment_law: "store_environment S s a = Inr (view_environments (view s) a)"
    and subscriptions_law: "store_subscriptions_for S s t = Inr (view_subscriptions (view s) t)"
    and set_environment_law: "view (snd (store_set_environment S s a e)) =
      (if is_ok (fst (store_set_environment S s a e))
       then (view s)\<lparr>view_environments := (view_environments (view s))(a \<mapsto> e)\<rparr> else view s)"
    and put_law: "view (snd (store_put_subscription S s sub)) =
      (if is_ok (fst (store_put_subscription S s sub))
       then (view s)\<lparr>view_subscriptions := (view_subscriptions (view s))
              (sub_type_id sub := upsert sub (view_subscriptions (view s) (sub_type_id sub)))\<rparr>
       else view s)"
    and claim_result: "fst (store_claim_subscription S s sub) = Inr b \<Longrightarrow>
      b = (sub \<in> set (view_subscriptions (view s) (sub_type_id sub)))"
    and claim_law: "view (snd (store_claim_subscription S s sub)) =
      (if fst (store_claim_subscription S s sub) = Inr True \<and> sub_kind sub = OneShot
       then (view s)\<lparr>view_subscriptions := (view_subscriptions (view s))
              (sub_type_id sub := remove1 sub (view_subscriptions (view s) (sub_type_id sub)))\<rparr>
       else view s)"
    and mark_law: "view (snd (store_check_and_mark S s a i now)) = view s"
begin

text \<open>A claimed one-shot subscription cannot be claimed again while its bucket has no second copy.\<close>

lemma claim_once:
  assumes "fst (store_claim_subscription S s sub) = Inr True" "sub_kind sub = OneShot"
    "distinct (view_subscriptions (view s) (sub_type_id sub))"
    "fst (store_claim_subscription S (snd (store_claim_subscription S s sub)) sub) = Inr b"
  shows "\<not> b"
  using assms claim_result [OF assms(4)] by (simp add: claim_law)

end

definition mem_view :: "MemoryStore \<Rightarrow> store_view" where
  "mem_view s = \<lparr>view_keys = bt_get (mem_keys s), view_environments = bt_get (mem_environments s),
     view_subscriptions = bucket_of (mem_subscriptions s)\<rparr>"

definition ps_view :: "PersistentStore \<Rightarrow> store_view" where
  "ps_view s = \<lparr>view_keys = bt_get (state_keys (ps_state s)),
     view_environments = bt_get (state_environments (ps_state s)),
     view_subscriptions = bucket_of (state_subscriptions (ps_state s))\<rparr>"

lemma bt_get_insert_fun: "bt_get (bt_insert k v m) = (bt_get m)(k \<mapsto> v)"
  by (simp add: fun_eq_iff)

lemma bucket_of_insert: "bucket_of (bt_insert t bucket m) = (bucket_of m)(t := bucket)"
  by (auto simp: bucket_of_def fun_eq_iff)

lemma upsert_subscription_view:
  assumes "upsert_subscription limit sub m = (r, m')"
  shows "bucket_of m' = (if is_ok r then (bucket_of m)(sub_type_id sub := upsert sub (bucket_of m (sub_type_id sub)))
    else bucket_of m)"
  using assms by (auto simp: upsert_subscription_def upsert_def Let_def bucket_of_insert split: option.splits if_splits)

interpretation mem: ca_store_laws memory_store mem_view
proof unfold_locales
  fix s sub and b :: bool
  show "mem_view (snd (store_put_subscription memory_store s sub)) =
      (if is_ok (fst (store_put_subscription memory_store s sub))
       then (mem_view s)\<lparr>view_subscriptions := (view_subscriptions (mem_view s))
              (sub_type_id sub := upsert sub (view_subscriptions (mem_view s) (sub_type_id sub)))\<rparr>
       else mem_view s)"
    using upsert_subscription_view [of "limit_subscriptions (mem_limits s)" sub "mem_subscriptions s"]
    by (auto simp: memory_store_def mem_put_subscription_def mem_view_def split: prod.splits)
  show "b = (sub \<in> set (view_subscriptions (mem_view s) (sub_type_id sub)))"
    if "fst (store_claim_subscription memory_store s sub) = Inr b"
    using that by (auto simp: memory_store_def mem_claim_subscription_def mem_view_def bucket_of_def
        split: option.splits if_splits)
  show "mem_view (snd (store_claim_subscription memory_store s sub)) =
      (if fst (store_claim_subscription memory_store s sub) = Inr True \<and> sub_kind sub = OneShot
       then (mem_view s)\<lparr>view_subscriptions := (view_subscriptions (mem_view s))
              (sub_type_id sub := remove1 sub (view_subscriptions (mem_view s) (sub_type_id sub)))\<rparr>
       else mem_view s)"
    by (auto simp: memory_store_def mem_claim_subscription_def mem_view_def bucket_of_insert bucket_of_def [of _ "sub_type_id sub"]
        split: option.splits if_splits)
qed (auto simp: memory_store_def mem_get_keys_def mem_environment_def mem_subscriptions_for_def mem_set_environment_def
    mem_check_and_mark_def mem_view_def bt_get_insert_fun split: prod.splits)

text \<open>A commit publishes exactly the new state, or changes nothing that a client sees.\<close>

lemma ps_commit_state:
  "ps_state (snd (ps_commit s st)) = (if is_ok (fst (ps_commit s st)) then st else ps_state s)"
  "ps_limits (snd (ps_commit s st)) = ps_limits s"
  by (auto simp: ps_commit_def Let_def tryS_def split: sum.splits prod.splits)

interpretation ps: ca_store_laws persistent_store ps_view
proof unfold_locales
  fix s sub a e i now and b :: bool
  show "ps_view (snd (store_put_subscription persistent_store s sub)) =
      (if is_ok (fst (store_put_subscription persistent_store s sub))
       then (ps_view s)\<lparr>view_subscriptions := (view_subscriptions (ps_view s))
              (sub_type_id sub := upsert sub (view_subscriptions (ps_view s) (sub_type_id sub)))\<rparr>
       else ps_view s)"
  proof (cases "upsert_subscription (limit_subscriptions (ps_limits s)) sub (state_subscriptions (ps_state s))")
    case (Pair r m)
    with upsert_subscription_view [OF Pair] show ?thesis
      by (cases r) (auto simp: persistent_store_def ps_put_subscription_def ps_view_def ps_commit_state)
  qed
  show "b = (sub \<in> set (view_subscriptions (ps_view s) (sub_type_id sub)))"
    if "fst (store_claim_subscription persistent_store s sub) = Inr b"
    using that by (auto simp: persistent_store_def ps_claim_subscription_def ps_view_def bucket_of_def Let_def tryS_def
        split: option.splits if_splits prod.splits sum.splits)
  show "ps_view (snd (store_claim_subscription persistent_store s sub)) =
      (if fst (store_claim_subscription persistent_store s sub) = Inr True \<and> sub_kind sub = OneShot
       then (ps_view s)\<lparr>view_subscriptions := (view_subscriptions (ps_view s))
              (sub_type_id sub := remove1 sub (view_subscriptions (ps_view s) (sub_type_id sub)))\<rparr>
       else ps_view s)"
  proof (cases "sub_kind sub = Permanent \<or> sub \<notin> set (bucket_of (state_subscriptions (ps_state s)) (sub_type_id sub))")
    case True
    then show ?thesis
      by (auto simp: persistent_store_def ps_claim_subscription_def Let_def bucket_of_def split: option.splits if_splits)
  next
    case False
    then obtain bucket where bucket: "bt_get (state_subscriptions (ps_state s)) (sub_type_id sub) = Some bucket"
      "sub \<in> set bucket" "sub_kind sub = OneShot"
      by (cases "sub_kind sub"; cases "bt_get (state_subscriptions (ps_state s)) (sub_type_id sub)")
        (auto simp: bucket_of_def)
    let ?st = "(ps_state s)\<lparr>state_subscriptions :=
        bt_insert (sub_type_id sub) (remove1 sub bucket) (state_subscriptions (ps_state s))\<rparr>"
    have claim: "ps_claim_subscription s sub = tryS (ps_commit s ?st) (\<lambda>_ s. (Inr True, s))"
      using bucket by (simp add: ps_claim_subscription_def Let_def)
    show ?thesis
      using bucket ps_commit_state [of s ?st]
      by (cases "ps_commit s ?st"; cases "fst (ps_commit s ?st)")
        (auto simp: persistent_store_def claim ps_view_def bucket_of_insert bucket_of_def [of _ "sub_type_id sub"])
  qed
  show "ps_view (snd (store_check_and_mark persistent_store s a i now)) = ps_view s"
    by (auto simp: persistent_store_def ps_check_and_mark_def ps_view_def ps_commit_state Let_def tryS_def
        split: prod.splits sum.splits)
qed (auto simp: persistent_store_def ps_get_keys_def ps_environment_def ps_subscriptions_for_def ps_set_environment_def
    ps_view_def ps_commit_state bt_get_insert_fun Let_def)

end
