(* ===== verification/Persistence.thy ===== *)
theory Persistence
  imports Store
begin

text \<open>
  What the persistent store keeps on disk: the snapshot encoding and its decoder are inverse on
  every state the store can reach, a commit is all or nothing, and the snapshot on disk always
  decodes to the state in memory. Also the capacity bounds of both stores.
\<close>

section \<open>Reading the snapshot\<close>

definition scur :: "bytes \<Rightarrow> bytes \<Rightarrow> StateCursor" where
  "scur pre rest = \<lparr>state_input = pre @ rest, state_position = length pre\<rparr>"

lemma scur_position [simp]: "state_position (scur pre rest) = length pre"
  by (simp add: scur_def)

lemma state_take_scur:
  "state_take n (scur pre rest) =
     (if n \<le> length rest then Inr (take n rest, scur (pre @ take n rest) (drop n rest)) else Inl Malformed)"
  by (simp add: state_take_def get_range_def range_of_def scur_def)

lemma state_array_print:
  assumes "8 dvd LENGTH('a)"
  shows "state_array (scur pre (to_be_bytes w @ rest)) = Inr (w :: 'a::len word, scur (pre @ to_be_bytes w) rest)"
  using assms by (simp add: state_array_def state_take_scur)

lemma state_array_sound:
  assumes "8 dvd LENGTH('a)" "state_array (scur pre rest) = Inr (w :: 'a::len word, c)"
  shows "\<exists>rest'. rest = to_be_bytes w @ rest' \<and> c = scur (pre @ to_be_bytes w) rest'"
  using assms
  by (auto simp: state_array_def state_take_scur result_iffs try_into_array_Some_iff split: if_splits)
    (metis append_take_drop_id)

interpretation state_cursor: wire_cursor scur
  by unfold_locales (auto simp: scur_def append_eq_append_conv)

interpretation state_id: wire_format scur "state_array :: StateCursor \<Rightarrow> Error + array16 \<times> StateCursor" to_be_bytes "\<lambda>_. True"
  by unfold_locales (auto simp: state_array_print dest: state_array_sound [rotated])

interpretation state_key: wire_format scur "state_array :: StateCursor \<Rightarrow> Error + array32 \<times> StateCursor" to_be_bytes "\<lambda>_. True"
  by unfold_locales (auto simp: state_array_print dest: state_array_sound [rotated])

interpretation state_u32: wire_format scur "state_array :: StateCursor \<Rightarrow> Error + u32 \<times> StateCursor" to_be_bytes "\<lambda>_. True"
  by unfold_locales (auto simp: state_array_print dest: state_array_sound [rotated])

interpretation state_u64: wire_format scur "state_array :: StateCursor \<Rightarrow> Error + u64 \<times> StateCursor" to_be_bytes "\<lambda>_. True"
  by unfold_locales (auto simp: state_array_print dest: state_array_sound [rotated])

definition count_bytes :: "nat \<Rightarrow> bytes" where
  "count_bytes n = to_be_bytes (of_nat n :: u32)"

interpretation state_counts: wire_format scur "state_count maximum" count_bytes "\<lambda>n. n \<le> maximum \<and> n < 2 ^ 32" for maximum
proof unfold_locales
  show "state_count maximum (scur pre (count_bytes x @ rest)) = Inr (x, scur (pre @ count_bytes x) rest)"
    if "x \<le> maximum \<and> x < 2 ^ 32" for x pre rest
    using that unat_of_nat_u32 [of x] by (simp add: state_count_def count_bytes_def state_u32.parse_print)
  show "(x \<le> maximum \<and> x < 2 ^ 32) \<and> (\<exists>rest'. rest = count_bytes x @ rest' \<and> c = scur (pre @ count_bytes x) rest')"
    if "state_count maximum (scur pre rest) = Inr (x, c)" for x pre rest c
    using that unsigned_less [where 'a = nat and 'b = 32]
    by (auto simp: state_count_def count_bytes_def tryE_Inr_iff state_u32.parse_iff split: if_splits)
qed

lemmas state_reads = state_id.parse_print state_key.parse_print state_u32.parse_print state_u64.parse_print

definition blob_bytes :: "bytes \<Rightarrow> bytes" where
  "blob_bytes bs = count_bytes (length bs) @ bs"

interpretation state_blobs: wire_format scur "state_bytes maximum" blob_bytes
  "\<lambda>bs. length bs \<le> maximum \<and> length bs < 2 ^ 32" for maximum
proof unfold_locales
  show "state_bytes maximum (scur pre (blob_bytes x @ rest)) = Inr (x, scur (pre @ blob_bytes x) rest)"
    if "length x \<le> maximum \<and> length x < 2 ^ 32" for x pre rest
    using that by (simp add: state_bytes_def blob_bytes_def state_counts.parse_print state_take_scur)
  show "(length x \<le> maximum \<and> length x < 2 ^ 32) \<and> (\<exists>rest'. rest = blob_bytes x @ rest' \<and> c = scur (pre @ blob_bytes x) rest')"
    if "state_bytes maximum (scur pre rest) = Inr (x, c)" for x pre rest c
  proof -
    from that obtain n rest' where n: "n \<le> maximum" "n < 2 ^ 32" "rest = count_bytes n @ rest'"
      "state_take n (scur (pre @ count_bytes n) rest') = Inr (x, c)"
      by (auto simp: state_bytes_def tryE_Inr_iff state_counts.parse_iff)
    then show ?thesis
      by (intro conjI exI [of _ "drop n rest'"]) (auto simp: state_take_scur blob_bytes_def split: if_splits)
  qed
qed

section \<open>The snapshot layout\<close>

fun key_bytes :: "AgentId \<times> PublicKeys \<Rightarrow> bytes" where
  "key_bytes (agent, keys) = to_be_bytes (agent_array agent) @ to_be_bytes (public_ed25519 keys) @ to_be_bytes (public_x25519 keys)"

fun environment_entry_bytes :: "AgentId \<times> bytes \<Rightarrow> bytes" where
  "environment_entry_bytes (agent, encoded) = to_be_bytes (agent_array agent) @ blob_bytes encoded"

definition subscription_bytes :: "StoredSubscription \<Rightarrow> bytes" where
  "subscription_bytes sub = to_be_bytes (agent_array (sub_subscriber sub)) @ to_be_bytes (type_u32 (sub_type_id sub))
     @ to_be_bytes (handler_array (sub_handler sub)) @ blob_bytes (sub_encoded sub)"

fun replay_bytes :: "(AgentId \<times> SessionId) \<times> u64 \<Rightarrow> bytes" where
  "replay_bytes ((sender, session), expires) =
     to_be_bytes (agent_array sender) @ to_be_bytes (session_array session) @ to_be_bytes expires"

definition all_subscriptions :: "(TypeId, StoredSubscription list) btree \<Rightarrow> StoredSubscription list" where
  "all_subscriptions m = concat (map snd m)"

definition state_layout :: "PersistentState \<Rightarrow> bytes" where
  "state_layout st = STATE_MAGIC
     @ count_bytes (bt_len (state_keys st)) @ concat (map key_bytes (state_keys st))
     @ count_bytes (bt_len (state_environments st)) @ concat (map environment_entry_bytes (state_environments st))
     @ count_bytes (subscription_count (state_subscriptions st))
     @ concat (map subscription_bytes (all_subscriptions (state_subscriptions st)))
     @ count_bytes (bt_len (cache_entries (state_replay st))) @ concat (map replay_bytes (cache_entries (state_replay st)))"

text \<open>The states the store reaches: ordered tables within the limits, environments and subscriptions
  that parse, no CA identity among the agents.\<close>

definition stored_ok :: "StoredSubscription \<Rightarrow> bool" where
  "stored_ok sub \<longleftrightarrow> kind_of (sub_encoded sub) (sub_type_id sub) = Some (sub_kind sub) \<and> sub_handler sub \<noteq> HandlerId_NONE"

definition state_wf :: "StoreLimits \<Rightarrow> PersistentState \<Rightarrow> bool" where
  "state_wf limits st \<longleftrightarrow>
     bt_wf (state_keys st) \<and> bt_len (state_keys st) \<le> limit_agents limits \<and>
     bt_get (state_keys st) AgentId_CA = None \<and>
     bt_wf (state_environments st) \<and> bt_len (state_environments st) \<le> limit_environments limits \<and>
     (\<forall>(a, e)\<in>set (state_environments st). is_environment e) \<and>
     bt_wf (state_subscriptions st) \<and> subscription_count (state_subscriptions st) \<le> limit_subscriptions limits \<and>
     (\<forall>(t, bucket)\<in>set (state_subscriptions st). \<forall>sub\<in>set bucket. sub_type_id sub = t \<and> stored_ok sub) \<and>
     bt_wf (cache_entries (state_replay st)) \<and> bt_len (cache_entries (state_replay st)) \<le> limit_replays limits \<and>
     cache_maximum (state_replay st) = limit_replays limits \<and>
     cache_ttl_seconds (state_replay st) = limit_replay_ttl_seconds limits"

definition limits_ok :: "StoreLimits \<Rightarrow> bool" where
  "limits_ok limits \<longleftrightarrow> limit_agents limits < 2 ^ 32 \<and> limit_environments limits < 2 ^ 32 \<and>
     limit_subscriptions limits < 2 ^ 32 \<and> limit_replays limits < 2 ^ 32"

lemma is_environment_length: "is_environment e \<Longrightarrow> length e \<le> 3640"
  by (auto simp: is_environment_def split: sum.splits OperationRef.splits dest!: parse_operation_sound length_operation_bytes)

lemma kind_of_length: "kind_of e t = Some k \<Longrightarrow> length e \<le> 3640"
  by (auto simp: kind_of_def split: sum.splits OperationRef.splits dest!: parse_operation_sound length_operation_bytes)

section \<open>Encoding\<close>

lemma push_u32_ok: "n < 2 ^ 32 \<Longrightarrow> push_u32 out n = Inr (out @ count_bytes n)"
  by (simp add: push_u32_def count_bytes_def)

lemma push_bytes_ok: "length bs < 2 ^ 32 \<Longrightarrow> push_bytes out bs = Inr (out @ blob_bytes bs)"
  by (simp add: push_bytes_def push_u32_ok blob_bytes_def)

lemma encode_keys_layout: "encode_keys out ks = out @ concat (map key_bytes ks)"
  by (induction out ks rule: encode_keys.induct) simp_all

lemma encode_replays_layout: "encode_replays out rs = out @ concat (map replay_bytes rs)"
  by (induction out rs rule: encode_replays.induct) simp_all

lemma encode_environments_layout:
  "\<forall>(a, e)\<in>set es. is_environment e \<Longrightarrow> encode_environments out es = Inr (out @ concat (map environment_entry_bytes es))"
proof (induction out es rule: encode_environments.induct)
  case (2 out agent encoded rest)
  then have "length encoded < 2 ^ 32" using is_environment_length [of encoded] by simp
  with 2 show ?case by (simp add: push_bytes_ok)
qed simp

lemma encode_bucket_layout:
  "\<forall>sub\<in>set bucket. stored_ok sub \<Longrightarrow> encode_bucket out bucket = Inr (out @ concat (map subscription_bytes bucket))"
proof (induction out bucket rule: encode_bucket.induct)
  case (2 out sub rest)
  then have "length (sub_encoded sub) < 2 ^ 32"
    using kind_of_length [of "sub_encoded sub" "sub_type_id sub"] by (auto simp: stored_ok_def)
  with 2 show ?case by (simp add: push_bytes_ok subscription_bytes_def [of sub])
qed simp

lemma encode_subscriptions_layout:
  "\<forall>(t, bucket)\<in>set m. \<forall>sub\<in>set bucket. stored_ok sub \<Longrightarrow>
     encode_subscriptions out m = Inr (out @ concat (map subscription_bytes (all_subscriptions m)))"
  by (induction out m rule: encode_subscriptions.induct) (simp_all add: encode_bucket_layout all_subscriptions_def)

lemma encode_state_layout:
  assumes "state_wf limits st" "limits_ok limits"
  shows "encode_state st = Inr (state_layout st)"
proof -
  have "bt_len (state_keys st) < 2 ^ 32" "bt_len (state_environments st) < 2 ^ 32"
    "subscription_count (state_subscriptions st) < 2 ^ 32" "bt_len (cache_entries (state_replay st)) < 2 ^ 32"
    using assms by (auto simp: state_wf_def limits_ok_def)
  moreover have "\<forall>(a, e)\<in>set (state_environments st). is_environment e"
    "\<forall>(t, bucket)\<in>set (state_subscriptions st). \<forall>sub\<in>set bucket. stored_ok sub"
    using assms by (auto simp: state_wf_def)
  ultimately show ?thesis
    by (simp add: encode_state_def push_u32_ok encode_keys_layout encode_environments_layout
        encode_subscriptions_layout encode_replays_layout state_layout_def Let_def)
qed

section \<open>Decoding\<close>

text \<open>Entries arrive in key order, so every insertion appends.\<close>

lemma bt_insert_last: "\<forall>(k', _)\<in>set m. k' < k \<Longrightarrow> bt_insert k v m = m @ [(k, v)]"
  by (induction m) auto

lemma bt_get_above: "\<forall>(k', _)\<in>set m. k' < k \<Longrightarrow> bt_get m k = None"
  by (induction m) (auto simp: bt_get_def)

lemma bt_wf_append_Cons:
  "bt_wf (m @ (k, v) # n) \<Longrightarrow> (\<forall>(k', _)\<in>set m. k' < k) \<and> bt_wf ((m @ [(k, v)]) @ n)"
  by (auto simp: bt_wf_def sorted_wrt_append)

lemma decode_keys_layout:
  "bt_wf (acc @ ks) \<Longrightarrow> \<forall>(a, _)\<in>set ks. a \<noteq> AgentId_CA \<Longrightarrow>
     decode_keys (length ks) acc (scur pre (concat (map key_bytes ks) @ rest)) =
       Inr (acc @ ks, scur (pre @ concat (map key_bytes ks)) rest)"
proof (induction ks arbitrary: acc pre)
  case (Cons entry ks)
  obtain agent keys where [simp]: "entry = (agent, keys)" by fastforce
  have eta: "\<lparr>public_ed25519 = public_ed25519 keys, public_x25519 = public_x25519 keys\<rparr> = keys" by simp
  have above: "\<forall>(k', _)\<in>set acc. k' < agent" and wf: "bt_wf ((acc @ [(agent, keys)]) @ ks)"
    using bt_wf_append_Cons [of acc agent keys ks] Cons.prems(1) by auto
  have "decode_keys (length (entry # ks)) acc (scur pre (concat (map key_bytes (entry # ks)) @ rest)) =
     decode_keys (length ks) (bt_insert agent keys acc) (scur (pre @ key_bytes entry) (concat (map key_bytes ks) @ rest))"
    using Cons.prems(2) above by (simp add: eta state_reads bt_contains_key_def bt_get_above)
  also have "\<dots> = Inr ((acc @ [(agent, keys)]) @ ks, scur ((pre @ key_bytes entry) @ concat (map key_bytes ks)) rest)"
    using Cons.IH [OF wf] Cons.prems(2) above by (simp add: bt_insert_last)
  finally show ?case by simp
qed simp

lemma decode_environments_layout:
  "bt_wf (acc @ es) \<Longrightarrow> \<forall>(_, e)\<in>set es. is_environment e \<Longrightarrow>
     decode_environments (length es) acc (scur pre (concat (map environment_entry_bytes es) @ rest)) =
       Inr (acc @ es, scur (pre @ concat (map environment_entry_bytes es)) rest)"
proof (induction es arbitrary: acc pre)
  case (Cons entry es)
  obtain agent e where [simp]: "entry = (agent, e)" by fastforce
  have above: "\<forall>(k', _)\<in>set acc. k' < agent" and wf: "bt_wf ((acc @ [(agent, e)]) @ es)"
    using bt_wf_append_Cons [of acc agent e es] Cons.prems(1) by auto
  have "length e \<le> 3640" using Cons.prems(2) is_environment_length by simp
  then have "decode_environments (length (entry # es)) acc (scur pre (concat (map environment_entry_bytes (entry # es)) @ rest)) =
     decode_environments (length es) (bt_insert agent e acc) (scur (pre @ environment_entry_bytes entry)
       (concat (map environment_entry_bytes es) @ rest))"
    using Cons.prems(2) above
    by (simp add: state_reads state_blobs.parse_print bt_contains_key_def bt_get_above const_defs)
  also have "\<dots> = Inr ((acc @ [(agent, e)]) @ es, scur ((pre @ environment_entry_bytes entry) @ concat (map environment_entry_bytes es)) rest)"
    using Cons.IH [OF wf] Cons.prems(2) above by (simp add: bt_insert_last)
  finally show ?case by simp
qed simp

lemma decode_replays_layout:
  "bt_wf (acc @ rs) \<Longrightarrow>
     decode_replays (length rs) acc (scur pre (concat (map replay_bytes rs) @ rest)) =
       Inr (acc @ rs, scur (pre @ concat (map replay_bytes rs)) rest)"
proof (induction rs arbitrary: acc pre)
  case (Cons entry rs)
  obtain sender session expires where [simp]: "entry = ((sender, session), expires)" by (metis prod.exhaust)
  have above: "\<forall>(k', _)\<in>set acc. k' < (sender, session)" and wf: "bt_wf ((acc @ [((sender, session), expires)]) @ rs)"
    using bt_wf_append_Cons [of acc "(sender, session)" expires rs] Cons.prems by auto
  have "decode_replays (length (entry # rs)) acc (scur pre (concat (map replay_bytes (entry # rs)) @ rest)) =
     decode_replays (length rs) (bt_insert (sender, session) expires acc) (scur (pre @ replay_bytes entry)
       (concat (map replay_bytes rs) @ rest))"
    using bt_get_above [OF above] by (simp add: state_reads bt_contains_key_def)
  also have "\<dots> = Inr ((acc @ [((sender, session), expires)]) @ rs, scur ((pre @ replay_bytes entry) @ concat (map replay_bytes rs)) rest)"
    using Cons.IH [OF wf] bt_insert_last [OF above] by simp
  finally show ?case by simp
qed simp

text \<open>A bucket is read entry by entry; an empty one leaves no trace in the snapshot.\<close>

definition nonempty_bucket :: "TypeId \<Rightarrow> StoredSubscription list \<Rightarrow> (TypeId, StoredSubscription list) btree" where
  "nonempty_bucket t bucket = (if bucket = [] then [] else [(t, bucket)])"

lemma bucket_insert_last:
  assumes "\<forall>(k', _)\<in>set acc. k' < t"
  shows "bt_insert t (bucket_of (acc @ nonempty_bucket t p) t @ [sub]) (acc @ nonempty_bucket t p) =
    acc @ nonempty_bucket t (p @ [sub])"
proof -
  have "bucket_of (acc @ nonempty_bucket t p) t = p"
    using assms by (induction acc) (auto simp: bucket_of_def bt_get_def nonempty_bucket_def)
  moreover have "bt_insert t b (acc @ nonempty_bucket t p) = acc @ [(t, b)]" for b
    using assms by (induction acc) (auto simp: nonempty_bucket_def)
  ultimately show ?thesis by (simp add: nonempty_bucket_def)
qed

lemma decode_bucket_layout:
  "\<forall>(k', _)\<in>set acc. k' < t \<Longrightarrow> \<forall>sub\<in>set bucket. sub_type_id sub = t \<and> stored_ok sub \<Longrightarrow>
     decode_subscriptions (length bucket + m) (acc @ nonempty_bucket t p)
       (scur pre (concat (map subscription_bytes bucket) @ rest)) =
     decode_subscriptions m (acc @ nonempty_bucket t (p @ bucket)) (scur (pre @ concat (map subscription_bytes bucket)) rest)"
proof (induction bucket arbitrary: p pre)
  case (Cons sub bucket)
  have ok: "kind_of (sub_encoded sub) t = Some (sub_kind sub)" "sub_handler sub \<noteq> HandlerId_NONE" "sub_type_id sub = t"
    "length (sub_encoded sub) \<le> 3640"
    using Cons.prems(2) kind_of_length by (auto simp: stored_ok_def)
  have eta: "\<lparr>sub_subscriber = sub_subscriber sub, sub_type_id = t, sub_handler = sub_handler sub,
      sub_kind = sub_kind sub, sub_encoded = sub_encoded sub\<rparr> = sub"
    using ok(3) by auto
  have "decode_subscriptions (length (sub # bucket) + m) (acc @ nonempty_bucket t p)
       (scur pre (concat (map subscription_bytes (sub # bucket)) @ rest)) =
     decode_subscriptions (length bucket + m) (bt_insert t (bucket_of (acc @ nonempty_bucket t p) t @ [sub]) (acc @ nonempty_bucket t p))
       (scur (pre @ subscription_bytes sub) (concat (map subscription_bytes bucket) @ rest))"
    using ok by (simp add: eta subscription_bytes_def [of sub] state_reads state_blobs.parse_print const_defs)
  also have "\<dots> = decode_subscriptions m (acc @ nonempty_bucket t ((p @ [sub]) @ bucket))
      (scur ((pre @ subscription_bytes sub) @ concat (map subscription_bytes bucket)) rest)"
    unfolding bucket_insert_last [OF Cons.prems(1)] using Cons.prems by (intro Cons.IH) auto
  finally show ?case by simp
qed simp

lemma decode_subscriptions_layout:
  "bt_wf (acc @ m) \<Longrightarrow> \<forall>(t, bucket)\<in>set m. \<forall>sub\<in>set bucket. sub_type_id sub = t \<and> stored_ok sub \<Longrightarrow>
     decode_subscriptions (subscription_count m) acc (scur pre (concat (map subscription_bytes (all_subscriptions m)) @ rest)) =
       Inr (acc @ bt_retain (\<lambda>_ bucket. bucket \<noteq> []) m,
            scur (pre @ concat (map subscription_bytes (all_subscriptions m))) rest)"
proof (induction m arbitrary: acc pre)
  case (Cons entry m)
  obtain t bucket where [simp]: "entry = (t, bucket)" by fastforce
  have above: "\<forall>(k', _)\<in>set acc. k' < t" and wf: "bt_wf ((acc @ nonempty_bucket t bucket) @ m)"
    using Cons.prems(1) by (auto simp: bt_wf_def sorted_wrt_append nonempty_bucket_def)
  have "decode_subscriptions (subscription_count (entry # m)) acc
      (scur pre (concat (map subscription_bytes (all_subscriptions (entry # m))) @ rest)) =
    decode_subscriptions (subscription_count m) (acc @ nonempty_bucket t bucket)
      (scur (pre @ concat (map subscription_bytes bucket)) (concat (map subscription_bytes (all_subscriptions m)) @ rest))"
    using decode_bucket_layout [OF above, of bucket "subscription_count m" "[]"] Cons.prems(2)
    by (simp add: subscription_count_def all_subscriptions_def nonempty_bucket_def)
  also have "\<dots> = Inr ((acc @ nonempty_bucket t bucket) @ bt_retain (\<lambda>_ bucket. bucket \<noteq> []) m,
      scur ((pre @ concat (map subscription_bytes bucket)) @ concat (map subscription_bytes (all_subscriptions m))) rest)"
    using Cons.prems(2) by (intro Cons.IH wf) auto
  finally show ?case by (simp add: bt_retain_def nonempty_bucket_def all_subscriptions_def)
qed (simp add: subscription_count_def all_subscriptions_def bt_retain_def)

text \<open>The state without the empty buckets, which lookups cannot tell from it.\<close>

definition compact :: "PersistentState \<Rightarrow> PersistentState" where
  "compact st = st\<lparr>state_subscriptions := bt_retain (\<lambda>_ bucket. bucket \<noteq> []) (state_subscriptions st)\<rparr>"

lemma bucket_of_compact:
  assumes "bt_wf m"
  shows "bucket_of (bt_retain (\<lambda>_ bucket. bucket \<noteq> []) m) = bucket_of m"
  using assms by (auto simp: bucket_of_def bt.get_retain fun_eq_iff split: option.splits)

lemma decode_encode_state:
  assumes wf: "state_wf limits st" and limits: "limits_ok limits"
  shows "decode_state (state_layout st) limits = Inr (compact st)"
proof -
  have c: "bt_len (state_keys st) \<le> limit_agents limits" "bt_len (state_keys st) < 2 ^ 32"
    "bt_len (state_environments st) \<le> limit_environments limits" "bt_len (state_environments st) < 2 ^ 32"
    "subscription_count (state_subscriptions st) \<le> limit_subscriptions limits"
    "subscription_count (state_subscriptions st) < 2 ^ 32"
    "bt_len (cache_entries (state_replay st)) \<le> limit_replays limits" "bt_len (cache_entries (state_replay st)) < 2 ^ 32"
    using assms by (auto simp: state_wf_def limits_ok_def)
  have "\<forall>(a, _)\<in>set (state_keys st). a \<noteq> AgentId_CA"
    using wf by (auto simp: state_wf_def bt_iter_iff)
  then have k: "decode_keys (bt_len (state_keys st)) bt_empty (scur pre (concat (map key_bytes (state_keys st)) @ rest)) =
      Inr (state_keys st, scur (pre @ concat (map key_bytes (state_keys st))) rest)" for pre rest
    using decode_keys_layout [of "[]" "state_keys st"] wf by (simp add: state_wf_def bt_len_def bt_empty_def)
  have e: "decode_environments (bt_len (state_environments st)) bt_empty (scur pre (concat (map environment_entry_bytes (state_environments st)) @ rest)) =
      Inr (state_environments st, scur (pre @ concat (map environment_entry_bytes (state_environments st))) rest)" for pre rest
    using decode_environments_layout [of "[]" "state_environments st"] wf by (simp add: state_wf_def bt_len_def bt_empty_def)
  have s: "decode_subscriptions (subscription_count (state_subscriptions st)) bt_empty
      (scur pre (concat (map subscription_bytes (all_subscriptions (state_subscriptions st))) @ rest)) =
      Inr (state_subscriptions (compact st), scur (pre @ concat (map subscription_bytes (all_subscriptions (state_subscriptions st)))) rest)" for pre rest
    using decode_subscriptions_layout [of "[]" "state_subscriptions st"] wf by (simp add: state_wf_def bt_empty_def compact_def)
  have r: "decode_replays (bt_len (cache_entries (state_replay st))) bt_empty (scur pre (concat (map replay_bytes (cache_entries (state_replay st))))) =
      Inr (cache_entries (state_replay st), scur (pre @ concat (map replay_bytes (cache_entries (state_replay st)))) [])" for pre
    using decode_replays_layout [of "[]" "cache_entries (state_replay st)" pre "[]"] wf by (simp add: state_wf_def bt_len_def bt_empty_def)
  have start: "\<lparr>state_input = state_layout st, state_position = 0\<rparr> = scur [] (state_layout st)" by (simp add: scur_def)
  have magic: "length STATE_MAGIC = 8" by (simp add: STATE_MAGIC_def)
  have "(ReplayCache_new (limit_replays limits) (limit_replay_ttl_seconds limits))\<lparr>cache_entries := cache_entries (state_replay st)\<rparr> =
      state_replay st"
    using wf by (cases "state_replay st") (simp add: state_wf_def ReplayCache_new_def)
  then show ?thesis
    unfolding decode_state_def start
    by (simp add: state_layout_def state_take_scur magic state_counts.parse_print c [simplified] k e s r compact_def)
qed

section \<open>Capacity\<close>

lemma set_bt_insert: "set (bt_insert k v m) \<subseteq> insert (k, v) (set m)"
  by (induction k v m rule: bt_insert.induct) auto

lemma subscription_count_insert:
  "bt_wf m \<Longrightarrow> subscription_count (bt_insert t b m) + length (bucket_of m t) = subscription_count m + length b"
proof (induction t b m rule: bt_insert.induct)
  case (2 t b t' b' m)
  have tail: "bt_wf m" and above: "\<forall>(k, _)\<in>set m. t' < k"
    using "2.prems" by (auto simp: bt_wf_def)
  have none: "bt_get ((t', b') # m) t = None" if "t < t'"
    using that above by (induction m) (auto simp: bt_get_def)
  show ?case
    using "2.IH" tail none
    by (cases t t' rule: linorder_cases) (auto simp: subscription_count_def bucket_of_def bt_get_def)
qed (simp add: subscription_count_def bucket_of_def bt_get_def)

lemma replace_first_length: "replace_first p x xs = Some ys \<Longrightarrow> length ys = length xs"
  by (induction xs arbitrary: ys) (auto split: if_splits)

lemma replace_first_set: "replace_first p x xs = Some ys \<Longrightarrow> set ys \<subseteq> insert x (set xs)"
  by (induction xs arbitrary: ys) (auto split: if_splits)

lemma upsert_subscription_wf:
  assumes "upsert_subscription limit sub m = (r, m')" "bt_wf m" "subscription_count m \<le> limit"
  shows "bt_wf m'" "subscription_count m' \<le> limit"
proof -
  show "bt_wf m'"
    using assms(1,2) by (auto simp: upsert_subscription_def Let_def split: option.splits if_splits)
  have same: "subscription_count (bt_insert t (bucket_of m t) m) = subscription_count m" for t
    using subscription_count_insert [OF assms(2), of t "bucket_of m t"] by simp
  have count: "subscription_count (bt_insert t b (bt_insert t (bucket_of m t) m)) + length (bucket_of m t) =
      subscription_count m + length b" for t b
    using subscription_count_insert [of "bt_insert t (bucket_of m t) m" t b] assms(2) same
    by (simp add: bucket_of_insert)
  show "subscription_count m' \<le> limit"
  proof (cases "replace_first (same_slot sub) sub (bucket_of m (sub_type_id sub))")
    case None
    let ?b = "sort_key (\<lambda>entry. (sub_subscriber entry, sub_handler entry)) (bucket_of m (sub_type_id sub) @ [sub])"
    from None assms(1,3) count [of "sub_type_id sub" ?b] show ?thesis
      by (auto simp: upsert_subscription_def Let_def same split: if_splits)
  next
    case (Some b)
    with assms(1,3) count [of "sub_type_id sub" b] replace_first_length [OF Some] show ?thesis
      by (simp add: upsert_subscription_def Let_def)
  qed
qed

text \<open>Buckets of a map keep a property that the new subscription has.\<close>

definition buckets_ok :: "(TypeId, StoredSubscription list) btree \<Rightarrow> bool" where
  "buckets_ok m \<longleftrightarrow> (\<forall>(t, bucket)\<in>set m. \<forall>sub\<in>set bucket. sub_type_id sub = t \<and> stored_ok sub)"

lemma buckets_ok_insert:
  "buckets_ok m \<Longrightarrow> \<forall>sub\<in>set b. sub_type_id sub = t \<and> stored_ok sub \<Longrightarrow> buckets_ok (bt_insert t b m)"
  using set_bt_insert [of t b m] by (fastforce simp: buckets_ok_def)

lemma buckets_ok_bucket: "buckets_ok m \<Longrightarrow> \<forall>sub\<in>set (bucket_of m t). sub_type_id sub = t \<and> stored_ok sub"
  using bt_get_iter [of m t] by (cases "bt_get m t") (auto simp: buckets_ok_def bucket_of_def)

lemma upsert_subscription_ok:
  assumes "upsert_subscription limit sub m = (r, m')" "buckets_ok m" "stored_ok sub"
  shows "buckets_ok m'"
proof -
  let ?t = "sub_type_id sub"
  note old = buckets_ok_bucket [OF assms(2), of ?t]
  have empty: "buckets_ok (bt_insert ?t (bucket_of m ?t) m)" by (rule buckets_ok_insert [OF assms(2) old])
  have new: "buckets_ok (bt_insert ?t b (bt_insert ?t (bucket_of m ?t) m))"
    if "set b \<subseteq> insert sub (set (bucket_of m ?t))" for b
    using that old assms(3) by (intro buckets_ok_insert [OF empty]) auto
  show ?thesis
  proof (cases "replace_first (same_slot sub) sub (bucket_of m ?t)")
    case None
    with assms(1) empty new show ?thesis by (auto simp: upsert_subscription_def Let_def split: if_splits)
  next
    case (Some b)
    with assms(1) new [OF replace_first_set [OF Some]] show ?thesis
      by (simp add: upsert_subscription_def Let_def)
  qed
qed

section \<open>The persistent store\<close>

text \<open>A commit replaces the snapshot whole or leaves it as it was.\<close>

lemma snapshot_commit_atomic:
  "snapshot_path (snd (snapshot_commit io files bs)) =
     (if is_ok (fst (snapshot_commit io files bs)) then Some bs else snapshot_path files)"
  by (auto simp: snapshot_commit_def Let_def split: option.splits)

lemma snapshot_commit_ok_length: "fst (snapshot_commit io files bs) = Inr u \<Longrightarrow> length bs \<le> SNAPSHOT_MAX"
  by (auto simp: snapshot_commit_def split: if_splits)

definition empty_state :: "StoreLimits \<Rightarrow> PersistentState" where
  "empty_state limits = \<lparr>state_keys = bt_empty, state_environments = bt_empty, state_subscriptions = bt_empty,
     state_replay = ReplayCache_new (limit_replays limits) (limit_replay_ttl_seconds limits)\<rparr>"

text \<open>The store's invariant: memory is well formed, and what is on disk reopens to it.\<close>

definition on_disk :: "StoreLimits \<Rightarrow> snapshot_files \<Rightarrow> PersistentState \<Rightarrow> bool" where
  "on_disk limits files st \<longleftrightarrow>
     (case snapshot_path files of
        None \<Rightarrow> st = empty_state limits
      | Some bs \<Rightarrow> length bs \<le> SNAPSHOT_MAX \<and> decode_state bs limits = Inr (compact st))"

definition ps_inv :: "PersistentStore \<Rightarrow> bool" where
  "ps_inv s \<longleftrightarrow> limits_ok (ps_limits s) \<and> state_wf (ps_limits s) (ps_state s) \<and>
     on_disk (ps_limits s) (ps_files s) (ps_state s)"

lemma ps_commit_inv:
  assumes "ps_inv s" "state_wf (ps_limits s) st"
  shows "ps_inv (snd (ps_commit s st))"
proof -
  let ?bs = "state_layout st"
  have enc: "encode_state st = Inr ?bs" "decode_state ?bs (ps_limits s) = Inr (compact st)"
    using assms encode_state_layout decode_encode_state by (auto simp: ps_inv_def)
  obtain io faults where f: "(case ps_faults s of [] \<Rightarrow> (no_faults, []) | f # fs \<Rightarrow> (f, fs)) = (io, faults)"
    by fastforce
  obtain r files where c: "snapshot_commit io (ps_files s) ?bs = (r, files)" by fastforce
  show ?thesis
  proof (cases r)
    case (Inl e)
    then show ?thesis
      using assms c f snapshot_commit_atomic [of io "ps_files s" ?bs]
      by (simp add: ps_commit_def enc ps_inv_def on_disk_def)
  next
    case (Inr u)
    then show ?thesis
      using assms c f snapshot_commit_atomic [of io "ps_files s" ?bs] snapshot_commit_ok_length [of io "ps_files s" ?bs]
      by (simp add: ps_commit_def enc ps_inv_def on_disk_def)
  qed
qed

lemma state_wf_buckets:
  "state_wf limits st \<longleftrightarrow> state_wf limits (st\<lparr>state_subscriptions := []\<rparr>) \<and> bt_wf (state_subscriptions st) \<and>
     subscription_count (state_subscriptions st) \<le> limit_subscriptions limits \<and> buckets_ok (state_subscriptions st)"
  by (auto simp: state_wf_def buckets_ok_def subscription_count_def bt_wf_def [of "[]"])

lemma state_wf_set_subscriptions:
  "state_wf limits st \<Longrightarrow> bt_wf m \<Longrightarrow> subscription_count m \<le> limit_subscriptions limits \<Longrightarrow> buckets_ok m \<Longrightarrow>
     state_wf limits (st\<lparr>state_subscriptions := m\<rparr>)"
  by (simp add: state_wf_def buckets_ok_def)

lemma ps_provision_inv:
  assumes "ps_inv s"
  shows "ps_inv (snd (ps_provision s agent keys))"
proof -
  have "state_wf (ps_limits s) ((ps_state s)\<lparr>state_keys := bt_insert agent keys (state_keys (ps_state s))\<rparr>)"
    if "agent \<noteq> AgentId_CA"
      "bt_contains_key (state_keys (ps_state s)) agent \<or> bt_len (state_keys (ps_state s)) < limit_agents (ps_limits s)"
    using that assms bt.bounded_insert [of "state_keys (ps_state s)"]
    by (auto simp: ps_inv_def state_wf_def bt_contains_key_def)
  with assms ps_commit_inv show ?thesis
    by (auto simp: ps_provision_def Let_def not_le)
qed

lemma state_wf_environment:
  assumes "state_wf limits st" "is_environment e"
    "bt_contains_key (state_environments st) agent \<or> bt_len (state_environments st) < limit_environments limits"
  shows "state_wf limits (st\<lparr>state_environments := bt_insert agent e (state_environments st)\<rparr>)"
  using assms bt.bounded_insert [of "state_environments st"] set_bt_insert [of agent e "state_environments st"]
  by (fastforce simp: state_wf_def bt_contains_key_def)

lemma ps_set_environment_inv:
  assumes "ps_inv s"
  shows "ps_inv (snd (ps_set_environment s agent e))"
  using assms ps_commit_inv state_wf_environment
  by (auto simp: ps_set_environment_def Let_def not_le ps_inv_def [of s])

lemma state_wf_upsert:
  assumes "state_wf limits st" "upsert_subscription (limit_subscriptions limits) sub (state_subscriptions st) = (r, m)" "stored_ok sub"
  shows "state_wf limits (st\<lparr>state_subscriptions := m\<rparr>)"
  using assms upsert_subscription_wf [OF assms(2)] upsert_subscription_ok [OF assms(2)]
  by (intro state_wf_set_subscriptions) (auto simp: state_wf_buckets [of _ st])

lemma ps_put_subscription_inv:
  assumes "ps_inv s" "sub_handler sub \<noteq> HandlerId_NONE"
  shows "ps_inv (snd (ps_put_subscription s sub))"
proof -
  obtain r m where u: "upsert_subscription (limit_subscriptions (ps_limits s)) sub (state_subscriptions (ps_state s)) = (r, m)" by fastforce
  have "state_wf (ps_limits s) ((ps_state s)\<lparr>state_subscriptions := m\<rparr>)"
    if "kind_of (sub_encoded sub) (sub_type_id sub) = Some (sub_kind sub)"
    using that assms u by (intro state_wf_upsert) (auto simp: stored_ok_def ps_inv_def)
  with assms ps_commit_inv u show ?thesis
    by (cases r) (auto simp: ps_put_subscription_def Let_def)
qed

lemma state_wf_claim:
  assumes wf: "state_wf limits st" and b: "bt_get (state_subscriptions st) t = Some bucket"
  shows "state_wf limits (st\<lparr>state_subscriptions := bt_insert t (remove1 sub bucket) (state_subscriptions st)\<rparr>)"
proof -
  let ?m = "state_subscriptions st" and ?b = "remove1 sub bucket"
  have bucket: "bucket_of ?m t = bucket" using b by (simp add: bucket_of_def)
  from wf have m: "bt_wf ?m" "buckets_ok ?m" "subscription_count ?m \<le> limit_subscriptions limits"
    by (simp_all add: state_wf_buckets [of _ st])
  have "subscription_count (bt_insert t ?b ?m) + length bucket = subscription_count ?m + length ?b"
    using subscription_count_insert [OF m(1), of t ?b] bucket by simp
  moreover have "length ?b \<le> length bucket" by (simp add: length_remove1)
  moreover have "buckets_ok (bt_insert t ?b ?m)"
    using buckets_ok_bucket [OF m(2), of t] unfolding bucket
    by (intro buckets_ok_insert m) (metis notin_set_remove1)
  ultimately show ?thesis using wf m by (intro state_wf_set_subscriptions) auto
qed

lemma ps_claim_subscription_inv:
  assumes "ps_inv s"
  shows "ps_inv (snd (ps_claim_subscription s sub))"
proof (cases "\<exists>bucket. sub_kind sub = OneShot \<and> sub \<in> set bucket \<and>
    bt_get (state_subscriptions (ps_state s)) (sub_type_id sub) = Some bucket")
  case True
  then obtain bucket where b: "bt_get (state_subscriptions (ps_state s)) (sub_type_id sub) = Some bucket"
    "sub \<in> set bucket" "sub_kind sub = OneShot" by blast
  from assms have "state_wf (ps_limits s) (ps_state s)" by (simp add: ps_inv_def)
  from ps_commit_inv [OF assms state_wf_claim [OF this b(1), of sub]] b show ?thesis
    by (auto simp: ps_claim_subscription_def Let_def tryS_def split: prod.splits sum.splits)
next
  case False
  with assms show ?thesis
    by (cases "sub_kind sub") (auto simp: ps_claim_subscription_def Let_def split: option.splits)
qed

lemma cache_mark_bounded:
  assumes "bt_wf (cache_entries c)" "bt_len (cache_entries c) \<le> cache_maximum c"
  shows "bt_wf (cache_entries (snd (cache_check_and_mark c a i now)))"
    "bt_len (cache_entries (snd (cache_check_and_mark c a i now))) \<le> cache_maximum c"
proof -
  have inv: "cache_inv c" using assms by (simp add: cache_inv_def)
  then show wf: "bt_wf (cache_entries (snd (cache_check_and_mark c a i now)))"
    using cache.inv_mark by (auto simp: cache_inv_def)
  show "bt_len (cache_entries (snd (cache_check_and_mark c a i now))) \<le> cache_maximum c"
    using cache.bounded_mark [OF inv, of a i now] assms wf
    by (simp add: cache_remembered_def bt.len_card cache.maximum_mark)
qed

lemma state_wf_mark:
  assumes "state_wf limits st"
  shows "state_wf limits (st\<lparr>state_replay := snd (cache_check_and_mark (state_replay st) a i now)\<rparr>)"
  using assms cache_mark_bounded [of "state_replay st" a i now]
    cache.maximum_mark [of "state_replay st" a i now] cache.ttl_mark [of "state_replay st" a i now]
  by (simp add: state_wf_def)

lemma ps_check_and_mark_inv:
  assumes "ps_inv s"
  shows "ps_inv (snd (ps_check_and_mark s a i now))"
proof -
  obtain r replay where c: "cache_check_and_mark (state_replay (ps_state s)) a i now = (r, replay)" by fastforce
  have "state_wf (ps_limits s) (ps_state s)" using assms by (simp add: ps_inv_def)
  from ps_commit_inv [OF assms state_wf_mark [OF this, of a i now]] assms c show ?thesis
    by (cases r) (simp_all add: ps_check_and_mark_def)
qed

section \<open>Opening a snapshot\<close>

text \<open>Whatever bytes the decoder accepts, the state it returns is well formed and compact.\<close>

lemma decode_keys_wf:
  "decode_keys n acc c = Inr (ks, c') \<Longrightarrow> bt_wf acc \<Longrightarrow> bt_get acc AgentId_CA = None \<Longrightarrow>
     bt_wf ks \<and> bt_len ks = bt_len acc + n \<and> bt_get ks AgentId_CA = None"
proof (induction n acc c arbitrary: ks c' rule: decode_keys.induct)
  case (2 n acc c)
  from "2.prems"(1) obtain agent c1 ed c2 x c3 where
    "AgentId agent \<noteq> AgentId_CA" "\<not> bt_contains_key acc (AgentId agent)"
    and rec: "decode_keys n (bt_insert (AgentId agent) \<lparr>public_ed25519 = ed, public_x25519 = x\<rparr> acc) c3 = Inr (ks, c')"
    and reads: "state_array c = Inr (agent, c1)" "state_array c1 = Inr (ed, c2)" "state_array c2 = Inr (x, c3)"
    by (auto simp: tryE_Inr_iff split: if_splits)
  with "2.prems"(2,3) "2.IH" [OF reads(1) refl _ reads(2) refl reads(3) refl _ rec] show ?case
    by (auto simp: bt.len_insert bt_contains_key_def)
qed simp

lemma decode_environments_wf:
  "decode_environments n acc c = Inr (es, c') \<Longrightarrow> bt_wf acc \<Longrightarrow> \<forall>(_, e)\<in>set acc. is_environment e \<Longrightarrow>
     bt_wf es \<and> bt_len es = bt_len acc + n \<and> (\<forall>(_, e)\<in>set es. is_environment e)"
proof (induction n acc c arbitrary: es c' rule: decode_environments.induct)
  case (2 n acc c)
  from "2.prems"(1) obtain agent c1 e c2 where ok: "is_environment e" "\<not> bt_contains_key acc (AgentId agent)"
    and rec: "decode_environments n (bt_insert (AgentId agent) e acc) c2 = Inr (es, c')"
    and reads: "state_array c = Inr (agent, c1)" "state_bytes MAX_PLAINTEXT_LEN c1 = Inr (e, c2)"
    by (auto simp: tryE_Inr_iff split: if_splits)
  have "\<forall>(_, e)\<in>set (bt_insert (AgentId agent) e acc). is_environment e"
    using set_bt_insert [of "AgentId agent" e acc] "2.prems"(3) ok(1) by auto
  with "2.IH" [OF reads(1) refl reads(2) refl _ rec] "2.prems"(2) ok show ?case
    by (auto simp: bt.len_insert bt_contains_key_def)
qed simp

lemma decode_replays_wf:
  "decode_replays n acc c = Inr (rs, c') \<Longrightarrow> bt_wf acc \<Longrightarrow> bt_wf rs \<and> bt_len rs = bt_len acc + n"
proof (induction n acc c arbitrary: rs c' rule: decode_replays.induct)
  case (2 n acc c)
  from "2.prems"(1) obtain sender c1 session c2 expires c3 where
    "\<not> bt_contains_key acc (AgentId sender, SessionId session)"
    and rec: "decode_replays n (bt_insert (AgentId sender, SessionId session) expires acc) c3 = Inr (rs, c')"
    and reads: "state_array c = Inr (sender, c1)" "state_array c1 = Inr (session, c2)" "state_array c2 = Inr (expires, c3)"
    by (auto simp: tryE_Inr_iff split: if_splits)
  with "2.prems"(2) "2.IH" [OF reads(1) refl reads(2) refl reads(3) refl _ rec] show ?case
    by (auto simp: bt.len_insert bt_contains_key_def)
qed simp

definition buckets_nonempty :: "(TypeId, StoredSubscription list) btree \<Rightarrow> bool" where
  "buckets_nonempty m \<longleftrightarrow> (\<forall>(_, bucket)\<in>set m. bucket \<noteq> [])"

lemma decode_subscriptions_wf:
  "decode_subscriptions n acc c = Inr (m, c') \<Longrightarrow> bt_wf acc \<Longrightarrow> buckets_ok acc \<Longrightarrow> buckets_nonempty acc \<Longrightarrow>
     bt_wf m \<and> subscription_count m = subscription_count acc + n \<and> buckets_ok m \<and> buckets_nonempty m"
proof (induction n acc c arbitrary: m c' rule: decode_subscriptions.induct)
  case (2 n acc c)
  from "2.prems"(1) obtain subscriber c1 t c2 h c3 e c4 kind where
    ok: "kind_of e (TypeId t) = Some kind" "HandlerId h \<noteq> HandlerId_NONE"
    and rec: "decode_subscriptions n (bt_insert (TypeId t) (bucket_of acc (TypeId t) @
        [\<lparr>sub_subscriber = AgentId subscriber, sub_type_id = TypeId t, sub_handler = HandlerId h,
          sub_kind = kind, sub_encoded = e\<rparr>]) acc) c4 = Inr (m, c')"
    and reads: "state_array c = Inr (subscriber, c1)" "state_array c1 = Inr (t, c2)" "state_array c2 = Inr (h, c3)"
      "state_bytes MAX_PLAINTEXT_LEN c3 = Inr (e, c4)"
    by (auto simp: result_iffs split: if_splits)
  let ?sub = "\<lparr>sub_subscriber = AgentId subscriber, sub_type_id = TypeId t, sub_handler = HandlerId h,
    sub_kind = kind, sub_encoded = e\<rparr>"
  let ?acc = "bt_insert (TypeId t) (bucket_of acc (TypeId t) @ [?sub]) acc"
  have kind: "ok_or (kind_of e (TypeId t)) Malformed = Inr kind" using ok(1) by simp
  have "buckets_ok ?acc"
    using ok buckets_ok_bucket [OF "2.prems"(3), of "TypeId t"]
    by (intro buckets_ok_insert "2.prems") (auto simp: stored_ok_def)
  moreover have "buckets_nonempty ?acc"
    using "2.prems"(4) set_bt_insert [of "TypeId t" "bucket_of acc (TypeId t) @ [?sub]" acc]
    by (fastforce simp: buckets_nonempty_def)
  moreover have "subscription_count ?acc = subscription_count acc + 1"
    using subscription_count_insert [OF "2.prems"(2), of "TypeId t" "bucket_of acc (TypeId t) @ [?sub]"] by simp
  ultimately show ?case
    using "2.IH" [OF reads(1) refl reads(2) refl reads(3) refl reads(4) refl kind ok(2) rec] "2.prems"(2) by simp
qed simp

lemma compact_id:
  assumes "buckets_nonempty (state_subscriptions st)"
  shows "compact st = st"
proof -
  have "bt_retain (\<lambda>_ bucket. bucket \<noteq> []) (state_subscriptions st) = state_subscriptions st"
    using assms by (auto simp: buckets_nonempty_def bt_retain_def intro!: filter_True)
  then show ?thesis by (simp add: compact_def)
qed

lemma state_count_le: "state_count maximum c = Inr (n, c') \<Longrightarrow> n \<le> maximum"
  by (auto simp: state_count_def tryE_Inr_iff split: if_splits)

lemma decode_state_wf:
  assumes "decode_state bs limits = Inr st"
  shows "state_wf limits st" "compact st = st"
proof -
  from assms obtain c1 c2 c3 c4 c5 c6 c7 c8 c9 nk ne ns nr ks es m rs where
    counts: "state_count (limit_agents limits) c1 = Inr (nk, c2)" "state_count (limit_environments limits) c3 = Inr (ne, c4)"
      "state_count (limit_subscriptions limits) c5 = Inr (ns, c6)" "state_count (limit_replays limits) c7 = Inr (nr, c8)"
    and tables: "decode_keys nk bt_empty c2 = Inr (ks, c3)" "decode_environments ne bt_empty c4 = Inr (es, c5)"
      "decode_subscriptions ns bt_empty c6 = Inr (m, c7)" "decode_replays nr bt_empty c8 = Inr (rs, c9)"
    and st: "st = \<lparr>state_keys = ks, state_environments = es, state_subscriptions = m,
       state_replay = (ReplayCache_new (limit_replays limits) (limit_replay_ttl_seconds limits))\<lparr>cache_entries := rs\<rparr>\<rparr>"
    by (auto simp: decode_state_def tryE_Inr_iff split: if_splits)
  have "bt_wf ks \<and> bt_len ks = nk \<and> bt_get ks AgentId_CA = None"
    using decode_keys_wf [OF tables(1)] by simp
  moreover have "bt_wf es \<and> bt_len es = ne \<and> (\<forall>(_, e)\<in>set es. is_environment e)"
    using decode_environments_wf [OF tables(2)] by (simp add: bt_empty_def bt_len_def bt_wf_def)
  moreover have m: "bt_wf m \<and> subscription_count m = ns \<and> buckets_ok m \<and> buckets_nonempty m"
    using decode_subscriptions_wf [OF tables(3)]
    by (simp add: bt_empty_def bt_wf_def buckets_ok_def buckets_nonempty_def subscription_count_def)
  moreover have "bt_wf rs \<and> bt_len rs = nr" using decode_replays_wf [OF tables(4)] by simp
  ultimately show "state_wf limits st"
    using counts [THEN state_count_le] by (auto simp: st state_wf_def buckets_ok_def ReplayCache_new_def)
  show "compact st = st" by (rule compact_id) (use m st in simp)
qed

lemma empty_state_wf: "state_wf limits (empty_state limits)"
  by (simp add: state_wf_def empty_state_def ReplayCache_new_def)
    (simp add: bt_empty_def subscription_count_def)

lemma ps_open_inv:
  assumes "ps_open read_fault faults files limits = Inr s" "limits_ok limits"
  shows "ps_inv s"
proof (cases "snapshot_path files")
  case None
  with assms show ?thesis
    by (auto simp: ps_open_def snapshot_load_def ps_inv_def on_disk_def empty_state_wf [unfolded empty_state_def]
        empty_state_def split: if_splits)
next
  case (Some bs)
  with assms obtain st where "decode_state bs limits = Inr st" "length bs \<le> SNAPSHOT_MAX"
    "s = \<lparr>ps_state = st, ps_files = files, ps_limits = limits, ps_faults = faults\<rparr>"
    by (auto simp: ps_open_def snapshot_load_def tryE_Inr_iff split: if_splits)
  with decode_state_wf [of bs limits st] assms(2) Some show ?thesis
    by (simp add: ps_inv_def on_disk_def)
qed

text \<open>Reopening after a crash or a restart gives back the view and the replay memory.\<close>

lemma reopen:
  assumes "ps_inv s"
  obtains s' where "ps_open False faults (ps_files s) (ps_limits s) = Inr s'" "ps_view s' = ps_view s"
    "state_replay (ps_state s') = state_replay (ps_state s)" "ps_inv s'"
proof -
  let ?st = "compact (ps_state s)"
  let ?s = "\<lparr>ps_state = ?st, ps_files = ps_files s, ps_limits = ps_limits s, ps_faults = faults\<rparr>"
  have disk: "on_disk (ps_limits s) (ps_files s) (ps_state s)" and wf: "state_wf (ps_limits s) (ps_state s)"
    and limits: "limits_ok (ps_limits s)"
    using assms by (simp_all add: ps_inv_def)
  have "compact (empty_state (ps_limits s)) = empty_state (ps_limits s)"
    by (simp add: compact_def empty_state_def bt_empty_def bt_retain_def)
  with disk have open': "ps_open False faults (ps_files s) (ps_limits s) = Inr ?s"
    by (auto simp: ps_open_def snapshot_load_def on_disk_def empty_state_def split: option.splits)
  have "ps_view ?s = ps_view s"
    using wf by (simp add: ps_view_def compact_def bucket_of_compact state_wf_def)
  with open' ps_open_inv [OF open' limits] show thesis by (intro that) (simp_all add: compact_def)
qed

section \<open>Reconciling the key directory\<close>

lemma reconcile_keys_wf:
  "reconcile_keys cfg keys = Inr ks \<Longrightarrow> bt_wf keys \<Longrightarrow> bt_get keys AgentId_CA = None \<Longrightarrow>
     bt_wf ks \<and> bt_len ks = bt_len keys + length cfg \<and> bt_get ks AgentId_CA = None"
proof (induction cfg keys rule: reconcile_keys.induct)
  case (2 agent k cfg keys)
  then have new: "agent \<noteq> AgentId_CA" "bt_get keys agent = None"
    by (auto simp: bt_contains_key_def split: if_splits)
  with 2 have "bt_wf ks \<and> bt_len ks = bt_len (bt_insert agent k keys) + length cfg \<and> bt_get ks AgentId_CA = None"
    by (simp add: bt_contains_key_def)
  with "2.prems"(2) new(2) show ?case by (simp add: bt.len_insert)
qed simp

lemma reconcile_keys_get:
  "reconcile_keys cfg keys = Inr ks \<Longrightarrow>
     (map_of cfg a = None \<or> bt_get keys a = None) \<and>
     bt_get ks a = (case map_of cfg a of None \<Rightarrow> bt_get keys a | Some k \<Rightarrow> Some k)"
proof (induction cfg keys rule: reconcile_keys.induct)
  case (2 agent k cfg keys)
  then have new: "agent \<noteq> AgentId_CA" "bt_get keys agent = None" "reconcile_keys cfg (bt_insert agent k keys) = Inr ks"
    by (auto simp: bt_contains_key_def split: if_splits)
  with "2.IH" show ?case by (auto simp: bt_contains_key_def split: option.splits if_splits)
qed simp

lemma subscription_count_filter:
  "subscription_count (bt_retain P (map (\<lambda>(t, b). (t, filter Q b)) m)) \<le> subscription_count m"
  by (induction m) (auto simp: subscription_count_def bt_retain_def intro: add_le_mono le_trans [OF _ add_le_mono])

lemma map_bucket_wf: "bt_wf m \<Longrightarrow> bt_wf (map (\<lambda>(t, b). (t, filter Q b)) m)"
  by (simp add: bt_wf_def case_prod_unfold comp_def)

lemma reconcile_agents_inv:
  assumes "ps_inv s"
  shows "ps_inv (snd (reconcile_agents s cfg))"
proof (cases "length cfg \<le> limit_agents (ps_limits s)")
  case True
  show ?thesis
  proof (cases "reconcile_keys cfg bt_empty")
    case (Inr ks)
    let ?st = "ps_state s"
    let ?un = "\<lambda>agent. case (bt_get (state_keys ?st) agent, bt_get ks agent) of (Some old, Some new) \<Rightarrow> old = new | _ \<Rightarrow> False"
    let ?m = "bt_retain (\<lambda>_ bucket. bucket \<noteq> []) (map (\<lambda>(t, b). (t, filter (\<lambda>sub. ?un (sub_subscriber sub)) b))
      (state_subscriptions ?st))"
    let ?next = "\<lparr>state_keys = ks, state_environments = bt_retain (\<lambda>agent _. ?un agent) (state_environments ?st),
      state_subscriptions = ?m, state_replay = (state_replay ?st)\<lparr>cache_entries :=
        bt_retain (\<lambda>(agent, _) _. ?un agent) (cache_entries (state_replay ?st))\<rparr>\<rparr>"
    have wf: "state_wf (ps_limits s) ?st" using assms by (simp add: ps_inv_def)
    have keys: "bt_wf ks" "bt_len ks \<le> limit_agents (ps_limits s)" "bt_get ks AgentId_CA = None"
      using reconcile_keys_wf [OF Inr] True by simp_all
    have "bt_wf ?m" using wf by (auto simp: state_wf_def intro!: bt.wf_retain map_bucket_wf)
    moreover have "subscription_count ?m \<le> limit_subscriptions (ps_limits s)"
      using subscription_count_filter le_trans wf unfolding state_wf_def by blast
    moreover have "buckets_ok ?m"
      using wf by (auto simp: buckets_ok_def bt_retain_def state_wf_def)
    moreover have "bt_len (bt_retain P (state_environments ?st)) \<le> limit_environments (ps_limits s)"
      "bt_len (bt_retain R (cache_entries (state_replay ?st))) \<le> limit_replays (ps_limits s)" for P R
      using wf bt.len_retain le_trans unfolding state_wf_def by blast+
    moreover have "\<forall>(a, e)\<in>set (bt_retain P (state_environments ?st)). is_environment e" for P
      using wf by (auto simp: state_wf_def bt_retain_def)
    ultimately have "state_wf (ps_limits s) ?next"
      using wf keys by (simp add: state_wf_def buckets_ok_def)
    from ps_commit_inv [OF assms this] True Inr show ?thesis
      by (simp add: reconcile_agents_def Let_def)
  qed (use assms True in \<open>simp add: reconcile_agents_def\<close>)
qed (use assms in \<open>simp add: reconcile_agents_def\<close>)

section \<open>Histories of calls\<close>

datatype store_call =
    Call_provision AgentId PublicKeys
  | Call_reconcile "(AgentId \<times> PublicKeys) list"
  | Call_set_environment AgentId bytes
  | Call_put StoredSubscription
  | Call_claim StoredSubscription
  | Call_mark AgentId SessionId u64

fun ps_call :: "store_call \<Rightarrow> PersistentStore \<Rightarrow> PersistentStore" where
  "ps_call (Call_provision agent keys) s = snd (ps_provision s agent keys)"
| "ps_call (Call_reconcile cfg) s = snd (reconcile_agents s cfg)"
| "ps_call (Call_set_environment agent e) s = snd (ps_set_environment s agent e)"
| "ps_call (Call_put sub) s = snd (ps_put_subscription s sub)"
| "ps_call (Call_claim sub) s = snd (ps_claim_subscription s sub)"
| "ps_call (Call_mark a i now) s = snd (ps_check_and_mark s a i now)"

text \<open>The CA stores subscriptions with a handler only.\<close>

fun call_ok :: "store_call \<Rightarrow> bool" where
  "call_ok (Call_put sub) = (sub_handler sub \<noteq> HandlerId_NONE)"
| "call_ok _ = True"

lemma ps_call_inv: "ps_inv s \<Longrightarrow> call_ok call \<Longrightarrow> ps_inv (ps_call call s)"
  by (cases call) (simp_all add: ps_provision_inv reconcile_agents_inv ps_set_environment_inv ps_put_subscription_inv
      ps_claim_subscription_inv ps_check_and_mark_inv)

lemma ps_calls_inv: "ps_inv s \<Longrightarrow> list_all call_ok calls \<Longrightarrow> ps_inv (fold ps_call calls s)"
  by (induction calls arbitrary: s) (simp_all add: ps_call_inv)

lemma ps_limits_try:
  "(\<And>x. ps_limits (snd (k x s)) = ps_limits s) \<Longrightarrow> ps_limits (snd (tryS (r, s) k)) = ps_limits s"
  by (cases r) simp_all

lemma ps_limits_claimed: "ps_limits (snd (tryS (ps_commit s st) (\<lambda>_ s. (Inr (b :: bool), s)))) = ps_limits s"
  using ps_commit_state(2) [of s st] by (auto simp: tryS_def split: prod.splits sum.splits)

lemma ps_limits_call [simp]: "ps_limits (ps_call call s) = ps_limits s"
proof (cases call)
  case (Call_reconcile cfg)
  then show ?thesis by (auto simp: reconcile_agents_def Let_def ps_commit_state(2) intro!: ps_limits_try)
qed (auto simp: ps_provision_def ps_set_environment_def ps_put_subscription_def ps_claim_subscription_def
    ps_check_and_mark_def ps_commit_state(2) ps_limits_claimed Let_def case_prod_unfold intro!: ps_limits_try
    split: option.splits)

lemma ps_limits_calls [simp]: "ps_limits (fold ps_call calls s) = ps_limits s"
  by (induction calls arbitrary: s) simp_all

text \<open>The memory store under the same calls; it has no reconciliation.\<close>

fun mem_call :: "store_call \<Rightarrow> MemoryStore \<Rightarrow> MemoryStore" where
  "mem_call (Call_provision agent keys) s = snd (mem_provision s agent keys)"
| "mem_call (Call_reconcile cfg) s = s"
| "mem_call (Call_set_environment agent e) s = snd (mem_set_environment s agent e)"
| "mem_call (Call_put sub) s = snd (mem_put_subscription s sub)"
| "mem_call (Call_claim sub) s = snd (mem_claim_subscription s sub)"
| "mem_call (Call_mark a i now) s = snd (mem_check_and_mark s a i now)"

definition mem_inv :: "StoreLimits \<Rightarrow> MemoryStore \<Rightarrow> bool" where
  "mem_inv limits s \<longleftrightarrow> mem_limits s = limits \<and>
     bt_wf (mem_keys s) \<and> bt_len (mem_keys s) \<le> limit_agents limits \<and> bt_get (mem_keys s) AgentId_CA = None \<and>
     bt_wf (mem_environments s) \<and> bt_len (mem_environments s) \<le> limit_environments limits \<and>
     bt_wf (mem_subscriptions s) \<and> subscription_count (mem_subscriptions s) \<le> limit_subscriptions limits \<and>
     bt_wf (cache_entries (mem_replay s)) \<and> bt_len (cache_entries (mem_replay s)) \<le> limit_replays limits \<and>
     cache_maximum (mem_replay s) = limit_replays limits"

lemma mem_claim_wf:
  assumes "mem_inv limits s"
  shows "mem_inv limits (snd (mem_claim_subscription s sub))"
proof -
  let ?m = "mem_subscriptions s"
  have "subscription_count (bt_insert (sub_type_id sub) (remove1 sub b) ?m) \<le> limit_subscriptions limits"
    if "bt_get ?m (sub_type_id sub) = Some b" for b
  proof -
    have "subscription_count (bt_insert (sub_type_id sub) (remove1 sub b) ?m) + length b =
        subscription_count ?m + length (remove1 sub b)"
      using subscription_count_insert [of ?m "sub_type_id sub" "remove1 sub b"] that assms
      by (simp add: mem_inv_def bucket_of_def)
    moreover have "length (remove1 sub b) \<le> length b" by (simp add: length_remove1)
    ultimately show ?thesis using assms unfolding mem_inv_def by linarith
  qed
  with assms show ?thesis
    by (auto simp: mem_claim_subscription_def mem_inv_def split: option.splits)
qed

lemma mem_call_inv:
  assumes "mem_inv limits s"
  shows "mem_inv limits (mem_call call s)"
proof (cases call)
  case (Call_put sub)
  obtain r m where "upsert_subscription (limit_subscriptions (mem_limits s)) sub (mem_subscriptions s) = (r, m)" by fastforce
  with upsert_subscription_wf [OF this] assms Call_put show ?thesis
    by (auto simp: mem_put_subscription_def mem_inv_def)
next
  case (Call_mark a i now)
  obtain r c where "cache_check_and_mark (mem_replay s) a i now = (r, c)" by fastforce
  with assms Call_mark cache_mark_bounded [of "mem_replay s" a i now] cache.maximum_mark [of "mem_replay s" a i now]
  show ?thesis by (simp add: mem_check_and_mark_def mem_inv_def)
qed (use assms bt.bounded_insert [of "mem_keys s"] bt.bounded_insert [of "mem_environments s"] mem_claim_wf in
    \<open>auto simp: mem_provision_def mem_set_environment_def mem_inv_def bt_contains_key_def not_le\<close>)

lemma mem_inv_new: "mem_inv limits (MemoryStore_new limits)"
  by (simp add: mem_inv_def MemoryStore_new_def ReplayCache_new_def) (simp add: subscription_count_def bt_empty_def)

lemma mem_calls_inv: "mem_inv limits s \<Longrightarrow> mem_inv limits (fold mem_call calls s)"
  by (induction calls arbitrary: s) (simp_all add: mem_call_inv)

lemma subscription_count_nonempty: "subscription_count (bt_retain (\<lambda>_ bucket. bucket \<noteq> []) m) = subscription_count m"
  by (induction m) (auto simp: subscription_count_def bt_retain_def)

lemma state_layout_compact: "state_layout (compact st) = state_layout st"
proof -
  have "all_subscriptions (bt_retain (\<lambda>_ bucket. bucket \<noteq> []) m) = all_subscriptions m" for m
    by (induction m) (auto simp: all_subscriptions_def bt_retain_def)
  then show ?thesis by (simp add: state_layout_def compact_def subscription_count_nonempty)
qed

lemma compact_wf: "state_wf limits st \<Longrightarrow> state_wf limits (compact st)"
  unfolding state_wf_def compact_def by (auto simp: subscription_count_nonempty) (auto simp: bt_retain_def)

section \<open>Properties\<close>

text \<open>C20: the snapshot encoding loses nothing a client can see. Every well-formed state is encoded, and
  decoding the bytes under the same limits gives a state with the same keys, the same environments, the same replay
  memory and, for every type, the same subscriptions in the same order; encoding it again gives the same
  bytes. What is dropped is exactly the table's entries for types without subscriptions, so a state without such
  entries comes back as it was.\<close>

theorem snapshot_roundtrip:
  assumes "state_wf limits st" "limits_ok limits"
  shows "\<exists>bs st'. encode_state st = Inr bs \<and> decode_state bs limits = Inr st' \<and> encode_state st' = Inr bs \<and>
    state_keys st' = state_keys st \<and> state_environments st' = state_environments st \<and> state_replay st' = state_replay st \<and>
    bucket_of (state_subscriptions st') = bucket_of (state_subscriptions st) \<and>
    state_subscriptions st' = filter (\<lambda>(_, bucket). bucket \<noteq> []) (state_subscriptions st) \<and>
    ((\<forall>(_, bucket)\<in>set (state_subscriptions st). bucket \<noteq> []) \<longrightarrow> st' = st)"
proof -
  have wf: "bt_wf (state_subscriptions st)" using assms(1) by (simp add: state_wf_def)
  have "encode_state (compact st) = Inr (state_layout st)"
    using encode_state_layout [OF compact_wf [OF assms(1)] assms(2)] by (simp add: state_layout_compact)
  moreover have "compact st = st" if "\<forall>(_, bucket)\<in>set (state_subscriptions st). bucket \<noteq> []"
    using that by (auto simp: compact_def bt_retain_def filter_id_conv)
  ultimately show ?thesis
    using encode_state_layout [OF assms] decode_encode_state [OF assms] bucket_of_compact [OF wf]
    by (intro exI [of _ "state_layout st"] exI [of _ "compact st"]) (auto simp: compact_def bt_retain_def case_prod_unfold)
qed

text \<open>A state with an entry in every table, and an empty bucket.\<close>

definition full_state :: PersistentState where
  "full_state = \<lparr>state_keys = [(AgentId 5, \<lparr>public_ed25519 = 3, public_x25519 = 4\<rparr>)],
     state_environments = [(AgentId 5, operation_bytes (SetEnvironment []))],
     state_subscriptions = [(TypeId 7, []),
       (TypeId 8, [\<lparr>sub_subscriber = AgentId 5, sub_type_id = TypeId 8, sub_handler = HandlerId 9, sub_kind = OneShot,
          sub_encoded = operation_bytes (Subscribe (TypeId 8) [])\<rparr>])],
     state_replay = (ReplayCache_new (limit_replays StoreLimits_default) (limit_replay_ttl_seconds StoreLimits_default))
       \<lparr>cache_entries := [((AgentId 5, SessionId 6), 100)]\<rparr>\<rparr>"

lemma full_state_wf: "state_wf StoreLimits_default full_state"
proof -
  have "is_environment (operation_bytes (SetEnvironment []))"
    using parse_operation_print [of "SetEnvironment []"] by (simp add: is_environment_def attributes_valid_def del: operation_bytes.simps)
  moreover have "kind_of (operation_bytes (Subscribe (TypeId 8) [])) (TypeId 8) = Some OneShot"
    using parse_operation_print [of "Subscribe (TypeId 8) []"] by (simp add: kind_of_def clauses_valid_def del: operation_bytes.simps)
  ultimately show ?thesis
    by (simp add: state_wf_def full_state_def bt_wf_def bt_len_def bt_get_def stored_ok_def subscription_count_def
        ReplayCache_new_def StoreLimits_default_def DEFAULT_MAX_AGENTS_def DEFAULT_MAX_ENVIRONMENTS_def
        DEFAULT_MAX_SUBSCRIPTIONS_def DEFAULT_MAX_REPLAYS_def AgentId_CA_def HandlerId_NONE_def less_TypeId_def
        del: operation_bytes.simps)
qed

lemma default_limits_ok: "limits_ok StoreLimits_default"
  by (simp add: limits_ok_def StoreLimits_default_def DEFAULT_MAX_AGENTS_def DEFAULT_MAX_ENVIRONMENTS_def
      DEFAULT_MAX_SUBSCRIPTIONS_def DEFAULT_MAX_REPLAYS_def)

theorem snapshot_roundtrip_witness:
  "\<exists>bs st'. encode_state full_state = Inr bs \<and> decode_state bs StoreLimits_default = Inr st' \<and>
     bt_get (state_keys st') (AgentId 5) = Some \<lparr>public_ed25519 = 3, public_x25519 = 4\<rparr> \<and>
     map sub_handler (bucket_of (state_subscriptions st') (TypeId 8)) = [HandlerId 9] \<and>
     length (state_subscriptions st') = 1 \<and> cache_entries (state_replay st') = [((AgentId 5, SessionId 6), 100)]"
  using snapshot_roundtrip [OF full_state_wf default_limits_ok]
  by (elim exE conjE) (intro exI conjI, assumption, assumption, simp_all add: full_state_def bt_get_def bucket_of_def)



text \<open>C40: a failed commit blocks the store. Once a commit fails after it created the temporary file,
  that file stays, and because it is opened with \<open>create_new\<close> every later commit is refused, even
  when the file system works again: no mutation succeeds until an operator removes the file.\<close>

theorem stale_temporary_blocks_commits:
  assumes "temporary_path (ps_files s) \<noteq> None"
  shows "\<not> is_ok (fst (ps_commit s st)) \<and> ps_state (snd (ps_commit s st)) = ps_state s \<and>
    temporary_path (ps_files (snd (ps_commit s st))) \<noteq> None"
  using assms
  by (cases "encode_state st") (auto simp: ps_commit_def snapshot_commit_def Let_def split: list.splits)

theorem stale_temporary_witness:
  "let s = \<lparr>ps_state = empty_state StoreLimits_default, ps_files = \<lparr>snapshot_path = None, temporary_path = None\<rparr>,
       ps_limits = StoreLimits_default, ps_faults = [no_faults\<lparr>fault_sync := True\<rparr>]\<rparr>;
     s1 = snd (ps_check_and_mark s (AgentId 1) (SessionId 2) 3)
   in ps_faults s1 = [] \<and> \<not> is_ok (fst (ps_commit s1 (empty_state StoreLimits_default)))"
proof -
  let ?s = "\<lparr>ps_state = empty_state StoreLimits_default, ps_files = \<lparr>snapshot_path = None, temporary_path = None\<rparr>,
       ps_limits = StoreLimits_default, ps_faults = [no_faults\<lparr>fault_sync := True\<rparr>]\<rparr>"
  let ?s1 = "snd (ps_check_and_mark ?s (AgentId 1) (SessionId 2) 3)"
  have "temporary_path (ps_files ?s1) \<noteq> None \<and> ps_faults ?s1 = []"
    by (simp add: ps_check_and_mark_def empty_state_def cache_check_and_mark_def ReplayCache_new_def bt_retain_def
        bt_empty_def bt_contains_key_def bt_get_def bt_len_def StoreLimits_default_def DEFAULT_MAX_REPLAYS_def
        ps_commit_def encode_state_def push_u32_def subscription_count_def snapshot_commit_def no_faults_def
        STATE_MAGIC_def SNAPSHOT_MAX_def ascii_def)
  with stale_temporary_blocks_commits [of ?s1] show ?thesis by simp
qed

text \<open>The stores stay within their limits: after any history of calls on a new memory store, the
  agents, environments, subscriptions and replay entries are within the configured limits, and
  the CA identity is never provisioned.\<close>

theorem memory_store_bounded:
  "mem_inv limits (fold mem_call calls (MemoryStore_new limits))"
  by (rule mem_calls_inv [OF mem_inv_new])

text \<open>The state after a successful reconciliation.\<close>

definition unchanged_agent :: "PersistentState \<Rightarrow> (AgentId \<times> PublicKeys) list \<Rightarrow> AgentId \<Rightarrow> bool" where
  "unchanged_agent st cfg a \<longleftrightarrow> bt_get (state_keys st) a \<noteq> None \<and> bt_get (state_keys st) a = map_of cfg a"

lemma bt_wf_map_values: "bt_wf (map (\<lambda>(t, b). (t, g b)) m) \<longleftrightarrow> bt_wf m"
  by (simp add: bt_wf_def sorted_wrt_map case_prod_unfold)

lemma bucket_of_map_values:
  assumes "g [] = []"
  shows "bucket_of (map (\<lambda>(t, b). (t, g b)) m) t = g (bucket_of m t)"
  using assms by (induction m) (auto simp: bucket_of_def bt_get_def)

lemma reconcile_state:
  assumes "fst (reconcile_agents s cfg) = Inr ()"
  shows "\<exists>ks. bt_get ks = map_of cfg \<and> ps_state (snd (reconcile_agents s cfg)) =
    (let st = ps_state s in
     \<lparr>state_keys = ks, state_environments = bt_retain (\<lambda>agent _. unchanged_agent st cfg agent) (state_environments st),
      state_subscriptions = bt_retain (\<lambda>_ bucket. bucket \<noteq> [])
        (map (\<lambda>(t, b). (t, filter (\<lambda>sub. unchanged_agent st cfg (sub_subscriber sub)) b)) (state_subscriptions st)),
      state_replay = (state_replay st)\<lparr>cache_entries :=
        bt_retain (\<lambda>(agent, _) _. unchanged_agent st cfg agent) (cache_entries (state_replay st))\<rparr>\<rparr>)"
proof -
  from assms obtain ks where ks: "length cfg \<le> limit_agents (ps_limits s)" "reconcile_keys cfg bt_empty = Inr ks"
    by (cases "reconcile_keys cfg bt_empty") (auto simp: reconcile_agents_def split: if_splits)
  have get: "bt_get ks = map_of cfg"
    using reconcile_keys_get [OF ks(2)] by (auto simp: fun_eq_iff split: option.splits)
  let ?st = "ps_state s" and ?st' = "ps_state (snd (reconcile_agents s cfg))"
  let ?un = "unchanged_agent ?st cfg"
  have un: "(case bt_get (state_keys ?st) a of None \<Rightarrow> False
      | Some old \<Rightarrow> (case bt_get ks a of None \<Rightarrow> False | Some new \<Rightarrow> old = new)) = ?un a" for a
    by (auto simp: get unchanged_agent_def split: option.splits)
  let ?next = "\<lparr>state_keys = ks, state_environments = bt_retain (\<lambda>agent _. ?un agent) (state_environments ?st),
    state_subscriptions = bt_retain (\<lambda>_ bucket. bucket \<noteq> [])
      (map (\<lambda>(t, b). (t, filter (\<lambda>sub. ?un (sub_subscriber sub)) b)) (state_subscriptions ?st)),
    state_replay = (state_replay ?st)\<lparr>cache_entries :=
      bt_retain (\<lambda>(agent, _) _. ?un agent) (cache_entries (state_replay ?st))\<rparr>\<rparr>"
  have "reconcile_agents s cfg = ps_commit s ?next"
    using ks unfolding reconcile_agents_def Let_def by (simp add: un del: not_None_eq)
  with assms have st': "?st' = ?next" using ps_commit_state(1) [of s ?next] by simp
  with get show ?thesis by (auto simp: Let_def)
qed

text \<open>C26: reconciling is a revocation, and nothing else. When it succeeds, the directory is exactly the configured
  one, and what remains of environments, subscriptions and replay entries is exactly what belonged to
  agents whose keys are the same before and after: their environments and replay entries with the same
  contents, their subscriptions under every type in the same order. No type is left with an empty bucket.\<close>

theorem reconcile_revokes:
  assumes "fst (reconcile_agents s cfg) = Inr ()" "bt_wf (state_environments (ps_state s))"
    "bt_wf (state_subscriptions (ps_state s))" "bt_wf (cache_entries (state_replay (ps_state s)))"
  shows "let st = ps_state s; st' = ps_state (snd (reconcile_agents s cfg));
      unchanged = (\<lambda>a. bt_get (state_keys st) a \<noteq> None \<and> bt_get (state_keys st) a = map_of cfg a) in
    bt_get (state_keys st') = map_of cfg \<and>
    (\<forall>a. bt_get (state_environments st') a = (if unchanged a then bt_get (state_environments st) a else None)) \<and>
    (\<forall>t. bucket_of (state_subscriptions st') t = filter (\<lambda>sub. unchanged (sub_subscriber sub)) (bucket_of (state_subscriptions st) t)) \<and>
    (\<forall>(t, bucket)\<in>set (state_subscriptions st'). bucket \<noteq> [] \<and> (\<forall>sub\<in>set bucket. unchanged (sub_subscriber sub))) \<and>
    (\<forall>a i. bt_get (cache_entries (state_replay st')) (a, i) =
       (if unchanged a then bt_get (cache_entries (state_replay st)) (a, i) else None))"
proof -
  let ?st = "ps_state s" and ?st' = "ps_state (snd (reconcile_agents s cfg))"
  let ?un = "\<lambda>a. bt_get (state_keys ?st) a \<noteq> None \<and> bt_get (state_keys ?st) a = map_of cfg a"
  let ?kept = "filter (\<lambda>sub. ?un (sub_subscriber sub))"
  obtain ks where get: "bt_get ks = map_of cfg" and st': "?st' = \<lparr>state_keys = ks,
    state_environments = bt_retain (\<lambda>agent _. ?un agent) (state_environments ?st),
    state_subscriptions = bt_retain (\<lambda>_ bucket. bucket \<noteq> []) (map (\<lambda>(t, b). (t, ?kept b)) (state_subscriptions ?st)),
    state_replay = (state_replay ?st)\<lparr>cache_entries :=
      bt_retain (\<lambda>(agent, _) _. ?un agent) (cache_entries (state_replay ?st))\<rparr>\<rparr>"
    using reconcile_state [OF assms(1)] unfolding Let_def unchanged_agent_def by blast
  have "bt_get (state_keys ?st') = map_of cfg" by (simp add: st' get)
  moreover have "bt_get (state_environments ?st') a = (if ?un a then bt_get (state_environments ?st) a else None)" for a
    unfolding st' using assms(2) by (auto simp: bt.get_retain split: option.splits)
  moreover have "bucket_of (state_subscriptions ?st') t = ?kept (bucket_of (state_subscriptions ?st) t)" for t
  proof -
    have "bt_wf (map (\<lambda>(t, b). (t, ?kept b)) (state_subscriptions ?st))"
      using assms(3) by (simp only: bt_wf_map_values)
    from bucket_of_compact [OF this] show ?thesis by (simp add: st' bucket_of_map_values)
  qed
  moreover have "\<forall>(t, bucket)\<in>set (state_subscriptions ?st'). bucket \<noteq> [] \<and> (\<forall>sub\<in>set bucket. ?un (sub_subscriber sub))"
    unfolding st' by (auto simp: bt_retain_def) (metis)
  moreover have "bt_get (cache_entries (state_replay ?st')) (a, i) =
      (if ?un a then bt_get (cache_entries (state_replay ?st)) (a, i) else None)" for a i
    unfolding st' using assms(4) by (auto simp: bt.get_retain split: option.splits)
  ultimately show ?thesis unfolding Let_def by blast
qed

definition rotated_subscription :: "AgentId \<Rightarrow> StoredSubscription" where
  "rotated_subscription a = \<lparr>sub_subscriber = a, sub_type_id = TypeId 8, sub_handler = HandlerId 9, sub_kind = Permanent, sub_encoded = [3]\<rparr>"

definition rotated_store :: PersistentStore where
  "rotated_store = \<lparr>ps_state = (empty_state StoreLimits_default)
       \<lparr>state_keys := [(AgentId 1, \<lparr>public_ed25519 = 3, public_x25519 = 4\<rparr>),
                       (AgentId 2, \<lparr>public_ed25519 = 5, public_x25519 = 6\<rparr>)],
        state_environments := [(AgentId 1, [1, 0]), (AgentId 2, [1, 0])],
        state_subscriptions := [(TypeId 8, [rotated_subscription (AgentId 2), rotated_subscription (AgentId 1)])]\<rparr>,
     ps_files = \<lparr>snapshot_path = None, temporary_path = None\<rparr>, ps_limits = StoreLimits_default, ps_faults = []\<rparr>"

definition rotated_config :: "(AgentId \<times> PublicKeys) list" where
  "rotated_config = [(AgentId 1, \<lparr>public_ed25519 = 3, public_x25519 = 4\<rparr>),
     (AgentId 2, \<lparr>public_ed25519 = 7, public_x25519 = 6\<rparr>)]"

lemma rotated_reconcile: "fst (reconcile_agents rotated_store rotated_config) = Inr ()"
  by (simp add: rotated_store_def rotated_config_def reconcile_agents_def empty_state_def ReplayCache_new_def bt_retain_def
      bt_empty_def bt_contains_key_def bt_get_def bt_len_def StoreLimits_default_def DEFAULT_MAX_AGENTS_def
      AgentId_CA_def less_AgentId_def ps_commit_def encode_state_def push_bytes_def push_u32_def subscription_count_def
      snapshot_commit_def no_faults_def STATE_MAGIC_def SNAPSHOT_MAX_def rotated_subscription_def)

theorem reconcile_revokes_witness:
  "let st' = ps_state (snd (reconcile_agents rotated_store rotated_config)) in
     bt_get (state_environments st') (AgentId 1) = Some [1, 0] \<and> bt_get (state_environments st') (AgentId 2) = None \<and>
     map sub_subscriber (bucket_of (state_subscriptions st') (TypeId 8)) = [AgentId 1]"
  using reconcile_revokes [OF rotated_reconcile] unfolding Let_def
  by (simp add: rotated_store_def rotated_config_def empty_state_def ReplayCache_new_def bt_get_def bt_wf_def
      less_AgentId_def bt_empty_def rotated_subscription_def bucket_of_def)

end
