(* ===== verification/Disk.thy ===== *)
theory Disk
  imports Persistence
begin

text \<open>
  The store on a disk that works: how large a snapshot can become, and the reasons for which a call can still be
  refused.
\<close>

section \<open>The size of a snapshot\<close>

lemma value_bytes_bound: "value_valid v \<Longrightarrow> length (value_bytes v) \<le> 67"
  by (cases v) (auto simp: bytes_u16_bytes_def const_defs)

lemma length_concat_bound: "\<forall>x\<in>set xs. length (f x) \<le> n \<Longrightarrow> length (concat (map f xs)) \<le> length xs * n"
  by (induction xs) force+

lemma stored_lengths:
  assumes "operation_valid op"
  shows "case op of SetEnvironment _ \<Rightarrow> length (operation_bytes op) \<le> 1106
    | Subscribe _ _ \<Rightarrow> length (operation_bytes op) \<le> 566 | SubscribePermanent _ _ \<Rightarrow> length (operation_bytes op) \<le> 566 | _ \<Rightarrow> True"
proof -
  have clauses: "length (predicate_wire cs) \<le> 561" if "clauses_valid cs" for cs
  proof -
    have "length (concat (map clause_bytes cs)) \<le> length cs * 70"
      using that by (intro length_concat_bound) (auto simp: clauses_valid_def clause_bytes_def dest: value_bytes_bound)
    with that show ?thesis by (simp add: predicate_wire_def clauses_valid_def const_defs)
  qed
  have "length (concat (map attribute_bytes as)) \<le> 1104" if "attributes_valid as" for as
  proof -
    have "length (concat (map attribute_bytes as)) \<le> length as * 69"
      using that by (intro length_concat_bound) (auto simp: attributes_valid_def attribute_bytes_def dest: value_bytes_bound)
    with that show ?thesis by (simp add: attributes_valid_def const_defs)
  qed
  with clauses assms show ?thesis by (cases op) (auto dest!: clauses)
qed

lemma environment_stored_length:
  assumes "is_environment e"
  shows "length e \<le> 1106"
proof -
  from assms obtain env where "parse_operation e = Inr (Op_SetEnvironment env)"
    by (auto simp: is_environment_def split: sum.splits OperationRef.splits)
  from parse_operation_sound [OF this] obtain op where op: "operation_valid op" "e = operation_bytes op" "Op_SetEnvironment env = operation_ref op"
    by blast
  from op(3) obtain as where "op = SetEnvironment as" by (cases op) simp_all
  with op stored_lengths [OF op(1)] show ?thesis by (simp del: operation_bytes.simps)
qed

lemma subscription_stored_length:
  assumes "kind_of e t = Some k"
  shows "length e \<le> 566"
proof -
  from assms obtain ref where ref: "parse_operation e = Inr ref" "\<exists>t p. ref = Op_Subscribe t p \<or> ref = Op_SubscribePermanent t p"
    by (auto simp: kind_of_def split: sum.splits OperationRef.splits)
  from parse_operation_sound [OF ref(1)] obtain op where op: "operation_valid op" "e = operation_bytes op" "ref = operation_ref op"
    by blast
  from op(3) ref(2) have "\<exists>t cs. op = Subscribe t cs \<or> op = SubscribePermanent t cs" by (cases op) auto
  with op stored_lengths [OF op(1)] show ?thesis by (auto simp del: operation_bytes.simps)
qed

definition snapshot_bound :: "StoreLimits \<Rightarrow> nat" where
  "snapshot_bound limits =
     24 + 80 * limit_agents limits + 1126 * limit_environments limits + 606 * limit_subscriptions limits + 40 * limit_replays limits"

lemma state_layout_bound:
  assumes "state_wf limits st"
  shows "length (state_layout st) \<le> snapshot_bound limits"
proof -
  let ?subs = "all_subscriptions (state_subscriptions st)"
  have keys: "length (concat (map key_bytes (state_keys st))) \<le> bt_len (state_keys st) * 80"
    unfolding bt_len_def by (intro length_concat_bound) auto
  have environments: "length (concat (map environment_entry_bytes (state_environments st))) \<le> bt_len (state_environments st) * 1126"
    unfolding bt_len_def using assms environment_stored_length
    by (intro length_concat_bound) (auto simp: state_wf_def blob_bytes_def count_bytes_def)
  have replays: "length (concat (map replay_bytes (cache_entries (state_replay st)))) \<le> bt_len (cache_entries (state_replay st)) * 40"
    unfolding bt_len_def by (intro length_concat_bound) auto
  have "stored_ok sub" if "sub \<in> set ?subs" for sub
    using assms that by (fastforce simp: state_wf_def all_subscriptions_def)
  then have subscriptions: "length (concat (map subscription_bytes ?subs)) \<le> length ?subs * 606"
    using subscription_stored_length
    by (intro length_concat_bound) (auto simp: stored_ok_def subscription_bytes_def blob_bytes_def count_bytes_def)
  have count: "length ?subs = subscription_count (state_subscriptions st)"
    unfolding all_subscriptions_def subscription_count_def length_concat map_map by (simp add: comp_def case_prod_unfold)
  have magic: "length STATE_MAGIC = 8" by (simp add: STATE_MAGIC_def ascii_def)
  have limits: "bt_len (state_keys st) \<le> limit_agents limits" "bt_len (state_environments st) \<le> limit_environments limits"
    "subscription_count (state_subscriptions st) \<le> limit_subscriptions limits" "bt_len (cache_entries (state_replay st)) \<le> limit_replays limits"
    using assms by (simp_all add: state_wf_def)
  have "length (state_layout st) = 24 + length (concat (map key_bytes (state_keys st))) + length (concat (map environment_entry_bytes (state_environments st)))
      + length (concat (map subscription_bytes ?subs)) + length (concat (map replay_bytes (cache_entries (state_replay st))))"
    by (simp add: state_layout_def magic count_bytes_def)
  with keys environments subscriptions replays count limits show ?thesis
    unfolding snapshot_bound_def by linarith
qed

section \<open>A working disk\<close>

text \<open>No call of the file system fails from here on, no temporary file is left over, and every state within the limits fits
  into a snapshot.\<close>

definition ready :: "PersistentStore \<Rightarrow> bool" where
  "ready s \<longleftrightarrow> ps_inv s \<and> snapshot_bound (ps_limits s) \<le> SNAPSHOT_MAX \<and> ps_faults s = [] \<and> temporary_path (ps_files s) = None"

lemma ready_commit:
  assumes "ready s" "state_wf (ps_limits s) st"
  shows "\<exists>s'. ps_commit s st = (Inr (), s') \<and> ready s' \<and> ps_state s' = st \<and> ps_limits s' = ps_limits s"
proof -
  have "encode_state st = Inr (state_layout st)"
    using assms by (intro encode_state_layout [of "ps_limits s"]) (simp_all add: ready_def ps_inv_def)
  moreover have "length (state_layout st) \<le> SNAPSHOT_MAX"
    using state_layout_bound [OF assms(2)] assms(1) by (simp add: ready_def)
  ultimately have commit: "ps_commit s st = (Inr (), s\<lparr>ps_files := \<lparr>snapshot_path = Some (state_layout st), temporary_path = None\<rparr>,
      ps_faults := [], ps_state := st\<rparr>)"
    using assms(1) by (simp add: ready_def ps_commit_def snapshot_commit_def no_faults_def Let_def)
  from ps_commit_inv [of s st] assms commit show ?thesis by (simp add: ready_def)
qed

lemma ready_mark:
  assumes "ready s"
  obtains s' where "ps_check_and_mark s a i now = (fst (cache_check_and_mark (state_replay (ps_state s)) a i now), s')" "ready s'"
    "ps_limits s' = ps_limits s" "ps_state s' = (if is_ok (fst (cache_check_and_mark (state_replay (ps_state s)) a i now))
       then (ps_state s)\<lparr>state_replay := snd (cache_check_and_mark (state_replay (ps_state s)) a i now)\<rparr> else ps_state s)"
proof -
  obtain r replay where c: "cache_check_and_mark (state_replay (ps_state s)) a i now = (r, replay)" by fastforce
  have "state_wf (ps_limits s) (ps_state s)" using assms by (simp add: ready_def ps_inv_def)
  from ready_commit [OF assms state_wf_mark [OF this, of a i now]] c assms that show thesis
    by (cases r) (auto simp: ps_check_and_mark_def)
qed

lemma ready_environment:
  assumes "ready s"
  obtains s' where "snd (ps_set_environment s a e) = s'" "ready s'" "ps_limits s' = ps_limits s"
    "is_ok (fst (ps_set_environment s a e)) \<longleftrightarrow> is_environment e \<and>
       (bt_contains_key (state_environments (ps_state s)) a \<or> bt_len (state_environments (ps_state s)) < limit_environments (ps_limits s))"
    "is_ok (fst (ps_set_environment s a e)) \<longrightarrow>
       ps_state s' = (ps_state s)\<lparr>state_environments := bt_insert a e (state_environments (ps_state s))\<rparr>"
proof (cases "is_environment e \<and>
    (bt_contains_key (state_environments (ps_state s)) a \<or> bt_len (state_environments (ps_state s)) < limit_environments (ps_limits s))")
  case True
  have "state_wf (ps_limits s) (ps_state s)" using assms by (simp add: ready_def ps_inv_def)
  from ready_commit [OF assms state_wf_environment [OF this, of e a]] True that show thesis
    by (auto simp: ps_set_environment_def Let_def)
next
  case False
  with assms that show thesis by (auto simp: ps_set_environment_def Let_def)
qed

lemma ready_put:
  assumes "ready s" "sub_handler sub \<noteq> HandlerId_NONE"
  obtains s' where "snd (ps_put_subscription s sub) = s'" "ready s'" "ps_limits s' = ps_limits s"
    "is_ok (fst (ps_put_subscription s sub)) \<longleftrightarrow> kind_of (sub_encoded sub) (sub_type_id sub) = Some (sub_kind sub) \<and>
       (list_ex (same_slot sub) (bucket_of (state_subscriptions (ps_state s)) (sub_type_id sub)) \<or>
        subscription_count (state_subscriptions (ps_state s)) < limit_subscriptions (ps_limits s))"
    "is_ok (fst (ps_put_subscription s sub)) \<longrightarrow> ps_state s' = (ps_state s)\<lparr>state_subscriptions :=
       snd (upsert_subscription (limit_subscriptions (ps_limits s)) sub (state_subscriptions (ps_state s)))\<rparr>"
proof -
  let ?m = "state_subscriptions (ps_state s)"
  obtain r m where u: "upsert_subscription (limit_subscriptions (ps_limits s)) sub ?m = (r, m)" by fastforce
  have slots: "replace_first p x xs = None \<longleftrightarrow> \<not> list_ex p xs" for p x and xs :: "StoredSubscription list"
    by (induction xs) auto
  have r: "is_ok r \<longleftrightarrow> list_ex (same_slot sub) (bucket_of ?m (sub_type_id sub)) \<or> subscription_count ?m < limit_subscriptions (ps_limits s)"
    using u slots [of "same_slot sub" sub "bucket_of ?m (sub_type_id sub)"]
    by (auto simp: upsert_subscription_def Let_def split: option.splits if_splits)
  show thesis
  proof (cases "kind_of (sub_encoded sub) (sub_type_id sub) = Some (sub_kind sub) \<and> is_ok r")
    case True
    have "state_wf (ps_limits s) ((ps_state s)\<lparr>state_subscriptions := m\<rparr>)"
      using assms True u by (intro state_wf_upsert) (auto simp: ready_def ps_inv_def stored_ok_def)
    from ready_commit [OF assms(1) this] True u r that show thesis
      by (auto simp: ps_put_subscription_def Let_def is_ok_iff)
  next
    case False
    with assms u r that show thesis by (cases r) (auto simp: ps_put_subscription_def Let_def)
  qed
qed

lemma ready_claim:
  assumes "ready s"
  obtains s' where "ps_claim_subscription s sub = (Inr (sub \<in> set (bucket_of (state_subscriptions (ps_state s)) (sub_type_id sub))), s')"
    "ready s'" "ps_limits s' = ps_limits s"
proof -
  have wf: "state_wf (ps_limits s) (ps_state s)" using assms by (simp add: ready_def ps_inv_def)
  show thesis
  proof (cases "bt_get (state_subscriptions (ps_state s)) (sub_type_id sub)")
    case None
    with assms that show thesis by (auto simp: ps_claim_subscription_def Let_def bucket_of_def)
  next
    case (Some bucket)
    from ready_commit [OF assms state_wf_claim [OF wf Some, of sub]] Some assms that show thesis
      by (cases "sub_kind sub"; cases "sub \<in> set bucket") (auto simp: ps_claim_subscription_def Let_def bucket_of_def)
  qed
qed

lemma ready_fresh:
  assumes "limits_ok limits" "snapshot_bound limits \<le> SNAPSHOT_MAX"
  shows "ready \<lparr>ps_state = empty_state limits, ps_files = \<lparr>snapshot_path = None, temporary_path = None\<rparr>, ps_limits = limits, ps_faults = []\<rparr>"
  using assms
  by (simp add: ready_def ps_inv_def on_disk_def state_wf_def empty_state_def ReplayCache_new_def bt_empty_def bt_wf_def bt_len_def
      bt_get_def subscription_count_def)

lemma default_limits: "limits_ok StoreLimits_default" "snapshot_bound StoreLimits_default \<le> SNAPSHOT_MAX"
  by (simp_all add: limits_ok_def snapshot_bound_def SNAPSHOT_MAX_def StoreLimits_default_def DEFAULT_MAX_AGENTS_def DEFAULT_MAX_ENVIRONMENTS_def
      DEFAULT_MAX_SUBSCRIPTIONS_def DEFAULT_MAX_REPLAYS_def)

section \<open>Properties\<close>



end
