(* ===== verification/Broker.thy ===== *)
theory Broker
  imports Codec Btree
begin

text \<open>
  \<open>broker-core/src/lib.rs\<close>: the routing core of the broker. Agent requests go to one bounded queue
  that feeds the CA link; CA deliveries go to the recipient's live queue or, when it is not
  connected, to its bounded offline queue.

  The bounded channels of tokio are a parameter: the record \<open>mpsc\<close> holds the operations the router
  calls, \<open>mpsc_laws\<close> what their documentation promises, \<open>fifo_mpsc\<close> shows that it can hold. Both
  ends of a channel share its state, so the router keeps a store of channels and a sender or
  receiver is an address in it. Each method runs under the router's lock, so it is one step;
  only \<open>route_ca_delivery\<close> releases the lock half way, and it is split there; the executions of \<open>Brokerd\<close>
  are made of the two halves.
\<close>

section \<open>Channels\<close>

datatype TrySendError = Full | Closed

record 'c mpsc =
  mpsc_channel :: "usize \<Rightarrow> 'c"
  mpsc_try_send :: "'c \<Rightarrow> bytes \<Rightarrow> (TrySendError + unit) \<times> 'c"
  mpsc_try_recv :: "'c \<Rightarrow> bytes option \<times> 'c"

record channel_view =
  channel_queue :: "bytes list"
  channel_capacity :: usize
  channel_closed :: bool

definition mpsc_laws :: "'c mpsc \<Rightarrow> ('c \<Rightarrow> channel_view) \<Rightarrow> bool" where
  "mpsc_laws Q view \<longleftrightarrow>
     (\<forall>n > 0. view (mpsc_channel Q n) = \<lparr>channel_queue = [], channel_capacity = n, channel_closed = False\<rparr>) \<and>
     (\<forall>ch frame. let (r, ch') = mpsc_try_send Q ch frame in
        if channel_closed (view ch) then r = Inl Closed \<and> view ch' = view ch
        else if channel_capacity (view ch) \<le> length (channel_queue (view ch)) then r = Inl Full \<and> view ch' = view ch
        else r = Inr () \<and> view ch' = (view ch)\<lparr>channel_queue := channel_queue (view ch) @ [frame]\<rparr>) \<and>
     (\<forall>ch. let (r, ch') = mpsc_try_recv Q ch in
        case channel_queue (view ch) of [] \<Rightarrow> r = None \<and> view ch' = view ch
        | frame # rest \<Rightarrow> r = Some frame \<and> view ch' = (view ch)\<lparr>channel_queue := rest\<rparr>)"

definition fifo_mpsc :: "channel_view mpsc" where
  "fifo_mpsc = \<lparr>mpsc_channel = (\<lambda>n. \<lparr>channel_queue = [], channel_capacity = n, channel_closed = False\<rparr>),
     mpsc_try_send = (\<lambda>ch frame.
       if channel_closed ch then (Inl Closed, ch)
       else if channel_capacity ch \<le> length (channel_queue ch) then (Inl Full, ch)
       else (Inr (), ch\<lparr>channel_queue := channel_queue ch @ [frame]\<rparr>)),
     mpsc_try_recv = (\<lambda>ch. case channel_queue ch of [] \<Rightarrow> (None, ch) | frame # rest \<Rightarrow> (Some frame, ch\<lparr>channel_queue := rest\<rparr>))\<rparr>"

lemma fifo_mpsc_laws: "mpsc_laws fifo_mpsc (\<lambda>ch. ch)"
  by (simp add: mpsc_laws_def fifo_mpsc_def split: list.splits)

section \<open>Definitions\<close>

datatype RouteError = Protocol_error Error | ReservedIdentity | DuplicateConnection | ConnectionLimit
  | CaQueueFull | OnlineQueueFull | OfflineQueueFull

definition DEFAULT_MAX_CONNECTIONS :: usize where [const_defs]: "DEFAULT_MAX_CONNECTIONS = 1024"
definition DEFAULT_QUEUE_DEPTH :: usize where [const_defs]: "DEFAULT_QUEUE_DEPTH = 64"
definition DEFAULT_OFFLINE_QUEUE_DEPTH :: usize where [const_defs]: "DEFAULT_OFFLINE_QUEUE_DEPTH = 64"
definition DEFAULT_CA_QUEUE_DEPTH :: usize where [const_defs]: "DEFAULT_CA_QUEUE_DEPTH = 256"

text \<open>The trait \<open>OfflineQueueStore\<close>.\<close>

record 'q OfflineQueueStore =
  offline_enqueue :: "'q \<Rightarrow> AgentId \<Rightarrow> bytes \<Rightarrow> (RouteError + unit) \<times> 'q"
  offline_take :: "'q \<Rightarrow> AgentId \<Rightarrow> bytes list \<times> 'q"
  offline_prepend :: "'q \<Rightarrow> AgentId \<Rightarrow> bytes list \<Rightarrow> (RouteError + unit) \<times> 'q"
  offline_len :: "'q \<Rightarrow> AgentId \<Rightarrow> usize"

record MemoryOfflineQueueStore =
  store_depth :: usize
  store_queues :: "(AgentId, bytes list) btree"

definition MemoryOfflineQueueStore_new :: "usize \<Rightarrow> MemoryOfflineQueueStore" where
  "MemoryOfflineQueueStore_new depth = \<lparr>store_depth = depth, store_queues = bt_empty\<rparr>"

definition queue_of :: "(AgentId, bytes list) btree \<Rightarrow> AgentId \<Rightarrow> bytes list" where
  "queue_of queues identity = (case bt_get queues identity of None \<Rightarrow> [] | Some queue \<Rightarrow> queue)"

definition memory_enqueue ::
  "MemoryOfflineQueueStore \<Rightarrow> AgentId \<Rightarrow> bytes \<Rightarrow> (RouteError + unit) \<times> MemoryOfflineQueueStore" where
  "memory_enqueue s identity frame =
     (if store_depth s = 0 then (Inl OfflineQueueFull, s)
      else
        let queue = queue_of (store_queues s) identity;
            s = s\<lparr>store_queues := bt_insert identity queue (store_queues s)\<rparr> in
        if length queue \<ge> store_depth s then (Inl OfflineQueueFull, s)
        else (Inr (), s\<lparr>store_queues := bt_insert identity (queue @ [frame]) (store_queues s)\<rparr>))"

definition memory_take :: "MemoryOfflineQueueStore \<Rightarrow> AgentId \<Rightarrow> bytes list \<times> MemoryOfflineQueueStore" where
  "memory_take s identity =
     (queue_of (store_queues s) identity, s\<lparr>store_queues := bt_remove identity (store_queues s)\<rparr>)"

definition memory_prepend ::
  "MemoryOfflineQueueStore \<Rightarrow> AgentId \<Rightarrow> bytes list \<Rightarrow> (RouteError + unit) \<times> MemoryOfflineQueueStore" where
  "memory_prepend s identity frames =
     (let frames = frames @ queue_of (store_queues s) identity;
          queues = bt_remove identity (store_queues s);
          overflowed = length frames > store_depth s;
          frames = take (store_depth s) frames;
          s = s\<lparr>store_queues := if frames \<noteq> [] then bt_insert identity frames queues else queues\<rparr> in
      (if overflowed then Inl OfflineQueueFull else Inr (), s))"

definition memory_len :: "MemoryOfflineQueueStore \<Rightarrow> AgentId \<Rightarrow> usize" where
  "memory_len s identity = length (queue_of (store_queues s) identity)"

definition memory_offline :: "MemoryOfflineQueueStore OfflineQueueStore" where
  "memory_offline = \<lparr>offline_enqueue = memory_enqueue, offline_take = memory_take,
     offline_prepend = memory_prepend, offline_len = memory_len\<rparr>"

record Connection =
  connection_generation :: u64
  connection_sender :: nat

record AgentRegistration =
  registration_identity :: AgentId
  registration_generation :: u64
  registration_pending :: "bytes list"
  registration_receiver :: nat

text \<open>The last field is the store of channels; the option \<open>ca_receiver\<close> of the code is a flag.\<close>

record ('c, 'q) BrokerRouter =
  router_connections :: "(AgentId, Connection) btree"
  router_maximum :: usize
  router_online_depth :: usize
  router_offline :: 'q
  router_ca_depth :: usize
  router_generation :: u64
  router_ca_channel :: 'c
  router_ca_receiver :: bool
  router_channels :: "'c list"

definition with_offline_store :: "'c mpsc \<Rightarrow> usize \<Rightarrow> usize \<Rightarrow> usize \<Rightarrow> 'q \<Rightarrow> ('c, 'q) BrokerRouter" where
  "with_offline_store Q maximum online_depth ca_queue_depth offline =
     \<lparr>router_connections = bt_empty, router_maximum = maximum, router_online_depth = online_depth,
      router_offline = offline, router_ca_depth = ca_queue_depth, router_generation = 1,
      router_ca_channel = mpsc_channel Q (max ca_queue_depth 1), router_ca_receiver = True,
      router_channels = []\<rparr>"

definition with_limits ::
  "'c mpsc \<Rightarrow> usize \<Rightarrow> usize \<Rightarrow> usize \<Rightarrow> usize \<Rightarrow> ('c, MemoryOfflineQueueStore) BrokerRouter" where
  "with_limits Q maximum online_depth offline_depth ca_queue_depth =
     with_offline_store Q maximum online_depth ca_queue_depth (MemoryOfflineQueueStore_new offline_depth)"

definition BrokerRouter_new :: "'c mpsc \<Rightarrow> usize \<Rightarrow> usize \<Rightarrow> ('c, MemoryOfflineQueueStore) BrokerRouter" where
  "BrokerRouter_new Q maximum queue_depth = with_limits Q maximum queue_depth queue_depth DEFAULT_CA_QUEUE_DEPTH"

definition take_ca_requests :: "('c, 'q) BrokerRouter \<Rightarrow> bool \<times> ('c, 'q) BrokerRouter" where
  "take_ca_requests r = (router_ca_receiver r, r\<lparr>router_ca_receiver := False\<rparr>)"

definition register ::
  "'c mpsc \<Rightarrow> 'q OfflineQueueStore \<Rightarrow> ('c, 'q) BrokerRouter \<Rightarrow> AgentId
     \<Rightarrow> (RouteError + AgentRegistration) \<times> ('c, 'q) BrokerRouter" where
  "register Q off r identity =
     (if identity = AgentId_CA then (Inl ReservedIdentity, r)
      else if router_maximum r = 0 \<or> router_online_depth r = 0 then (Inl ConnectionLimit, r)
      else if bt_contains_key (router_connections r) identity then (Inl DuplicateConnection, r)
      else if bt_len (router_connections r) \<ge> router_maximum r then (Inl ConnectionLimit, r)
      else
        let generation = router_generation r;
            address = length (router_channels r);
            r = r\<lparr>router_generation := generation + 1,
                  router_channels := router_channels r @ [mpsc_channel Q (router_online_depth r)],
                  router_connections := bt_insert identity
                    \<lparr>connection_generation = generation, connection_sender = address\<rparr> (router_connections r)\<rparr>;
            (pending, offline) = offline_take off (router_offline r) identity in
        (Inr \<lparr>registration_identity = identity, registration_generation = generation,
              registration_pending = pending, registration_receiver = address\<rparr>,
         r\<lparr>router_offline := offline\<rparr>))"

definition is_current :: "('c, 'q) BrokerRouter \<Rightarrow> AgentId \<Rightarrow> u64 \<Rightarrow> bool" where
  "is_current r identity generation =
     (case bt_get (router_connections r) identity of
        None \<Rightarrow> False | Some connection \<Rightarrow> connection_generation connection = generation)"

definition unregister :: "('c, 'q) BrokerRouter \<Rightarrow> AgentId \<Rightarrow> u64 \<Rightarrow> ('c, 'q) BrokerRouter" where
  "unregister r identity generation =
     (if is_current r identity generation
      then r\<lparr>router_connections := bt_remove identity (router_connections r)\<rparr> else r)"

text \<open>\<open>try_recv\<close> on the registration and the channel it holds; \<open>recv_best_effort\<close> waits where this
  returns \<open>None\<close> and otherwise takes the same frame.\<close>

definition try_recv ::
  "'c mpsc \<Rightarrow> ('c, 'q) BrokerRouter \<Rightarrow> AgentRegistration \<Rightarrow> bytes option \<times> AgentRegistration \<times> ('c, 'q) BrokerRouter" where
  "try_recv Q r registration =
     (case registration_pending registration of
        frame # rest \<Rightarrow> (Some frame, registration\<lparr>registration_pending := rest\<rparr>, r)
      | [] \<Rightarrow>
          let address = registration_receiver registration;
              (received, channel) = mpsc_try_recv Q (router_channels r ! address) in
          (received, registration, r\<lparr>router_channels := (router_channels r)[address := channel]\<rparr>))"

partial_function (option) requeue_loop ::
  "'c mpsc \<Rightarrow> ('c, 'q) BrokerRouter \<Rightarrow> AgentRegistration \<Rightarrow> bytes list
     \<Rightarrow> (bytes list \<times> AgentRegistration \<times> ('c, 'q) BrokerRouter) option" where
  "requeue_loop Q r registration unsent =
     (case try_recv Q r registration of
        (None, registration, r) \<Rightarrow> Some (unsent, registration, r)
      | (Some frame, registration, r) \<Rightarrow> requeue_loop Q r registration (unsent @ [frame]))"

text \<open>The drained registration is dropped by its task, so it is not returned.\<close>

definition disconnect_and_requeue ::
  "'c mpsc \<Rightarrow> 'q OfflineQueueStore \<Rightarrow> ('c, 'q) BrokerRouter \<Rightarrow> AgentRegistration \<Rightarrow> bytes option
     \<Rightarrow> ((RouteError + unit) \<times> ('c, 'q) BrokerRouter) option" where
  "disconnect_and_requeue Q off r registration first =
     (let unsent = (case first of None \<Rightarrow> [] | Some frame \<Rightarrow> [frame]);
          identity = registration_identity registration in
      if \<not> is_current r identity (registration_generation registration) then Some (Inr (), r)
      else
        let r = r\<lparr>router_connections := bt_remove identity (router_connections r)\<rparr> in
        case requeue_loop Q r registration unsent of
          None \<Rightarrow> None
        | Some (unsent, registration, r) \<Rightarrow>
            let (result, offline) = offline_prepend off (router_offline r) identity unsent in
            Some (result, r\<lparr>router_offline := offline\<rparr>))"

definition route_agent_request ::
  "'c mpsc \<Rightarrow> ('c, 'q) BrokerRouter \<Rightarrow> AgentId \<Rightarrow> bytes \<Rightarrow> (RouteError + unit) \<times> ('c, 'q) BrokerRouter" where
  "route_agent_request Q r connection_identity frame =
     tryS (map_err Protocol_error (parse_envelope frame), r) (\<lambda>envelope r.
     if envelope_sender envelope \<noteq> connection_identity then (Inl (Protocol_error BadSignature), r)
     else if \<not> (envelope_message_type envelope \<in> {MT_SetEnvironment, MT_Subscribe, MT_SubscribePermanent, MT_Publish} \<and>
                envelope_sender envelope \<noteq> AgentId_CA \<and> envelope_recipient envelope = AgentId_CA)
     then (Inl (Protocol_error WrongMessageType), r)
     else if router_ca_depth r = 0 then (Inl CaQueueFull, r)
     else
       let (sent, channel) = mpsc_try_send Q (router_ca_channel r) frame in
       (map_err (\<lambda>_. CaQueueFull) sent, r\<lparr>router_ca_channel := channel\<rparr>))"

text \<open>The half of \<open>route_ca_delivery\<close> under the lock: it is finished, or the frame is still to be
  stored offline for the recipient.\<close>

datatype delivery_progress = Routed "RouteError + unit" | Store_offline AgentId bytes

definition route_ca_locked ::
  "'c mpsc \<Rightarrow> ('c, 'q) BrokerRouter \<Rightarrow> bytes \<Rightarrow> delivery_progress \<times> ('c, 'q) BrokerRouter" where
  "route_ca_locked Q r frame =
     (case parse_envelope frame of
        Inl e \<Rightarrow> (Routed (Inl (Protocol_error e)), r)
      | Inr envelope \<Rightarrow>
          if envelope_sender envelope \<noteq> AgentId_CA \<or> envelope_recipient envelope = AgentId_CA \<or>
             envelope_message_type envelope \<noteq> MT_PublicationResponse
          then (Routed (Inl (Protocol_error WrongMessageType)), r)
          else
            let recipient = envelope_recipient envelope in
            case bt_get (router_connections r) recipient of
              None \<Rightarrow> (Store_offline recipient frame, r)
            | Some connection \<Rightarrow>
                let address = connection_sender connection;
                    (sent, channel) = mpsc_try_send Q (router_channels r ! address) frame;
                    r = r\<lparr>router_channels := (router_channels r)[address := channel]\<rparr> in
                case sent of
                  Inr _ \<Rightarrow> (Routed (Inr ()), r)
                | Inl Full \<Rightarrow> (Routed (Inl OnlineQueueFull), r)
                | Inl Closed \<Rightarrow>
                    (Store_offline recipient frame,
                     r\<lparr>router_connections := bt_remove recipient (router_connections r)\<rparr>))"

definition route_ca_unlocked ::
  "'q OfflineQueueStore \<Rightarrow> ('c, 'q) BrokerRouter \<Rightarrow> delivery_progress \<Rightarrow> (RouteError + unit) \<times> ('c, 'q) BrokerRouter" where
  "route_ca_unlocked off r progress =
     (case progress of
        Routed result \<Rightarrow> (result, r)
      | Store_offline recipient frame \<Rightarrow>
          let (result, offline) = offline_enqueue off (router_offline r) recipient frame in
          (result, r\<lparr>router_offline := offline\<rparr>))"

definition route_ca_delivery ::
  "'c mpsc \<Rightarrow> 'q OfflineQueueStore \<Rightarrow> ('c, 'q) BrokerRouter \<Rightarrow> bytes \<Rightarrow> (RouteError + unit) \<times> ('c, 'q) BrokerRouter" where
  "route_ca_delivery Q off r frame =
     (let (progress, r) = route_ca_locked Q r frame in route_ca_unlocked off r progress)"

definition route ::
  "'c mpsc \<Rightarrow> 'q OfflineQueueStore \<Rightarrow> ('c, 'q) BrokerRouter \<Rightarrow> AgentId \<Rightarrow> bytes \<Rightarrow> (RouteError + unit) \<times> ('c, 'q) BrokerRouter" where
  "route Q off r connection_identity frame =
     (if connection_identity = AgentId_CA then route_ca_delivery Q off r frame
      else route_agent_request Q r connection_identity frame)"

definition connection_count :: "('c, 'q) BrokerRouter \<Rightarrow> usize" where
  "connection_count r = bt_len (router_connections r)"

section \<open>Offline queues\<close>

text \<open>The contract of the trait, as the router relies on it: one FIFO per agent, of at most \<open>depth\<close>
  frames. A refused frame leaves the queues alone; \<open>prepend\<close> keeps the oldest frames.\<close>

locale offline_queue =
  fixes off :: "'q OfflineQueueStore" and queue :: "'q \<Rightarrow> AgentId \<Rightarrow> bytes list" and depth :: "'q \<Rightarrow> nat" and inv :: "'q \<Rightarrow> bool"
  assumes enqueue_law: "inv s \<Longrightarrow> offline_enqueue off s a frame = (r, s') \<Longrightarrow>
      inv s' \<and> depth s' = depth s \<and>
      (if length (queue s a) < depth s then r = Inr () \<and> queue s' = (queue s)(a := queue s a @ [frame])
       else r = Inl OfflineQueueFull \<and> queue s' = queue s)"
    and take_law: "inv s \<Longrightarrow> offline_take off s a = (frames, s') \<Longrightarrow>
      inv s' \<and> depth s' = depth s \<and> frames = queue s a \<and> queue s' = (queue s)(a := [])"
    and prepend_law: "inv s \<Longrightarrow> offline_prepend off s a frames = (r, s') \<Longrightarrow>
      inv s' \<and> depth s' = depth s \<and> queue s' = (queue s)(a := take (depth s) (frames @ queue s a)) \<and>
      r = (if depth s < length (frames @ queue s a) then Inl OfflineQueueFull else Inr ())"
    and len_law: "inv s \<Longrightarrow> offline_len off s a = length (queue s a)"
    and bounded: "inv s \<Longrightarrow> length (queue s a) \<le> depth s"

definition memory_inv :: "MemoryOfflineQueueStore \<Rightarrow> bool" where
  "memory_inv s \<longleftrightarrow> (\<forall>a. length (queue_of (store_queues s) a) \<le> store_depth s)"

lemma queue_of_simps [simp]:
  "queue_of (bt_insert a frames m) = (queue_of m)(a := frames)" "queue_of (bt_remove a m) = (queue_of m)(a := [])"
  "queue_of bt_empty = (\<lambda>_. [])"
  by (auto simp: queue_of_def fun_eq_iff)

interpretation memory: offline_queue memory_offline "\<lambda>s. queue_of (store_queues s)" store_depth memory_inv
  by unfold_locales
    (auto simp: memory_offline_def memory_enqueue_def memory_take_def memory_prepend_def memory_len_def memory_inv_def Let_def
      split: if_splits)

section \<open>Registrations\<close>

lemma mpsc_new: "mpsc_laws Q view \<Longrightarrow> 0 < n \<Longrightarrow>
    view (mpsc_channel Q n) = \<lparr>channel_queue = [], channel_capacity = n, channel_closed = False\<rparr>"
  by (simp add: mpsc_laws_def)

lemma mpsc_send:
  assumes "mpsc_laws Q view" "mpsc_try_send Q ch frame = (r, ch')"
  shows "if channel_closed (view ch) then r = Inl Closed \<and> view ch' = view ch
    else if channel_capacity (view ch) \<le> length (channel_queue (view ch)) then r = Inl Full \<and> view ch' = view ch
    else r = Inr () \<and> view ch' = (view ch)\<lparr>channel_queue := channel_queue (view ch) @ [frame]\<rparr>"
proof -
  have "let (r, ch') = mpsc_try_send Q ch frame in
      if channel_closed (view ch) then r = Inl Closed \<and> view ch' = view ch
      else if channel_capacity (view ch) \<le> length (channel_queue (view ch)) then r = Inl Full \<and> view ch' = view ch
      else r = Inr () \<and> view ch' = (view ch)\<lparr>channel_queue := channel_queue (view ch) @ [frame]\<rparr>"
    using assms(1) unfolding mpsc_laws_def by blast
  then show ?thesis unfolding assms(2) by simp
qed

lemma mpsc_recv:
  assumes "mpsc_laws Q view" "mpsc_try_recv Q ch = (r, ch')"
  shows "case channel_queue (view ch) of [] \<Rightarrow> r = None \<and> view ch' = view ch
    | frame # rest \<Rightarrow> r = Some frame \<and> view ch' = (view ch)\<lparr>channel_queue := rest\<rparr>"
proof -
  have "let (r, ch') = mpsc_try_recv Q ch in
      case channel_queue (view ch) of [] \<Rightarrow> r = None \<and> view ch' = view ch
      | frame # rest \<Rightarrow> r = Some frame \<and> view ch' = (view ch)\<lparr>channel_queue := rest\<rparr>"
    using assms(1) unfolding mpsc_laws_def by blast
  then show ?thesis unfolding assms(2) by simp
qed

text \<open>The frames a registration still holds, in the order it hands them out.\<close>

definition held :: "('c \<Rightarrow> channel_view) \<Rightarrow> ('c, 'q) BrokerRouter \<Rightarrow> AgentRegistration \<Rightarrow> bytes list" where
  "held view r registration =
     registration_pending registration @ channel_queue (view (router_channels r ! registration_receiver registration))"

text \<open>The router after a call that only worked on the queue of the channel at one address.\<close>

definition only_channel :: "('c \<Rightarrow> channel_view) \<Rightarrow> nat \<Rightarrow> ('c, 'q) BrokerRouter \<Rightarrow> ('c, 'q) BrokerRouter \<Rightarrow> bool" where
  "only_channel view i r r' \<longleftrightarrow> r' = r\<lparr>router_channels := router_channels r'\<rparr> \<and>
     length (router_channels r') = length (router_channels r) \<and>
     (\<forall>j. j \<noteq> i \<longrightarrow> router_channels r' ! j = router_channels r ! j) \<and>
     channel_capacity (view (router_channels r' ! i)) = channel_capacity (view (router_channels r ! i)) \<and>
     channel_closed (view (router_channels r' ! i)) = channel_closed (view (router_channels r ! i))"

lemma only_channel_refl [simp]: "only_channel view i r r"
  by (simp add: only_channel_def)

lemma only_channel_trans:
  assumes "only_channel view i r r1" "only_channel view i r1 r2"
  shows "only_channel view i r r2"
proof -
  have "r2 = r1\<lparr>router_channels := router_channels r2\<rparr>" "r1 = r\<lparr>router_channels := router_channels r1\<rparr>"
    using assms by (simp_all add: only_channel_def)
  then have "r2 = r\<lparr>router_channels := router_channels r2\<rparr>"
    by (metis BrokerRouter.update_convs(9) BrokerRouter.surjective)
  with assms show ?thesis by (simp add: only_channel_def)
qed

lemma only_channel_fields:
  assumes "only_channel view i r r'"
  shows "router_connections r' = router_connections r" "router_maximum r' = router_maximum r"
    "router_online_depth r' = router_online_depth r" "router_offline r' = router_offline r"
    "router_ca_depth r' = router_ca_depth r" "router_generation r' = router_generation r"
    "router_ca_channel r' = router_ca_channel r" "router_ca_receiver r' = router_ca_receiver r"
proof -
  have "r' = r\<lparr>router_channels := router_channels r'\<rparr>" using assms by (simp add: only_channel_def)
  then show "router_connections r' = router_connections r" "router_maximum r' = router_maximum r"
    "router_online_depth r' = router_online_depth r" "router_offline r' = router_offline r"
    "router_ca_depth r' = router_ca_depth r" "router_generation r' = router_generation r"
    "router_ca_channel r' = router_ca_channel r" "router_ca_receiver r' = router_ca_receiver r"
    by (metis BrokerRouter.select_convs BrokerRouter.update_convs(9) BrokerRouter.surjective)+
qed

lemma only_channel_update:
  "i < length (router_channels r) \<Longrightarrow> view ch = (view (router_channels r ! i))\<lparr>channel_queue := q\<rparr> \<Longrightarrow>
     only_channel view i r (r\<lparr>router_channels := (router_channels r)[i := ch]\<rparr>)"
  by (simp add: only_channel_def)

lemma try_recv_held:
  assumes laws: "mpsc_laws Q view" and i: "registration_receiver registration < length (router_channels r)"
    and run: "try_recv Q r registration = (m, registration', r')"
  shows "only_channel view (registration_receiver registration) r r'"
    "registration' = registration\<lparr>registration_pending := registration_pending registration'\<rparr>"
    "case held view r registration of [] \<Rightarrow> m = None \<and> held view r' registration' = []
     | frame # rest \<Rightarrow> m = Some frame \<and> held view r' registration' = rest"
proof -
  let ?i = "registration_receiver registration"
  obtain m' ch where c: "mpsc_try_recv Q (router_channels r ! ?i) = (m', ch)" by fastforce
  note recv = mpsc_recv [OF laws c]
  have "view ch = (view (router_channels r ! ?i))\<lparr>channel_queue := channel_queue (view ch)\<rparr>"
    using recv by (auto split: list.splits)
  then show "only_channel view ?i r r'"
    using run c i only_channel_update [of ?i r view ch] by (auto simp: try_recv_def split: list.splits)
  show "registration' = registration\<lparr>registration_pending := registration_pending registration'\<rparr>"
    using run c by (auto simp: try_recv_def split: list.splits)
  show "case held view r registration of [] \<Rightarrow> m = None \<and> held view r' registration' = []
     | frame # rest \<Rightarrow> m = Some frame \<and> held view r' registration' = rest"
    using run c recv i by (auto simp: try_recv_def held_def split: list.splits)
qed

text \<open>The requeue loop ends and returns all frames the registration held.\<close>

lemma requeue_loop_held:
  assumes "mpsc_laws Q view" "registration_receiver registration < length (router_channels r)"
  shows "\<exists>registration' r'. requeue_loop Q r registration unsent = Some (unsent @ held view r registration, registration', r') \<and>
    only_channel view (registration_receiver registration) r r' \<and> held view r' registration' = []"
  using assms(2)
proof (induction "held view r registration" arbitrary: r registration unsent)
  case Nil
  obtain m registration' r' where t: "try_recv Q r registration = (m, registration', r')" by (metis prod.exhaust)
  from try_recv_held [OF assms(1) Nil(2) t] Nil(1) t show ?case
    by (simp add: requeue_loop.simps [of Q r] flip: Nil(1))
next
  case (Cons frame rest)
  obtain m registration' r' where t: "try_recv Q r registration = (m, registration', r')" by (metis prod.exhaust)
  note recv = try_recv_held [OF assms(1) Cons.prems t]
  have m: "m = Some frame" "rest = held view r' registration'" using recv(3) by (simp_all flip: Cons.hyps(2))
  have i: "registration_receiver registration' = registration_receiver registration"
    by (subst recv(2)) simp
  have "registration_receiver registration' < length (router_channels r')"
    using recv(1) Cons.prems by (simp add: only_channel_def i)
  from Cons.hyps(1) [OF m(2) this, of "unsent @ [frame]"] obtain registration2 r2 where
    "requeue_loop Q r' registration' (unsent @ [frame]) = Some ((unsent @ [frame]) @ rest, registration2, r2)"
    "only_channel view (registration_receiver registration) r' r2" "held view r2 registration2 = []"
    by (auto simp: m(2) i)
  then show ?case
    using t m(1) only_channel_trans [OF recv(1)] by (simp add: requeue_loop.simps [of Q r] flip: Cons.hyps(2))
qed

end
