(* ===== verification/Brokerd.thy ===== *)
theory Brokerd
  imports Broker "HOL-Library.Sublist" "HOL-Library.Multiset"
begin

text \<open>
  The connection tasks of \<open>brokerd/src/main.rs\<close> around the router. A task registers its agent,
  writes queued deliveries to the socket, routes the agent's frames, and hands back what it
  could not write when it ends. Tasks interleave between two uses of the router's lock, so an
  execution is a sequence of events; what the sockets do (a write succeeds or fails, a frame arrives
  or the connection ends) is the event. Taking a frame and the end of its write are two events, and
  a delivery from the CA carries the events that fall between its two halves, because
  \<open>route_ca_delivery\<close> releases the lock before it stores a frame offline. The history fields record what
  was accepted from the CA, what was written to each agent's socket, where a requeue overflowed and
  where a frame was stored offline for an agent that had connected in the gap.
\<close>

section \<open>Definitions\<close>

text \<open>\<open>broker_writing\<close> is the frame of a task that waits for its socket.\<close>

record ('c, 'q) broker_system =
  broker_router :: "('c, 'q) BrokerRouter"
  broker_tasks :: "AgentId \<Rightarrow> AgentRegistration option"
  broker_writing :: "AgentId \<Rightarrow> bytes option"
  history_accepted :: "AgentId \<Rightarrow> bytes list"
  history_written :: "AgentId \<Rightarrow> bytes list"
  history_overflowed :: "AgentId \<Rightarrow> bool"
  history_raced :: "AgentId \<Rightarrow> bool"

definition broker_start :: "('c, 'q) BrokerRouter \<Rightarrow> ('c, 'q) broker_system" where
  "broker_start r = \<lparr>broker_router = r, broker_tasks = (\<lambda>_. None), broker_writing = (\<lambda>_. None),
     history_accepted = (\<lambda>_. []), history_written = (\<lambda>_. []), history_overflowed = (\<lambda>_. False),
     history_raced = (\<lambda>_. False)\<rparr>"

definition task_connect ::
  "'c mpsc \<Rightarrow> 'q OfflineQueueStore \<Rightarrow> AgentId \<Rightarrow> ('c, 'q) broker_system \<Rightarrow> ('c, 'q) broker_system" where
  "task_connect Q off identity s =
     (case register Q off (broker_router s) identity of
        (Inl error, r) \<Rightarrow> s\<lparr>broker_router := r\<rparr>
      | (Inr registration, r) \<Rightarrow>
          s\<lparr>broker_router := r, broker_tasks := (broker_tasks s)(identity := Some registration)\<rparr>)"

text \<open>The end of a task, with the frame whose write failed; \<open>None\<close> where the identity has no task.\<close>

definition task_end ::
  "'c mpsc \<Rightarrow> 'q OfflineQueueStore \<Rightarrow> AgentId \<Rightarrow> ('c, 'q) broker_system \<Rightarrow> ('c, 'q) broker_system option" where
  "task_end Q off identity s =
     (case broker_tasks s identity of
        None \<Rightarrow> None
      | Some registration \<Rightarrow>
          (case disconnect_and_requeue Q off (broker_router s) registration (broker_writing s identity) of
             None \<Rightarrow> None
           | Some (result, r) \<Rightarrow>
               Some (s\<lparr>broker_router := r, broker_tasks := (broker_tasks s)(identity := None),
                      broker_writing := (broker_writing s)(identity := None),
                      history_overflowed := (history_overflowed s)
                        (identity := history_overflowed s identity \<or> \<not> is_ok result)\<rparr>)))"

text \<open>The branch of the task's \<open>select!\<close> that writes: the next frame is taken, and later its write
  succeeds or not. \<open>None\<close> where the task still waits for a frame.\<close>

definition task_take ::
  "'c mpsc \<Rightarrow> AgentId \<Rightarrow> ('c, 'q) broker_system \<Rightarrow> ('c, 'q) broker_system option" where
  "task_take Q identity s =
     (case (broker_tasks s identity, broker_writing s identity) of
        (Some registration, None) \<Rightarrow>
          (case try_recv Q (broker_router s) registration of
             (None, _, _) \<Rightarrow> None
           | (Some frame, registration, r) \<Rightarrow>
               Some (s\<lparr>broker_router := r, broker_tasks := (broker_tasks s)(identity := Some registration),
                      broker_writing := (broker_writing s)(identity := Some frame)\<rparr>))
      | _ \<Rightarrow> None)"

definition task_write ::
  "'c mpsc \<Rightarrow> 'q OfflineQueueStore \<Rightarrow> AgentId \<Rightarrow> bool \<Rightarrow> ('c, 'q) broker_system \<Rightarrow> ('c, 'q) broker_system option" where
  "task_write Q off identity write_ok s =
     (case broker_writing s identity of
        None \<Rightarrow> None
      | Some frame \<Rightarrow>
          if write_ok
          then Some (s\<lparr>broker_writing := (broker_writing s)(identity := None),
                      history_written := (history_written s)(identity := history_written s identity @ [frame])\<rparr>)
          else task_end Q off identity s)"

text \<open>The branch that reads: a frame, or the end of the stream, an error or a timeout. It is not
  polled while a write waits.\<close>

definition task_read ::
  "'c mpsc \<Rightarrow> 'q OfflineQueueStore \<Rightarrow> AgentId \<Rightarrow> bytes option \<Rightarrow> ('c, 'q) broker_system \<Rightarrow> ('c, 'q) broker_system option" where
  "task_read Q off identity received s =
     (if broker_tasks s identity = None \<or> broker_writing s identity \<noteq> None then None
      else case received of
        None \<Rightarrow> task_end Q off identity s
      | Some bs \<Rightarrow>
          let (result, r) = route_agent_request Q (broker_router s) identity bs;
              s = s\<lparr>broker_router := r\<rparr> in
          if is_ok result then Some s else task_end Q off identity s)"

datatype task_event = is_Connect: Connect AgentId | Take AgentId | Write AgentId bool | Read AgentId "bytes option"

fun task_step ::
  "'c mpsc \<Rightarrow> 'q OfflineQueueStore \<Rightarrow> task_event \<Rightarrow> ('c, 'q) broker_system \<Rightarrow> ('c, 'q) broker_system option" where
  "task_step Q off (Connect a) s = Some (task_connect Q off a s)"
| "task_step Q off (Take a) s = task_take Q a s"
| "task_step Q off (Write a write_ok) s = task_write Q off a write_ok s"
| "task_step Q off (Read a received) s = task_read Q off a received s"

text \<open>A schedule of the tasks; an event that is not enabled is passed over.\<close>

fun tasks_run ::
  "'c mpsc \<Rightarrow> 'q OfflineQueueStore \<Rightarrow> task_event list \<Rightarrow> ('c, 'q) broker_system \<Rightarrow> ('c, 'q) broker_system" where
  "tasks_run Q off [] s = s"
| "tasks_run Q off (event # events) s =
     tasks_run Q off events (case task_step Q off event s of None \<Rightarrow> s | Some s' \<Rightarrow> s')"

definition note_accepted :: "bytes \<Rightarrow> ('c, 'q) broker_system \<Rightarrow> ('c, 'q) broker_system" where
  "note_accepted frame s =
     (case parse_envelope frame of
        Inl _ \<Rightarrow> s
      | Inr envelope \<Rightarrow>
          let a = envelope_recipient envelope in
          s\<lparr>history_accepted := (history_accepted s)(a := history_accepted s a @ [frame])\<rparr>)"

text \<open>The CA link hands a delivery to the router. \<open>between\<close> is what the tasks do after the lock is
  released and before the frame is stored offline; the CA link itself does nothing else meanwhile. The
  offline store has a lock of its own, which the tasks take inside the router's, so storing the frame is
  before or after what a task does to the store.\<close>

definition ca_deliver ::
  "'c mpsc \<Rightarrow> 'q OfflineQueueStore \<Rightarrow> task_event list \<Rightarrow> bytes \<Rightarrow> ('c, 'q) broker_system
     \<Rightarrow> (RouteError + unit) \<times> ('c, 'q) broker_system" where
  "ca_deliver Q off between frame s =
     (let (progress, r) = route_ca_locked Q (broker_router s) frame;
          s = s\<lparr>broker_router := r\<rparr> in
      case progress of
        Routed result \<Rightarrow> (result, if is_ok result then note_accepted frame s else s)
      | Store_offline recipient _ \<Rightarrow>
          let s = tasks_run Q off between s;
              (result, r) = route_ca_unlocked off (broker_router s) progress;
              s = s\<lparr>broker_router := r\<rparr> in
          (result,
           if is_ok result
           then note_accepted frame (s\<lparr>history_raced := (history_raced s)
                  (recipient := history_raced s recipient \<or> broker_tasks s recipient \<noteq> None)\<rparr>)
           else s))"

text \<open>The CA link takes the next request from the router's queue.\<close>

definition ca_take :: "'c mpsc \<Rightarrow> ('c, 'q) broker_system \<Rightarrow> bytes option \<times> ('c, 'q) broker_system" where
  "ca_take Q s =
     (let (received, channel) = mpsc_try_recv Q (router_ca_channel (broker_router s)) in
      (received, s\<lparr>broker_router := (broker_router s)\<lparr>router_ca_channel := channel\<rparr>\<rparr>))"

datatype broker_event = Task task_event | Ca_delivery "task_event list" bytes | Ca_take

fun broker_step ::
  "'c mpsc \<Rightarrow> 'q OfflineQueueStore \<Rightarrow> broker_event \<Rightarrow> ('c, 'q) broker_system \<Rightarrow> ('c, 'q) broker_system option" where
  "broker_step Q off (Task event) s = task_step Q off event s"
| "broker_step Q off (Ca_delivery between frame) s = Some (snd (ca_deliver Q off between frame s))"
| "broker_step Q off Ca_take s = Some (snd (ca_take Q s))"

inductive broker_reachable ::
  "'c mpsc \<Rightarrow> 'q OfflineQueueStore \<Rightarrow> ('c, 'q) broker_system \<Rightarrow> ('c, 'q) broker_system \<Rightarrow> bool"
  for Q off s0 where
  start: "broker_reachable Q off s0 s0"
| step: "broker_reachable Q off s0 s \<Longrightarrow> broker_step Q off event s = Some s' \<Longrightarrow> broker_reachable Q off s0 s'"

inductive_cases broker_reachableE: "broker_reachable Q off s0 s"

text \<open>A sequence of events, as a function; a disabled event ends it with \<open>None\<close>.\<close>

fun broker_run ::
  "'c mpsc \<Rightarrow> 'q OfflineQueueStore \<Rightarrow> broker_event list \<Rightarrow> ('c, 'q) broker_system \<Rightarrow> ('c, 'q) broker_system option" where
  "broker_run Q off [] s = Some s"
| "broker_run Q off (event # events) s =
     (case broker_step Q off event s of None \<Rightarrow> None | Some s \<Rightarrow> broker_run Q off events s)"

lemma broker_run_reachable:
  "broker_reachable Q off s0 s \<Longrightarrow> broker_run Q off events s = Some s' \<Longrightarrow> broker_reachable Q off s0 s'"
  by (induction events arbitrary: s) (auto intro: step split: option.splits)

text \<open>With nothing in the gap a delivery is \<open>route_ca_delivery\<close> in one piece.\<close>

lemma ca_deliver_at_once:
  "fst (ca_deliver Q off [] frame s) = fst (route_ca_delivery Q off (broker_router s) frame)"
  "broker_router (snd (ca_deliver Q off [] frame s)) = snd (route_ca_delivery Q off (broker_router s) frame)"
proof -
  have accepted: "broker_router (note_accepted frame s) = broker_router s" for s :: "('c, 'q) broker_system"
    by (simp add: note_accepted_def Let_def split: sum.split)
  obtain progress r where l: "route_ca_locked Q (broker_router s) frame = (progress, r)" by fastforce
  obtain result r' where u: "route_ca_unlocked off r progress = (result, r')" by fastforce
  show "fst (ca_deliver Q off [] frame s) = fst (route_ca_delivery Q off (broker_router s) frame)"
    "broker_router (snd (ca_deliver Q off [] frame s)) = snd (route_ca_delivery Q off (broker_router s) frame)"
    using u by (cases progress; simp add: ca_deliver_def route_ca_delivery_def l Let_def accepted route_ca_unlocked_def)+
qed

section \<open>Tasks and connections\<close>

text \<open>A task and the router agree: the connection carries the task's generation and channel, the
  channel is open and within its capacity. While an agent is connected nothing waits offline for it,
  unless a delivery was stored after it had connected.\<close>

context offline_queue begin

definition task_ok :: "('c \<Rightarrow> channel_view) \<Rightarrow> ('c, 'q) BrokerRouter \<Rightarrow> AgentId \<Rightarrow> AgentRegistration \<Rightarrow> bool" where
  "task_ok view r a registration \<longleftrightarrow>
     a \<noteq> AgentId_CA \<and> registration_identity registration = a \<and>
     registration_receiver registration < length (router_channels r) \<and>
     bt_get (router_connections r) a = Some \<lparr>connection_generation = registration_generation registration,
       connection_sender = registration_receiver registration\<rparr> \<and>
     (let ch = view (router_channels r ! registration_receiver registration) in
      \<not> channel_closed ch \<and> channel_capacity ch = router_online_depth r \<and>
      length (channel_queue ch) \<le> router_online_depth r)"

definition system_ok :: "('c \<Rightarrow> channel_view) \<Rightarrow> ('c, 'q) broker_system \<Rightarrow> bool" where
  "system_ok view s \<longleftrightarrow>
     inv (router_offline (broker_router s)) \<and> bt_wf (router_connections (broker_router s)) \<and>
     bt_len (router_connections (broker_router s)) \<le> router_maximum (broker_router s) \<and>
     (\<forall>a registration. broker_tasks s a = Some registration \<longrightarrow> task_ok view (broker_router s) a registration) \<and>
     (\<forall>a. broker_tasks s a = None \<longrightarrow> bt_get (router_connections (broker_router s)) a = None \<and> broker_writing s a = None) \<and>
     (\<forall>a. broker_tasks s a \<noteq> None \<longrightarrow> \<not> history_raced s a \<longrightarrow> queue (router_offline (broker_router s)) a = []) \<and>
     (\<forall>a b ra rb. broker_tasks s a = Some ra \<longrightarrow> broker_tasks s b = Some rb \<longrightarrow> a \<noteq> b \<longrightarrow>
        registration_receiver ra \<noteq> registration_receiver rb)"

text \<open>The bounds of a system never change.\<close>

definition limits :: "('c, 'q) broker_system \<Rightarrow> nat \<times> nat \<times> nat" where
  "limits s = (depth (router_offline (broker_router s)), router_maximum (broker_router s), router_online_depth (broker_router s))"

text \<open>The frames the broker still owes an agent, oldest first.\<close>

definition backlog :: "('c \<Rightarrow> channel_view) \<Rightarrow> ('c, 'q) broker_system \<Rightarrow> AgentId \<Rightarrow> bytes list" where
  "backlog view s a = (case broker_writing s a of None \<Rightarrow> [] | Some frame \<Rightarrow> [frame]) @
     (case broker_tasks s a of None \<Rightarrow> [] | Some registration \<Rightarrow> held view (broker_router s) registration)
     @ queue (router_offline (broker_router s)) a"

lemma only_channel_task_ok:
  assumes "only_channel view i r r'" "task_ok view r a registration" "i \<noteq> registration_receiver registration"
  shows "task_ok view r' a registration" "held view r' registration = held view r registration"
  using assms by (auto simp: task_ok_def held_def only_channel_fields [OF assms(1)] Let_def) (auto simp: only_channel_def)

text \<open>A step on one agent's own channel leaves the other agents alone.\<close>

lemma system_ok_channel:
  assumes ok: "system_ok view s" and task: "broker_tasks s a = Some registration"
    and only: "only_channel view (registration_receiver registration) (broker_router s) r'"
    and reg': "registration_receiver registration' = registration_receiver registration" "task_ok view r' a registration'"
  defines "s' \<equiv> s\<lparr>broker_router := r', broker_tasks := (broker_tasks s)(a := Some registration')\<rparr>"
  shows "system_ok view s'" "b \<noteq> a \<Longrightarrow> backlog view s' b = backlog view s b"
proof -
  note fields = only_channel_fields [OF only]
  have other: "task_ok view r' b rb \<and> held view r' rb = held view (broker_router s) rb"
    if "broker_tasks s b = Some rb" "b \<noteq> a" for b rb
    using only_channel_task_ok [OF only, of b rb] that ok task unfolding system_ok_def by metis
  show "system_ok view s'"
    unfolding system_ok_def s'_def using ok task reg' other by (auto simp: fields system_ok_def)
  show "backlog view s' b = backlog view s b" if "b \<noteq> a"
    using other [of b] that by (auto simp: backlog_def s'_def fields split: option.splits)
qed

end

section \<open>The steps\<close>

context offline_queue begin

text \<open>The frame a task takes to write it stays in its backlog.\<close>

lemma task_take_effect:
  assumes laws: "mpsc_laws Q view" and ok: "system_ok view s" and run: "task_take Q a s = Some s'"
  shows "system_ok view s'" "backlog view s' b = backlog view s b" "limits s' = limits s"
    "history_accepted s' = history_accepted s" "history_written s' = history_written s"
    "history_overflowed s' = history_overflowed s" "history_raced s' = history_raced s"
proof -
  from run obtain registration frame registration' r' where task: "broker_tasks s a = Some registration"
    and idle: "broker_writing s a = None"
    and recv': "try_recv Q (broker_router s) registration = (Some frame, registration', r')"
    and s': "s' = s\<lparr>broker_router := r', broker_tasks := (broker_tasks s)(a := Some registration'),
      broker_writing := (broker_writing s)(a := Some frame)\<rparr>"
    by (auto simp: task_take_def split: option.splits prod.splits)
  let ?s = "s\<lparr>broker_router := r', broker_tasks := (broker_tasks s)(a := Some registration')\<rparr>"
  have t: "task_ok view (broker_router s) a registration" using ok task by (simp add: system_ok_def)
  then have i: "registration_receiver registration < length (router_channels (broker_router s))" by (simp add: task_ok_def)
  note recv = try_recv_held [OF laws i recv']
  have reg': "registration_receiver registration' = registration_receiver registration"
    "registration_identity registration' = registration_identity registration"
    "registration_generation registration' = registration_generation registration"
    by (subst recv(2), simp)+
  have len: "length (channel_queue (view (router_channels r' ! registration_receiver registration))) \<le>
      length (channel_queue (view (router_channels (broker_router s) ! registration_receiver registration)))"
  proof -
    obtain m ch where "mpsc_try_recv Q (router_channels (broker_router s) ! registration_receiver registration) = (m, ch)"
      by fastforce
    with mpsc_recv [OF laws this] recv' i show ?thesis by (auto simp: try_recv_def split: list.splits)
  qed
  have "task_ok view r' a registration'"
    using t len recv(1) by (auto simp: task_ok_def reg' only_channel_fields [OF recv(1)] Let_def only_channel_def)
  note both = system_ok_channel [OF ok task recv(1) reg'(1) this]
  show "system_ok view s'"
    using both(1) by (auto simp: s' system_ok_def)
  show "backlog view s' b = backlog view s b"
  proof (cases "b = a")
    case True
    with recv(3) task idle show ?thesis by (auto simp: backlog_def s' only_channel_fields [OF recv(1)] split: list.splits)
  next
    case False
    have "backlog view s' b = backlog view ?s b" using False by (simp add: backlog_def s' split: option.split)
    with both(2) False show ?thesis by simp
  qed
  show "limits s' = limits s" by (simp add: s' limits_def only_channel_fields [OF recv(1)])
qed (use run in \<open>auto simp: task_take_def split: option.splits prod.splits\<close>)

text \<open>The end of a task hands everything it holds back to the offline queue, oldest first and up to
  its depth.\<close>

lemma task_end_effect:
  assumes laws: "mpsc_laws Q view" and ok: "system_ok view s" and task: "broker_tasks s a = Some registration"
  shows "\<exists>s'. task_end Q off a s = Some s' \<and> system_ok view s' \<and> broker_tasks s' a = None \<and>
    (\<forall>b. b \<noteq> a \<longrightarrow> backlog view s' b = backlog view s b) \<and>
    backlog view s' a = take (depth (router_offline (broker_router s))) (backlog view s a) \<and>
    limits s' = limits s \<and>
    history_accepted s' = history_accepted s \<and> history_written s' = history_written s \<and>
    history_raced s' = history_raced s \<and>
    history_overflowed s' = (history_overflowed s)(a := history_overflowed s a \<or>
      depth (router_offline (broker_router s)) < length (backlog view s a))"
proof -
  let ?r = "broker_router s" and ?i = "registration_receiver registration"
  let ?unsent = "case broker_writing s a of None \<Rightarrow> [] | Some frame \<Rightarrow> [frame]"
  let ?r1 = "?r\<lparr>router_connections := bt_remove a (router_connections ?r)\<rparr>"
  have t: "task_ok view ?r a registration" using ok task by (simp add: system_ok_def)
  then have t': "registration_identity registration = a" "is_current ?r a (registration_generation registration)"
    "?i < length (router_channels ?r)"
    by (simp_all add: task_ok_def is_current_def)
  obtain registration' r2 where loop: "requeue_loop Q ?r1 registration ?unsent = Some (?unsent @ held view ?r1 registration, registration', r2)"
    "only_channel view ?i ?r1 r2"
    using requeue_loop_held [OF laws, of registration ?r1 ?unsent] t'(3) by auto
  note fields = only_channel_fields [OF loop(2)]
  have held: "(?unsent @ held view ?r1 registration) @ queue (router_offline ?r) a = backlog view s a"
    using task by (simp add: backlog_def held_def)
  obtain result offline where pre: "offline_prepend off (router_offline ?r) a (?unsent @ held view ?r1 registration) = (result, offline)"
    by fastforce
  have inv: "inv (router_offline ?r)" using ok by (simp add: system_ok_def)
  note pl = prepend_law [OF inv pre, unfolded held]
  let ?r' = "r2\<lparr>router_offline := offline\<rparr>"
  let ?s' = "s\<lparr>broker_router := ?r', broker_tasks := (broker_tasks s)(a := None), broker_writing := (broker_writing s)(a := None),
    history_overflowed := (history_overflowed s)(a := history_overflowed s a \<or> \<not> is_ok result)\<rparr>"
  have run: "task_end Q off a s = Some ?s'"
    using task t'(1,2) loop(1) pre by (simp add: task_end_def disconnect_and_requeue_def fields Let_def)
  have other: "task_ok view ?r' b rb \<and> held view ?r' rb = held view ?r rb"
    if "broker_tasks s b = Some rb" "b \<noteq> a" for b rb
  proof -
    have b: "task_ok view ?r b rb" "registration_receiver rb \<noteq> ?i"
      using ok that task unfolding system_ok_def by metis+
    then have "router_channels r2 ! registration_receiver rb = router_channels ?r ! registration_receiver rb"
      "length (router_channels r2) = length (router_channels ?r)"
      using loop(2) by (simp_all add: only_channel_def)
    with b(1) that(2) pl show ?thesis by (auto simp: task_ok_def held_def fields Let_def)
  qed
  have "system_ok view ?s'"
    unfolding system_ok_def using ok task pl other bt.len_remove [of "router_connections ?r" a]
    by (auto simp: fields system_ok_def)
  moreover have "backlog view ?s' b = backlog view s b" if "b \<noteq> a" for b
    using other [of b] that pl by (auto simp: backlog_def fields split: option.splits)
  moreover have "backlog view ?s' a = take (depth (router_offline ?r)) (backlog view s a)"
    using pl by (simp add: backlog_def)
  moreover have "history_overflowed ?s' = (history_overflowed s)(a := history_overflowed s a \<or> depth (router_offline ?r) < length (backlog view s a))"
    using pl by auto
  ultimately show ?thesis using run pl by (intro exI [of _ ?s']) (simp add: limits_def fields)
qed

text \<open>A new task takes over what waited offline.\<close>

lemma task_connect_effect:
  fixes a :: AgentId
  assumes laws: "mpsc_laws Q view" and ok: "system_ok view s"
  defines "s' \<equiv> task_connect Q off a s"
  shows "system_ok view s' \<and> (\<forall>b. backlog view s' b = backlog view s b) \<and>
    limits s' = limits s \<and>
    history_accepted s' = history_accepted s \<and> history_written s' = history_written s \<and>
    history_overflowed s' = history_overflowed s \<and> history_raced s' = history_raced s"
proof (cases "fst (register Q off (broker_router s) a)")
  case (Inl e)
  then have "s' = s"
    by (cases "register Q off (broker_router s) a")
      (auto simp: s'_def task_connect_def register_def Let_def split: if_splits prod.splits)
  with ok show ?thesis by simp
next
  case (Inr registration)
  let ?r = "broker_router s" and ?i = "length (router_channels (broker_router s))"
  obtain pending offline where take: "offline_take off (router_offline ?r) a = (pending, offline)" by fastforce
  let ?r' = "?r\<lparr>router_generation := router_generation ?r + 1,
                router_channels := router_channels ?r @ [mpsc_channel Q (router_online_depth ?r)],
                router_connections := bt_insert a \<lparr>connection_generation = router_generation ?r, connection_sender = ?i\<rparr>
                  (router_connections ?r), router_offline := offline\<rparr>"
  let ?reg = "\<lparr>registration_identity = a, registration_generation = router_generation ?r,
              registration_pending = pending, registration_receiver = ?i\<rparr>"
  from Inr take have guards: "a \<noteq> AgentId_CA" "router_online_depth ?r > 0" "bt_get (router_connections ?r) a = None"
    "bt_len (router_connections ?r) < router_maximum ?r" and run: "register Q off ?r a = (Inr ?reg, ?r')"
    by (auto simp: register_def bt_contains_key_def Let_def split: if_splits)
  have s': "s' = s\<lparr>broker_router := ?r', broker_tasks := (broker_tasks s)(a := Some ?reg)\<rparr>"
    by (simp add: s'_def task_connect_def run)
  have inv: "inv (router_offline ?r)" using ok by (simp add: system_ok_def)
  note tk = take_law [OF inv take]
  note new = mpsc_new [OF laws guards(2)]
  have no_task: "broker_tasks s a = None"
    using ok guards(3) by (cases "broker_tasks s a") (auto simp: system_ok_def task_ok_def)
  then have idle: "broker_writing s a = None" using ok by (simp add: system_ok_def)
  have other: "task_ok view ?r' b rb \<and> held view ?r' rb = held view ?r rb \<and> registration_receiver rb \<noteq> ?i"
    if "broker_tasks s b = Some rb" for b rb
  proof -
    have "task_ok view ?r b rb" "b \<noteq> a" using ok that no_task by (auto simp: system_ok_def)
    then show ?thesis using tk by (auto simp: task_ok_def held_def nth_append Let_def)
  qed
  have "task_ok view ?r' a ?reg"
    using guards tk new by (simp add: task_ok_def)
  then have "system_ok view s'"
    using ok tk guards other bt.len_insert [of "router_connections ?r" a] no_task unfolding s' system_ok_def
    by (auto split: if_splits) metis+
  moreover have "backlog view s' b = backlog view s b" for b
  proof (cases "b = a")
    case True
    with no_task idle tk new show ?thesis by (simp add: backlog_def s' held_def)
  next
    case False
    with other [of b] tk show ?thesis by (auto simp: backlog_def s' split: option.splits)
  qed
  ultimately show ?thesis using tk by (simp add: s' limits_def)
qed

text \<open>An agent's request only touches the CA queue.\<close>

lemma agent_request_effect:
  assumes ok: "system_ok view s" and run: "route_agent_request Q (broker_router s) a bs = (result, r)"
  shows "system_ok view (s\<lparr>broker_router := r\<rparr>)" "backlog view (s\<lparr>broker_router := r\<rparr>) = backlog view s"
    "limits (s\<lparr>broker_router := r\<rparr>) = limits s"
proof -
  obtain ch where r: "r = (broker_router s)\<lparr>router_ca_channel := ch\<rparr>"
  proof -
    have "\<exists>ch. r = (broker_router s)\<lparr>router_ca_channel := ch\<rparr>"
    proof (cases "r = broker_router s")
      case True
      then show ?thesis by (intro exI [of _ "router_ca_channel (broker_router s)"]) simp
    next
      case False
      with run show ?thesis
        by (cases "parse_envelope bs") (auto simp: route_agent_request_def Let_def split: if_splits prod.splits)
    qed
    with that show thesis by blast
  qed
  show "system_ok view (s\<lparr>broker_router := r\<rparr>)" using ok by (auto simp: r system_ok_def task_ok_def)
  show "backlog view (s\<lparr>broker_router := r\<rparr>) = backlog view s"
    by (auto simp: r backlog_def held_def fun_eq_iff split: option.splits)
  show "limits (s\<lparr>broker_router := r\<rparr>) = limits s" by (simp add: r limits_def)
qed
end

section \<open>First in, first out\<close>

text \<open>What a step may do to one agent's list: nothing is invented; nothing is lost while
  \<open>overflowed\<close> is not set; and the order is kept while \<open>raced\<close> is not set.\<close>

definition relayed :: "bool \<Rightarrow> bool \<Rightarrow> bytes list \<Rightarrow> bytes list \<Rightarrow> bool" where
  "relayed raced overflowed frames accepted \<longleftrightarrow> mset frames \<subseteq># mset accepted \<and>
     (\<not> overflowed \<longrightarrow> mset frames = mset accepted) \<and> (\<not> raced \<longrightarrow> subseq frames accepted)"

lemma relayed_append: "relayed raced overflowed frames accepted \<Longrightarrow> relayed raced overflowed (frames @ [frame]) (accepted @ [frame])"
  by (auto simp: relayed_def intro: list_emb_append_mono)

lemma relayed_take:
  assumes "relayed raced overflowed (frames @ rest) accepted"
  shows "relayed raced (overflowed \<or> n < length rest) (frames @ take n rest) accepted"
proof -
  have "mset rest = mset (take n rest) + mset (drop n rest)"
    by (metis append_take_drop_id mset_append)
  then have "mset (frames @ take n rest) \<subseteq># mset (frames @ rest)" by simp
  moreover have "subseq (frames @ take n rest) (frames @ rest)"
    by (intro list_emb_append_mono subseq_order.refl) (metis append_take_drop_id subseq_rev_drop_many subseq_order.refl)
  moreover have "take n rest = rest" if "\<not> n < length rest" using that by simp
  ultimately show ?thesis
    using assms subset_mset.order_trans [of "mset (frames @ take n rest)"] subseq_order.trans [of "frames @ take n rest"]
    unfolding relayed_def by metis
qed

lemma relayed_raced: "relayed raced overflowed frames accepted \<Longrightarrow> mset frames' = mset frames \<Longrightarrow> relayed True overflowed frames' accepted"
  by (simp add: relayed_def)

lemma relayed_later: "relayed raced overflowed frames accepted \<Longrightarrow> relayed (raced \<or> raced') overflowed frames accepted"
  by (simp add: relayed_def)

text \<open>Without either, the list is exactly what was accepted.\<close>

lemma relayed_exact: "relayed raced overflowed frames accepted \<Longrightarrow> \<not> raced \<Longrightarrow> \<not> overflowed \<Longrightarrow> frames = accepted"
  by (auto simp: relayed_def dest: mset_eq_length intro: subseq_same_length)

context offline_queue begin

definition fifo_ok :: "('c \<Rightarrow> channel_view) \<Rightarrow> ('c, 'q) broker_system \<Rightarrow> AgentId \<Rightarrow> bool" where
  "fifo_ok view s a \<longleftrightarrow>
     relayed (history_raced s a) (history_overflowed s a) (history_written s a @ backlog view s a) (history_accepted s a)"

definition broker_ok :: "('c \<Rightarrow> channel_view) \<Rightarrow> ('c, 'q) broker_system \<Rightarrow> bool" where
  "broker_ok view s \<longleftrightarrow> system_ok view s \<and> (\<forall>a. fifo_ok view s a)"

lemma task_end_ok:
  assumes laws: "mpsc_laws Q view" and ok: "broker_ok view s" and run: "task_end Q off a s = Some s'"
  shows "broker_ok view s' \<and> limits s' = limits s \<and> history_accepted s' = history_accepted s \<and> history_raced s' = history_raced s"
proof -
  obtain registration where t: "broker_tasks s a = Some registration"
    using run by (auto simp: task_end_def split: option.splits)
  have sys: "system_ok view s" and old: "\<And>b. fifo_ok view s b" using ok by (simp_all add: broker_ok_def)
  from task_end_effect [OF laws sys t] run have e: "system_ok view s'" "\<And>b. b \<noteq> a \<Longrightarrow> backlog view s' b = backlog view s b"
    "backlog view s' a = take (depth (router_offline (broker_router s))) (backlog view s a)" "limits s' = limits s"
    "history_accepted s' = history_accepted s" "history_written s' = history_written s" "history_raced s' = history_raced s"
    "history_overflowed s' = (history_overflowed s)(a := history_overflowed s a \<or>
      depth (router_offline (broker_router s)) < length (backlog view s a))"
    by auto
  have "fifo_ok view s' b" for b
    using old [of b] e(2) [of b] relayed_take [of "history_raced s a"]
    by (cases "b = a") (simp_all add: fifo_ok_def e(3,5-8))
  with e show ?thesis by (simp add: broker_ok_def)
qed

lemma task_step_ok:
  assumes laws: "mpsc_laws Q view" and ok: "broker_ok view s" and run: "task_step Q off event s = Some s'"
  shows "broker_ok view s' \<and> limits s' = limits s \<and> history_accepted s' = history_accepted s \<and> history_raced s' = history_raced s"
proof (cases event)
  case (Connect a)
  with run have s': "s' = task_connect Q off a s" by simp
  have "system_ok view s" using ok by (simp add: broker_ok_def)
  from task_connect_effect [OF laws this, of a] ok show ?thesis
    unfolding s' broker_ok_def fifo_ok_def by simp
next
  case (Take a)
  with run have "task_take Q a s = Some s'" by simp
  with task_take_effect [OF laws _ this] ok show ?thesis by (simp add: broker_ok_def fifo_ok_def)
next
  case (Write a write_ok)
  with run obtain frame where w: "broker_writing s a = Some frame"
    by (auto simp: task_write_def split: option.splits)
  show ?thesis
  proof (cases write_ok)
    case True
    let ?s = "s\<lparr>broker_writing := (broker_writing s)(a := None),
        history_written := (history_written s)(a := history_written s a @ [frame])\<rparr>"
    have "history_written ?s b @ backlog view ?s b = history_written s b @ backlog view s b" for b
      using w by (simp add: backlog_def split: option.split)
    then have "fifo_ok view ?s b" for b
      using ok by (simp add: broker_ok_def fifo_ok_def)
    moreover have "system_ok view ?s" using ok by (auto simp: broker_ok_def system_ok_def)
    moreover have "s' = ?s" using run Write w True by (simp add: task_write_def)
    ultimately show ?thesis by (simp add: broker_ok_def limits_def)
  next
    case False
    with run Write w have "task_end Q off a s = Some s'" by (simp add: task_write_def)
    from task_end_ok [OF laws ok this] show ?thesis .
  qed
next
  case (Read a received)
  show ?thesis
  proof (cases received)
    case None
    with run Read have "task_end Q off a s = Some s'" by (simp add: task_read_def split: if_splits)
    from task_end_ok [OF laws ok this] show ?thesis .
  next
    case (Some bs)
    obtain result r where route: "route_agent_request Q (broker_router s) a bs = (result, r)" by fastforce
    have sys: "system_ok view s" using ok by (simp add: broker_ok_def)
    note e = agent_request_effect [OF sys route]
    have s1: "broker_ok view (s\<lparr>broker_router := r\<rparr>)" using ok e(1,2) by (simp add: broker_ok_def fifo_ok_def)
    from run Read Some route have
      "if is_ok result then s' = s\<lparr>broker_router := r\<rparr> else task_end Q off a (s\<lparr>broker_router := r\<rparr>) = Some s'"
      by (auto simp: task_read_def Let_def split: if_splits)
    with task_end_ok [OF laws s1] s1 e(3) show ?thesis by (auto split: if_splits)
  qed
qed

lemma tasks_run_ok:
  assumes "mpsc_laws Q view" "broker_ok view s"
  shows "broker_ok view (tasks_run Q off events s) \<and> limits (tasks_run Q off events s) = limits s \<and>
    history_accepted (tasks_run Q off events s) = history_accepted s \<and> history_raced (tasks_run Q off events s) = history_raced s"
  using assms(2)
proof (induction events arbitrary: s)
  case (Cons event events)
  show ?case
  proof (cases "task_step Q off event s")
    case None
    with Cons show ?thesis by simp
  next
    case (Some s1)
    from task_step_ok [OF assms(1) Cons.prems this] Cons.IH [of s1] show ?thesis by (simp add: Some)
  qed
qed simp

text \<open>The two halves of a delivery. A live queue takes the frame behind what the task holds and before what
  waits offline; the offline queue takes it as the last frame of all.\<close>

lemma deliver_live:
  assumes laws: "mpsc_laws Q view" and ok: "broker_ok view s"
    and t: "broker_tasks s a = Some registration"
    and send: "mpsc_try_send Q (router_channels (broker_router s) ! registration_receiver registration) frame = (sent, ch)"
  defines "s1 \<equiv> s\<lparr>broker_router := (broker_router s)
      \<lparr>router_channels := (router_channels (broker_router s))[registration_receiver registration := ch]\<rparr>\<rparr>"
  shows "system_ok view s1" "limits s1 = limits s"
    "fifo_ok view (s1\<lparr>history_accepted := (history_accepted s)(a := history_accepted s a @ (if is_ok sent then [frame] else []))\<rparr>) b"
proof -
  let ?r = "broker_router s" and ?i = "registration_receiver registration"
  let ?r' = "?r\<lparr>router_channels := (router_channels ?r)[?i := ch]\<rparr>"
  have sys: "system_ok view s" and old: "fifo_ok view s b" using ok by (simp_all add: broker_ok_def)
  have tok: "task_ok view ?r a registration" using sys t by (simp add: system_ok_def)
  then have i: "?i < length (router_channels ?r)" "\<not> channel_closed (view (router_channels ?r ! ?i))"
    by (simp_all add: task_ok_def Let_def)
  note sl = mpsc_send [OF laws send]
  have only: "only_channel view ?i ?r ?r'"
    using sl i by (intro only_channel_update [of ?i ?r view ch "channel_queue (view ch)"]) (auto split: if_splits)
  have tok': "task_ok view ?r' a registration"
    using tok sl i by (auto simp: task_ok_def Let_def split: if_splits)
  have tasks: "(broker_tasks s)(a := Some registration) = broker_tasks s" using t by auto
  have "s1\<lparr>broker_tasks := broker_tasks s\<rparr> = s1" by (simp add: s1_def)
  note both = system_ok_channel [OF sys t only refl tok', unfolded tasks, folded s1_def, unfolded this]
  show "system_ok view s1" using both(1) .
  show "limits s1 = limits s" by (simp add: s1_def limits_def)
  let ?new = "if is_ok sent then [frame] else []"
  let ?s2 = "s1\<lparr>history_accepted := (history_accepted s)(a := history_accepted s a @ ?new)\<rparr>"
  have hist: "history_written s1 = history_written s" "history_accepted s1 = history_accepted s"
    "history_raced s1 = history_raced s" "history_overflowed s1 = history_overflowed s"
    by (simp_all add: s1_def)
  have same: "backlog view ?s2 c = backlog view s1 c" for c by (simp add: backlog_def split: option.split)
  show "fifo_ok view ?s2 b"
  proof (cases "b = a")
    case False
    with both(2) [of b] old show ?thesis by (simp add: fifo_ok_def same hist)
  next
    case True
    have h: "held view ?r' registration = held view ?r registration @ ?new"
      using sl i by (auto simp: held_def split: if_splits)
    have q: "queue (router_offline ?r) a = []" if "\<not> history_raced s a" using sys t that by (simp add: system_ok_def)
    have m: "mset (history_written s a @ backlog view s1 a) = mset (history_written s a @ backlog view s a @ ?new)"
      using h t by (simp add: backlog_def s1_def)
    have r: "relayed (history_raced s a) (history_overflowed s a) (history_written s a @ backlog view s a @ ?new)
        (history_accepted s a @ ?new)"
      using old True relayed_append [of "history_raced s a" "history_overflowed s a" "history_written s a @ backlog view s a"]
      by (simp add: fifo_ok_def)
    show ?thesis
    proof (cases "history_raced s a")
      case raced: True
      from relayed_raced [OF r m] True raced show ?thesis by (simp add: fifo_ok_def same hist del: if_split)
    next
      case False
      then have "backlog view s1 a = backlog view s a @ ?new" using q h t by (simp add: backlog_def s1_def)
      with r True show ?thesis by (simp add: fifo_ok_def same hist del: if_split)
    qed
  qed
qed

lemma deliver_offline:
  assumes ok: "broker_ok view s" and enq: "offline_enqueue off (router_offline (broker_router s)) a frame = (result, offline)"
  defines "s1 \<equiv> s\<lparr>broker_router := (broker_router s)\<lparr>router_offline := offline\<rparr>\<rparr>"
  defines "s2 \<equiv> s1\<lparr>history_raced := (history_raced s)(a := history_raced s a \<or> broker_tasks s a \<noteq> None),
    history_accepted := (history_accepted s)(a := history_accepted s a @ [frame])\<rparr>"
  shows "broker_ok view (if is_ok result then s2 else s1)" "limits s1 = limits s" "limits s2 = limits s"
proof -
  let ?r = "broker_router s" and ?new = "if is_ok result then [frame] else []"
  let ?r' = "?r\<lparr>router_offline := offline\<rparr>"
  have sys: "system_ok view s" and old: "\<And>b. fifo_ok view s b" using ok by (simp_all add: broker_ok_def)
  have inv: "inv (router_offline ?r)" using sys by (simp add: system_ok_def)
  note el = enqueue_law [OF inv enq]
  show "limits s1 = limits s" "limits s2 = limits s" using el by (simp_all add: s1_def s2_def limits_def)
  have t: "task_ok view ?r' b rb \<longleftrightarrow> task_ok view ?r b rb" "held view ?r' rb = held view ?r rb" for b rb
    by (simp_all add: task_ok_def held_def)
  have q: "queue offline b = queue (router_offline ?r) b @ (if b = a then ?new else [])" for b
    using el by (auto split: if_splits)
  have same: "backlog view s1 b = backlog view s b @ (if b = a then ?new else [])" "backlog view s2 b = backlog view s1 b" for b
    by (auto simp: backlog_def s1_def s2_def t q split: option.split)
  have hist: "history_written s1 = history_written s" "history_accepted s1 = history_accepted s"
    "history_raced s1 = history_raced s" "history_overflowed s1 = history_overflowed s"
    "history_written s2 = history_written s" "history_overflowed s2 = history_overflowed s"
    "history_accepted s2 = (history_accepted s)(a := history_accepted s a @ [frame])"
    "history_raced s2 = (history_raced s)(a := history_raced s a \<or> broker_tasks s a \<noteq> None)"
    by (simp_all add: s1_def s2_def)
  show "broker_ok view (if is_ok result then s2 else s1)"
  proof (cases "is_ok result")
    case True
    have "fifo_ok view s2 b" for b
    proof (cases "b = a")
      case b: True
      have "relayed (history_raced s a) (history_overflowed s a) (history_written s a @ backlog view s a @ [frame])
          (history_accepted s a @ [frame])"
        using old [of a] relayed_append [of "history_raced s a" "history_overflowed s a" "history_written s a @ backlog view s a"]
        by (simp add: fifo_ok_def)
      from relayed_later [OF this] b True show ?thesis by (simp add: fifo_ok_def same hist)
    next
      case False
      with old [of b] show ?thesis by (simp add: fifo_ok_def same hist)
    qed
    moreover have "system_ok view s2"
      using sys el by (auto simp: system_ok_def s1_def s2_def t q)
    ultimately show ?thesis using True by (simp add: broker_ok_def)
  next
    case False
    have "fifo_ok view s1 b" for b
      using old [of b] False by (cases "b = a") (simp_all add: fifo_ok_def same hist)
    moreover have "system_ok view s1"
      using sys el False by (auto simp: system_ok_def s1_def t q split: if_splits)
    ultimately show ?thesis using False by (simp add: broker_ok_def)
  qed
qed

lemma ca_deliver_ok:
  assumes laws: "mpsc_laws Q view" and ok: "broker_ok view s" and run: "ca_deliver Q off between frame s = (result, s')"
  shows "broker_ok view s' \<and> limits s' = limits s"
proof -
  let ?r = "broker_router s"
  have sys: "system_ok view s" using ok by (simp add: broker_ok_def)
  show ?thesis
  proof (cases "\<exists>e. parse_envelope frame = Inr e \<and> envelope_sender e = AgentId_CA \<and> envelope_recipient e \<noteq> AgentId_CA \<and>
      envelope_message_type e = MT_PublicationResponse")
    case False
    then have "s' = s"
      using run by (cases "parse_envelope frame") (auto simp: ca_deliver_def route_ca_locked_def Let_def)
    with ok show ?thesis by simp
  next
    case True
    then obtain e where e: "parse_envelope frame = Inr e" "envelope_sender e = AgentId_CA" "envelope_recipient e \<noteq> AgentId_CA"
      "envelope_message_type e = MT_PublicationResponse" by blast
    let ?a = "envelope_recipient e"
    show ?thesis
    proof (cases "broker_tasks s ?a")
      case None
      then have conn: "bt_get (router_connections ?r) ?a = None" using sys by (simp add: system_ok_def)
      let ?s = "tasks_run Q off between s"
      obtain res offline where enq: "offline_enqueue off (router_offline (broker_router ?s)) ?a frame = (res, offline)" by fastforce
      let ?s1 = "?s\<lparr>broker_router := (broker_router ?s)\<lparr>router_offline := offline\<rparr>\<rparr>"
      have "s' = (if is_ok res then ?s1\<lparr>history_raced := (history_raced ?s)(?a := history_raced ?s ?a \<or> broker_tasks ?s ?a \<noteq> None),
            history_accepted := (history_accepted ?s)(?a := history_accepted ?s ?a @ [frame])\<rparr> else ?s1)"
        using run e conn enq
        by (simp add: ca_deliver_def route_ca_locked_def route_ca_unlocked_def note_accepted_def Let_def split: if_splits)
      with deliver_offline [OF _ enq, of view] tasks_run_ok [OF laws ok, of between] show ?thesis by simp
    next
      case (Some registration)
      let ?i = "registration_receiver registration"
      have t: "bt_get (router_connections ?r) ?a =
          Some \<lparr>connection_generation = registration_generation registration, connection_sender = ?i\<rparr>"
        "\<not> channel_closed (view (router_channels ?r ! ?i))"
        using sys Some by (simp_all add: system_ok_def task_ok_def Let_def)
      obtain sent ch where send: "mpsc_try_send Q (router_channels ?r ! ?i) frame = (sent, ch)" by fastforce
      note live = deliver_live [OF laws ok Some send]
      let ?s1 = "s\<lparr>broker_router := ?r\<lparr>router_channels := (router_channels ?r)[?i := ch]\<rparr>\<rparr>"
      have open_: "sent \<noteq> Inl Closed" using mpsc_send [OF laws send] t(2) by (auto split: if_splits)
      have s': "s' = ?s1\<lparr>history_accepted := (history_accepted s)(?a := history_accepted s ?a @ (if is_ok sent then [frame] else []))\<rparr>"
        using run e t(1) send open_
        by (cases sent; cases "projl sent")
          (auto simp: ca_deliver_def route_ca_locked_def note_accepted_def Let_def split: TrySendError.splits)
      have "system_ok view s'" using live(1) by (simp add: s' system_ok_def)
      with live(2,3) show ?thesis by (simp add: broker_ok_def s' limits_def)
    qed
  qed
qed

lemma broker_step_ok:
  assumes laws: "mpsc_laws Q view" and ok: "broker_ok view s" and run: "broker_step Q off event s = Some s'"
  shows "broker_ok view s' \<and> limits s' = limits s"
proof (cases event)
  case (Task task)
  with run task_step_ok [OF laws ok] show ?thesis by simp
next
  case (Ca_delivery between frame)
  with run ca_deliver_ok [OF laws ok, of between frame] show ?thesis
    by (cases "ca_deliver Q off between frame s") simp
next
  case Ca_take
  obtain received channel where "mpsc_try_recv Q (router_ca_channel (broker_router s)) = (received, channel)" by fastforce
  with run Ca_take have s': "s' = s\<lparr>broker_router := (broker_router s)\<lparr>router_ca_channel := channel\<rparr>\<rparr>" by (simp add: ca_take_def)
  have "backlog view s' = backlog view s"
    by (simp add: s' backlog_def held_def fun_eq_iff split: option.splits)
  moreover have "system_ok view s'" using ok by (simp add: s' broker_ok_def system_ok_def task_ok_def)
  ultimately show ?thesis using ok by (simp add: s' broker_ok_def fifo_ok_def limits_def)
qed

lemma broker_reachable_ok:
  assumes "broker_reachable Q off s0 s" "mpsc_laws Q view" "broker_ok view s0"
  shows "broker_ok view s \<and> limits s = limits s0"
  using assms(1)
proof (induction rule: broker_reachable.induct)
  case (step s event s')
  with broker_step_ok [OF assms(2), of s event s'] show ?case by simp
qed (use assms(3) in simp)

lemma broker_start_ok:
  assumes "inv offline" "\<And>a. queue offline a = []"
  shows "broker_ok view (broker_start (with_offline_store Q maximum online_depth ca_queue_depth offline))"
  using assms by (auto simp: broker_ok_def system_ok_def fifo_ok_def relayed_def broker_start_def with_offline_store_def backlog_def)

end

section \<open>Requests\<close>

text \<open>What may be in the queue to the CA.\<close>

definition request_frame :: "bytes \<Rightarrow> bool" where
  "request_frame frame \<longleftrightarrow> (\<exists>e. parse_envelope frame = Inr e \<and> envelope_sender e \<noteq> AgentId_CA \<and>
     envelope_recipient e = AgentId_CA \<and> envelope_message_type e \<noteq> MT_PublicationResponse)"

lemma request_types: "t \<in> {MT_SetEnvironment, MT_Subscribe, MT_SubscribePermanent, MT_Publish} \<longleftrightarrow> t \<noteq> MT_PublicationResponse"
  by (cases t) simp_all

lemma route_agent_request_iff:
  "route_agent_request Q r a frame = (Inr (), r') \<longleftrightarrow>
     (\<exists>e ch. parse_envelope frame = Inr e \<and> envelope_sender e = a \<and> a \<noteq> AgentId_CA \<and> envelope_recipient e = AgentId_CA \<and>
        envelope_message_type e \<noteq> MT_PublicationResponse \<and> 0 < router_ca_depth r \<and>
        mpsc_try_send Q (router_ca_channel r) frame = (Inr (), ch) \<and> r' = r\<lparr>router_ca_channel := ch\<rparr>)"
  unfolding route_agent_request_def request_types
  by (cases "parse_envelope frame"; cases "mpsc_try_send Q (router_ca_channel r) frame"; cases "fst (mpsc_try_send Q (router_ca_channel r) frame)")
    (auto simp: Let_def)

section \<open>Properties\<close>

text \<open>What the broker owes an agent, with the in-memory offline store: the frame that is being written, what
  else its task holds, then what waits offline.\<close>

definition owed :: "('c \<Rightarrow> channel_view) \<Rightarrow> ('c, MemoryOfflineQueueStore) broker_system \<Rightarrow> AgentId \<Rightarrow> bytes list" where
  "owed view s a = (case broker_writing s a of None \<Rightarrow> [] | Some frame \<Rightarrow> [frame]) @
     (case broker_tasks s a of None \<Rightarrow> [] | Some registration \<Rightarrow> held view (broker_router s) registration)
     @ queue_of (store_queues (router_offline (broker_router s))) a"

lemma owed_backlog: "owed = memory.backlog"
  by (simp add: owed_def memory.backlog_def fun_eq_iff)

lemma with_limits_ok:
  "memory.broker_ok view (broker_start (with_limits Q maximum online_depth offline_depth ca_depth))"
  unfolding with_limits_def
  by (rule memory.broker_start_ok) (simp_all add: MemoryOfflineQueueStore_new_def memory_inv_def)

text \<open>C13: the broker relays without inventing, repeating or losing a frame, and first in first out unless
  a registration falls into the gap of \<open>route_ca_delivery\<close>. After any interleaving of connections,
  successful and failing writes, agent frames, disconnections and CA deliveries, whose two halves may be
  apart by any schedule of the tasks, the frames written to an agent's socket and those still owed are
  accepted frames, each at most as often as it was accepted; all of them unless a disconnection reported
  that its offline queue overflowed. In that order they are a subsequence of the accepted frames, and
  without an overflow exactly those, unless a frame was stored offline for the agent when it had just
  connected.\<close>

theorem broker_fifo:
  fixes a :: AgentId
  assumes "mpsc_laws Q view"
    "broker_reachable Q memory_offline (broker_start (with_limits Q maximum online_depth offline_depth ca_depth)) s"
  defines "frames \<equiv> history_written s a @ owed view s a"
  shows "mset frames \<subseteq># mset (history_accepted s a) \<and>
    (\<not> history_overflowed s a \<longrightarrow> mset frames = mset (history_accepted s a)) \<and>
    (\<not> history_raced s a \<longrightarrow> subseq frames (history_accepted s a)) \<and>
    (\<not> history_raced s a \<and> \<not> history_overflowed s a \<longrightarrow> frames = history_accepted s a)"
proof -
  have "relayed (history_raced s a) (history_overflowed s a) frames (history_accepted s a)"
    using memory.broker_reachable_ok [OF assms(2,1) with_limits_ok]
    by (simp add: memory.broker_ok_def memory.fifo_ok_def owed_backlog frames_def)
  with relayed_exact [OF this] show ?thesis by (simp add: relayed_def)
qed

text \<open>The broker stays within its bounds in every reachable state: connections, each agent's offline
  queue and each live queue.\<close>

theorem broker_bounded:
  assumes "mpsc_laws Q view"
    "broker_reachable Q memory_offline (broker_start (with_limits Q maximum online_depth offline_depth ca_depth)) s"
  shows "connection_count (broker_router s) \<le> maximum \<and>
    memory_len (router_offline (broker_router s)) a \<le> offline_depth \<and>
    (\<forall>registration. broker_tasks s a = Some registration \<longrightarrow>
       length (channel_queue (view (router_channels (broker_router s) ! registration_receiver registration))) \<le> online_depth)"
proof -
  have "memory.limits s = (offline_depth, maximum, online_depth)" and ok: "memory.system_ok view s"
    using memory.broker_reachable_ok [OF assms(2,1) with_limits_ok]
    by (simp_all add: memory.broker_ok_def memory.limits_def broker_start_def with_limits_def with_offline_store_def
        MemoryOfflineQueueStore_new_def)
  then show ?thesis
    by (auto simp: memory.limits_def memory.system_ok_def memory.task_ok_def connection_count_def memory_len_def memory_inv_def Let_def)
qed

text \<open>C27: an agent can only send its own requests. \<open>route_agent_request\<close> accepts a frame exactly when it
  parses, names the connection's identity as its sender, is addressed to the CA and is a request;
  then the frame, unchanged, is all that is added to the queue to the CA.\<close>

theorem agent_request_exact:
  assumes "mpsc_laws Q view"
  shows "(fst (route_agent_request Q r a frame) = Inr () \<longleftrightarrow>
      (\<exists>e. parse_envelope frame = Inr e \<and> envelope_sender e = a \<and> a \<noteq> AgentId_CA \<and> envelope_recipient e = AgentId_CA \<and>
         envelope_message_type e \<noteq> MT_PublicationResponse) \<and> 0 < router_ca_depth r \<and>
      \<not> channel_closed (view (router_ca_channel r)) \<and>
      length (channel_queue (view (router_ca_channel r))) < channel_capacity (view (router_ca_channel r))) \<and>
    channel_queue (view (router_ca_channel (snd (route_agent_request Q r a frame)))) =
      channel_queue (view (router_ca_channel r)) @ (if fst (route_agent_request Q r a frame) = Inr () then [frame] else [])"
proof -
  obtain sent ch where send: "mpsc_try_send Q (router_ca_channel r) frame = (sent, ch)" by fastforce
  note sl = mpsc_send [OF assms send]
  have iff: "fst (route_agent_request Q r a frame) = Inr () \<longleftrightarrow> (\<exists>r'. route_agent_request Q r a frame = (Inr (), r'))"
    by (cases "route_agent_request Q r a frame") auto
  show ?thesis
  proof (cases "fst (route_agent_request Q r a frame) = Inr ()")
    case True
    with iff obtain r' where r': "route_agent_request Q r a frame = (Inr (), r')" by blast
    with send sl show ?thesis by (auto simp: route_agent_request_iff [THEN iffD1] dest!: route_agent_request_iff [THEN iffD1] split: if_splits)
  next
    case False
    have "view (router_ca_channel (snd (route_agent_request Q r a frame))) = view (router_ca_channel r)"
      using False send sl
      by (cases "parse_envelope frame") (auto simp: route_agent_request_def Let_def split: if_splits)
    with False iff send sl show ?thesis
      unfolding iff route_agent_request_iff by (auto split: if_splits)
  qed
qed

text \<open>C30: \<open>route_ca_delivery\<close> releases the lock before it stores a frame offline, so a registration in
  between breaks the order: the agent is connected and receives the second delivery, while the
  first, accepted before it, waits in the offline queue until the agent connects again.\<close>

theorem delivery_registration_race:
  assumes "mpsc_laws Q view" "parse_envelope f1 = Inr e1" "parse_envelope f2 = Inr e2"
    "envelope_sender e1 = AgentId_CA" "envelope_sender e2 = AgentId_CA"
    "envelope_message_type e1 = MT_PublicationResponse" "envelope_message_type e2 = MT_PublicationResponse"
    "envelope_recipient e1 = a" "envelope_recipient e2 = a" "a \<noteq> AgentId_CA"
    "bt_get (router_connections r) a = None" "bt_len (router_connections r) < router_maximum r"
    "0 < router_online_depth r" "0 < store_depth (router_offline r)" "queue_of (store_queues (router_offline r)) a = []"
  shows "\<exists>progress r1 registration r2 r3 r4 registration' r5. route_ca_locked Q r f1 = (progress, r1) \<and>
    register Q memory_offline r1 a = (Inr registration, r2) \<and>
    route_ca_unlocked memory_offline r2 progress = (Inr (), r3) \<and>
    route_ca_delivery Q memory_offline r3 f2 = (Inr (), r4) \<and>
    try_recv Q r4 registration = (Some f2, registration', r5) \<and>
    fst (try_recv Q r5 registration') = None \<and> queue_of (store_queues (router_offline r5)) a = [f1]"
proof -
  let ?i = "length (router_channels r)" and ?ch = "mpsc_channel Q (router_online_depth r)"
  let ?reg = "\<lparr>registration_identity = a, registration_generation = router_generation r,
    registration_pending = [], registration_receiver = ?i\<rparr>"
  note new = mpsc_new [OF assms(1,13)]
  obtain sent ch1 where send: "mpsc_try_send Q ?ch f2 = (sent, ch1)" by fastforce
  from mpsc_send [OF assms(1) send] new assms(13) have s: "sent = Inr ()"
    "view ch1 = \<lparr>channel_queue = [f2], channel_capacity = router_online_depth r, channel_closed = False\<rparr>" by simp_all
  obtain got ch2 where recv: "mpsc_try_recv Q ch1 = (got, ch2)" by fastforce
  from mpsc_recv [OF assms(1) recv] s have g: "got = Some f2" "channel_queue (view ch2) = []" by simp_all
  obtain got2 ch3 where recv2: "mpsc_try_recv Q ch2 = (got2, ch3)" by fastforce
  from mpsc_recv [OF assms(1) recv2] g have g2: "got2 = None" by simp
  have "route_ca_locked Q r f1 = (Store_offline a f1, r)"
    using assms by (simp add: route_ca_locked_def)
  moreover obtain r2 where r2: "register Q memory_offline r a = (Inr ?reg, r2)"
    "router_channels r2 = router_channels r @ [?ch]" "store_depth (router_offline r2) = store_depth (router_offline r)"
    "queue_of (store_queues (router_offline r2)) a = []"
    "bt_get (router_connections r2) a = Some \<lparr>connection_generation = router_generation r, connection_sender = ?i\<rparr>"
    using assms(10-15) by (simp add: register_def bt_contains_key_def memory_offline_def memory_take_def Let_def)
  moreover obtain r3 where r3: "route_ca_unlocked memory_offline r2 (Store_offline a f1) = (Inr (), r3)"
    "router_channels r3 = router_channels r2" "router_connections r3 = router_connections r2"
    "queue_of (store_queues (router_offline r3)) a = [f1]"
    using r2(3,4) assms(14) by (simp add: route_ca_unlocked_def memory_offline_def memory_enqueue_def Let_def)
  moreover obtain r4 where r4: "route_ca_delivery Q memory_offline r3 f2 = (Inr (), r4)"
    "router_channels r4 = router_channels r @ [ch1]" "router_offline r4 = router_offline r3"
    using assms r2 r3 send s(1) by (simp add: route_ca_delivery_def route_ca_locked_def route_ca_unlocked_def Let_def)
  moreover obtain r5 where r5: "try_recv Q r4 ?reg = (Some f2, ?reg, r5)" "router_channels r5 = router_channels r @ [ch2]"
    "router_offline r5 = router_offline r4"
    using r4(2) recv g(1) by (simp add: try_recv_def Let_def)
  moreover have "fst (try_recv Q r5 ?reg) = None" using r5(2) recv2 g2 by (simp add: try_recv_def Let_def)
  ultimately show ?thesis by (metis (no_types, lifting))
qed

section \<open>Witnesses\<close>

text \<open>Deliveries and a request as the broker sees them.\<close>

definition demo_frame :: "MessageType \<Rightarrow> AgentId \<Rightarrow> AgentId \<Rightarrow> u8 \<Rightarrow> bytes" where
  "demo_frame t sender recipient b =
     (let header = header_bytes t sender recipient (HandlerId 3) (SessionId 4) 5 6 1 in
      frame_bytes \<lparr>envelope_message_type = t, envelope_sender = sender, envelope_recipient = recipient,
        envelope_handler = HandlerId 3, envelope_session_id = SessionId 4, envelope_ephemeral_public = 5, envelope_salt = 6,
        envelope_ciphertext = [b], envelope_tag = 7, envelope_signature = 8, envelope_header = header,
        envelope_signed_bytes = header @ [b] @ to_be_bytes (7 :: array16)\<rparr>)"

lemma demo_frame_parses:
  "\<exists>e. parse_envelope (demo_frame t sender recipient b) = Inr e \<and> envelope_message_type e = t \<and>
     envelope_sender e = sender \<and> envelope_recipient e = recipient"
  unfolding demo_frame_def Let_def
  by (rule exI, rule conjI, rule parse_frame_bytes) (simp_all add: envelope_wf_def const_defs)

abbreviation demo_router :: "(channel_view, MemoryOfflineQueueStore) BrokerRouter" where
  "demo_router \<equiv> with_limits fifo_mpsc 2 1 1 1"

theorem delivery_registration_race_witness:
  "let f1 = demo_frame MT_PublicationResponse AgentId_CA (AgentId 6) 1; f2 = demo_frame MT_PublicationResponse AgentId_CA (AgentId 6) 2 in
   \<exists>registration r2 r3 r4 r5. register fifo_mpsc memory_offline demo_router (AgentId 6) = (Inr registration, r2) \<and>
     route_ca_unlocked memory_offline r2 (fst (route_ca_locked fifo_mpsc demo_router f1)) = (Inr (), r3) \<and>
     route_ca_delivery fifo_mpsc memory_offline r3 f2 = (Inr (), r4) \<and>
     fst (try_recv fifo_mpsc r4 registration) = Some f2"
proof -
  let ?a = "AgentId 6"
  let ?f1 = "demo_frame MT_PublicationResponse AgentId_CA ?a 1" and ?f2 = "demo_frame MT_PublicationResponse AgentId_CA ?a 2"
  obtain e1 e2 where e: "parse_envelope ?f1 = Inr e1" "parse_envelope ?f2 = Inr e2"
    "envelope_sender e1 = AgentId_CA" "envelope_sender e2 = AgentId_CA"
    "envelope_message_type e1 = MT_PublicationResponse" "envelope_message_type e2 = MT_PublicationResponse"
    "envelope_recipient e1 = ?a" "envelope_recipient e2 = ?a"
    using demo_frame_parses by metis
  have r: "bt_get (router_connections demo_router) ?a = None" "bt_len (router_connections demo_router) < router_maximum demo_router"
    "0 < router_online_depth demo_router" "0 < store_depth (router_offline demo_router)"
    "queue_of (store_queues (router_offline demo_router)) ?a = []" "?a \<noteq> AgentId_CA"
    by (simp_all add: with_limits_def with_offline_store_def MemoryOfflineQueueStore_new_def AgentId_CA_def)
  have "fst (route_ca_locked fifo_mpsc demo_router ?f1) = Store_offline ?a ?f1 \<and> snd (route_ca_locked fifo_mpsc demo_router ?f1) = demo_router"
    using e r by (simp add: route_ca_locked_def Let_def)
  with delivery_registration_race [OF fifo_mpsc_laws e r(6) r(1-5)] show ?thesis
    unfolding Let_def by (metis fst_conv snd_conv)
qed

text \<open>A delivery that waited offline, was taken over by a connection and written.\<close>

lemma demo_run:
  "\<exists>s. broker_run fifo_mpsc memory_offline
      [Ca_delivery [] (demo_frame MT_PublicationResponse AgentId_CA (AgentId 6) 1), Task (Connect (AgentId 6)), Task (Take (AgentId 6)), Task (Write (AgentId 6) True)]
      (broker_start demo_router) = Some s \<and>
    history_accepted s (AgentId 6) = [demo_frame MT_PublicationResponse AgentId_CA (AgentId 6) 1] \<and>
    \<not> history_overflowed s (AgentId 6) \<and> \<not> history_raced s (AgentId 6) \<and> broker_tasks s (AgentId 6) \<noteq> None"
proof -
  let ?f = "demo_frame MT_PublicationResponse AgentId_CA (AgentId 6) 1"
  obtain e where e: "parse_envelope ?f = Inr e" "envelope_sender e = AgentId_CA"
    "envelope_message_type e = MT_PublicationResponse" "envelope_recipient e = AgentId 6"
    using demo_frame_parses by blast
  have "bt_contains_key bt_empty (AgentId 6) = False" "bt_len bt_empty = 0" "AgentId 6 \<noteq> AgentId_CA"
    by (simp_all add: bt_contains_key_def AgentId_CA_def)
  with e show ?thesis
    by (simp add: ca_deliver_def note_accepted_def route_ca_locked_def route_ca_unlocked_def broker_start_def with_limits_def
        with_offline_store_def MemoryOfflineQueueStore_new_def memory_offline_def memory_enqueue_def Let_def task_connect_def
        register_def memory_take_def task_take_def task_write_def try_recv_def)
qed

theorem broker_fifo_witness:
  "\<exists>s. broker_run fifo_mpsc memory_offline
      [Ca_delivery [] (demo_frame MT_PublicationResponse AgentId_CA (AgentId 6) 1), Task (Connect (AgentId 6)), Task (Take (AgentId 6)), Task (Write (AgentId 6) True)]
      (broker_start demo_router) = Some s \<and>
    history_written s (AgentId 6) @ owed (\<lambda>ch. ch) s (AgentId 6) = [demo_frame MT_PublicationResponse AgentId_CA (AgentId 6) 1]"
proof -
  from demo_run obtain s where s: "broker_run fifo_mpsc memory_offline
      [Ca_delivery [] (demo_frame MT_PublicationResponse AgentId_CA (AgentId 6) 1), Task (Connect (AgentId 6)), Task (Take (AgentId 6)), Task (Write (AgentId 6) True)]
      (broker_start demo_router) = Some s"
    "history_accepted s (AgentId 6) = [demo_frame MT_PublicationResponse AgentId_CA (AgentId 6) 1]"
    "\<not> history_overflowed s (AgentId 6)" "\<not> history_raced s (AgentId 6)" by blast
  from broker_fifo [OF fifo_mpsc_laws broker_run_reachable [OF broker_reachable.start s(1)], of "AgentId 6"] s show ?thesis by auto
qed

theorem broker_bounded_witness:
  "\<exists>s registration. broker_run fifo_mpsc memory_offline
      [Ca_delivery [] (demo_frame MT_PublicationResponse AgentId_CA (AgentId 6) 1), Task (Connect (AgentId 6)), Task (Take (AgentId 6)), Task (Write (AgentId 6) True)]
      (broker_start demo_router) = Some s \<and> broker_tasks s (AgentId 6) = Some registration \<and> connection_count (broker_router s) \<le> 2 \<and>
    length (channel_queue (router_channels (broker_router s) ! registration_receiver registration)) \<le> 1"
proof -
  from demo_run obtain s registration where s: "broker_run fifo_mpsc memory_offline
      [Ca_delivery [] (demo_frame MT_PublicationResponse AgentId_CA (AgentId 6) 1), Task (Connect (AgentId 6)), Task (Take (AgentId 6)), Task (Write (AgentId 6) True)]
      (broker_start demo_router) = Some s" "broker_tasks s (AgentId 6) = Some registration" by blast
  from broker_bounded [OF fifo_mpsc_laws broker_run_reachable [OF broker_reachable.start s(1)], of "AgentId 6"] s show ?thesis by auto
qed

theorem agent_request_witness:
  "fst (route_agent_request fifo_mpsc demo_router (AgentId 6) (demo_frame MT_Publish (AgentId 6) AgentId_CA 1)) = Inr ()"
proof -
  have "0 < router_ca_depth demo_router" "\<not> channel_closed (router_ca_channel demo_router)"
    "length (channel_queue (router_ca_channel demo_router)) < channel_capacity (router_ca_channel demo_router)" "AgentId 6 \<noteq> AgentId_CA"
    by (simp_all add: with_limits_def with_offline_store_def fifo_mpsc_def AgentId_CA_def)
  moreover obtain e where "parse_envelope (demo_frame MT_Publish (AgentId 6) AgentId_CA 1) = Inr e" "envelope_message_type e = MT_Publish"
    "envelope_sender e = AgentId 6" "envelope_recipient e = AgentId_CA"
    using demo_frame_parses by blast
  ultimately show ?thesis
    by (subst agent_request_exact [OF fifo_mpsc_laws, THEN conjunct1]) auto
qed

end
