(* ===== verification/Link.thy ===== *)
theory Link
  imports Types Btree Wire
begin

text \<open>
  \<open>infrastructure-link/src/lib.rs\<close>: the framing, the authentication code and the bounded
  collections of the link between broker and CA. SHA-256 is a parameter. The specifications are
  the frame layout, an association list in insertion order for \<open>PendingFrames\<close>, and the list of
  the latest identifiers for \<open>DedupWindow\<close>.
\<close>

section \<open>Definitions\<close>

definition LINK_HEADER_LEN :: usize where [const_defs]: "LINK_HEADER_LEN = 28"
definition MAX_LINK_FRAME_LEN :: usize where [const_defs]: "MAX_LINK_FRAME_LEN = LINK_HEADER_LEN + MAX_FRAME_LEN"
definition LINK_MAGIC :: bytes where "LINK_MAGIC = ascii ''SPLK''"
definition LINK_VERSION :: u8 where "LINK_VERSION = 1"

datatype MessageId = MessageId (message_array: array16)

instantiation MessageId :: linorder
begin
definition less_eq_MessageId :: "MessageId \<Rightarrow> MessageId \<Rightarrow> bool" where
  "less_eq_MessageId a b \<longleftrightarrow> message_array a \<le> message_array b"
definition less_MessageId :: "MessageId \<Rightarrow> MessageId \<Rightarrow> bool" where
  "less_MessageId a b \<longleftrightarrow> message_array a < message_array b"
instance
  by standard (auto simp: less_eq_MessageId_def less_MessageId_def MessageId.expand)
end

datatype FrameKind = Kind_Request | Kind_Delivery | Kind_Ack | Kind_AuthChallenge | Kind_AuthResponse | Kind_AuthOk

fun FrameKind_u8 :: "FrameKind \<Rightarrow> u8" where
  "FrameKind_u8 Kind_Request = 1"
| "FrameKind_u8 Kind_Delivery = 2"
| "FrameKind_u8 Kind_Ack = 3"
| "FrameKind_u8 Kind_AuthChallenge = 4"
| "FrameKind_u8 Kind_AuthResponse = 5"
| "FrameKind_u8 Kind_AuthOk = 6"

datatype LinkError = InvalidFrame | Link_Oversized | QueueFull | Authentication

definition FrameKind_parse :: "u8 \<Rightarrow> LinkError + FrameKind" where
  "FrameKind_parse val =
     (if val = 1 then Inr Kind_Request
      else if val = 2 then Inr Kind_Delivery
      else if val = 3 then Inr Kind_Ack
      else if val = 4 then Inr Kind_AuthChallenge
      else if val = 5 then Inr Kind_AuthResponse
      else if val = 6 then Inr Kind_AuthOk
      else Inl InvalidFrame)"

record LinkFrame =
  link_kind :: FrameKind
  link_id :: MessageId
  link_payload :: bytes

definition encode_link :: "FrameKind \<Rightarrow> MessageId \<Rightarrow> bytes \<Rightarrow> LinkError + bytes" where
  "encode_link kind ident payload =
     (if length payload > MAX_FRAME_LEN then Inl Link_Oversized
      else if kind \<in> {Kind_Ack, Kind_AuthOk} \<and> payload \<noteq> [] then Inl InvalidFrame
      else if \<not> length payload < 2 ^ 32 then Inl Link_Oversized
      else
        let payload_len = of_nat (length payload) :: u32 in
        Inr (LINK_MAGIC @ [LINK_VERSION] @ [FrameKind_u8 kind] @ to_be_bytes (0 :: u16)
             @ to_be_bytes (message_array ident) @ to_be_bytes payload_len @ payload))"

definition decode_link :: "bytes \<Rightarrow> LinkError + LinkFrame" where
  "decode_link input =
     (if length input < LINK_HEADER_LEN then Inl InvalidFrame
      else if length input > MAX_LINK_FRAME_LEN then Inl Link_Oversized
      else if range_of input 0 4 \<noteq> LINK_MAGIC \<or> input ! 4 \<noteq> LINK_VERSION \<or> range_of input 6 8 \<noteq> [0, 0]
      then Inl InvalidFrame
      else tryE (FrameKind_parse (input ! 5)) (\<lambda>kind.
      tryE (ok_or (try_into_array (range_of input 8 24)) InvalidFrame) (\<lambda>ident.
      tryE (ok_or (try_into_array (range_of input 24 28)) InvalidFrame) (\<lambda>payload_len.
      tryE (ok_or (checked_add LINK_HEADER_LEN (unat (payload_len :: u32))) Link_Oversized) (\<lambda>expected.
      if expected \<noteq> length input \<or> unat payload_len > MAX_FRAME_LEN then Inl InvalidFrame
      else
        let payload = drop LINK_HEADER_LEN input in
        if kind \<in> {Kind_Ack, Kind_AuthOk} \<and> payload \<noteq> [] then Inl InvalidFrame
        else Inr \<lparr>link_kind = kind, link_id = MessageId ident, link_payload = payload\<rparr>)))))"

text \<open>\<open>sha256\<close> is the digest of the concatenated updates. The XOR of the key blocks is per byte.\<close>

definition xor_block :: "u8 \<Rightarrow> array32 \<Rightarrow> bytes" where
  "xor_block pad secret = map (\<lambda>b. xor pad b) (to_be_bytes secret) @ replicate 32 pad"

definition authentication_mac :: "(bytes \<Rightarrow> array32) \<Rightarrow> array32 \<Rightarrow> array32 \<Rightarrow> array32" where
  "authentication_mac sha256 secret challenge =
     (let inner_key = xor_block 0x36 secret;
          outer_key = xor_block 0x5c secret;
          inner = sha256 (inner_key @ ascii ''SecurePubSub/Broker-CA/v1'' @ to_be_bytes challenge) in
      sha256 (outer_key @ to_be_bytes inner))"

definition verify_authentication ::
  "(bytes \<Rightarrow> array32) \<Rightarrow> array32 \<Rightarrow> array32 \<Rightarrow> bytes \<Rightarrow> LinkError + unit" where
  "verify_authentication sha256 secret challenge response =
     (let expected = to_be_bytes (authentication_mac sha256 secret challenge) in
      if length response = length expected \<and> expected = response then Inr () else Inl Authentication)"

record PendingFrames =
  pending_maximum :: usize
  pending_frames :: "(MessageId, bytes) btree"
  pending_order :: "MessageId list"

definition PendingFrames_new :: "usize \<Rightarrow> PendingFrames" where
  "PendingFrames_new maximum = \<lparr>pending_maximum = maximum, pending_frames = bt_empty, pending_order = []\<rparr>"

definition pending_insert :: "PendingFrames \<Rightarrow> MessageId \<Rightarrow> bytes \<Rightarrow> (LinkError + unit) \<times> PendingFrames" where
  "pending_insert p ident encoded =
     (if bt_contains_key (pending_frames p) ident then (Inl InvalidFrame, p)
      else if bt_len (pending_frames p) \<ge> pending_maximum p then (Inl QueueFull, p)
      else (Inr (), p\<lparr>pending_frames := bt_insert ident encoded (pending_frames p),
                      pending_order := pending_order p @ [ident]\<rparr>))"

definition pending_acknowledge :: "PendingFrames \<Rightarrow> MessageId \<Rightarrow> bool \<times> PendingFrames" where
  "pending_acknowledge p ident =
     (let removed = bt_contains_key (pending_frames p) ident;
          p = p\<lparr>pending_frames := bt_remove ident (pending_frames p)\<rparr> in
      (removed,
       if removed then p\<lparr>pending_order := filter (\<lambda>candidate. candidate \<noteq> ident) (pending_order p)\<rparr> else p))"

definition pending_snapshot :: "PendingFrames \<Rightarrow> bytes list" where
  "pending_snapshot p = List.map_filter (bt_get (pending_frames p)) (pending_order p)"

definition pending_len :: "PendingFrames \<Rightarrow> usize" where
  "pending_len p = bt_len (pending_frames p)"

definition pending_is_empty :: "PendingFrames \<Rightarrow> bool" where
  "pending_is_empty p \<longleftrightarrow> pending_frames p = []"

definition pending_is_full :: "PendingFrames \<Rightarrow> bool" where
  "pending_is_full p \<longleftrightarrow> bt_len (pending_frames p) \<ge> pending_maximum p"

definition pending_remaining :: "PendingFrames \<Rightarrow> usize" where
  "pending_remaining p = pending_maximum p - bt_len (pending_frames p)"

record DedupWindow =
  dedup_maximum :: usize
  dedup_order :: "MessageId list"
  dedup_ids :: "(MessageId, unit) btree"

definition DedupWindow_new :: "usize \<Rightarrow> DedupWindow" where
  "DedupWindow_new maximum = \<lparr>dedup_maximum = maximum, dedup_order = [], dedup_ids = bt_empty\<rparr>"

definition dedup_contains :: "DedupWindow \<Rightarrow> MessageId \<Rightarrow> bool" where
  "dedup_contains w ident = bt_contains_key (dedup_ids w) ident"

definition dedup_insert :: "DedupWindow \<Rightarrow> MessageId \<Rightarrow> (LinkError + unit) \<times> DedupWindow" where
  "dedup_insert w ident =
     (if dedup_maximum w = 0 then (Inl QueueFull, w)
      else if bt_contains_key (dedup_ids w) ident then (Inr (), w)
      else
        let w = (if bt_len (dedup_ids w) = dedup_maximum w
                 then (case dedup_order w of
                         [] \<Rightarrow> w
                       | oldest # order \<Rightarrow> w\<lparr>dedup_order := order, dedup_ids := bt_remove oldest (dedup_ids w)\<rparr>)
                 else w) in
        (Inr (), w\<lparr>dedup_order := dedup_order w @ [ident], dedup_ids := bt_insert ident () (dedup_ids w)\<rparr>))"

section \<open>Frames\<close>

definition link_bytes :: "LinkFrame \<Rightarrow> bytes" where
  "link_bytes f = LINK_MAGIC @ [LINK_VERSION] @ [FrameKind_u8 (link_kind f)] @ to_be_bytes (0 :: u16)
     @ to_be_bytes (message_array (link_id f)) @ to_be_bytes (of_nat (length (link_payload f)) :: u32) @ link_payload f"

definition link_valid :: "LinkFrame \<Rightarrow> bool" where
  "link_valid f \<longleftrightarrow> length (link_payload f) \<le> MAX_FRAME_LEN \<and>
     (link_kind f \<in> {Kind_Ack, Kind_AuthOk} \<longrightarrow> link_payload f = [])"

lemma FrameKind_parse_iff: "FrameKind_parse val = Inr kind \<longleftrightarrow> val = FrameKind_u8 kind"
  by (cases kind) (auto simp: FrameKind_parse_def)

lemma encode_link_ok:
  "link_valid \<lparr>link_kind = kind, link_id = ident, link_payload = payload\<rparr> \<Longrightarrow>
     encode_link kind ident payload = Inr (link_bytes \<lparr>link_kind = kind, link_id = ident, link_payload = payload\<rparr>)"
  by (auto simp: encode_link_def link_bytes_def link_valid_def const_defs)

lemma encode_link_Inr:
  "encode_link kind ident payload = Inr bs \<longleftrightarrow>
     link_valid \<lparr>link_kind = kind, link_id = ident, link_payload = payload\<rparr> \<and>
     bs = link_bytes \<lparr>link_kind = kind, link_id = ident, link_payload = payload\<rparr>"
  by (auto simp: encode_link_def link_bytes_def link_valid_def const_defs)

lemma length_LINK_MAGIC [simp]: "length LINK_MAGIC = 4"
  by (simp add: LINK_MAGIC_def ascii_def)

lemma link_bytes_fields:
  "length (link_bytes f) = 28 + length (link_payload f)" "range_of (link_bytes f) 0 4 = LINK_MAGIC"
  "link_bytes f ! 4 = LINK_VERSION" "link_bytes f ! 5 = FrameKind_u8 (link_kind f)" "range_of (link_bytes f) 6 8 = [0, 0]"
  "range_of (link_bytes f) 8 24 = to_be_bytes (message_array (link_id f))"
  "range_of (link_bytes f) 24 28 = to_be_bytes (of_nat (length (link_payload f)) :: u32)"
  "drop 28 (link_bytes f) = link_payload f"
  by (simp_all add: link_bytes_def range_of_def nth_append to_be_bytes_def numeral_2_eq_2)

lemma decode_link_bytes:
  assumes "link_valid f"
  shows "decode_link (link_bytes f) = Inr f"
proof -
  have n: "length (link_payload f) \<le> 4324" using assms by (simp add: link_valid_def const_defs)
  then have u: "unat (of_nat (length (link_payload f)) :: u32) = length (link_payload f)"
    by (simp add: unat_of_nat)
  have k: "FrameKind_parse (FrameKind_u8 (link_kind f)) = Inr (link_kind f)" by (simp add: FrameKind_parse_iff)
  have add: "checked_add 28 (length (link_payload f)) = Some (28 + length (link_payload f))"
    using n by (simp add: checked_add_def)
  show ?thesis
    using n assms by (auto simp: decode_link_def link_bytes_fields k u add const_defs link_valid_def Let_def)
qed

lemma decode_link_sound:
  assumes "decode_link input = Inr f"
  shows "link_valid f \<and> input = link_bytes f"
proof -
  have guards: "\<not> length input < LINK_HEADER_LEN" "\<not> length input > MAX_LINK_FRAME_LEN"
    "range_of input 0 4 = LINK_MAGIC" "input ! 4 = LINK_VERSION" "range_of input 6 8 = [0, 0]"
    using assms unfolding decode_link_def by (simp_all split: if_splits)
  then have "tryE (FrameKind_parse (input ! 5)) (\<lambda>kind.
      tryE (ok_or (try_into_array (range_of input 8 24)) InvalidFrame) (\<lambda>ident.
      tryE (ok_or (try_into_array (range_of input 24 28)) InvalidFrame) (\<lambda>payload_len.
      tryE (ok_or (checked_add LINK_HEADER_LEN (unat (payload_len :: u32))) Link_Oversized) (\<lambda>expected.
      if expected \<noteq> length input \<or> unat payload_len > MAX_FRAME_LEN then Inl InvalidFrame
      else
        let payload = drop LINK_HEADER_LEN input in
        if kind \<in> {Kind_Ack, Kind_AuthOk} \<and> payload \<noteq> [] then Inl InvalidFrame
        else Inr \<lparr>link_kind = kind, link_id = MessageId ident, link_payload = payload\<rparr>)))) = Inr f"
    using assms unfolding decode_link_def by simp
  then obtain kind ident payload_len where p: "FrameKind_parse (input ! 5) = Inr kind"
    "try_into_array (range_of input 8 24) = Some (ident :: array16)"
    "try_into_array (range_of input 24 28) = Some (payload_len :: u32)"
    "checked_add LINK_HEADER_LEN (unat payload_len) = Some (length input)" "unat payload_len \<le> MAX_FRAME_LEN"
    "\<not> (kind \<in> {Kind_Ack, Kind_AuthOk} \<and> drop LINK_HEADER_LEN input \<noteq> [])"
    "f = \<lparr>link_kind = kind, link_id = MessageId ident, link_payload = drop LINK_HEADER_LEN input\<rparr>"
    unfolding tryE_Inr_iff ok_or_Inr_iff Let_def by (metis linorder_not_le Inl_Inr_False sum.inject(2))
  have ident: "range_of input 8 24 = to_be_bytes ident" and size: "range_of input 24 28 = to_be_bytes payload_len"
    using p(2,3) by (simp_all add: try_into_array_Some_iff)
  have sum: "28 + unat payload_len = length input"
    using p(4) by (simp add: checked_add_def const_defs split: if_splits)
  have c: "28 \<le> length input" "length input \<le> 4352"
    "range_of input 0 4 = LINK_MAGIC" "input ! 4 = LINK_VERSION" "range_of input 6 8 = [0, 0]"
    "input ! 5 = FrameKind_u8 (link_kind f)" "range_of input 8 24 = to_be_bytes ident"
    "range_of input 24 28 = to_be_bytes payload_len" "28 + unat payload_len = length input" "unat payload_len \<le> 4324"
    "link_kind f \<in> {Kind_Ack, Kind_AuthOk} \<longrightarrow> drop 28 input = []"
    "link_id f = MessageId ident" "link_payload f = drop 28 input"
    using guards p(1,5,6) ident size sum by (auto simp: const_defs FrameKind_parse_iff p(7) not_less)
  have cut: "drop a input = range_of input a b @ drop b input" if "a \<le> b" for a b
    using that append_take_drop_id [of "b - a" "drop a input"] by (simp add: range_of_def)
  have "input = range_of input 0 4 @ drop 4 input" using cut [of 0 4] by simp
  also have "drop 4 input = range_of input 4 5 @ drop 5 input" by (rule cut) simp
  also have "drop 5 input = range_of input 5 6 @ drop 6 input" by (rule cut) simp
  also have "drop 6 input = range_of input 6 8 @ drop 8 input" by (rule cut) simp
  also have "drop 8 input = range_of input 8 24 @ drop 24 input" by (rule cut) simp
  also have "drop 24 input = range_of input 24 28 @ drop 28 input" by (rule cut) simp
  finally have "input = range_of input 0 4 @ range_of input 4 5 @ range_of input 5 6 @ range_of input 6 8 @ range_of input 8 24
      @ range_of input 24 28 @ drop 28 input" .
  moreover have "range_of input 4 5 = [input ! 4]" "range_of input 5 6 = [input ! 5]"
    using c(1) range_of_one [of 4 input] range_of_one [of 5 input] by simp_all
  moreover have "payload_len = of_nat (length (link_payload f))"
  proof -
    have "length (link_payload f) = unat payload_len" using c(9) arg_cong [OF c(13), of length] by simp
    then show ?thesis by simp
  qed
  moreover have "to_be_bytes (0 :: u16) = [0, 0]" by (simp add: to_be_bytes_def numeral_2_eq_2)
  ultimately have "input = link_bytes f"
    using c(3-8,12,13) by (simp add: link_bytes_def)
  moreover have "link_valid f" using c(9-11,13) by (simp add: link_valid_def const_defs)
  ultimately show ?thesis by blast
qed

lemma decode_link_iff: "decode_link input = Inr f \<longleftrightarrow> link_valid f \<and> input = link_bytes f"
  using decode_link_sound decode_link_bytes by blast

section \<open>Pending frames\<close>

text \<open>The abstract value: the unacknowledged frames in the order they were acquired.\<close>

definition pending_list :: "PendingFrames \<Rightarrow> (MessageId \<times> bytes) list" where
  "pending_list p = map (\<lambda>ident. (ident, the (bt_get (pending_frames p) ident))) (pending_order p)"

definition pending_inv :: "PendingFrames \<Rightarrow> bool" where
  "pending_inv p \<longleftrightarrow> bt_wf (pending_frames p) \<and> distinct (pending_order p) \<and>
     set (pending_order p) = dom (bt_get (pending_frames p)) \<and> length (pending_order p) \<le> pending_maximum p"

lemma pending_inv_len: "pending_inv p \<Longrightarrow> bt_len (pending_frames p) = length (pending_list p)"
  by (simp add: pending_inv_def pending_list_def bt.len_card) (metis distinct_card)

lemma pending_contains: "pending_inv p \<Longrightarrow> bt_contains_key (pending_frames p) ident \<longleftrightarrow> ident \<in> fst ` set (pending_list p)"
  by (auto simp: pending_inv_def bt_contains_key_def pending_list_def image_image)

lemma pending_new: "pending_inv (PendingFrames_new maximum)" "pending_list (PendingFrames_new maximum) = []"
  by (auto simp: pending_inv_def PendingFrames_new_def pending_list_def)

lemma pending_insert_refines:
  assumes "pending_inv p"
  shows "pending_insert p ident encoded =
    (if ident \<in> fst ` set (pending_list p) then (Inl InvalidFrame, p)
     else if pending_maximum p \<le> length (pending_list p) then (Inl QueueFull, p)
     else (Inr (), snd (pending_insert p ident encoded)))"
    and "pending_inv (snd (pending_insert p ident encoded))"
    and "pending_list (snd (pending_insert p ident encoded)) =
      (if ident \<in> fst ` set (pending_list p) \<or> pending_maximum p \<le> length (pending_list p) then pending_list p
       else pending_list p @ [(ident, encoded)])"
    and "pending_maximum (snd (pending_insert p ident encoded)) = pending_maximum p"
proof -
  note len = pending_inv_len [OF assms] and mem = pending_contains [OF assms, of ident]
  show "pending_insert p ident encoded =
    (if ident \<in> fst ` set (pending_list p) then (Inl InvalidFrame, p)
     else if pending_maximum p \<le> length (pending_list p) then (Inl QueueFull, p)
     else (Inr (), snd (pending_insert p ident encoded)))"
    by (simp add: pending_insert_def len mem)
  show "pending_maximum (snd (pending_insert p ident encoded)) = pending_maximum p"
    by (simp add: pending_insert_def)
  show "pending_inv (snd (pending_insert p ident encoded))"
    using assms len mem by (auto simp: pending_insert_def pending_inv_def bt_contains_key_def bt.keys_insert pending_list_def)
  show "pending_list (snd (pending_insert p ident encoded)) =
      (if ident \<in> fst ` set (pending_list p) \<or> pending_maximum p \<le> length (pending_list p) then pending_list p
       else pending_list p @ [(ident, encoded)])"
    using len mem assms by (auto simp: pending_insert_def pending_list_def pending_inv_def bt_contains_key_def)
qed

lemma pending_acknowledge_refines:
  assumes "pending_inv p"
  shows "fst (pending_acknowledge p ident) \<longleftrightarrow> ident \<in> fst ` set (pending_list p)"
    and "pending_inv (snd (pending_acknowledge p ident))"
    and "pending_list (snd (pending_acknowledge p ident)) = filter (\<lambda>(i, _). i \<noteq> ident) (pending_list p)"
    and "pending_maximum (snd (pending_acknowledge p ident)) = pending_maximum p"
proof -
  note mem = pending_contains [OF assms, of ident]
  show "fst (pending_acknowledge p ident) \<longleftrightarrow> ident \<in> fst ` set (pending_list p)"
    "pending_maximum (snd (pending_acknowledge p ident)) = pending_maximum p"
    by (simp_all add: pending_acknowledge_def mem Let_def)
  have "length (filter (\<lambda>candidate. candidate \<noteq> ident) (pending_order p)) \<le> length (pending_order p)" by simp
  then show "pending_inv (snd (pending_acknowledge p ident))"
    using assms
    by (auto simp: pending_acknowledge_def pending_inv_def bt.keys_remove bt_contains_key_def Let_def domIff
        intro: le_trans [OF length_filter_le])
  show "pending_list (snd (pending_acknowledge p ident)) = filter (\<lambda>(i, _). i \<noteq> ident) (pending_list p)"
  proof (cases "bt_contains_key (pending_frames p) ident")
    case True
    then show ?thesis
      by (auto simp: pending_acknowledge_def pending_list_def filter_map comp_def Let_def)
  next
    case False
    then have "ident \<notin> set (pending_order p)" using assms by (auto simp: pending_inv_def bt_contains_key_def)
    then have "filter (\<lambda>(i, _). i \<noteq> ident) (pending_list p) = pending_list p"
      by (auto simp: pending_list_def intro!: filter_True)
    moreover have "pending_list (snd (pending_acknowledge p ident)) = pending_list p"
      using False \<open>ident \<notin> _\<close> by (auto simp: pending_acknowledge_def pending_list_def Let_def)
    ultimately show ?thesis by simp
  qed
qed

lemma pending_snapshot_list: "pending_inv p \<Longrightarrow> pending_snapshot p = map snd (pending_list p)"
proof -
  assume "pending_inv p"
  then have "\<forall>i\<in>set (pending_order p). bt_get (pending_frames p) i \<noteq> None" by (auto simp: pending_inv_def)
  then have "List.map_filter (bt_get (pending_frames p)) (pending_order p) =
      map (\<lambda>i. the (bt_get (pending_frames p) i)) (pending_order p)"
    by (induction "pending_order p" arbitrary: p rule: list.induct) (auto simp: List.map_filter_def)
  then show ?thesis by (simp add: pending_snapshot_def pending_list_def comp_def)
qed

lemma pending_is_empty_list: "pending_inv p \<Longrightarrow> pending_is_empty p \<longleftrightarrow> pending_list p = []"
  using pending_inv_len [of p] by (simp add: pending_is_empty_def bt_len_def) (metis length_0_conv)

section \<open>The deduplication window\<close>

definition dedup_inv :: "DedupWindow \<Rightarrow> bool" where
  "dedup_inv w \<longleftrightarrow> bt_wf (dedup_ids w) \<and> distinct (dedup_order w) \<and>
     set (dedup_order w) = dom (bt_get (dedup_ids w)) \<and> length (dedup_order w) \<le> dedup_maximum w"

text \<open>The last \<open>n\<close> elements of a list.\<close>

definition last_n :: "nat \<Rightarrow> 'a list \<Rightarrow> 'a list" where
  "last_n n xs = drop (length xs - n) xs"

lemma dedup_new: "dedup_inv (DedupWindow_new maximum)" "dedup_order (DedupWindow_new maximum) = []"
  by (auto simp: dedup_inv_def DedupWindow_new_def)

lemma dedup_contains_order: "dedup_inv w \<Longrightarrow> dedup_contains w ident \<longleftrightarrow> ident \<in> set (dedup_order w)"
  by (auto simp: dedup_inv_def dedup_contains_def bt_contains_key_def)

lemma dedup_inv_len: "dedup_inv w \<Longrightarrow> bt_len (dedup_ids w) = length (dedup_order w)"
  by (simp add: dedup_inv_def bt.len_card) (metis distinct_card)

text \<open>An insertion appends the identifier and keeps the latest \<open>maximum\<close> ones.\<close>

lemma dedup_insert_refines:
  assumes "dedup_inv w"
  shows "fst (dedup_insert w ident) = (if dedup_maximum w = 0 then Inl QueueFull else Inr ())"
    and "dedup_inv (snd (dedup_insert w ident))"
    and "dedup_order (snd (dedup_insert w ident)) =
      (if ident \<in> set (dedup_order w) then dedup_order w else last_n (dedup_maximum w) (dedup_order w @ [ident]))"
    and "dedup_maximum (snd (dedup_insert w ident)) = dedup_maximum w"
proof -
  note len = dedup_inv_len [OF assms]
  have mem: "bt_contains_key (dedup_ids w) ident \<longleftrightarrow> ident \<in> set (dedup_order w)"
    using dedup_contains_order [OF assms] by (simp add: dedup_contains_def)
  have bound: "length (dedup_order w) \<le> dedup_maximum w" using assms by (simp add: dedup_inv_def)
  show "fst (dedup_insert w ident) = (if dedup_maximum w = 0 then Inl QueueFull else Inr ())"
    "dedup_maximum (snd (dedup_insert w ident)) = dedup_maximum w"
    by (auto simp: dedup_insert_def Let_def split: list.splits)
  show "dedup_order (snd (dedup_insert w ident)) =
      (if ident \<in> set (dedup_order w) then dedup_order w else last_n (dedup_maximum w) (dedup_order w @ [ident]))"
    using bound by (cases "dedup_order w") (auto simp: dedup_insert_def mem len last_n_def Let_def)
  show "dedup_inv (snd (dedup_insert w ident))"
    using assms len mem
    by (cases "dedup_order w")
      (auto simp: dedup_insert_def dedup_inv_def bt.keys_insert bt.keys_remove Let_def domIff)
qed

text \<open>Any sequence of insertions keeps the latest distinct identifiers.\<close>

definition dedup_inserts :: "DedupWindow \<Rightarrow> MessageId list \<Rightarrow> DedupWindow" where
  "dedup_inserts w idents = fold (\<lambda>ident w. snd (dedup_insert w ident)) idents w"

lemma last_n_append_one: "last_n n (last_n n xs @ [x]) = last_n n (xs @ [x])"
proof (cases "length xs \<le> n")
  case True
  then show ?thesis by (simp add: last_n_def)
next
  case False
  then have "Suc (length xs - n) = Suc (length xs) - n" by simp
  with False show ?thesis by (cases n) (simp_all add: last_n_def del: diff_Suc_Suc)
qed

lemma dedup_inserts_order:
  assumes "dedup_inv w" "distinct (xs @ idents)" "dedup_order w = last_n (dedup_maximum w) xs" "0 < dedup_maximum w"
  shows "dedup_inv (dedup_inserts w idents) \<and> dedup_order (dedup_inserts w idents) = last_n (dedup_maximum w) (xs @ idents)"
  using assms
proof (induction idents arbitrary: w xs)
  case (Cons ident idents)
  note r = dedup_insert_refines [OF Cons.prems(1), of ident]
  have "ident \<notin> set (dedup_order w)"
    using Cons.prems(2,3) by (auto simp: last_n_def dest: in_set_dropD)
  then have "dedup_order (snd (dedup_insert w ident)) = last_n (dedup_maximum w) (xs @ [ident])"
    by (simp add: r(3) Cons.prems(3) last_n_append_one)
  with Cons.IH [of "snd (dedup_insert w ident)" "xs @ [ident]"] Cons.prems r show ?case
    by (simp add: dedup_inserts_def)
qed (simp add: dedup_inserts_def)

lemma in_last_n: "length (x # ys) \<le> n \<Longrightarrow> x \<in> set (last_n n (xs @ x # ys))"
proof -
  assume n: "length (x # ys) \<le> n"
  have "last_n n (xs @ x # ys) = drop (length xs - (n - Suc (length ys))) xs @ x # ys"
    using n by (simp add: last_n_def)
  then show ?thesis by simp
qed

text \<open>Operations on the pending frames, as the two daemons perform them.\<close>

datatype pending_call = Acquire MessageId bytes | Acknowledge MessageId

fun pending_run :: "pending_call \<Rightarrow> PendingFrames \<Rightarrow> PendingFrames" where
  "pending_run (Acquire ident encoded) p = snd (pending_insert p ident encoded)"
| "pending_run (Acknowledge ident) p = snd (pending_acknowledge p ident)"

fun pending_spec :: "nat \<Rightarrow> pending_call \<Rightarrow> (MessageId \<times> bytes) list \<Rightarrow> (MessageId \<times> bytes) list" where
  "pending_spec maximum (Acquire ident encoded) xs =
     (if ident \<in> fst ` set xs \<or> maximum \<le> length xs then xs else xs @ [(ident, encoded)])"
| "pending_spec maximum (Acknowledge ident) xs = filter (\<lambda>(i, _). i \<noteq> ident) xs"

lemma pending_runs:
  "pending_inv p \<Longrightarrow> pending_inv (fold pending_run calls p) \<and>
     pending_list (fold pending_run calls p) = fold (pending_spec (pending_maximum p)) calls (pending_list p)"
proof (induction calls arbitrary: p)
  case (Cons call calls)
  have "pending_inv (pending_run call p) \<and> pending_maximum (pending_run call p) = pending_maximum p \<and>
      pending_list (pending_run call p) = pending_spec (pending_maximum p) call (pending_list p)"
    using pending_insert_refines [OF Cons.prems] pending_acknowledge_refines [OF Cons.prems] by (cases call) simp_all
  with Cons.IH [of "pending_run call p"] show ?case by simp
qed simp

section \<open>Pending items\<close>

text \<open>Each daemon keeps frames of one kind pending. \<open>pends kind p items\<close>: the pending frames of \<open>p\<close>
  are those of the identifiers and payloads \<open>items\<close>, in order.\<close>

definition item_frame :: "FrameKind \<Rightarrow> MessageId \<times> bytes \<Rightarrow> LinkFrame" where
  "item_frame kind x = \<lparr>link_kind = kind, link_id = fst x, link_payload = snd x\<rparr>"

definition item_bytes :: "FrameKind \<Rightarrow> MessageId \<times> bytes \<Rightarrow> bytes" where
  "item_bytes kind x = link_bytes (item_frame kind x)"

definition pends :: "FrameKind \<Rightarrow> PendingFrames \<Rightarrow> (MessageId \<times> bytes) list \<Rightarrow> bool" where
  "pends kind p items \<longleftrightarrow> pending_inv p \<and> pending_list p = map (\<lambda>x. (fst x, item_bytes kind x)) items \<and>
     (\<forall>x\<in>set items. link_valid (item_frame kind x))"

lemma encode_link_item: "encode_link kind ident payload = Inr bs \<longleftrightarrow>
    link_valid (item_frame kind (ident, payload)) \<and> bs = item_bytes kind (ident, payload)"
  by (simp add: encode_link_Inr item_frame_def item_bytes_def)

lemma decode_item: "link_valid (item_frame kind x) \<Longrightarrow> decode_link (item_bytes kind x) = Inr (item_frame kind x)"
  by (simp add: item_bytes_def decode_link_bytes)

lemma item_frame_simps [simp]:
  "link_kind (item_frame kind x) = kind" "link_id (item_frame kind x) = fst x" "link_payload (item_frame kind x) = snd x"
  by (simp_all add: item_frame_def)

lemma pends_new: "pends kind (PendingFrames_new maximum) []"
  by (simp add: pends_def pending_new)

lemma pends_insert:
  assumes "pends kind p items" "encode_link kind ident payload = Inr encoded" "pending_insert p ident encoded = (Inr u, p')"
  shows "pends kind p' (items @ [(ident, payload)])" "ident \<notin> fst ` set items" "pending_maximum p' = pending_maximum p"
proof -
  note r = pending_insert_refines [OF assms(1) [unfolded pends_def, THEN conjunct1], of ident encoded]
  have p': "p' = snd (pending_insert p ident encoded)" by (simp add: assms(3))
  have ok: "ident \<notin> fst ` set (pending_list p)" "length (pending_list p) < pending_maximum p"
    using r(1) assms(3) by (auto split: if_splits)
  then show "ident \<notin> fst ` set items" using assms(1) by (auto simp: pends_def image_image)
  with r ok assms(1,2) show "pends kind p' (items @ [(ident, payload)])" "pending_maximum p' = pending_maximum p"
    by (simp_all add: p' pends_def encode_link_item)
qed

lemma pends_ack:
  assumes "pends kind p items"
  shows "pends kind (snd (pending_acknowledge p ident)) (filter (\<lambda>x. fst x \<noteq> ident) items)"
    "pending_maximum (snd (pending_acknowledge p ident)) = pending_maximum p"
  using assms pending_acknowledge_refines [of p ident] by (auto simp: pends_def filter_map comp_def)

lemma pends_reads:
  assumes "pends kind p items"
  shows "pending_snapshot p = map (item_bytes kind) items" "pending_is_empty p \<longleftrightarrow> items = []"
    "bt_len (pending_frames p) = length items" "distinct (map fst items)"
proof -
  have p: "pending_inv p" "pending_list p = map (\<lambda>x. (fst x, item_bytes kind x)) items" using assms by (simp_all add: pends_def)
  show "pending_snapshot p = map (item_bytes kind) items" "pending_is_empty p \<longleftrightarrow> items = []"
    "bt_len (pending_frames p) = length items"
    using p by (simp_all add: pending_snapshot_list pending_is_empty_list pending_inv_len)
  have "map fst items = map fst (pending_list p)" by (simp add: p(2))
  also have "\<dots> = pending_order p" by (simp add: pending_list_def comp_def)
  finally show "distinct (map fst items)" using p(1) by (simp add: pending_inv_def)
qed

section \<open>Properties\<close>

text \<open>C32: the link codec is exact: \<open>decode\<close> accepts exactly the frames \<open>encode\<close> writes, and returns the
  kind, identifier and payload they were written from.\<close>

theorem link_codec_exact:
  "decode_link input = Inr f \<longleftrightarrow> encode_link (link_kind f) (link_id f) (link_payload f) = Inr input"
  unfolding encode_link_Inr decode_link_iff by (cases f) simp

text \<open>The unacknowledged frames are a bounded queue with removal by identifier: after any sequence of
  acquisitions and acknowledgements, the retransmission snapshot is the acquired and not yet
  acknowledged frames in the order of their acquisition, each identifier once, at most \<open>maximum\<close>.\<close>

theorem pending_frames_refine:
  "pending_snapshot (fold pending_run calls (PendingFrames_new maximum)) = map snd (fold (pending_spec maximum) calls []) \<and>
   pending_len (fold pending_run calls (PendingFrames_new maximum)) = length (fold (pending_spec maximum) calls []) \<and>
   pending_len (fold pending_run calls (PendingFrames_new maximum)) \<le> maximum"
proof -
  have max: "pending_maximum (fold pending_run calls p) = pending_maximum p" for p
  proof (induction calls arbitrary: p)
    case (Cons call calls)
    then show ?case by (cases call) (simp_all add: pending_insert_def pending_acknowledge_def Let_def)
  qed simp
  let ?p = "fold pending_run calls (PendingFrames_new maximum)"
  have "pending_maximum (PendingFrames_new maximum) = maximum" by (simp add: PendingFrames_new_def)
  then have r: "pending_inv ?p" "pending_list ?p = fold (pending_spec maximum) calls []"
    using pending_runs [OF pending_new(1), of calls maximum] by (simp_all add: pending_new(2))
  moreover have "length (pending_list ?p) \<le> maximum"
    using r(1) max by (simp add: pending_inv_def pending_list_def PendingFrames_new_def)
  ultimately show ?thesis by (simp add: pending_snapshot_list pending_len_def pending_inv_len)
qed

text \<open>The deduplication window recognises an identifier until as many others as its capacity
  have followed it, and never holds more than its capacity.\<close>

theorem dedup_window_remembers:
  assumes "distinct (before @ ident # after)" "length (ident # after) \<le> maximum"
  shows "dedup_contains (dedup_inserts (DedupWindow_new maximum) (before @ ident # after)) ident \<and>
    length (dedup_order (dedup_inserts (DedupWindow_new maximum) (before @ ident # after))) \<le> maximum"
proof -
  let ?w = "dedup_inserts (DedupWindow_new maximum) (before @ ident # after)"
  have max: "dedup_maximum (DedupWindow_new maximum) = maximum" by (simp add: DedupWindow_new_def)
  have "dedup_inv ?w \<and> dedup_order ?w = last_n maximum (before @ ident # after)"
    using dedup_inserts_order [OF dedup_new(1) [of maximum], of "[]" "before @ ident # after"] assms
    by (simp add: dedup_new(2) last_n_def max)
  with in_last_n [OF assms(2), of before] show ?thesis
    by (simp add: dedup_contains_order) (simp add: last_n_def)
qed

theorem dedup_window_witness:
  "dedup_contains (dedup_inserts (DedupWindow_new 2) [MessageId 1, MessageId 2, MessageId 3]) (MessageId 2)"
  using dedup_window_remembers [of "[MessageId 1]" "MessageId 2" "[MessageId 3]" 2] by simp

end
