(* ===== verification/Session.thy ===== *)
theory Session
  imports Brokerd Link
begin

text \<open>
  The broker's side of the CA link, \<open>maintain_ca_link\<close>, \<open>authenticate_ca\<close> and \<open>run_ca_session\<close> of
  \<open>brokerd/src/main.rs\<close>. The state is the router with the collections that outlive a
  connection. A turn of the session's \<open>select!\<close> returns whether the session goes on, the frames
  it sends and the new state; every turn changes its state before it sends, so a send that fails
  ends the session in the state returned. The random identifier is an argument,
  and so are the events of the agents' tasks in the gap of \<open>route_ca_delivery\<close>.
\<close>

section \<open>The session\<close>

record ('c, 'q) ca_link =
  link_system :: "('c, 'q) broker_system"
  link_pending :: PendingFrames
  link_acquired :: DedupWindow

definition link_start :: "('c, 'q) BrokerRouter \<Rightarrow> usize \<Rightarrow> usize \<Rightarrow> ('c, 'q) ca_link" where
  "link_start r pending_depth dedup_depth =
     \<lparr>link_system = broker_start (snd (take_ca_requests r)), link_pending = PendingFrames_new pending_depth,
      link_acquired = DedupWindow_new dedup_depth\<rparr>"

text \<open>What a connection sends first, and every tick of the retry timer sends again.\<close>

definition link_resend :: "('c, 'q) ca_link \<Rightarrow> bytes list" where
  "link_resend s = pending_snapshot (link_pending s)"

text \<open>The branch that takes the next request: \<open>None\<close> while its guard is false or no request waits.
  The router keeps a sender of the channel, so the channel does not close.\<close>

definition link_request ::
  "'c mpsc \<Rightarrow> (LinkError + MessageId) \<Rightarrow> ('c, 'q) ca_link \<Rightarrow> (bytes list \<times> ('c, 'q) ca_link) option" where
  "link_request Q ident s =
     (if \<not> (pending_is_empty (link_pending s) \<and> \<not> pending_is_full (link_pending s)) then None
      else
        let (received, system) = ca_take Q (link_system s) in
        case received of
          None \<Rightarrow> None
        | Some request \<Rightarrow>
            let s = s\<lparr>link_system := system\<rparr> in
            case ident of
              Inl _ \<Rightarrow> Some ([], s)
            | Inr ident \<Rightarrow>
                (case encode_link Kind_Request ident request of
                   Inl _ \<Rightarrow> Some ([], s)
                 | Inr encoded \<Rightarrow>
                     let (inserted, pending) = pending_insert (link_pending s) ident encoded;
                         s = s\<lparr>link_pending := pending\<rparr> in
                     if is_ok inserted then Some ([encoded], s) else Some ([], s)))"

text \<open>The branch that reads a frame; \<open>False\<close> where it ends the session. \<open>between\<close> is what the agents' tasks
  do while the router's lock is released in the middle of a delivery.\<close>

definition link_incoming ::
  "'c mpsc \<Rightarrow> 'q OfflineQueueStore \<Rightarrow> task_event list \<Rightarrow> bytes \<Rightarrow> ('c, 'q) ca_link
     \<Rightarrow> bool \<times> bytes list \<times> ('c, 'q) ca_link" where
  "link_incoming Q off between received s =
     (case decode_link received of
        Inl _ \<Rightarrow> (False, [], s)
      | Inr frame \<Rightarrow>
          let reply = (\<lambda>s. case encode_link Kind_Ack (link_id frame) [] of
                             Inl _ \<Rightarrow> (False, [], s) | Inr ack \<Rightarrow> (True, [ack], s)) in
          (case link_kind frame of
             Kind_Ack \<Rightarrow>
               (True, [], s\<lparr>link_pending := snd (pending_acknowledge (link_pending s) (link_id frame))\<rparr>)
           | Kind_Delivery \<Rightarrow>
               if dedup_contains (link_acquired s) (link_id frame) then reply s
               else
                 let (result, system) = ca_deliver Q off between (link_payload frame) (link_system s);
                     s = s\<lparr>link_system := system\<rparr> in
                 if \<not> is_ok result then (False, [], s)
                 else
                   let (inserted, acquired) = dedup_insert (link_acquired s) (link_id frame);
                       s = s\<lparr>link_acquired := acquired\<rparr> in
                   if is_ok inserted then reply s else (False, [], s)
           | _ \<Rightarrow> (False, [], s)))"

section \<open>The handshake\<close>

text \<open>The response to the first frame, with the identifier the last one must carry, and its check.\<close>

definition answer_challenge :: "(bytes \<Rightarrow> array32) \<Rightarrow> array32 \<Rightarrow> bytes \<Rightarrow> LinkError + MessageId \<times> bytes" where
  "answer_challenge sha256 psk incoming =
     tryE (decode_link incoming) (\<lambda>challenge.
     if link_kind challenge \<noteq> Kind_AuthChallenge \<or> length (link_payload challenge) \<noteq> 32 then Inl Authentication
     else tryE (ok_or (try_into_array (link_payload challenge)) Authentication) (\<lambda>challenge_bytes.
     tryE (encode_link Kind_AuthResponse (link_id challenge)
             (to_be_bytes (authentication_mac sha256 psk challenge_bytes))) (\<lambda>response.
     Inr (link_id challenge, response))))"

definition accept_authentication :: "MessageId \<Rightarrow> bytes \<Rightarrow> LinkError + unit" where
  "accept_authentication challenge incoming =
     tryE (decode_link incoming) (\<lambda>accepted.
     if link_kind accepted = Kind_AuthOk \<and> link_id accepted = challenge then Inr () else Inl Authentication)"

section \<open>Reconnection\<close>

text \<open>Durations in nanoseconds; \<open>saturating_mul\<close> stops at \<open>Duration::MAX\<close>. The outcomes of one
  turn of the loop of \<open>maintain_ca_link\<close>: the delay it sleeps and the next backoff.\<close>

definition DURATION_MAX :: nat where
  "DURATION_MAX = (2 ^ 64 - 1) * 10 ^ 9 + 999999999"

datatype connect_outcome = Nodelay_failed | Authentication_failed | Session_ended | Connect_failed

definition next_backoff :: "nat \<Rightarrow> nat \<Rightarrow> nat" where
  "next_backoff reconnect_max backoff = min (min (backoff * 2) DURATION_MAX) reconnect_max"

fun reconnect :: "nat \<Rightarrow> nat \<Rightarrow> connect_outcome \<Rightarrow> nat \<Rightarrow> nat \<times> nat" where
  "reconnect reconnect_min reconnect_max Nodelay_failed backoff = (backoff, backoff)"
| "reconnect reconnect_min reconnect_max Session_ended backoff =
     (reconnect_min, next_backoff reconnect_max reconnect_min)"
| "reconnect reconnect_min reconnect_max Authentication_failed backoff = (backoff, next_backoff reconnect_max backoff)"
| "reconnect reconnect_min reconnect_max Connect_failed backoff = (backoff, next_backoff reconnect_max backoff)"

text \<open>The limits of \<open>main\<close>, from the arguments in seconds.\<close>

definition reconnect_limits :: "u64 \<Rightarrow> u64 \<Rightarrow> nat \<times> nat" where
  "reconnect_limits min_seconds max_seconds =
     (unat (max min_seconds 1) * 10 ^ 9, unat (max (max max_seconds min_seconds) 1) * 10 ^ 9)"

text \<open>The delays of a run of turns.\<close>

fun reconnect_delays :: "nat \<Rightarrow> nat \<Rightarrow> nat \<Rightarrow> connect_outcome list \<Rightarrow> nat list" where
  "reconnect_delays reconnect_min reconnect_max backoff [] = []"
| "reconnect_delays reconnect_min reconnect_max backoff (outcome # outcomes) =
     (let (delay, backoff) = reconnect reconnect_min reconnect_max outcome backoff in
      delay # reconnect_delays reconnect_min reconnect_max backoff outcomes)"

section \<open>Turns\<close>

lemma encode_ack: "encode_link Kind_Ack ident [] = Inr (item_bytes Kind_Ack (ident, []))"
  by (simp add: encode_link_item item_frame_def link_valid_def)

text \<open>A turn that takes a request makes it the only pending item, or drops it.\<close>

lemma link_request_effect:
  assumes run: "link_request Q ident s = Some (frames, s')" and pend: "pends Kind_Request (link_pending s) items"
  shows "items = [] \<and> (\<exists>request. ca_take Q (link_system s) = (Some request, link_system s') \<and>
    link_acquired s' = link_acquired s \<and> pending_maximum (link_pending s') = pending_maximum (link_pending s) \<and>
    (link_pending s' = link_pending s \<and> frames = [] \<or>
     (\<exists>i. ident = Inr i \<and> pends Kind_Request (link_pending s') [(i, request)] \<and> frames = [item_bytes Kind_Request (i, request)])))"
proof -
  have empty: "items = []" using run pends_reads(2) [OF pend] by (simp add: link_request_def split: if_splits)
  obtain received system where recv: "ca_take Q (link_system s) = (received, system)" by fastforce
  from run recv obtain request where request: "received = Some request"
    by (cases received) (auto simp: link_request_def Let_def split: if_splits)
  let ?s = "s\<lparr>link_system := system\<rparr>"
  have drop: ?thesis if "frames = []" "s' = ?s"
    using that empty recv request by auto
  have guard: "pending_is_empty (link_pending s) \<and> \<not> pending_is_full (link_pending s)"
    using run by (simp add: link_request_def split: if_splits)
  show ?thesis
  proof (cases ident)
    case (Inl e)
    with run recv request guard have "frames = []" "s' = ?s" by (simp_all add: link_request_def Let_def)
    then show ?thesis by (rule drop)
  next
    case (Inr i)
    show ?thesis
    proof (cases "encode_link Kind_Request i request")
      case (Inl e)
      with \<open>ident = Inr i\<close> run recv request guard have "frames = []" "s' = ?s" by (simp_all add: link_request_def Let_def)
      then show ?thesis by (rule drop)
    next
      case encoded: (Inr encoded)
      obtain inserted p where ins: "pending_insert (link_pending s) i encoded = (inserted, p)" by fastforce
      have out: "(frames, s') = (if is_ok inserted then [encoded] else [], ?s\<lparr>link_pending := p\<rparr>)"
        using run recv request guard Inr encoded ins by (simp add: link_request_def Let_def split: if_splits)
      show ?thesis
      proof (cases inserted)
        case (Inl e)
        with ins have "p = link_pending s" by (auto simp: pending_insert_def split: if_splits)
        with out Inl have "frames = []" "s' = ?s" by simp_all
        then show ?thesis by (rule drop)
      next
        case (Inr u)
        note one = pends_insert [OF pend encoded ins [unfolded Inr]]
        from encoded have "encoded = item_bytes Kind_Request (i, request)" by (simp add: encode_link_item)
        with out Inr one empty recv request \<open>ident = Inr i\<close> show ?thesis by auto
      qed
    qed
  qed
qed

lemma link_incoming_ack:
  assumes "decode_link received = Inr f" "link_kind f = Kind_Ack"
  shows "link_incoming Q off between received s = (True, [], s\<lparr>link_pending := snd (pending_acknowledge (link_pending s) (link_id f))\<rparr>)"
  using assms by (simp add: link_incoming_def)

lemma link_incoming_delivery:
  assumes "decode_link received = Inr f" "link_kind f = Kind_Delivery"
  shows "link_incoming Q off between received s =
    (if dedup_contains (link_acquired s) (link_id f) then (True, [item_bytes Kind_Ack (link_id f, [])], s)
     else
       let (result, system) = ca_deliver Q off between (link_payload f) (link_system s);
           (inserted, acquired) = dedup_insert (link_acquired s) (link_id f) in
       if \<not> is_ok result then (False, [], s\<lparr>link_system := system\<rparr>)
       else if is_ok inserted then (True, [item_bytes Kind_Ack (link_id f, [])], s\<lparr>link_system := system, link_acquired := acquired\<rparr>)
       else (False, [], s\<lparr>link_system := system, link_acquired := acquired\<rparr>))"
  using assms by (simp add: link_incoming_def encode_ack Let_def split: prod.splits)

lemma link_incoming_other:
  assumes "\<And>f. decode_link received = Inr f \<Longrightarrow> link_kind f \<notin> {Kind_Ack, Kind_Delivery}"
  shows "link_incoming Q off between received s = (False, [], s)"
  using assms by (cases "decode_link received") (auto simp: link_incoming_def Let_def split: FrameKind.splits)

section \<open>Backoff\<close>

lemma reconnect_limits_bounds:
  assumes "reconnect_limits min_seconds max_seconds = (reconnect_min, reconnect_max)"
  shows "0 < reconnect_min" "reconnect_min \<le> reconnect_max" "reconnect_max \<le> DURATION_MAX"
proof -
  have pos: "0 < unat (max x 1)" for x :: u64
  proof -
    have "(1 :: u64) \<le> max x 1" by simp
    then show ?thesis using word_le_nat_alt [of 1 "max x 1"] by simp
  qed
  have order: "unat (max min_seconds 1) \<le> unat (max (max max_seconds min_seconds) 1)"
    unfolding word_le_nat_alt [symmetric] by (metis max.cobounded2 max.mono order_refl)
  have small: "unat x \<le> 2 ^ 64 - 1" for x :: u64
    using unsigned_less [of x, where 'a = nat] by simp
  show "0 < reconnect_min" using assms pos [of min_seconds] by (auto simp: reconnect_limits_def)
  show "reconnect_min \<le> reconnect_max" using assms order by (auto simp: reconnect_limits_def)
  have "unat x * 10 ^ 9 \<le> DURATION_MAX" for x :: u64
    using mult_le_mono1 [OF small [of x], of "10 ^ 9"] by (simp add: DURATION_MAX_def)
  then show "reconnect_max \<le> DURATION_MAX" using assms by (auto simp: reconnect_limits_def)
qed

text \<open>The backoff counts the turns since the last session, which counts as one; a socket without
  \<open>TCP_NODELAY\<close> does not count.\<close>

fun streak :: "connect_outcome list \<Rightarrow> nat \<Rightarrow> nat" where
  "streak [] k = k"
| "streak (Nodelay_failed # outcomes) k = streak outcomes k"
| "streak (Session_ended # outcomes) k = streak outcomes 1"
| "streak (Authentication_failed # outcomes) k = streak outcomes (Suc k)"
| "streak (Connect_failed # outcomes) k = streak outcomes (Suc k)"

definition doubled :: "nat \<Rightarrow> nat \<Rightarrow> nat \<Rightarrow> nat" where
  "doubled reconnect_min reconnect_max k = min (reconnect_min * 2 ^ k) reconnect_max"

lemma next_doubled:
  "reconnect_max \<le> DURATION_MAX \<Longrightarrow>
     next_backoff reconnect_max (doubled reconnect_min reconnect_max k) = doubled reconnect_min reconnect_max (Suc k)"
  by (auto simp: next_backoff_def doubled_def min_def)

lemma reconnect_doubled:
  assumes "reconnect_min \<le> reconnect_max" "reconnect_max \<le> DURATION_MAX"
  shows "reconnect reconnect_min reconnect_max outcome (doubled reconnect_min reconnect_max k) =
    (doubled reconnect_min reconnect_max (if outcome = Session_ended then 0 else k),
     doubled reconnect_min reconnect_max (streak [outcome] k))"
proof -
  have zero: "doubled reconnect_min reconnect_max 0 = reconnect_min" using assms(1) by (simp add: doubled_def)
  from next_doubled [OF assms(2), of reconnect_min 0] next_doubled [OF assms(2), of reconnect_min k] show ?thesis
    by (cases outcome) (simp_all add: zero)
qed

lemma reconnect_delays_doubled:
  assumes "reconnect_min \<le> reconnect_max" "reconnect_max \<le> DURATION_MAX"
  shows "reconnect_delays reconnect_min reconnect_max (doubled reconnect_min reconnect_max k) outcomes =
    map (\<lambda>i. doubled reconnect_min reconnect_max (if outcomes ! i = Session_ended then 0 else streak (take i outcomes) k))
      [0..<length outcomes]"
proof (induction outcomes arbitrary: k)
  case (Cons outcome outcomes)
  show ?case
    unfolding reconnect_delays.simps reconnect_doubled [OF assms] length_Cons upt_conv_Cons [OF zero_less_Suc] map_Suc_upt [symmetric]
    by (cases outcome) (simp_all add: Cons.IH o_def del: upt_Suc)
qed simp

section \<open>Properties\<close>

text \<open>The reconnection delays are the capped exponential backoff: the delay of every turn is the
  minimum doubled once for each failure since the last session, at most the maximum, and the minimum after
  a session. With the limits of the command line every delay is positive and no saturation is met.\<close>

theorem reconnect_backoff:
  "case reconnect_limits min_seconds max_seconds of (lo, hi) \<Rightarrow>
    reconnect_delays lo hi lo outcomes =
      map (\<lambda>i. min (lo * 2 ^ (if outcomes ! i = Session_ended then 0 else streak (take i outcomes) 0)) hi) [0..<length outcomes] \<and>
    set (reconnect_delays lo hi lo outcomes) \<subseteq> {lo..hi} \<and> 0 < lo"
proof -
  obtain lo hi where limits: "reconnect_limits min_seconds max_seconds = (lo, hi)" by fastforce
  note bounds = reconnect_limits_bounds [OF limits]
  have start: "doubled lo hi 0 = lo" using bounds(2) by (simp add: doubled_def)
  note delays = reconnect_delays_doubled [OF bounds(2,3), of 0 outcomes, unfolded start]
  have "lo \<le> doubled lo hi k" "doubled lo hi k \<le> hi" for k using bounds(2) by (simp_all add: doubled_def)
  with delays bounds(1) limits show ?thesis by (auto simp: doubled_def)
qed

end
