(* ===== verification/Crypto.thy ===== *)
theory Crypto
  imports Payload
begin

text \<open>
  \<open>protocol-core/src/crypto.rs\<close>: key derivation, sealing and opening of envelopes. The
  primitives (Ed25519, X25519, HKDF-SHA256, ChaCha20-Poly1305 and the random generator) are
  external crates; they are the fields of the record \<open>crypto\<close>, an argument of every
  definition that uses them. \<open>'r\<close> is the generator's state. What their documentation
  promises of honest keys is \<open>crypto_laws\<close>, a hypothesis of the lemmas that need it, and
  \<open>toy_crypto\<close> shows that it can hold.

  Opening decrypts in the frame's own buffer; no caller reads that buffer again after an
  error, so the model returns the plaintext and leaves the frame's later contents open.
\<close>

type_synonym array12 = "96 word"

record 'r crypto =
  ed_key_ok :: "array32 \<Rightarrow> bool"
  ed_public :: "array32 \<Rightarrow> array32"
  ed_sign :: "array32 \<Rightarrow> bytes \<Rightarrow> array64"
  ed_verify_strict :: "array32 \<Rightarrow> bytes \<Rightarrow> array64 \<Rightarrow> bool"
  x_public :: "array32 \<Rightarrow> array32"
  x_dh :: "array32 \<Rightarrow> array32 \<Rightarrow> array32"
  hkdf_expand :: "array32 \<Rightarrow> array32 \<Rightarrow> bytes \<Rightarrow> usize \<Rightarrow> bytes option"
  aead_encrypt :: "array32 \<Rightarrow> array12 \<Rightarrow> bytes \<Rightarrow> bytes \<Rightarrow> (bytes \<times> array16) option"
  aead_decrypt :: "array32 \<Rightarrow> array12 \<Rightarrow> bytes \<Rightarrow> bytes \<Rightarrow> array16 \<Rightarrow> bytes option"
  rng_fill16 :: "'r \<Rightarrow> array16 \<times> 'r"
  rng_fill32 :: "'r \<Rightarrow> array32 \<times> 'r"
  rng_ephemeral :: "'r \<Rightarrow> array32 \<times> 'r"

section \<open>Definitions\<close>

text \<open>\<open>OneShotSecret\<close> is its 32 secret bytes.\<close>

definition OneShotSecret_generate :: "'r crypto \<Rightarrow> 'r \<Rightarrow> array32 \<times> 'r" where
  "OneShotSecret_generate C rng = rng_ephemeral C rng"

definition OneShotSecret_public_key :: "'r crypto \<Rightarrow> array32 \<Rightarrow> array32" where
  "OneShotSecret_public_key C secret = x_public C secret"

definition OneShotSecret_agree :: "'r crypto \<Rightarrow> array32 \<Rightarrow> array32 \<Rightarrow> Error + array32" where
  "OneShotSecret_agree C secret peer =
     (let shared = x_dh C secret peer in
      if shared = 0 then Inl CryptoFailure else Inr shared)"

definition append_buffer :: "bytes \<times> usize \<Rightarrow> bytes \<Rightarrow> Error + bytes \<times> usize" where
  "append_buffer = (\<lambda>(output, cursor) input.
     let end = cursor + length input in
     if end \<le> length output then Inr (copy_at output cursor input, end) else Inl CryptoFailure)"

definition expand_label :: "'r crypto \<Rightarrow> array32 \<Rightarrow> array32 \<Rightarrow> bytes \<Rightarrow> bytes \<Rightarrow> usize \<Rightarrow> Error + bytes" where
  "expand_label C salt shared context label n =
     tryE (append_buffer (replicate 160 0, 0) context) (\<lambda>info.
     tryE (append_buffer info label) (\<lambda>(info, cursor).
     ok_or (hkdf_expand C salt shared (range_of info 0 cursor) n) CryptoFailure))"

definition derive_key_nonce ::
  "'r crypto \<Rightarrow> array32 \<Rightarrow> array32 \<Rightarrow> MessageType \<Rightarrow> AgentId \<Rightarrow> AgentId \<Rightarrow> SessionId \<Rightarrow> array32
     \<Rightarrow> Error + array32 \<times> array12" where
  "derive_key_nonce C shared salt message_type sender recipient session_id ephemeral_public =
     tryE (append_buffer (replicate 128 0, 0) PROTOCOL_ID) (\<lambda>context.
     tryE (append_buffer context [VERSION]) (\<lambda>context.
     tryE (append_buffer context [MessageType_direction message_type, MessageType_u8 message_type]) (\<lambda>context.
     tryE (append_buffer context (MessageType_domain message_type)) (\<lambda>context.
     tryE (append_buffer context (to_be_bytes (agent_array sender))) (\<lambda>context.
     tryE (append_buffer context (to_be_bytes (agent_array recipient))) (\<lambda>context.
     tryE (append_buffer context (to_be_bytes ephemeral_public)) (\<lambda>context.
     tryE (append_buffer context (to_be_bytes (session_array session_id))) (\<lambda>(context, cursor).
     tryE (expand_label C salt shared (range_of context 0 cursor)
             (ascii ''aead-key/chacha20poly1305'') 32) (\<lambda>key.
     tryE (expand_label C salt shared (range_of context 0 cursor)
             (ascii ''aead-nonce/one-message'') 12) (\<lambda>nonce.
     tryE (ok_or (try_into_array key) CryptoFailure) (\<lambda>key.
     tryE (ok_or (try_into_array nonce) CryptoFailure) (\<lambda>nonce.
     Inr (key, nonce)))))))))))))"

definition seal_in_place ::
  "'r crypto \<Rightarrow> bytes \<Rightarrow> usize \<Rightarrow> MessageType \<Rightarrow> AgentId \<Rightarrow> AgentId \<Rightarrow> HandlerId \<Rightarrow> SessionId \<Rightarrow> array32
     \<Rightarrow> array32 \<Rightarrow> array32 \<Rightarrow> array32 \<Rightarrow> (Error + usize) \<times> bytes" where
  "seal_in_place C output plaintext_len message_type sender recipient handler session_id salt
     ephemeral_secret recipient_x25519 signing_key =
     (let ephemeral_public = OneShotSecret_public_key C ephemeral_secret in
      tryS (encode_header output message_type sender recipient handler session_id ephemeral_public
              salt plaintext_len) (\<lambda>total_len output.
      if length output < total_len then (Inl Oversized, output)
      else tryS (OneShotSecret_agree C ephemeral_secret recipient_x25519, output) (\<lambda>shared output.
      tryS (derive_key_nonce C shared salt message_type sender recipient session_id ephemeral_public, output)
        (\<lambda>(key, nonce) output.
      let ciphertext_end = HEADER_LEN + plaintext_len in
      tryS (ok_or (aead_encrypt C key nonce (range_of output 0 HEADER_LEN)
                     (range_of output HEADER_LEN ciphertext_end)) CryptoFailure, output)
        (\<lambda>(ciphertext, tag) output.
      let output = copy_at output HEADER_LEN ciphertext;
          output = copy_at output ciphertext_end (to_be_bytes tag);
          signed_end = ciphertext_end + TAG_LEN;
          signature = ed_sign C signing_key (range_of output 0 signed_end);
          output = copy_at output signed_end (to_be_bytes signature)
      in (Inr total_len, output))))))"

definition verify_envelope_signature :: "'r crypto \<Rightarrow> EnvelopeRef \<Rightarrow> array32 \<Rightarrow> Error + unit" where
  "verify_envelope_signature C envelope verifying_key =
     (if ed_verify_strict C verifying_key (envelope_signed_bytes envelope) (envelope_signature envelope)
      then Inr () else Inl BadSignature)"

definition open_in_place ::
  "'r crypto \<Rightarrow> bytes \<Rightarrow> AgentId \<Rightarrow> MessageType \<Rightarrow> array32 \<Rightarrow> array32 \<Rightarrow> Error + bytes" where
  "open_in_place C frame expected_recipient expected_type sender_verifying_key recipient_x25519_secret =
     tryE (parse_envelope frame) (\<lambda>envelope.
     if envelope_recipient envelope \<noteq> expected_recipient then Inl WrongRecipient
     else if envelope_message_type envelope \<noteq> expected_type then Inl WrongMessageType
     else tryE (verify_envelope_signature C envelope sender_verifying_key) (\<lambda>_.
     tryE (parse_envelope frame) (\<lambda>envelope.
     let shared = x_dh C recipient_x25519_secret (envelope_ephemeral_public envelope) in
     if shared = 0 then Inl CryptoFailure
     else tryE (derive_key_nonce C shared (envelope_salt envelope) (envelope_message_type envelope)
                  (envelope_sender envelope) (envelope_recipient envelope)
                  (envelope_session_id envelope) (envelope_ephemeral_public envelope)) (\<lambda>(key, nonce).
     ok_or (aead_decrypt C key nonce (range_of frame 0 HEADER_LEN)
              (range_of frame HEADER_LEN (HEADER_LEN + length (envelope_ciphertext envelope)))
              (envelope_tag envelope)) CryptoFailure))))"

section \<open>What the primitives promise\<close>

definition crypto_laws :: "'r crypto \<Rightarrow> bool" where
  "crypto_laws C \<longleftrightarrow>
     (\<forall>seed. ed_key_ok C (ed_public C seed)) \<and>
     (\<forall>seed msg. ed_verify_strict C (ed_public C seed) msg (ed_sign C seed msg)) \<and>
     (\<forall>a b. x_dh C a (x_public C b) = x_dh C b (x_public C a)) \<and>
     (\<forall>salt ikm info n. n \<le> 8160 \<longrightarrow> (\<exists>okm. hkdf_expand C salt ikm info n = Some okm \<and> length okm = n)) \<and>
     (\<forall>key nonce aad p. length p \<le> 65536 \<longrightarrow> (\<exists>c tag. aead_encrypt C key nonce aad p = Some (c, tag) \<and>
        length c = length p \<and> aead_decrypt C key nonce aad c tag = Some p))"

lemma crypto_lawsD:
  assumes "crypto_laws C"
  shows "ed_key_ok C (ed_public C seed)"
    and "ed_verify_strict C (ed_public C seed) msg (ed_sign C seed msg)"
    and "x_dh C a (x_public C b) = x_dh C b (x_public C a)"
  using assms by (simp_all add: crypto_laws_def)

lemma crypto_laws_hkdf:
  assumes "crypto_laws C" "n \<le> 8160"
  obtains okm where "hkdf_expand C salt ikm info n = Some okm" "length okm = n"
  using assms unfolding crypto_laws_def by metis

lemma crypto_laws_aead:
  assumes "crypto_laws C" "length p \<le> 65536"
  obtains c tag where "aead_encrypt C key nonce aad p = Some (c, tag)" "length c = length p"
    "aead_decrypt C key nonce aad c tag = Some p"
  using assms unfolding crypto_laws_def by metis

definition toy_crypto :: "nat crypto" where
  "toy_crypto = \<lparr>ed_key_ok = (\<lambda>_. True), ed_public = (\<lambda>seed. seed),
     ed_sign = (\<lambda>seed msg. of_nat (unat seed + be_value msg)),
     ed_verify_strict = (\<lambda>key msg sig. sig = of_nat (unat key + be_value msg)),
     x_public = (\<lambda>a. a), x_dh = (\<lambda>a b. a + b),
     hkdf_expand = (\<lambda>salt ikm info n. if n \<le> 8160 then Some (replicate n (of_nat (be_value info))) else None),
     aead_encrypt = (\<lambda>key nonce aad p. Some (map (\<lambda>b. b + 1) p, of_nat (be_value (aad @ p)))),
     aead_decrypt = (\<lambda>key nonce aad c tag.
       let p = map (\<lambda>b. b - 1) c in if tag = of_nat (be_value (aad @ p)) then Some p else None),
     rng_fill16 = (\<lambda>r. (of_nat r, r + 1)), rng_fill32 = (\<lambda>r. (of_nat r, r + 1)),
     rng_ephemeral = (\<lambda>r. (of_nat r, r + 1))\<rparr>"

lemma toy_crypto_laws: "crypto_laws toy_crypto"
  by (simp add: crypto_laws_def toy_crypto_def add.commute comp_def)

section \<open>Key derivation\<close>

text \<open>The bytes both parties bind into a key: every field of the header but the handler.\<close>

definition kdf_context :: "MessageType \<Rightarrow> AgentId \<Rightarrow> AgentId \<Rightarrow> SessionId \<Rightarrow> array32 \<Rightarrow> bytes" where
  "kdf_context t s r i p = PROTOCOL_ID @ [VERSION] @ [MessageType_direction t, MessageType_u8 t]
     @ MessageType_domain t @ to_be_bytes (agent_array s) @ to_be_bytes (agent_array r)
     @ to_be_bytes p @ to_be_bytes (session_array i)"

lemma length_MessageType_domain: "length (MessageType_domain t) \<le> 21"
  by (cases t) simp_all

lemma length_PROTOCOL_ID [simp]: "length PROTOCOL_ID = 15"
  by (simp add: PROTOCOL_ID_def)

lemma length_kdf_context: "length (kdf_context t s r i p) \<le> 119"
  using length_MessageType_domain [of t] by (simp add: kdf_context_def)

text \<open>A zeroed buffer of \<open>n\<close> bytes that holds \<open>pre\<close>.\<close>

definition filled :: "nat \<Rightarrow> bytes \<Rightarrow> bytes \<times> usize" where
  "filled n pre = (pre @ replicate (n - length pre) 0, length pre)"

lemma append_buffer_filled:
  "length pre + length x \<le> n \<Longrightarrow> append_buffer (filled n pre) x = Inr (filled n (pre @ x))"
  by (simp add: filled_def append_buffer_def copy_at_append Let_def)

lemma filled_empty: "(replicate n 0, 0) = filled n []"
  by (simp add: filled_def)

lemma range_of_filled: "range_of (fst (filled n pre)) 0 (snd (filled n pre)) = pre"
  by (simp add: filled_def range_of_def)

lemma expand_label_ok:
  assumes "length context + length label \<le> 160"
  shows "expand_label C salt shared context label n =
    ok_or (hkdf_expand C salt shared (context @ label) n) CryptoFailure"
  using assms by (simp add: expand_label_def filled_empty append_buffer_filled case_prod_unfold range_of_filled)

lemma derive_key_nonce_eq:
  "derive_key_nonce C shared salt t s r i p =
     tryE (ok_or (hkdf_expand C salt shared (kdf_context t s r i p @ ascii ''aead-key/chacha20poly1305'') 32)
        CryptoFailure) (\<lambda>key.
     tryE (ok_or (hkdf_expand C salt shared (kdf_context t s r i p @ ascii ''aead-nonce/one-message'') 12)
        CryptoFailure) (\<lambda>nonce.
     tryE (ok_or (try_into_array key) CryptoFailure) (\<lambda>key.
     tryE (ok_or (try_into_array nonce) CryptoFailure) (\<lambda>nonce. Inr (key, nonce)))))"
  using length_kdf_context [of t s r i p] length_MessageType_domain [of t]
  by (simp add: derive_key_nonce_def filled_empty append_buffer_filled case_prod_unfold range_of_filled expand_label_ok)
    (simp add: kdf_context_def)

lemma derive_key_nonce_iff:
  "derive_key_nonce C shared salt t s r i p = Inr (key, nonce) \<longleftrightarrow>
     hkdf_expand C salt shared (kdf_context t s r i p @ ascii ''aead-key/chacha20poly1305'') 32 = Some (to_be_bytes key) \<and>
     hkdf_expand C salt shared (kdf_context t s r i p @ ascii ''aead-nonce/one-message'') 12 = Some (to_be_bytes nonce)"
  by (auto simp: derive_key_nonce_eq result_iffs try_into_array_Some_iff)

lemma derive_key_nonce_total:
  assumes "crypto_laws C"
  obtains key nonce where "derive_key_nonce C shared salt t s r i p = Inr (key, nonce)"
proof -
  obtain k where "hkdf_expand C salt shared (kdf_context t s r i p @ ascii ''aead-key/chacha20poly1305'') 32 = Some k" "length k = 32"
    by (rule crypto_laws_hkdf [OF assms, where n = 32]) simp_all
  moreover obtain n where "hkdf_expand C salt shared (kdf_context t s r i p @ ascii ''aead-nonce/one-message'') 12 = Some n" "length n = 12"
    by (rule crypto_laws_hkdf [OF assms, where n = 12]) simp_all
  ultimately show thesis
    using that by (simp add: derive_key_nonce_eq try_into_array_def)
qed

text \<open>Domain separation: two derivations feed HKDF the same bytes only when every bound field
  agrees, and the key and the nonce of a message are expanded under different bytes.\<close>

lemma kdf_context_tail:
  assumes "kdf_context t s r i p @ x = kdf_context t' s' r' i' p' @ y"
  shows "t = t' \<and> s = s' \<and> r = r' \<and> i = i' \<and> p = p' \<and> x = y"
proof -
  have "t = t'" using assms by (simp add: kdf_context_def)
  with assms show ?thesis
    by (auto simp: kdf_context_def intro: AgentId.expand SessionId.expand)
qed

section \<open>Sealing\<close>

text \<open>The envelope that sealing produces for the plaintext in the caller's buffer.\<close>

lemma seal_in_place_ok:
  assumes laws: "crypto_laws C" and n: "n \<le> MAX_PLAINTEXT_LEN" "n + 228 \<le> length out"
    and dh: "x_dh C eph rx \<noteq> 0"
  obtains e key nonce where
    "seal_in_place C out n t s r h i salt eph rx seed = (Inr (n + 228), frame_bytes e @ drop (n + 228) out)"
    "envelope_wf e" "envelope_message_type e = t" "envelope_sender e = s" "envelope_recipient e = r"
    "envelope_handler e = h" "envelope_session_id e = i" "envelope_salt e = salt"
    "envelope_ephemeral_public e = x_public C eph" "length (envelope_ciphertext e) = n"
    "derive_key_nonce C (x_dh C eph rx) salt t s r i (x_public C eph) = Inr (key, nonce)"
    "aead_decrypt C key nonce (envelope_header e) (envelope_ciphertext e) (envelope_tag e) = Some (range_of out 148 (148 + n))"
    "envelope_signature e = ed_sign C seed (envelope_signed_bytes e)"
proof -
  let ?p = "range_of out 148 (148 + n)" and ?h = "header_bytes t s r h i (x_public C eph) salt n"
  obtain key nonce where kn: "derive_key_nonce C (x_dh C eph rx) salt t s r i (x_public C eph) = Inr (key, nonce)"
    by (rule derive_key_nonce_total [OF laws])
  have lp: "length ?p = n" using n by (simp add: length_range_of)
  have "length ?p \<le> 65536" using n lp by (simp add: const_defs)
  then obtain c tag where enc: "aead_encrypt C key nonce ?h ?p = Some (c, tag)" "length c = n"
    "aead_decrypt C key nonce ?h c tag = Some ?p"
    by (rule crypto_laws_aead [OF laws]) (use lp in simp)
  let ?signed = "?h @ c @ to_be_bytes tag"
  let ?e = "\<lparr>envelope_message_type = t, envelope_sender = s, envelope_recipient = r, envelope_handler = h,
    envelope_session_id = i, envelope_ephemeral_public = x_public C eph, envelope_salt = salt,
    envelope_ciphertext = c, envelope_tag = tag, envelope_signature = ed_sign C seed ?signed,
    envelope_header = ?h, envelope_signed_bytes = ?signed\<rparr>"
  have hdr: "encode_header out t s r h i (x_public C eph) salt n = (Inr (n + 228), ?h @ drop 148 out)"
    using n by (intro encode_header_ok) (simp_all add: const_defs)
  have rng: "range_of (?h @ drop 148 out) 0 148 = ?h" "range_of (?h @ drop 148 out) 148 (148 + n) = ?p"
    by (simp_all add: range_of_def)
  have out: "seal_in_place C out n t s r h i salt eph rx seed = (Inr (n + 228), frame_bytes ?e @ drop (n + 228) out)"
  proof -
    have "copy_at (copy_at (?h @ drop 148 out) 148 c) (148 + n) (to_be_bytes tag) = ?signed @ drop (164 + n) out"
      using enc(2) by (simp add: copy_at_def add.commute)
    moreover have "copy_at (?signed @ drop (164 + n) out) (164 + n) (to_be_bytes (ed_sign C seed ?signed)) =
        frame_bytes ?e @ drop (n + 228) out"
      using enc(2) by (simp add: copy_at_def frame_bytes_def add.commute)
    moreover have "range_of (?signed @ drop (164 + n) out) 0 (164 + n) = ?signed"
      using enc(2) by (simp add: range_of_def)
    ultimately show ?thesis
      using n dh by (simp add: seal_in_place_def OneShotSecret_public_key_def hdr OneShotSecret_agree_def kn rng enc
          const_defs Let_def)
  qed
  show thesis
    by (rule that [of ?e key nonce]) (use n enc kn out in \<open>simp_all add: envelope_wf_def\<close>)
qed

lemma seal_in_place_oversized:
  assumes "\<not> (n \<le> MAX_PLAINTEXT_LEN \<and> n + 228 \<le> length out)"
  shows "fst (seal_in_place C out n t s r h i salt eph rx seed) = Inl Oversized"
proof (cases "n \<le> MAX_PLAINTEXT_LEN \<and> HEADER_LEN \<le> length out")
  case True
  with encode_header_ok [of n out] assms show ?thesis
    by (auto simp: seal_in_place_def Let_def const_defs)
next
  case False
  with encode_header_err [OF this] show ?thesis by (simp add: seal_in_place_def)
qed

lemma seal_in_place_weak_key:
  assumes "n \<le> MAX_PLAINTEXT_LEN" "n + 228 \<le> length out" "x_dh C eph rx = 0"
  shows "fst (seal_in_place C out n t s r h i salt eph rx seed) = Inl CryptoFailure"
  using assms encode_header_ok [of n out]
  by (auto simp: seal_in_place_def Let_def const_defs OneShotSecret_agree_def)

section \<open>Opening\<close>

lemma parse_envelope_ranges:
  assumes "parse_envelope frame = Inr e"
  shows "range_of frame 0 HEADER_LEN = envelope_header e"
    "range_of frame HEADER_LEN (HEADER_LEN + length (envelope_ciphertext e)) = envelope_ciphertext e"
  using parse_envelope_checks(15,18) [OF assms] by (simp_all add: const_defs)

lemma verify_envelope_signature_Inr [simp]:
  "verify_envelope_signature C e vk = Inr u \<longleftrightarrow>
     ed_verify_strict C vk (envelope_signed_bytes e) (envelope_signature e)"
  by (simp add: verify_envelope_signature_def)

lemma open_in_place_iff:
  "open_in_place C frame rcpt t vk secret = Inr plain \<longleftrightarrow>
     (\<exists>e key nonce. parse_envelope frame = Inr e \<and> envelope_recipient e = rcpt \<and> envelope_message_type e = t \<and>
        ed_verify_strict C vk (envelope_signed_bytes e) (envelope_signature e) \<and>
        x_dh C secret (envelope_ephemeral_public e) \<noteq> 0 \<and>
        derive_key_nonce C (x_dh C secret (envelope_ephemeral_public e)) (envelope_salt e) t
          (envelope_sender e) rcpt (envelope_session_id e) (envelope_ephemeral_public e) = Inr (key, nonce) \<and>
        aead_decrypt C key nonce (envelope_header e) (envelope_ciphertext e) (envelope_tag e) = Some plain)"
proof (cases "parse_envelope frame")
  case (Inr e)
  then show ?thesis
    by (auto simp: open_in_place_def result_iffs Let_def parse_envelope_ranges [OF Inr])
qed (simp add: open_in_place_def)

text \<open>What each check of an opening returns when it is the first to fail.\<close>

lemma open_in_place_rejects:
  "parse_envelope frame = Inl err \<Longrightarrow> open_in_place C frame rcpt t vk secret = Inl err"
  "parse_envelope frame = Inr e \<Longrightarrow> envelope_recipient e \<noteq> rcpt \<Longrightarrow>
     open_in_place C frame rcpt t vk secret = Inl WrongRecipient"
  "parse_envelope frame = Inr e \<Longrightarrow> envelope_recipient e = rcpt \<Longrightarrow> envelope_message_type e \<noteq> t \<Longrightarrow>
     open_in_place C frame rcpt t vk secret = Inl WrongMessageType"
  "parse_envelope frame = Inr e \<Longrightarrow> envelope_recipient e = rcpt \<Longrightarrow> envelope_message_type e = t \<Longrightarrow>
     \<not> ed_verify_strict C vk (envelope_signed_bytes e) (envelope_signature e) \<Longrightarrow>
     open_in_place C frame rcpt t vk secret = Inl BadSignature"
  "parse_envelope frame = Inr e \<Longrightarrow> envelope_recipient e = rcpt \<Longrightarrow> envelope_message_type e = t \<Longrightarrow>
     ed_verify_strict C vk (envelope_signed_bytes e) (envelope_signature e) \<Longrightarrow>
     x_dh C secret (envelope_ephemeral_public e) = 0 \<Longrightarrow>
     open_in_place C frame rcpt t vk secret = Inl CryptoFailure"
  by (simp_all add: open_in_place_def verify_envelope_signature_def Let_def)

text \<open>A frame sealed to an honest recipient opens to the sealed plaintext.\<close>

lemma sealed_frame_opens:
  assumes "crypto_laws C" "envelope_wf e" "envelope_recipient e = r" "envelope_message_type e = t"
    "envelope_ephemeral_public e = x_public C eph" "x_dh C eph (x_public C secret) \<noteq> 0"
    "derive_key_nonce C (x_dh C eph (x_public C secret)) (envelope_salt e) t (envelope_sender e) r
       (envelope_session_id e) (x_public C eph) = Inr (key, nonce)"
    "aead_decrypt C key nonce (envelope_header e) (envelope_ciphertext e) (envelope_tag e) = Some plain"
    "envelope_signature e = ed_sign C seed (envelope_signed_bytes e)"
  shows "open_in_place C (frame_bytes e) r t (ed_public C seed) secret = Inr plain"
  using assms by (auto simp: open_in_place_iff parse_frame_bytes crypto_lawsD(2) crypto_lawsD(3) [of C secret eph])

lemma seal_open:
  assumes "crypto_laws C" "n \<le> MAX_PLAINTEXT_LEN" "n + 228 \<le> length out" "x_dh C eph (x_public C secret) \<noteq> 0"
  obtains e where
    "seal_in_place C out n t s r h i salt eph (x_public C secret) seed = (Inr (n + 228), frame_bytes e @ drop (n + 228) out)"
    "length (frame_bytes e) = n + 228" "parse_envelope (frame_bytes e) = Inr e"
    "envelope_message_type e = t" "envelope_sender e = s" "envelope_recipient e = r"
    "envelope_handler e = h" "envelope_session_id e = i"
    "verify_envelope_signature C e (ed_public C seed) = Inr ()"
    "open_in_place C (frame_bytes e) r t (ed_public C seed) secret = Inr (range_of out 148 (148 + n))"
proof (rule seal_in_place_ok [OF assms, of t s r h i salt seed])
  fix e key nonce
  assume *: "seal_in_place C out n t s r h i salt eph (x_public C secret) seed = (Inr (n + 228), frame_bytes e @ drop (n + 228) out)"
    "envelope_wf e" "envelope_message_type e = t" "envelope_sender e = s" "envelope_recipient e = r"
    "envelope_handler e = h" "envelope_session_id e = i" "envelope_salt e = salt"
    "envelope_ephemeral_public e = x_public C eph" "length (envelope_ciphertext e) = n"
    "derive_key_nonce C (x_dh C eph (x_public C secret)) salt t s r i (x_public C eph) = Inr (key, nonce)"
    "aead_decrypt C key nonce (envelope_header e) (envelope_ciphertext e) (envelope_tag e) = Some (range_of out 148 (148 + n))"
    "envelope_signature e = ed_sign C seed (envelope_signed_bytes e)"
  show thesis
  proof (rule that [OF *(1)])
    show "open_in_place C (frame_bytes e) r t (ed_public C seed) secret = Inr (range_of out 148 (148 + n))"
      using * assms(1,4) by (intro sealed_frame_opens [where key = key and nonce = nonce]) simp_all
    show "verify_envelope_signature C e (ed_public C seed) = Inr ()"
      using * assms(1) by (simp add: crypto_lawsD(2))
  qed (use * in \<open>simp_all add: length_frame_bytes parse_frame_bytes\<close>)
qed

section \<open>Properties\<close>

text \<open>Sealing and opening are inverse. A plaintext of at most \<open>MAX_PLAINTEXT_LEN\<close> bytes in a large
  enough buffer is sealed into a frame that the holder of the recipient's secret opens, under the
  signer's public key, to exactly that plaintext; the bytes behind the frame are kept.\<close>

theorem seal_open_roundtrip:
  assumes "crypto_laws C" "n \<le> MAX_PLAINTEXT_LEN" "n + 228 \<le> length out" "x_dh C eph (x_public C secret) \<noteq> 0"
  shows "\<exists>frame. seal_in_place C out n t s r h i salt eph (x_public C secret) seed =
      (Inr (n + 228), frame @ drop (n + 228) out) \<and> length frame = n + 228 \<and>
    open_in_place C frame r t (ed_public C seed) secret = Inr (range_of out HEADER_LEN (HEADER_LEN + n))"
  by (rule seal_open [OF assms, of t s r h i salt seed]) (auto simp: const_defs)

theorem seal_open_witness:
  "\<exists>frame. seal_in_place toy_crypto (replicate 300 7) 3 MT_Publish (AgentId 5) AgentId_CA HandlerId_NONE (SessionId 9) 1 2
      (x_public toy_crypto 4) 6 = (Inr 231, frame @ drop 231 (replicate 300 7)) \<and>
    open_in_place toy_crypto frame AgentId_CA MT_Publish (ed_public toy_crypto 6) 4 = Inr [7, 7, 7]"
proof -
  have "x_dh toy_crypto 2 (x_public toy_crypto 4) \<noteq> 0" by (simp add: toy_crypto_def)
  from seal_open_roundtrip [OF toy_crypto_laws _ _ this, of 3 "replicate 300 7" MT_Publish "AgentId 5" AgentId_CA
      HandlerId_NONE "SessionId 9" 1 6]
  show ?thesis by (auto simp: const_defs range_of_def numeral_3_eq_3)
qed

text \<open>A frame opens exactly when every check passes: it parses, it is addressed to this recipient
  with this message type, the signature over header, ciphertext and tag verifies under the
  expected key, the shared secret is not all zero, and the authenticated decryption under the key
  derived from the header's fields, with the whole header as associated data, succeeds.\<close>

theorem open_accepts_exactly:
  "open_in_place C frame rcpt t vk secret = Inr plain \<longleftrightarrow>
     (\<exists>e key nonce. parse_envelope frame = Inr e \<and> envelope_recipient e = rcpt \<and> envelope_message_type e = t \<and>
        ed_verify_strict C vk (envelope_signed_bytes e) (envelope_signature e) \<and>
        x_dh C secret (envelope_ephemeral_public e) \<noteq> 0 \<and>
        derive_key_nonce C (x_dh C secret (envelope_ephemeral_public e)) (envelope_salt e) t
          (envelope_sender e) rcpt (envelope_session_id e) (envelope_ephemeral_public e) = Inr (key, nonce) \<and>
        aead_decrypt C key nonce (envelope_header e) (envelope_ciphertext e) (envelope_tag e) = Some plain)"
  by (rule open_in_place_iff)

text \<open>Key derivation never overflows its fixed buffers and separates its uses. It is the pair of
  HKDF expansions of the context bytes with the key label and the nonce label, for every input.\<close>

theorem key_derivation_exact:
  "derive_key_nonce C shared salt t s r i p =
     tryE (ok_or (hkdf_expand C salt shared (kdf_context t s r i p @ ascii ''aead-key/chacha20poly1305'') 32)
        CryptoFailure) (\<lambda>key.
     tryE (ok_or (hkdf_expand C salt shared (kdf_context t s r i p @ ascii ''aead-nonce/one-message'') 12)
        CryptoFailure) (\<lambda>nonce.
     tryE (ok_or (try_into_array key) CryptoFailure) (\<lambda>key.
     tryE (ok_or (try_into_array nonce) CryptoFailure) (\<lambda>nonce. Inr (key, nonce)))))"
  by (rule derive_key_nonce_eq)

text \<open>Two key derivations expand the same bytes only for the same label, message type, sender,
  recipient, session and ephemeral key: the concatenation without length fields is injective
  although the domain strings have different lengths.\<close>

theorem kdf_domain_separation:
  "kdf_context t s r i p @ label = kdf_context t' s' r' i' p' @ label' \<longleftrightarrow>
     t = t' \<and> s = s' \<and> r = r' \<and> i = i' \<and> p = p' \<and> label = label'"
  using kdf_context_tail by metis

end
