(* ===== verification/Agent.thy ===== *)
theory Agent
  imports Crypto Replay
begin

text \<open>
  \<open>agent-core/src/lib.rs\<close>: the agent facade. Requests are written into the caller's buffer
  (the state is the buffer and the random generator), a delivery is received through the
  replay protector (the state is the protector, any implementation of its trait, passed as
  \<open>mark\<close>). The transport and the clock are traits of the platform: the record \<open>platform\<close>
  over a world \<open>'w\<close>, with the application's handler a function on its own state.
\<close>

section \<open>Definitions\<close>

record AgentKeys =
  keys_signing :: array32
  keys_x25519 :: array32

record CaPublicKeys =
  ca_ed25519 :: array32
  ca_x25519 :: array32

record Agent =
  agent_id :: AgentId
  agent_keys :: AgentKeys
  agent_ca :: CaPublicKeys

record Delivery =
  delivery_type_id :: TypeId
  delivery_publisher :: AgentId
  delivery_handler :: HandlerId
  delivery_value :: bytes

definition AgentKeys_from_seeds :: "array32 \<Rightarrow> array32 \<Rightarrow> AgentKeys" where
  "AgentKeys_from_seeds ed25519_seed x25519_secret =
     \<lparr>keys_signing = ed25519_seed, keys_x25519 = x25519_secret\<rparr>"

definition AgentKeys_verifying_key :: "'r crypto \<Rightarrow> AgentKeys \<Rightarrow> array32" where
  "AgentKeys_verifying_key C keys = ed_public C (keys_signing keys)"

definition AgentKeys_x25519_public :: "'r crypto \<Rightarrow> AgentKeys \<Rightarrow> array32" where
  "AgentKeys_x25519_public C keys = x_public C (keys_x25519 keys)"

definition request_into ::
  "'r crypto \<Rightarrow> Agent \<Rightarrow> bytes \<Rightarrow> MessageType \<Rightarrow> HandlerId \<Rightarrow> 'r \<Rightarrow> (bytes \<Rightarrow> (Error + usize) \<times> bytes)
     \<Rightarrow> (Error + usize) \<times> bytes \<times> 'r" where
  "request_into C agent output message_type handler rng encode =
     (if length output < MAX_FRAME_LEN then (Inl Oversized, output, rng)
      else
        let (encoded, plain) = encode (range_of output HEADER_LEN MAX_FRAME_LEN);
            output = copy_at output HEADER_LEN plain in
        case encoded of Inl e \<Rightarrow> (Inl e, output, rng)
        | Inr plaintext_len \<Rightarrow>
            let (session, rng) = rng_fill16 C rng;
                (salt, rng) = rng_fill32 C rng;
                (secret, rng) = OneShotSecret_generate C rng;
                (result, output) = seal_in_place C output plaintext_len message_type (agent_id agent)
                  AgentId_CA handler (SessionId session) salt secret (ca_x25519 (agent_ca agent))
                  (keys_signing (agent_keys agent))
            in (result, output, rng))"

definition set_environment_into ::
  "'r crypto \<Rightarrow> Agent \<Rightarrow> bytes \<Rightarrow> AttributeRef list \<Rightarrow> 'r \<Rightarrow> (Error + usize) \<times> bytes \<times> 'r" where
  "set_environment_into C agent output attributes rng =
     request_into C agent output MT_SetEnvironment HandlerId_NONE rng
       (\<lambda>plain. encode_environment plain attributes)"

definition subscribe_into ::
  "'r crypto \<Rightarrow> Agent \<Rightarrow> bytes \<Rightarrow> TypeId \<Rightarrow> HandlerId \<Rightarrow> ClauseRef list \<Rightarrow> 'r \<Rightarrow> (Error + usize) \<times> bytes \<times> 'r" where
  "subscribe_into C agent output type_id handler predicate rng =
     (if handler = HandlerId_NONE then (Inl WrongHandler, output, rng)
      else request_into C agent output MT_Subscribe handler rng
             (\<lambda>plain. encode_subscribe plain type_id predicate))"

definition subscribe_permanent_into ::
  "'r crypto \<Rightarrow> Agent \<Rightarrow> bytes \<Rightarrow> TypeId \<Rightarrow> HandlerId \<Rightarrow> ClauseRef list \<Rightarrow> 'r \<Rightarrow> (Error + usize) \<times> bytes \<times> 'r" where
  "subscribe_permanent_into C agent output type_id handler predicate rng =
     (if handler = HandlerId_NONE then (Inl WrongHandler, output, rng)
      else request_into C agent output MT_SubscribePermanent handler rng
             (\<lambda>plain. encode_subscribe_permanent plain type_id predicate))"

definition publish_into ::
  "'r crypto \<Rightarrow> Agent \<Rightarrow> bytes \<Rightarrow> TypeId \<Rightarrow> ClauseRef list \<Rightarrow> bytes \<Rightarrow> 'r \<Rightarrow> (Error + usize) \<times> bytes \<times> 'r" where
  "publish_into C agent output type_id predicate val rng =
     request_into C agent output MT_Publish HandlerId_NONE rng
       (\<lambda>plain. encode_publish plain type_id predicate val)"

definition request_owned :: "(bytes \<Rightarrow> (Error + usize) \<times> bytes \<times> 'r) \<Rightarrow> (Error + bytes) \<times> 'r" where
  "request_owned encode =
     (case encode (replicate MAX_FRAME_LEN 0) of
        (Inl e, _, rng) \<Rightarrow> (Inl e, rng)
      | (Inr n, frame, rng) \<Rightarrow> (Inr (take n frame), rng))"

definition set_environment_request ::
  "'r crypto \<Rightarrow> Agent \<Rightarrow> AttributeRef list \<Rightarrow> 'r \<Rightarrow> (Error + bytes) \<times> 'r" where
  "set_environment_request C agent attributes rng =
     request_owned (\<lambda>output. set_environment_into C agent output attributes rng)"

definition subscribe_request ::
  "'r crypto \<Rightarrow> Agent \<Rightarrow> TypeId \<Rightarrow> HandlerId \<Rightarrow> ClauseRef list \<Rightarrow> 'r \<Rightarrow> (Error + bytes) \<times> 'r" where
  "subscribe_request C agent type_id handler predicate rng =
     request_owned (\<lambda>output. subscribe_into C agent output type_id handler predicate rng)"

definition subscribe_permanent_request ::
  "'r crypto \<Rightarrow> Agent \<Rightarrow> TypeId \<Rightarrow> HandlerId \<Rightarrow> ClauseRef list \<Rightarrow> 'r \<Rightarrow> (Error + bytes) \<times> 'r" where
  "subscribe_permanent_request C agent type_id handler predicate rng =
     request_owned (\<lambda>output. subscribe_permanent_into C agent output type_id handler predicate rng)"

definition publish_request ::
  "'r crypto \<Rightarrow> Agent \<Rightarrow> TypeId \<Rightarrow> ClauseRef list \<Rightarrow> bytes \<Rightarrow> 'r \<Rightarrow> (Error + bytes) \<times> 'r" where
  "publish_request C agent type_id predicate val rng =
     request_owned (\<lambda>output. publish_into C agent output type_id predicate val rng)"

type_synonym 's mark = "'s \<Rightarrow> AgentId \<Rightarrow> SessionId \<Rightarrow> u64 \<Rightarrow> (Error + unit) \<times> 's"

definition receive ::
  "'r crypto \<Rightarrow> 's mark \<Rightarrow> Agent \<Rightarrow> bytes \<Rightarrow> HandlerId \<Rightarrow> 's \<Rightarrow> u64 \<Rightarrow> (Error + Delivery) \<times> 's" where
  "receive C mark agent frame expected_handler replay now_seconds =
     (let ca_key = ca_ed25519 (agent_ca agent) in
      if \<not> ed_key_ok C ca_key then (Inl BadSignature, replay)
      else tryS (parse_envelope frame, replay) (\<lambda>envelope replay.
      if envelope_recipient envelope \<noteq> agent_id agent then (Inl WrongRecipient, replay)
      else if envelope_message_type envelope \<noteq> MT_PublicationResponse then (Inl WrongMessageType, replay)
      else if envelope_handler envelope \<noteq> expected_handler \<or> expected_handler = HandlerId_NONE
      then (Inl WrongHandler, replay)
      else tryS (verify_envelope_signature C envelope ca_key, replay) (\<lambda>_ replay.
      tryS (mark replay (envelope_sender envelope) (envelope_session_id envelope) now_seconds) (\<lambda>_ replay.
      tryS (open_in_place C frame (agent_id agent) MT_PublicationResponse ca_key
              (keys_x25519 (agent_keys agent)), replay) (\<lambda>plaintext replay.
      tryS (parse_operation plaintext, replay) (\<lambda>operation replay.
      case operation of
        Op_PublicationResponse type_id publisher val \<Rightarrow>
          (Inr \<lparr>delivery_type_id = type_id, delivery_publisher = publisher,
                delivery_handler = expected_handler, delivery_value = val\<rparr>, replay)
      | _ \<Rightarrow> (Inl WrongMessageType, replay)))))))"

datatype 'e SubscriptionError = Protocol Error | Transport 'e

record ('w, 'e) platform =
  transport_send :: "bytes \<Rightarrow> 'w \<Rightarrow> ('e + unit) \<times> 'w"
  transport_receive :: "bytes \<Rightarrow> 'w \<Rightarrow> ('e + usize) \<times> bytes \<times> 'w"
  clock_now_seconds :: "'w \<Rightarrow> u64"

text \<open>Everything the subscription methods borrow mutably.\<close>

record ('w, 's, 'r) subscription_state =
  sub_world :: 'w
  sub_replay :: 's
  sub_rng :: 'r
  sub_frame :: bytes

text \<open>The receive half of \<open>subscribe_once\<close> and of each turn of \<open>subscribe_permanent\<close>.\<close>

definition receive_delivery ::
  "'r crypto \<Rightarrow> 's mark \<Rightarrow> ('w, 'e) platform \<Rightarrow> Agent \<Rightarrow> TypeId \<Rightarrow> HandlerId \<Rightarrow> ('w, 's, 'r) subscription_state
     \<Rightarrow> ('e SubscriptionError + Delivery) \<times> ('w, 's, 'r) subscription_state" where
  "receive_delivery C mark P agent type_id handler st =
     (let (received, frame, world) = transport_receive P (sub_frame st) (sub_world st);
          st = st\<lparr>sub_frame := frame, sub_world := world\<rparr> in
      tryS (map_err Transport received, st) (\<lambda>frame_len st.
      if frame_len > length (sub_frame st) then (Inl (Protocol Oversized), st)
      else
        let (delivered, replay) = receive C mark agent (take frame_len (sub_frame st)) handler (sub_replay st)
              (clock_now_seconds P (sub_world st));
            st = st\<lparr>sub_replay := replay\<rparr> in
        tryS (map_err Protocol delivered, st) (\<lambda>delivery st.
        if delivery_type_id delivery \<noteq> type_id then (Inl (Protocol WrongMessageType), st)
        else (Inr delivery, st))))"

definition send_request ::
  "('w, 'e) platform \<Rightarrow> (Error + usize) \<times> bytes \<times> 'r \<Rightarrow> ('w, 's, 'r) subscription_state
     \<Rightarrow> ('e SubscriptionError + unit) \<times> ('w, 's, 'r) subscription_state" where
  "send_request P request st =
     (let (written, frame, rng) = request; st = st\<lparr>sub_frame := frame, sub_rng := rng\<rparr> in
      tryS (map_err Protocol written, st) (\<lambda>request_len st.
      let (sent, world) = transport_send P (take request_len (sub_frame st)) (sub_world st) in
      (map_err Transport sent, st\<lparr>sub_world := world\<rparr>)))"

definition subscribe_once ::
  "'r crypto \<Rightarrow> 's mark \<Rightarrow> ('w, 'e) platform \<Rightarrow> Agent \<Rightarrow> TypeId \<Rightarrow> HandlerId \<Rightarrow> ClauseRef list
     \<Rightarrow> ('w, 's, 'r) subscription_state \<Rightarrow> ('e SubscriptionError + Delivery) \<times> ('w, 's, 'r) subscription_state" where
  "subscribe_once C mark P agent type_id handler predicate st =
     tryS (send_request P (subscribe_into C agent (sub_frame st) type_id handler predicate (sub_rng st)) st) (\<lambda>_ st.
     receive_delivery C mark P agent type_id handler st)"

text \<open>The endless loop of \<open>subscribe_permanent\<close>: it returns only an error. \<open>'h\<close> is the state
  of the application's handler.\<close>

partial_function (option) permanent_loop ::
  "'r crypto \<Rightarrow> 's mark \<Rightarrow> ('w, 'e) platform \<Rightarrow> Agent \<Rightarrow> TypeId \<Rightarrow> HandlerId \<Rightarrow> (Delivery \<Rightarrow> 'h \<Rightarrow> 'h)
     \<Rightarrow> ('w, 's, 'r) subscription_state \<Rightarrow> 'h \<Rightarrow> ('e SubscriptionError \<times> ('w, 's, 'r) subscription_state \<times> 'h) option" where
  "permanent_loop C mark P agent type_id handler on_publication st h =
     (case receive_delivery C mark P agent type_id handler st of
        (Inl e, st) \<Rightarrow> Some (e, st, h)
      | (Inr delivery, st) \<Rightarrow>
          permanent_loop C mark P agent type_id handler on_publication st (on_publication delivery h))"

definition subscribe_permanent ::
  "'r crypto \<Rightarrow> 's mark \<Rightarrow> ('w, 'e) platform \<Rightarrow> Agent \<Rightarrow> TypeId \<Rightarrow> HandlerId \<Rightarrow> ClauseRef list
     \<Rightarrow> (Delivery \<Rightarrow> 'h \<Rightarrow> 'h) \<Rightarrow> ('w, 's, 'r) subscription_state \<Rightarrow> 'h
     \<Rightarrow> ('e SubscriptionError \<times> ('w, 's, 'r) subscription_state \<times> 'h) option" where
  "subscribe_permanent C mark P agent type_id handler predicate on_publication st h =
     (case send_request P (subscribe_permanent_into C agent (sub_frame st) type_id handler predicate (sub_rng st)) st of
        (Inl e, st) \<Rightarrow> Some (e, st, h)
      | (Inr _, st) \<Rightarrow> permanent_loop C mark P agent type_id handler on_publication st h)"

datatype OwnedValue = Owned_Bool bool | Owned_I64 i64 | Owned_Bytes bytes

record OwnedAttribute =
  owned_id :: AttributeId
  owned_value :: OwnedValue

fun OwnedValue_from :: "ValueRef \<Rightarrow> OwnedValue" where
  "OwnedValue_from (Value_Bool b) = Owned_Bool b"
| "OwnedValue_from (Value_I64 i) = Owned_I64 i"
| "OwnedValue_from (Value_Bytes bs) = Owned_Bytes bs"

fun copy_environment_loop ::
  "EnvironmentRef \<Rightarrow> u16 list \<Rightarrow> OwnedAttribute list \<Rightarrow> Error + OwnedAttribute list" where
  "copy_environment_loop environment [] result =
     (if length result = environment_len environment then Inr result else Inl Malformed)"
| "copy_environment_loop environment (i # ids) result =
     (case environment_get environment (AttributeId i) of
        None \<Rightarrow> copy_environment_loop environment ids result
      | Some val \<Rightarrow>
          let result = result @ [\<lparr>owned_id = AttributeId i, owned_value = OwnedValue_from val\<rparr>] in
          if length result = environment_len environment then Inr result
          else copy_environment_loop environment ids result)"

definition copy_environment :: "EnvironmentRef \<Rightarrow> Error + OwnedAttribute list" where
  "copy_environment environment = copy_environment_loop environment (map of_nat [0..<65536]) []"

section \<open>Requests\<close>

text \<open>The request of each kind of operation, the message type and the handler it travels with.\<close>

fun operation_type :: "Operation \<Rightarrow> MessageType" where
  "operation_type (SetEnvironment _) = MT_SetEnvironment"
| "operation_type (Subscribe _ _) = MT_Subscribe"
| "operation_type (SubscribePermanent _ _) = MT_SubscribePermanent"
| "operation_type (Publish _ _ _) = MT_Publish"
| "operation_type (PublicationResponse _ _ _) = MT_PublicationResponse"

text \<open>The three random draws of a request: session, salt, ephemeral secret.\<close>

definition request_draws :: "'r crypto \<Rightarrow> 'r \<Rightarrow> array16 \<times> array32 \<times> array32 \<times> 'r" where
  "request_draws C rng =
     (let (session, rng) = rng_fill16 C rng; (salt, rng) = rng_fill32 C rng;
          (secret, rng) = rng_ephemeral C rng in (session, salt, secret, rng))"

lemma request_into_short:
  "length out < MAX_FRAME_LEN \<Longrightarrow> request_into C agent out t h rng encode = (Inl Oversized, out, rng)"
  by (simp add: request_into_def)

lemma request_into_invalid:
  assumes "MAX_FRAME_LEN \<le> length out" "\<not> operation_valid op"
  shows "fst (request_into C agent out t h rng (\<lambda>plain. encode_operation plain op)) = Inl (encode_error op)"
proof -
  have "fst (encode_operation plain op) = Inl (encode_error op)" for plain
    using assms(2) by (intro encode_operation_err) simp
  from this [of "range_of out HEADER_LEN MAX_FRAME_LEN"] assms(1) show ?thesis
    by (cases "encode_operation (range_of out HEADER_LEN MAX_FRAME_LEN) op") (simp add: request_into_def)
qed

lemma request_into_ok:
  assumes laws: "crypto_laws C" and op: "operation_valid op" and out: "MAX_FRAME_LEN \<le> length out"
    and draws: "request_draws C rng = (session, salt, secret, rng')"
    and ca: "ca_x25519 (agent_ca agent) = x_public C ca_secret"
    and dh: "x_dh C secret (x_public C ca_secret) \<noteq> 0"
  obtains e rest where
    "request_into C agent out t h rng (\<lambda>plain. encode_operation plain op) =
       (Inr (length (frame_bytes e)), frame_bytes e @ rest, rng')"
    "parse_envelope (frame_bytes e) = Inr e" "envelope_message_type e = t" "envelope_sender e = agent_id agent"
    "envelope_recipient e = AgentId_CA" "envelope_handler e = h" "envelope_session_id e = SessionId session"
    "verify_envelope_signature C e (ed_public C (keys_signing (agent_keys agent))) = Inr ()"
    "open_in_place C (frame_bytes e) AgentId_CA t (ed_public C (keys_signing (agent_keys agent))) ca_secret =
       Inr (operation_bytes op)"
    "length (frame_bytes e @ rest) = length out"
proof -
  let ?n = "length (operation_bytes op)"
  let ?room = "range_of out HEADER_LEN MAX_FRAME_LEN"
  let ?plain = "operation_bytes op @ drop ?n ?room"
  let ?out = "copy_at out HEADER_LEN ?plain"
  have n: "?n \<le> 3640" by (rule length_operation_bytes [OF op])
  have room: "length ?room = 4176" using out by (simp add: length_range_of const_defs)
  have enc: "encode_operation ?room op = (Inr ?n, ?plain)"
    using n room by (intro encode_operation_ok op) simp
  have len: "length ?out = length out" using out n room by (simp add: const_defs)
  have plain: "range_of ?out 148 (148 + ?n) = operation_bytes op"
    using out by (simp add: copy_at_def range_of_def const_defs)
  have "request_into C agent out t h rng (\<lambda>plain. encode_operation plain op) =
    (let (r, o1) = seal_in_place C ?out ?n t (agent_id agent) AgentId_CA h (SessionId session) salt secret
        (x_public C ca_secret) (keys_signing (agent_keys agent)) in (r, o1, rng'))"
    using out draws enc ca
    by (auto simp: request_into_def request_draws_def OneShotSecret_generate_def Let_def split: prod.splits)
  moreover obtain e where e:
    "seal_in_place C ?out ?n t (agent_id agent) AgentId_CA h (SessionId session) salt secret
        (x_public C ca_secret) (keys_signing (agent_keys agent)) = (Inr (?n + 228), frame_bytes e @ drop (?n + 228) ?out)"
    "length (frame_bytes e) = ?n + 228" "parse_envelope (frame_bytes e) = Inr e"
    "envelope_message_type e = t" "envelope_sender e = agent_id agent" "envelope_recipient e = AgentId_CA"
    "envelope_handler e = h" "envelope_session_id e = SessionId session"
    "verify_envelope_signature C e (ed_public C (keys_signing (agent_keys agent))) = Inr ()"
    "open_in_place C (frame_bytes e) AgentId_CA t (ed_public C (keys_signing (agent_keys agent))) ca_secret =
      Inr (range_of ?out 148 (148 + ?n))"
    by (rule seal_open [OF laws, of ?n ?out secret ca_secret t "agent_id agent" AgentId_CA h "SessionId session" salt
          "keys_signing (agent_keys agent)"])
      (use n len out dh in \<open>simp_all add: const_defs\<close>)
  ultimately show thesis
    using that [of e "drop (?n + 228) ?out"] plain out n len by (simp add: const_defs)
qed

section \<open>Receiving\<close>

lemma response_case_iff:
  "(case operation of Op_PublicationResponse t p v \<Rightarrow>
        (Inr \<lparr>delivery_type_id = t, delivery_publisher = p, delivery_handler = h, delivery_value = v\<rparr>, s)
      | _ \<Rightarrow> (Inl err, s)) = (Inr d, s') \<longleftrightarrow>
   operation = Op_PublicationResponse (delivery_type_id d) (delivery_publisher d) (delivery_value d) \<and>
   delivery_handler d = h \<and> s' = s"
  by (cases d; cases operation) auto

text \<open>A delivery is accepted exactly when every check passes, in particular the CA's signature.\<close>

lemma receive_Inr_iff:
  "receive C mark agent frame h replay now = (Inr d, replay') \<longleftrightarrow>
     ed_key_ok C (ca_ed25519 (agent_ca agent)) \<and> h \<noteq> HandlerId_NONE \<and> delivery_handler d = h \<and>
     (\<exists>e plain. parse_envelope frame = Inr e \<and> envelope_recipient e = agent_id agent \<and>
        envelope_message_type e = MT_PublicationResponse \<and> envelope_handler e = h \<and>
        ed_verify_strict C (ca_ed25519 (agent_ca agent)) (envelope_signed_bytes e) (envelope_signature e) \<and>
        mark replay (envelope_sender e) (envelope_session_id e) now = (Inr (), replay') \<and>
        open_in_place C frame (agent_id agent) MT_PublicationResponse (ca_ed25519 (agent_ca agent))
          (keys_x25519 (agent_keys agent)) = Inr plain \<and>
        parse_operation plain =
          Inr (Op_PublicationResponse (delivery_type_id d) (delivery_publisher d) (delivery_value d)))"
  by (auto simp: receive_def Let_def tryS_Inr_iff response_case_iff split: if_splits)

text \<open>A frame that is not signed by the CA for this agent and handler leaves the replay memory
  untouched, so such frames cannot fill it.\<close>

lemma receive_unauthenticated:
  assumes "\<not> (\<exists>e. parse_envelope frame = Inr e \<and> envelope_recipient e = agent_id agent \<and>
      envelope_message_type e = MT_PublicationResponse \<and> envelope_handler e = h \<and> h \<noteq> HandlerId_NONE \<and>
      ed_verify_strict C (ca_ed25519 (agent_ca agent)) (envelope_signed_bytes e) (envelope_signature e))"
  shows "snd (receive C mark agent frame h replay now) = replay \<and>
    \<not> is_ok (fst (receive C mark agent frame h replay now))"
  using assms
  by (cases "parse_envelope frame") (auto simp: receive_def Let_def verify_envelope_signature_def)

text \<open>Once the envelope is authentic, the replay decision comes first, and its state stays.\<close>

lemma receive_replay:
  assumes "parse_envelope frame = Inr e" "envelope_recipient e = agent_id agent"
    "envelope_message_type e = MT_PublicationResponse" "envelope_handler e = h" "h \<noteq> HandlerId_NONE"
    "ed_key_ok C (ca_ed25519 (agent_ca agent))"
    "ed_verify_strict C (ca_ed25519 (agent_ca agent)) (envelope_signed_bytes e) (envelope_signature e)"
  shows "snd (receive C mark agent frame h replay now) = snd (mark replay (envelope_sender e) (envelope_session_id e) now)"
    and "fst (mark replay (envelope_sender e) (envelope_session_id e) now) = Inl err \<Longrightarrow>
      fst (receive C mark agent frame h replay now) = Inl err"
  using assms
  by (cases "mark replay (envelope_sender e) (envelope_session_id e) now";
      auto simp: receive_def Let_def verify_envelope_signature_def tryS_def split: sum.splits OperationRef.splits)+

text \<open>A response that the CA seals for this agent and handler is delivered, unless the replay
  protector refuses its session.\<close>

lemma receive_opened_response:
  assumes "parse_envelope frame = Inr e" "envelope_recipient e = agent_id agent"
    "envelope_message_type e = MT_PublicationResponse" "envelope_handler e = h" "h \<noteq> HandlerId_NONE"
    "ed_key_ok C (ca_ed25519 (agent_ca agent))"
    "verify_envelope_signature C e (ca_ed25519 (agent_ca agent)) = Inr ()"
    "open_in_place C frame (agent_id agent) MT_PublicationResponse (ca_ed25519 (agent_ca agent))
       (keys_x25519 (agent_keys agent)) = Inr (operation_bytes (PublicationResponse t publisher val))"
    "length val \<le> MAX_VALUE_BYTES"
    "mark replay (envelope_sender e) (envelope_session_id e) now = (Inr (), replay')"
  shows "receive C mark agent frame h replay now =
    (Inr \<lparr>delivery_type_id = t, delivery_publisher = publisher, delivery_handler = h, delivery_value = val\<rparr>, replay')"
  using assms parse_operation_print [of "PublicationResponse t publisher val"]
  by (auto simp: receive_Inr_iff)

lemma receive_sealed_response:
  assumes "crypto_laws C" "ca_ed25519 (agent_ca agent) = ed_public C seed" "h \<noteq> HandlerId_NONE"
    "length val \<le> MAX_VALUE_BYTES" "x_dh C eph (x_public C (keys_x25519 (agent_keys agent))) \<noteq> 0"
    "mark replay s i now = (Inr (), replay')"
  obtains frame where "receive C mark agent frame h replay now =
    (Inr \<lparr>delivery_type_id = t, delivery_publisher = publisher, delivery_handler = h, delivery_value = val\<rparr>, replay')"
proof -
  let ?op = "operation_bytes (PublicationResponse t publisher val)"
  let ?out = "replicate 148 0 @ ?op @ replicate 80 0"
  have valid: "operation_valid (PublicationResponse t publisher val)" using assms(4) by simp
  have n: "length ?op \<le> MAX_PLAINTEXT_LEN" using length_operation_bytes [OF valid] by (simp add: const_defs)
  have fits: "length ?op + 228 \<le> length ?out" by simp
  obtain e where "parse_envelope (frame_bytes e) = Inr e" "envelope_message_type e = MT_PublicationResponse"
    "envelope_sender e = s" "envelope_recipient e = agent_id agent" "envelope_handler e = h" "envelope_session_id e = i"
    "verify_envelope_signature C e (ed_public C seed) = Inr ()"
    "open_in_place C (frame_bytes e) (agent_id agent) MT_PublicationResponse (ed_public C seed) (keys_x25519 (agent_keys agent)) =
       Inr (range_of ?out 148 (148 + length ?op))"
    by (rule seal_open [OF assms(1) n fits assms(5), of MT_PublicationResponse s "agent_id agent" h i 0 seed]) blast
  moreover have "range_of ?out 148 (148 + length ?op) = ?op" by (simp add: range_of_def del: operation_bytes.simps)
  ultimately show thesis
    using assms by (intro that [of "frame_bytes e"] receive_opened_response [where e = e]) (simp_all add: crypto_lawsD(1))
qed

section \<open>Subscription loops\<close>

lemma receive_delivery_Inr:
  assumes "receive_delivery C mark P agent type_id h st = (Inr d, st')"
  shows "delivery_type_id d = type_id" "delivery_handler d = h"
    and "\<exists>frame now. receive C mark agent frame h (sub_replay st) now = (Inr d, sub_replay st')"
  using assms
  by (auto simp: receive_delivery_def Let_def tryS_Inr_iff receive_Inr_iff split: prod.splits if_splits) blast+

text \<open>\<open>delivers st ds st'\<close>: from \<open>st\<close>, successive turns hand over the deliveries \<open>ds\<close> and end in
  \<open>st'\<close>.\<close>

inductive delivers ::
  "'r crypto \<Rightarrow> 's mark \<Rightarrow> ('w, 'e) platform \<Rightarrow> Agent \<Rightarrow> TypeId \<Rightarrow> HandlerId \<Rightarrow> ('w, 's, 'r) subscription_state
     \<Rightarrow> Delivery list \<Rightarrow> ('w, 's, 'r) subscription_state \<Rightarrow> bool"
  for C mark P agent type_id h where
  delivers_none: "delivers C mark P agent type_id h st [] st"
| delivers_one: "receive_delivery C mark P agent type_id h st = (Inr d, st1) \<Longrightarrow>
     delivers C mark P agent type_id h st1 ds st2 \<Longrightarrow> delivers C mark P agent type_id h st (d # ds) st2"

lemma delivers_authentic:
  "delivers C mark P agent type_id h st ds st' \<Longrightarrow> d \<in> set ds \<Longrightarrow>
     delivery_type_id d = type_id \<and> delivery_handler d = h \<and>
     (\<exists>frame s now s'. receive C mark agent frame h s now = (Inr d, s'))"
proof (induction rule: delivers.induct)
  case (delivers_one st d1 st1 ds st2)
  then show ?case using receive_delivery_Inr [OF delivers_one(1)] by auto
qed simp

lemma permanent_loop_runs:
  "delivers C mark P agent type_id h st ds st1 \<Longrightarrow>
   receive_delivery C mark P agent type_id h st1 = (Inl e, st2) \<Longrightarrow>
     permanent_loop C mark P agent type_id h f st a = Some (e, st2, fold f ds a)"
proof (induction arbitrary: a rule: delivers.induct)
  case (delivers_none st)
  then show ?case by (simp add: permanent_loop.simps [of C mark P agent type_id h f st])
next
  case (delivers_one st d st1 ds st2)
  then show ?case by (simp add: permanent_loop.simps [of C mark P agent type_id h f st])
qed

lemma permanent_loop_returns:
  assumes "permanent_loop C mark P agent type_id h f st a = Some r"
  shows "\<exists>ds st1 e st2. delivers C mark P agent type_id h st ds st1 \<and>
    receive_delivery C mark P agent type_id h st1 = (Inl e, st2) \<and> r = (e, st2, fold f ds a)"
proof -
  let ?Q = "\<lambda>((((((((C, mark), P), agent), type_id), h), f), st), a) r.
    \<exists>ds st1 e st2. delivers C mark P agent type_id h st ds st1 \<and>
      receive_delivery C mark P agent type_id h st1 = (Inl e, st2) \<and> r = (e, st2, fold f ds a)"
  have "?Q ((((((((C, mark), P), agent), type_id), h), f), st), a) r"
  proof (rule permanent_loop.raw_induct [OF _ assms])
    fix loop C mark P agent type_id h f st a r
    assume IH: "\<And>C mark P agent type_id h f st a r. loop C mark P agent type_id h f st a = Some r \<Longrightarrow>
        ?Q ((((((((C, mark), P), agent), type_id), h), f), st), a) r"
      and body: "(case receive_delivery C mark P agent type_id h st of (Inl e, st) \<Rightarrow> Some (e, st, a)
        | (Inr d, st) \<Rightarrow> loop C mark P agent type_id h f st (f d a)) = Some r"
    obtain res st1 where turn: "receive_delivery C mark P agent type_id h st = (res, st1)" by fastforce
    show "?Q ((((((((C, mark), P), agent), type_id), h), f), st), a) r"
    proof (cases res)
      case (Inl e)
      with turn body show ?thesis by (auto intro!: exI [of _ "[]"] intro: delivers_none)
    next
      case (Inr d)
      with turn body have "loop C mark P agent type_id h f st1 (f d a) = Some r" by simp
      from IH [OF this] obtain ds st2 e st3 where "delivers C mark P agent type_id h st1 ds st2"
        "receive_delivery C mark P agent type_id h st2 = (Inl e, st3)" "r = (e, st3, fold f ds (f d a))"
        by auto
      moreover have "delivers C mark P agent type_id h st (d # ds) st2"
        using turn Inr calculation(1) by (auto intro: delivers_one)
      ultimately show ?thesis by (auto intro!: exI [of _ "d # ds"])
    qed
  qed
  then show ?thesis by simp
qed

section \<open>Copied environments\<close>

definition owned :: "(AttributeId \<rightharpoonup> ValueRef) \<Rightarrow> u16 \<Rightarrow> OwnedAttribute" where
  "owned lookup i = \<lparr>owned_id = AttributeId i, owned_value = OwnedValue_from (the (lookup (AttributeId i)))\<rparr>"

definition present :: "(AttributeId \<rightharpoonup> ValueRef) \<Rightarrow> u16 list \<Rightarrow> u16 list" where
  "present lookup ids = filter (\<lambda>i. lookup (AttributeId i) \<noteq> None) ids"

lemma copy_environment_loop_collects:
  "length result + length (present (environment_get env) ids) = environment_len env \<Longrightarrow>
     copy_environment_loop env ids result =
       Inr (result @ map (owned (environment_get env)) (present (environment_get env) ids))"
proof (induction ids arbitrary: result)
  case (Cons i ids)
  show ?case
  proof (cases "environment_get env (AttributeId i)")
    case None
    with Cons show ?thesis by (simp add: present_def)
  next
    case (Some v)
    show ?thesis
    proof (cases "present (environment_get env) ids")
      case Nil
      with Some Cons.prems show ?thesis by (simp add: present_def owned_def)
    next
      case (Cons j js)
      with Some Cons.prems Cons.IH [of "result @ [owned (environment_get env) i]"] show ?thesis
        by (simp add: present_def owned_def)
    qed
  qed
qed (simp add: present_def)

lemma present_all_length:
  assumes "attributes_valid as" "set ids = UNIV" "distinct ids"
  shows "length (present (attribute_lookup as) ids) = length as"
proof -
  have dom: "attribute_lookup as (AttributeId i) \<noteq> None \<longleftrightarrow> i \<in> (\<lambda>a. attribute_u16 (attribute_id a)) ` set as" for i
    by (induction as) (auto simp: AttributeId.expand)
  have "set (present (attribute_lookup as) ids) = (\<lambda>a. attribute_u16 (attribute_id a)) ` set as"
    using assms(2) by (simp only: present_def set_filter dom) simp
  moreover have "distinct (present (attribute_lookup as) ids)" using assms(3) by (simp add: present_def)
  moreover have "distinct (map (\<lambda>a. attribute_u16 (attribute_id a)) as)"
    using assms(1) by (simp add: distinct_attribute_u16 attributes_valid_def)
  ultimately show ?thesis
    by (metis distinct_card length_map list.set_map)
qed

lemma all_u16: "set (map of_nat [0..<65536]) = (UNIV :: u16 set)" "distinct (map of_nat [0..<65536] :: u16 list)"
proof -
  have "w \<in> of_nat ` {0..<65536}" for w :: u16
    using unsigned_less [of w, where 'a = nat] by (intro image_eqI [of _ _ "unat w"]) simp_all
  then show "set (map of_nat [0..<65536]) = (UNIV :: u16 set)" by auto
  show "distinct (map of_nat [0..<65536] :: u16 list)"
    by (auto simp: distinct_map inj_on_def dest: arg_cong [where f = unat] simp: unat_of_nat_u16)
qed

lemma copy_environment_of:
  assumes "attributes_valid as"
  shows "copy_environment (environment_of as) =
    Inr (map (owned (attribute_lookup as)) (present (attribute_lookup as) (map of_nat [0..<65536])))"
proof -
  have get: "environment_get (environment_of as) = attribute_lookup as"
    using environment_get_of [OF assms] by blast
  have "length ([] :: OwnedAttribute list) +
      length (present (environment_get (environment_of as)) (map of_nat [0..<65536])) = environment_len (environment_of as)"
    unfolding get using present_all_length [OF assms all_u16] attributes_valid_count [OF assms]
    by (simp add: environment_len_def)
  from copy_environment_loop_collects [OF this] show ?thesis
    unfolding copy_environment_def get by simp
qed

section \<open>Properties\<close>

text \<open>Every request an agent makes reaches the CA intact. With a valid operation, a full-size
  buffer and an honest CA key, \<open>request_into\<close> succeeds; the frame carries the agent as sender, the
  CA as recipient, the fresh session and the handler, its signature verifies under the agent's
  key, and the CA opens it to the operation's canonical bytes.\<close>

theorem request_reaches_ca:
  assumes "crypto_laws C" "operation_valid op" "MAX_FRAME_LEN \<le> length out"
    and "request_draws C rng = (session, salt, secret, rng')"
    and "ca_x25519 (agent_ca agent) = x_public C ca_secret" "x_dh C secret (x_public C ca_secret) \<noteq> 0"
  shows "\<exists>e rest. request_into C agent out t h rng (\<lambda>plain. encode_operation plain op) =
      (Inr (length (frame_bytes e)), frame_bytes e @ rest, rng') \<and>
    parse_envelope (frame_bytes e) = Inr e \<and> envelope_sender e = agent_id agent \<and>
    envelope_recipient e = AgentId_CA \<and> envelope_message_type e = t \<and> envelope_handler e = h \<and>
    envelope_session_id e = SessionId session \<and>
    verify_envelope_signature C e (AgentKeys_verifying_key C (agent_keys agent)) = Inr () \<and>
    open_in_place C (frame_bytes e) AgentId_CA t (AgentKeys_verifying_key C (agent_keys agent)) ca_secret =
      Inr (operation_bytes op)"
  by (rule request_into_ok [OF assms, of t h]) (auto simp: AgentKeys_verifying_key_def)

theorem request_reaches_ca_witness:
  "\<exists>e rest. request_into toy_crypto
       \<lparr>agent_id = AgentId 3, agent_keys = AgentKeys_from_seeds 11 12, agent_ca = \<lparr>ca_ed25519 = 21, ca_x25519 = 22\<rparr>\<rparr>
       (replicate 4324 0) MT_Subscribe (HandlerId 5) 1 (\<lambda>plain. encode_operation plain (Subscribe (TypeId 8) [])) =
      (Inr (length (frame_bytes e)), frame_bytes e @ rest, 4) \<and>
    open_in_place toy_crypto (frame_bytes e) AgentId_CA MT_Subscribe 11 22 =
      Inr (operation_bytes (Subscribe (TypeId 8) []))"
proof -
  let ?agent = "\<lparr>agent_id = AgentId 3, agent_keys = AgentKeys_from_seeds 11 12,
    agent_ca = \<lparr>ca_ed25519 = 21, ca_x25519 = 22\<rparr>\<rparr>"
  have draws: "request_draws toy_crypto 1 = (1, 2, 3, 4)"
    by (simp add: request_draws_def toy_crypto_def)
  have ca: "ca_x25519 (agent_ca ?agent) = x_public toy_crypto 22" by (simp add: toy_crypto_def)
  have dh: "x_dh toy_crypto 3 (x_public toy_crypto 22) \<noteq> 0" by (simp add: toy_crypto_def)
  have key: "AgentKeys_verifying_key toy_crypto (agent_keys ?agent) = 11"
    by (simp add: AgentKeys_verifying_key_def AgentKeys_from_seeds_def toy_crypto_def)
  have op: "operation_valid (Subscribe (TypeId 8) [])" by (simp add: clauses_valid_def)
  have out: "MAX_FRAME_LEN \<le> length (replicate 4324 (0 :: u8))" by (simp add: const_defs)
  show ?thesis
    using request_reaches_ca [OF toy_crypto_laws op out draws ca dh, of MT_Subscribe "HandlerId 5"] unfolding key by blast
qed

text \<open>C39: what the agent accepts, down to the bytes. \<open>receive\<close> accepts a frame exactly when it is the canonical
  header of a publication response to this agent and this nonzero handler, a ciphertext within the limit, its
  tag and a signature; the signature is the CA's over all before it; the replay protector takes the
  sender and session; the exchange of the agent's secret with the ephemeral key is not zero; and under the
  key and nonce that HKDF derives from it for exactly these header fields, and with the header as associated data,
  the ciphertext opens to the canonical encoding of a response within the value limit. The delivery
  carries that response's type, publisher and value.\<close>

theorem receive_accepts_exactly:
  "receive C mark agent frame h replay now = (Inr d, replay') \<longleftrightarrow>
     ed_key_ok C (ca_ed25519 (agent_ca agent)) \<and> h \<noteq> HandlerId_NONE \<and>
     delivery_handler d = h \<and> length (delivery_value d) \<le> MAX_VALUE_BYTES \<and>
     (\<exists>sender session ephemeral salt ciphertext tag signature key nonce.
        let header = header_bytes MT_PublicationResponse sender (agent_id agent) h session ephemeral salt (length ciphertext);
            shared = x_dh C (keys_x25519 (agent_keys agent)) ephemeral;
            bound = kdf_context MT_PublicationResponse sender (agent_id agent) session ephemeral in
        frame = header @ ciphertext @ to_be_bytes tag @ to_be_bytes (signature :: array64) \<and>
        length ciphertext \<le> MAX_PLAINTEXT_LEN \<and>
        ed_verify_strict C (ca_ed25519 (agent_ca agent)) (header @ ciphertext @ to_be_bytes tag) signature \<and>
        mark replay sender session now = (Inr (), replay') \<and>
        shared \<noteq> 0 \<and>
        hkdf_expand C salt shared (bound @ ascii ''aead-key/chacha20poly1305'') 32 = Some (to_be_bytes key) \<and>
        hkdf_expand C salt shared (bound @ ascii ''aead-nonce/one-message'') 12 = Some (to_be_bytes nonce) \<and>
        aead_decrypt C key nonce header ciphertext tag =
          Some (operation_bytes (PublicationResponse (delivery_type_id d) (delivery_publisher d) (delivery_value d))))"
    (is "?accepts \<longleftrightarrow> ?fixed \<and> ?fresh \<and> ?handler \<and> ?small \<and> (\<exists>sender session ephemeral salt ciphertext tag signature key nonce.
        ?frame sender session ephemeral salt ciphertext tag signature key nonce)")
proof
  assume ?accepts
  then obtain e plain where e: "?fixed" "?fresh" "?handler" "parse_envelope frame = Inr e" "envelope_recipient e = agent_id agent"
    "envelope_message_type e = MT_PublicationResponse" "envelope_handler e = h"
    "ed_verify_strict C (ca_ed25519 (agent_ca agent)) (envelope_signed_bytes e) (envelope_signature e)"
    "mark replay (envelope_sender e) (envelope_session_id e) now = (Inr (), replay')"
    "open_in_place C frame (agent_id agent) MT_PublicationResponse (ca_ed25519 (agent_ca agent)) (keys_x25519 (agent_keys agent)) = Inr plain"
    "plain = operation_bytes (PublicationResponse (delivery_type_id d) (delivery_publisher d) (delivery_value d))" "?small"
    unfolding receive_Inr_iff parse_response_iff by blast
  note wf = parse_envelope_sound [OF e(4)]
  from e(10) obtain key nonce where "?frame (envelope_sender e) (envelope_session_id e) (envelope_ephemeral_public e) (envelope_salt e)
      (envelope_ciphertext e) (envelope_tag e) (envelope_signature e) key nonce"
    using e(4-9,11) wf unfolding open_in_place_iff derive_key_nonce_iff Let_def
    by (auto simp: envelope_wf_def frame_bytes_def)
  with e(1-3,12) show "?fixed \<and> ?fresh \<and> ?handler \<and> ?small \<and> (\<exists>sender session ephemeral salt ciphertext tag signature key nonce.
      ?frame sender session ephemeral salt ciphertext tag signature key nonce)" by blast
next
  assume "?fixed \<and> ?fresh \<and> ?handler \<and> ?small \<and> (\<exists>sender session ephemeral salt ciphertext tag signature key nonce.
      ?frame sender session ephemeral salt ciphertext tag signature key nonce)"
  then obtain sender session ephemeral salt ciphertext tag signature key nonce where *: "?fixed" "?fresh" "?handler" "?small"
    "?frame sender session ephemeral salt ciphertext tag signature key nonce" by blast
  let ?header = "header_bytes MT_PublicationResponse sender (agent_id agent) h session ephemeral salt (length ciphertext)"
  let ?e = "\<lparr>envelope_message_type = MT_PublicationResponse, envelope_sender = sender, envelope_recipient = agent_id agent,
    envelope_handler = h, envelope_session_id = session, envelope_ephemeral_public = ephemeral, envelope_salt = salt,
    envelope_ciphertext = ciphertext, envelope_tag = tag, envelope_signature = signature, envelope_header = ?header,
    envelope_signed_bytes = ?header @ ciphertext @ to_be_bytes tag\<rparr>"
  have "envelope_wf ?e" "frame = frame_bytes ?e" using *(5) by (simp_all add: envelope_wf_def frame_bytes_def Let_def)
  then have "parse_envelope frame = Inr ?e" by (simp add: parse_frame_bytes)
  with * show ?accepts
    unfolding receive_Inr_iff parse_response_iff open_in_place_iff derive_key_nonce_iff Let_def by auto
qed

text \<open>A frame is delivered at most once while the agent remembers it. After a delivery at \<open>now\<close>,
  receiving the same frame again before the entry expires is refused as \<open>Replay\<close>, whatever other
  sessions were marked in between.\<close>

theorem receive_no_replay:
  assumes "fixed_inv cache" "receive C fixed_check_and_mark agent frame h cache now = (Inr d, cache1)"
    and "\<forall>(_, t)\<in>set calls. t < saturating_add now (fixed_ttl_seconds cache)"
    and "later < saturating_add now (fixed_ttl_seconds cache)"
  shows "fst (receive C fixed_check_and_mark agent frame h
    (mark_all fixed_check_and_mark calls cache1) later) = Inl Replay"
proof -
  from assms(2) obtain e where e: "ed_key_ok C (ca_ed25519 (agent_ca agent))" "h \<noteq> HandlerId_NONE"
    "parse_envelope frame = Inr e" "envelope_recipient e = agent_id agent"
    "envelope_message_type e = MT_PublicationResponse" "envelope_handler e = h"
    "ed_verify_strict C (ca_ed25519 (agent_ca agent)) (envelope_signed_bytes e) (envelope_signature e)"
    "fixed_check_and_mark cache (envelope_sender e) (envelope_session_id e) now = (Inr (), cache1)"
    by (auto simp: receive_Inr_iff)
  have "fst (fixed_check_and_mark (mark_all fixed_check_and_mark calls cache1)
      (envelope_sender e) (envelope_session_id e) later) = Inl Replay"
    using fixed.no_replay_until_expiry [OF assms(1) _ assms(3,4), of "envelope_sender e" "envelope_session_id e"] e(8)
    by simp
  then show ?thesis by (rule receive_replay(2) [OF e(3-6,2,1,7)])
qed

theorem receive_no_replay_witness:
  "\<exists>frame d cache1. receive toy_crypto fixed_check_and_mark
       \<lparr>agent_id = AgentId 3, agent_keys = AgentKeys_from_seeds 11 12, agent_ca = \<lparr>ca_ed25519 = 21, ca_x25519 = 22\<rparr>\<rparr>
       frame (HandlerId 5) (FixedReplayCache_new 2 10) 5 = (Inr d, cache1) \<and>
     fst (receive toy_crypto fixed_check_and_mark
       \<lparr>agent_id = AgentId 3, agent_keys = AgentKeys_from_seeds 11 12, agent_ca = \<lparr>ca_ed25519 = 21, ca_x25519 = 22\<rparr>\<rparr>
       frame (HandlerId 5) (mark_all fixed_check_and_mark [((AgentId 9, SessionId 9), 7)] cache1) 14) = Inl Replay"
proof -
  let ?agent = "\<lparr>agent_id = AgentId 3, agent_keys = AgentKeys_from_seeds 11 12,
    agent_ca = \<lparr>ca_ed25519 = 21, ca_x25519 = 22\<rparr>\<rparr>"
  have new: "FixedReplayCache_new 2 10 = \<lparr>fixed_entries = [None, None], fixed_ttl_seconds = 10\<rparr>"
    by (simp add: FixedReplayCache_new_def numeral_2_eq_2)
  obtain frame where frame: "receive toy_crypto fixed_check_and_mark ?agent frame (HandlerId 5) (FixedReplayCache_new 2 10) 5 =
     (Inr \<lparr>delivery_type_id = TypeId 1, delivery_publisher = AgentId 4, delivery_handler = HandlerId 5, delivery_value = [42]\<rparr>,
      \<lparr>fixed_entries = [Some \<lparr>replay_sender = AgentId_CA, replay_session = SessionId 6, replay_expires_at = 15\<rparr>, None],
       fixed_ttl_seconds = 10\<rparr>)"
    by (rule receive_sealed_response [where C = toy_crypto and agent = ?agent and s = AgentId_CA and eph = 1 and
          seed = 21 and i = "SessionId 6" and h = "HandlerId 5" and mark = fixed_check_and_mark and
          replay = "FixedReplayCache_new 2 10" and now = 5 and t = "TypeId 1" and publisher = "AgentId 4" and val = "[42]"])
      (simp_all add: toy_crypto_laws new, simp_all add: toy_crypto_def AgentKeys_from_seeds_def const_defs HandlerId_NONE_def
        fixed_check_and_mark_def expire_entry_def saturating_add_def)
  have "fst (receive toy_crypto fixed_check_and_mark ?agent frame (HandlerId 5)
     (mark_all fixed_check_and_mark [((AgentId 9, SessionId 9), 7)]
       \<lparr>fixed_entries = [Some \<lparr>replay_sender = AgentId_CA, replay_session = SessionId 6, replay_expires_at = 15\<rparr>, None],
       fixed_ttl_seconds = 10\<rparr>) 14) = Inl Replay"
    by (rule receive_no_replay [OF _ frame])
      (simp_all add: fixed_inv_def new saturating_add_def)
  with frame show ?thesis by blast
qed

text \<open>Frames without a valid CA signature for this agent and handler are refused without touching
  the replay memory, so nobody but the CA can fill it.\<close>

theorem receive_ignores_forgeries:
  assumes "\<not> (\<exists>e. parse_envelope frame = Inr e \<and> envelope_recipient e = agent_id agent \<and>
      envelope_message_type e = MT_PublicationResponse \<and> envelope_handler e = h \<and> h \<noteq> HandlerId_NONE \<and>
      ed_verify_strict C (ca_ed25519 (agent_ca agent)) (envelope_signed_bytes e) (envelope_signature e))"
  shows "snd (receive C mark agent frame h replay now) = replay \<and>
    \<not> is_ok (fst (receive C mark agent frame h replay now))"
  using assms by (rule receive_unauthenticated)

theorem receive_ignores_forgeries_witness:
  "snd (receive toy_crypto fixed_check_and_mark
       \<lparr>agent_id = AgentId 3, agent_keys = AgentKeys_from_seeds 11 12, agent_ca = \<lparr>ca_ed25519 = 21, ca_x25519 = 22\<rparr>\<rparr>
       [1, 2, 3] (HandlerId 5) (FixedReplayCache_new 1 10) 0) = FixedReplayCache_new 1 10"
proof -
  have "parse_envelope [1, 2, 3] = Inl Malformed" by (simp add: parse_envelope_def const_defs)
  then show ?thesis
    by (intro receive_ignores_forgeries [THEN conjunct1]) simp
qed

text \<open>The permanent subscription loop returns exactly when a turn fails, and then the handler has
  been called on exactly the deliveries of the turns before it, in order.\<close>

theorem permanent_loop_exact:
  "permanent_loop C mark P agent type_id h f st a = Some (err, st', a') \<longleftrightarrow>
     (\<exists>ds st1. delivers C mark P agent type_id h st ds st1 \<and>
        receive_delivery C mark P agent type_id h st1 = (Inl err, st') \<and> a' = fold f ds a)"
proof
  show "\<exists>ds st1. delivers C mark P agent type_id h st ds st1 \<and>
      receive_delivery C mark P agent type_id h st1 = (Inl err, st') \<and> a' = fold f ds a"
    if "permanent_loop C mark P agent type_id h f st a = Some (err, st', a')"
    using permanent_loop_returns [OF that] by auto
qed (auto simp: permanent_loop_runs)

text \<open>Copying an environment into owned entries keeps every attribute: the scan over the identifier
  space finds all of them and returns them in increasing order of identifier.\<close>

theorem copy_environment_complete:
  assumes "attributes_valid attributes"
  shows "copy_environment (environment_of attributes) =
    Inr (map (owned (attribute_lookup attributes))
           (present (attribute_lookup attributes) (map of_nat [0..<65536])))"
  using assms by (rule copy_environment_of)

theorem copy_environment_witness:
  "is_ok (copy_environment (environment_of [\<lparr>attribute_id = AttributeId 2, attribute_value = Value_Bool True\<rparr>]))"
  using copy_environment_complete [of "[\<lparr>attribute_id = AttributeId 2, attribute_value = Value_Bool True\<rparr>]"]
  by (simp add: attributes_valid_def const_defs)

end
