(* ===== verification/Policy.thy ===== *)
theory Policy
  imports Payload
begin

text \<open>
  The environment policy of \<open>ca-core/src/lib.rs\<close>: the attribute schema with its authorities,
  allow-lists, per-identity approvals, isolation attributes and subscriber requirements, the
  configuration methods that build it, and the two decisions the CA takes with it. The trait
  \<open>EnvironmentPolicy\<close> is the record \<open>policy\<close> of its two methods that the CA calls;
  \<open>static_policy\<close> and \<open>allow_all_policy\<close> are the implementations.

  \<open>DynamicEnvironmentPolicy\<close> holds one static policy behind a lock and replaces it whole; every
  call of the CA takes the static policy that is current, so it is the argument here.
\<close>

section \<open>Definitions\<close>

datatype AttributeType = Type_Bool | Type_I64 | Type_Bytes

fun AttributeType_matches :: "AttributeType \<Rightarrow> ValueRef \<Rightarrow> bool" where
  "AttributeType_matches Type_Bool (Value_Bool _) = True"
| "AttributeType_matches Type_I64 (Value_I64 _) = True"
| "AttributeType_matches Type_Bytes (Value_Bytes _) = True"
| "AttributeType_matches _ _ = False"

datatype AttributeAuthority = SelfDeclared | CaIssued

datatype AttributeValue = Attr_Bool bool | Attr_I64 i64 | Attr_Bytes bytes

datatype EnvironmentPolicyError =
    UnknownAttribute | WrongAttributeType | CaApprovalRequired | ValueNotAllowed | InvalidConfiguration

definition AttributeValue_bytes :: "bytes \<Rightarrow> EnvironmentPolicyError + AttributeValue" where
  "AttributeValue_bytes val =
     (if length val > MAX_ATTRIBUTE_BYTES then Inl InvalidConfiguration else Inr (Attr_Bytes val))"

fun attribute_type :: "AttributeValue \<Rightarrow> AttributeType" where
  "attribute_type (Attr_Bool _) = Type_Bool"
| "attribute_type (Attr_I64 _) = Type_I64"
| "attribute_type (Attr_Bytes _) = Type_Bytes"

fun matches_ref :: "AttributeValue \<Rightarrow> ValueRef \<Rightarrow> bool" where
  "matches_ref (Attr_Bool left) (Value_Bool right) = (left = right)"
| "matches_ref (Attr_I64 left) (Value_I64 right) = (left = right)"
| "matches_ref (Attr_Bytes left) (Value_Bytes right) = (left = right)"
| "matches_ref _ _ = False"

record AttributeRule =
  rule_type :: AttributeType
  rule_authority :: AttributeAuthority

record StaticEnvironmentPolicy =
  policy_rules :: "(AttributeId, AttributeRule) btree"
  policy_allowed_values :: "(AttributeId, AttributeValue list) btree"
  policy_approvals :: "(AgentId \<times> AttributeId, AttributeValue) btree"
  policy_isolation :: "(TypeId, AttributeId list) btree"
  policy_subscriber_requirements :: "(TypeId \<times> AttributeId, AttributeValue list) btree"

definition StaticEnvironmentPolicy_new :: StaticEnvironmentPolicy where
  "StaticEnvironmentPolicy_new =
     \<lparr>policy_rules = bt_empty, policy_allowed_values = bt_empty, policy_approvals = bt_empty,
      policy_isolation = bt_empty, policy_subscriber_requirements = bt_empty\<rparr>"

type_synonym configured = "(EnvironmentPolicyError + unit) \<times> StaticEnvironmentPolicy"

definition register_rule ::
  "StaticEnvironmentPolicy \<Rightarrow> AttributeId \<Rightarrow> AttributeType \<Rightarrow> AttributeAuthority \<Rightarrow> configured" where
  "register_rule policy attribute ty authority =
     (case bt_get (policy_rules policy) attribute of
        Some existing \<Rightarrow>
          if rule_type existing \<noteq> ty \<or> rule_authority existing \<noteq> authority
          then (Inl InvalidConfiguration, policy)
          else (Inr (), policy)
      | None \<Rightarrow> (Inr (), policy\<lparr>policy_rules :=
          bt_insert attribute \<lparr>rule_type = ty, rule_authority = authority\<rparr> (policy_rules policy)\<rparr>))"

definition register_self_declared ::
  "StaticEnvironmentPolicy \<Rightarrow> AttributeId \<Rightarrow> AttributeType \<Rightarrow> configured" where
  "register_self_declared policy attribute ty = register_rule policy attribute ty SelfDeclared"

definition register_ca_issued ::
  "StaticEnvironmentPolicy \<Rightarrow> AttributeId \<Rightarrow> AttributeType \<Rightarrow> configured" where
  "register_ca_issued policy attribute ty = register_rule policy attribute ty CaIssued"

text \<open>\<open>entry(key).or_default()\<close> followed by a push of a value the list does not contain.\<close>

definition push_unique ::
  "'k::linorder \<Rightarrow> AttributeValue \<Rightarrow> ('k, AttributeValue list) btree \<Rightarrow> ('k, AttributeValue list) btree" where
  "push_unique key val m =
     (let entries = (case bt_get m key of None \<Rightarrow> [] | Some entries \<Rightarrow> entries) in
      bt_insert key (if val \<in> set entries then entries else entries @ [val]) m)"

definition allow_value ::
  "StaticEnvironmentPolicy \<Rightarrow> AttributeId \<Rightarrow> AttributeValue \<Rightarrow> configured" where
  "allow_value policy attribute val =
     tryS (ok_or (bt_get (policy_rules policy) attribute) InvalidConfiguration, policy) (\<lambda>rule policy.
     if rule_type rule \<noteq> attribute_type val then (Inl InvalidConfiguration, policy)
     else (Inr (), policy\<lparr>policy_allowed_values := push_unique attribute val (policy_allowed_values policy)\<rparr>))"

definition validate_configured_value ::
  "StaticEnvironmentPolicy \<Rightarrow> AttributeId \<Rightarrow> AttributeValue \<Rightarrow> EnvironmentPolicyError + unit" where
  "validate_configured_value policy attribute val =
     tryE (ok_or (bt_get (policy_rules policy) attribute) InvalidConfiguration) (\<lambda>rule.
     if rule_type rule \<noteq> attribute_type val then Inl InvalidConfiguration
     else case bt_get (policy_allowed_values policy) attribute of
       None \<Rightarrow> Inr ()
     | Some entries \<Rightarrow> if entries \<noteq> [] \<and> val \<notin> set entries then Inl ValueNotAllowed else Inr ())"

definition approve ::
  "StaticEnvironmentPolicy \<Rightarrow> AgentId \<Rightarrow> AttributeId \<Rightarrow> AttributeValue \<Rightarrow> configured" where
  "approve policy agent attribute val =
     tryS (ok_or (bt_get (policy_rules policy) attribute) InvalidConfiguration, policy) (\<lambda>rule policy.
     if rule_authority rule \<noteq> CaIssued then (Inl InvalidConfiguration, policy)
     else tryS (validate_configured_value policy attribute val, policy) (\<lambda>_ policy.
     (Inr (), policy\<lparr>policy_approvals := bt_insert (agent, attribute) val (policy_approvals policy)\<rparr>)))"

fun isolate_check :: "StaticEnvironmentPolicy \<Rightarrow> AttributeId list \<Rightarrow> EnvironmentPolicyError + unit" where
  "isolate_check policy [] = Inr ()"
| "isolate_check policy (attribute # attributes) =
     tryE (ok_or (bt_get (policy_rules policy) attribute) InvalidConfiguration) (\<lambda>rule.
     if rule_authority rule \<noteq> CaIssued then Inl InvalidConfiguration
     else isolate_check policy attributes)"

definition isolate :: "StaticEnvironmentPolicy \<Rightarrow> TypeId \<Rightarrow> AttributeId list \<Rightarrow> configured" where
  "isolate policy type_id attributes =
     (if attributes = [] \<or> length attributes > MAX_CLAUSES then (Inl InvalidConfiguration, policy)
      else tryS (isolate_check policy attributes, policy) (\<lambda>_ policy.
      (Inr (), policy\<lparr>policy_isolation := bt_insert type_id attributes (policy_isolation policy)\<rparr>)))"

definition allow_subscriber_value ::
  "StaticEnvironmentPolicy \<Rightarrow> TypeId \<Rightarrow> AttributeId \<Rightarrow> AttributeValue \<Rightarrow> configured" where
  "allow_subscriber_value policy type_id attribute val =
     tryS (ok_or (bt_get (policy_rules policy) attribute) InvalidConfiguration, policy) (\<lambda>rule policy.
     if rule_authority rule \<noteq> CaIssued \<or> rule_type rule \<noteq> attribute_type val
     then (Inl InvalidConfiguration, policy)
     else tryS (validate_configured_value policy attribute val, policy) (\<lambda>_ policy.
     (Inr (), policy\<lparr>policy_subscriber_requirements :=
        push_unique (type_id, attribute) val (policy_subscriber_requirements policy)\<rparr>)))"

definition validate_attribute ::
  "StaticEnvironmentPolicy \<Rightarrow> AgentId \<Rightarrow> AttributeRef \<Rightarrow> EnvironmentPolicyError + unit" where
  "validate_attribute policy agent a =
     tryE (ok_or (bt_get (policy_rules policy) (attribute_id a)) UnknownAttribute) (\<lambda>rule.
     if \<not> AttributeType_matches (rule_type rule) (attribute_value a) then Inl WrongAttributeType
     else if (case bt_get (policy_allowed_values policy) (attribute_id a) of
                None \<Rightarrow> False
              | Some allowed \<Rightarrow> allowed \<noteq> [] \<and> \<not> list_ex (\<lambda>val. matches_ref val (attribute_value a)) allowed)
     then Inl ValueNotAllowed
     else if rule_authority rule = CaIssued \<and>
             \<not> (case bt_get (policy_approvals policy) (agent, attribute_id a) of
                   None \<Rightarrow> False | Some approved \<Rightarrow> matches_ref approved (attribute_value a))
     then Inl CaApprovalRequired
     else Inr ())"

fun validate_attributes ::
  "StaticEnvironmentPolicy \<Rightarrow> AgentId \<Rightarrow> AttributeRef list \<Rightarrow> EnvironmentPolicyError + unit" where
  "validate_attributes policy agent [] = Inr ()"
| "validate_attributes policy agent (a # attributes) =
     tryE (validate_attribute policy agent a) (\<lambda>_. validate_attributes policy agent attributes)"

fun validate_approvals ::
  "AgentId \<Rightarrow> EnvironmentRef \<Rightarrow> ((AgentId \<times> AttributeId) \<times> AttributeValue) list \<Rightarrow> EnvironmentPolicyError + unit" where
  "validate_approvals agent proposed [] = Inr ()"
| "validate_approvals agent proposed (((approved_agent, attribute), val) # approvals) =
     (if approved_agent = agent \<and>
         \<not> (case environment_get proposed attribute of
               None \<Rightarrow> False | Some candidate \<Rightarrow> matches_ref val candidate)
      then Inl CaApprovalRequired
      else validate_approvals agent proposed approvals)"

definition static_validate_environment ::
  "StaticEnvironmentPolicy \<Rightarrow> AgentId \<Rightarrow> EnvironmentRef option \<Rightarrow> EnvironmentRef \<Rightarrow> EnvironmentPolicyError + unit" where
  "static_validate_environment policy agent current proposed =
     tryE (validate_attributes policy agent (environment_items (environment_iter proposed))) (\<lambda>_.
     validate_approvals agent proposed (policy_approvals policy))"

definition static_allows_delivery ::
  "StaticEnvironmentPolicy \<Rightarrow> TypeId \<Rightarrow> EnvironmentRef \<Rightarrow> EnvironmentRef \<Rightarrow> bool" where
  "static_allows_delivery policy type_id publisher subscriber =
     (let isolated = (case bt_get (policy_isolation policy) type_id of
        None \<Rightarrow> True
      | Some attributes \<Rightarrow> list_all (\<lambda>attribute.
          case (environment_get publisher attribute, environment_get subscriber attribute) of
            (Some left, Some right) \<Rightarrow> left = right
          | _ \<Rightarrow> False) attributes)
      in isolated \<and>
         list_all (\<lambda>((_, attribute), entries).
           case environment_get subscriber attribute of
             None \<Rightarrow> False
           | Some candidate \<Rightarrow> list_ex (\<lambda>val. matches_ref val candidate) entries)
         (filter (\<lambda>((required_type, _), _). required_type = type_id) (policy_subscriber_requirements policy)))"

definition static_authorize_delivery ::
  "StaticEnvironmentPolicy \<Rightarrow> AgentId \<Rightarrow> EnvironmentRef \<Rightarrow> AgentId \<Rightarrow> EnvironmentRef \<Rightarrow> TypeId \<Rightarrow> bool" where
  "static_authorize_delivery policy publisher_id publisher subscriber_id subscriber type_id \<longleftrightarrow>
     is_ok (static_validate_environment policy publisher_id None publisher) \<and>
     is_ok (static_validate_environment policy subscriber_id None subscriber) \<and>
     static_allows_delivery policy type_id publisher subscriber"

text \<open>The trait object the CA holds.\<close>

record policy =
  validate_environment :: "AgentId \<Rightarrow> EnvironmentRef option \<Rightarrow> EnvironmentRef \<Rightarrow> EnvironmentPolicyError + unit"
  authorize_delivery :: "AgentId \<Rightarrow> EnvironmentRef \<Rightarrow> AgentId \<Rightarrow> EnvironmentRef \<Rightarrow> TypeId \<Rightarrow> bool"

definition static_policy :: "StaticEnvironmentPolicy \<Rightarrow> policy" where
  "static_policy p = \<lparr>validate_environment = static_validate_environment p,
     authorize_delivery = static_authorize_delivery p\<rparr>"

text \<open>The policy that the running CA can replace. Each call takes the lock once, so it sees one snapshot.\<close>

record DynamicEnvironmentPolicy =
  dynamic_inner :: StaticEnvironmentPolicy

definition DynamicEnvironmentPolicy_new :: "StaticEnvironmentPolicy \<Rightarrow> DynamicEnvironmentPolicy" where
  "DynamicEnvironmentPolicy_new policy = \<lparr>dynamic_inner = policy\<rparr>"

definition dynamic_replace :: "StaticEnvironmentPolicy \<Rightarrow> DynamicEnvironmentPolicy \<Rightarrow> DynamicEnvironmentPolicy" where
  "dynamic_replace policy d = d\<lparr>dynamic_inner := policy\<rparr>"

definition dynamic_authorize_delivery ::
  "DynamicEnvironmentPolicy \<Rightarrow> AgentId \<Rightarrow> EnvironmentRef \<Rightarrow> AgentId \<Rightarrow> EnvironmentRef \<Rightarrow> TypeId \<Rightarrow> bool" where
  "dynamic_authorize_delivery d publisher_id publisher subscriber_id subscriber type_id \<longleftrightarrow>
     (let policy = dynamic_inner d in
      is_ok (static_validate_environment policy publisher_id None publisher) \<and>
      is_ok (static_validate_environment policy subscriber_id None subscriber) \<and>
      static_allows_delivery policy type_id publisher subscriber)"

definition dynamic_policy :: "DynamicEnvironmentPolicy \<Rightarrow> policy" where
  "dynamic_policy d = \<lparr>validate_environment = static_validate_environment (dynamic_inner d),
     authorize_delivery = dynamic_authorize_delivery d\<rparr>"

definition allow_all_policy :: policy where
  "allow_all_policy = \<lparr>validate_environment = (\<lambda>agent current proposed. Inr ()),
     authorize_delivery = (\<lambda>publisher_id publisher subscriber_id subscriber type_id. True)\<rparr>"

section \<open>The configuration invariant\<close>

fun value_of :: "AttributeValue \<Rightarrow> ValueRef" where
  "value_of (Attr_Bool b) = Value_Bool b"
| "value_of (Attr_I64 i) = Value_I64 i"
| "value_of (Attr_Bytes bs) = Value_Bytes bs"

lemma matches_ref_iff: "matches_ref v r \<longleftrightarrow> r = value_of v"
  by (cases v; cases r) auto

lemma value_of_inject [simp]: "value_of v = value_of w \<longleftrightarrow> v = w"
  by (cases v; cases w) auto

text \<open>The attribute has a rule that reserves it to the CA.\<close>

definition ca_issued :: "StaticEnvironmentPolicy \<Rightarrow> AttributeId \<Rightarrow> bool" where
  "ca_issued p a \<longleftrightarrow> (\<exists>rule. bt_get (policy_rules p) a = Some rule \<and> rule_authority rule = CaIssued)"

definition typed :: "StaticEnvironmentPolicy \<Rightarrow> AttributeId \<Rightarrow> AttributeValue \<Rightarrow> bool" where
  "typed p a v \<longleftrightarrow> (\<exists>rule. bt_get (policy_rules p) a = Some rule \<and> rule_type rule = attribute_type v)"

definition policy_wf :: "StaticEnvironmentPolicy \<Rightarrow> bool" where
  "policy_wf p \<longleftrightarrow>
     bt_wf (policy_rules p) \<and> bt_wf (policy_allowed_values p) \<and> bt_wf (policy_approvals p) \<and>
     bt_wf (policy_isolation p) \<and> bt_wf (policy_subscriber_requirements p) \<and>
     (\<forall>a vs. bt_get (policy_allowed_values p) a = Some vs \<longrightarrow> vs \<noteq> [] \<and> distinct vs \<and> (\<forall>v\<in>set vs. typed p a v)) \<and>
     (\<forall>agent a v. bt_get (policy_approvals p) (agent, a) = Some v \<longrightarrow> ca_issued p a \<and> typed p a v) \<and>
     (\<forall>t as. bt_get (policy_isolation p) t = Some as \<longrightarrow>
        as \<noteq> [] \<and> length as \<le> MAX_CLAUSES \<and> (\<forall>a\<in>set as. ca_issued p a)) \<and>
     (\<forall>t a vs. bt_get (policy_subscriber_requirements p) (t, a) = Some vs \<longrightarrow>
        vs \<noteq> [] \<and> distinct vs \<and> ca_issued p a \<and> (\<forall>v\<in>set vs. typed p a v))"

text \<open>The configuration calls, as data, so that a policy file is a list of them.\<close>

datatype policy_call =
    Register_self AttributeId AttributeType
  | Register_ca AttributeId AttributeType
  | Allow_value AttributeId AttributeValue
  | Approve AgentId AttributeId AttributeValue
  | Isolate TypeId "AttributeId list"
  | Allow_subscriber TypeId AttributeId AttributeValue

fun configure :: "policy_call \<Rightarrow> StaticEnvironmentPolicy \<Rightarrow> configured" where
  "configure (Register_self a ty) p = register_self_declared p a ty"
| "configure (Register_ca a ty) p = register_ca_issued p a ty"
| "configure (Allow_value a v) p = allow_value p a v"
| "configure (Approve agent a v) p = approve p agent a v"
| "configure (Isolate t as) p = isolate p t as"
| "configure (Allow_subscriber t a v) p = allow_subscriber_value p t a v"

lemma get_push_unique:
  "bt_get (push_unique k v m) k' =
     (if k' = k then Some (let vs = (case bt_get m k of None \<Rightarrow> [] | Some vs \<Rightarrow> vs) in
        if v \<in> set vs then vs else vs @ [v]) else bt_get m k')"
  by (simp add: push_unique_def Let_def)

lemma wf_push_unique [simp]: "bt_wf m \<Longrightarrow> bt_wf (push_unique k v m)"
  by (simp add: push_unique_def Let_def bt.wf_insert)

lemma isolate_check_iff: "isolate_check p as = Inr () \<longleftrightarrow> (\<forall>a\<in>set as. ca_issued p a)"
  by (induction as) (auto simp: ca_issued_def tryE_Inr_iff ok_or_Inr_iff split: if_splits)

lemma validate_configured_value_typed: "validate_configured_value p a v = Inr () \<Longrightarrow> typed p a v"
  by (auto simp: validate_configured_value_def typed_def result_iffs split: if_splits)

lemma register_rule_wf:
  assumes "policy_wf p"
  shows "policy_wf (snd (register_rule p a ty authority))"
proof (cases "bt_get (policy_rules p) a")
  case None
  let ?p = "p\<lparr>policy_rules := bt_insert a \<lparr>rule_type = ty, rule_authority = authority\<rparr> (policy_rules p)\<rparr>"
  have keep: "ca_issued p b \<Longrightarrow> ca_issued ?p b" "typed p b v \<Longrightarrow> typed ?p b v" for b v
    using None by (auto simp: ca_issued_def typed_def)
  have "policy_wf ?p"
    using assms unfolding policy_wf_def by (auto intro: keep)
  with None show ?thesis by (simp add: register_rule_def)
next
  case (Some rule)
  with assms show ?thesis by (simp add: register_rule_def)
qed

lemma policy_upd_simps [simp]:
  "ca_issued (p\<lparr>policy_allowed_values := x\<rparr>) = ca_issued p" "typed (p\<lparr>policy_allowed_values := x\<rparr>) = typed p"
  "ca_issued (p\<lparr>policy_approvals := y\<rparr>) = ca_issued p" "typed (p\<lparr>policy_approvals := y\<rparr>) = typed p"
  "ca_issued (p\<lparr>policy_isolation := z\<rparr>) = ca_issued p" "typed (p\<lparr>policy_isolation := z\<rparr>) = typed p"
  "ca_issued (p\<lparr>policy_subscriber_requirements := w\<rparr>) = ca_issued p"
  "typed (p\<lparr>policy_subscriber_requirements := w\<rparr>) = typed p"
  by (auto simp: ca_issued_def [abs_def] typed_def [abs_def])

lemma push_unique_nonempty:
  assumes "bt_get (push_unique k v m) k' = Some vs"
    and "\<And>ws. bt_get m k' = Some ws \<Longrightarrow> ws \<noteq> [] \<and> distinct ws \<and> (\<forall>x\<in>set ws. P x)" "k' = k \<Longrightarrow> P v"
  shows "vs \<noteq> [] \<and> distinct vs \<and> (\<forall>x\<in>set vs. P x)"
  using assms by (auto simp: get_push_unique Let_def split: if_splits option.splits)

lemma allow_value_wf:
  assumes "policy_wf p"
  shows "policy_wf (snd (allow_value p a v))"
proof (cases "typed p a v")
  case True
  have "vs \<noteq> [] \<and> distinct vs \<and> (\<forall>x\<in>set vs. typed p b x)"
    if "bt_get (push_unique a v (policy_allowed_values p)) b = Some vs" for b vs
    by (rule push_unique_nonempty [OF that]) (use assms True in \<open>auto simp: policy_wf_def\<close>)
  then have "policy_wf (p\<lparr>policy_allowed_values := push_unique a v (policy_allowed_values p)\<rparr>)"
    using assms unfolding policy_wf_def by simp
  with True show ?thesis by (auto simp: allow_value_def typed_def)
next
  case False
  with assms show ?thesis by (auto simp: allow_value_def typed_def tryS_def ok_or_def split: option.splits)
qed

lemma approve_wf:
  assumes "policy_wf p"
  shows "policy_wf (snd (approve p agent a v))"
proof (cases "ca_issued p a \<and> validate_configured_value p a v = Inr ()")
  case True
  then have "typed p a v" by (blast intro: validate_configured_value_typed)
  with assms True have "policy_wf (p\<lparr>policy_approvals := bt_insert (agent, a) v (policy_approvals p)\<rparr>)"
    unfolding policy_wf_def by (auto split: if_splits)
  with True show ?thesis by (auto simp: approve_def ca_issued_def)
next
  case False
  with assms show ?thesis
    by (auto simp: approve_def ca_issued_def tryS_def ok_or_def split: option.splits sum.splits)
qed

lemma isolate_wf:
  assumes "policy_wf p"
  shows "policy_wf (snd (isolate p t as))"
proof (cases "as \<noteq> [] \<and> length as \<le> MAX_CLAUSES \<and> isolate_check p as = Inr ()")
  case True
  with assms have "policy_wf (p\<lparr>policy_isolation := bt_insert t as (policy_isolation p)\<rparr>)"
    unfolding policy_wf_def by (auto simp: isolate_check_iff split: if_splits)
  with True show ?thesis by (auto simp: isolate_def)
next
  case False
  with assms show ?thesis by (auto simp: isolate_def tryS_def split: sum.splits)
qed

lemma allow_subscriber_value_wf:
  assumes "policy_wf p"
  shows "policy_wf (snd (allow_subscriber_value p t a v))"
proof (cases "ca_issued p a \<and> validate_configured_value p a v = Inr ()")
  case True
  then have ty: "typed p a v" by (blast intro: validate_configured_value_typed)
  have "vs \<noteq> [] \<and> distinct vs \<and> (\<forall>x\<in>set vs. ca_issued p b \<and> typed p b x)"
    if "bt_get (push_unique (t, a) v (policy_subscriber_requirements p)) (u, b) = Some vs" for u b vs
    by (rule push_unique_nonempty [OF that]) (use assms True ty in \<open>auto simp: policy_wf_def\<close>)
  then have "vs \<noteq> [] \<and> distinct vs \<and> ca_issued p b \<and> (\<forall>x\<in>set vs. typed p b x)"
    if "bt_get (push_unique (t, a) v (policy_subscriber_requirements p)) (u, b) = Some vs" for u b vs
    using that by (metis list.set_intros(1) neq_Nil_conv)
  then have "policy_wf (p\<lparr>policy_subscriber_requirements := push_unique (t, a) v (policy_subscriber_requirements p)\<rparr>)"
    using assms unfolding policy_wf_def by simp
  with assms True show ?thesis by (auto simp: allow_subscriber_value_def ca_issued_def)
next
  case False
  with assms show ?thesis
    by (auto simp: allow_subscriber_value_def ca_issued_def tryS_def ok_or_def split: option.splits sum.splits)
qed

lemma configure_wf: "policy_wf p \<Longrightarrow> policy_wf (snd (configure call p))"
  by (cases call) (simp_all add: register_self_declared_def register_ca_issued_def register_rule_wf
      allow_value_wf approve_wf isolate_wf allow_subscriber_value_wf)

lemma policy_wf_new: "policy_wf StaticEnvironmentPolicy_new"
  by (simp add: policy_wf_def StaticEnvironmentPolicy_new_def)

lemma configured_wf: "policy_wf p \<Longrightarrow> policy_wf (fold (\<lambda>call p. snd (configure call p)) calls p)"
  by (induction calls arbitrary: p) (simp_all add: configure_wf)

section \<open>Decisions\<close>

lemma validate_attributes_iff:
  "validate_attributes p agent as = Inr () \<longleftrightarrow> (\<forall>a\<in>set as. validate_attribute p agent a = Inr ())"
  by (induction as) (auto simp: tryE_Inr_iff)

lemma validate_approvals_iff:
  "validate_approvals agent env approvals = Inr () \<longleftrightarrow>
     (\<forall>((who, a), v)\<in>set approvals. who = agent \<longrightarrow> environment_get env a = Some (value_of v))"
  by (induction agent env approvals rule: validate_approvals.induct)
    (auto simp: matches_ref_iff split: option.splits if_splits)

lemma validate_attribute_iff:
  "validate_attribute p agent a = Inr () \<longleftrightarrow>
     (\<exists>rule. bt_get (policy_rules p) (attribute_id a) = Some rule \<and>
        AttributeType_matches (rule_type rule) (attribute_value a) \<and>
        (\<forall>vs. bt_get (policy_allowed_values p) (attribute_id a) = Some vs \<longrightarrow> vs \<noteq> [] \<longrightarrow>
           attribute_value a \<in> value_of ` set vs) \<and>
        (rule_authority rule = CaIssued \<longrightarrow>
           (\<exists>v. bt_get (policy_approvals p) (agent, attribute_id a) = Some v \<and> attribute_value a = value_of v)))"
  by (cases "bt_get (policy_rules p) (attribute_id a)")
    (auto simp: validate_attribute_def list_ex_iff matches_ref_iff split: option.splits)

lemma lookup_in_set:
  "attribute_lookup as i = Some v \<Longrightarrow> \<exists>a\<in>set as. attribute_id a = i \<and> attribute_value a = v"
  by (induction as) (auto split: if_splits)

lemma in_set_lookup:
  "distinct (map attribute_id as) \<Longrightarrow> a \<in> set as \<Longrightarrow> attribute_lookup as (attribute_id a) = Some (attribute_value a)"
  by (induction as) auto

text \<open>In an accepted environment the CA-issued attributes are exactly the approvals of the
  identity: none is missing, none is added, none is altered.\<close>

lemma validated_ca_attributes:
  assumes "policy_wf p" "attributes_valid as"
    "static_validate_environment p agent current (environment_of as) = Inr ()" "ca_issued p a"
  shows "attribute_lookup as a = map_option value_of (bt_get (policy_approvals p) (agent, a))"
proof -
  have items: "\<forall>x\<in>set as. validate_attribute p agent x = Inr ()"
    and approvals: "\<forall>((who, a), v)\<in>set (policy_approvals p). who = agent \<longrightarrow> attribute_lookup as a = Some (value_of v)"
    using assms(2,3)
    by (auto simp: static_validate_environment_def tryE_Inr_iff validate_attributes_iff validate_approvals_iff
        environment_items_of environment_get_of)
  show ?thesis
  proof (cases "bt_get (policy_approvals p) (agent, a)")
    case (Some v)
    then have "((agent, a), v) \<in> set (policy_approvals p)" by (rule bt_get_iter)
    with approvals Some show ?thesis by auto
  next
    case None
    have "attribute_lookup as a = None"
    proof (rule ccontr)
      assume "attribute_lookup as a \<noteq> None"
      then obtain x where "x \<in> set as" "attribute_id x = a" using lookup_in_set by fastforce
      with items None assms(4) show False by (auto simp: validate_attribute_iff ca_issued_def)
    qed
    with None show ?thesis by simp
  qed
qed

lemma static_allows_delivery_iff:
  assumes "policy_wf p" "attributes_valid pub" "attributes_valid sub"
  shows "static_allows_delivery p t (environment_of pub) (environment_of sub) \<longleftrightarrow>
    (\<forall>as. bt_get (policy_isolation p) t = Some as \<longrightarrow>
       (\<forall>a\<in>set as. \<exists>v. attribute_lookup pub a = Some v \<and> attribute_lookup sub a = Some v)) \<and>
    (\<forall>a vs. bt_get (policy_subscriber_requirements p) (t, a) = Some vs \<longrightarrow>
       (\<exists>v\<in>set vs. attribute_lookup sub a = Some (value_of v)))"
proof -
  have iso: "(case (environment_get (environment_of pub) a, environment_get (environment_of sub) a) of
      (Some left, Some right) \<Rightarrow> left = right | _ \<Rightarrow> False) \<longleftrightarrow>
      (\<exists>v. attribute_lookup pub a = Some v \<and> attribute_lookup sub a = Some v)" for a
    using assms by (auto simp: environment_get_of split: option.splits)
  have req: "(case environment_get (environment_of sub) a of None \<Rightarrow> False
      | Some candidate \<Rightarrow> list_ex (\<lambda>val. matches_ref val candidate) vs) \<longleftrightarrow>
      (\<exists>v\<in>set vs. attribute_lookup sub a = Some (value_of v))" for a vs
    using assms by (auto simp: environment_get_of matches_ref_iff list_ex_iff split: option.splits)
  have entries: "((u, a), vs) \<in> set (policy_subscriber_requirements p) \<longleftrightarrow>
      bt_get (policy_subscriber_requirements p) (u, a) = Some vs" for u a vs
    using assms(1) by (intro bt_iter_iff) (simp add: policy_wf_def)
  show ?thesis
    unfolding static_allows_delivery_def Let_def list_all_iff iso req
    by (auto simp: entries split: option.splits)
qed

text \<open>An authorised delivery respects the isolation the CA approved, whatever the agents declare.\<close>

lemma authorized_isolation:
  assumes "policy_wf p" "attributes_valid pub" "attributes_valid sub"
    "static_authorize_delivery p pid (environment_of pub) sid (environment_of sub) t"
    "bt_get (policy_isolation p) t = Some as" "a \<in> set as"
  shows "\<exists>v. bt_get (policy_approvals p) (pid, a) = Some v \<and> bt_get (policy_approvals p) (sid, a) = Some v"
proof -
  have "ca_issued p a" using assms(1,5,6) by (auto simp: policy_wf_def)
  moreover have "static_validate_environment p pid None (environment_of pub) = Inr ()"
    "static_validate_environment p sid None (environment_of sub) = Inr ()"
    using assms(4) by (auto simp: static_authorize_delivery_def is_ok_iff)
  ultimately have "attribute_lookup pub a = map_option value_of (bt_get (policy_approvals p) (pid, a))"
    "attribute_lookup sub a = map_option value_of (bt_get (policy_approvals p) (sid, a))"
    using assms(1-3) by (blast intro: validated_ca_attributes)+
  moreover have "\<exists>v. attribute_lookup pub a = Some v \<and> attribute_lookup sub a = Some v"
    using assms(4-6) static_allows_delivery_iff [OF assms(1-3)] by (auto simp: static_authorize_delivery_def)
  ultimately show ?thesis by auto
qed

lemma authorized_requirements:
  assumes "policy_wf p" "attributes_valid pub" "attributes_valid sub"
    "static_authorize_delivery p pid (environment_of pub) sid (environment_of sub) t"
    "bt_get (policy_subscriber_requirements p) (t, a) = Some vs"
  shows "\<exists>v\<in>set vs. bt_get (policy_approvals p) (sid, a) = Some v"
proof -
  have "ca_issued p a" using assms(1,5) by (auto simp: policy_wf_def)
  moreover have "static_validate_environment p sid None (environment_of sub) = Inr ()"
    using assms(4) by (auto simp: static_authorize_delivery_def is_ok_iff)
  ultimately have "attribute_lookup sub a = map_option value_of (bt_get (policy_approvals p) (sid, a))"
    using assms(1,3) by (blast intro: validated_ca_attributes)
  moreover have "\<exists>v\<in>set vs. attribute_lookup sub a = Some (value_of v)"
    using assms(4,5) static_allows_delivery_iff [OF assms(1-3)] by (auto simp: static_authorize_delivery_def)
  ultimately show ?thesis by auto
qed

section \<open>The policy interface\<close>

text \<open>What the CA relies on: an authorised delivery revalidates both environments.\<close>

locale environment_policy =
  fixes P :: policy
  assumes authorize_validates: "authorize_delivery P pid pub sid sub t \<Longrightarrow>
    is_ok (validate_environment P pid None pub) \<and> is_ok (validate_environment P sid None sub)"

lemma dynamic_policy_static:
  "dynamic_policy d = static_policy (dynamic_inner d)"
  "dynamic_policy (DynamicEnvironmentPolicy_new p) = static_policy p" "dynamic_policy (dynamic_replace p d) = static_policy p"
  by (simp_all add: dynamic_policy_def static_policy_def dynamic_authorize_delivery_def static_authorize_delivery_def fun_eq_iff Let_def
      DynamicEnvironmentPolicy_new_def dynamic_replace_def)

interpretation static_env: environment_policy "static_policy p" for p
  by unfold_locales (auto simp: static_policy_def static_authorize_delivery_def)

interpretation dynamic_env: environment_policy "dynamic_policy d" for d
  unfolding dynamic_policy_static by (rule static_env.environment_policy_axioms)

interpretation allow_all_env: environment_policy allow_all_policy
  by unfold_locales (simp add: allow_all_policy_def)

text \<open>A small policy for the witnesses: one isolation attribute that the CA approves for two agents.\<close>

definition pair_policy :: StaticEnvironmentPolicy where
  "pair_policy = fold (\<lambda>call p. snd (configure call p))
     [Register_ca (AttributeId 0x1001) Type_Bytes, Approve (AgentId 5) (AttributeId 0x1001) (Attr_Bytes [7]),
      Approve (AgentId 6) (AttributeId 0x1001) (Attr_Bytes [7]), Isolate (TypeId 9) [AttributeId 0x1001]]
     StaticEnvironmentPolicy_new"

lemma pair_policy_wf: "policy_wf pair_policy"
  unfolding pair_policy_def by (rule configured_wf [OF policy_wf_new])

lemma pair_policy_eq:
  "pair_policy = \<lparr>policy_rules = [(AttributeId 0x1001, \<lparr>rule_type = Type_Bytes, rule_authority = CaIssued\<rparr>)],
     policy_allowed_values = [],
     policy_approvals = [((AgentId 5, AttributeId 0x1001), Attr_Bytes [7]), ((AgentId 6, AttributeId 0x1001), Attr_Bytes [7])],
     policy_isolation = [(TypeId 9, [AttributeId 0x1001])], policy_subscriber_requirements = []\<rparr>"
  by (simp add: pair_policy_def StaticEnvironmentPolicy_new_def register_ca_issued_def register_rule_def approve_def
      isolate_def validate_configured_value_def bt_empty_def bt_get_def const_defs less_AgentId_def)

definition pair_environment :: "AttributeRef list" where
  "pair_environment = [\<lparr>attribute_id = AttributeId 0x1001, attribute_value = Value_Bytes [7]\<rparr>]"

lemma pair_environment_valid: "attributes_valid pair_environment"
  by (simp add: pair_environment_def attributes_valid_def const_defs)

lemma pair_environment_accepted:
  "static_validate_environment pair_policy (AgentId 5) None (environment_of pair_environment) = Inr ()"
  "static_validate_environment pair_policy (AgentId 6) None (environment_of pair_environment) = Inr ()"
  by (simp_all add: static_validate_environment_def environment_items_of environment_get_of pair_environment_valid)
    (simp_all add: pair_policy_eq pair_environment_def validate_attribute_def bt_get_def environment_get_of
      pair_environment_valid [unfolded pair_environment_def])

section \<open>Properties\<close>

text \<open>Every sequence of configuration calls, accepted or refused, builds a consistent policy:
  approvals, isolation attributes and subscriber requirements only ever concern attributes that
  are reserved to the CA, values have the type of their attribute's rule, allow-lists hold no
  duplicates.\<close>

theorem policy_configuration_invariant:
  "policy_wf (fold (\<lambda>call p. snd (configure call p)) calls StaticEnvironmentPolicy_new)"
  by (rule configured_wf [OF policy_wf_new])

text \<open>C35: an agent cannot grant itself an attribute. In every environment the policy accepts for an
  agent, the CA-issued attributes carry exactly the values approved for that agent: a missing,
  added or altered one is refused.\<close>

theorem accepted_environment_is_approved:
  assumes "policy_wf p" "attributes_valid as"
    "static_validate_environment p agent current (environment_of as) = Inr ()" "ca_issued p a"
  shows "environment_get (environment_of as) a =
    map_option value_of (bt_get (policy_approvals p) (agent, a))"
  using validated_ca_attributes [OF assms] environment_get_of [OF assms(2)] by simp

theorem accepted_environment_witness:
  "environment_get (environment_of pair_environment) (AttributeId 0x1001) =
     map_option value_of (bt_get (policy_approvals pair_policy) (AgentId 5, AttributeId 0x1001))"
  by (rule accepted_environment_is_approved [OF pair_policy_wf pair_environment_valid pair_environment_accepted(1)])
    (simp add: ca_issued_def pair_policy_eq bt_get_def)

text \<open>Domain isolation cannot be bypassed. When the CA authorises a delivery of a type, the values
  approved for publisher and subscriber exist and agree in every isolation attribute of that type,
  and every subscriber requirement of the type is met by a value approved for the subscriber,
  whatever predicates either side used.\<close>

theorem delivery_isolation:
  assumes "policy_wf p" "attributes_valid pub" "attributes_valid sub"
    "static_authorize_delivery p pid (environment_of pub) sid (environment_of sub) t"
  shows "(\<forall>as a. bt_get (policy_isolation p) t = Some as \<longrightarrow> a \<in> set as \<longrightarrow>
      (\<exists>v. bt_get (policy_approvals p) (pid, a) = Some v \<and> bt_get (policy_approvals p) (sid, a) = Some v)) \<and>
    (\<forall>a vs. bt_get (policy_subscriber_requirements p) (t, a) = Some vs \<longrightarrow>
      (\<exists>v\<in>set vs. bt_get (policy_approvals p) (sid, a) = Some v))"
  using authorized_isolation [OF assms] authorized_requirements [OF assms] by blast

theorem delivery_isolation_witness:
  "\<exists>v. bt_get (policy_approvals pair_policy) (AgentId 5, AttributeId 0x1001) = Some v \<and>
     bt_get (policy_approvals pair_policy) (AgentId 6, AttributeId 0x1001) = Some v"
proof -
  have "static_authorize_delivery pair_policy (AgentId 5) (environment_of pair_environment)
      (AgentId 6) (environment_of pair_environment) (TypeId 9)"
    unfolding static_authorize_delivery_def
    by (simp add: pair_environment_accepted static_allows_delivery_iff pair_policy_wf pair_environment_valid)
      (simp add: pair_policy_eq pair_environment_def bt_get_def)
  from delivery_isolation [OF pair_policy_wf pair_environment_valid pair_environment_valid this] show ?thesis
    by (simp add: pair_policy_eq bt_get_def)
qed

end
