(* ===== verification/Authority.thy ===== *)
theory Authority
  imports Agent Policy Persistence
begin

text \<open>
  The certificate authority of \<open>ca-core/src/lib.rs\<close>: \<open>process\<close> authenticates, replay-checks,
  decrypts, authorises and executes one request. The store is any implementation of the storage
  traits (the record \<open>ca_store\<close>), the policy any implementation of \<open>EnvironmentPolicy\<close>; the
  state is the store and the random generator, returned also on every error. The daemon calls
  \<open>process\<close> for one request at a time, so the store calls of a request are not interleaved.

  The specification is the step on the store's view: what a request may change, and to whom a
  publication is delivered. It is proved in the context of the store contract, for every store.
\<close>

section \<open>Definitions\<close>

record CaKeys =
  ca_signing_key :: array32
  ca_x25519_secret :: array32

definition CaKeys_from_seeds :: "array32 \<Rightarrow> array32 \<Rightarrow> CaKeys" where
  "CaKeys_from_seeds ed25519_seed x25519_secret =
     \<lparr>ca_signing_key = ed25519_seed, ca_x25519_secret = x25519_secret\<rparr>"

definition CaKeys_verifying_key :: "'r crypto \<Rightarrow> CaKeys \<Rightarrow> array32" where
  "CaKeys_verifying_key C keys = ed_public C (ca_signing_key keys)"

definition CaKeys_x25519_public :: "'r crypto \<Rightarrow> CaKeys \<Rightarrow> array32" where
  "CaKeys_x25519_public C keys = x_public C (ca_x25519_secret keys)"

datatype ProcessResult = Accepted | Deliveries "bytes list"

record CertificateAuthority =
  authority_keys :: CaKeys
  authority_policy :: policy

definition delivery ::
  "'r crypto \<Rightarrow> CertificateAuthority \<Rightarrow> AgentId \<Rightarrow> AgentId \<Rightarrow> HandlerId \<Rightarrow> TypeId \<Rightarrow> bytes \<Rightarrow> array32 \<Rightarrow> 'r
     \<Rightarrow> (Error + bytes) \<times> 'r" where
  "delivery C ca publisher recipient handler type_id val recipient_x25519 rng =
     (let frame = replicate MAX_FRAME_LEN 0;
          (encoded, plain) = encode_response (range_of frame HEADER_LEN (length frame)) type_id publisher val;
          frame = copy_at frame HEADER_LEN plain in
      tryS (encoded, rng) (\<lambda>plaintext_len rng.
      let (session, rng) = rng_fill16 C rng;
          (salt, rng) = rng_fill32 C rng;
          (secret, rng) = OneShotSecret_generate C rng;
          (sealed, frame) = seal_in_place C frame plaintext_len MT_PublicationResponse AgentId_CA recipient
             handler (SessionId session) salt secret recipient_x25519 (ca_signing_key (authority_keys ca)) in
      tryS (sealed, rng) (\<lambda>n rng. (Inr (take n frame), rng))))"

definition parse_stored_environment :: "bytes \<Rightarrow> Error + EnvironmentRef" where
  "parse_stored_environment encoded =
     tryE (parse_operation encoded) (\<lambda>operation.
     case operation of Op_SetEnvironment environment \<Rightarrow> Inr environment | _ \<Rightarrow> Inl Malformed)"

definition validate_stored_environment ::
  "'s ca_store \<Rightarrow> CertificateAuthority \<Rightarrow> AgentId \<Rightarrow> 's \<Rightarrow> Error + unit" where
  "validate_stored_environment S ca agent store =
     tryE (store_environment S store agent) (\<lambda>stored.
     tryE (ok_or stored UnauthorizedEnvironment) (\<lambda>encoded.
     tryE (parse_stored_environment encoded) (\<lambda>environment.
     map_err (\<lambda>_. UnauthorizedEnvironment)
       (validate_environment (authority_policy ca) agent None environment))))"

definition subscription_predicate :: "StoredSubscription \<Rightarrow> TypeId \<Rightarrow> Error + PredicateRef" where
  "subscription_predicate subscription type_id =
     tryE (parse_operation (sub_encoded subscription)) (\<lambda>operation.
     case (sub_kind subscription, operation) of
       (OneShot, Op_Subscribe stored_type predicate) \<Rightarrow>
         if stored_type = type_id then Inr predicate else Inl Malformed
     | (Permanent, Op_SubscribePermanent stored_type predicate) \<Rightarrow>
         if stored_type = type_id then Inr predicate else Inl Malformed
     | _ \<Rightarrow> Inl Malformed)"

text \<open>The loop over the snapshot of the type's subscriptions.\<close>

fun publish_loop ::
  "'r crypto \<Rightarrow> 's ca_store \<Rightarrow> CertificateAuthority \<Rightarrow> AgentId \<Rightarrow> EnvironmentRef \<Rightarrow> TypeId \<Rightarrow> PredicateRef \<Rightarrow> bytes
     \<Rightarrow> StoredSubscription list \<Rightarrow> bytes list \<Rightarrow> 's \<times> 'r \<Rightarrow> (Error + bytes list) \<times> ('s \<times> 'r)" where
  "publish_loop C S ca sender publisher_environment type_id predicate val [] deliveries (store, rng) =
     (Inr deliveries, (store, rng))"
| "publish_loop C S ca sender publisher_environment type_id predicate val (subscription # subscriptions)
     deliveries (store, rng) =
     tryS (subscription_predicate subscription type_id, (store, rng)) (\<lambda>subscription_predicate (store, rng).
     if \<not> predicate_evaluate subscription_predicate publisher_environment
     then publish_loop C S ca sender publisher_environment type_id predicate val subscriptions deliveries (store, rng)
     else tryS (store_environment S store (sub_subscriber subscription), (store, rng)) (\<lambda>stored (store, rng).
     case stored of
       None \<Rightarrow> publish_loop C S ca sender publisher_environment type_id predicate val subscriptions deliveries (store, rng)
     | Some encoded \<Rightarrow>
         tryS (parse_stored_environment encoded, (store, rng)) (\<lambda>subscriber_environment (store, rng).
         if \<not> predicate_evaluate predicate subscriber_environment
         then publish_loop C S ca sender publisher_environment type_id predicate val subscriptions deliveries (store, rng)
         else if \<not> authorize_delivery (authority_policy ca) sender publisher_environment
                    (sub_subscriber subscription) subscriber_environment type_id
         then publish_loop C S ca sender publisher_environment type_id predicate val subscriptions deliveries (store, rng)
         else tryS (store_keys S store (sub_subscriber subscription), (store, rng)) (\<lambda>recipient_keys (store, rng).
         let (delivered, rng) = delivery C ca sender (sub_subscriber subscription) (sub_handler subscription)
               type_id val (public_x25519 recipient_keys) rng in
         tryS (delivered, (store, rng)) (\<lambda>frame (store, rng).
         let (claimed, store) = store_claim_subscription S store subscription in
         tryS (claimed, (store, rng)) (\<lambda>claimed (store, rng).
         publish_loop C S ca sender publisher_environment type_id predicate val subscriptions
           (if claimed then deliveries @ [frame] else deliveries) (store, rng)))))))"

definition process_set_environment ::
  "'s ca_store \<Rightarrow> CertificateAuthority \<Rightarrow> AgentId \<Rightarrow> HandlerId \<Rightarrow> bytes \<Rightarrow> EnvironmentRef \<Rightarrow> 's \<times> 'r
     \<Rightarrow> (Error + ProcessResult) \<times> ('s \<times> 'r)" where
  "process_set_environment S ca sender handler plaintext proposed st =
     (let (store, rng) = st in
      if handler \<noteq> HandlerId_NONE then (Inl WrongHandler, (store, rng))
      else tryS (store_environment S store sender, (store, rng)) (\<lambda>stored (store, rng).
      tryS (case stored of None \<Rightarrow> Inr None
            | Some encoded \<Rightarrow> tryE (parse_stored_environment encoded) (\<lambda>environment. Inr (Some environment)),
            (store, rng)) (\<lambda>current (store, rng).
      tryS (map_err (\<lambda>_. UnauthorizedEnvironment)
              (validate_environment (authority_policy ca) sender current proposed), (store, rng)) (\<lambda>_ (store, rng).
      let (result, store) = store_set_environment S store sender plaintext in
      tryS (result, (store, rng)) (\<lambda>_ st. (Inr Accepted, st))))))"

definition process_subscribe ::
  "'s ca_store \<Rightarrow> CertificateAuthority \<Rightarrow> AgentId \<Rightarrow> HandlerId \<Rightarrow> bytes \<Rightarrow> TypeId \<Rightarrow> SubscriptionKind \<Rightarrow> 's \<times> 'r
     \<Rightarrow> (Error + ProcessResult) \<times> ('s \<times> 'r)" where
  "process_subscribe S ca sender handler plaintext type_id kind st =
     (let (store, rng) = st in
      if handler = HandlerId_NONE then (Inl WrongHandler, (store, rng))
      else tryS (validate_stored_environment S ca sender store, (store, rng)) (\<lambda>_ (store, rng).
      let (result, store) = store_put_subscription S store
            \<lparr>sub_subscriber = sender, sub_type_id = type_id, sub_handler = handler, sub_kind = kind,
             sub_encoded = plaintext\<rparr> in
      tryS (result, (store, rng)) (\<lambda>_ st. (Inr Accepted, st))))"

definition process_publish ::
  "'r crypto \<Rightarrow> 's ca_store \<Rightarrow> CertificateAuthority \<Rightarrow> AgentId \<Rightarrow> HandlerId \<Rightarrow> TypeId \<Rightarrow> PredicateRef \<Rightarrow> bytes \<Rightarrow> 's \<times> 'r
     \<Rightarrow> (Error + ProcessResult) \<times> ('s \<times> 'r)" where
  "process_publish C S ca sender handler type_id predicate val st =
     (let (store, rng) = st in
      if handler \<noteq> HandlerId_NONE then (Inl WrongHandler, (store, rng))
      else tryS (store_environment S store sender, (store, rng)) (\<lambda>stored (store, rng).
      tryS (ok_or stored Malformed, (store, rng)) (\<lambda>encoded (store, rng).
      tryS (parse_stored_environment encoded, (store, rng)) (\<lambda>publisher_environment (store, rng).
      tryS (map_err (\<lambda>_. UnauthorizedEnvironment)
              (validate_environment (authority_policy ca) sender None publisher_environment), (store, rng))
        (\<lambda>_ (store, rng).
      tryS (store_subscriptions_for S store type_id, (store, rng)) (\<lambda>subscriptions st.
      tryS (publish_loop C S ca sender publisher_environment type_id predicate val subscriptions [] st)
        (\<lambda>deliveries st. (Inr (Deliveries deliveries), st))))))))"

definition dispatch ::
  "'r crypto \<Rightarrow> 's ca_store \<Rightarrow> CertificateAuthority \<Rightarrow> AgentId \<Rightarrow> MessageType \<Rightarrow> HandlerId \<Rightarrow> bytes \<Rightarrow> OperationRef \<Rightarrow> 's \<times> 'r
     \<Rightarrow> (Error + ProcessResult) \<times> ('s \<times> 'r)" where
  "dispatch C S ca sender message_type handler plaintext operation st =
     (case (message_type, operation) of
        (MT_SetEnvironment, Op_SetEnvironment proposed) \<Rightarrow>
          process_set_environment S ca sender handler plaintext proposed st
      | (MT_Subscribe, Op_Subscribe type_id _) \<Rightarrow>
          process_subscribe S ca sender handler plaintext type_id OneShot st
      | (MT_SubscribePermanent, Op_SubscribePermanent type_id _) \<Rightarrow>
          process_subscribe S ca sender handler plaintext type_id Permanent st
      | (MT_Publish, Op_Publish type_id predicate val) \<Rightarrow>
          process_publish C S ca sender handler type_id predicate val st
      | _ \<Rightarrow> (Inl WrongMessageType, st))"

definition process ::
  "'r crypto \<Rightarrow> 's ca_store \<Rightarrow> CertificateAuthority \<Rightarrow> bytes \<Rightarrow> u64 \<Rightarrow> 's \<times> 'r
     \<Rightarrow> (Error + ProcessResult) \<times> ('s \<times> 'r)" where
  "process C S ca frame now_seconds st =
     tryS (parse_envelope frame, st) (\<lambda>envelope st.
     if envelope_recipient envelope \<noteq> AgentId_CA \<or> envelope_sender envelope = AgentId_CA
     then (Inl WrongRecipient, st)
     else if envelope_message_type envelope = MT_PublicationResponse then (Inl WrongMessageType, st)
     else
     let sender = envelope_sender envelope; message_type = envelope_message_type envelope;
         handler = envelope_handler envelope; session = envelope_session_id envelope in
     tryS (store_keys S (fst st) sender, st) (\<lambda>public_keys st.
     let verifying = public_ed25519 public_keys in
     if \<not> ed_key_ok C verifying then (Inl BadSignature, st)
     else tryS (parse_envelope frame, st) (\<lambda>envelope st.
     tryS (verify_envelope_signature C envelope verifying, st) (\<lambda>_ (store, rng).
     let (marked, store) = store_check_and_mark S store sender session now_seconds in
     tryS (marked, (store, rng)) (\<lambda>_ st.
     tryS (open_in_place C frame AgentId_CA message_type verifying
             (ca_x25519_secret (authority_keys ca)), st) (\<lambda>plaintext st.
     tryS (parse_operation plaintext, st) (\<lambda>operation st.
     dispatch C S ca sender message_type handler plaintext operation st)))))))"

section \<open>Deliveries\<close>

text \<open>The canonical response always fits the frame, so a delivery is the sealing of its bytes.\<close>

lemma delivery_seals:
  fixes t :: TypeId and publisher :: AgentId
  assumes val: "length val \<le> MAX_VALUE_BYTES" and draws: "request_draws C rng = (session, salt, secret, rng')"
  defines "bs \<equiv> operation_bytes (PublicationResponse t publisher val)"
  obtains out where "length out = 4324" "length bs \<le> 3640" "range_of out 148 (148 + length bs) = bs"
    "delivery C ca publisher recipient h t val rx rng =
      (let (sealed, o1) = seal_in_place C out (length bs) MT_PublicationResponse AgentId_CA recipient h (SessionId session)
         salt secret rx (ca_signing_key (authority_keys ca)) in tryS (sealed, rng') (\<lambda>n rng. (Inr (take n o1), rng)))"
proof -
  let ?op = "PublicationResponse t publisher val" and ?frame = "replicate MAX_FRAME_LEN (0 :: u8)"
  let ?n = "length bs"
  let ?room = "range_of ?frame HEADER_LEN (length ?frame)"
  let ?plain = "bs @ drop ?n ?room"
  let ?out = "copy_at ?frame HEADER_LEN ?plain"
  have valid: "operation_valid ?op" using val by simp
  have n: "?n \<le> 3640" unfolding bs_def by (rule length_operation_bytes [OF valid])
  have room: "length ?room = 4176" by (simp add: length_range_of const_defs)
  have "encode_operation ?room ?op = (Inr ?n, ?plain)"
    using n room unfolding bs_def by (intro encode_operation_ok valid) simp
  then have enc: "encode_response ?room t publisher val = (Inr ?n, ?plain)" by simp
  have "length ?out = 4324" using n room by (simp add: const_defs)
  moreover have "range_of ?out 148 (148 + ?n) = bs" by (simp add: copy_at_def range_of_def const_defs)
  moreover have "delivery C ca publisher recipient h t val rx rng =
    (let (sealed, o1) = seal_in_place C ?out ?n MT_PublicationResponse AgentId_CA recipient h (SessionId session) salt
        secret rx (ca_signing_key (authority_keys ca)) in tryS (sealed, rng') (\<lambda>n rng. (Inr (take n o1), rng)))"
    using draws enc
    by (auto simp: delivery_def request_draws_def OneShotSecret_generate_def Let_def split: prod.splits)
  ultimately show thesis using that n by blast
qed

text \<open>A delivery that can be sealed opens, for the subscriber, to the canonical response.\<close>

lemma delivery_ok:
  assumes laws: "crypto_laws C" and val: "length val \<le> MAX_VALUE_BYTES"
    and draws: "request_draws C rng = (session, salt, secret, rng')"
    and dh: "x_dh C secret (x_public C xsecret) \<noteq> 0"
  obtains e where "delivery C ca publisher recipient h t val (x_public C xsecret) rng = (Inr (frame_bytes e), rng')"
    "parse_envelope (frame_bytes e) = Inr e" "envelope_message_type e = MT_PublicationResponse"
    "envelope_sender e = AgentId_CA" "envelope_recipient e = recipient" "envelope_handler e = h"
    "envelope_session_id e = SessionId session"
    "verify_envelope_signature C e (ed_public C (ca_signing_key (authority_keys ca))) = Inr ()"
    "open_in_place C (frame_bytes e) recipient MT_PublicationResponse
       (ed_public C (ca_signing_key (authority_keys ca))) xsecret = Inr (operation_bytes (PublicationResponse t publisher val))"
proof -
  let ?bs = "operation_bytes (PublicationResponse t publisher val)"
  let ?n = "length ?bs" and ?key = "ca_signing_key (authority_keys ca)"
  obtain out where out: "length out = 4324" "?n \<le> 3640" "range_of out 148 (148 + ?n) = ?bs"
    "delivery C ca publisher recipient h t val (x_public C xsecret) rng =
      (let (sealed, o1) = seal_in_place C out ?n MT_PublicationResponse AgentId_CA recipient h (SessionId session)
         salt secret (x_public C xsecret) ?key in tryS (sealed, rng') (\<lambda>n rng. (Inr (take n o1), rng)))"
    by (rule delivery_seals [OF val draws])
  obtain e where
    "seal_in_place C out ?n MT_PublicationResponse AgentId_CA recipient h (SessionId session) salt
        secret (x_public C xsecret) ?key = (Inr (?n + 228), frame_bytes e @ drop (?n + 228) out)"
    "length (frame_bytes e) = ?n + 228" "parse_envelope (frame_bytes e) = Inr e"
    "envelope_message_type e = MT_PublicationResponse" "envelope_sender e = AgentId_CA" "envelope_recipient e = recipient"
    "envelope_handler e = h" "envelope_session_id e = SessionId session"
    "verify_envelope_signature C e (ed_public C ?key) = Inr ()"
    "open_in_place C (frame_bytes e) recipient MT_PublicationResponse (ed_public C ?key) xsecret =
      Inr (range_of out 148 (148 + ?n))"
    by (rule seal_open [OF laws, of ?n out secret xsecret MT_PublicationResponse AgentId_CA recipient h
          "SessionId session" salt ?key])
      (use out(1,2) dh in \<open>simp_all add: const_defs del: operation_bytes.simps\<close>)
  then show thesis
    using that [of e] out(3,4) by (simp del: operation_bytes.simps)
qed

text \<open>The only failure is a recipient key without a shared secret, and the random source advances all the same.\<close>

lemma delivery_weak_key:
  assumes "length val \<le> MAX_VALUE_BYTES" "request_draws C rng = (session, salt, secret, rng')" "x_dh C secret rx = 0"
  shows "delivery C ca publisher recipient h t val rx rng = (Inl CryptoFailure, rng')"
proof -
  let ?n = "length (operation_bytes (PublicationResponse t publisher val))"
  obtain out where out: "length out = 4324" "?n \<le> 3640"
    "delivery C ca publisher recipient h t val rx rng =
      (let (sealed, o1) = seal_in_place C out ?n MT_PublicationResponse AgentId_CA recipient h (SessionId session)
         salt secret rx (ca_signing_key (authority_keys ca)) in tryS (sealed, rng') (\<lambda>n rng. (Inr (take n o1), rng)))"
    by (rule delivery_seals [OF assms(1,2)])
  have "fst (seal_in_place C out ?n MT_PublicationResponse AgentId_CA recipient h (SessionId session)
         salt secret rx (ca_signing_key (authority_keys ca))) = Inl CryptoFailure"
    by (rule seal_in_place_weak_key) (use out(1,2) assms(3) in \<open>simp_all add: const_defs del: operation_bytes.simps\<close>)
  then show ?thesis
    unfolding out(3) by (auto simp: Let_def split: prod.splits)
qed

section \<open>Who receives a publication\<close>

definition eligible ::
  "policy \<Rightarrow> (AgentId \<rightharpoonup> bytes) \<Rightarrow> AgentId \<Rightarrow> EnvironmentRef \<Rightarrow> TypeId \<Rightarrow> PredicateRef \<Rightarrow> StoredSubscription \<Rightarrow> bool" where
  "eligible P environments sender penv t pred sub =
     (case subscription_predicate sub t of Inl _ \<Rightarrow> False
      | Inr wanted \<Rightarrow> predicate_evaluate wanted penv \<and>
          (case environments (sub_subscriber sub) of None \<Rightarrow> False
           | Some encoded \<Rightarrow>
               (case parse_stored_environment encoded of Inl _ \<Rightarrow> False
                | Inr senv \<Rightarrow> predicate_evaluate pred senv \<and>
                    authorize_delivery P sender penv (sub_subscriber sub) senv t)))"

definition consume :: "TypeId \<Rightarrow> StoredSubscription set \<Rightarrow> store_view \<Rightarrow> store_view" where
  "consume t R v = v\<lparr>view_subscriptions := (view_subscriptions v)
     (t := filter (\<lambda>s. s \<notin> R) (view_subscriptions v t))\<rparr>"

lemma consume_simps [simp]:
  "view_keys (consume t R v) = view_keys v" "view_environments (consume t R v) = view_environments v"
  "view_subscriptions (consume t R v) t = filter (\<lambda>s. s \<notin> R) (view_subscriptions v t)"
  "consume t {} v = v" "consume t R (consume t R' v) = consume t (R' \<union> R) v"
  by (simp_all add: consume_def conj_commute)

definition one_shots :: "StoredSubscription list \<Rightarrow> StoredSubscription set" where
  "one_shots subs = {s \<in> set subs. sub_kind s = OneShot}"

lemma one_shots_simps [simp]:
  "one_shots [] = {}" "one_shots (s # subs) = (if sub_kind s = OneShot then insert s (one_shots subs) else one_shots subs)"
  by (auto simp: one_shots_def)

context ca_store_laws begin

lemma claim_consumes:
  assumes "sub \<in> set (view_subscriptions (view s) (sub_type_id sub))"
    "distinct (view_subscriptions (view s) (sub_type_id sub))"
    "store_claim_subscription S s sub = (Inr b, s')"
  shows "b" "view s' = consume (sub_type_id sub) (one_shots [sub]) (view s)"
proof -
  show b using claim_result [of s sub b] assms by simp
  have "remove1 sub xs = filter (\<lambda>s. s \<noteq> sub) xs" if "distinct xs" for xs
    using that by (induction xs) (auto intro!: filter_True [symmetric])
  with claim_law [of s sub] assms \<open>b\<close>
  show "view s' = consume (sub_type_id sub) (one_shots [sub]) (view s)"
    by (auto simp: consume_def)
qed

lemma claim_error:
  "store_claim_subscription S s sub = (Inl e, s') \<Longrightarrow> view s' = view s"
  using claim_law [of s sub] by simp

text \<open>A successful loop has delivered to exactly the eligible subscriptions, in order, and has
  consumed exactly the one-shot ones among them.\<close>

lemma publish_loop_exact:
  assumes "publish_loop C S ca sender penv t pred val subs ds (store, rng) = (Inr ds', (store', rng'))"
    "distinct subs" "set subs \<subseteq> set (view_subscriptions (view store) t)"
    "distinct (view_subscriptions (view store) t)" "\<forall>sub\<in>set subs. sub_type_id sub = t"
  shows "\<exists>frames. ds' = ds @ frames \<and>
    list_all2 (\<lambda>sub frame. \<exists>keys r r'. view_keys (view store) (sub_subscriber sub) = Some keys \<and>
        delivery C ca sender (sub_subscriber sub) (sub_handler sub) t val (public_x25519 keys) r = (Inr frame, r'))
      (filter (eligible (authority_policy ca) (view_environments (view store)) sender penv t pred) subs) frames \<and>
    view store' = consume t
      (one_shots (filter (eligible (authority_policy ca) (view_environments (view store)) sender penv t pred) subs)) (view store)"
  using assms
proof (induction subs arbitrary: ds store rng)
  case (Cons sub subs)
  let ?el = "eligible (authority_policy ca) (view_environments (view store)) sender penv t pred"
  let ?loop = "publish_loop C S ca sender penv t pred val subs"
  note run = Cons.prems(1)
  from run obtain wanted where wanted: "subscription_predicate sub t = Inr wanted"
    by (cases "subscription_predicate sub t") auto
  show ?case
  proof (cases "?el sub")
    case False
    then have "?loop ds (store, rng) = (Inr ds', (store', rng'))"
      using run wanted
      by (auto simp: eligible_def environment_law tryS_Inr_iff split: if_splits option.splits sum.splits)
    from Cons.IH [OF this] Cons.prems False show ?thesis by simp
  next
    case True
    then obtain encoded senv where elig: "predicate_evaluate wanted penv"
      "view_environments (view store) (sub_subscriber sub) = Some encoded" "parse_stored_environment encoded = Inr senv"
      "predicate_evaluate pred senv" "authorize_delivery (authority_policy ca) sender penv (sub_subscriber sub) senv t"
      using wanted by (auto simp: eligible_def split: option.splits sum.splits)
    obtain delivered r1 where d: "delivery C ca sender (sub_subscriber sub) (sub_handler sub) t val
        (public_x25519 (the (view_keys (view store) (sub_subscriber sub)))) rng = (delivered, r1)" by fastforce
    obtain claimed store1 where c: "store_claim_subscription S store sub = (claimed, store1)" by fastforce
    from run wanted elig d c obtain keys frame b where step:
      "view_keys (view store) (sub_subscriber sub) = Some keys" "delivered = Inr frame" "claimed = Inr b"
      "?loop (if b then ds @ [frame] else ds) (store1, r1) = (Inr ds', (store', rng'))"
      by (cases "view_keys (view store) (sub_subscriber sub)"; cases delivered; cases claimed)
        (auto simp: environment_law keys_law)
    have type: "sub_type_id sub = t" and mem: "sub \<in> set (view_subscriptions (view store) (sub_type_id sub))"
      using Cons.prems by auto
    have claim: b "view store1 = consume t (one_shots [sub]) (view store)"
      using claim_consumes [OF mem _ c [unfolded step(3)]] Cons.prems(4) type by auto
    have "set subs \<subseteq> set (view_subscriptions (view store1) t)" "distinct (view_subscriptions (view store1) t)"
      using Cons.prems by (auto simp: claim(2))
    with Cons.IH [of "ds @ [frame]" store1 r1] step(4) claim Cons.prems(2,5) obtain frames where
      "ds' = (ds @ [frame]) @ frames"
      "list_all2 (\<lambda>sub frame. \<exists>keys r r'. view_keys (view store) (sub_subscriber sub) = Some keys \<and>
        delivery C ca sender (sub_subscriber sub) (sub_handler sub) t val (public_x25519 keys) r = (Inr frame, r'))
        (filter ?el subs) frames"
      "view store' = consume t (one_shots (filter ?el subs)) (view store1)"
      by auto
    moreover have "one_shots [sub] \<union> one_shots (filter ?el subs) = one_shots (filter ?el (sub # subs))"
      using True by simp
    ultimately show ?thesis
      using True step(1,2) d claim(2) by (intro exI [of _ "frame # frames"]) auto
  qed
qed simp

end

section \<open>Well-formed views\<close>

definition slot :: "StoredSubscription \<Rightarrow> AgentId \<times> HandlerId" where
  "slot sub = (sub_subscriber sub, sub_handler sub)"

text \<open>Stored environments and subscriptions parse as what they are stored as; a bucket holds one
  subscription per subscriber and handler, in slot order.\<close>

definition view_ok :: "store_view \<Rightarrow> bool" where
  "view_ok v \<longleftrightarrow>
     (\<forall>a e. view_environments v a = Some e \<longrightarrow> is_environment e) \<and>
     (\<forall>t. sorted (map slot (view_subscriptions v t)) \<and> distinct (map slot (view_subscriptions v t)) \<and>
        (\<forall>sub\<in>set (view_subscriptions v t). sub_type_id sub = t \<and> stored_ok sub))"

lemma replace_first_slots:
  "replace_first (same_slot sub) sub bucket = Some bucket' \<Longrightarrow> map slot bucket' = map slot bucket"
  by (induction bucket arbitrary: bucket') (auto simp: same_slot_def slot_def split: if_splits)

lemma replace_first_none:
  "replace_first (same_slot sub) sub bucket = None \<Longrightarrow> slot sub \<notin> slot ` set bucket"
  by (induction bucket) (auto simp: same_slot_def slot_def split: if_splits)

lemma upsert_slots:
  assumes "sorted (map slot bucket)" "distinct (map slot bucket)"
  shows "sorted (map slot (upsert sub bucket))" "distinct (map slot (upsert sub bucket))"
proof -
  have key: "sort_key (\<lambda>entry. (sub_subscriber entry, sub_handler entry)) = sort_key slot"
    by (simp add: slot_def [abs_def])
  have "sorted (map slot (upsert sub bucket)) \<and> distinct (map slot (upsert sub bucket))"
  proof (cases "replace_first (same_slot sub) sub bucket")
    case None
    have "distinct (map slot (bucket @ [sub]))"
      using assms(2) replace_first_none [OF None] by auto
    then have "distinct (map slot (sort_key slot (bucket @ [sub])))"
      by (metis distinct_map distinct_sort set_sort)
    with None show ?thesis by (simp add: upsert_def key)
  next
    case (Some b)
    with assms show ?thesis by (simp add: upsert_def replace_first_slots)
  qed
  then show "sorted (map slot (upsert sub bucket))" "distinct (map slot (upsert sub bucket))" by blast+
qed

lemma upsert_set: "set (upsert sub bucket) \<subseteq> insert sub (set bucket)"
  by (auto simp: upsert_def dest!: replace_first_set split: option.splits)

lemma view_ok_upsert:
  assumes "view_ok v" "sub_type_id sub = t" "stored_ok sub"
  shows "view_ok (v\<lparr>view_subscriptions := (view_subscriptions v)(t := upsert sub (view_subscriptions v t))\<rparr>)"
proof -
  let ?b = "view_subscriptions v t"
  have old: "sorted (map slot ?b)" "distinct (map slot ?b)" "\<forall>x\<in>set ?b. sub_type_id x = t \<and> stored_ok x"
    using assms(1) by (simp_all add: view_ok_def)
  have "\<forall>x\<in>set (upsert sub ?b). sub_type_id x = t \<and> stored_ok x"
    using upsert_set [of sub ?b] old(3) assms(2,3) by auto
  with upsert_slots [OF old(1,2), of sub] assms(1) show ?thesis by (simp add: view_ok_def)
qed

lemma view_ok_environment:
  "view_ok v \<Longrightarrow> is_environment e \<Longrightarrow> view_ok (v\<lparr>view_environments := (view_environments v)(a \<mapsto> e)\<rparr>)"
  by (auto simp: view_ok_def)

lemma view_ok_consume:
  assumes "view_ok v"
  shows "view_ok (consume t R v)"
proof -
  have "sorted (map slot (filter P xs)) \<and> distinct (map slot (filter P xs))"
    if "sorted (map slot xs)" "distinct (map slot xs)" for P xs
    using that by (simp add: sorted_filter distinct_map_filter)
  with assms show ?thesis by (auto simp: view_ok_def consume_def)
qed

lemma view_ok_distinct: "view_ok v \<Longrightarrow> distinct (view_subscriptions v t)"
  by (auto simp: view_ok_def distinct_map)

lemma view_ok_types: "view_ok v \<Longrightarrow> \<forall>sub\<in>set (view_subscriptions v t). sub_type_id sub = t"
  by (auto simp: view_ok_def)

section \<open>What a request changes\<close>

context ca_store_laws begin

text \<open>A publication consumes some of the eligible one-shot subscriptions and changes nothing else,
  also when it fails half way.\<close>

lemma publish_loop_effect:
  assumes "publish_loop C S ca sender penv t pred val subs ds (store, rng) = (r, (store', rng'))"
    "distinct subs" "set subs \<subseteq> set (view_subscriptions (view store) t)"
    "distinct (view_subscriptions (view store) t)" "\<forall>sub\<in>set subs. sub_type_id sub = t"
  shows "\<exists>R. R \<subseteq> one_shots (filter (eligible (authority_policy ca) (view_environments (view store)) sender penv t pred) subs) \<and>
    view store' = consume t R (view store)"
  using assms
proof (induction subs arbitrary: ds store rng)
  case Nil
  then show ?case by (intro exI [of _ "{}"]) simp
next
  case (Cons sub subs)
  let ?el = "eligible (authority_policy ca) (view_environments (view store)) sender penv t pred"
  let ?loop = "publish_loop C S ca sender penv t pred val subs"
  note run = Cons.prems(1)
  show ?case
  proof (cases "?el sub")
    case False
    have "store' = store \<or> ?loop ds (store, rng) = (r, (store', rng'))"
      using run False
      by (auto simp: eligible_def environment_law tryS_def split: if_splits option.splits sum.splits)
    then show ?thesis
    proof
      assume "store' = store"
      then show ?thesis by (intro exI [of _ "{}"]) simp
    next
      assume "?loop ds (store, rng) = (r, (store', rng'))"
      from Cons.IH [OF this] Cons.prems False show ?thesis by simp
    qed
  next
    case True
    then obtain wanted encoded senv where elig: "subscription_predicate sub t = Inr wanted" "predicate_evaluate wanted penv"
      "view_environments (view store) (sub_subscriber sub) = Some encoded" "parse_stored_environment encoded = Inr senv"
      "predicate_evaluate pred senv" "authorize_delivery (authority_policy ca) sender penv (sub_subscriber sub) senv t"
      by (auto simp: eligible_def split: option.splits sum.splits)
    obtain delivered r1 where d: "delivery C ca sender (sub_subscriber sub) (sub_handler sub) t val
        (public_x25519 (the (view_keys (view store) (sub_subscriber sub)))) rng = (delivered, r1)" by fastforce
    obtain claimed store1 where c: "store_claim_subscription S store sub = (claimed, store1)" by fastforce
    consider (stop) "store' = store" | (failed) e where "claimed = Inl e" "store' = store1"
      | (cont) b frame where "claimed = Inr b" "?loop (if b then ds @ [frame] else ds) (store1, r1) = (r, (store', rng'))"
      using run elig d c
      by (cases "view_keys (view store) (sub_subscriber sub)"; cases delivered; cases claimed)
        (auto simp: environment_law keys_law)
    then show ?thesis
    proof cases
      case stop
      then show ?thesis by (intro exI [of _ "{}"]) simp
    next
      case failed
      then show ?thesis using claim_error c by (intro exI [of _ "{}"]) simp
    next
      case (cont b frame)
      have type: "sub_type_id sub = t" and mem: "sub \<in> set (view_subscriptions (view store) (sub_type_id sub))"
        using Cons.prems by auto
      have claim: "view store1 = consume t (one_shots [sub]) (view store)"
        using claim_consumes [OF mem _ c [unfolded cont(1)]] Cons.prems(4) type by auto
      have "set subs \<subseteq> set (view_subscriptions (view store1) t)" "distinct (view_subscriptions (view store1) t)"
        using Cons.prems by (auto simp: claim)
      with Cons.IH [OF cont(2)] Cons.prems(2,5) claim obtain R where
        "R \<subseteq> one_shots (filter ?el subs)" "view store' = consume t R (view store1)"
        by auto
      with True claim show ?thesis
        by (intro exI [of _ "one_shots [sub] \<union> R"]) auto
    qed
  qed
qed

lemma process_set_environment_effect:
  assumes "process_set_environment S ca sender h plain env (store, rng) = (r, (store', rng'))"
  shows "view store' = (if is_ok r then (view store)\<lparr>view_environments := (view_environments (view store))(sender \<mapsto> plain)\<rparr>
     else view store)"
    and "is_ok r \<Longrightarrow> h = HandlerId_NONE \<and> (\<exists>current. validate_environment (authority_policy ca) sender current env = Inr ())"
  using assms set_environment_law [of store sender plain]
  by (auto simp: process_set_environment_def environment_law tryS_def map_err_def Let_def
      split: if_splits sum.splits prod.splits option.splits)

lemma process_subscribe_effect:
  assumes "process_subscribe S ca sender h plain t kind (store, rng) = (r, (store', rng'))"
  defines "sub \<equiv> \<lparr>sub_subscriber = sender, sub_type_id = t, sub_handler = h, sub_kind = kind, sub_encoded = plain\<rparr>"
  shows "view store' = (if is_ok r then (view store)\<lparr>view_subscriptions := (view_subscriptions (view store))
       (t := upsert sub (view_subscriptions (view store) t))\<rparr> else view store)"
    and "is_ok r \<Longrightarrow> h \<noteq> HandlerId_NONE \<and> validate_stored_environment S ca sender store = Inr ()"
  using assms(1) put_law [of store sub]
  by (auto simp: process_subscribe_def tryS_def Let_def sub_def split: if_splits sum.splits prod.splits)

end

section \<open>Requests\<close>

text \<open>The authentication that comes before any operation.\<close>

definition authentic ::
  "'r crypto \<Rightarrow> 's ca_store \<Rightarrow> 's \<Rightarrow> bytes \<Rightarrow> EnvelopeRef \<Rightarrow> PublicKeys \<Rightarrow> bool" where
  "authentic C S store frame e keys \<longleftrightarrow>
     parse_envelope frame = Inr e \<and> envelope_recipient e = AgentId_CA \<and> envelope_sender e \<noteq> AgentId_CA \<and>
     envelope_message_type e \<noteq> MT_PublicationResponse \<and> store_keys S store (envelope_sender e) = Inr keys \<and>
     ed_key_ok C (public_ed25519 keys) \<and>
     ed_verify_strict C (public_ed25519 keys) (envelope_signed_bytes e) (envelope_signature e)"

lemma process_authentic:
  assumes "authentic C S store frame e keys"
  shows "process C S ca frame now (store, rng) =
    (case store_check_and_mark S store (envelope_sender e) (envelope_session_id e) now of
       (Inl err, store1) \<Rightarrow> (Inl err, (store1, rng))
     | (Inr _, store1) \<Rightarrow>
         (case open_in_place C frame AgentId_CA (envelope_message_type e) (public_ed25519 keys)
            (ca_x25519_secret (authority_keys ca)) of
            Inl err \<Rightarrow> (Inl err, (store1, rng))
          | Inr plain \<Rightarrow>
              (case parse_operation plain of
                 Inl err \<Rightarrow> (Inl err, (store1, rng))
               | Inr op \<Rightarrow> dispatch C S ca (envelope_sender e) (envelope_message_type e) (envelope_handler e)
                   plain op (store1, rng))))"
  using assms
  by (auto simp: process_def authentic_def verify_envelope_signature_def Let_def tryS_def
      split: sum.splits prod.splits)

lemma process_unauthentic:
  assumes "\<not> (\<exists>e keys. authentic C S store frame e keys)"
  shows "snd (process C S ca frame now (store, rng)) = (store, rng) \<and>
    \<not> is_ok (fst (process C S ca frame now (store, rng)))"
  using assms
  by (auto simp: process_def authentic_def verify_envelope_signature_def Let_def tryS_def split: sum.splits)

lemma process_Inr_authentic:
  "process C S ca frame now (store, rng) = (Inr r, st') \<Longrightarrow> \<exists>e keys. authentic C S store frame e keys"
  using process_unauthentic [of C S store frame ca now rng] by fastforce

lemma dispatch_cases:
  "dispatch C S ca sender mt h plain op st =
     (case (mt, op) of (MT_SetEnvironment, Op_SetEnvironment env) \<Rightarrow> process_set_environment S ca sender h plain env st
      | (MT_Subscribe, Op_Subscribe t _) \<Rightarrow> process_subscribe S ca sender h plain t OneShot st
      | (MT_SubscribePermanent, Op_SubscribePermanent t _) \<Rightarrow> process_subscribe S ca sender h plain t Permanent st
      | (MT_Publish, Op_Publish t pred val) \<Rightarrow> process_publish C S ca sender h t pred val st
      | _ \<Rightarrow> (Inl WrongMessageType, st))"
  by (simp add: dispatch_def)

lemma deliveries_case:
  "Inr (Deliveries ds) = (case r of Inl e \<Rightarrow> Inl e | Inr ds \<Rightarrow> Inr (Deliveries ds)) \<longleftrightarrow> r = Inr ds"
  by (cases r) auto

lemma parsed_environment: "parse_operation e = Inr (Op_SetEnvironment env) \<Longrightarrow> is_environment e"
  by (simp add: is_environment_def)

lemma parsed_subscription:
  "parse_operation plain = Inr (Op_Subscribe t p) \<Longrightarrow> kind_of plain t = Some OneShot"
  "parse_operation plain = Inr (Op_SubscribePermanent t p) \<Longrightarrow> kind_of plain t = Some Permanent"
  by (simp_all add: kind_of_def)

context ca_store_laws begin

text \<open>A publication: the publisher's environment is the stored one and still passes the policy.\<close>

lemma process_publish_unfold:
  assumes "process_publish C S ca sender h t pred val (store, rng) = (r, st')"
  shows "(snd (process_publish C S ca sender h t pred val (store, rng)) = (store, rng) \<and> \<not> is_ok r) \<or>
    (\<exists>encoded penv r'. h = HandlerId_NONE \<and> view_environments (view store) sender = Some encoded \<and>
       parse_stored_environment encoded = Inr penv \<and>
       validate_environment (authority_policy ca) sender None penv = Inr () \<and>
       publish_loop C S ca sender penv t pred val (view_subscriptions (view store) t) [] (store, rng) = (r', st') \<and>
       r = (case r' of Inl e \<Rightarrow> Inl e | Inr ds \<Rightarrow> Inr (Deliveries ds)))"
  using assms
  by (auto simp: process_publish_def environment_law subscriptions_law tryS_def map_err_def ok_or_def
      split: if_splits option.splits sum.splits prod.splits)

lemma process_publish_effect:
  assumes "process_publish C S ca sender h t pred val (store, rng) = (r, (store', rng'))" "view_ok (view store)"
  shows "\<exists>R. (\<forall>s\<in>R. sub_kind s = OneShot) \<and> view store' = consume t R (view store)"
  using process_publish_unfold [OF assms(1)]
proof
  assume "snd (process_publish C S ca sender h t pred val (store, rng)) = (store, rng) \<and> \<not> is_ok r"
  with assms(1) show ?thesis by (intro exI [of _ "{}"]) simp
next
  assume "\<exists>encoded penv r'. h = HandlerId_NONE \<and> view_environments (view store) sender = Some encoded \<and>
       parse_stored_environment encoded = Inr penv \<and>
       validate_environment (authority_policy ca) sender None penv = Inr () \<and>
       publish_loop C S ca sender penv t pred val (view_subscriptions (view store) t) [] (store, rng) = (r', (store', rng')) \<and>
       r = (case r' of Inl e \<Rightarrow> Inl e | Inr ds \<Rightarrow> Inr (Deliveries ds))"
  then obtain penv r' where
    "publish_loop C S ca sender penv t pred val (view_subscriptions (view store) t) [] (store, rng) = (r', (store', rng'))"
    by blast
  from publish_loop_effect [OF this view_ok_distinct [OF assms(2)] _ view_ok_distinct [OF assms(2)] view_ok_types [OF assms(2)]]
  show ?thesis by (auto simp: one_shots_def)
qed

text \<open>Every request keeps the view well formed, whatever its result.\<close>

lemma dispatch_view_ok:
  assumes "dispatch C S ca sender mt h plain op (store, rng) = (r, (store', rng'))"
    "view_ok (view store)" "parse_operation plain = Inr op"
  shows "view_ok (view store')"
proof -
  have sub: "view_ok (view store')"
    if "process_subscribe S ca sender h plain t kind (store, rng) = (r, (store', rng'))" "kind_of plain t = Some kind" for t kind
  proof (cases "is_ok r")
    case True
    with process_subscribe_effect [OF that(1)] that(2) assms(2) show ?thesis
      by (auto intro!: view_ok_upsert simp: stored_ok_def)
  qed (use process_subscribe_effect(1) [OF that(1)] assms(2) in simp)
  have env: "view_ok (view store')"
    if "process_set_environment S ca sender h plain env (store, rng) = (r, (store', rng'))" "is_environment plain" for env
    using process_set_environment_effect(1) [OF that(1)] that(2) assms(2) by (auto intro: view_ok_environment)
  have pub: "view_ok (view store')"
    if "process_publish C S ca sender h t pred val (store, rng) = (r, (store', rng'))" for t pred val
    using process_publish_effect [OF that assms(2)] assms(2) by (auto intro: view_ok_consume)
  show ?thesis
    using assms(1,2) parsed_environment [of plain] parsed_subscription [of plain] assms(3)
    by (auto simp: dispatch_def intro: sub env pub split: MessageType.splits OperationRef.splits)
qed

lemma process_view_ok:
  assumes "process C S ca frame now (store, rng) = (r, (store', rng'))" "view_ok (view store)"
  shows "view_ok (view store')"
proof (cases "\<exists>e keys. authentic C S store frame e keys")
  case True
  then obtain e keys where auth: "authentic C S store frame e keys" by blast
  obtain m store1 where m: "store_check_and_mark S store (envelope_sender e) (envelope_session_id e) now = (m, store1)"
    by fastforce
  then have "view_ok (view store1)" using mark_law [of store "envelope_sender e" "envelope_session_id e" now] assms(2) by simp
  with assms(1) m show ?thesis
    unfolding process_authentic [OF auth]
    by (auto intro: dispatch_view_ok split: sum.splits)
next
  case False
  from process_unauthentic [OF this, of ca now rng] assms show ?thesis by simp
qed

text \<open>What an accepted publication did.\<close>

lemma process_published:
  assumes "process C S ca frame now (store, rng) = (Inr (Deliveries ds), (store', rng'))" "view_ok (view store)"
  shows "\<exists>e keys plain t pred val encoded penv. authentic C S store frame e keys \<and>
    open_in_place C frame AgentId_CA MT_Publish (public_ed25519 keys) (ca_x25519_secret (authority_keys ca)) = Inr plain \<and>
    parse_operation plain = Inr (Op_Publish t pred val) \<and>
    view_environments (view store) (envelope_sender e) = Some encoded \<and> parse_stored_environment encoded = Inr penv \<and>
    validate_environment (authority_policy ca) (envelope_sender e) None penv = Inr () \<and>
    (let chosen = filter (eligible (authority_policy ca) (view_environments (view store)) (envelope_sender e) penv t pred)
           (view_subscriptions (view store) t) in
     list_all2 (\<lambda>sub frame. \<exists>rkeys r r'. view_keys (view store) (sub_subscriber sub) = Some rkeys \<and>
        delivery C ca (envelope_sender e) (sub_subscriber sub) (sub_handler sub) t val (public_x25519 rkeys) r = (Inr frame, r'))
       chosen ds \<and>
     view store' = consume t (one_shots chosen) (view store))"
proof -
  obtain e keys where auth: "authentic C S store frame e keys" using process_Inr_authentic [OF assms(1)] by blast
  obtain m store1 where m: "store_check_and_mark S store (envelope_sender e) (envelope_session_id e) now = (m, store1)"
    by fastforce
  have v: "view store1 = view store"
    using mark_law [of store "envelope_sender e" "envelope_session_id e" now] m by simp
  from assms(1) m obtain plain op where plain:
    "open_in_place C frame AgentId_CA (envelope_message_type e) (public_ed25519 keys)
      (ca_x25519_secret (authority_keys ca)) = Inr plain" "parse_operation plain = Inr op"
    and run: "dispatch C S ca (envelope_sender e) (envelope_message_type e) (envelope_handler e) plain op (store1, rng) =
      (Inr (Deliveries ds), (store', rng'))"
    unfolding process_authentic [OF auth] by (auto split: sum.splits)
  have no_env: "process_set_environment S ca a h p x st \<noteq> (Inr (Deliveries ds), st')" for a h p x st st'
    by (auto simp: process_set_environment_def tryS_Inr_iff Let_def split: prod.splits if_splits)
  have no_sub: "process_subscribe S ca a h p t k st \<noteq> (Inr (Deliveries ds), st')" for a h p t k st st'
    by (auto simp: process_subscribe_def tryS_Inr_iff Let_def split: prod.splits if_splits)
  from run obtain t pred val where pub: "envelope_message_type e = MT_Publish" "op = Op_Publish t pred val"
    "process_publish C S ca (envelope_sender e) (envelope_handler e) t pred val (store1, rng) =
      (Inr (Deliveries ds), (store', rng'))"
    by (auto simp: dispatch_def no_env no_sub split: MessageType.splits OperationRef.splits)
  from process_publish_unfold [OF pub(3)] obtain encoded penv where loop:
    "view_environments (view store) (envelope_sender e) = Some encoded" "parse_stored_environment encoded = Inr penv"
    "validate_environment (authority_policy ca) (envelope_sender e) None penv = Inr ()"
    "publish_loop C S ca (envelope_sender e) penv t pred val (view_subscriptions (view store) t) [] (store1, rng) =
      (Inr ds, (store', rng'))"
    by (auto simp: v deliveries_case)
  from publish_loop_exact [OF loop(4)] view_ok_distinct [OF assms(2), of t] view_ok_types [OF assms(2), of t]
  show ?thesis
    using auth plain pub(1,2) loop(1-3) unfolding v Let_def by (auto intro!: exI)
qed

end

section \<open>Replay protection across requests\<close>

text \<open>The store contract with its replay memory: only \<open>check_and_mark\<close> changes it, it remembers what
  it accepted until the entry expires, and it refuses what it remembers.\<close>

locale ca_store_replay = ca_store_laws S view
  for S :: "'s ca_store" and view :: "'s \<Rightarrow> store_view" +
  fixes seen :: "'s \<Rightarrow> replay_map" and ttl :: "'s \<Rightarrow> u64" and inv :: "'s \<Rightarrow> bool"
  assumes seen_set_environment: "seen (snd (store_set_environment S s a e)) = seen s"
    and seen_put: "seen (snd (store_put_subscription S s sub)) = seen s"
    and seen_claim: "seen (snd (store_claim_subscription S s sub)) = seen s"
    and inv_set_environment: "inv s \<Longrightarrow> inv (snd (store_set_environment S s a e))"
    and inv_put: "inv s \<Longrightarrow> inv (snd (store_put_subscription S s sub))"
    and inv_claim: "inv s \<Longrightarrow> inv (snd (store_claim_subscription S s sub))"
    and inv_mark: "inv s \<Longrightarrow> inv (snd (store_check_and_mark S s a i now))"
    and mark_accepts: "inv s \<Longrightarrow> fst (store_check_and_mark S s a i now) = Inr () \<Longrightarrow>
      seen (snd (store_check_and_mark S s a i now)) (a, i) = Some (saturating_add now (ttl s))"
    and mark_refuses: "inv s \<Longrightarrow> seen s (a, i) = Some x \<Longrightarrow> now < x \<Longrightarrow> fst (store_check_and_mark S s a i now) = Inl Replay"
    and mark_keeps: "inv s \<Longrightarrow> seen s k = Some x \<Longrightarrow> now < x \<Longrightarrow> seen (snd (store_check_and_mark S s a i now)) k = Some x"
begin

text \<open>What every step after the mark leaves alone.\<close>

definition same_memory :: "'s \<Rightarrow> 's \<Rightarrow> bool" where
  "same_memory s s' \<longleftrightarrow> seen s' = seen s \<and> (inv s \<longrightarrow> inv s') \<and> view_keys (view s') = view_keys (view s)"

lemma same_memory_refl [simp]: "same_memory s s"
  by (simp add: same_memory_def)

lemma same_memory_trans: "same_memory s s1 \<Longrightarrow> same_memory s1 s2 \<Longrightarrow> same_memory s s2"
  by (simp add: same_memory_def)

lemma same_memory_ops:
  "same_memory s (snd (store_set_environment S s a e))"
  "same_memory s (snd (store_put_subscription S s sub))"
  "same_memory s (snd (store_claim_subscription S s sub))"
  by (simp_all add: same_memory_def seen_set_environment seen_put seen_claim inv_set_environment inv_put inv_claim
      set_environment_law put_law claim_law)

lemma publish_loop_memory:
  "same_memory s (fst (snd (publish_loop C S ca sender penv t pred val subs ds (s, rng))))"
proof (induction subs arbitrary: ds s rng)
  case (Cons sub subs)
  let ?loop = "publish_loop C S ca sender penv t pred val subs"
  obtain claimed s1 where c: "store_claim_subscription S s sub = (claimed, s1)" by fastforce
  have claim: "same_memory s s1" using same_memory_ops(3) [of s sub] c by simp
  obtain delivered r1 where d: "delivery C ca sender (sub_subscriber sub) (sub_handler sub) t val
      (public_x25519 (the (view_keys (view s) (sub_subscriber sub)))) rng = (delivered, r1)" by fastforce
  have "same_memory s (fst (snd (?loop ds' (s1, r1))))" for ds'
    using same_memory_trans [OF claim Cons.IH] .
  with Cons.IH claim c d show ?case
    by (cases "view_keys (view s) (sub_subscriber sub)"; cases delivered; cases claimed)
      (auto simp: environment_law keys_law tryS_def split: sum.splits option.splits)
qed simp

lemma dispatch_memory: "same_memory s (fst (snd (dispatch C S ca sender mt h plain op (s, rng))))"
proof -
  have "same_memory s (fst (snd (process_set_environment S ca sender h plain env (s, rng))))" for env
    using same_memory_ops(1) [of s sender plain]
    by (auto simp: process_set_environment_def Let_def tryS_def split: sum.splits prod.splits)
  moreover have "same_memory s (fst (snd (process_subscribe S ca sender h plain t k (s, rng))))" for t k
    using same_memory_ops(2) [of s]
    by (auto simp: process_subscribe_def Let_def tryS_def split: sum.splits prod.splits) (metis snd_conv)+
  moreover have "same_memory s (fst (snd (process_publish C S ca sender h t pred val (s, rng))))" for t pred val
  proof -
    obtain r s' rng' where run: "process_publish C S ca sender h t pred val (s, rng) = (r, (s', rng'))"
      by (metis prod.exhaust)
    from process_publish_unfold [OF run] consider "s' = s" | penv r'' where
      "publish_loop C S ca sender penv t pred val (view_subscriptions (view s) t) [] (s, rng) = (r'', (s', rng'))"
      using run by auto
    then show ?thesis
    proof cases
      case 2
      with publish_loop_memory [of s C ca sender penv t pred val "view_subscriptions (view s) t" "[]" rng] run
      show ?thesis by simp
    qed (use run in simp)
  qed
  ultimately show ?thesis by (auto simp: dispatch_def split: MessageType.splits OperationRef.splits)
qed

lemma dispatch_memory_run:
  "dispatch C S ca sender mt h plain op (s, rng) = (r, (s', rng')) \<Longrightarrow> same_memory s s'"
  using dispatch_memory [of s C ca sender mt h plain op rng] by simp

lemma process_memory:
  assumes "inv s" "process C S ca frame now (s, rng) = (r, (s', rng'))"
  shows "inv s' \<and> view_keys (view s') = view_keys (view s) \<and>
    (\<forall>k x. seen s k = Some x \<longrightarrow> now < x \<longrightarrow> seen s' k = Some x)"
proof (cases "\<exists>e keys. authentic C S s frame e keys")
  case True
  then obtain e keys where auth: "authentic C S s frame e keys" by blast
  obtain m s1 where m: "store_check_and_mark S s (envelope_sender e) (envelope_session_id e) now = (m, s1)" by fastforce
  have "same_memory s1 s'"
    using assms(2) m unfolding process_authentic [OF auth]
    by (auto split: sum.splits dest: dispatch_memory_run)
  moreover have "inv s1" "view s1 = view s" "\<forall>k x. seen s k = Some x \<longrightarrow> now < x \<longrightarrow> seen s1 k = Some x"
    using inv_mark [OF assms(1)] mark_law mark_keeps [OF assms(1)] m by (metis snd_conv)+
  ultimately show ?thesis by (auto simp: same_memory_def)
next
  case False
  from process_unauthentic [OF this, of ca now rng] assms show ?thesis by simp
qed

text \<open>Other requests, each with its own frame, clock reading and random source.\<close>

lemma processes_memory:
  assumes "inv s" "\<forall>(frame, t, rng)\<in>set requests. t < x" "seen s k = Some x"
  shows "let s' = fold (\<lambda>(frame, t, rng) s. fst (snd (process C S ca frame t (s, rng)))) requests s in
    inv s' \<and> view_keys (view s') = view_keys (view s) \<and> seen s' k = Some x"
  using assms
proof (induction requests arbitrary: s)
  case (Cons request requests)
  obtain frame t rng where [simp]: "request = (frame, t, rng)" by (metis prod.exhaust)
  obtain r s1 rng1 where run: "process C S ca frame t (s, rng) = (r, (s1, rng1))" by (metis prod.exhaust)
  from process_memory [OF Cons.prems(1) run] Cons.prems have "inv s1" "view_keys (view s1) = view_keys (view s)" "seen s1 k = Some x"
    by (cases k; auto)+
  with Cons.IH [of s1] Cons.prems(2) run show ?case by (simp add: Let_def)
qed simp

lemma process_no_replay:
  assumes "inv s" "process C S ca frame now (s, rng) = (Inr r, (s1, rng1))"
    "\<forall>(frame, t, rng)\<in>set requests. t < saturating_add now (ttl s)" "later < saturating_add now (ttl s)"
  shows "fst (process C S ca frame later
    (fold (\<lambda>(frame, t, rng) s. fst (snd (process C S ca frame t (s, rng)))) requests s1, rng2)) = Inl Replay"
proof -
  let ?x = "saturating_add now (ttl s)"
  let ?s2 = "fold (\<lambda>(frame, t, rng) s. fst (snd (process C S ca frame t (s, rng)))) requests s1"
  obtain e keys where auth: "authentic C S s frame e keys" using process_Inr_authentic [OF assms(2)] by blast
  let ?k = "(envelope_sender e, envelope_session_id e)"
  obtain m sm where m: "store_check_and_mark S s (envelope_sender e) (envelope_session_id e) now = (m, sm)" by fastforce
  with assms(2) have ok: "m = Inr ()" unfolding process_authentic [OF auth] by (cases m) auto
  have sm: "inv sm" "seen sm ?k = Some ?x" "view sm = view s"
    using inv_mark [OF assms(1)] mark_accepts [OF assms(1)] mark_law m ok by (metis fst_conv snd_conv)+
  have "same_memory sm s1"
    using assms(2) m ok unfolding process_authentic [OF auth]
    by (auto split: sum.splits dest: dispatch_memory_run)
  with sm have s1: "inv s1" "seen s1 ?k = Some ?x" "view_keys (view s1) = view_keys (view s)"
    by (auto simp: same_memory_def)
  from processes_memory [OF s1(1) assms(3) s1(2), of C ca] have s2:
    "inv ?s2" "view_keys (view ?s2) = view_keys (view s)" "seen ?s2 ?k = Some ?x"
    by (simp_all add: Let_def s1(3))
  have auth2: "authentic C S ?s2 frame e keys" using auth s2(2) by (simp add: authentic_def keys_law)
  obtain m3 s3 where "store_check_and_mark S ?s2 (envelope_sender e) (envelope_session_id e) later = (m3, s3)" by fastforce
  with mark_refuses [OF s2(1,3) assms(4)] show ?thesis
    by (simp add: process_authentic [OF auth2])
qed

end

interpretation mem_replay: ca_store_replay memory_store mem_view
  "\<lambda>s. cache_remembered (mem_replay s)" "\<lambda>s. cache_ttl_seconds (mem_replay s)" "\<lambda>s. cache_inv (mem_replay s)"
  by unfold_locales
    (auto simp: memory_store_def mem_set_environment_def mem_put_subscription_def mem_claim_subscription_def
      mem_check_and_mark_def Let_def case_prod_unfold cache.inv_mark cache.accepted_remembered cache.remembered_refused
      cache.remembered_kept split: option.splits)

text \<open>A failing commit leaves the memory as it was, so the law also holds when the disk does not work.\<close>

lemma ps_replay_try:
  "(\<And>x. state_replay (ps_state (snd (k x s))) = state_replay (ps_state s)) \<Longrightarrow>
     state_replay (ps_state (snd (tryS (r, s) k))) = state_replay (ps_state s)"
  by (cases r) simp_all

lemma ps_replay_claimed:
  "state_replay st = state_replay (ps_state s) \<Longrightarrow>
     state_replay (ps_state (snd (tryS (ps_commit s st) (\<lambda>_ s. (Inr (b :: bool), s))))) = state_replay (ps_state s)"
  using ps_commit_state(1) [of s st] by (auto simp: tryS_def split: prod.splits sum.splits if_splits)

lemma ps_mark_replay:
  "state_replay (ps_state (snd (ps_check_and_mark s a i now))) =
     (if is_ok (fst (ps_check_and_mark s a i now))
      then snd (cache_check_and_mark (state_replay (ps_state s)) a i now) else state_replay (ps_state s))"
  "fst (ps_check_and_mark s a i now) = Inr () \<Longrightarrow>
     fst (cache_check_and_mark (state_replay (ps_state s)) a i now) = Inr ()"
  "fst (cache_check_and_mark (state_replay (ps_state s)) a i now) = Inl e \<Longrightarrow> fst (ps_check_and_mark s a i now) = Inl e"
  by (cases "cache_check_and_mark (state_replay (ps_state s)) a i now";
      cases "fst (cache_check_and_mark (state_replay (ps_state s)) a i now)";
      simp add: ps_check_and_mark_def ps_commit_state)+

lemma ps_replay_kept:
  "state_replay (ps_state (snd (ps_set_environment s a e))) = state_replay (ps_state s)"
  "state_replay (ps_state (snd (ps_put_subscription s sub))) = state_replay (ps_state s)"
  "state_replay (ps_state (snd (ps_claim_subscription s sub))) = state_replay (ps_state s)"
  by (auto simp: ps_set_environment_def ps_put_subscription_def ps_claim_subscription_def Let_def case_prod_unfold
      ps_commit_state intro!: ps_replay_try ps_replay_claimed split: option.splits)

interpretation ps_replay: ca_store_replay persistent_store ps_view
  "\<lambda>s. cache_remembered (state_replay (ps_state s))" "\<lambda>s. cache_ttl_seconds (state_replay (ps_state s))"
  "\<lambda>s. cache_inv (state_replay (ps_state s))"
  by unfold_locales
    (auto simp: persistent_store_def ps_replay_kept ps_mark_replay cache.inv_mark cache.accepted_remembered
      cache.remembered_refused cache.remembered_kept)

end
