(* ===== verification/Capacity.thy ===== *)
theory Capacity
  imports Authority
begin

text \<open>
  The capacity contract between the stores and the authority: no type ever has more subscriptions
  than the configured limit, so no publication gives more deliveries than that. The CA daemon
  sizes the link's delivery window by it.
\<close>

locale ca_store_limit = ca_store_laws S view
  for S :: "'s ca_store" and view :: "'s \<Rightarrow> store_view" +
  fixes limit :: "'s \<Rightarrow> nat" and within :: "'s \<Rightarrow> bool"
  assumes within_bound: "within s \<Longrightarrow> length (view_subscriptions (view s) t) \<le> limit s"
    and limit_ops: "limit (snd (store_set_environment S s a e)) = limit s"
      "limit (snd (store_put_subscription S s sub)) = limit s" "limit (snd (store_claim_subscription S s sub)) = limit s"
      "limit (snd (store_check_and_mark S s a i now)) = limit s"
    and within_ops: "within s \<Longrightarrow> within (snd (store_set_environment S s a e))"
      "within s \<Longrightarrow> within (snd (store_put_subscription S s sub))"
      "within s \<Longrightarrow> within (snd (store_claim_subscription S s sub))"
      "within s \<Longrightarrow> within (snd (store_check_and_mark S s a i now))"
begin

definition kept :: "'s \<Rightarrow> 's \<Rightarrow> bool" where
  "kept s s' \<longleftrightarrow> limit s' = limit s \<and> (within s \<longrightarrow> within s')"

lemma kept_refl [simp]: "kept s s"
  by (simp add: kept_def)

lemma kept_trans: "kept s s1 \<Longrightarrow> kept s1 s2 \<Longrightarrow> kept s s2"
  by (simp add: kept_def)

lemma kept_ops:
  "kept s (snd (store_set_environment S s a e))" "kept s (snd (store_put_subscription S s sub))"
  "kept s (snd (store_claim_subscription S s sub))" "kept s (snd (store_check_and_mark S s a i now))"
  by (simp_all add: kept_def limit_ops within_ops)

lemma publish_loop_kept:
  "kept s (fst (snd (publish_loop C S ca sender penv t pred val subs ds (s, rng)))) \<and>
   (\<forall>ds'. fst (publish_loop C S ca sender penv t pred val subs ds (s, rng)) = Inr ds' \<longrightarrow> length ds' \<le> length ds + length subs)"
proof (induction subs arbitrary: ds s rng)
  case (Cons sub subs)
  let ?loop = "publish_loop C S ca sender penv t pred val subs"
  obtain claimed s1 where c: "store_claim_subscription S s sub = (claimed, s1)" by fastforce
  have claim: "kept s s1" using kept_ops(3) [of s sub] c by simp
  obtain delivered r1 where d: "delivery C ca sender (sub_subscriber sub) (sub_handler sub) t val
      (public_x25519 (the (view_keys (view s) (sub_subscriber sub)))) rng = (delivered, r1)" by fastforce
  have "kept s (fst (snd (?loop ds' (s1, r1))))" for ds'
    using Cons.IH kept_trans [OF claim] by blast
  moreover have "length ds'' \<le> Suc (length ds + length subs)"
    if "fst (?loop ds' (s', r')) = Inr ds''" "length ds' \<le> Suc (length ds)" for ds' ds'' s' r'
    using that Cons.IH [of s' ds' r'] by force
  ultimately show ?case
    using Cons.IH claim c d
    by (cases "view_keys (view s) (sub_subscriber sub)"; cases delivered; cases claimed)
      (auto simp: environment_law keys_law tryS_def split: sum.splits option.splits)
qed simp

text \<open>A request keeps the bound, and a publication gives at most \<open>limit\<close> deliveries.\<close>

lemma dispatch_kept:
  assumes "dispatch C S ca sender mt h plain op (s, rng) = (r, (s', rng'))"
  shows "kept s s' \<and> (within s \<longrightarrow> (\<forall>ds. r = Inr (Deliveries ds) \<longrightarrow> length ds \<le> limit s))"
proof -
  have "kept s (fst (snd (process_set_environment S ca sender h env e (s, rng)))) \<and>
      (\<forall>ds. fst (process_set_environment S ca sender h env e (s, rng)) \<noteq> Inr (Deliveries ds))" for env e
    using kept_ops(1) [of s sender env]
    by (auto simp: process_set_environment_def Let_def tryS_def split: sum.splits prod.splits)
  moreover have "kept s (fst (snd (process_subscribe S ca sender h plain t k (s, rng)))) \<and>
      (\<forall>ds. fst (process_subscribe S ca sender h plain t k (s, rng)) \<noteq> Inr (Deliveries ds))" for t k
    using kept_ops(2) [of s]
    by (auto simp: process_subscribe_def Let_def tryS_def split: sum.splits prod.splits) (metis snd_conv)+
  moreover have "kept s (fst (snd (process_publish C S ca sender h t pred val (s, rng)))) \<and>
      (within s \<longrightarrow> (\<forall>ds. fst (process_publish C S ca sender h t pred val (s, rng)) = Inr (Deliveries ds) \<longrightarrow> length ds \<le> limit s))"
    for t pred val
  proof -
    obtain r s' rng' where run: "process_publish C S ca sender h t pred val (s, rng) = (r, (s', rng'))"
      by (metis prod.exhaust)
    from process_publish_unfold [OF run] consider "s' = s" "\<not> is_ok r" | penv r'' where
      "publish_loop C S ca sender penv t pred val (view_subscriptions (view s) t) [] (s, rng) = (r'', (s', rng'))"
      "r = (case r'' of Inl e \<Rightarrow> Inl e | Inr ds \<Rightarrow> Inr (Deliveries ds))"
      using run by auto
    then show ?thesis
    proof cases
      case 2
      with publish_loop_kept [of s C ca sender penv t pred val "view_subscriptions (view s) t" "[]" rng] run
        within_bound [of s t] show ?thesis by (auto intro: le_trans split: sum.splits)
    qed (use run in auto)
  qed
  ultimately show ?thesis
    using assms by (auto simp: dispatch_def split: MessageType.splits OperationRef.splits) (metis fst_conv snd_conv)+
qed

lemma process_kept:
  assumes "process C S ca frame now (s, rng) = (r, (s', rng'))"
  shows "kept s s' \<and> (within s \<longrightarrow> (\<forall>ds. r = Inr (Deliveries ds) \<longrightarrow> length ds \<le> limit s))"
proof (cases "\<exists>e keys. authentic C S s frame e keys")
  case True
  then obtain e keys where auth: "authentic C S s frame e keys" by blast
  obtain m s1 where m: "store_check_and_mark S s (envelope_sender e) (envelope_session_id e) now = (m, s1)" by fastforce
  then have mark: "kept s s1" using kept_ops(4) [of s] by (metis snd_conv)
  show ?thesis
    using assms m mark unfolding process_authentic [OF auth]
    by (auto split: sum.splits dest!: dispatch_kept elim: kept_trans simp: kept_def)
next
  case False
  from process_unauthentic [OF this, of ca now rng] assms show ?thesis by auto
qed

end

section \<open>The persistent store\<close>

definition ps_within :: "PersistentStore \<Rightarrow> bool" where
  "ps_within s \<longleftrightarrow> bt_wf (state_subscriptions (ps_state s)) \<and>
     subscription_count (state_subscriptions (ps_state s)) \<le> limit_subscriptions (ps_limits s)"

lemma bucket_of_count: "bt_wf m \<Longrightarrow> length (bucket_of m t) \<le> subscription_count m"
  using subscription_count_insert [of m t "[]"] by simp

lemma ps_commit_within:
  "ps_within s \<Longrightarrow> bt_wf (state_subscriptions st) \<Longrightarrow>
     subscription_count (state_subscriptions st) \<le> limit_subscriptions (ps_limits s) \<Longrightarrow> ps_within (snd (ps_commit s st))"
  by (simp add: ps_within_def ps_commit_state)

lemma ps_within_put: "ps_within s \<Longrightarrow> ps_within (snd (ps_put_subscription s sub))"
proof -
  assume s: "ps_within s"
  obtain r m where u: "upsert_subscription (limit_subscriptions (ps_limits s)) sub (state_subscriptions (ps_state s)) = (r, m)"
    by fastforce
  from upsert_subscription_wf [OF u] s ps_commit_within [OF s, of "(ps_state s)\<lparr>state_subscriptions := m\<rparr>"] u show ?thesis
    by (cases r) (auto simp: ps_put_subscription_def ps_within_def Let_def)
qed

lemma ps_within_claim: "ps_within s \<Longrightarrow> ps_within (snd (ps_claim_subscription s sub))"
proof -
  assume s: "ps_within s"
  let ?m = "state_subscriptions (ps_state s)" and ?t = "sub_type_id sub"
  let ?m' = "bt_insert ?t (remove1 sub (bucket_of ?m ?t)) ?m"
  have "subscription_count ?m' + length (bucket_of ?m ?t) = subscription_count ?m + length (remove1 sub (bucket_of ?m ?t))"
    using s subscription_count_insert by (simp add: ps_within_def)
  moreover have "length (remove1 sub (bucket_of ?m ?t)) \<le> length (bucket_of ?m ?t)" by (simp add: length_remove1)
  ultimately have "ps_within (snd (ps_commit s ((ps_state s)\<lparr>state_subscriptions := ?m'\<rparr>)))"
    using s by (intro ps_commit_within) (auto simp: ps_within_def)
  with s show ?thesis
    by (auto simp: ps_claim_subscription_def bucket_of_def Let_def tryS_def split: prod.splits sum.splits option.splits)
qed

lemma ps_limits_ops:
  "ps_limits (snd (ps_set_environment s a e)) = ps_limits s" "ps_limits (snd (ps_put_subscription s sub)) = ps_limits s"
  "ps_limits (snd (ps_claim_subscription s sub)) = ps_limits s" "ps_limits (snd (ps_check_and_mark s a i now)) = ps_limits s"
  "ps_limits (snd (reconcile_agents s cfg)) = ps_limits s"
  using ps_limits_call [of "Call_set_environment a e" s] ps_limits_call [of "Call_put sub" s]
    ps_limits_call [of "Call_claim sub" s] ps_limits_call [of "Call_mark a i now" s] ps_limits_call [of "Call_reconcile cfg" s]
  by simp_all

lemma ps_within_same:
  "state_subscriptions (ps_state s') = state_subscriptions (ps_state s) \<Longrightarrow> ps_limits s' = ps_limits s \<Longrightarrow> ps_within s' = ps_within s"
  by (simp add: ps_within_def)

interpretation ps_limit: ca_store_limit persistent_store ps_view "\<lambda>s. limit_subscriptions (ps_limits s)" ps_within
proof unfold_locales
  fix s t assume "ps_within s"
  then show "length (view_subscriptions (ps_view s) t) \<le> limit_subscriptions (ps_limits s)"
    using bucket_of_count [of "state_subscriptions (ps_state s)" t] by (simp add: ps_within_def ps_view_def)
next
  fix s a e i now sub
  have env: "state_subscriptions (ps_state (snd (ps_set_environment s a e))) = state_subscriptions (ps_state s)"
    by (auto simp: ps_set_environment_def Let_def ps_commit_state)
  have mark: "state_subscriptions (ps_state (snd (ps_check_and_mark s a i now))) = state_subscriptions (ps_state s)"
    by (cases "cache_check_and_mark (state_replay (ps_state s)) a i now";
        cases "fst (cache_check_and_mark (state_replay (ps_state s)) a i now)")
      (simp_all add: ps_check_and_mark_def ps_commit_state)
  assume "ps_within s"
  then show "ps_within (snd (store_set_environment persistent_store s a e))"
    "ps_within (snd (store_put_subscription persistent_store s sub))"
    "ps_within (snd (store_claim_subscription persistent_store s sub))"
    "ps_within (snd (store_check_and_mark persistent_store s a i now))"
    using ps_within_same [OF env ps_limits_ops(1)] ps_within_same [OF mark ps_limits_ops(4)]
    by (simp_all add: persistent_store_def ps_within_put ps_within_claim)
qed (simp_all add: persistent_store_def ps_limits_ops)

lemma ps_within_reconcile:
  assumes "ps_within s"
  shows "ps_within (snd (reconcile_agents s cfg))"
proof -
  have "bt_wf (bt_retain P (map (\<lambda>(t, b). (t, filter Q b)) m)) \<and>
      subscription_count (bt_retain P (map (\<lambda>(t, b). (t, filter Q b)) m)) \<le> limit_subscriptions (ps_limits s)"
    if "m = state_subscriptions (ps_state s)" for P Q m
    using that assms subscription_count_filter [of P Q m] bt.wf_retain [OF map_bucket_wf [of m Q], of P] by (auto simp: ps_within_def)
  with assms show ?thesis
    by (cases "reconcile_keys cfg bt_empty")
      (auto simp: reconcile_agents_def Let_def intro!: ps_commit_within)
qed

lemma ps_open_within:
  assumes "ps_open read_fault faults files limits = Inr s"
  shows "ps_within s" "ps_limits s = limits"
  using assms decode_state_wf(1) [of _ limits]
  by (auto simp: ps_open_def tryE_Inr_iff ps_within_def state_wf_def bt_wf_def subscription_count_def bt_empty_def split: option.splits)

end
