(* ===== verification/Cad.thy ===== *)
theory Cad
  imports Capacity Link
begin

text \<open>
  The CA daemon, \<open>cad/src/main.rs\<close>: its configuration, the challenge-response handshake of the
  link, and the session with the broker. A turn of the session's \<open>select!\<close> is a function on the
  daemon's state: it returns the state, the frames it sends and how the loop goes on. Every
  turn changes its state before it sends, so a send that fails ends the connection in the state
  returned. Files, the hex decoder, the clock, the link identifiers and SHA-256 are parameters.
\<close>

section \<open>Configuration\<close>

datatype ConfigError = Hex_error | Length_error | Policy_error EnvironmentPolicyError | Store_error Error
  | File_error | Deliveries_error

record Limits =
  cfg_agents :: "usize option"
  cfg_environments :: "usize option"
  cfg_subscriptions :: "usize option"
  cfg_replays :: "usize option"
  cfg_replay_ttl_seconds :: "u64 option"

definition unwrap_or :: "'a option \<Rightarrow> 'a \<Rightarrow> 'a" where
  "unwrap_or x d = (case x of None \<Rightarrow> d | Some y \<Rightarrow> y)"

definition Limits_resolve :: "Limits \<Rightarrow> StoreLimits" where
  "Limits_resolve l =
     (let defaults = StoreLimits_default in
      \<lparr>limit_agents = unwrap_or (cfg_agents l) (limit_agents defaults),
       limit_environments = unwrap_or (cfg_environments l) (limit_environments defaults),
       limit_subscriptions = unwrap_or (cfg_subscriptions l) (limit_subscriptions defaults),
       limit_replays = unwrap_or (cfg_replays l) (limit_replays defaults),
       limit_replay_ttl_seconds = unwrap_or (cfg_replay_ttl_seconds l) (limit_replay_ttl_seconds defaults)\<rparr>)"

datatype ConfiguredValue = Cfg_Bool bool | Cfg_I64 i64 | Cfg_Bytes bytes | Cfg_Hex bytes

record cfg_attribute =
  cfg_id :: u16
  cfg_kind :: AttributeType
  cfg_authority :: AttributeAuthority
  cfg_allowed :: "ConfiguredValue list"

record cfg_approval =
  cfg_agent :: bytes
  cfg_approved_attribute :: u16
  cfg_value :: ConfiguredValue

record cfg_isolation =
  cfg_isolated_type :: u32
  cfg_isolated_attributes :: "u16 list"

record cfg_requirement =
  cfg_required_type :: u32
  cfg_required_attribute :: u16
  cfg_values :: "ConfiguredValue list"

record PolicyConfig =
  cfg_attributes :: "cfg_attribute list"
  cfg_approvals :: "cfg_approval list"
  cfg_isolations :: "cfg_isolation list"
  cfg_requirements :: "cfg_requirement list"

text \<open>\<open>hex\<close> is \<open>hex::decode\<close> on the bytes of the text.\<close>

definition decode_hex :: "(bytes \<Rightarrow> bytes option) \<Rightarrow> bytes \<Rightarrow> ConfigError + 'a::len word" where
  "decode_hex hex text = tryE (ok_or (hex text) Hex_error) (\<lambda>bs. ok_or (try_into_array bs) Length_error)"

fun configured_value :: "(bytes \<Rightarrow> bytes option) \<Rightarrow> ConfiguredValue \<Rightarrow> ConfigError + AttributeValue" where
  "configured_value hex (Cfg_Bool b) = Inr (Attr_Bool b)"
| "configured_value hex (Cfg_I64 i) = Inr (Attr_I64 i)"
| "configured_value hex (Cfg_Bytes bs) = map_err Policy_error (AttributeValue_bytes bs)"
| "configured_value hex (Cfg_Hex text) =
     tryE (ok_or (hex text) Hex_error) (\<lambda>bs. map_err Policy_error (AttributeValue_bytes bs))"

text \<open>\<open>?\<close> on a configuration call: the policy of a failed call is dropped with the error.\<close>

definition config_step :: "configured \<Rightarrow> ConfigError + StaticEnvironmentPolicy" where
  "config_step c = (case c of (Inl e, _) \<Rightarrow> Inl (Policy_error e) | (Inr _, policy) \<Rightarrow> Inr policy)"

fun build_allowed ::
  "(bytes \<Rightarrow> bytes option) \<Rightarrow> u16 \<Rightarrow> ConfiguredValue list \<Rightarrow> StaticEnvironmentPolicy \<Rightarrow> ConfigError + StaticEnvironmentPolicy" where
  "build_allowed hex i [] policy = Inr policy"
| "build_allowed hex i (allowed # rest) policy =
     tryE (configured_value hex allowed) (\<lambda>v.
     tryE (config_step (allow_value policy (AttributeId i) v)) (\<lambda>policy. build_allowed hex i rest policy))"

fun build_attributes ::
  "(bytes \<Rightarrow> bytes option) \<Rightarrow> cfg_attribute list \<Rightarrow> StaticEnvironmentPolicy \<Rightarrow> ConfigError + StaticEnvironmentPolicy" where
  "build_attributes hex [] policy = Inr policy"
| "build_attributes hex (rule # rest) policy =
     tryE (config_step
       (case cfg_authority rule of
          SelfDeclared \<Rightarrow> register_self_declared policy (AttributeId (cfg_id rule)) (cfg_kind rule)
        | CaIssued \<Rightarrow> register_ca_issued policy (AttributeId (cfg_id rule)) (cfg_kind rule))) (\<lambda>policy.
     tryE (build_allowed hex (cfg_id rule) (cfg_allowed rule) policy) (\<lambda>policy.
     build_attributes hex rest policy))"

fun build_approvals ::
  "(bytes \<Rightarrow> bytes option) \<Rightarrow> cfg_approval list \<Rightarrow> StaticEnvironmentPolicy \<Rightarrow> ConfigError + StaticEnvironmentPolicy" where
  "build_approvals hex [] policy = Inr policy"
| "build_approvals hex (approval # rest) policy =
     tryE (decode_hex hex (cfg_agent approval)) (\<lambda>agent.
     tryE (configured_value hex (cfg_value approval)) (\<lambda>v.
     tryE (config_step (approve policy (AgentId agent) (AttributeId (cfg_approved_attribute approval)) v)) (\<lambda>policy.
     build_approvals hex rest policy)))"

fun build_isolations :: "cfg_isolation list \<Rightarrow> StaticEnvironmentPolicy \<Rightarrow> ConfigError + StaticEnvironmentPolicy" where
  "build_isolations [] policy = Inr policy"
| "build_isolations (isolation # rest) policy =
     tryE (config_step (isolate policy (TypeId (cfg_isolated_type isolation))
       (map AttributeId (cfg_isolated_attributes isolation)))) (\<lambda>policy. build_isolations rest policy)"

fun build_required ::
  "(bytes \<Rightarrow> bytes option) \<Rightarrow> u32 \<Rightarrow> u16 \<Rightarrow> ConfiguredValue list \<Rightarrow> StaticEnvironmentPolicy \<Rightarrow> ConfigError + StaticEnvironmentPolicy" where
  "build_required hex t i [] policy = Inr policy"
| "build_required hex t i (allowed # rest) policy =
     tryE (configured_value hex allowed) (\<lambda>v.
     tryE (config_step (allow_subscriber_value policy (TypeId t) (AttributeId i) v)) (\<lambda>policy.
     build_required hex t i rest policy))"

fun build_requirements ::
  "(bytes \<Rightarrow> bytes option) \<Rightarrow> cfg_requirement list \<Rightarrow> StaticEnvironmentPolicy \<Rightarrow> ConfigError + StaticEnvironmentPolicy" where
  "build_requirements hex [] policy = Inr policy"
| "build_requirements hex (requirement # rest) policy =
     tryE (build_required hex (cfg_required_type requirement) (cfg_required_attribute requirement)
             (cfg_values requirement) policy) (\<lambda>policy. build_requirements hex rest policy)"

definition build_policy :: "(bytes \<Rightarrow> bytes option) \<Rightarrow> PolicyConfig \<Rightarrow> ConfigError + StaticEnvironmentPolicy" where
  "build_policy hex config =
     tryE (build_attributes hex (cfg_attributes config) StaticEnvironmentPolicy_new) (\<lambda>policy.
     tryE (build_approvals hex (cfg_approvals config) policy) (\<lambda>policy.
     tryE (build_isolations (cfg_isolations config) policy) (\<lambda>policy.
     build_requirements hex (cfg_requirements config) policy)))"

record AgentEntry =
  entry_id :: bytes
  entry_ed25519_public_file :: string
  entry_x25519_public_file :: string

text \<open>\<open>read\<close> is \<open>read_hex_file\<close> on the file system.\<close>

fun configured_agents ::
  "(bytes \<Rightarrow> bytes option) \<Rightarrow> (string \<Rightarrow> ConfigError + array32) \<Rightarrow> AgentEntry list \<Rightarrow> ConfigError + (AgentId \<times> PublicKeys) list" where
  "configured_agents hex read [] = Inr []"
| "configured_agents hex read (entry # rest) =
     tryE (decode_hex hex (entry_id entry)) (\<lambda>agent.
     tryE (read (entry_ed25519_public_file entry)) (\<lambda>ed25519.
     tryE (read (entry_x25519_public_file entry)) (\<lambda>x25519.
     tryE (configured_agents hex read rest) (\<lambda>agents.
     Inr ((AgentId agent, \<lparr>public_ed25519 = ed25519, public_x25519 = x25519\<rparr>) # agents)))))"

section \<open>The handshake\<close>

text \<open>The challenge frame, the check of the broker's response, and the success frame.\<close>

definition challenge_frame :: "MessageId \<Rightarrow> array32 \<Rightarrow> LinkError + bytes" where
  "challenge_frame challenge challenge_bytes = encode_link Kind_AuthChallenge challenge (to_be_bytes challenge_bytes)"

definition authenticate_broker ::
  "(bytes \<Rightarrow> array32) \<Rightarrow> array32 \<Rightarrow> MessageId \<Rightarrow> array32 \<Rightarrow> bytes \<Rightarrow> LinkError + bytes" where
  "authenticate_broker sha256 psk challenge challenge_bytes received =
     tryE (decode_link received) (\<lambda>response.
     if link_kind response \<noteq> Kind_AuthResponse \<or> link_id response \<noteq> challenge then Inl Authentication
     else tryE (verify_authentication sha256 psk challenge_bytes (link_payload response)) (\<lambda>_.
     encode_link Kind_AuthOk challenge []))"

section \<open>The session\<close>

text \<open>How the loop goes on after a turn: the next turn, the next connection, or the end of the daemon
  with an error.\<close>

datatype flow = Continue | Break | Exit

record ('s, 'r) cad =
  cad_ca :: CertificateAuthority
  cad_store :: 's
  cad_rng :: 'r
  cad_pending :: PendingFrames
  cad_acquired :: DedupWindow
  cad_current :: "MessageId option"

type_synonym ('s, 'r) cad_turn = "flow \<times> bytes list \<times> ('s, 'r) cad"

definition cad_start ::
  "(bytes \<Rightarrow> bytes option) \<Rightarrow> (string \<Rightarrow> ConfigError + array32) \<Rightarrow> CaKeys \<Rightarrow> Limits \<Rightarrow> usize \<Rightarrow> usize \<Rightarrow> AgentEntry list
     \<Rightarrow> PolicyConfig \<Rightarrow> bool \<Rightarrow> io_faults list \<Rightarrow> snapshot_files \<Rightarrow> 'r \<Rightarrow> ConfigError + (PersistentStore, 'r) cad" where
  "cad_start hex read keys limits broker_pending_deliveries broker_dedup_entries agents policy read_fault faults files rng =
     (let limits = Limits_resolve limits in
      if broker_pending_deliveries < limit_subscriptions limits then Inl Deliveries_error
      else tryE (map_err Store_error (ps_open read_fault faults files limits)) (\<lambda>store.
      tryE (configured_agents hex read agents) (\<lambda>agents.
      let (reconciled, store) = reconcile_agents store agents in
      tryE (map_err Store_error reconciled) (\<lambda>_.
      tryE (build_policy hex policy) (\<lambda>policy.
      Inr \<lparr>cad_ca = \<lparr>authority_keys = keys, authority_policy = static_policy policy\<rparr>, cad_store = store, cad_rng = rng,
           cad_pending = PendingFrames_new broker_pending_deliveries,
           cad_acquired = DedupWindow_new broker_dedup_entries, cad_current = None\<rparr>)))))"

definition cad_reply_ack :: "MessageId \<Rightarrow> ('s, 'r) cad \<Rightarrow> ('s, 'r) cad_turn" where
  "cad_reply_ack ident s =
     (case encode_link Kind_Ack ident [] of Inl _ \<Rightarrow> (Exit, [], s) | Inr ack \<Rightarrow> (Continue, [ack], s))"

text \<open>The identifiers are drawn one per delivery; \<open>ids n\<close> is the outcome of the draw that many calls on.\<close>

fun cad_acquire_deliveries ::
  "(nat \<Rightarrow> LinkError + MessageId) \<Rightarrow> bytes list \<Rightarrow> PendingFrames \<Rightarrow> (LinkError + bytes list) \<times> PendingFrames" where
  "cad_acquire_deliveries ids [] pending = (Inr [], pending)"
| "cad_acquire_deliveries ids (bytes # rest) pending =
     tryS (ids 0, pending) (\<lambda>ident pending.
     tryS (encode_link Kind_Delivery ident bytes, pending) (\<lambda>encoded pending.
     tryS (pending_insert pending ident encoded) (\<lambda>_ pending.
     tryS (cad_acquire_deliveries (\<lambda>n. ids (Suc n)) rest pending) (\<lambda>encoded_rest pending.
     (Inr (encoded # encoded_rest), pending)))))"

definition cad_acquired_and_ack :: "MessageId \<Rightarrow> ('s, 'r) cad \<Rightarrow> ('s, 'r) cad_turn" where
  "cad_acquired_and_ack request_id s =
     (let (inserted, acquired) = dedup_insert (cad_acquired s) request_id;
          s = s\<lparr>cad_acquired := acquired\<rparr> in
      case inserted of Inl _ \<Rightarrow> (Exit, [], s) | Inr _ \<Rightarrow> cad_reply_ack request_id s)"

definition cad_request ::
  "'r crypto \<Rightarrow> 's ca_store \<Rightarrow> (nat \<Rightarrow> LinkError + MessageId) \<Rightarrow> u64 \<Rightarrow> MessageId \<Rightarrow> bytes \<Rightarrow> ('s, 'r) cad \<Rightarrow> ('s, 'r) cad_turn" where
  "cad_request C S ids now request_id envelope s =
     (let (result, (store, rng)) = process C S (cad_ca s) envelope now (cad_store s, cad_rng s);
          s = s\<lparr>cad_store := store, cad_rng := rng\<rparr> in
      case result of
        Inr Accepted \<Rightarrow> cad_acquired_and_ack request_id s
      | Inl _ \<Rightarrow> cad_acquired_and_ack request_id s
      | Inr (Deliveries deliveries) \<Rightarrow>
          if length deliveries > pending_remaining (cad_pending s) then (Break, [], s)
          else
            let (acquired_deliveries, pending) = cad_acquire_deliveries ids deliveries (cad_pending s);
                s = s\<lparr>cad_pending := pending\<rparr> in
            case acquired_deliveries of
              Inl _ \<Rightarrow> (Exit, [], s)
            | Inr [] \<Rightarrow> cad_acquired_and_ack request_id s
            | Inr (frame # frames) \<Rightarrow>
                let (inserted, acquired) = dedup_insert (cad_acquired s) request_id;
                    s = s\<lparr>cad_acquired := acquired\<rparr> in
                case inserted of
                  Inl _ \<Rightarrow> (Exit, [], s)
                | Inr _ \<Rightarrow> (Continue, frame # frames, s\<lparr>cad_current := Some request_id\<rparr>))"

definition cad_incoming ::
  "'r crypto \<Rightarrow> 's ca_store \<Rightarrow> (nat \<Rightarrow> LinkError + MessageId) \<Rightarrow> u64 \<Rightarrow> bytes \<Rightarrow> ('s, 'r) cad \<Rightarrow> ('s, 'r) cad_turn" where
  "cad_incoming C S ids now received s =
     (case decode_link received of
        Inl _ \<Rightarrow> (Break, [], s)
      | Inr link_frame \<Rightarrow>
          (case link_kind link_frame of
             Kind_Ack \<Rightarrow>
               let s = s\<lparr>cad_pending := snd (pending_acknowledge (cad_pending s) (link_id link_frame))\<rparr> in
               if \<not> pending_is_empty (cad_pending s) then (Continue, [], s)
               else (case cad_current s of
                       None \<Rightarrow> (Continue, [], s)
                     | Some request_id \<Rightarrow> cad_reply_ack request_id (s\<lparr>cad_current := None\<rparr>))
           | Kind_Request \<Rightarrow>
               if cad_current s = Some (link_id link_frame) then (Continue, [], s)
               else if dedup_contains (cad_acquired s) (link_id link_frame) then cad_reply_ack (link_id link_frame) s
               else if cad_current s = None
               then cad_request C S ids now (link_id link_frame) (link_payload link_frame) s
               else (Break, [], s)
           | _ \<Rightarrow> (Break, [], s)))"

text \<open>What is sent when a connection starts, and on every tick of the retry timer.\<close>

definition cad_resend :: "('s, 'r) cad \<Rightarrow> bytes list" where
  "cad_resend s = pending_snapshot (cad_pending s)"

definition cad_reload ::
  "ConfigError + StaticEnvironmentPolicy \<times> (AgentId \<times> PublicKeys) list \<Rightarrow> (PersistentStore, 'r) cad \<Rightarrow> (PersistentStore, 'r) cad" where
  "cad_reload candidate s =
     (case candidate of
        Inl _ \<Rightarrow> s
      | Inr (policy, agents) \<Rightarrow>
          (case reconcile_agents (cad_store s) agents of
             (Inr _, store) \<Rightarrow> s\<lparr>cad_store := store, cad_ca := (cad_ca s)\<lparr>authority_policy := static_policy policy\<rparr>\<rparr>
           | (Inl _, store) \<Rightarrow> s\<lparr>cad_store := store\<rparr>))"

section \<open>Loaded policies\<close>

lemma config_step_wf: "config_step (configure call p) = Inr p' \<Longrightarrow> policy_wf p \<Longrightarrow> policy_wf p'"
  using configure_wf [of p call] by (auto simp: config_step_def split: prod.splits sum.splits)

lemmas config_calls_wf =
  config_step_wf [of "Register_self a ty" for a ty, unfolded configure.simps]
  config_step_wf [of "Register_ca a ty" for a ty, unfolded configure.simps]
  config_step_wf [of "Allow_value a v" for a v, unfolded configure.simps]
  config_step_wf [of "Approve agent a v" for agent a v, unfolded configure.simps]
  config_step_wf [of "Isolate t as" for t as, unfolded configure.simps]
  config_step_wf [of "Allow_subscriber t a v" for t a v, unfolded configure.simps]

lemma build_allowed_wf: "build_allowed hex i vs p = Inr p' \<Longrightarrow> policy_wf p \<Longrightarrow> policy_wf p'"
  by (induction vs arbitrary: p) (auto simp: tryE_Inr_iff dest: config_calls_wf)

lemma build_attributes_wf: "build_attributes hex rules p = Inr p' \<Longrightarrow> policy_wf p \<Longrightarrow> policy_wf p'"
  by (induction rules arbitrary: p)
    (auto simp: tryE_Inr_iff split: AttributeAuthority.splits dest!: config_calls_wf build_allowed_wf)

lemma build_approvals_wf: "build_approvals hex approvals p = Inr p' \<Longrightarrow> policy_wf p \<Longrightarrow> policy_wf p'"
  by (induction approvals arbitrary: p) (auto simp: tryE_Inr_iff dest: config_calls_wf)

lemma build_isolations_wf: "build_isolations isolations p = Inr p' \<Longrightarrow> policy_wf p \<Longrightarrow> policy_wf p'"
  by (induction isolations arbitrary: p) (auto simp: tryE_Inr_iff dest: config_calls_wf)

lemma build_required_wf: "build_required hex t i vs p = Inr p' \<Longrightarrow> policy_wf p \<Longrightarrow> policy_wf p'"
  by (induction vs arbitrary: p) (auto simp: tryE_Inr_iff dest: config_calls_wf)

lemma build_requirements_wf: "build_requirements hex requirements p = Inr p' \<Longrightarrow> policy_wf p \<Longrightarrow> policy_wf p'"
  by (induction requirements arbitrary: p) (auto simp: tryE_Inr_iff dest: build_required_wf)

lemma build_policy_wf: "build_policy hex config = Inr p \<Longrightarrow> policy_wf p"
  using policy_wf_new
  by (auto simp: build_policy_def tryE_Inr_iff dest!: build_attributes_wf build_approvals_wf
      build_isolations_wf build_requirements_wf)

section \<open>Turns\<close>

lemma reply_ack: "cad_reply_ack ident s = (Continue, [item_bytes Kind_Ack (ident, [])], s)"
proof -
  have "encode_link Kind_Ack ident [] = Inr (item_bytes Kind_Ack (ident, []))"
    by (simp add: encode_link_item item_frame_def link_valid_def)
  then show ?thesis by (simp add: cad_reply_ack_def)
qed

definition drawn :: "(nat \<Rightarrow> LinkError + MessageId) \<Rightarrow> MessageId set" where
  "drawn ids = {ident. \<exists>n. ids n = Inr ident}"

lemma cad_acquire_effect:
  "cad_acquire_deliveries ids ds p = (r, p') \<Longrightarrow> pends Kind_Delivery p items \<Longrightarrow>
     \<exists>group. pends Kind_Delivery p' (items @ group) \<and> pending_maximum p' = pending_maximum p \<and>
       fst ` set group \<subseteq> drawn ids \<and>
       (\<forall>frames. r = Inr frames \<longrightarrow> map snd group = ds \<and> frames = map (item_bytes Kind_Delivery) group)"
proof (induction ds arbitrary: ids p r items)
  case (Cons bs rest)
  have stop: ?case if "p' = p" "r = Inl e" for e
    using that Cons.prems(2) by (intro exI [of _ "[]"]) simp
  show ?case
  proof (cases "ids 0")
    case (Inl e)
    with Cons.prems(1) have "p' = p" "r = Inl e" by auto
    then show ?thesis by (rule stop)
  next
    case ident: (Inr ident)
    show ?thesis
    proof (cases "encode_link Kind_Delivery ident bs")
      case (Inl e)
      with ident Cons.prems(1) have "p' = p" "r = Inl e" by auto
      then show ?thesis by (rule stop)
    next
      case encoded: (Inr encoded)
      obtain inserted p1 where ins: "pending_insert p ident encoded = (inserted, p1)" by fastforce
      show ?thesis
      proof (cases inserted)
        case (Inl e)
        with ins have "p1 = p" by (auto simp: pending_insert_def split: if_splits)
        with Inl ident encoded ins Cons.prems(1) have "p' = p" "r = Inl e" by auto
        then show ?thesis by (rule stop)
      next
        case (Inr u)
        note one = pends_insert [OF Cons.prems(2) encoded ins [unfolded Inr]]
        obtain r1 p2 where rest: "cad_acquire_deliveries (\<lambda>n. ids (Suc n)) rest p1 = (r1, p2)" by fastforce
        have "cad_acquire_deliveries ids (bs # rest) p =
            ((case r1 of Inl e \<Rightarrow> Inl e | Inr frames \<Rightarrow> Inr (encoded # frames)), p2)"
          by (cases r1) (simp_all add: ident encoded ins Inr rest)
        with Cons.prems(1) have run: "p' = p2" "r = (case r1 of Inl e \<Rightarrow> Inl e | Inr frames \<Rightarrow> Inr (encoded # frames))"
          by simp_all
        from Cons.IH [OF rest [folded run(1)] one(1)] obtain group where group:
          "pends Kind_Delivery p' (items @ (ident, bs) # group)" "pending_maximum p' = pending_maximum p1"
          "fst ` set group \<subseteq> drawn (\<lambda>n. ids (Suc n))"
          "\<forall>frames. r1 = Inr frames \<longrightarrow> map snd group = rest \<and> frames = map (item_bytes Kind_Delivery) group"
          by auto
        have bytes: "encoded = item_bytes Kind_Delivery (ident, bs)" using encoded by (simp add: encode_link_item)
        have "fst ` set ((ident, bs) # group) \<subseteq> drawn ids" using group(3) ident by (auto simp: drawn_def)
        moreover have "\<forall>frames. r = Inr frames \<longrightarrow> map snd ((ident, bs) # group) = bs # rest \<and>
            frames = map (item_bytes Kind_Delivery) ((ident, bs) # group)"
          using group(4) run(2) bytes by (cases r1) simp_all
        ultimately show ?thesis using group(1,2) one(3) by (intro exI [of _ "(ident, bs) # group"]) simp
      qed
    qed
  qed
qed (auto intro: exI [of _ "[]"])

text \<open>What a session keeps: a current request has its deliveries pending and nothing else is pending, and
  the delivery window covers the capacity of the store.\<close>

definition cad_ok :: "(PersistentStore, 'r) cad \<Rightarrow> bool" where
  "cad_ok s \<longleftrightarrow> (\<exists>items. pends Kind_Delivery (cad_pending s) items \<and> (cad_current s = None \<longleftrightarrow> items = [])) \<and>
     dedup_inv (cad_acquired s) \<and> ps_within (cad_store s) \<and>
     limit_subscriptions (ps_limits (cad_store s)) \<le> pending_maximum (cad_pending s)"

definition deliveries_of :: "Error + ProcessResult \<Rightarrow> bytes list" where
  "deliveries_of r = (case r of Inr (Deliveries ds) \<Rightarrow> ds | _ \<Rightarrow> [])"

lemma deliveries_of_simps [simp]:
  "deliveries_of (Inl e) = []" "deliveries_of (Inr Accepted) = []" "deliveries_of (Inr (Deliveries ds)) = ds"
  by (simp_all add: deliveries_of_def)

lemma acquired_and_ack:
  "cad_acquired_and_ack rid s =
     (if dedup_maximum (cad_acquired s) = 0 then (Exit, [], s\<lparr>cad_acquired := snd (dedup_insert (cad_acquired s) rid)\<rparr>)
      else (Continue, [item_bytes Kind_Ack (rid, [])], s\<lparr>cad_acquired := snd (dedup_insert (cad_acquired s) rid)\<rparr>))"
  by (auto simp: cad_acquired_and_ack_def dedup_insert_def reply_ack Let_def split: list.splits)

text \<open>A request is answered or ends the daemon; it never ends the connection. Its deliveries are all
  pending, and sent, before the request is recorded.\<close>

lemma cad_request_effect:
  assumes ok: "cad_ok s" and cur: "cad_current s = None"
    and run: "cad_request C persistent_store ids now rid envelope s = (flow, frames, s')"
    and p: "process C persistent_store (cad_ca s) envelope now (cad_store s, cad_rng s) = (result, (store, rng))"
  shows "flow \<noteq> Break \<and> cad_ca s' = cad_ca s \<and> (flow = Exit \<longrightarrow> frames = [] \<and> cad_current s' = None) \<and> (flow = Continue \<longrightarrow> cad_ok s' \<and>
    (\<exists>group. map snd group = deliveries_of result \<and> fst ` set group \<subseteq> drawn ids \<and>
      cad_store s' = store \<and> cad_rng s' = rng \<and> cad_acquired s' = snd (dedup_insert (cad_acquired s) rid) \<and>
      cad_current s' = (if group = [] then None else Some rid) \<and>
      pends Kind_Delivery (cad_pending s') group \<and> pending_maximum (cad_pending s') = pending_maximum (cad_pending s) \<and>
      length group \<le> pending_maximum (cad_pending s) \<and> 0 < dedup_maximum (cad_acquired s) \<and>
      frames = (if group = [] then [item_bytes Kind_Ack (rid, [])] else map (item_bytes Kind_Delivery) group)))"
proof -
  have pend: "pends Kind_Delivery (cad_pending s) []" and dedup: "dedup_inv (cad_acquired s)"
    and room: "limit_subscriptions (ps_limits (cad_store s)) \<le> pending_maximum (cad_pending s)"
    and within: "ps_within (cad_store s)"
    using ok cur by (auto simp: cad_ok_def)
  note kept = ps_limit.process_kept [OF p, unfolded ps_limit.kept_def]
  have dedup': "dedup_inv (snd (dedup_insert (cad_acquired s) rid))" using dedup_insert_refines(2) [OF dedup] .
  have simple: ?thesis if "deliveries_of result = []"
    "cad_request C persistent_store ids now rid envelope s = cad_acquired_and_ack rid (s\<lparr>cad_store := store, cad_rng := rng\<rparr>)"
    using that run pend room within kept cur dedup'
    by (auto simp: acquired_and_ack cad_ok_def split: if_splits)
  show ?thesis
  proof (cases "deliveries_of result")
    case Nil
    then have "cad_request C persistent_store ids now rid envelope s = cad_acquired_and_ack rid (s\<lparr>cad_store := store, cad_rng := rng\<rparr>)"
      using p by (auto simp: cad_request_def Let_def deliveries_of_def split: sum.splits ProcessResult.splits)
    with Nil show ?thesis by (rule simple)
  next
    case (Cons d ds)
    then have result: "result = Inr (Deliveries (d # ds))"
      by (auto simp: deliveries_of_def split: sum.splits ProcessResult.splits)
    have fits: "length (d # ds) \<le> pending_remaining (cad_pending s)"
      using kept within room result pends_reads(3) [OF pend] by (auto simp: pending_remaining_def intro: le_trans)
    obtain acq p1 where acq: "cad_acquire_deliveries ids (d # ds) (cad_pending s) = (acq, p1)" by fastforce
    from cad_acquire_effect [OF acq pend] obtain group where group: "pends Kind_Delivery p1 group"
      "pending_maximum p1 = pending_maximum (cad_pending s)" "fst ` set group \<subseteq> drawn ids"
      "\<forall>frames. acq = Inr frames \<longrightarrow> map snd group = d # ds \<and> frames = map (item_bytes Kind_Delivery) group" by auto
    show ?thesis
    proof (cases acq)
      case (Inl e)
      with run p result fits acq cur show ?thesis by (auto simp: cad_request_def Let_def)
    next
      case (Inr encoded)
      with group(4) have frames: "encoded = map (item_bytes Kind_Delivery) group" "map snd group = d # ds" by auto
      then obtain g gs where g: "group = g # gs" by (cases group) auto
      have len: "length group \<le> pending_maximum (cad_pending s)"
        using fits arg_cong [OF frames(2), of length] by (simp add: pending_remaining_def)
      have "(flow, frames, s') = (if dedup_maximum (cad_acquired s) = 0
          then (Exit, [], s\<lparr>cad_store := store, cad_rng := rng, cad_pending := p1, cad_acquired := snd (dedup_insert (cad_acquired s) rid)\<rparr>)
          else (Continue, encoded, s\<lparr>cad_store := store, cad_rng := rng, cad_pending := p1,
            cad_acquired := snd (dedup_insert (cad_acquired s) rid), cad_current := Some rid\<rparr>))"
        using run p result fits acq Inr frames g dedup_insert_refines(1) [OF dedup, of rid]
        by (auto simp: cad_request_def Let_def split: prod.splits)
      moreover have "cad_ok (s\<lparr>cad_store := store, cad_rng := rng, cad_pending := p1,
            cad_acquired := snd (dedup_insert (cad_acquired s) rid), cad_current := Some rid\<rparr>)"
        using group(1,2) g dedup' kept within room by (auto simp: cad_ok_def)
      ultimately show ?thesis
        using group(1-3) frames g len result cur by (cases "dedup_maximum (cad_acquired s) = 0") (auto simp: image_subset_iff intro!: exI [of _ group])
    qed
  qed
qed

text \<open>An incoming frame. Anything but an acknowledgement, a known request or a new request while none
  is current ends the connection and changes nothing.\<close>

lemma cad_incoming_ack:
  assumes "cad_ok s" "decode_link received = Inr f" "link_kind f = Kind_Ack"
  defines "p \<equiv> snd (pending_acknowledge (cad_pending s) (link_id f))"
  shows "cad_incoming C S ids now received s =
      (Continue, (case cad_current s of Some rid \<Rightarrow> if pending_is_empty p then [item_bytes Kind_Ack (rid, [])] else []
                  | None \<Rightarrow> []),
       s\<lparr>cad_pending := p, cad_current := (if pending_is_empty p then None else cad_current s)\<rparr>)"
    and "cad_ok (s\<lparr>cad_pending := p, cad_current := (if pending_is_empty p then None else cad_current s)\<rparr>)"
    and "pending_maximum p = pending_maximum (cad_pending s)"
proof -
  obtain items where items: "pends Kind_Delivery (cad_pending s) items" "cad_current s = None \<longleftrightarrow> items = []"
    using assms(1) by (auto simp: cad_ok_def)
  note ack = pends_ack [OF items(1), of "link_id f", folded p_def]
  show "pending_maximum p = pending_maximum (cad_pending s)" by (rule ack)
  show "cad_incoming C S ids now received s =
      (Continue, (case cad_current s of Some rid \<Rightarrow> if pending_is_empty p then [item_bytes Kind_Ack (rid, [])] else []
                  | None \<Rightarrow> []),
       s\<lparr>cad_pending := p, cad_current := (if pending_is_empty p then None else cad_current s)\<rparr>)"
    using assms(2,3) by (cases "cad_current s") (simp_all add: cad_incoming_def Let_def reply_ack p_def)
  show "cad_ok (s\<lparr>cad_pending := p, cad_current := (if pending_is_empty p then None else cad_current s)\<rparr>)"
    using assms(1) ack pends_reads(2) [OF ack(1)] items(2) by (auto simp: cad_ok_def)
qed

lemma cad_incoming_request:
  assumes "decode_link received = Inr f" "link_kind f = Kind_Request"
  shows "cad_incoming C S ids now received s =
    (if cad_current s = Some (link_id f) then (Continue, [], s)
     else if dedup_contains (cad_acquired s) (link_id f) then (Continue, [item_bytes Kind_Ack (link_id f, [])], s)
     else if cad_current s = None then cad_request C S ids now (link_id f) (link_payload f) s
     else (Break, [], s))"
  using assms by (simp add: cad_incoming_def reply_ack)

lemma cad_incoming_other:
  assumes "\<And>f. decode_link received = Inr f \<Longrightarrow> link_kind f \<notin> {Kind_Ack, Kind_Request}"
  shows "cad_incoming C S ids now received s = (Break, [], s)"
  using assms by (cases "decode_link received") (auto simp: cad_incoming_def split: FrameKind.splits)

lemma cad_incoming_ok:
  assumes "cad_ok s" "cad_incoming C persistent_store ids now received s = (flow, frames, s')" "flow \<noteq> Exit"
  shows "cad_ok s' \<and> (flow = Break \<longrightarrow> s' = s \<and> frames = [])"
proof -
  consider (ack) f where "decode_link received = Inr f" "link_kind f = Kind_Ack"
    | (request) f where "decode_link received = Inr f" "link_kind f = Kind_Request"
    | (other) "\<And>f. decode_link received = Inr f \<Longrightarrow> link_kind f \<notin> {Kind_Ack, Kind_Request}"
    by blast
  then show ?thesis
  proof cases
    case ack
    from cad_incoming_ack(1,2) [OF assms(1) ack] assms(2) show ?thesis by auto
  next
    case request
    show ?thesis
    proof (cases "cad_current s = None \<and> \<not> dedup_contains (cad_acquired s) (link_id f)")
      case True
      obtain result store rng where p: "process C persistent_store (cad_ca s) (link_payload f) now (cad_store s, cad_rng s) = (result, (store, rng))"
        by (metis prod.exhaust)
      have "cad_request C persistent_store ids now (link_id f) (link_payload f) s = (flow, frames, s')"
        using assms(2) True by (simp add: cad_incoming_request [OF request])
      from cad_request_effect [OF assms(1) _ this p] True assms(3) show ?thesis by (cases flow) auto
    next
      case False
      with assms show ?thesis by (auto simp: cad_incoming_request [OF request] split: if_splits)
    qed
  next
    case other
    then have "cad_incoming C persistent_store ids now received s = (Break, [], s)" by (rule cad_incoming_other)
    with assms show ?thesis by simp
  qed
qed

lemma cad_reload_ok: "cad_ok s \<Longrightarrow> cad_ok (cad_reload candidate s)"
  using ps_within_reconcile [of "cad_store s"] ps_limits_ops(5) [of "cad_store s"]
  by (auto simp: cad_reload_def cad_ok_def split: sum.splits prod.splits) (metis snd_conv)+

text \<open>A daemon that has not served a request yet.\<close>

definition cad_idle :: "(PersistentStore, 'r) cad \<Rightarrow> bool" where
  "cad_idle c \<longleftrightarrow> cad_ok c \<and> pends Kind_Delivery (cad_pending c) [] \<and> cad_current c = None \<and> dedup_order (cad_acquired c) = []"

lemma cad_started:
  assumes "cad_start hex read keys limits deliveries dedup agents policy read_fault faults files rng = Inr c"
  shows "\<exists>store configured loaded. ps_open read_fault faults files (Limits_resolve limits) = Inr store \<and>
    configured_agents hex read agents = Inr configured \<and> reconcile_agents store configured = (Inr (), cad_store c) \<and>
    build_policy hex policy = Inr loaded \<and> authority_policy (cad_ca c) = static_policy loaded \<and> authority_keys (cad_ca c) = keys \<and>
    limit_subscriptions (Limits_resolve limits) \<le> deliveries \<and> cad_pending c = PendingFrames_new deliveries \<and>
    cad_acquired c = DedupWindow_new dedup \<and> cad_current c = None"
proof -
  from assms obtain store configured loaded where o: "ps_open read_fault faults files (Limits_resolve limits) = Inr store"
    "configured_agents hex read agents = Inr configured" "build_policy hex policy = Inr loaded"
    "limit_subscriptions (Limits_resolve limits) \<le> deliveries" "fst (reconcile_agents store configured) = Inr ()"
    "c = \<lparr>cad_ca = \<lparr>authority_keys = keys, authority_policy = static_policy loaded\<rparr>, cad_store = snd (reconcile_agents store configured),
           cad_rng = rng, cad_pending = PendingFrames_new deliveries, cad_acquired = DedupWindow_new dedup, cad_current = None\<rparr>"
    by (auto simp: cad_start_def Let_def tryE_Inr_iff case_prod_unfold split: if_splits)
  have "cad_store c = snd (reconcile_agents store configured)" by (simp add: o(6))
  then have "reconcile_agents store configured = (Inr (), cad_store c)" using o(5) by (simp add: prod_eq_iff)
  moreover have "authority_policy (cad_ca c) = static_policy loaded" "authority_keys (cad_ca c) = keys"
    "cad_pending c = PendingFrames_new deliveries" "cad_acquired c = DedupWindow_new dedup" "cad_current c = None"
    by (simp_all add: o(6))
  ultimately show ?thesis using o(1-4) by blast
qed

lemma cad_start_idle:
  assumes "cad_start hex read keys limits deliveries dedup agents policy read_fault faults files rng = Inr c"
  shows "cad_idle c" "pending_maximum (cad_pending c) = deliveries" "ps_limits (cad_store c) = Limits_resolve limits"
proof -
  obtain store configured where o: "ps_open read_fault faults files (Limits_resolve limits) = Inr store"
    "reconcile_agents store configured = (Inr (), cad_store c)" "limit_subscriptions (Limits_resolve limits) \<le> deliveries"
    "cad_pending c = PendingFrames_new deliveries" "cad_acquired c = DedupWindow_new dedup" "cad_current c = None"
    using cad_started [OF assms] by blast
  have "ps_within (cad_store c)" and limits: "ps_limits (cad_store c) = Limits_resolve limits"
    using ps_within_reconcile [of store configured] ps_limits_ops(5) [of store configured] ps_open_within [OF o(1)] o(2) by simp_all
  moreover have max: "pending_maximum (PendingFrames_new deliveries) = deliveries" by (simp add: PendingFrames_new_def)
  ultimately show "cad_idle c" "pending_maximum (cad_pending c) = deliveries" "ps_limits (cad_store c) = Limits_resolve limits"
    using o(3-6) by (auto simp: cad_idle_def cad_ok_def pends_new dedup_new)
qed

section \<open>Properties\<close>

text \<open>\<open>cad\<close> starts in a safe state: the policy it loads is consistent, however the configuration is
  written; the key directory is exactly the configured agents; the delivery window covers the capacity
  of the store; nothing is pending and no request is current.\<close>

theorem daemon_starts_ready:
  assumes "cad_start hex read keys limits deliveries dedup agents policy read_fault faults files rng = Inr c"
  shows "cad_idle c \<and> pending_maximum (cad_pending c) = deliveries \<and> ps_limits (cad_store c) = Limits_resolve limits \<and>
    (\<exists>loaded. authority_policy (cad_ca c) = static_policy loaded \<and> policy_wf loaded) \<and>
    (\<exists>configured. configured_agents hex read agents = Inr configured \<and>
       bt_get (state_keys (ps_state (cad_store c))) = map_of configured)"
proof -
  obtain store configured loaded where o: "configured_agents hex read agents = Inr configured"
    "reconcile_agents store configured = (Inr (), cad_store c)" "build_policy hex policy = Inr loaded"
    "authority_policy (cad_ca c) = static_policy loaded"
    using cad_started [OF assms] by blast
  have "bt_get (state_keys (ps_state (cad_store c))) = map_of configured"
    using reconcile_state [of store configured] o(2) by (auto simp: Let_def)
  with o build_policy_wf [OF o(3)] cad_start_idle [OF assms] show ?thesis by blast
qed

text \<open>A configuration without agents, on an empty state directory.\<close>

lemma empty_start:
  "\<exists>c. cad_start hex read keys
     \<lparr>cfg_agents = None, cfg_environments = None, cfg_subscriptions = Some 3, cfg_replays = None, cfg_replay_ttl_seconds = None\<rparr>
     4096 1 [] \<lparr>cfg_attributes = [], cfg_approvals = [], cfg_isolations = [], cfg_requirements = []\<rparr>
     False [] \<lparr>snapshot_path = None, temporary_path = None\<rparr> rng = Inr c"
proof -
  obtain bs where "encode_state (empty_state (Limits_resolve \<lparr>cfg_agents = None, cfg_environments = None, cfg_subscriptions = Some 3,
      cfg_replays = None, cfg_replay_ttl_seconds = None\<rparr>)) = Inr bs" "length bs \<le> SNAPSHOT_MAX"
    by (simp add: empty_state_def ReplayCache_new_def bt_empty_def encode_state_def push_bytes_def push_u32_def bt_len_def
        subscription_count_def STATE_MAGIC_def SNAPSHOT_MAX_def ascii_def)
  then show ?thesis
    by (simp add: cad_start_def ps_open_def snapshot_load_def reconcile_agents_def ps_commit_def snapshot_commit_def no_faults_def
        build_policy_def Limits_resolve_def unwrap_or_def StoreLimits_default_def Let_def empty_state_def bt_empty_def bt_retain_def
        ReplayCache_new_def map_err_def)
qed

theorem daemon_starts_witness:
  "\<exists>c :: (PersistentStore, nat) cad. cad_idle c \<and> pending_maximum (cad_pending c) = 4096 \<and>
     bt_get (state_keys (ps_state (cad_store c))) = (\<lambda>_. None)"
proof -
  obtain c :: "(PersistentStore, nat) cad" where c: "cad_start (\<lambda>_. None) (\<lambda>_. Inl File_error) (CaKeys_from_seeds 1 2)
     \<lparr>cfg_agents = None, cfg_environments = None, cfg_subscriptions = Some 3, cfg_replays = None, cfg_replay_ttl_seconds = None\<rparr>
     4096 1 [] \<lparr>cfg_attributes = [], cfg_approvals = [], cfg_isolations = [], cfg_requirements = []\<rparr>
     False [] \<lparr>snapshot_path = None, temporary_path = None\<rparr> (7 :: nat) = Inr c" using empty_start [of "\<lambda>_. None" "\<lambda>_. Inl File_error" "CaKeys_from_seeds 1 2" 7] by blast
  from daemon_starts_ready [OF c] show ?thesis by (auto intro!: exI [of _ c])
qed

end
