(* ===== verification/Exchange.thy ===== *)
theory Exchange
  imports Link
begin

text \<open>
  One direction of the acknowledged link, as a specification: a sender that retransmits its pending
  frames, a connection that may lose a suffix of what was written, and a receiver that drops what
  it remembers. \<open>sent\<close> are all items the sender took, \<open>received\<close> those the receiver accepted, the
  wire what is under way. The broker sends requests and the CA deliveries by the same scheme.
\<close>

section \<open>Wires\<close>

text \<open>The items and the acknowledgements among the frames on a wire.\<close>

definition wire_item :: "FrameKind \<Rightarrow> bytes \<Rightarrow> (MessageId \<times> bytes) option" where
  "wire_item kind bs = (case decode_link bs of Inl _ \<Rightarrow> None
     | Inr f \<Rightarrow> if link_kind f = kind then Some (link_id f, link_payload f) else None)"

definition wire_items :: "FrameKind \<Rightarrow> bytes list \<Rightarrow> (MessageId \<times> bytes) list" where
  "wire_items kind wire = List.map_filter (wire_item kind) wire"

definition wire_acks :: "bytes list \<Rightarrow> MessageId set" where
  "wire_acks wire = fst ` set (wire_items Kind_Ack wire)"

lemma wire_items_simps [simp]:
  "wire_items kind [] = []" "wire_items kind (xs @ ys) = wire_items kind xs @ wire_items kind ys"
  "wire_items kind (bs # wire) = (case wire_item kind bs of None \<Rightarrow> [] | Some x \<Rightarrow> [x]) @ wire_items kind wire"
  by (simp_all add: wire_items_def List.map_filter_def split: option.splits)

lemma wire_acks_simps [simp]:
  "wire_acks [] = {}" "wire_acks (xs @ ys) = wire_acks xs \<union> wire_acks ys"
  "wire_acks (bs # wire) = (case wire_item Kind_Ack bs of None \<Rightarrow> {} | Some x \<Rightarrow> {fst x}) \<union> wire_acks wire"
  by (auto simp: wire_acks_def split: option.splits)

lemma wire_item_decode: "decode_link bs = Inr f \<Longrightarrow> wire_item kind bs = (if link_kind f = kind then Some (link_id f, link_payload f) else None)"
  by (simp add: wire_item_def)

lemma wire_item_bytes: "link_valid (item_frame kind x) \<Longrightarrow> wire_item kind' (item_bytes kind x) = (if kind = kind' then Some x else None)"
  by (simp add: wire_item_def decode_item)

lemma wire_item_ack: "wire_item kind (item_bytes Kind_Ack (i, [])) = (if kind = Kind_Ack then Some (i, []) else None)"
  by (auto simp: wire_item_bytes item_frame_def link_valid_def)

lemma wire_items_bytes:
  "\<forall>x\<in>set xs. link_valid (item_frame kind x) \<Longrightarrow>
     wire_items kind' (map (item_bytes kind) xs) = (if kind = kind' then xs else [])"
  by (induction xs) (auto simp: wire_item_bytes)

lemma wire_items_take: "\<exists>m. wire_items kind (take n wire) = take m (wire_items kind wire)"
  using wire_items_simps(2) [of kind "take n wire" "drop n wire"] by (metis append_eq_conv_conj append_take_drop_id)

lemma wire_acks_take: "wire_acks (take n wire) \<subseteq> wire_acks wire"
  by (metis Un_upper1 append_take_drop_id wire_acks_simps(2))

section \<open>Order\<close>

text \<open>\<open>in_order w sent j xs\<close>: read after the first \<open>j\<close> items of \<open>sent\<close>, each of \<open>xs\<close> is the next item
  or one of the latest \<open>w\<close> that were read.\<close>

fun in_order :: "nat \<Rightarrow> 'a list \<Rightarrow> nat \<Rightarrow> 'a list \<Rightarrow> bool" where
  "in_order w sent j [] = True"
| "in_order w sent j (x # xs) =
     (\<exists>i < length sent. sent ! i = x \<and> i \<le> j \<and> j \<le> i + w \<and> in_order w sent (max j (Suc i)) xs)"

lemma in_order_prefix: "in_order w sent j (xs @ ys) \<Longrightarrow> in_order w sent j xs"
  by (induction w sent j xs rule: in_order.induct) auto

lemma in_order_take: "in_order w sent j xs \<Longrightarrow> in_order w sent j (take m xs)"
  by (metis append_take_drop_id in_order_prefix)

lemma in_order_more: "in_order w sent j xs \<Longrightarrow> in_order w (sent @ others) j xs"
proof (induction xs arbitrary: j)
  case (Cons x xs)
  then obtain i where "i < length sent" "sent ! i = x" "i \<le> j" "j \<le> i + w" "in_order w sent (max j (Suc i)) xs" by auto
  with Cons.IH show ?case by (auto simp: nth_append intro!: exI [of _ i])
qed simp

text \<open>A retransmission of the tail of \<open>sent\<close>, without items that were received, is in order.\<close>

lemma in_order_tail:
  assumes "distinct sent" "p \<le> j" "j \<le> length sent" "length sent \<le> p + w"
    "\<forall>x\<in>set (drop p sent). \<not> Q x \<longrightarrow> x \<in> set (take j sent)"
  shows "in_order w sent j (filter Q (drop p sent))"
  using assms(2-)
proof (induction "length sent - p" arbitrary: p j)
  case (Suc n)
  then have p: "p < length sent" by simp
  then have tail: "drop p sent = sent ! p # drop (Suc p) sent" by (simp add: Cons_nth_drop_Suc)
  show ?case
  proof (cases "Q (sent ! p)")
    case True
    have "\<forall>x\<in>set (drop (Suc p) sent). \<not> Q x \<longrightarrow> x \<in> set (take (max j (Suc p)) sent)"
      using Suc.prems(4) set_take_subset_set_take [of j "max j (Suc p)" sent] by (auto simp: tail)
    then have "in_order w sent (max j (Suc p)) (filter Q (drop (Suc p) sent))"
      using Suc.hyps(2) Suc.prems p by (intro Suc.hyps(1)) auto
    with True p Suc.prems show ?thesis by (auto simp: tail intro!: exI [of _ p])
  next
    case False
    then have "sent ! p \<in> set (take j sent)" using Suc.prems(4) by (simp add: tail)
    then obtain q where "q < j" "q < length sent" "sent ! q = sent ! p" by (auto simp: in_set_conv_nth)
    with p assms(1) have "Suc p \<le> j" by (metis Suc_leI nth_eq_iff_index_eq)
    moreover from this have "in_order w sent j (filter Q (drop (Suc p) sent))"
      using Suc.hyps(2) Suc.prems p by (intro Suc.hyps(1)) (auto simp: tail)
    ultimately show ?thesis using False by (simp add: tail)
  qed
qed simp

lemma in_order_append_tail:
  assumes "distinct sent" "in_order w sent j xs" "p \<le> j" "j \<le> length sent" "length sent \<le> p + w"
    "\<forall>x\<in>set (drop p sent). \<not> Q x \<longrightarrow> x \<in> set (take j sent)"
  shows "in_order w sent j (xs @ filter Q (drop p sent))"
  using assms(2-)
proof (induction xs arbitrary: j)
  case Nil
  with in_order_tail [OF assms(1)] show ?case by simp
next
  case (Cons x xs)
  then obtain i where i: "i < length sent" "sent ! i = x" "i \<le> j" "j \<le> i + w" "in_order w sent (max j (Suc i)) xs" by auto
  have "\<forall>x\<in>set (drop p sent). \<not> Q x \<longrightarrow> x \<in> set (take (max j (Suc i)) sent)"
    using Cons.prems(5) set_take_subset_set_take [of j "max j (Suc i)" sent] by auto
  with Cons.IH [OF i(5)] Cons.prems i have "in_order w sent (max j (Suc i)) (xs @ filter Q (drop p sent))" by auto
  with i show ?case by auto
qed

section \<open>Exchanges\<close>

definition exchange :: "FrameKind \<Rightarrow> nat \<Rightarrow> (MessageId \<times> bytes) list \<Rightarrow> (MessageId \<times> bytes) list \<Rightarrow> bytes list \<Rightarrow> bool" where
  "exchange kind w sent received wire \<longleftrightarrow>
     distinct (map fst sent) \<and> (\<forall>x\<in>set sent. link_valid (item_frame kind x)) \<and>
     length received \<le> length sent \<and> take (length received) sent = received \<and>
     in_order w sent (length received) (wire_items kind wire)"

text \<open>The sender: what is pending is the part of the last group that is not acknowledged; the groups
  before it were received, and what is acknowledged was.\<close>

definition sender_ok :: "FrameKind \<Rightarrow> nat \<Rightarrow> (MessageId \<times> bytes) list \<Rightarrow> (MessageId \<times> bytes) list \<Rightarrow> PendingFrames \<Rightarrow> bool" where
  "sender_ok kind w sent received p \<longleftrightarrow>
     (\<exists>first acked. first \<le> length received \<and> length sent \<le> first + w \<and> acked \<subseteq> fst ` set received \<and>
        pends kind p (filter (\<lambda>x. fst x \<notin> acked) (drop first sent)))"

lemma exchange_start: "exchange kind w [] [] []" "sender_ok kind w [] [] (PendingFrames_new maximum)"
  using pends_new [of kind maximum] by (auto simp: exchange_def sender_ok_def)

lemma exchange_distinct: "exchange kind w sent received wire \<Longrightarrow> distinct sent"
  by (auto simp: exchange_def distinct_map)

lemma exchange_lost: "exchange kind w sent received wire \<Longrightarrow> exchange kind w sent received []"
  by (simp add: exchange_def)

lemma exchange_other:
  "exchange kind w sent received (bs # wire) \<Longrightarrow> wire_item kind bs = None \<Longrightarrow> exchange kind w sent received wire"
  "exchange kind w sent received wire \<Longrightarrow> wire_items kind frames = [] \<Longrightarrow> exchange kind w sent received (wire @ frames)"
  by (simp_all add: exchange_def)

text \<open>The next item on the wire is one of the latest \<open>w\<close> received, or new and next in order.\<close>

lemma exchange_receive:
  assumes "exchange kind w sent received (bs # wire)" "wire_item kind bs = Some x"
  shows "fst x \<in> set (last_n w (map fst received)) \<and> exchange kind w sent received wire \<or>
    fst x \<notin> fst ` set received \<and> x \<in> set sent \<and> exchange kind w sent (received @ [x]) wire"
proof -
  let ?j = "length received"
  have t: "distinct (map fst sent)" "?j \<le> length sent" "take ?j sent = received" using assms(1) by (simp_all add: exchange_def)
  from assms obtain i where i: "i < length sent" "sent ! i = x" "i \<le> ?j" "?j \<le> i + w" "in_order w sent (max ?j (Suc i)) (wire_items kind wire)"
    by (auto simp: exchange_def)
  have nth: "received ! q = sent ! q" if "q < ?j" for q using that t(3) nth_take [of q ?j sent] by simp
  show ?thesis
  proof (cases "i < ?j")
    case True
    have "last_n w (map fst received) ! (i - (?j - w)) = fst x" "i - (?j - w) < length (last_n w (map fst received))"
      using True i nth [OF True] by (simp_all add: last_n_def)
    then have "fst x \<in> set (last_n w (map fst received))" by (metis nth_mem)
    with True i(5) assms(1) show ?thesis by (simp add: exchange_def max_absorb1)
  next
    case False
    then have "i = ?j" using i(3) by simp
    then have take: "take (Suc ?j) sent = received @ [x]"
      using i(1,2) t(3) by (metis take_Suc_conv_app_nth)
    have "distinct (map fst (received @ [x]))" using t(1) unfolding take [symmetric] by (metis distinct_take take_map)
    then have "fst x \<notin> fst ` set received" by simp
    moreover have "x \<in> set sent" using i(1,2) nth_mem by blast
    moreover have "exchange kind w sent (received @ [x]) wire"
    proof -
      have "max ?j (Suc i) = length (received @ [x])" using \<open>i = ?j\<close> by simp
      with i(5) have "in_order w sent (length (received @ [x])) (wire_items kind wire)" by metis
      moreover have "take (length (received @ [x])) sent = received @ [x]" "length (received @ [x]) \<le> length sent"
        using take i(1) \<open>i = ?j\<close> by simp_all
      ultimately show ?thesis using assms(1) unfolding exchange_def by blast
    qed
    ultimately show ?thesis by blast
  qed
qed

lemma sender_received: "sender_ok kind w sent received p \<Longrightarrow> sender_ok kind w sent (received @ others) p"
proof -
  assume "sender_ok kind w sent received p"
  then obtain first acked where "first \<le> length received" "length sent \<le> first + w" "acked \<subseteq> fst ` set received"
    "pends kind p (filter (\<lambda>x. fst x \<notin> acked) (drop first sent))" by (auto simp: sender_ok_def)
  then show ?thesis unfolding sender_ok_def by (intro exI [of _ first] exI [of _ acked]) auto
qed

lemma sender_ack:
  assumes "sender_ok kind w sent received p" "ident \<in> fst ` set received"
  shows "sender_ok kind w sent received (snd (pending_acknowledge p ident))"
proof -
  obtain first acked where s: "first \<le> length received" "length sent \<le> first + w" "acked \<subseteq> fst ` set received"
    "pends kind p (filter (\<lambda>x. fst x \<notin> acked) (drop first sent))" using assms(1) by (auto simp: sender_ok_def)
  have "filter (\<lambda>x. fst x \<noteq> ident) (filter (\<lambda>x. fst x \<notin> acked) (drop first sent)) =
      filter (\<lambda>x. fst x \<notin> insert ident acked) (drop first sent)"
    by (simp add: conj_commute)
  with s assms(2) pends_ack(1) [OF s(4), of ident] show ?thesis
    unfolding sender_ok_def by (metis insert_subset)
qed

text \<open>Sending what is pending, or a prefix of it, keeps the order.\<close>

lemma exchange_resend:
  assumes "exchange kind w sent received wire" "sender_ok kind w sent received p"
  shows "exchange kind w sent received (wire @ take n (pending_snapshot p))"
proof -
  let ?j = "length received"
  have t: "?j \<le> length sent" "take ?j sent = received" "in_order w sent ?j (wire_items kind wire)"
    "distinct (map fst sent)" "\<forall>x\<in>set sent. link_valid (item_frame kind x)"
    using assms(1) by (simp_all add: exchange_def)
  obtain first acked where s: "first \<le> ?j" "length sent \<le> first + w" "acked \<subseteq> fst ` set received"
    "pends kind p (filter (\<lambda>x. fst x \<notin> acked) (drop first sent))" using assms(2) by (auto simp: sender_ok_def)
  let ?items = "filter (\<lambda>x. fst x \<notin> acked) (drop first sent)"
  have "x \<in> set (take ?j sent)" if x: "x \<in> set (drop first sent)" "fst x \<in> acked" for x
  proof -
    obtain y where "y \<in> set received" "fst y = fst x" using s(3) x(2) by auto
    moreover have "y \<in> set sent" using calculation(1) t(2) in_set_takeD by metis
    moreover have "x \<in> set sent" using x(1) in_set_dropD by fast
    ultimately show ?thesis using t(2,4) by (metis distinct_map inj_onD)
  qed
  then have "in_order w sent ?j (wire_items kind wire @ ?items)"
    using s t exchange_distinct [OF assms(1)] by (intro in_order_append_tail) auto
  moreover have "wire_items kind (map (item_bytes kind) ?items) = ?items"
    using t(5) by (subst wire_items_bytes) (auto dest: in_set_dropD)
  moreover obtain m where "wire_items kind (take n (pending_snapshot p)) = take m (wire_items kind (pending_snapshot p))"
    using wire_items_take by blast
  ultimately have "in_order w sent ?j (wire_items kind (wire @ take n (pending_snapshot p)))"
    using pends_reads(1) [OF s(4)] in_order_take [of w sent ?j "wire_items kind wire @ ?items" "length (wire_items kind wire) + m"]
    by simp
  with assms(1) show ?thesis by (simp add: exchange_def)
qed

text \<open>Nothing is pending: everything was received, and the next group can start.\<close>

lemma sender_idle:
  assumes "exchange kind w sent received wire" "sender_ok kind w sent received p" "pending_is_empty p"
  shows "received = sent"
proof -
  let ?j = "length received"
  have t: "?j \<le> length sent" "take ?j sent = received" "distinct (map fst sent)" using assms(1) by (simp_all add: exchange_def)
  obtain first acked where s: "first \<le> ?j" "acked \<subseteq> fst ` set received"
    "pends kind p (filter (\<lambda>x. fst x \<notin> acked) (drop first sent))" using assms(2) by (auto simp: sender_ok_def)
  have "filter (\<lambda>x. fst x \<notin> acked) (drop first sent) = []" using pends_reads(2) [OF s(3)] assms(3) by simp
  then have tail: "fst ` set (drop first sent) \<subseteq> fst ` set (take ?j sent)" using s(2) t(2) by (auto simp: filter_empty_conv)
  have "drop ?j sent = []"
  proof (rule ccontr)
    assume "drop ?j sent \<noteq> []"
    then have j: "?j < length sent" by simp
    have "drop first sent ! (?j - first) = sent ! ?j" "?j - first < length (drop first sent)" using s(1) j by simp_all
    then have "sent ! ?j \<in> set (drop first sent)" by (metis nth_mem)
    then have "fst (sent ! ?j) \<in> fst ` set (take ?j sent)" using tail by blast
    then obtain y where "y \<in> set (take ?j sent)" "fst y = fst (sent ! ?j)" by (metis imageE)
    moreover from this(1) obtain q where q: "q < ?j" "sent ! q = y"
      unfolding in_set_conv_nth length_take by (metis min_less_iff_conj nth_take)
    ultimately have "map fst sent ! q = map fst sent ! ?j" using j by (metis less_trans nth_map)
    moreover note q(1)
    ultimately show False using t(3) j by (metis distinct_conv_nth length_map less_trans nat_neq_iff)
  qed
  with t show ?thesis by simp
qed

lemma exchange_group:
  assumes "exchange kind w sent sent wire" "pends kind p batch" "distinct (map fst (sent @ batch))" "length batch \<le> w"
  shows "exchange kind w (sent @ batch) sent wire" "sender_ok kind w (sent @ batch) sent p"
proof -
  show "exchange kind w (sent @ batch) sent wire"
    using assms by (auto simp: exchange_def pends_def in_order_more)
  have "filter (\<lambda>x. fst x \<notin> {}) (drop (length sent) (sent @ batch)) = batch" by simp
  with assms(2,4) show "sender_ok kind w (sent @ batch) sent p"
    unfolding sender_ok_def by (intro exI [of _ "length sent"] exI [of _ "{}"]) simp
qed

end
