(* ===== verification/System.thy ===== *)
theory System
  imports Session Cad Exchange
begin

text \<open>
  Broker and CA together: the broker's tasks and its CA session, the daemon \<open>cad\<close>, and the
  connection between them. The daemons interleave freely; a connection is two first-in first-out
  wires, either end can fail at any time, and a new connection starts with empty wires after both
  ends have left the old one. A send writes a prefix of its frames: all of them, or as many
  as were written before it failed. A failed \<open>?\<close> ends \<open>cad\<close> for good; neither process is restarted.

  The link identifiers come from the system's random source. The model takes them from the event and
  has a step only for identifiers that were not drawn before. The step that routes a delivery carries the events of the
  agents' tasks that fall between the two halves of \<open>route_ca_delivery\<close>.
\<close>

section \<open>States and steps\<close>

record ('c, 'q, 'r) system =
  sys_link :: "('c, 'q) ca_link"
  sys_cad :: "(PersistentStore, 'r) cad"
  sys_to_ca :: "bytes list"
  sys_to_broker :: "bytes list"
  sys_broker_up :: bool
  sys_cad_up :: bool
  sys_running :: bool
  sys_taken :: "(MessageId \<times> bytes) list"
  sys_processed :: "(MessageId \<times> bytes) list"
  sys_results :: "(Error + ProcessResult) list"
  sys_published :: "(MessageId \<times> bytes) list"
  sys_routed :: "(MessageId \<times> bytes) list"

definition system_start :: "('c, 'q) ca_link \<Rightarrow> (PersistentStore, 'r) cad \<Rightarrow> ('c, 'q, 'r) system" where
  "system_start link c = \<lparr>sys_link = link, sys_cad = c, sys_to_ca = [], sys_to_broker = [], sys_broker_up = False,
     sys_cad_up = False, sys_running = True, sys_taken = [], sys_processed = [], sys_results = [], sys_published = [],
     sys_routed = []\<rparr>"

definition fresh :: "(MessageId \<times> bytes) list \<Rightarrow> (MessageId \<times> bytes) list \<Rightarrow> bool" where
  "fresh new old \<longleftrightarrow> fst ` set new \<inter> fst ` set old = {}"

text \<open>The broker's end writes \<open>frames\<close>; \<open>sent\<close> of them, if there are that many, reach the wire.\<close>

definition broker_sends :: "nat \<Rightarrow> bytes list \<Rightarrow> ('c, 'q, 'r) system \<Rightarrow> ('c, 'q, 'r) system" where
  "broker_sends sent frames s =
     s\<lparr>sys_to_ca := sys_to_ca s @ take sent frames, sys_broker_up := (sys_broker_up s \<and> length frames \<le> sent)\<rparr>"

definition cad_sends :: "nat \<Rightarrow> bytes list \<Rightarrow> ('c, 'q, 'r) system \<Rightarrow> ('c, 'q, 'r) system" where
  "cad_sends sent frames s =
     s\<lparr>sys_to_broker := sys_to_broker s @ take sent frames, sys_cad_up := (sys_cad_up s \<and> length frames \<le> sent)\<rparr>"

definition broker_takes ::
  "'c mpsc \<Rightarrow> (LinkError + MessageId) \<Rightarrow> nat \<Rightarrow> ('c, 'q, 'r) system \<Rightarrow> ('c, 'q, 'r) system option" where
  "broker_takes Q ident sent s =
     (if \<not> sys_broker_up s then None
      else case link_request Q ident (sys_link s) of
        None \<Rightarrow> None
      | Some (frames, link) \<Rightarrow>
          let new = wire_items Kind_Request frames in
          if \<not> fresh new (sys_taken s) then None
          else Some (broker_sends sent frames (s\<lparr>sys_link := link, sys_taken := sys_taken s @ new\<rparr>)))"

definition broker_reads ::
  "'c mpsc \<Rightarrow> 'q OfflineQueueStore \<Rightarrow> task_event list \<Rightarrow> nat \<Rightarrow> ('c, 'q, 'r) system \<Rightarrow> ('c, 'q, 'r) system option" where
  "broker_reads Q off between sent s =
     (case (sys_broker_up s, sys_to_broker s) of
        (True, received # wire) \<Rightarrow>
          let (go_on, frames, link) = link_incoming Q off between received (sys_link s);
              new = (case wire_item Kind_Delivery received of
                       None \<Rightarrow> []
                     | Some x \<Rightarrow> if \<not> dedup_contains (link_acquired (sys_link s)) (fst x) \<and>
                                    is_ok (fst (ca_deliver Q off between (snd x) (link_system (sys_link s)))) then [x] else []) in
          Some (broker_sends sent frames
            (s\<lparr>sys_link := link, sys_to_broker := wire, sys_broker_up := go_on, sys_routed := sys_routed s @ new\<rparr>))
      | _ \<Rightarrow> None)"

definition broker_retries :: "nat \<Rightarrow> ('c, 'q, 'r) system \<Rightarrow> ('c, 'q, 'r) system option" where
  "broker_retries sent s =
     (if sys_broker_up s \<and> \<not> pending_is_empty (link_pending (sys_link s))
      then Some (broker_sends sent (link_resend (sys_link s)) s) else None)"

definition cad_reads ::
  "'r crypto \<Rightarrow> (nat \<Rightarrow> LinkError + MessageId) \<Rightarrow> u64 \<Rightarrow> nat \<Rightarrow> ('c, 'q, 'r) system \<Rightarrow> ('c, 'q, 'r) system option" where
  "cad_reads C ids now sent s =
     (case (sys_cad_up s, sys_to_ca s) of
        (True, received # wire) \<Rightarrow>
          let c = sys_cad s;
              (flow, frames, c') = cad_incoming C persistent_store ids now received c;
              request = (case wire_item Kind_Request received of
                           None \<Rightarrow> []
                         | Some x \<Rightarrow> if cad_current c = None \<and> \<not> dedup_contains (cad_acquired c) (fst x) then [x] else []);
              results = map (\<lambda>x. fst (process C persistent_store (cad_ca c) (snd x) now (cad_store c, cad_rng c))) request;
              new = wire_items Kind_Delivery frames in
          if \<not> fresh new (sys_published s) then None
          else Some (cad_sends sent frames
            (s\<lparr>sys_cad := c', sys_to_ca := wire, sys_cad_up := (flow = Continue), sys_running := (flow \<noteq> Exit),
               sys_processed := sys_processed s @ request, sys_results := sys_results s @ results,
               sys_published := sys_published s @ new\<rparr>))
      | _ \<Rightarrow> None)"

definition cad_retries :: "nat \<Rightarrow> ('c, 'q, 'r) system \<Rightarrow> ('c, 'q, 'r) system option" where
  "cad_retries sent s =
     (if sys_cad_up s \<and> \<not> pending_is_empty (cad_pending (sys_cad s))
      then Some (cad_sends sent (cad_resend (sys_cad s)) s) else None)"

text \<open>\<open>joined\<close>: the broker saw the end of the handshake.\<close>

definition connects :: "bool \<Rightarrow> nat \<Rightarrow> nat \<Rightarrow> ('c, 'q, 'r) system \<Rightarrow> ('c, 'q, 'r) system option" where
  "connects joined broker_sent cad_sent s =
     (if sys_broker_up s \<or> sys_cad_up s \<or> \<not> sys_running s then None
      else Some (broker_sends broker_sent (if joined then link_resend (sys_link s) else [])
        (cad_sends cad_sent (cad_resend (sys_cad s))
          (s\<lparr>sys_to_ca := [], sys_to_broker := [], sys_broker_up := joined, sys_cad_up := True\<rparr>))))"

datatype system_event =
    Agents task_event
  | Broker_takes "LinkError + MessageId" nat
  | Broker_reads "task_event list" nat
  | Broker_retries nat
  | Broker_leaves
  | Cad_reads "nat \<Rightarrow> LinkError + MessageId" u64 nat
  | Cad_retries nat
  | Cad_reloads "ConfigError + StaticEnvironmentPolicy \<times> (AgentId \<times> PublicKeys) list"
  | Cad_leaves
  | Connects bool nat nat

fun system_step ::
  "'c mpsc \<Rightarrow> 'q OfflineQueueStore \<Rightarrow> 'r crypto \<Rightarrow> system_event \<Rightarrow> ('c, 'q, 'r) system \<Rightarrow> ('c, 'q, 'r) system option" where
  "system_step Q off C (Agents event) s =
     (case task_step Q off event (link_system (sys_link s)) of
        None \<Rightarrow> None | Some system \<Rightarrow> Some (s\<lparr>sys_link := (sys_link s)\<lparr>link_system := system\<rparr>\<rparr>))"
| "system_step Q off C (Broker_takes ident sent) s = broker_takes Q ident sent s"
| "system_step Q off C (Broker_reads between sent) s = broker_reads Q off between sent s"
| "system_step Q off C (Broker_retries sent) s = broker_retries sent s"
| "system_step Q off C Broker_leaves s = Some (s\<lparr>sys_broker_up := False\<rparr>)"
| "system_step Q off C (Cad_reads ids now sent) s = cad_reads C ids now sent s"
| "system_step Q off C (Cad_retries sent) s = cad_retries sent s"
| "system_step Q off C (Cad_reloads candidate) s =
     (if sys_cad_up s then Some (s\<lparr>sys_cad := cad_reload candidate (sys_cad s)\<rparr>) else None)"
| "system_step Q off C Cad_leaves s = Some (s\<lparr>sys_cad_up := False\<rparr>)"
| "system_step Q off C (Connects joined broker_sent cad_sent) s = connects joined broker_sent cad_sent s"

inductive system_reachable ::
  "'c mpsc \<Rightarrow> 'q OfflineQueueStore \<Rightarrow> 'r crypto \<Rightarrow> ('c, 'q, 'r) system \<Rightarrow> ('c, 'q, 'r) system \<Rightarrow> bool"
  for Q off C s0 where
  start: "system_reachable Q off C s0 s0"
| step: "system_reachable Q off C s0 s \<Longrightarrow> system_step Q off C event s = Some s' \<Longrightarrow> system_reachable Q off C s0 s'"

fun system_run ::
  "'c mpsc \<Rightarrow> 'q OfflineQueueStore \<Rightarrow> 'r crypto \<Rightarrow> system_event list \<Rightarrow> ('c, 'q, 'r) system \<Rightarrow> ('c, 'q, 'r) system option" where
  "system_run Q off C [] s = Some s"
| "system_run Q off C (event # events) s =
     (case system_step Q off C event s of None \<Rightarrow> None | Some s \<Rightarrow> system_run Q off C events s)"

lemma system_run_reachable:
  "system_reachable Q off C s0 s \<Longrightarrow> system_run Q off C events s = Some s' \<Longrightarrow> system_reachable Q off C s0 s'"
  by (induction events arbitrary: s) (auto intro: system_reachable.step split: option.splits)

section \<open>The invariant\<close>

text \<open>\<open>w\<close> is the size of the broker's window. Both directions follow the exchange scheme; the broker
  takes a request only when the previous one is done, so its groups are single; an acknowledgement
  is on a wire only when its item is done with: received, and for a request all its
  deliveries routed. What is written to an end that has left is not read.\<close>

definition live :: "bool \<Rightarrow> bytes list \<Rightarrow> bytes list" where
  "live up wire = (if up then wire else [])"

definition system_inv :: "nat \<Rightarrow> ('c, 'q, 'r) system \<Rightarrow> bool" where
  "system_inv w s \<longleftrightarrow>
     exchange Kind_Request 1 (sys_taken s) (sys_processed s) (live (sys_cad_up s) (sys_to_ca s)) \<and>
     sender_ok Kind_Request 1 (sys_taken s) (sys_processed s) (link_pending (sys_link s)) \<and>
     exchange Kind_Delivery w (sys_published s) (sys_routed s) (live (sys_broker_up s) (sys_to_broker s)) \<and>
     wire_acks (live (sys_cad_up s) (sys_to_ca s)) \<subseteq> fst ` set (sys_routed s) \<and>
     wire_acks (live (sys_broker_up s) (sys_to_broker s)) \<subseteq> fst ` set (sys_processed s) \<and>
     (\<forall>i\<in>wire_acks (live (sys_broker_up s) (sys_to_broker s)). cad_current (sys_cad s) \<noteq> Some i) \<and>
     (cad_current (sys_cad s) = None \<or> sys_processed s \<noteq> [] \<and> cad_current (sys_cad s) = Some (fst (last (sys_processed s)))) \<and>
     (cad_current (sys_cad s) = None \<longrightarrow> sys_routed s = sys_published s) \<and>
     (pending_is_empty (link_pending (sys_link s)) \<longrightarrow> cad_current (sys_cad s) = None) \<and>
     dedup_inv (link_acquired (sys_link s)) \<and> dedup_maximum (link_acquired (sys_link s)) = w \<and>
     dedup_order (link_acquired (sys_link s)) = last_n w (map fst (sys_routed s)) \<and> 0 < w \<and>
     (sys_running s \<longrightarrow>
        sender_ok Kind_Delivery w (sys_published s) (sys_routed s) (cad_pending (sys_cad s)) \<and> cad_ok (sys_cad s) \<and>
        pending_maximum (cad_pending (sys_cad s)) \<le> w \<and>
        dedup_order (cad_acquired (sys_cad s)) = last_n (dedup_maximum (cad_acquired (sys_cad s))) (map fst (sys_processed s)) \<and>
        (sys_processed s \<noteq> [] \<longrightarrow> 0 < dedup_maximum (cad_acquired (sys_cad s))) \<and>
        map snd (sys_published s) = concat (map deliveries_of (sys_results s))) \<and>
     length (sys_results s) = length (sys_processed s) \<and> (sys_cad_up s \<longrightarrow> sys_running s)"

text \<open>Sending.\<close>

lemma live_simps [simp]:
  "live True wire = wire" "live False wire = []"
  "live up (wire @ take n frames) = live up wire @ take (if up then n else 0) frames"
  by (simp_all add: live_def)

lemma broker_down:
  assumes "system_inv w s"
  shows "system_inv w (s\<lparr>sys_broker_up := (sys_broker_up s \<and> b)\<rparr>)"
  using assms exchange_lost by (cases b; cases "sys_broker_up s") (auto simp: system_inv_def)

lemma cad_down:
  assumes "system_inv w s"
  shows "system_inv w (s\<lparr>sys_cad_up := (sys_cad_up s \<and> b)\<rparr>)"
  using assms exchange_lost by (cases b; cases "sys_cad_up s") (auto simp: system_inv_def)

lemma broker_sends_inv:
  assumes "system_inv w (s\<lparr>sys_to_ca := sys_to_ca s @ take n frames\<rparr>)"
  shows "system_inv w (broker_sends n frames s)"
  using broker_down [OF assms, of "length frames \<le> n"] by (simp add: broker_sends_def)

lemma cad_sends_inv:
  assumes "system_inv w (s\<lparr>sys_to_broker := sys_to_broker s @ take n frames\<rparr>)"
  shows "system_inv w (cad_sends n frames s)"
  using cad_down [OF assms, of "length frames \<le> n"] by (simp add: cad_sends_def)

lemma take_single: "take n [x] = (if n = 0 then [] else [x])"
  by (cases n) simp_all

lemma ack_frame: "wire_items kind (take n [item_bytes Kind_Ack (i, [])]) = (if kind = Kind_Ack \<and> n \<noteq> 0 then [(i, [])] else [])"
  "wire_acks (take n [item_bytes Kind_Ack (i, [])]) = (if n = 0 then {} else {i})"
  by (auto simp: take_single wire_item_ack)

lemma resend_acks:
  assumes "pends kind p items" "kind \<noteq> Kind_Ack"
  shows "wire_acks (take n (pending_snapshot p)) = {}"
proof -
  have "wire_items Kind_Ack (pending_snapshot p) = []"
    using assms wire_items_bytes [of items kind Kind_Ack] by (simp add: pends_reads(1) [OF assms(1)] pends_def)
  then show ?thesis using wire_acks_take [of n "pending_snapshot p"] by (simp add: wire_acks_def)
qed

lemma sender_pends: "sender_ok kind w sent received p \<Longrightarrow> \<exists>items. pends kind p items"
  by (auto simp: sender_ok_def)

lemma broker_resend_inv:
  assumes "system_inv w s"
  shows "system_inv w (broker_sends n (link_resend (sys_link s)) s)"
proof (rule broker_sends_inv)
  let ?n = "if sys_cad_up s then n else 0" and ?wire = "live (sys_cad_up s) (sys_to_ca s)"
  have e: "exchange Kind_Request 1 (sys_taken s) (sys_processed s) ?wire"
    "sender_ok Kind_Request 1 (sys_taken s) (sys_processed s) (link_pending (sys_link s))"
    using assms by (simp_all add: system_inv_def)
  from sender_pends [OF e(2)] have "wire_acks (take ?n (link_resend (sys_link s))) = {}"
    using resend_acks [of Kind_Request] by (auto simp: link_resend_def)
  with assms exchange_resend [OF e, of ?n]
  show "system_inv w (s\<lparr>sys_to_ca := sys_to_ca s @ take n (link_resend (sys_link s))\<rparr>)"
    by (simp add: system_inv_def link_resend_def del: if_split)
qed

lemma cad_resend_inv:
  assumes "system_inv w s" "sys_running s"
  shows "system_inv w (cad_sends n (cad_resend (sys_cad s)) s)"
proof (rule cad_sends_inv)
  let ?n = "if sys_broker_up s then n else 0" and ?wire = "live (sys_broker_up s) (sys_to_broker s)"
  have e: "exchange Kind_Delivery w (sys_published s) (sys_routed s) ?wire"
    "sender_ok Kind_Delivery w (sys_published s) (sys_routed s) (cad_pending (sys_cad s))"
    using assms by (simp_all add: system_inv_def)
  from sender_pends [OF e(2)] have "wire_acks (take ?n (cad_resend (sys_cad s))) = {}"
    using resend_acks [of Kind_Delivery] by (auto simp: cad_resend_def)
  with assms exchange_resend [OF e, of ?n]
  show "system_inv w (s\<lparr>sys_to_broker := sys_to_broker s @ take n (cad_resend (sys_cad s))\<rparr>)"
    by (simp add: system_inv_def cad_resend_def del: if_split)
qed

lemma connects_inv:
  assumes "system_inv w s" "connects joined m n s = Some s'"
  shows "system_inv w s'"
proof -
  let ?s = "s\<lparr>sys_to_ca := [], sys_to_broker := [], sys_broker_up := joined, sys_cad_up := True\<rparr>"
  have run: "sys_running s" and s': "s' = broker_sends m (if joined then link_resend (sys_link s) else []) (cad_sends n (cad_resend (sys_cad s)) ?s)"
    using assms(2) by (auto simp: connects_def split: if_splits)
  have "system_inv w ?s" using assms(1) run exchange_lost by (auto simp: system_inv_def live_def)
  from cad_resend_inv [OF this, of n] run have cad: "system_inv w (cad_sends n (cad_resend (sys_cad s)) ?s)" by simp
  show ?thesis
  proof (cases joined)
    case True
    with broker_resend_inv [OF cad, of m] s' show ?thesis by (simp add: cad_sends_def)
  next
    case False
    have "s' = broker_sends m [] (cad_sends n (cad_resend (sys_cad s)) ?s)" using s' False by simp
    then show ?thesis using cad by (simp add: broker_sends_inv)
  qed
qed



lemma exchange_new:
  assumes "exchange kind w sent sent wire" "pends kind p batch" "fresh batch sent" "length batch \<le> w"
  shows "exchange kind w (sent @ batch) sent (wire @ take n (map (item_bytes kind) batch))"
    "sender_ok kind w (sent @ batch) sent p"
proof -
  have "distinct (map fst (sent @ batch))"
    using assms(1,3) pends_reads(4) [OF assms(2)] by (auto simp: exchange_def fresh_def)
  note e = exchange_group [OF assms(1,2) this assms(4)]
  show "sender_ok kind w (sent @ batch) sent p" by (rule e)
  from exchange_resend [OF e, of n] pends_reads(1) [OF assms(2)]
  show "exchange kind w (sent @ batch) sent (wire @ take n (map (item_bytes kind) batch))" by simp
qed

lemma broker_takes_inv:
  assumes inv: "system_inv w s" and run: "broker_takes Q ident n s = Some s'"
  shows "system_inv w s'"
proof -
  let ?n = "if sys_cad_up s then n else 0" and ?wire = "live (sys_cad_up s) (sys_to_ca s)"
  from run obtain frames link where l: "link_request Q ident (sys_link s) = Some (frames, link)"
    "fresh (wire_items Kind_Request frames) (sys_taken s)"
    "s' = broker_sends n frames (s\<lparr>sys_link := link, sys_taken := sys_taken s @ wire_items Kind_Request frames\<rparr>)"
    by (auto simp: broker_takes_def Let_def split: if_splits option.splits)
  have e: "exchange Kind_Request 1 (sys_taken s) (sys_processed s) ?wire"
    "sender_ok Kind_Request 1 (sys_taken s) (sys_processed s) (link_pending (sys_link s))"
    using inv by (simp_all add: system_inv_def)
  obtain items where pend: "pends Kind_Request (link_pending (sys_link s)) items" using sender_pends [OF e(2)] by blast
  note eff = link_request_effect [OF l(1) pend]
  then have empty: "pending_is_empty (link_pending (sys_link s))" using pends_reads(2) [OF pend] by simp
  have done_: "sys_processed s = sys_taken s" by (rule sender_idle [OF e empty])
  have acq: "link_acquired link = link_acquired (sys_link s)" using eff by blast
  have cur: "cad_current (sys_cad s) = None" using inv empty by (simp add: system_inv_def)
  from eff consider "link_pending link = link_pending (sys_link s)" "frames = []"
    | i request where "pends Kind_Request (link_pending link) [(i, request)]" "frames = map (item_bytes Kind_Request) [(i, request)]"
    by auto
  then have "system_inv w (s\<lparr>sys_link := link, sys_taken := sys_taken s @ wire_items Kind_Request frames,
      sys_to_ca := sys_to_ca s @ take n frames\<rparr>)"
  proof cases
    case 1
    with inv acq show ?thesis by (simp add: system_inv_def)
  next
    case 2
    let ?x = "[(i, request)]"
    have new: "wire_items Kind_Request frames = ?x" "wire_acks (take ?n frames) = {}"
      using 2 by (auto simp: wire_item_bytes pends_def take_single)
    note x = exchange_new(1) [of Kind_Request 1 "sys_taken s" ?wire "link_pending link" ?x ?n]
      exchange_new(2) [of Kind_Request 1 "sys_taken s" ?wire "link_pending link" ?x]
    have "exchange Kind_Request 1 (sys_taken s @ ?x) (sys_processed s) (?wire @ take ?n frames)"
      "sender_ok Kind_Request 1 (sys_taken s @ ?x) (sys_processed s) (link_pending link)"
      using x e(1) 2 l(2) new done_ by simp_all
    with inv acq new cur show ?thesis by (auto simp: system_inv_def simp del: if_split)
  qed
  then show ?thesis unfolding l(3) by (intro broker_sends_inv) simp
qed

text \<open>What the windows know.\<close>

lemma in_last_n_set: "x \<in> set (last_n n xs) \<Longrightarrow> x \<in> set xs"
  by (auto simp: last_n_def dest: in_set_dropD)

lemma last_n_mono: "m \<le> n \<Longrightarrow> set (last_n m xs) \<subseteq> set (last_n n xs)"
  unfolding last_n_def by (intro set_drop_subset_set_drop) simp

lemma dedup_new_item:
  assumes "dedup_inv win" "dedup_order win = last_n (dedup_maximum win) ids" "ident \<notin> set ids"
  shows "\<not> dedup_contains win ident"
    "dedup_order (snd (dedup_insert win ident)) = last_n (dedup_maximum win) (ids @ [ident])"
proof -
  have no: "ident \<notin> set (dedup_order win)" using assms(2,3) in_last_n_set by metis
  then show "\<not> dedup_contains win ident" using dedup_contains_order [OF assms(1)] by simp
  show "dedup_order (snd (dedup_insert win ident)) = last_n (dedup_maximum win) (ids @ [ident])"
    using dedup_insert_refines(3) [OF assms(1), of ident] no assms(2) last_n_append_one by simp
qed

lemma sender_single:
  assumes "sender_ok kind 1 sent received p"
  shows "\<exists>items. pends kind p items \<and> (items = [] \<or> items = [last sent])"
proof -
  obtain first acked where s: "length sent \<le> first + 1" "pends kind p (filter (\<lambda>x. fst x \<notin> acked) (drop first sent))"
    using assms by (auto simp: sender_ok_def)
  have "drop first sent = [] \<or> drop first sent = [last sent]"
  proof (cases "first < length sent")
    case True
    then have "drop first sent = [sent ! first]" using s(1) by (metis Cons_nth_drop_Suc Suc_eq_plus1 drop_all)
    moreover have "last (drop first sent) = last sent" using True by (simp add: last_drop)
    ultimately show ?thesis by simp
  qed simp
  then have "filter (\<lambda>x. fst x \<notin> acked) (drop first sent) = [] \<or>
      filter (\<lambda>x. fst x \<notin> acked) (drop first sent) = [last sent]"
    by (cases "fst (last sent) \<in> acked") auto
  with s(2) show ?thesis by blast
qed

lemma broker_reads_inv:
  assumes inv: "system_inv w s" and run: "broker_reads Q off between n s = Some s'"
  shows "system_inv w s'"
proof -
  let ?l = "sys_link s" and ?n = "if sys_cad_up s then n else 0" and ?wire = "live (sys_cad_up s) (sys_to_ca s)"
  from run obtain received wire where up: "sys_broker_up s" "sys_to_broker s = received # wire"
    by (auto simp: broker_reads_def split: bool.splits list.splits)
  obtain go_on frames link where inc: "link_incoming Q off between received ?l = (go_on, frames, link)" by (metis prod.exhaust)
  let ?new = "case wire_item Kind_Delivery received of None \<Rightarrow> []
     | Some x \<Rightarrow> if \<not> dedup_contains (link_acquired ?l) (fst x) \<and> is_ok (fst (ca_deliver Q off between (snd x) (link_system ?l))) then [x] else []"
  have s': "s' = broker_sends n frames (s\<lparr>sys_link := link, sys_to_broker := wire, sys_broker_up := go_on, sys_routed := sys_routed s @ ?new\<rparr>)"
    using run up inc by (simp add: broker_reads_def Let_def)
  have e: "exchange Kind_Request 1 (sys_taken s) (sys_processed s) ?wire"
    "sender_ok Kind_Request 1 (sys_taken s) (sys_processed s) (link_pending ?l)"
    "exchange Kind_Delivery w (sys_published s) (sys_routed s) (received # wire)"
    "dedup_inv (link_acquired ?l)" "dedup_order (link_acquired ?l) = last_n w (map fst (sys_routed s))"
    "dedup_maximum (link_acquired ?l) = w" "0 < w"
    using inv up by (simp_all add: system_inv_def)
  consider (ack) f where "decode_link received = Inr f" "link_kind f = Kind_Ack"
    | (delivery) f where "decode_link received = Inr f" "link_kind f = Kind_Delivery"
    | (other) "\<And>f. decode_link received = Inr f \<Longrightarrow> link_kind f \<notin> {Kind_Ack, Kind_Delivery}"
    by blast
  then show ?thesis
  proof cases
    case ack
    note wi = wire_item_decode [OF ack(1)]
    let ?p = "snd (pending_acknowledge (link_pending ?l) (link_id f))"
    have s'': "s' = s\<lparr>sys_link := ?l\<lparr>link_pending := ?p\<rparr>, sys_to_broker := wire\<rparr>"
      using s' inc up by (simp add: link_incoming_ack [OF ack] wi ack(2) broker_sends_def)
    have id: "link_id f \<in> fst ` set (sys_processed s)" "cad_current (sys_cad s) \<noteq> Some (link_id f)"
      using inv by (simp_all add: system_inv_def up wi ack(2))
    have snd: "sender_ok Kind_Request 1 (sys_taken s) (sys_processed s) ?p" by (rule sender_ack [OF e(2) id(1)])
    have cur: "cad_current (sys_cad s) = None" if "pending_is_empty ?p"
    proof (cases "pending_is_empty (link_pending ?l)")
      case True
      with inv show ?thesis by (simp add: system_inv_def)
    next
      case False
      obtain items where items: "pends Kind_Request (link_pending ?l) items" "items = [] \<or> items = [last (sys_taken s)]"
        using sender_single [OF e(2)] by blast
      have "items \<noteq> []" using False pends_reads(2) [OF items(1)] by simp
      moreover have "filter (\<lambda>x. fst x \<noteq> link_id f) items = []"
        using that pends_reads(2) [OF pends_ack(1) [OF items(1)]] by simp
      ultimately have "fst (last (sys_taken s)) = link_id f" using items(2) by (auto split: if_splits)
      moreover have "sys_processed s = sys_taken s" by (rule sender_idle [OF e(1) snd that])
      ultimately show ?thesis using inv id(2) by (auto simp: system_inv_def)
    qed
    show ?thesis
      using inv snd cur exchange_other(1) [OF e(3)]
      by (simp add: system_inv_def s'' up wi ack(2))
  next
    case delivery
    note wi = wire_item_decode [OF delivery(1)]
    let ?x = "(link_id f, link_payload f)"
    have x: "wire_item Kind_Delivery received = Some ?x" "wire_item Kind_Ack received = None"
      by (simp_all add: wi delivery(2))
    obtain result system where cd: "ca_deliver Q off between (link_payload f) (link_system ?l) = (result, system)" by fastforce
    note inc' = link_incoming_delivery [OF delivery, of Q off between ?l, unfolded inc cd]
    from exchange_receive [OF e(3) x(1)] show ?thesis
    proof
      assume old: "fst ?x \<in> set (last_n w (map fst (sys_routed s))) \<and> exchange Kind_Delivery w (sys_published s) (sys_routed s) wire"
      then have known: "dedup_contains (link_acquired ?l) (link_id f)" using dedup_contains_order [OF e(4)] e(5) by simp
      have routed: "link_id f \<in> fst ` set (sys_routed s)" using old in_last_n_set by fastforce
      have "s' = broker_sends n [item_bytes Kind_Ack (link_id f, [])] (s\<lparr>sys_to_broker := wire, sys_broker_up := True\<rparr>)"
        using s' inc' known up x by simp
      moreover have "system_inv w (s\<lparr>sys_to_broker := wire, sys_broker_up := True, sys_to_ca := sys_to_ca s @ take n [item_bytes Kind_Ack (link_id f, [])]\<rparr>)"
        using inv old routed exchange_other(2) [OF e(1), of "take ?n [item_bytes Kind_Ack (link_id f, [])]"]
        by (simp add: system_inv_def up x ack_frame del: if_split)
      ultimately show ?thesis by (auto intro: broker_sends_inv)
    next
      assume new: "fst ?x \<notin> fst ` set (sys_routed s) \<and> ?x \<in> set (sys_published s) \<and>
        exchange Kind_Delivery w (sys_published s) (sys_routed s @ [?x]) wire"
      have max: "dedup_order (link_acquired ?l) = last_n (dedup_maximum (link_acquired ?l)) (map fst (sys_routed s))"
        using e(5,6) by simp
      have unknown: "\<not> dedup_contains (link_acquired ?l) (link_id f)"
        "dedup_order (snd (dedup_insert (link_acquired ?l) (link_id f))) = last_n w (map fst (sys_routed s) @ [link_id f])"
        using dedup_new_item [OF e(4) max, of "link_id f"] new e(6) by simp_all
      show ?thesis
      proof (cases "is_ok result")
        case False
        then have "s' = s\<lparr>sys_link := ?l\<lparr>link_system := system\<rparr>, sys_to_broker := wire, sys_broker_up := False\<rparr>"
          using s' inc' unknown(1) cd x by (simp add: broker_sends_def Let_def split: prod.splits)
        with inv exchange_lost [OF e(3)] show ?thesis by (simp add: system_inv_def)
      next
        case True
        obtain acquired where ins: "dedup_insert (link_acquired ?l) (link_id f) = (Inr (), acquired)"
          using dedup_insert_refines(1) [OF e(4), of "link_id f"] e(6,7) by (metis less_not_refl prod.collapse)
        have acq: "dedup_inv acquired" "dedup_maximum acquired = w" "dedup_order acquired = last_n w (map fst (sys_routed s) @ [link_id f])"
          using dedup_insert_refines(2,4) [OF e(4), of "link_id f"] unknown(2) ins e(6) by simp_all
        have "s' = broker_sends n [item_bytes Kind_Ack (link_id f, [])]
            (s\<lparr>sys_link := ?l\<lparr>link_system := system, link_acquired := acquired\<rparr>, sys_to_broker := wire,
               sys_broker_up := True, sys_routed := sys_routed s @ [?x]\<rparr>)"
          using s' inc' unknown(1) cd x True ins up by simp
        moreover have "cad_current (sys_cad s) \<noteq> None"
        proof
          assume "cad_current (sys_cad s) = None"
          then have "sys_routed s = sys_published s" using inv by (simp add: system_inv_def)
          with new show False by (metis imageI)
        qed
        then have "system_inv w (s\<lparr>sys_link := ?l\<lparr>link_system := system, link_acquired := acquired\<rparr>, sys_to_broker := wire,
               sys_broker_up := True, sys_routed := sys_routed s @ [?x], sys_to_ca := sys_to_ca s @ take n [item_bytes Kind_Ack (link_id f, [])]\<rparr>)"
          using inv new acq exchange_other(2) [OF e(1), of "take ?n [item_bytes Kind_Ack (link_id f, [])]"]
            sender_received [of Kind_Delivery w "sys_published s" "sys_routed s" "cad_pending (sys_cad s)" "[?x]"]
          by (auto simp: system_inv_def up x ack_frame)
        ultimately show ?thesis by (auto intro: broker_sends_inv)
      qed
    qed
  next
    case other
    then have none: "wire_item Kind_Delivery received = None" "wire_item Kind_Ack received = None"
      by (auto simp: wire_item_def split: sum.splits)
    have "s' = s\<lparr>sys_to_broker := wire, sys_broker_up := False\<rparr>"
      using s' inc by (simp add: link_incoming_other [OF other] none broker_sends_def)
    with inv exchange_lost [OF e(3)] show ?thesis by (simp add: system_inv_def up none)
  qed
qed

lemma cad_ack_inv:
  assumes inv: "system_inv w s" and up: "sys_cad_up s" "sys_to_ca s = received # wire"
    and f: "decode_link received = Inr f" "link_kind f = Kind_Ack" and run: "cad_reads C ids now n s = Some s'"
  shows "system_inv w s'"
proof -
  let ?c = "sys_cad s" and ?p = "snd (pending_acknowledge (cad_pending (sys_cad s)) (link_id f))"
  let ?n = "if sys_broker_up s then n else 0" and ?wire = "live (sys_broker_up s) (sys_to_broker s)"
  let ?c' = "?c\<lparr>cad_pending := ?p, cad_current := (if pending_is_empty ?p then None else cad_current ?c)\<rparr>"
  let ?frames = "case cad_current ?c of Some rid \<Rightarrow> if pending_is_empty ?p then [item_bytes Kind_Ack (rid, [])] else [] | None \<Rightarrow> []"
  note wi = wire_item_decode [OF f(1)]
  have r: "sys_running s" using inv up(1) by (simp add: system_inv_def)
  have e: "exchange Kind_Request 1 (sys_taken s) (sys_processed s) (received # wire)"
    "exchange Kind_Delivery w (sys_published s) (sys_routed s) ?wire"
    "sender_ok Kind_Delivery w (sys_published s) (sys_routed s) (cad_pending ?c)" "cad_ok ?c"
    "link_id f \<in> fst ` set (sys_routed s)"
    using inv up r by (simp_all add: system_inv_def wi f(2))
  note inc = cad_incoming_ack [OF e(4) f]
  have new: "wire_items Kind_Delivery ?frames = []"
    using ack_frame(1) [of Kind_Delivery 1] by (auto split: option.splits)
  have s': "s' = cad_sends n ?frames (s\<lparr>sys_cad := ?c', sys_to_ca := wire, sys_cad_up := True, sys_running := True\<rparr>)"
    using run up new by (simp add: cad_reads_def inc(1) Let_def wi f(2) fresh_def)
  have snd: "sender_ok Kind_Delivery w (sys_published s) (sys_routed s) ?p" by (rule sender_ack [OF e(3,5)])
  have idle: "sys_routed s = sys_published s" if "pending_is_empty ?p" by (rule sender_idle [OF e(2) snd that])
  have ack: "wire_items Kind_Delivery (take ?n ?frames) = []"
    "wire_acks (take ?n ?frames) \<subseteq> (if pending_is_empty ?p then set_option (cad_current ?c) else {})"
    by (auto simp: ack_frame split: option.splits)
  have cur: "set_option (cad_current ?c) \<subseteq> fst ` set (sys_processed s)"
    using inv by (auto simp: system_inv_def)
  have "system_inv w (s\<lparr>sys_cad := ?c', sys_to_ca := wire, sys_cad_up := True, sys_running := True,
      sys_to_broker := sys_to_broker s @ take n ?frames\<rparr>)"
    using inv up r snd idle inc(2,3) ack cur exchange_other(1) [OF e(1)] exchange_other(2) [OF e(2) ack(1)]
    unfolding system_inv_def by (auto simp: wi f(2) simp del: if_split split: if_split_asm)
  then show ?thesis unfolding s' by (intro cad_sends_inv) simp
qed

lemma cad_reads_request:
  assumes up: "sys_cad_up s" "sys_to_ca s = received # wire"
    and x: "wire_item Kind_Request received = Some x" and old: "cad_current (sys_cad s) \<noteq> None \<or> dedup_contains (cad_acquired (sys_cad s)) (fst x)"
    and run: "cad_reads C ids now n s = Some s'"
  shows "s' = (let c = sys_cad s in
      if cad_current c = Some (fst x) then cad_sends n [] (s\<lparr>sys_to_ca := wire, sys_cad_up := True, sys_running := True\<rparr>)
      else if dedup_contains (cad_acquired c) (fst x)
      then cad_sends n [item_bytes Kind_Ack (fst x, [])] (s\<lparr>sys_to_ca := wire, sys_cad_up := True, sys_running := True\<rparr>)
      else cad_sends n [] (s\<lparr>sys_to_ca := wire, sys_cad_up := False, sys_running := True\<rparr>))"
proof -
  obtain f where f: "decode_link received = Inr f" "link_kind f = Kind_Request" "x = (link_id f, link_payload f)"
    using x by (auto simp: wire_item_def split: sum.splits if_splits)
  have "wire_items Kind_Delivery [item_bytes Kind_Ack (fst x, [])] = []" using wire_item_ack by simp
  with run up x old f show ?thesis
    by (auto simp: cad_reads_def cad_incoming_request [OF f(1,2)] Let_def fresh_def)
qed

lemma cad_request_inv:
  assumes inv: "system_inv w s" and up: "sys_cad_up s" "sys_to_ca s = received # wire"
    and x: "wire_item Kind_Request received = Some x" and run: "cad_reads C ids now n s = Some s'"
  shows "system_inv w s'"
proof -
  let ?c = "sys_cad s" and ?n = "if sys_broker_up s then n else 0" and ?wire = "live (sys_broker_up s) (sys_to_broker s)"
  obtain f where f: "decode_link received = Inr f" "link_kind f = Kind_Request" "x = (link_id f, link_payload f)"
    using x by (auto simp: wire_item_def split: sum.splits if_splits)
  have noack: "wire_item Kind_Ack received = None" using f by (simp add: wire_item_def)
  have r: "sys_running s" using inv up(1) by (simp add: system_inv_def)
  have e: "exchange Kind_Request 1 (sys_taken s) (sys_processed s) (received # wire)"
    "exchange Kind_Delivery w (sys_published s) (sys_routed s) ?wire"
    "sender_ok Kind_Request 1 (sys_taken s) (sys_processed s) (link_pending (sys_link s))" "cad_ok ?c"
    "dedup_order (cad_acquired ?c) = last_n (dedup_maximum (cad_acquired ?c)) (map fst (sys_processed s))"
    "sys_processed s \<noteq> [] \<longrightarrow> 0 < dedup_maximum (cad_acquired ?c)"
    using inv up r by (simp_all add: system_inv_def)
  have dedup: "dedup_inv (cad_acquired ?c)" using e(4) by (simp add: cad_ok_def)
  from exchange_receive [OF e(1) x] show ?thesis
  proof
    assume old: "fst x \<in> set (last_n 1 (map fst (sys_processed s))) \<and> exchange Kind_Request 1 (sys_taken s) (sys_processed s) wire"
    then have p: "fst x \<in> fst ` set (sys_processed s)" "fst x \<in> set (last_n (dedup_maximum (cad_acquired ?c)) (map fst (sys_processed s)))"
      using in_last_n_set last_n_mono [of 1 "dedup_maximum (cad_acquired ?c)" "map fst (sys_processed s)"] e(6)
      by (fastforce simp: last_n_def)+
    then have known: "dedup_contains (cad_acquired ?c) (fst x)" using dedup_contains_order [OF dedup] e(5) by simp
    let ?frames = "if cad_current ?c = Some (fst x) then [] else [item_bytes Kind_Ack (fst x, [])]"
    have s': "s' = cad_sends n ?frames (s\<lparr>sys_to_ca := wire, sys_cad_up := True, sys_running := True\<rparr>)"
      using cad_reads_request [OF up x _ run] known by (simp add: Let_def)
    have ack: "wire_items Kind_Delivery (take ?n ?frames) = []"
      "wire_acks (take ?n ?frames) \<subseteq> (if cad_current ?c = Some (fst x) then {} else {fst x})"
      by (auto simp: ack_frame)
    have "system_inv w (s\<lparr>sys_to_ca := wire, sys_cad_up := True, sys_running := True, sys_to_broker := sys_to_broker s @ take n ?frames\<rparr>)"
      using inv up r old p(1) ack exchange_other(2) [OF e(2) ack(1)]
      unfolding system_inv_def by (auto simp: noack simp del: if_split split: if_split_asm)
    then show ?thesis unfolding s' by (intro cad_sends_inv) simp
  next
    assume new: "fst x \<notin> fst ` set (sys_processed s) \<and> x \<in> set (sys_taken s) \<and>
      exchange Kind_Request 1 (sys_taken s) (sys_processed s @ [x]) wire"
    have unknown: "\<not> dedup_contains (cad_acquired ?c) (fst x)"
      "dedup_order (snd (dedup_insert (cad_acquired ?c) (fst x))) = last_n (dedup_maximum (cad_acquired ?c)) (map fst (sys_processed s) @ [fst x])"
      using dedup_new_item [OF dedup e(5), of "fst x"] new by simp_all
    show ?thesis
    proof (cases "cad_current ?c")
      case (Some rid)
      then have "sys_processed s \<noteq> [] \<and> rid = fst (last (sys_processed s))" using inv by (simp add: system_inv_def)
      then have "rid \<noteq> fst x" using new by (metis imageI last_in_set)
      then have s': "s' = cad_sends n [] (s\<lparr>sys_to_ca := wire, sys_cad_up := False, sys_running := True\<rparr>)"
        using cad_reads_request [OF up x _ run] Some unknown(1) by (simp add: Let_def)
      have "system_inv w (s\<lparr>sys_to_ca := wire, sys_cad_up := False, sys_running := True\<rparr>)"
        using inv up r exchange_lost [OF e(1)] by (simp add: system_inv_def)
      then show ?thesis unfolding s' by (intro cad_sends_inv) simp
    next
      case None
      obtain result store rng where p: "process C persistent_store (cad_ca ?c) (snd x) now (cad_store ?c, cad_rng ?c) = (result, (store, rng))"
        by (metis prod.exhaust)
      obtain flow frames c' where inc: "cad_request C persistent_store ids now (fst x) (snd x) ?c = (flow, frames, c')"
        by (metis prod.exhaust)
      let ?new = "wire_items Kind_Delivery frames"
      have "cad_incoming C persistent_store ids now received ?c = (flow, frames, c')"
        using inc None unknown(1) by (simp add: cad_incoming_request [OF f(1,2)] f(3))
      with run up x None unknown(1) p have s': "fresh ?new (sys_published s)"
        "s' = cad_sends n frames (s\<lparr>sys_cad := c', sys_to_ca := wire, sys_cad_up := (flow = Continue), sys_running := (flow \<noteq> Exit),
           sys_processed := sys_processed s @ [x], sys_results := sys_results s @ [result], sys_published := sys_published s @ ?new\<rparr>)"
        by (simp_all add: cad_reads_def Let_def split: if_splits)
      note eff = cad_request_effect [OF e(4) None inc p]
      have idle: "sys_routed s = sys_published s" using inv None by (simp add: system_inv_def)
      have busy: "\<not> pending_is_empty (link_pending (sys_link s))"
      proof
        assume "pending_is_empty (link_pending (sys_link s))"
        then have "sys_processed s = sys_taken s" by (rule sender_idle [OF exchange_lost [OF e(1)] e(3)])
        with new show False by (metis imageI)
      qed
      have snd: "sender_ok Kind_Request 1 (sys_taken s) (sys_processed s @ [x]) (link_pending (sys_link s))"
        by (rule sender_received [OF e(3)])
      show ?thesis
      proof (cases flow)
        case Exit
        then have "s' = s\<lparr>sys_cad := c', sys_to_ca := wire, sys_cad_up := False, sys_running := False,
           sys_processed := sys_processed s @ [x], sys_results := sys_results s @ [result]\<rparr>" "cad_current c' = None"
          using s'(2) eff by (simp_all add: cad_sends_def)
        with inv idle busy snd new exchange_lost [of Kind_Request 1 "sys_taken s" "sys_processed s @ [x]" wire] show ?thesis
          unfolding system_inv_def by auto
      next
        case Continue
        then obtain batch where g: "cad_ok c'" "map snd batch = deliveries_of result"
          "cad_acquired c' = snd (dedup_insert (cad_acquired ?c) (fst x))" "cad_current c' = (if batch = [] then None else Some (fst x))"
          "pends Kind_Delivery (cad_pending c') batch" "pending_maximum (cad_pending c') = pending_maximum (cad_pending ?c)"
          "length batch \<le> pending_maximum (cad_pending ?c)" "0 < dedup_maximum (cad_acquired ?c)"
          "frames = (if batch = [] then [item_bytes Kind_Ack (fst x, [])] else map (item_bytes Kind_Delivery) batch)"
          using eff by auto
        have valid: "\<forall>y\<in>set batch. link_valid (item_frame Kind_Delivery y)" using g(5) by (simp add: pends_def)
        have new': "?new = batch"
          using g(9) wire_items_bytes [OF valid, of Kind_Delivery] ack_frame(1) [of Kind_Delivery 1] by auto
        have acks: "wire_acks (take ?n frames) \<subseteq> (if batch = [] then {fst x} else {})"
          using g(9) resend_acks [OF g(5)] pends_reads(1) [OF g(5)] by (simp add: ack_frame)
        have "pending_maximum (cad_pending ?c) \<le> w" using inv r by (simp add: system_inv_def)
        then have len: "length batch \<le> w" using g(7) by simp
        have deliveries: "exchange Kind_Delivery w (sys_published s @ batch) (sys_routed s) (?wire @ take ?n frames)"
          "sender_ok Kind_Delivery w (sys_published s @ batch) (sys_routed s) (cad_pending c')"
        proof -
          note x = exchange_new(1) [of Kind_Delivery w "sys_published s" ?wire "cad_pending c'" batch ?n]
            exchange_new(2) [of Kind_Delivery w "sys_published s" ?wire "cad_pending c'" batch]
          show "sender_ok Kind_Delivery w (sys_published s @ batch) (sys_routed s) (cad_pending c')"
            using x(2) e(2) g(5) s'(1) len idle new' by simp
          show "exchange Kind_Delivery w (sys_published s @ batch) (sys_routed s) (?wire @ take ?n frames)"
          proof (cases "batch = []")
            case True
            with exchange_other(2) [OF e(2), of "take ?n frames"] g(9) ack_frame(1) [of Kind_Delivery ?n "fst x"] show ?thesis by simp
          next
            case False
            with x(1) e(2) g(5,9) s'(1) len idle new' show ?thesis by simp
          qed
        qed
        have "system_inv w (s\<lparr>sys_cad := c', sys_to_ca := wire, sys_cad_up := True, sys_running := True,
            sys_processed := sys_processed s @ [x], sys_results := sys_results s @ [result], sys_published := sys_published s @ batch,
            sys_to_broker := sys_to_broker s @ take n frames\<rparr>)"
        proof -
          have 1: "wire_acks wire \<subseteq> fst ` set (sys_routed s)" using inv up noack by (simp add: system_inv_def)
          have 2: "\<forall>i\<in>wire_acks (?wire @ take ?n frames). i \<in> fst ` set (sys_processed s @ [x]) \<and> cad_current c' \<noteq> Some i"
            using inv acks new g(4) by (auto simp: system_inv_def split: if_splits)
          have 3: "dedup_order (cad_acquired c') = last_n (dedup_maximum (cad_acquired c')) (map fst (sys_processed s @ [x]))"
            "0 < dedup_maximum (cad_acquired c')"
            using unknown(2) dedup_insert_refines(4) [OF dedup] g(3,8) by simp_all
          have 4: "map snd (sys_published s @ batch) = concat (map deliveries_of (sys_results s @ [result]))"
            using inv r g(2) by (simp add: system_inv_def)
          show ?thesis
            using inv r up new snd deliveries 1 2 3 4 busy idle g(1,4,6) unfolding system_inv_def
            by (auto simp del: if_split split: if_split_asm)
        qed
        then show ?thesis unfolding s'(2) new' using Continue by (intro cad_sends_inv) simp
      qed (use eff in simp)
    qed
  qed
qed

lemma cad_reads_inv:
  assumes inv: "system_inv w s" and run: "cad_reads C ids now n s = Some s'"
  shows "system_inv w s'"
proof -
  from run obtain received wire where up: "sys_cad_up s" "sys_to_ca s = received # wire"
    by (auto simp: cad_reads_def split: bool.splits list.splits)
  consider (ack) f where "decode_link received = Inr f" "link_kind f = Kind_Ack"
    | (request) x where "wire_item Kind_Request received = Some x"
    | (other) "\<And>f. decode_link received = Inr f \<Longrightarrow> link_kind f \<notin> {Kind_Ack, Kind_Request}"
    by (metis (no_types, lifting) empty_iff insert_iff wire_item_decode)
  then show ?thesis
  proof cases
    case ack
    with cad_ack_inv [OF inv up _ _ run] show ?thesis by blast
  next
    case request
    with cad_request_inv [OF inv up _ run] show ?thesis by blast
  next
    case other
    have none: "wire_item Kind_Request received = None"
      using other by (cases "decode_link received") (auto simp: wire_item_def)
    have "s' = s\<lparr>sys_to_ca := wire, sys_running := True, sys_cad_up := False\<rparr>"
      using run up by (simp add: cad_reads_def cad_incoming_other [OF other] none fresh_def cad_sends_def)
    moreover have "sys_running s" using inv up(1) by (simp add: system_inv_def)
    moreover have "exchange Kind_Request 1 (sys_taken s) (sys_processed s) (received # wire)"
      using inv up by (simp add: system_inv_def)
    ultimately show ?thesis using inv exchange_lost by (fastforce simp: system_inv_def)
  qed
qed

lemma cad_reload_inv:
  assumes inv: "system_inv w s"
  shows "system_inv w (s\<lparr>sys_cad := cad_reload candidate (sys_cad s)\<rparr>)"
proof -
  have same: "cad_pending (cad_reload candidate c) = cad_pending c" "cad_acquired (cad_reload candidate c) = cad_acquired c"
    "cad_current (cad_reload candidate c) = cad_current c" for c
    by (auto simp: cad_reload_def split: sum.splits prod.splits)
  from inv show ?thesis unfolding system_inv_def by (simp add: same cad_reload_ok cong: imp_cong)
qed

lemma system_step_inv:
  assumes inv: "system_inv w s" and run: "system_step Q off C event s = Some s'"
  shows "system_inv w s'"
proof (cases event)
  case (Agents e)
  with run obtain system where "s' = s\<lparr>sys_link := (sys_link s)\<lparr>link_system := system\<rparr>\<rparr>"
    by (auto split: if_splits option.splits)
  with inv show ?thesis by (simp add: system_inv_def)
next
  case (Broker_takes ident n)
  with run broker_takes_inv [OF inv] show ?thesis by simp
next
  case (Broker_reads between n)
  with run broker_reads_inv [OF inv] show ?thesis by simp
next
  case (Broker_retries n)
  with run broker_resend_inv [OF inv] show ?thesis by (auto simp: broker_retries_def split: if_splits)
next
  case Broker_leaves
  with run broker_down [OF inv, of False] show ?thesis by simp
next
  case (Cad_reads ids now n)
  with run cad_reads_inv [OF inv] show ?thesis by simp
next
  case (Cad_retries n)
  have "sys_cad_up s \<longrightarrow> sys_running s" using inv by (simp add: system_inv_def)
  with Cad_retries run cad_resend_inv [OF inv] show ?thesis by (auto simp: cad_retries_def split: if_splits)
next
  case (Cad_reloads candidate)
  with run cad_reload_inv [OF inv] show ?thesis by (auto split: if_splits)
next
  case Cad_leaves
  with run cad_down [OF inv, of False] show ?thesis by simp
next
  case (Connects joined m n)
  with run connects_inv [OF inv] show ?thesis by simp
qed

lemma system_start_inv:
  assumes "cad_idle c" "pending_maximum (cad_pending c) \<le> w" "0 < w"
  shows "system_inv w (system_start (link_start r pending_depth w) c)"
proof -
  have "dedup_maximum (DedupWindow_new w) = w" by (simp add: DedupWindow_new_def)
  moreover have "sender_ok Kind_Delivery w [] [] (cad_pending c)"
    using assms(1) by (auto simp: sender_ok_def cad_idle_def)
  ultimately show ?thesis
    using assms by (simp add: system_inv_def system_start_def link_start_def exchange_start dedup_new last_n_def cad_idle_def)
qed

lemma system_reachable_inv:
  assumes "system_reachable Q off C s0 s" "system_inv w s0"
  shows "system_inv w s"
  using assms by (induction rule: system_reachable.induct) (auto intro: system_step_inv)

section \<open>What the agents are sent\<close>

lemma sends_fields [simp]:
  "sys_link (broker_sends n frames s) = sys_link s" "sys_routed (broker_sends n frames s) = sys_routed s"
  "sys_link (cad_sends n frames s) = sys_link s" "sys_routed (cad_sends n frames s) = sys_routed s"
  "sys_taken (broker_sends n frames s) = sys_taken s" "sys_taken (cad_sends n frames s) = sys_taken s"
  "sys_processed (broker_sends n frames s) = sys_processed s" "sys_processed (cad_sends n frames s) = sys_processed s"
  "sys_published (broker_sends n frames s) = sys_published s" "sys_published (cad_sends n frames s) = sys_published s"
  by (simp_all add: broker_sends_def cad_sends_def)

definition addressed :: "AgentId \<Rightarrow> bytes \<Rightarrow> bool" where
  "addressed a frame = (case parse_envelope frame of Inl _ \<Rightarrow> False | Inr e \<Rightarrow> envelope_recipient e = a)"

lemma task_step_history:
  assumes "task_step Q off event b = Some b'"
  shows "history_accepted b' = history_accepted b"
proof -
  have end_: "history_accepted b' = history_accepted b" if "task_end Q off a b = Some b'" for a b b'
    using that by (auto simp: task_end_def split: option.splits)
  show ?thesis
  proof (cases event)
    case (Connect a)
    with assms show ?thesis by (auto simp: task_connect_def split: sum.splits prod.splits)
  next
    case (Take a)
    with assms show ?thesis by (auto simp: task_take_def split: option.splits prod.splits)
  next
    case (Write a ok)
    with assms show ?thesis by (auto simp: task_write_def dest!: end_ split: option.splits if_splits)
  next
    case (Read a received)
    with assms show ?thesis by (auto simp: task_read_def Let_def dest!: end_ split: option.splits prod.splits if_splits)
  qed
qed

lemma tasks_run_history: "history_accepted (tasks_run Q off events b) = history_accepted b"
  by (induction events arbitrary: b) (simp_all add: task_step_history split: option.split)

lemma note_accepted_history: "history_accepted (note_accepted frame b) a = history_accepted b a @ (if addressed a frame then [frame] else [])"
  by (simp add: note_accepted_def addressed_def Let_def split: sum.split)

lemma ca_deliver_history:
  assumes "ca_deliver Q off between frame b = (result, b')"
  shows "history_accepted b' a = history_accepted b a @ (if is_ok result \<and> addressed a frame then [frame] else [])"
proof -
  obtain progress r where "route_ca_locked Q (broker_router b) frame = (progress, r)" by fastforce
  with assms show ?thesis
    by (cases progress) (auto simp: ca_deliver_def note_accepted_history tasks_run_history Let_def split: prod.splits)
qed

text \<open>The broker inside the system runs as the broker alone does, and accepts what is routed.\<close>

definition routes :: "'c mpsc \<Rightarrow> 'q OfflineQueueStore \<Rightarrow> ('c, 'q) BrokerRouter \<Rightarrow> ('c, 'q, 'r) system \<Rightarrow> bool" where
  "routes Q off r s \<longleftrightarrow> broker_reachable Q off (broker_start r) (link_system (sys_link s)) \<and>
     (\<forall>a. history_accepted (link_system (sys_link s)) a = filter (addressed a) (map snd (sys_routed s)))"

lemma link_incoming_system:
  fixes l :: "('c, 'q) ca_link"
  assumes "link_incoming Q off between received l = (go_on, frames, l')"
  defines "new \<equiv> (case wire_item Kind_Delivery received of None \<Rightarrow> [] | Some x \<Rightarrow>
      if \<not> dedup_contains (link_acquired l) (fst x) \<and> is_ok (fst (ca_deliver Q off between (snd x) (link_system l))) then [x] else [])"
  shows "(\<exists>frame. link_system l' \<in> {link_system l, snd (ca_deliver Q off between frame (link_system l))}) \<and>
    history_accepted (link_system l') a = history_accepted (link_system l) a @ filter (addressed a) (map snd new)"
proof (cases "\<exists>f. decode_link received = Inr f \<and> link_kind f = Kind_Delivery")
  case True
  then obtain f where f: "decode_link received = Inr f" "link_kind f = Kind_Delivery" by blast
  obtain result system where d: "ca_deliver Q off between (link_payload f) (link_system l) = (result, system)" by fastforce
  have "wire_item Kind_Delivery received = Some (link_id f, link_payload f)" using f by (simp add: wire_item_def)
  note inc = assms(1) [unfolded link_incoming_delivery [OF f] d]
  have "link_system l' \<in> {link_system l, system}"
    using inc by (auto simp: Let_def split: if_splits prod.splits)
  moreover have "system = snd (ca_deliver Q off between (link_payload f) (link_system l))" by (simp add: d)
  moreover have "history_accepted (link_system l') a = history_accepted (link_system l) a @ filter (addressed a) (map snd new)"
    using inc ca_deliver_history [OF d, of a] \<open>wire_item _ _ = _\<close> d unfolding new_def
    by (auto simp: Let_def split: if_splits prod.splits)
  ultimately show ?thesis by metis
next
  case False
  then have "wire_item Kind_Delivery received = None" by (auto simp: wire_item_def split: sum.splits)
  moreover have "link_system l' = link_system l"
  proof (cases "\<exists>f. decode_link received = Inr f \<and> link_kind f = Kind_Ack")
    case True
    with assms(1) link_incoming_ack [of received _ Q off between l] show ?thesis by auto
  next
    case no: False
    have "link_incoming Q off between received l = (False, [], l)" by (rule link_incoming_other) (use False no in auto)
    with assms(1) show ?thesis by simp
  qed
  ultimately show ?thesis by (auto simp: new_def)
qed

lemma system_step_routes:
  fixes s :: "('c, 'q, 'r) system"
  assumes "system_inv w s" "routes Q off r s" "system_step Q off C event s = Some s'"
  shows "routes Q off r s'"
proof -
  have reach: "broker_reachable Q off (broker_start r) (link_system (sys_link s))"
    and hist: "\<And>a. history_accepted (link_system (sys_link s)) a = filter (addressed a) (map snd (sys_routed s))"
    using assms(2) by (simp_all add: routes_def)
  have same: "routes Q off r s'" if "link_system (sys_link s') = link_system (sys_link s)" "sys_routed s' = sys_routed s"
    using that reach hist by (simp add: routes_def)
  show ?thesis
  proof (cases event)
    case (Agents e)
    with assms(3) obtain b where b: "broker_step Q off (Task e) (link_system (sys_link s)) = Some b"
      "s' = s\<lparr>sys_link := (sys_link s)\<lparr>link_system := b\<rparr>\<rparr>" by (auto split: option.splits)
    from broker_reachable.step [OF reach b(1)] task_step_history [of Q off e _ b] b hist show ?thesis by (simp add: routes_def)
  next
    case (Broker_takes ident n)
    with assms(3) obtain frames link where l: "link_request Q ident (sys_link s) = Some (frames, link)"
      "sys_link s' = link" "sys_routed s' = sys_routed s"
      by (auto simp: broker_takes_def Let_def split: if_splits option.splits)
    obtain items where pend: "pends Kind_Request (link_pending (sys_link s)) items"
      using sender_pends assms(1) unfolding system_inv_def by blast
    from link_request_effect [OF l(1) pend] obtain request where t: "ca_take Q (link_system (sys_link s)) = (Some request, link_system link)" by blast
    then have take: "broker_step Q off Ca_take (link_system (sys_link s)) = Some (link_system link)" by simp
    have "history_accepted (snd (ca_take Q b)) = history_accepted b" for b :: "('c, 'q) broker_system"
      by (simp add: ca_take_def split: prod.splits)
    then have "history_accepted (link_system link) = history_accepted (link_system (sys_link s))"
      using t by (metis snd_conv)
    with broker_reachable.step [OF reach take] hist l(2,3) show ?thesis by (simp add: routes_def)
  next
    case (Broker_reads between n)
    with assms(3) obtain received wire where up: "sys_broker_up s" "sys_to_broker s = received # wire"
      by (auto simp: broker_reads_def split: bool.splits list.splits)
    obtain go_on frames link where inc: "link_incoming Q off between received (sys_link s) = (go_on, frames, link)" by (metis prod.exhaust)
    note sys = link_incoming_system [OF inc]
    have "broker_reachable Q off (broker_start r) (link_system link)"
    proof -
      from sys obtain frame where "link_system link \<in> {link_system (sys_link s), snd (ca_deliver Q off between frame (link_system (sys_link s)))}"
        by blast
      moreover have "broker_step Q off (Ca_delivery between frame) (link_system (sys_link s)) =
          Some (snd (ca_deliver Q off between frame (link_system (sys_link s))))" by simp
      ultimately show ?thesis using reach broker_reachable.step [OF reach] by (metis empty_iff insert_iff)
    qed
    with assms(3) Broker_reads up inc sys hist show ?thesis by (auto simp: broker_reads_def Let_def routes_def)
  next
    case (Cad_reads ids now n)
    with assms(3) show ?thesis
      by (intro same) (auto simp: cad_reads_def Let_def split: bool.splits list.splits prod.splits if_splits)
  qed (rule same; use assms(3) in \<open>auto simp: broker_retries_def cad_retries_def connects_def split: if_splits\<close>)+
qed

text \<open>While a request is current, \<open>cad\<close> sends no new delivery.\<close>

lemma cad_incoming_quiet:
  assumes "cad_incoming C S ids now received c = (flow, frames, c')" "cad_current c \<noteq> None"
  shows "wire_items Kind_Delivery frames = []"
proof -
  have ack: "wire_items Kind_Delivery [item_bytes Kind_Ack (i, [])] = []" for i
    using wire_item_ack by simp
  show ?thesis
    using assms ack
    by (auto simp: cad_incoming_def Let_def reply_ack split: sum.splits FrameKind.splits option.splits if_splits)
qed

lemma link_routed_prefix:
  fixes s :: "('c, 'q, 'r) system"
  assumes "cad_idle c" "pending_maximum (cad_pending c) \<le> window" "0 < window"
    "system_reachable Q off C (system_start (link_start r pending_depth window) c) s"
  shows "prefix (sys_routed s) (sys_published s)"
    "pending_is_empty (link_pending (sys_link s)) \<Longrightarrow> sys_routed s = sys_published s"
proof -
  have inv: "system_inv window s"
    using system_reachable_inv [OF assms(4) system_start_inv [OF assms(1-3)]] .
  then have "take (length (sys_routed s)) (sys_published s) = sys_routed s" by (simp add: system_inv_def exchange_def)
  then show "prefix (sys_routed s) (sys_published s)" by (metis take_is_prefix)
  show "pending_is_empty (link_pending (sys_link s)) \<Longrightarrow> sys_routed s = sys_published s"
    using inv by (simp add: system_inv_def)
qed

end
