(* ===== verification/Progress.thy ===== *)
theory Progress
  imports System
begin

text \<open>
  Nothing is stuck for good: from every state in which the CA has processed the broker's request, a new
  connection and finitely many turns complete it, provided that the router accepts what is left
  of its deliveries. Together with the exactly-once property this is what retransmission is for.
\<close>

section \<open>Runs\<close>

lemma system_run_append:
  "system_run Q off C (events @ events') s = (case system_run Q off C events s of None \<Rightarrow> None | Some s \<Rightarrow> system_run Q off C events' s)"
  by (induction events arbitrary: s) (simp_all split: option.splits)

lemma system_run_inv: "system_inv w s \<Longrightarrow> system_run Q off C events s = Some s' \<Longrightarrow> system_inv w s'"
  by (induction events arbitrary: s) (auto dest: system_step_inv split: option.splits)

text \<open>The router accepts these deliveries one after the other.\<close>

fun routable :: "'c mpsc \<Rightarrow> 'q OfflineQueueStore \<Rightarrow> bytes list \<Rightarrow> ('c, 'q) broker_system \<Rightarrow> bool" where
  "routable Q off [] system = True"
| "routable Q off (frame # frames) system =
     (let (result, system) = ca_deliver Q off [] frame system in is_ok result \<and> routable Q off frames system)"

abbreviation to_route :: "('c, 'q, 'r) system \<Rightarrow> bytes list" where
  "to_route s \<equiv> map snd (drop (length (sys_routed s)) (sys_published s))"

definition ack_of :: "MessageId \<times> bytes \<Rightarrow> bytes" where
  "ack_of x = item_bytes Kind_Ack (fst x, [])"

lemma ack_of_fst [simp]: "ack_of (fst x, payload) = ack_of x"
  by (simp add: ack_of_def)

section \<open>The broker drains its wire\<close>

lemma broker_reads_delivery:
  fixes s :: "('c, 'q, 'r) system"
  assumes inv: "system_inv w s" and up: "sys_broker_up s" "sys_to_broker s = item_bytes Kind_Delivery x # wire"
    and valid: "link_valid (item_frame Kind_Delivery x)" and accepts: "routable Q off (to_route s) (link_system (sys_link s))"
  obtains s' where "broker_reads Q off [] 1 s = Some s'" "sys_broker_up s'" "sys_to_broker s' = wire"
    "sys_to_ca s' = sys_to_ca s @ [ack_of x]" "sys_cad s' = sys_cad s" "link_pending (sys_link s') = link_pending (sys_link s)"
    "sys_published s' = sys_published s" "sys_taken s' = sys_taken s" "sys_cad_up s' = sys_cad_up s"
    "sys_running s' = sys_running s" "routable Q off (to_route s') (link_system (sys_link s'))"
proof -
  let ?l = "sys_link s"
  have e: "exchange Kind_Delivery w (sys_published s) (sys_routed s) (item_bytes Kind_Delivery x # wire)"
    "dedup_inv (link_acquired ?l)" "dedup_order (link_acquired ?l) = last_n w (map fst (sys_routed s))"
    "dedup_maximum (link_acquired ?l) = w" "0 < w"
    using inv up by (simp_all add: system_inv_def)
  have x: "wire_item Kind_Delivery (item_bytes Kind_Delivery x) = Some x" using wire_item_bytes [OF valid, of Kind_Delivery] by simp
  note inc = link_incoming_delivery [OF decode_item [OF valid], of Q off "[]" ?l, simplified]
  show thesis
  proof (cases "dedup_contains (link_acquired ?l) (fst x)")
    case True
    then have "broker_reads Q off [] 1 s = Some (s\<lparr>sys_to_broker := wire, sys_to_ca := sys_to_ca s @ [ack_of x]\<rparr>)"
      using up x by (simp add: broker_reads_def inc broker_sends_def ack_of_def)
    from that [OF this] up accepts show thesis by simp
  next
    case False
    then have "fst x \<notin> set (last_n w (map fst (sys_routed s)))" using dedup_contains_order [OF e(2)] e(3) by simp
    with exchange_receive [OF e(1) x] have new: "exchange Kind_Delivery w (sys_published s) (sys_routed s @ [x]) wire" by blast
    have tail: "drop (length (sys_routed s)) (sys_published s) = x # drop (Suc (length (sys_routed s))) (sys_published s)"
    proof -
      have "take (Suc (length (sys_routed s))) (sys_published s) = sys_routed s @ [x]" "length (sys_routed s) < length (sys_published s)"
        using new by (simp_all add: exchange_def)
      then have "sys_published s ! length (sys_routed s) = x" by (metis lessI nth_append_length nth_take)
      with \<open>length (sys_routed s) < length (sys_published s)\<close> show ?thesis by (metis Cons_nth_drop_Suc)
    qed
    obtain system where d: "ca_deliver Q off [] (snd x) (link_system ?l) = (Inr (), system)"
      "routable Q off (map snd (drop (Suc (length (sys_routed s))) (sys_published s))) system"
      using accepts unfolding tail by (auto simp: is_ok_iff)
    obtain acquired where ins: "dedup_insert (link_acquired ?l) (fst x) = (Inr (), acquired)"
      using dedup_insert_refines(1) [OF e(2), of "fst x"] e(4,5) by (metis less_not_refl prod.collapse)
    have "broker_reads Q off [] 1 s = Some (s\<lparr>sys_link := ?l\<lparr>link_system := system, link_acquired := acquired\<rparr>,
        sys_to_broker := wire, sys_to_ca := sys_to_ca s @ [ack_of x], sys_routed := sys_routed s @ [x]\<rparr>)"
      using up x False d(1) ins by (simp add: broker_reads_def inc broker_sends_def ack_of_def)
    from that [OF this] up d(2) show thesis by simp
  qed
qed

lemma broker_drains:
  fixes s :: "('c, 'q, 'r) system"
  assumes "system_inv w s" "sys_broker_up s" "sys_to_broker s = map (item_bytes Kind_Delivery) xs"
    "\<forall>x\<in>set xs. link_valid (item_frame Kind_Delivery x)" "routable Q off (to_route s) (link_system (sys_link s))"
  shows "\<exists>s'. system_run Q off C (replicate (length xs) (Broker_reads [] 1)) s = Some s' \<and> sys_broker_up s' \<and> sys_to_broker s' = [] \<and>
    sys_to_ca s' = sys_to_ca s @ map ack_of xs \<and> sys_cad s' = sys_cad s \<and> link_pending (sys_link s') = link_pending (sys_link s) \<and>
    sys_published s' = sys_published s \<and> sys_taken s' = sys_taken s \<and> sys_cad_up s' = sys_cad_up s \<and> sys_running s' = sys_running s"
  using assms
proof (induction xs arbitrary: s)
  case (Cons x xs)
  from Cons.prems have "sys_to_broker s = item_bytes Kind_Delivery x # map (item_bytes Kind_Delivery) xs"
    "link_valid (item_frame Kind_Delivery x)" by simp_all
  from broker_reads_delivery [OF Cons.prems(1,2) this Cons.prems(5)] obtain s1 where s1: "broker_reads Q off [] 1 s = Some s1"
    "sys_broker_up s1" "sys_to_broker s1 = map (item_bytes Kind_Delivery) xs"
    "sys_to_ca s1 = sys_to_ca s @ [ack_of x]" "sys_cad s1 = sys_cad s" "link_pending (sys_link s1) = link_pending (sys_link s)"
    "sys_published s1 = sys_published s" "sys_taken s1 = sys_taken s" "sys_cad_up s1 = sys_cad_up s"
    "sys_running s1 = sys_running s" "routable Q off (to_route s1) (link_system (sys_link s1))" .
  have "system_inv w s1" using broker_reads_inv [OF Cons.prems(1) s1(1)] .
  from Cons.IH [OF this s1(2,3) _ s1(11)] Cons.prems(4) obtain s2 where
    "system_run Q off C (replicate (length xs) (Broker_reads [] 1)) s1 = Some s2 \<and> sys_broker_up s2 \<and> sys_to_broker s2 = [] \<and>
    sys_to_ca s2 = sys_to_ca s1 @ map ack_of xs \<and> sys_cad s2 = sys_cad s1 \<and> link_pending (sys_link s2) = link_pending (sys_link s1) \<and>
    sys_published s2 = sys_published s1 \<and> sys_taken s2 = sys_taken s1 \<and> sys_cad_up s2 = sys_cad_up s1 \<and> sys_running s2 = sys_running s1"
    by auto
  with s1(1,4-10) show ?case by (intro exI [of _ s2]) simp
qed simp

section \<open>The CA collects the acknowledgements\<close>

abbreviation cad_turn :: system_event where
  "cad_turn \<equiv> Cad_reads (\<lambda>_. Inl Authentication) 0 1"

lemma cad_collects:
  fixes s :: "('c, 'q, 'r) system"
  assumes "system_inv w s" "sys_cad_up s" "sys_running s" "pends Kind_Delivery (cad_pending (sys_cad s)) items" "items \<noteq> []"
    "cad_current (sys_cad s) = Some rid" "sys_to_ca s = map ack_of items"
  shows "\<exists>s'. system_run Q off C (replicate (length items) cad_turn) s = Some s' \<and> sys_link s' = sys_link s \<and>
    sys_broker_up s' = sys_broker_up s \<and> sys_to_broker s' = sys_to_broker s @ [ack_of (rid, [])] \<and>
    sys_published s' = sys_published s \<and> sys_taken s' = sys_taken s"
  using assms
proof (induction items arbitrary: s)
  case (Cons x items)
  let ?c = "sys_cad s" and ?p = "snd (pending_acknowledge (cad_pending (sys_cad s)) (fst x))"
  have ok: "cad_ok ?c" using Cons.prems(1,3) by (simp add: system_inv_def)
  have ack: "decode_link (ack_of x) = Inr (item_frame Kind_Ack (fst x, []))"
    unfolding ack_of_def by (rule decode_item) (simp add: item_frame_def link_valid_def)
  have wire: "wire_item Kind_Request (ack_of x) = None" by (simp add: ack_of_def wire_item_ack)
  have "filter (\<lambda>y. fst y \<noteq> fst x) (x # items) = items"
    using pends_reads(4) [OF Cons.prems(4)] by (simp add: filter_id_conv) (metis image_eqI)
  then have rest: "pends Kind_Delivery ?p items" using pends_ack(1) [OF Cons.prems(4), of "fst x"] by simp
  have empty: "pending_is_empty ?p \<longleftrightarrow> items = []" by (rule pends_reads(2) [OF rest])
  have inc: "cad_incoming C persistent_store ids 0 (ack_of x) ?c =
      (Continue, if items = [] then [ack_of (rid, [])] else [],
       ?c\<lparr>cad_pending := ?p, cad_current := (if items = [] then None else Some rid)\<rparr>)" for ids
    using cad_incoming_ack(1) [OF ok ack, of C persistent_store ids 0] Cons.prems(6) empty by (simp add: ack_of_def)
  let ?s = "s\<lparr>sys_cad := ?c\<lparr>cad_pending := ?p, cad_current := (if items = [] then None else Some rid)\<rparr>,
      sys_to_ca := map ack_of items, sys_to_broker := sys_to_broker s @ (if items = [] then [ack_of (rid, [])] else [])\<rparr>"
  have none: "wire_items Kind_Delivery (if items = [] then [ack_of (rid, [])] else []) = []" by (simp add: ack_of_def wire_item_ack)
  have step: "system_step Q off C cad_turn s = Some ?s"
    using Cons.prems(2,3,7) inc none wire by (simp add: cad_reads_def cad_sends_def fresh_def Let_def)
  show ?case
  proof (cases "items = []")
    case True
    with step show ?thesis by (intro exI [of _ ?s]) simp
  next
    case False
    have "system_inv w ?s" using system_step_inv [OF Cons.prems(1) step] .
    from Cons.IH [OF this _ _ _ False] Cons.prems(2,3) rest False obtain s' where
      "system_run Q off C (replicate (length items) cad_turn) ?s = Some s' \<and> sys_link s' = sys_link s \<and>
       sys_broker_up s' = sys_broker_up s \<and> sys_to_broker s' = sys_to_broker s @ [ack_of (rid, [])] \<and>
       sys_published s' = sys_published s \<and> sys_taken s' = sys_taken s" by auto
    with step show ?thesis by (intro exI [of _ s']) simp
  qed
qed simp

section \<open>The request is done\<close>

lemma broker_completes:
  fixes s :: "('c, 'q, 'r) system"
  assumes "sys_broker_up s" "sys_to_broker s = [ack_of x]" "pends Kind_Request (link_pending (sys_link s)) [x]"
  obtains s' where "broker_reads Q off [] 1 s = Some s'" "pending_is_empty (link_pending (sys_link s'))"
    "sys_published s' = sys_published s" "sys_taken s' = sys_taken s"
proof -
  let ?p = "snd (pending_acknowledge (link_pending (sys_link s)) (fst x))"
  have ack: "decode_link (ack_of x) = Inr (item_frame Kind_Ack (fst x, []))"
    unfolding ack_of_def by (rule decode_item) (simp add: item_frame_def link_valid_def)
  have wire: "wire_item Kind_Delivery (ack_of x) = None" by (simp add: ack_of_def wire_item_ack)
  have "broker_reads Q off [] 1 s = Some (s\<lparr>sys_link := (sys_link s)\<lparr>link_pending := ?p\<rparr>, sys_to_broker := []\<rparr>)"
    using assms(1,2) wire by (simp add: broker_reads_def link_incoming_ack [OF ack] broker_sends_def)
  moreover have "pending_is_empty ?p" using pends_reads(2) [OF pends_ack(1) [OF assms(3)]] by simp
  ultimately show thesis using that by simp
qed

text \<open>A request that was processed is in flight again: \<open>cad\<close> still holds its deliveries, or
  remembers it and acknowledges.\<close>

lemma cad_repeats:
  fixes s :: "('c, 'q, 'r) system"
  assumes inv: "system_inv w s" and up: "sys_cad_up s" "sys_to_ca s = [item_bytes Kind_Request x]"
    and last: "sys_processed s \<noteq> []" "last (sys_processed s) = x" "link_valid (item_frame Kind_Request x)"
  shows "system_step Q off C cad_turn s = Some (s\<lparr>sys_to_ca := [],
    sys_to_broker := sys_to_broker s @ (if cad_current (sys_cad s) = None then [ack_of x] else [])\<rparr>)"
    and "cad_current (sys_cad s) = None \<or> cad_current (sys_cad s) = Some (fst x)"
proof -
  let ?c = "sys_cad s" and ?w = "dedup_maximum (cad_acquired (sys_cad s))"
  have c: "cad_ok ?c" "sys_running s" "0 < ?w" "dedup_order (cad_acquired ?c) = last_n ?w (map fst (sys_processed s))"
    using inv up last(1) by (simp_all add: system_inv_def)
  show cur: "cad_current ?c = None \<or> cad_current ?c = Some (fst x)"
    using inv last by (simp add: system_inv_def)
  have "fst x \<in> set (dedup_order (cad_acquired ?c))"
  proof -
    have "last (map fst (sys_processed s)) = fst x" using last by (simp add: last_map)
    moreover have "last_n ?w (map fst (sys_processed s)) \<noteq> []" using c(3) last(1) diff_less [of ?w "length (sys_processed s)"] by (simp add: last_n_def not_le)
    ultimately show ?thesis using c(4) last_in_set last_drop by (metis drop_eq_Nil last_n_def not_le)
  qed
  then have known: "dedup_contains (cad_acquired ?c) (fst x)"
    using c(1) dedup_contains_order by (auto simp: cad_ok_def)
  have dec: "decode_link (item_bytes Kind_Request x) = Inr (item_frame Kind_Request x)" by (rule decode_item [OF last(3)])
  have wire: "wire_item Kind_Request (item_bytes Kind_Request x) = Some x" using wire_item_bytes [OF last(3), of Kind_Request] by simp
  have none: "wire_item Kind_Delivery (ack_of x) = None" by (simp add: ack_of_def wire_item_ack)
  have inc: "cad_incoming C persistent_store ids 0 (item_bytes Kind_Request x) ?c =
      (Continue, if cad_current ?c = None then [ack_of x] else [], ?c)" for ids
    using cad_incoming_request [OF dec, of C persistent_store ids 0 ?c] known cur by (auto simp: ack_of_def)
  show "system_step Q off C cad_turn s = Some (s\<lparr>sys_to_ca := [],
      sys_to_broker := sys_to_broker s @ (if cad_current ?c = None then [ack_of x] else [])\<rparr>)"
    using up c(2) known wire none by (simp add: cad_reads_def inc cad_sends_def fresh_def Let_def)
qed

lemma reconnected:
  fixes s :: "('c, 'q, 'r) system"
  assumes "sys_running s" "pends Kind_Request (link_pending (sys_link s)) requests"
    "pends Kind_Delivery (cad_pending (sys_cad s)) deliveries"
  shows "\<exists>events. system_run Q off C events s = Some (s\<lparr>sys_broker_up := True, sys_cad_up := True,
    sys_to_ca := map (item_bytes Kind_Request) requests, sys_to_broker := map (item_bytes Kind_Delivery) deliveries\<rparr>)"
  using assms(1) pends_reads(1) [OF assms(2)] pends_reads(1) [OF assms(3)]
  by (intro exI [of _ "[Broker_leaves, Cad_leaves, Connects True (length requests) (length deliveries)]"])
     (simp add: connects_def broker_sends_def cad_sends_def link_resend_def cad_resend_def)

lemma deliveries_complete:
  fixes s :: "('c, 'q, 'r) system"
  assumes inv: "system_inv w s" and up: "sys_broker_up s" "sys_cad_up s" "sys_running s" "sys_to_ca s = []"
    and d: "sys_to_broker s = map (item_bytes Kind_Delivery) items" "pends Kind_Delivery (cad_pending (sys_cad s)) items"
      "items \<noteq> []" "cad_current (sys_cad s) = Some rid"
    and accepts: "routable Q off (to_route s) (link_system (sys_link s))"
  shows "\<exists>events s'. system_run Q off C events s = Some s' \<and> sys_broker_up s' \<and> sys_to_broker s' = [ack_of (rid, [])] \<and>
    link_pending (sys_link s') = link_pending (sys_link s) \<and> sys_published s' = sys_published s \<and> sys_taken s' = sys_taken s"
proof -
  have "\<forall>x\<in>set items. link_valid (item_frame Kind_Delivery x)" using d(2) by (simp add: pends_def)
  from broker_drains [OF inv up(1) d(1) this accepts, of C] up obtain s1 where
    r: "system_run Q off C (replicate (length items) (Broker_reads [] 1)) s = Some s1" and s1: "sys_broker_up s1"
      "sys_to_broker s1 = []" "sys_to_ca s1 = map ack_of items" "sys_cad s1 = sys_cad s"
      "link_pending (sys_link s1) = link_pending (sys_link s)" "sys_published s1 = sys_published s"
      "sys_taken s1 = sys_taken s" "sys_cad_up s1" "sys_running s1" by auto
  have inv1: "system_inv w s1" by (rule system_run_inv [OF inv r])
  from cad_collects [OF inv1 s1(8,9), of items rid Q off C] s1 d obtain s2 where
    "system_run Q off C (replicate (length items) cad_turn) s1 = Some s2" "sys_link s2 = sys_link s1" "sys_broker_up s2"
    "sys_to_broker s2 = [ack_of (rid, [])]" "sys_published s2 = sys_published s" "sys_taken s2 = sys_taken s"
    by auto
  with r s1(5) show ?thesis
    by (intro exI [of _ "replicate (length items) (Broker_reads [] 1) @ replicate (length items) cad_turn"] exI [of _ s2])
       (simp add: system_run_append)
qed

lemma request_completes_inv:
  fixes s :: "('c, 'q, 'r) system"
  assumes inv: "system_inv w s" and run: "sys_running s" and processed: "sys_processed s = sys_taken s"
    and accepts: "routable Q off (to_route s) (link_system (sys_link s))"
  shows "\<exists>events s'. system_run Q off C events s = Some s' \<and> pending_is_empty (link_pending (sys_link s')) \<and>
    sys_published s' = sys_published s \<and> sys_taken s' = sys_taken s"
proof -
  obtain requests where p: "pends Kind_Request (link_pending (sys_link s)) requests" "requests = [] \<or> requests = [last (sys_taken s)]"
    using sender_single inv unfolding system_inv_def by blast
  obtain items where d: "pends Kind_Delivery (cad_pending (sys_cad s)) items" "cad_current (sys_cad s) = None \<longleftrightarrow> items = []"
    using inv run by (auto simp: system_inv_def cad_ok_def)
  show ?thesis
  proof (cases "pending_is_empty (link_pending (sys_link s))")
    case True
    then show ?thesis by (intro exI [of _ "[]"]) simp
  next
    case False
    let ?x = "last (sys_taken s)"
    have x: "requests = [?x]" using False p pends_reads(2) [OF p(1)] by blast
    have taken: "sys_taken s \<noteq> []"
      using inv False pends_reads(2) by (auto simp: system_inv_def sender_ok_def)
    let ?s1 = "s\<lparr>sys_broker_up := True, sys_cad_up := True, sys_to_ca := [item_bytes Kind_Request ?x],
        sys_to_broker := map (item_bytes Kind_Delivery) items\<rparr>"
    from reconnected [OF run p(1) d(1), of Q off C] x obtain events where r1: "system_run Q off C events s = Some ?s1" by auto
    have i1: "system_inv w ?s1" by (rule system_run_inv [OF inv r1])
    have valid: "link_valid (item_frame Kind_Request ?x)" using p(1) x by (simp add: pends_def)
    let ?s2 = "?s1\<lparr>sys_to_ca := [], sys_to_broker := map (item_bytes Kind_Delivery) items @ (if items = [] then [ack_of ?x] else [])\<rparr>"
    have r2: "system_step Q off C cad_turn ?s1 = Some ?s2" and cur: "items = [] \<or> cad_current (sys_cad s) = Some (fst ?x)"
      using cad_repeats [OF i1, of ?x] taken processed valid d(2) by auto
    have "\<exists>events s3. system_run Q off C events ?s2 = Some s3 \<and> sys_broker_up s3 \<and> sys_to_broker s3 = [ack_of ?x] \<and>
      link_pending (sys_link s3) = link_pending (sys_link s) \<and> sys_published s3 = sys_published s \<and> sys_taken s3 = sys_taken s"
    proof (cases "items = []")
      case True
      then show ?thesis by (intro exI [of _ "[]"]) simp
    next
      case False
      have i2: "system_inv w ?s2" by (rule system_step_inv [OF i1 r2])
      with deliveries_complete [OF i2, of items "fst ?x" Q off C] False d cur accepts run show ?thesis by simp
    qed
    then obtain events' s3 where s3: "system_run Q off C events' ?s2 = Some s3" "sys_broker_up s3" "sys_to_broker s3 = [ack_of ?x]"
      "link_pending (sys_link s3) = link_pending (sys_link s)" "sys_published s3 = sys_published s" "sys_taken s3 = sys_taken s" by blast
    obtain s4 where "broker_reads Q off [] 1 s3 = Some s4" "pending_is_empty (link_pending (sys_link s4))"
      "sys_published s4 = sys_published s3" "sys_taken s4 = sys_taken s3"
      using broker_completes [OF s3(2,3)] p(1) x s3(4) by metis
    with r1 r2 s3 show ?thesis
      by (intro exI [of _ "events @ cad_turn # events' @ [Broker_reads [] 1]"] exI [of _ s4]) (simp add: system_run_append)
  qed
qed

end
