(* ===== verification/Protocol.thy ===== *)
theory Protocol
  imports Authority
begin

text \<open>
  The protocol between the parts: what an agent's request does at the CA, and what becomes of the
  CA's deliveries at the subscribing agent. Every lemma is about the composition of the
  definitions of \<open>Agent\<close> and \<open>Authority\<close>; the theory adds no model of its own, only the small
  world in which the properties are exercised.
\<close>

section \<open>Requests at the CA\<close>

context ca_store_laws begin

text \<open>A request of a provisioned agent passes every check before the replay memory is asked, and
  what is dispatched is the operation the agent encoded.\<close>

lemma request_processed_envelope:
  assumes laws: "crypto_laws C" and op: "operation_valid op" "operation_type op \<noteq> MT_PublicationResponse"
    and out: "MAX_FRAME_LEN \<le> length out" and draws: "request_draws C rng = (session, salt, secret, rng')"
    and ca: "ca_x25519 (agent_ca agent) = CaKeys_x25519_public C (authority_keys ca)"
      "x_dh C secret (ca_x25519 (agent_ca agent)) \<noteq> 0"
    and agent: "agent_id agent \<noteq> AgentId_CA" "view_keys (view store) (agent_id agent) = Some keys"
      "public_ed25519 keys = AgentKeys_verifying_key C (agent_keys agent)"
  shows "\<exists>frame rest. request_into C agent out (operation_type op) h rng (\<lambda>plain. encode_operation plain op) =
      (Inr (length frame), frame @ rest, rng') \<and>
    process C S ca frame now (store, r) =
      (case store_check_and_mark S store (agent_id agent) (SessionId session) now of
         (Inl err, store1) \<Rightarrow> (Inl err, (store1, r))
       | (Inr _, store1) \<Rightarrow> dispatch C S ca (agent_id agent) (operation_type op) h (operation_bytes op)
           (operation_ref op) (store1, r)) \<and>
    (\<exists>e. parse_envelope frame = Inr e \<and> envelope_sender e = agent_id agent \<and> envelope_recipient e = AgentId_CA \<and>
       envelope_message_type e = operation_type op)"
proof -
  let ?secret = "ca_x25519_secret (authority_keys ca)"
  have ca': "ca_x25519 (agent_ca agent) = x_public C ?secret" using ca(1) by (simp add: CaKeys_x25519_public_def)
  obtain e rest where e:
    "request_into C agent out (operation_type op) h rng (\<lambda>plain. encode_operation plain op) =
       (Inr (length (frame_bytes e)), frame_bytes e @ rest, rng')"
    "parse_envelope (frame_bytes e) = Inr e" "envelope_message_type e = operation_type op"
    "envelope_sender e = agent_id agent" "envelope_recipient e = AgentId_CA" "envelope_handler e = h"
    "envelope_session_id e = SessionId session"
    "verify_envelope_signature C e (ed_public C (keys_signing (agent_keys agent))) = Inr ()"
    "open_in_place C (frame_bytes e) AgentId_CA (operation_type op) (ed_public C (keys_signing (agent_keys agent))) ?secret =
       Inr (operation_bytes op)"
    by (rule request_into_ok [OF laws op(1) out draws ca' ca(2) [unfolded ca']], rule that)
  have key: "public_ed25519 keys = ed_public C (keys_signing (agent_keys agent))"
    using agent(3) by (simp add: AgentKeys_verifying_key_def)
  have "authentic C S store (frame_bytes e) e keys"
    using e agent(1,2) op(2) crypto_lawsD(1) [OF laws] by (simp add: authentic_def keys_law key)
  from process_authentic [OF this, of ca now r] e key parse_operation_print [OF op(1)] show ?thesis
    by (intro exI [of _ "frame_bytes e"] exI [of _ rest]) (simp split: prod.splits sum.splits)
qed

lemma request_processed:
  assumes laws: "crypto_laws C" and op: "operation_valid op" "operation_type op \<noteq> MT_PublicationResponse"
    and out: "MAX_FRAME_LEN \<le> length out" and draws: "request_draws C rng = (session, salt, secret, rng')"
    and ca: "ca_x25519 (agent_ca agent) = CaKeys_x25519_public C (authority_keys ca)"
      "x_dh C secret (ca_x25519 (agent_ca agent)) \<noteq> 0"
    and agent: "agent_id agent \<noteq> AgentId_CA" "view_keys (view store) (agent_id agent) = Some keys"
      "public_ed25519 keys = AgentKeys_verifying_key C (agent_keys agent)"
  shows "\<exists>frame rest. request_into C agent out (operation_type op) h rng (\<lambda>plain. encode_operation plain op) =
      (Inr (length frame), frame @ rest, rng') \<and>
    process C S ca frame now (store, r) =
      (case store_check_and_mark S store (agent_id agent) (SessionId session) now of
         (Inl err, store1) \<Rightarrow> (Inl err, (store1, r))
       | (Inr _, store1) \<Rightarrow> dispatch C S ca (agent_id agent) (operation_type op) h (operation_bytes op)
           (operation_ref op) (store1, r))"
  using request_processed_envelope [OF assms] by blast

end

section \<open>Deliveries at the subscriber\<close>

lemma delivery_Inr:
  assumes laws: "crypto_laws C" and val: "length val \<le> MAX_VALUE_BYTES"
    and run: "delivery C ca publisher recipient h t val (x_public C xsecret) rng = (Inr frame, rng')"
  obtains e where "frame = frame_bytes e"
    "parse_envelope frame = Inr e" "envelope_message_type e = MT_PublicationResponse"
    "envelope_sender e = AgentId_CA" "envelope_recipient e = recipient" "envelope_handler e = h"
    "envelope_session_id e = SessionId (fst (request_draws C rng))"
    "verify_envelope_signature C e (ed_public C (ca_signing_key (authority_keys ca))) = Inr ()"
    "open_in_place C frame recipient MT_PublicationResponse
       (ed_public C (ca_signing_key (authority_keys ca))) xsecret = Inr (operation_bytes (PublicationResponse t publisher val))"
proof -
  obtain session salt secret rng1 where draws: "request_draws C rng = (session, salt, secret, rng1)"
    by (metis prod.exhaust)
  have dh: "x_dh C secret (x_public C xsecret) \<noteq> 0"
    using delivery_weak_key [OF val draws, of "x_public C xsecret" ca publisher recipient h t] run by auto
  show thesis
    by (rule delivery_ok [OF laws val draws dh, of ca publisher recipient h t])
      (rule that; use run draws in simp)
qed

text \<open>The subscriber accepts a delivery sealed for it, unless its replay memory refuses the session.\<close>

lemma delivery_received:
  assumes "crypto_laws C" "length val \<le> MAX_VALUE_BYTES"
    "delivery C ca publisher (agent_id agent) h t val (AgentKeys_x25519_public C (agent_keys agent)) rng = (Inr frame, rng')"
    "ca_ed25519 (agent_ca agent) = CaKeys_verifying_key C (authority_keys ca)" "h \<noteq> HandlerId_NONE"
    "mark replay AgentId_CA (SessionId (fst (request_draws C rng))) now = (Inr (), replay')"
  shows "receive C mark agent frame h replay now =
    (Inr \<lparr>delivery_type_id = t, delivery_publisher = publisher, delivery_handler = h, delivery_value = val\<rparr>, replay')"
proof (rule delivery_Inr [OF assms(1,2) assms(3) [unfolded AgentKeys_x25519_public_def]])
  fix e
  assume "parse_envelope frame = Inr e" "envelope_message_type e = MT_PublicationResponse"
    "envelope_sender e = AgentId_CA" "envelope_recipient e = agent_id agent" "envelope_handler e = h"
    "envelope_session_id e = SessionId (fst (request_draws C rng))"
    "verify_envelope_signature C e (ed_public C (ca_signing_key (authority_keys ca))) = Inr ()"
    "open_in_place C frame (agent_id agent) MT_PublicationResponse
       (ed_public C (ca_signing_key (authority_keys ca))) (keys_x25519 (agent_keys agent)) =
       Inr (operation_bytes (PublicationResponse t publisher val))"
  then show ?thesis
    using assms by (intro receive_opened_response [where e = e])
      (simp_all add: CaKeys_verifying_key_def crypto_lawsD(1))
qed

section \<open>Publications end to end\<close>

lemma stored_environment_valid:
  "parse_stored_environment encoded = Inr env \<Longrightarrow> \<exists>as. attributes_valid as \<and> env = environment_of as"
proof -
  assume "parse_stored_environment encoded = Inr env"
  then have "parse_operation encoded = Inr (Op_SetEnvironment env)"
    by (cases "parse_operation encoded") (auto simp: parse_stored_environment_def split: OperationRef.splits)
  from parse_operation_sound [OF this] obtain op where op: "operation_valid op" "Op_SetEnvironment env = operation_ref op"
    by blast
  then show ?thesis by (cases op) auto
qed

lemma published_value_fits:
  assumes "parse_operation plain = Inr (Op_Publish t pred val)"
  shows "length val \<le> MAX_VALUE_BYTES"
proof -
  from parse_operation_sound [OF assms] obtain op where "operation_valid op" "Op_Publish t pred val = operation_ref op"
    by blast
  then show ?thesis by (cases op) auto
qed

text \<open>The publication a successful request carries, and where it goes.\<close>

definition published ::
  "'r crypto \<Rightarrow> CertificateAuthority \<Rightarrow> store_view \<Rightarrow> bytes \<Rightarrow> AgentId \<Rightarrow> EnvironmentRef \<Rightarrow> TypeId \<Rightarrow> PredicateRef \<Rightarrow> bytes \<Rightarrow> bool" where
  "published C ca v frame a penv t pred val \<longleftrightarrow>
     (\<exists>e keys plain encoded. parse_envelope frame = Inr e \<and> envelope_sender e = a \<and> view_keys v a = Some keys \<and>
        open_in_place C frame AgentId_CA MT_Publish (public_ed25519 keys) (ca_x25519_secret (authority_keys ca)) = Inr plain \<and>
        parse_operation plain = Inr (Op_Publish t pred val) \<and>
        view_environments v a = Some encoded \<and> parse_stored_environment encoded = Inr penv \<and>
        validate_environment (authority_policy ca) a None penv = Inr ())"

text \<open>A delivery as its subscriber sees it: under some session, every agent that holds the subscriber's
  identity and keys and knows the CA accepts the frame with the published fields.\<close>

definition received_as :: "'r crypto \<Rightarrow> 's mark \<Rightarrow> CertificateAuthority \<Rightarrow> store_view \<Rightarrow> AgentId \<Rightarrow> TypeId \<Rightarrow> bytes
    \<Rightarrow> StoredSubscription \<Rightarrow> bytes \<Rightarrow> bool" where
  "received_as C mark ca v publisher t val sub frame \<longleftrightarrow>
     (\<exists>keys session. view_keys v (sub_subscriber sub) = Some keys \<and>
        (\<forall>agent replay now replay'. agent_id agent = sub_subscriber sub \<and>
           ca_ed25519 (agent_ca agent) = CaKeys_verifying_key C (authority_keys ca) \<and>
           public_x25519 keys = AgentKeys_x25519_public C (agent_keys agent) \<and>
           mark replay AgentId_CA session now = (Inr (), replay') \<longrightarrow>
           receive C mark agent frame (sub_handler sub) replay now =
             (Inr \<lparr>delivery_type_id = t, delivery_publisher = publisher, delivery_handler = sub_handler sub,
                   delivery_value = val\<rparr>, replay')))"

lemma received_asI:
  assumes "crypto_laws C" "length val \<le> MAX_VALUE_BYTES" "sub_handler sub \<noteq> HandlerId_NONE"
    "view_keys v (sub_subscriber sub) = Some keys"
    "delivery C ca publisher (sub_subscriber sub) (sub_handler sub) t val (public_x25519 keys) rng = (Inr frame, rng')"
  shows "received_as C mark ca v publisher t val sub frame"
  unfolding received_as_def
proof (intro exI conjI allI impI)
  show "view_keys v (sub_subscriber sub) = Some keys" by (rule assms(4))
  fix agent :: Agent and replay now replay'
  assume a: "agent_id agent = sub_subscriber sub \<and>
     ca_ed25519 (agent_ca agent) = CaKeys_verifying_key C (authority_keys ca) \<and>
     public_x25519 keys = AgentKeys_x25519_public C (agent_keys agent) \<and>
     mark replay AgentId_CA (SessionId (fst (request_draws C rng))) now = (Inr (), replay')"
  then show "receive C mark agent frame (sub_handler sub) replay now =
     (Inr \<lparr>delivery_type_id = t, delivery_publisher = publisher, delivery_handler = sub_handler sub,
           delivery_value = val\<rparr>, replay')"
    using assms(3,5) by (intro delivery_received [OF assms(1,2), where rng = rng and rng' = rng']) simp_all
qed

context ca_store_laws begin

lemma publication_run:
  assumes laws: "crypto_laws C" and ok: "view_ok (view store)"
    and run: "process C S ca frame now (store, rng) = (Inr (Deliveries ds), (store', rng'))"
  shows "\<exists>a penv t pred val. published C ca (view store) frame a penv t pred val \<and>
    (let chosen = filter (eligible (authority_policy ca) (view_environments (view store)) a penv t pred)
           (view_subscriptions (view store) t) in
     list_all2 (received_as C mark ca (view store) a t val) chosen ds \<and>
     view store' = consume t (one_shots chosen) (view store))"
proof -
  from process_published [OF run ok] obtain e keys plain t pred val encoded penv where
    auth: "authentic C S store frame e keys"
      "open_in_place C frame AgentId_CA MT_Publish (public_ed25519 keys) (ca_x25519_secret (authority_keys ca)) = Inr plain"
      "parse_operation plain = Inr (Op_Publish t pred val)"
      "view_environments (view store) (envelope_sender e) = Some encoded" "parse_stored_environment encoded = Inr penv"
      "validate_environment (authority_policy ca) (envelope_sender e) None penv = Inr ()"
    and goes: "let chosen = filter (eligible (authority_policy ca) (view_environments (view store)) (envelope_sender e) penv t pred)
           (view_subscriptions (view store) t) in
     list_all2 (\<lambda>sub frame. \<exists>rkeys r r'. view_keys (view store) (sub_subscriber sub) = Some rkeys \<and>
        delivery C ca (envelope_sender e) (sub_subscriber sub) (sub_handler sub) t val (public_x25519 rkeys) r = (Inr frame, r'))
       chosen ds \<and>
     view store' = consume t (one_shots chosen) (view store)"
    by blast
  let ?chosen = "filter (eligible (authority_policy ca) (view_environments (view store)) (envelope_sender e) penv t pred)
    (view_subscriptions (view store) t)"
  have handler: "sub_handler sub \<noteq> HandlerId_NONE" if "sub \<in> set ?chosen" for sub
    using ok that by (auto simp: view_ok_def stored_ok_def)
  have "list_all2 (received_as C mark ca (view store) (envelope_sender e) t val) ?chosen ds"
  proof (rule list.rel_mono_strong)
    show "list_all2 (\<lambda>sub frame. \<exists>rkeys r r'. view_keys (view store) (sub_subscriber sub) = Some rkeys \<and>
        delivery C ca (envelope_sender e) (sub_subscriber sub) (sub_handler sub) t val (public_x25519 rkeys) r = (Inr frame, r'))
       ?chosen ds"
      using goes by (simp add: Let_def)
    fix sub frame
    assume "sub \<in> set ?chosen" and d: "\<exists>rkeys r r'. view_keys (view store) (sub_subscriber sub) = Some rkeys \<and>
        delivery C ca (envelope_sender e) (sub_subscriber sub) (sub_handler sub) t val (public_x25519 rkeys) r = (Inr frame, r')"
    from d obtain rkeys r r' where "view_keys (view store) (sub_subscriber sub) = Some rkeys"
      "delivery C ca (envelope_sender e) (sub_subscriber sub) (sub_handler sub) t val (public_x25519 rkeys) r = (Inr frame, r')"
      by blast
    from received_asI [OF laws published_value_fits [OF auth(3)] handler [OF \<open>sub \<in> set ?chosen\<close>] this]
    show "received_as C mark ca (view store) (envelope_sender e) t val sub frame" .
  qed
  moreover have "published C ca (view store) frame (envelope_sender e) penv t pred val"
  proof -
    have "parse_envelope frame = Inr e" "view_keys (view store) (envelope_sender e) = Some keys"
      using auth(1) by (auto simp: authentic_def keys_law ok_or_def split: option.splits)
    then show ?thesis using auth(2-6) unfolding published_def by blast
  qed
  ultimately show ?thesis
    using goes unfolding Let_def by blast
qed

end

section \<open>Isolation end to end\<close>

lemma delivery_addressed:
  assumes laws: "crypto_laws C" and val: "length val \<le> MAX_VALUE_BYTES"
    and run: "delivery C ca publisher recipient h t val rx rng = (Inr frame, rng')"
  shows "\<exists>e. parse_envelope frame = Inr e \<and> envelope_recipient e = recipient"
proof -
  obtain session salt secret rng1 where draws: "request_draws C rng = (session, salt, secret, rng1)"
    by (metis prod.exhaust)
  have dh: "x_dh C secret rx \<noteq> 0"
    using delivery_weak_key [OF val draws, of rx ca publisher recipient h t] run by auto
  let ?n = "length (operation_bytes (PublicationResponse t publisher val))"
  obtain out where out: "length out = 4324" "?n \<le> 3640"
    "delivery C ca publisher recipient h t val rx rng =
      (let (sealed, o1) = seal_in_place C out ?n MT_PublicationResponse AgentId_CA recipient h (SessionId session)
         salt secret rx (ca_signing_key (authority_keys ca)) in tryS (sealed, rng1) (\<lambda>n rng. (Inr (take n o1), rng)))"
    by (rule delivery_seals [OF val draws])
  have n: "?n \<le> MAX_PLAINTEXT_LEN" "?n + 228 \<le> length out"
    using out(1,2) by (simp_all add: const_defs del: operation_bytes.simps)
  obtain e where e: "seal_in_place C out ?n MT_PublicationResponse AgentId_CA recipient h (SessionId session)
         salt secret rx (ca_signing_key (authority_keys ca)) = (Inr (?n + 228), frame_bytes e @ drop (?n + 228) out)"
    "envelope_wf e" "envelope_recipient e = recipient" "length (envelope_ciphertext e) = ?n"
    by (rule seal_in_place_ok [OF laws n dh, of MT_PublicationResponse AgentId_CA recipient h "SessionId session" salt
          "ca_signing_key (authority_keys ca)"]) blast
  from e(2,4) have "length (frame_bytes e) = ?n + 228" "parse_envelope (frame_bytes e) = Inr e"
    by (simp_all add: length_frame_bytes parse_frame_bytes del: operation_bytes.simps)
  with run out(3) e(1,3) show ?thesis by (auto simp del: operation_bytes.simps)
qed

text \<open>What the subscriber reads in a delivery is what the CA sealed.\<close>

lemma delivery_read:
  assumes laws: "crypto_laws C" and val: "length val \<le> MAX_VALUE_BYTES"
    and sent: "delivery C ca publisher (agent_id agent) h' t val (AgentKeys_x25519_public C (agent_keys agent)) rng = (Inr frame, rng')"
    and ca: "ca_ed25519 (agent_ca agent) = CaKeys_verifying_key C (authority_keys ca)"
    and received: "receive C mark agent frame h replay now = (Inr d, replay')"
  shows "delivery_type_id d = t \<and> delivery_publisher d = publisher \<and> delivery_value d = val \<and> h = h'"
proof (rule delivery_Inr [OF laws val sent [unfolded AgentKeys_x25519_public_def]])
  fix e
  assume e: "parse_envelope frame = Inr e" "envelope_handler e = h'"
    "open_in_place C frame (agent_id agent) MT_PublicationResponse
       (ed_public C (ca_signing_key (authority_keys ca))) (keys_x25519 (agent_keys agent)) =
       Inr (operation_bytes (PublicationResponse t publisher val))"
  have "parse_operation (operation_bytes (PublicationResponse t publisher val)) = Inr (Op_PublicationResponse t publisher val)"
    using parse_operation_print [of "PublicationResponse t publisher val"] val by simp
  with received e ca show ?thesis
    by (auto simp: receive_Inr_iff CaKeys_verifying_key_def simp del: operation_bytes.simps)
qed

lemma eligible_iff:
  "eligible P environments sender penv t pred sub \<longleftrightarrow>
     (\<exists>wanted encoded senv. subscription_predicate sub t = Inr wanted \<and> predicate_evaluate wanted penv \<and>
        environments (sub_subscriber sub) = Some encoded \<and> parse_stored_environment encoded = Inr senv \<and>
        predicate_evaluate pred senv \<and> authorize_delivery P sender penv (sub_subscriber sub) senv t)"
proof -
  have sum: "(case r of Inl _ \<Rightarrow> False | Inr x \<Rightarrow> Q x) \<longleftrightarrow> (\<exists>x. r = Inr x \<and> Q x)" for r :: "Error + 'b" and Q
    by (cases r) simp_all
  have option: "(case r of None \<Rightarrow> False | Some x \<Rightarrow> Q x) \<longleftrightarrow> (\<exists>x. r = Some x \<and> Q x)" for r :: "'b option" and Q
    by (cases r) simp_all
  show ?thesis unfolding eligible_def sum option by blast
qed

text \<open>What stands behind a delivery that an agent accepts: an authentic publication, a stored subscription of
  the agent under the handler, both predicates met and the policy's consent.\<close>

definition delivered_for ::
  "'r crypto \<Rightarrow> CertificateAuthority \<Rightarrow> store_view \<Rightarrow> AgentId \<Rightarrow> Delivery \<Rightarrow> AttributeRef list \<Rightarrow> AttributeRef list
     \<Rightarrow> PredicateRef \<Rightarrow> StoredSubscription \<Rightarrow> bool" where
  "delivered_for C ca v recipient d pas sas pred sub \<longleftrightarrow>
     attributes_valid pas \<and> attributes_valid sas \<and> sub \<in> set (view_subscriptions v (delivery_type_id d)) \<and>
     sub_subscriber sub = recipient \<and> sub_handler sub = delivery_handler d \<and>
     (\<exists>wanted. subscription_predicate sub (delivery_type_id d) = Inr wanted \<and> predicate_evaluate wanted (environment_of pas)) \<and>
     predicate_evaluate pred (environment_of sas) \<and>
     authorize_delivery (authority_policy ca) (delivery_publisher d) (environment_of pas) recipient (environment_of sas)
       (delivery_type_id d)"

context ca_store_laws begin

lemma publication_delivered:
  assumes laws: "crypto_laws C" and ok: "view_ok (view store)"
    and run: "process C S ca frame now (store, rng) = (Inr (Deliveries ds), (store', rng'))"
    and sent: "frame' \<in> set ds"
    and agent: "ca_ed25519 (agent_ca agent) = CaKeys_verifying_key C (authority_keys ca)"
      "\<forall>keys. view_keys (view store) (agent_id agent) = Some keys \<longrightarrow>
         public_x25519 keys = AgentKeys_x25519_public C (agent_keys agent)"
    and received: "receive C mark agent frame' h replay later = (Inr d, replay')"
  shows "\<exists>e keys plain pred pas sas sub. authentic C S store frame e keys \<and> delivery_publisher d = envelope_sender e \<and>
    open_in_place C frame AgentId_CA MT_Publish (public_ed25519 keys) (ca_x25519_secret (authority_keys ca)) = Inr plain \<and>
    parse_operation plain = Inr (Op_Publish (delivery_type_id d) pred (delivery_value d)) \<and>
    delivered_for C ca (view store) (agent_id agent) d pas sas pred sub"
proof -
  from process_published [OF run ok] obtain e :: EnvelopeRef and keys plain t pred val encoded penv where
    pub: "authentic C S store frame e keys"
      "open_in_place C frame AgentId_CA MT_Publish (public_ed25519 keys) (ca_x25519_secret (authority_keys ca)) = Inr plain"
      "parse_operation plain = Inr (Op_Publish t pred val)" "parse_stored_environment encoded = Inr penv"
    and goes: "list_all2 (\<lambda>sub frame. \<exists>rkeys r r'. view_keys (view store) (sub_subscriber sub) = Some rkeys \<and>
        delivery C ca (envelope_sender e) (sub_subscriber sub) (sub_handler sub) t val (public_x25519 rkeys) r = (Inr frame, r'))
       (filter (eligible (authority_policy ca) (view_environments (view store)) (envelope_sender e) penv t pred)
           (view_subscriptions (view store) t)) ds"
    unfolding Let_def by blast
  have val: "length val \<le> MAX_VALUE_BYTES" by (rule published_value_fits [OF pub(3)])
  from sent obtain i where "i < length ds" "frame' = ds ! i" by (auto simp: in_set_conv_nth)
  with list_all2_nthD2 [OF goes, of i] list_all2_lengthD [OF goes] obtain sub rkeys r r' where
    elig: "eligible (authority_policy ca) (view_environments (view store)) (envelope_sender e) penv t pred sub"
      "sub \<in> set (view_subscriptions (view store) t)"
    and d: "view_keys (view store) (sub_subscriber sub) = Some rkeys"
      "delivery C ca (envelope_sender e) (sub_subscriber sub) (sub_handler sub) t val (public_x25519 rkeys) r = (Inr frame', r')"
    using nth_mem [of i "filter (eligible (authority_policy ca) (view_environments (view store)) (envelope_sender e) penv t pred)
      (view_subscriptions (view store) t)"] by (auto simp del: nth_mem)
  from delivery_addressed [OF laws val d(2)] received have id: "sub_subscriber sub = agent_id agent"
    by (auto simp: receive_Inr_iff)
  have "public_x25519 rkeys = AgentKeys_x25519_public C (agent_keys agent)" using agent(2) d(1) id by simp
  from delivery_read [OF laws val d(2) [unfolded this id] agent(1) received] received
  have fields: "delivery_type_id d = t" "delivery_publisher d = envelope_sender e" "delivery_value d = val"
    "sub_handler sub = delivery_handler d"
    by (simp_all add: receive_Inr_iff)
  from elig(1) obtain encoded' senv where senv: "parse_stored_environment encoded' = Inr senv"
    "authorize_delivery (authority_policy ca) (envelope_sender e) penv (agent_id agent) senv t" "predicate_evaluate pred senv"
    and wanted: "\<exists>wanted. subscription_predicate sub t = Inr wanted \<and> predicate_evaluate wanted penv"
    by (auto simp: eligible_iff id)
  obtain pas sas where "attributes_valid pas" "penv = environment_of pas" "attributes_valid sas" "senv = environment_of sas"
    using stored_environment_valid [OF pub(4)] stored_environment_valid [OF senv(1)] by blast
  with senv(2,3) wanted elig(2) id fields have "delivered_for C ca (view store) (agent_id agent) d pas sas pred sub"
    by (simp add: delivered_for_def)
  with pub(1-3) fields show ?thesis by blast
qed

lemma publication_isolated:
  assumes laws: "crypto_laws C" and ok: "view_ok (view store)"
    and policy: "policy_wf p" "authority_policy ca = static_policy p"
    and run: "process C S ca frame now (store, rng) = (Inr (Deliveries ds), (store', rng'))"
    and sent: "frame' \<in> set ds"
    and agent: "ca_ed25519 (agent_ca agent) = CaKeys_verifying_key C (authority_keys ca)"
      "\<forall>keys. view_keys (view store) (agent_id agent) = Some keys \<longrightarrow>
         public_x25519 keys = AgentKeys_x25519_public C (agent_keys agent)"
    and received: "receive C mark agent frame' h replay later = (Inr d, replay')"
  shows "(\<forall>as a. bt_get (policy_isolation p) (delivery_type_id d) = Some as \<longrightarrow> a \<in> set as \<longrightarrow>
      (\<exists>v. bt_get (policy_approvals p) (delivery_publisher d, a) = Some v \<and>
           bt_get (policy_approvals p) (agent_id agent, a) = Some v)) \<and>
    (\<forall>a vs. bt_get (policy_subscriber_requirements p) (delivery_type_id d, a) = Some vs \<longrightarrow>
      (\<exists>v\<in>set vs. bt_get (policy_approvals p) (agent_id agent, a) = Some v))"
proof -
  from publication_delivered [OF laws ok run sent agent received] obtain pas sas where
    "attributes_valid pas" "attributes_valid sas" "static_authorize_delivery p (delivery_publisher d) (environment_of pas)
       (agent_id agent) (environment_of sas) (delivery_type_id d)"
    by (auto simp: delivered_for_def policy(2) static_policy_def)
  with authorized_isolation [OF policy(1), of pas sas] authorized_requirements [OF policy(1), of pas sas]
  show ?thesis by blast
qed

end

section \<open>What one agent can change\<close>

lemma replace_first_others:
  "replace_first (same_slot sub) sub bucket = Some bucket' \<Longrightarrow> b \<noteq> sub_subscriber sub \<Longrightarrow>
     {s \<in> set bucket'. sub_subscriber s = b} = {s \<in> set bucket. sub_subscriber s = b}"
proof (induction bucket arbitrary: bucket')
  case (Cons x xs)
  show ?case
  proof (cases "same_slot sub x")
    case True
    with Cons.prems show ?thesis by (auto simp: same_slot_def)
  next
    case False
    with Cons.prems obtain ys where "replace_first (same_slot sub) sub xs = Some ys" "bucket' = x # ys" by auto
    with Cons.IH [of ys] Cons.prems(2) show ?thesis by auto
  qed
qed simp

lemma upsert_others:
  assumes "b \<noteq> sub_subscriber sub"
  shows "{s \<in> set (upsert sub bucket). sub_subscriber s = b} = {s \<in> set bucket. sub_subscriber s = b}"
  using replace_first_others [of sub bucket _ b] assms
  by (cases "replace_first (same_slot sub) sub bucket") (auto simp: upsert_def)

text \<open>What no request of \<open>a\<close> does to the data of another agent \<open>b\<close>: the environment stays, no subscription
  is added or altered, and only one-shot subscriptions can be consumed.\<close>

definition untouched :: "AgentId \<Rightarrow> store_view \<Rightarrow> store_view \<Rightarrow> bool" where
  "untouched b v v' \<longleftrightarrow> view_environments v' b = view_environments v b \<and>
     (\<forall>t. {s \<in> set (view_subscriptions v' t). sub_subscriber s = b} \<subseteq> {s \<in> set (view_subscriptions v t). sub_subscriber s = b} \<and>
          (\<forall>s\<in>set (view_subscriptions v t). sub_subscriber s = b \<longrightarrow> sub_kind s = Permanent \<longrightarrow>
             s \<in> set (view_subscriptions v' t)))"

lemma untouched_simps:
  "untouched b v v" "b \<noteq> a \<Longrightarrow> untouched b v (v\<lparr>view_environments := (view_environments v)(a \<mapsto> e)\<rparr>)"
  "\<forall>s\<in>R. sub_kind s = OneShot \<Longrightarrow> untouched b v (consume t R v)"
  by (auto simp: untouched_def consume_def)

lemma untouched_upsert:
  assumes "b \<noteq> sub_subscriber sub"
  shows "untouched b v (v\<lparr>view_subscriptions := (view_subscriptions v)(t := upsert sub (view_subscriptions v t))\<rparr>)"
  using upsert_others [OF assms, of "view_subscriptions v t"] by (auto simp: untouched_def)

context ca_store_laws begin

lemma dispatch_confined:
  assumes "dispatch C S ca a mt h plain op (store, rng) = (r, (store', rng'))" "view_ok (view store)"
  shows "view_keys (view store') = view_keys (view store) \<and> (\<forall>b. b \<noteq> a \<longrightarrow> untouched b (view store) (view store'))"
proof -
  have "view_keys (view store') = view_keys (view store) \<and> (\<forall>b. b \<noteq> a \<longrightarrow> untouched b (view store) (view store'))"
    if "process_set_environment S ca a h plain env (store, rng) = (r, (store', rng'))" for env
    using process_set_environment_effect(1) [OF that] by (auto simp: untouched_simps)
  moreover have "view_keys (view store') = view_keys (view store) \<and> (\<forall>b. b \<noteq> a \<longrightarrow> untouched b (view store) (view store'))"
    if "process_subscribe S ca a h plain t k (store, rng) = (r, (store', rng'))" for t k
    using process_subscribe_effect(1) [OF that] by (auto simp: untouched_simps intro!: untouched_upsert)
  moreover have "view_keys (view store') = view_keys (view store) \<and> (\<forall>b. b \<noteq> a \<longrightarrow> untouched b (view store) (view store'))"
    if "process_publish C S ca a h t pred val (store, rng) = (r, (store', rng'))" for t pred val
    using process_publish_effect [OF that assms(2)] by (auto simp: untouched_simps)
  ultimately show ?thesis
    using assms(1) by (auto simp: dispatch_def untouched_simps split: MessageType.splits OperationRef.splits)
qed

lemma process_confined:
  assumes run: "process C S ca frame now (store, rng) = (r, (store', rng'))" and ok: "view_ok (view store)"
    and changed: "view store' \<noteq> view store"
  shows "\<exists>e keys. authentic C S store frame e keys \<and> view_keys (view store') = view_keys (view store) \<and>
    (\<forall>b. b \<noteq> envelope_sender e \<longrightarrow> untouched b (view store) (view store'))"
proof -
  from process_unauthentic [of C S store frame ca now rng] run changed
  obtain e keys where auth: "authentic C S store frame e keys" by fastforce
  obtain m store1 where m: "store_check_and_mark S store (envelope_sender e) (envelope_session_id e) now = (m, store1)"
    by fastforce
  have v: "view store1 = view store"
    using mark_law [of store "envelope_sender e" "envelope_session_id e" now] m by simp
  from run changed m v obtain plain op where
    "dispatch C S ca (envelope_sender e) (envelope_message_type e) (envelope_handler e) plain op (store1, rng) = (r, (store', rng'))"
    unfolding process_authentic [OF auth] by (auto split: sum.splits)
  from dispatch_confined [OF this] ok v auth show ?thesis by auto
qed

end

section \<open>A small world\<close>

text \<open>Two agents with the approved attribute, the second with a one-shot subscription, on a working disk.\<close>

definition demo_ca :: CertificateAuthority where
  "demo_ca = \<lparr>authority_keys = CaKeys_from_seeds 21 22, authority_policy = static_policy pair_policy\<rparr>"

definition demo_agent :: "AgentId \<Rightarrow> array32 \<Rightarrow> array32 \<Rightarrow> Agent" where
  "demo_agent a ed x = \<lparr>agent_id = a, agent_keys = AgentKeys_from_seeds ed x, agent_ca = \<lparr>ca_ed25519 = 21, ca_x25519 = 22\<rparr>\<rparr>"

definition demo_subscription :: StoredSubscription where
  "demo_subscription = \<lparr>sub_subscriber = AgentId 6, sub_type_id = TypeId 9, sub_handler = HandlerId 3, sub_kind = OneShot,
     sub_encoded = operation_bytes (Subscribe (TypeId 9) [])\<rparr>"

definition demo_state :: PersistentState where
  "demo_state =
     \<lparr>state_keys = [(AgentId 5, \<lparr>public_ed25519 = 11, public_x25519 = 12\<rparr>),
                    (AgentId 6, \<lparr>public_ed25519 = 13, public_x25519 = 14\<rparr>)],
      state_environments = [(AgentId 5, operation_bytes (SetEnvironment pair_environment)),
                            (AgentId 6, operation_bytes (SetEnvironment pair_environment))],
      state_subscriptions = [(TypeId 9, [demo_subscription])],
      state_replay = ReplayCache_new 8 600\<rparr>"

definition demo_store :: PersistentStore where
  "demo_store = \<lparr>ps_state = demo_state, ps_files = \<lparr>snapshot_path = None, temporary_path = None\<rparr>,
     ps_limits = StoreLimits_default, ps_faults = []\<rparr>"

lemma ps_commit_ok:
  assumes "encode_state st = Inr bs" "length bs \<le> SNAPSHOT_MAX" "ps_faults s = []" "temporary_path (ps_files s) = None"
  shows "ps_commit s st = (Inr (), s\<lparr>ps_files := \<lparr>snapshot_path = Some bs, temporary_path = None\<rparr>, ps_faults := [], ps_state := st\<rparr>)"
  using assms by (simp add: ps_commit_def snapshot_commit_def no_faults_def Let_def)

lemma demo_marked:
  "\<exists>store1. ps_check_and_mark demo_store (AgentId 5) (SessionId i) 0 = (Inr (), store1) \<and>
     ps_faults store1 = [] \<and> temporary_path (ps_files store1) = None \<and>
     ps_state store1 = demo_state\<lparr>state_replay := (ReplayCache_new 8 600)\<lparr>cache_entries := [((AgentId 5, SessionId i), 600)]\<rparr>\<rparr>"
proof -
  let ?st = "demo_state\<lparr>state_replay := (ReplayCache_new 8 600)\<lparr>cache_entries := [((AgentId 5, SessionId i), 600)]\<rparr>\<rparr>"
  have mark: "cache_check_and_mark (state_replay demo_state) (AgentId 5) (SessionId i) 0 =
      (Inr (), (ReplayCache_new 8 600)\<lparr>cache_entries := [((AgentId 5, SessionId i), 600)]\<rparr>)"
    by (simp add: demo_state_def cache_check_and_mark_def ReplayCache_new_def bt_retain_def bt_empty_def
        bt_contains_key_def bt_get_def bt_len_def saturating_add_def)
  obtain bs where "encode_state ?st = Inr bs" "length bs \<le> SNAPSHOT_MAX"
    by (simp add: demo_state_def ReplayCache_new_def bt_empty_def encode_state_def push_bytes_def push_u32_def bt_len_def
        subscription_count_def STATE_MAGIC_def SNAPSHOT_MAX_def demo_subscription_def pair_environment_def
        ascii_def attribute_bytes_def predicate_wire_def bytes_u16_bytes_def)
  from ps_commit_ok [OF this, of demo_store] mark show ?thesis
    by (auto simp: ps_check_and_mark_def demo_store_def Let_def)
qed

lemma demo_claimed:
  assumes "ps_faults store1 = []" "temporary_path (ps_files store1) = None"
    "ps_state store1 = demo_state\<lparr>state_replay := (ReplayCache_new 8 600)\<lparr>cache_entries := [((AgentId 5, SessionId i), 600)]\<rparr>\<rparr>"
  shows "\<exists>store2. ps_claim_subscription store1 demo_subscription = (Inr True, store2)"
proof -
  let ?st = "ps_state store1\<lparr>state_subscriptions := [(TypeId 9, [])]\<rparr>"
  obtain bs where "encode_state ?st = Inr bs" "length bs \<le> SNAPSHOT_MAX"
    by (simp add: assms demo_state_def ReplayCache_new_def bt_empty_def encode_state_def push_bytes_def push_u32_def bt_len_def
        subscription_count_def STATE_MAGIC_def SNAPSHOT_MAX_def demo_subscription_def pair_environment_def
        ascii_def attribute_bytes_def predicate_wire_def bytes_u16_bytes_def)
  note commit = ps_commit_ok [OF this assms(1,2)]
  have "sub_kind demo_subscription = OneShot" "sub_type_id demo_subscription = TypeId 9" by (simp_all add: demo_subscription_def)
  moreover have "bt_get (state_subscriptions (ps_state store1)) (TypeId 9) = Some [demo_subscription]"
    "bt_insert (TypeId 9) [] (state_subscriptions (ps_state store1)) = [(TypeId 9, [])]"
    by (simp_all add: assms(3) demo_state_def bt_get_def)
  ultimately show ?thesis
    using commit by (simp add: ps_claim_subscription_def Let_def)
qed

lemma predicate_evaluate_nil: "attributes_valid as \<Longrightarrow> predicate_evaluate (predicate_of []) (environment_of as)"
  by (simp add: predicate_evaluate_of clauses_valid_def)

lemma demo_environment:
  "parse_stored_environment (operation_bytes (SetEnvironment pair_environment)) = Inr (environment_of pair_environment)"
  using parse_operation_print [of "SetEnvironment pair_environment"] pair_environment_valid
  by (simp add: parse_stored_environment_def)

lemma demo_predicate: "subscription_predicate demo_subscription (TypeId 9) = Inr (predicate_of [])"
  using parse_operation_print [of "Subscribe (TypeId 9) []"]
  by (simp add: subscription_predicate_def demo_subscription_def clauses_valid_def)

lemma demo_authorized:
  "authorize_delivery (static_policy pair_policy) (AgentId 5) (environment_of pair_environment)
     (AgentId 6) (environment_of pair_environment) (TypeId 9)"
  by (simp add: static_policy_def static_authorize_delivery_def pair_environment_accepted static_allows_delivery_iff
      pair_policy_wf pair_environment_valid)
    (simp add: pair_policy_eq pair_environment_def bt_get_def)

lemma demo_view_ok: "view_ok (ps_view demo_store)"
proof -
  have "is_environment (operation_bytes (SetEnvironment pair_environment))"
    using parse_operation_print [of "SetEnvironment pair_environment"] pair_environment_valid by (simp add: is_environment_def)
  moreover have "stored_ok demo_subscription"
    using parse_operation_print [of "Subscribe (TypeId 9) []"]
    by (simp add: stored_ok_def demo_subscription_def kind_of_def clauses_valid_def HandlerId_NONE_def)
  moreover have "sub_type_id demo_subscription = TypeId 9" by (simp add: demo_subscription_def)
  ultimately show ?thesis
    by (auto simp: view_ok_def ps_view_def demo_store_def demo_state_def bt_get_def bucket_of_def)
qed

lemma demo_delivered_for:
  assumes cs: "clauses_valid cs" "predicate_evaluate (predicate_of cs) (environment_of pair_environment)"
  shows "\<exists>frame f store' rng' e. process toy_crypto persistent_store demo_ca frame 0 (demo_store, 7) =
     (Inr (Deliveries [f]), (store', rng')) \<and>
     publish_request toy_crypto (demo_agent (AgentId 5) 11 12) (TypeId 9) cs [42] 7 = (Inr frame, 10) \<and> parse_envelope f = Inr e \<and> envelope_message_type e = MT_PublicationResponse \<and>
     envelope_sender e = AgentId_CA \<and> envelope_recipient e = AgentId 6 \<and>
     (\<exists>e. parse_envelope frame = Inr e \<and> envelope_sender e = AgentId 5 \<and> envelope_recipient e = AgentId_CA \<and>
        envelope_message_type e = MT_Publish)"
proof -
  let ?op = "Publish (TypeId 9) cs [42]" and ?agent = "demo_agent (AgentId 5) 11 12"
  let ?env = "operation_bytes (SetEnvironment pair_environment)"
  have op: "operation_valid ?op" "operation_type ?op \<noteq> MT_PublicationResponse" using cs(1) by (simp_all add: const_defs)
  have draws: "request_draws toy_crypto 7 = (7, 8, 9, 10)" by (simp add: request_draws_def toy_crypto_def)
  obtain frame rest where request: "request_into toy_crypto ?agent (replicate MAX_FRAME_LEN 0) (operation_type ?op) HandlerId_NONE 7
      (\<lambda>plain. encode_operation plain ?op) = (Inr (length frame), frame @ rest, 10)"
    and frame: "process toy_crypto persistent_store demo_ca frame 0 (demo_store, 7) =
      (case store_check_and_mark persistent_store demo_store (agent_id ?agent) (SessionId 7) 0 of
         (Inl err, store1) \<Rightarrow> (Inl err, (store1, 7))
       | (Inr _, store1) \<Rightarrow> dispatch toy_crypto persistent_store demo_ca (agent_id ?agent) (operation_type ?op) HandlerId_NONE
           (operation_bytes ?op) (operation_ref ?op) (store1, 7))"
    and parses: "\<exists>e. parse_envelope frame = Inr e \<and> envelope_sender e = AgentId 5 \<and> envelope_recipient e = AgentId_CA \<and>
      envelope_message_type e = MT_Publish"
    using ps.request_processed_envelope [OF toy_crypto_laws op, of "replicate MAX_FRAME_LEN 0" 7 7 8 9 10 ?agent demo_ca demo_store
        "\<lparr>public_ed25519 = 11, public_x25519 = 12\<rparr>" HandlerId_NONE 0 7, OF _ draws]
    by (auto simp: const_defs demo_agent_def demo_ca_def CaKeys_x25519_public_def CaKeys_from_seeds_def toy_crypto_def
        AgentId_CA_def ps_view_def demo_store_def demo_state_def bt_get_def AgentKeys_verifying_key_def AgentKeys_from_seeds_def)
  from demo_marked [of 7] obtain store1 where s1: "ps_check_and_mark demo_store (AgentId 5) (SessionId 7) 0 = (Inr (), store1)"
    "ps_faults store1 = []" "temporary_path (ps_files store1) = None"
    "ps_state store1 = demo_state\<lparr>state_replay := (ReplayCache_new 8 600)\<lparr>cache_entries := [((AgentId 5, SessionId 7), 600)]\<rparr>\<rparr>"
    by blast
  from demo_claimed [OF s1(2-4)] obtain store2 where s2: "ps_claim_subscription store1 demo_subscription = (Inr True, store2)"
    by blast
  have dh: "x_dh toy_crypto 9 (x_public toy_crypto 14) \<noteq> 0" by (simp add: toy_crypto_def)
  obtain f e where f: "delivery toy_crypto demo_ca (AgentId 5) (AgentId 6) (HandlerId 3) (TypeId 9) [42]
      (x_public toy_crypto 14) 7 = (Inr f, 10)"
    and e: "parse_envelope f = Inr e" "envelope_message_type e = MT_PublicationResponse" "envelope_sender e = AgentId_CA"
      "envelope_recipient e = AgentId 6"
    by (rule delivery_ok [OF toy_crypto_laws _ draws dh, of "[42]"]) (auto simp: const_defs)
  have sub: "sub_subscriber demo_subscription = AgentId 6" "sub_handler demo_subscription = HandlerId 3"
    by (simp_all add: demo_subscription_def)
  have state: "bt_get (state_environments (ps_state store1)) (AgentId 5) = Some ?env"
    "bt_get (state_environments (ps_state store1)) (AgentId 6) = Some ?env"
    "bt_get (state_keys (ps_state store1)) (AgentId 6) = Some \<lparr>public_ed25519 = 13, public_x25519 = 14\<rparr>"
    "bucket_of (state_subscriptions (ps_state store1)) (TypeId 9) = [demo_subscription]"
    by (simp_all add: s1(4) demo_state_def bt_get_def bucket_of_def del: operation_bytes.simps)
  have policy: "authority_policy demo_ca = static_policy pair_policy" by (simp add: demo_ca_def)
  have x: "x_public toy_crypto 14 = 14" by (simp add: toy_crypto_def)
  have "publish_loop toy_crypto persistent_store demo_ca (AgentId 5) (environment_of pair_environment) (TypeId 9)
      (predicate_of cs) [42] [demo_subscription] [] (store1, 7) = (Inr [f], (store2, 10))"
    using f s2 by (simp add: demo_predicate predicate_evaluate_nil pair_environment_valid cs(2) ps.environment_law
        demo_environment demo_authorized policy ps.keys_law ps_view_def state sub x persistent_store_def
        ps_environment_def ps_get_keys_def ok_or_def del: operation_bytes.simps)
  then have "process_publish toy_crypto persistent_store demo_ca (AgentId 5) HandlerId_NONE (TypeId 9) (predicate_of cs) [42]
      (store1, 7) = (Inr (Deliveries [f]), (store2, 10))"
    by (simp add: process_publish_def ps.environment_law ps.subscriptions_law ps_view_def state ok_or_def demo_environment
        policy static_policy_def pair_environment_accepted map_err_def del: operation_bytes.simps)
  with frame s1(1) have "process toy_crypto persistent_store demo_ca frame 0 (demo_store, 7) = (Inr (Deliveries [f]), (store2, 10))"
    by (auto simp: demo_agent_def dispatch_def persistent_store_def simp del: operation_bytes.simps)
  moreover from request have "publish_request toy_crypto ?agent (TypeId 9) cs [42] 7 = (Inr frame, 10)"
    by (simp add: publish_request_def request_owned_def publish_into_def)
  ultimately show ?thesis using e parses by blast
qed

lemma demo_delivered:
  "\<exists>frame f store' rng' e. process toy_crypto persistent_store demo_ca frame 0 (demo_store, 7) =
     (Inr (Deliveries [f]), (store', rng')) \<and> parse_envelope f = Inr e \<and> envelope_message_type e = MT_PublicationResponse \<and>
     envelope_sender e = AgentId_CA \<and> envelope_recipient e = AgentId 6 \<and>
     (\<exists>e. parse_envelope frame = Inr e \<and> envelope_sender e = AgentId 5 \<and> envelope_recipient e = AgentId_CA \<and>
        envelope_message_type e = MT_Publish)"
  using demo_delivered_for [of "[]"] predicate_evaluate_nil [OF pair_environment_valid] by (fastforce simp: clauses_valid_def)

lemma demo_publication:
  "\<exists>frame f store' rng'. process toy_crypto persistent_store demo_ca frame 0 (demo_store, 7) =
     (Inr (Deliveries [f]), (store', rng'))"
  using demo_delivered by blast

abbreviation demo_subscriber :: Agent where
  "demo_subscriber \<equiv> demo_agent (AgentId 6) 13 14"

lemma demo_subscriber_keys:
  "agent_id demo_subscriber = AgentId 6" "ca_ed25519 (agent_ca demo_subscriber) = CaKeys_verifying_key toy_crypto (authority_keys demo_ca)"
  "AgentKeys_x25519_public toy_crypto (agent_keys demo_subscriber) = 14"
  "\<forall>keys. view_keys (ps_view demo_store) (agent_id demo_subscriber) = Some keys \<longrightarrow>
     public_x25519 keys = AgentKeys_x25519_public toy_crypto (agent_keys demo_subscriber)"
  by (simp_all add: demo_agent_def demo_ca_def CaKeys_verifying_key_def CaKeys_from_seeds_def toy_crypto_def
      AgentKeys_x25519_public_def AgentKeys_from_seeds_def ps_view_def demo_store_def demo_state_def bt_get_def)

lemma demo_received:
  assumes run: "process toy_crypto persistent_store demo_ca frame 0 (demo_store, 7) = (Inr (Deliveries [f]), (store', rng'))"
  shows "\<exists>d replay'. receive toy_crypto fixed_check_and_mark demo_subscriber f (HandlerId 3) (FixedReplayCache_new 1 10) 5 =
      (Inr d, replay') \<and> delivery_type_id d = TypeId 9"
proof -
  from ps.publication_run [OF toy_crypto_laws demo_view_ok run, of fixed_check_and_mark] obtain a penv t pred val where
    "list_all2 (received_as toy_crypto fixed_check_and_mark demo_ca (ps_view demo_store) a t val)
       (filter (eligible (authority_policy demo_ca) (view_environments (ps_view demo_store)) a penv t pred)
          (view_subscriptions (ps_view demo_store) t)) [f]"
    unfolding Let_def by blast
  then obtain sub where sub: "sub \<in> set (view_subscriptions (ps_view demo_store) t)"
    "received_as toy_crypto fixed_check_and_mark demo_ca (ps_view demo_store) a t val sub f"
    by (auto simp: list_all2_Cons2 dest!: filter_eq_ConsD) blast
  then have t: "t = TypeId 9" "sub = demo_subscription"
    by (auto simp: ps_view_def demo_store_def demo_state_def bucket_of_def bt_get_def split: if_splits)
  have new: "fixed_check_and_mark (FixedReplayCache_new 1 10) AgentId_CA session 5 =
      (Inr (), \<lparr>fixed_entries = [Some \<lparr>replay_sender = AgentId_CA, replay_session = session, replay_expires_at = 15\<rparr>],
        fixed_ttl_seconds = 10\<rparr>)" for session
    by (simp add: FixedReplayCache_new_def fixed_check_and_mark_def expire_entry_def saturating_add_def)
  show ?thesis
    using sub(2) new demo_subscriber_keys unfolding received_as_def t by (fastforce simp: demo_subscription_def)
qed

section \<open>Properties\<close>

text \<open>Only authenticated requests reach the CA's state. A frame that is not addressed to the CA, not
  from a provisioned agent, or not signed with that agent's key is refused, and neither the store
  nor the random source changes, whatever the store is.\<close>

theorem unauthenticated_request_refused:
  assumes "\<not> (\<exists>e keys. parse_envelope frame = Inr e \<and> envelope_recipient e = AgentId_CA \<and>
      store_keys S store (envelope_sender e) = Inr keys \<and>
      ed_verify_strict C (public_ed25519 keys) (envelope_signed_bytes e) (envelope_signature e))"
  shows "snd (process C S ca frame now (store, rng)) = (store, rng) \<and>
    \<not> is_ok (fst (process C S ca frame now (store, rng)))"
  using assms by (intro process_unauthentic) (auto simp: authentic_def)

theorem unauthenticated_request_witness:
  "snd (process toy_crypto persistent_store demo_ca [1, 2, 3] 0 (demo_store, 7)) = (demo_store, 7)"
proof -
  have "parse_envelope [1, 2, 3] = Inl Malformed" by (simp add: parse_envelope_def const_defs)
  then show ?thesis by (intro unauthenticated_request_refused [THEN conjunct1]) simp
qed

text \<open>C9: an agent's request runs at the CA as the operation the agent asked for: the frame
  \<open>request_into\<close> writes passes every check of \<open>process\<close>, is marked once in the replay memory under
  the agent's identity and the fresh session, and is dispatched with the decoded operation.\<close>

theorem request_executed:
  assumes "crypto_laws C" "operation_valid op" "operation_type op \<noteq> MT_PublicationResponse"
    "MAX_FRAME_LEN \<le> length out" "request_draws C rng = (session, salt, secret, rng')"
    "ca_x25519 (agent_ca agent) = CaKeys_x25519_public C (authority_keys ca)"
    "x_dh C secret (ca_x25519 (agent_ca agent)) \<noteq> 0" "agent_id agent \<noteq> AgentId_CA"
    "ps_get_keys store (agent_id agent) = Inr keys"
    "public_ed25519 keys = AgentKeys_verifying_key C (agent_keys agent)"
  shows "\<exists>frame rest. request_into C agent out (operation_type op) h rng (\<lambda>plain. encode_operation plain op) =
      (Inr (length frame), frame @ rest, rng') \<and>
    process C persistent_store ca frame now (store, r) =
      (case ps_check_and_mark store (agent_id agent) (SessionId session) now of
         (Inl err, store1) \<Rightarrow> (Inl err, (store1, r))
       | (Inr _, store1) \<Rightarrow> dispatch C persistent_store ca (agent_id agent) (operation_type op) h (operation_bytes op)
           (operation_ref op) (store1, r))"
proof -
  have keys: "view_keys (ps_view store) (agent_id agent) = Some keys"
    using assms(9) by (simp add: ps_view_def ps_get_keys_def ok_or_def split: option.splits)
  show ?thesis
    using ps.request_processed [OF assms(1-8) keys assms(10), of h now r]
    by (simp add: persistent_store_def)
qed

theorem request_executed_witness:
  "\<exists>frame. process toy_crypto persistent_store demo_ca frame 0 (demo_store, 1) =
     (case ps_check_and_mark demo_store (AgentId 6) (SessionId 2) 0 of
         (Inl err, store1) \<Rightarrow> (Inl err, (store1, 1))
       | (Inr _, store1) \<Rightarrow> dispatch toy_crypto persistent_store demo_ca (AgentId 6) MT_Subscribe (HandlerId 4)
           (operation_bytes (Subscribe (TypeId 9) [])) (operation_ref (Subscribe (TypeId 9) [])) (store1, 1))"
proof -
  let ?agent = "demo_agent (AgentId 6) 13 14"
  have draws: "request_draws toy_crypto 2 = (2, 3, 4, 5)" by (simp add: request_draws_def toy_crypto_def)
  have keys: "ps_get_keys demo_store (agent_id ?agent) = Inr \<lparr>public_ed25519 = 13, public_x25519 = 14\<rparr>"
    by (simp add: demo_store_def demo_state_def demo_agent_def bt_get_def ps_get_keys_def ok_or_def)
  have ca: "ca_x25519 (agent_ca ?agent) = CaKeys_x25519_public toy_crypto (authority_keys demo_ca)"
    "x_dh toy_crypto 4 (ca_x25519 (agent_ca ?agent)) \<noteq> 0" "agent_id ?agent \<noteq> AgentId_CA" "agent_id ?agent = AgentId 6"
    "public_ed25519 \<lparr>public_ed25519 = 13, public_x25519 = 14\<rparr> = AgentKeys_verifying_key toy_crypto (agent_keys ?agent)"
    by (simp_all add: demo_agent_def demo_ca_def CaKeys_x25519_public_def CaKeys_from_seeds_def toy_crypto_def AgentId_CA_def
        AgentKeys_verifying_key_def AgentKeys_from_seeds_def)
  have op: "operation_valid (Subscribe (TypeId 9) [])" "operation_type (Subscribe (TypeId 9) []) \<noteq> MT_PublicationResponse"
    "MAX_FRAME_LEN \<le> length (replicate 4324 (0 :: u8))"
    by (simp_all add: const_defs clauses_valid_def)
  from request_executed [OF toy_crypto_laws op draws ca(1-3) keys ca(5), of "HandlerId 4" 0 1] show ?thesis
    unfolding ca(4) operation_type.simps by blast
qed

text \<open>C7: the CA answers each authentic frame at most once while it remembers it. After a successful
  request, the same frame is refused as \<open>Replay\<close> until the entry expires, whatever other requests
  were processed in between, from whatever agents and with whatever results, disk failures
  included.\<close>

theorem authority_no_replay:
  assumes "cache_inv (state_replay (ps_state store))"
    "process C persistent_store ca frame now (store, rng) = (Inr r, (store1, rng1))"
    "\<forall>(frame, t, rng)\<in>set requests. t < saturating_add now (cache_ttl_seconds (state_replay (ps_state store)))"
    "later < saturating_add now (cache_ttl_seconds (state_replay (ps_state store)))"
  shows "fst (process C persistent_store ca frame later
    (fold (\<lambda>(frame, t, rng) s. fst (snd (process C persistent_store ca frame t (s, rng)))) requests store1, rng2)) = Inl Replay"
  using assms by (rule ps_replay.process_no_replay)

theorem authority_no_replay_witness:
  "\<exists>frame ds store1 rng1. process toy_crypto persistent_store demo_ca frame 0 (demo_store, 7) =
      (Inr (Deliveries ds), (store1, rng1)) \<and>
    fst (process toy_crypto persistent_store demo_ca frame 599
      (fst (snd (process toy_crypto persistent_store demo_ca [1] 300 (store1, 8))), 9)) = Inl Replay"
proof -
  from demo_publication obtain frame f store1 rng1 where run:
    "process toy_crypto persistent_store demo_ca frame 0 (demo_store, 7) = (Inr (Deliveries [f]), (store1, rng1))"
    by blast
  have "cache_inv (state_replay (ps_state demo_store))"
    by (simp add: demo_store_def demo_state_def cache_inv_def ReplayCache_new_def)
  from authority_no_replay [OF this run, of "[([1], 300, 8)]" 599 9] run show ?thesis
    by (auto simp: demo_store_def demo_state_def ReplayCache_new_def saturating_add_def)
qed

text \<open>C1: a publication reaches exactly the right subscribers, intact. When \<open>process\<close> returns deliveries,
  the frame was a publication of an authenticated agent whose stored environment still satisfies
  the policy; the deliveries are, one for one and in slot order, for the subscriptions to the type
  whose own predicate the publisher's environment meets, whose environment meets the publisher's
  predicate, and which the policy authorises; each is accepted by the subscriber's agent with
  the published type, publisher and value; and exactly the one-shot ones among them are consumed.\<close>

theorem publication_exact:
  assumes "crypto_laws C" "view_ok (ps_view store)"
    "process C persistent_store ca frame now (store, rng) = (Inr (Deliveries ds), (store', rng'))"
  shows "\<exists>a penv t pred val. published C ca (ps_view store) frame a penv t pred val \<and>
    (let chosen = filter (eligible (authority_policy ca) (view_environments (ps_view store)) a penv t pred)
           (view_subscriptions (ps_view store) t) in
     list_all2 (received_as C mark ca (ps_view store) a t val) chosen ds \<and>
     ps_view store' = consume t (one_shots chosen) (ps_view store))"
  using assms by (rule ps.publication_run)

theorem publication_exact_witness:
  "\<exists>frame f store' rng'. process toy_crypto persistent_store demo_ca frame 0 (demo_store, 7) =
      (Inr (Deliveries [f]), (store', rng')) \<and>
    (\<exists>t. ps_view store' = consume t (one_shots (view_subscriptions (ps_view demo_store) t)) (ps_view demo_store))"
proof -
  from demo_publication obtain frame f store' rng' where run:
    "process toy_crypto persistent_store demo_ca frame 0 (demo_store, 7) = (Inr (Deliveries [f]), (store', rng'))"
    by blast
  from publication_exact [OF toy_crypto_laws demo_view_ok run, of fixed_check_and_mark] obtain P t where
    chosen: "length (filter P (view_subscriptions (ps_view demo_store) t)) = 1"
    "ps_view store' = consume t (one_shots (filter P (view_subscriptions (ps_view demo_store) t))) (ps_view demo_store)"
    unfolding Let_def by (auto dest!: list_all2_lengthD)
  have "length (view_subscriptions (ps_view demo_store) t) \<le> 1"
    by (simp add: ps_view_def demo_store_def demo_state_def bucket_of_def bt_get_def)
  then have "filter P (view_subscriptions (ps_view demo_store) t) = view_subscriptions (ps_view demo_store) t"
    using chosen(1) by (cases "view_subscriptions (ps_view demo_store) t") (auto split: if_splits)
  with chosen(2) run show ?thesis by auto
qed

text \<open>C6: isolation holds end to end, under any predicates. Whatever delivery an agent accepts from
  the CA, the CA had approved the same value for publisher and subscriber in every isolation
  attribute of the type, and a listed value for the subscriber in every attribute the type
  requires of its subscribers.\<close>

theorem isolation_end_to_end:
  assumes "crypto_laws C" "view_ok (ps_view store)" "policy_wf p" "authority_policy ca = static_policy p"
    "process C persistent_store ca frame now (store, rng) = (Inr (Deliveries ds), (store', rng'))"
    "frame' \<in> set ds" "ca_ed25519 (agent_ca agent) = CaKeys_verifying_key C (authority_keys ca)"
    "\<forall>keys. view_keys (ps_view store) (agent_id agent) = Some keys \<longrightarrow>
       public_x25519 keys = AgentKeys_x25519_public C (agent_keys agent)"
    "receive C mark agent frame' h replay later = (Inr d, replay')"
  shows "(\<forall>as a. bt_get (policy_isolation p) (delivery_type_id d) = Some as \<longrightarrow> a \<in> set as \<longrightarrow>
      (\<exists>v. bt_get (policy_approvals p) (delivery_publisher d, a) = Some v \<and>
           bt_get (policy_approvals p) (agent_id agent, a) = Some v)) \<and>
    (\<forall>a vs. bt_get (policy_subscriber_requirements p) (delivery_type_id d, a) = Some vs \<longrightarrow>
      (\<exists>v\<in>set vs. bt_get (policy_approvals p) (agent_id agent, a) = Some v))"
  using assms by (rule ps.publication_isolated)

theorem isolation_end_to_end_witness:
  "\<exists>frame f store' rng' d replay'. process toy_crypto persistent_store demo_ca frame 0 (demo_store, 7) =
      (Inr (Deliveries [f]), (store', rng')) \<and>
    receive toy_crypto fixed_check_and_mark (demo_agent (AgentId 6) 13 14) f (HandlerId 3) (FixedReplayCache_new 1 10) 5 =
      (Inr d, replay') \<and> delivery_type_id d = TypeId 9 \<and>
    (\<exists>v. bt_get (policy_approvals pair_policy) (delivery_publisher d, AttributeId 0x1001) = Some v)"

proof -
  let ?agent = "demo_agent (AgentId 6) 13 14"
  from demo_publication obtain frame f store' rng' where run:
    "process toy_crypto persistent_store demo_ca frame 0 (demo_store, 7) = (Inr (Deliveries [f]), (store', rng'))"
    by blast
  from demo_received [OF run] obtain d replay' where received:
    "receive toy_crypto fixed_check_and_mark demo_subscriber f (HandlerId 3) (FixedReplayCache_new 1 10) 5 = (Inr d, replay')"
    "delivery_type_id d = TypeId 9" by blast
  have "authority_policy demo_ca = static_policy pair_policy" by (simp add: demo_ca_def)
  from isolation_end_to_end [OF toy_crypto_laws demo_view_ok pair_policy_wf this run _ demo_subscriber_keys(2,4) received(1)] received(2)
  have "\<exists>v. bt_get (policy_approvals pair_policy) (delivery_publisher d, AttributeId 0x1001) = Some v"
    by (auto simp: pair_policy_eq bt_get_def split: if_splits)
  with run received show ?thesis by blast
qed

text \<open>C8: an agent can only change its own data. When a request changes what the CA has stored, the frame
  was signed by a provisioned agent, and for every other agent the keys and the environment stay,
  no subscription is added or altered, and permanent subscriptions are kept: at most one-shot
  subscriptions are consumed. This holds for failed requests too.\<close>

theorem request_confined:
  assumes "process C persistent_store ca frame now (store, rng) = (r, (store', rng'))" "view_ok (ps_view store)"
    "ps_view store' \<noteq> ps_view store"
  shows "\<exists>e keys. authentic C persistent_store store frame e keys \<and>
    view_keys (ps_view store') = view_keys (ps_view store) \<and>
    (\<forall>b. b \<noteq> envelope_sender e \<longrightarrow> untouched b (ps_view store) (ps_view store'))"
  using assms by (rule ps.process_confined)

theorem request_confined_witness:
  "\<exists>frame r store' rng' e keys. process toy_crypto persistent_store demo_ca frame 0 (demo_store, 7) = (r, (store', rng')) \<and>
    authentic toy_crypto persistent_store demo_store frame e keys \<and>
    (\<forall>b. b \<noteq> envelope_sender e \<longrightarrow> untouched b (ps_view demo_store) (ps_view store'))"
proof -
  from demo_publication obtain frame f store' rng' where run:
    "process toy_crypto persistent_store demo_ca frame 0 (demo_store, 7) = (Inr (Deliveries [f]), (store', rng'))"
    by blast
  from ps.publication_run [OF toy_crypto_laws demo_view_ok run, of fixed_check_and_mark] obtain P t where
    chosen: "length (filter P (view_subscriptions (ps_view demo_store) t)) = 1"
    "ps_view store' = consume t (one_shots (filter P (view_subscriptions (ps_view demo_store) t))) (ps_view demo_store)"
    unfolding Let_def by (auto dest!: list_all2_lengthD)
  then have "filter P (view_subscriptions (ps_view demo_store) t) = [demo_subscription]" "t = TypeId 9"
    by (auto simp: ps_view_def demo_store_def demo_state_def bucket_of_def bt_get_def split: if_splits)
  with chosen(2) have "view_subscriptions (ps_view store') (TypeId 9) = []" 
    by (simp add: demo_subscription_def) (simp add: demo_subscription_def ps_view_def demo_store_def demo_state_def bucket_of_def bt_get_def)
  moreover have "view_subscriptions (ps_view demo_store) (TypeId 9) = [demo_subscription]"
    by (simp add: ps_view_def demo_store_def demo_state_def bucket_of_def bt_get_def)
  ultimately have "ps_view store' \<noteq> ps_view demo_store" by auto
  from request_confined [OF run demo_view_ok this] run show ?thesis by blast
qed

text \<open>C17: the stored data stays well formed: after any sequence of requests, accepted or refused, every
  stored environment and subscription parses as what it is stored as, and every bucket holds one
  subscription per subscriber and handler, in slot order.\<close>

theorem requests_keep_view:
  assumes "view_ok (ps_view store)"
  shows "view_ok (ps_view (fst (fold (\<lambda>(frame, now) st. snd (process C persistent_store ca frame now st)) requests (store, rng))))"
  using assms
proof (induction requests arbitrary: store rng)
  case (Cons request requests)
  obtain frame now where [simp]: "request = (frame, now)" by fastforce
  obtain r store1 rng1 where run: "process C persistent_store ca frame now (store, rng) = (r, (store1, rng1))"
    by (metis prod.exhaust)
  from Cons.IH [OF ps.process_view_ok [OF run Cons.prems], of rng1] run show ?case by simp
qed simp

theorem requests_keep_view_witness:
  "view_ok (ps_view (fst (fold (\<lambda>(frame, now) st. snd (process toy_crypto persistent_store demo_ca frame now st))
     [([1, 2], 3)] (demo_store, 7))))"
  by (rule requests_keep_view [OF demo_view_ok])

end
