(* ===== verification/Scenario.thy ===== *)
theory Scenario
  imports Progress Protocol
begin

text \<open>
  A run of the whole system, from the publisher's socket to the subscriber's offline queue: the properties
  of the system are applied to it.
\<close>

text \<open>The demonstration world's CA behind a broker: agent 5 publishes, agent 6 is offline.\<close>

definition demo_daemon :: "(PersistentStore, nat) cad" where
  "demo_daemon = \<lparr>cad_ca = demo_ca, cad_store = demo_store, cad_rng = 7, cad_pending = PendingFrames_new 4096,
     cad_acquired = DedupWindow_new 1, cad_current = None\<rparr>"

lemma demo_daemon_idle: "cad_idle demo_daemon" "pending_maximum (cad_pending demo_daemon) = 4096"
proof -
  have "ps_within demo_store" "limit_subscriptions (ps_limits demo_store) = 4096"
    by (simp_all add: ps_within_def demo_store_def demo_state_def subscription_count_def StoreLimits_default_def
        DEFAULT_MAX_SUBSCRIPTIONS_def bt_wf_def)
  moreover have "pending_maximum (PendingFrames_new 4096) = 4096" by (simp add: PendingFrames_new_def)
  ultimately show "cad_idle demo_daemon" "pending_maximum (cad_pending demo_daemon) = 4096"
    by (simp_all add: cad_idle_def cad_ok_def demo_daemon_def pends_new dedup_new)
qed

abbreviation demo_start :: "(channel_view, MemoryOfflineQueueStore, nat) system" where
  "demo_start \<equiv> system_start (link_start demo_router 2 4096) demo_daemon"

lemma parse_length: "parse_envelope frame = Inr e \<Longrightarrow> length frame \<le> MAX_FRAME_LEN"
  by (simp add: parse_envelope_def split: if_splits)

lemma item_valid: "parse_envelope frame = Inr e \<Longrightarrow> kind \<notin> {Kind_Ack, Kind_AuthOk} \<Longrightarrow> link_valid (item_frame kind (i, frame))"
  using parse_length [of frame e] by (simp add: link_valid_def item_frame_def)

lemma insert_first: "\<exists>p. pending_insert (PendingFrames_new (numeral n)) i bs = (Inr (), p)"
proof -
  have "\<not> pending_maximum (PendingFrames_new (numeral n)) \<le> 0" by (simp add: PendingFrames_new_def)
  with pending_insert_refines(1) [OF pending_new(1), of "numeral n" i bs] pending_new(2) [of "numeral n"] show ?thesis by auto
qed

text \<open>The agent connects and publishes, the broker's CA task takes the request.\<close>

lemma demo_agent:
  assumes "parse_envelope frame = Inr e" "envelope_recipient e = AgentId_CA" "envelope_sender e \<noteq> AgentId_CA"
    "envelope_message_type e \<noteq> MT_PublicationResponse"
  obtains b2 b3 b4 where "task_connect fifo_mpsc memory_offline (envelope_sender e) (broker_start (snd (take_ca_requests demo_router))) = b2"
    "task_read fifo_mpsc memory_offline (envelope_sender e) (Some frame) b2 = Some b3" "ca_take fifo_mpsc b3 = (Some frame, b4)"
    "router_connections (broker_router b4) = [(envelope_sender e, \<lparr>connection_generation = 1, connection_sender = 0\<rparr>)]"
    "router_offline (broker_router b4) = MemoryOfflineQueueStore_new 1" "\<not> history_overflowed b4 (AgentId 6)" "\<not> history_raced b4 (AgentId 6)" "envelope_sender e \<noteq> AgentId 6 \<longrightarrow> broker_tasks b4 (AgentId 6) = None"
proof -
  let ?a = "envelope_sender e" and ?r = "snd (take_ca_requests demo_router)"
  have types: "envelope_message_type e \<in> {MT_SetEnvironment, MT_Subscribe, MT_SubscribePermanent, MT_Publish}"
    using assms(4) by (cases "envelope_message_type e") simp_all
  have empty: "bt_contains_key (router_connections ?r) ?a = False" "bt_len (router_connections ?r) = 0"
    by (simp_all add: take_ca_requests_def with_limits_def with_offline_store_def bt_contains_key_def)
  obtain reg b2 where b2: "task_connect fifo_mpsc memory_offline ?a (broker_start ?r) = b2"
    "broker_tasks b2 ?a = Some reg" "router_ca_channel (broker_router b2) = \<lparr>channel_queue = [], channel_capacity = 1, channel_closed = False\<rparr>"
    "router_ca_depth (broker_router b2) = 1" "router_connections (broker_router b2) = [(?a, \<lparr>connection_generation = 1, connection_sender = 0\<rparr>)]"
    "broker_writing b2 ?a = None" "router_offline (broker_router b2) = MemoryOfflineQueueStore_new 1" "\<not> history_overflowed b2 (AgentId 6)" "\<not> history_raced b2 (AgentId 6)" "?a \<noteq> AgentId 6 \<longrightarrow> broker_tasks b2 (AgentId 6) = None"
    using assms(3) empty
    by (simp add: task_connect_def broker_start_def register_def take_ca_requests_def with_limits_def with_offline_store_def
        memory_offline_def memory_take_def MemoryOfflineQueueStore_new_def fifo_mpsc_def queue_of_def bt_empty_def bt_remove_def Let_def)
  let ?b3 = "b2\<lparr>broker_router := (broker_router b2)\<lparr>router_ca_channel :=
        \<lparr>channel_queue = [frame], channel_capacity = 1, channel_closed = False\<rparr>\<rparr>\<rparr>"
  have "mpsc_try_send fifo_mpsc \<lparr>channel_queue = [], channel_capacity = 1, channel_closed = False\<rparr> frame =
      (Inr (), \<lparr>channel_queue = [frame], channel_capacity = 1, channel_closed = False\<rparr>)" by (simp add: fifo_mpsc_def)
  then have "route_agent_request fifo_mpsc (broker_router b2) ?a frame = (Inr (), broker_router ?b3)"
    unfolding route_agent_request_iff using b2(3,4) assms by auto
  then have b3: "task_read fifo_mpsc memory_offline ?a (Some frame) b2 = Some ?b3" using b2(2,6) by (simp add: task_read_def)
  obtain b4 where "ca_take fifo_mpsc ?b3 = (Some frame, b4)"
    "router_connections (broker_router b4) = [(?a, \<lparr>connection_generation = 1, connection_sender = 0\<rparr>)]"
    "router_offline (broker_router b4) = MemoryOfflineQueueStore_new 1" "\<not> history_overflowed b4 (AgentId 6)" "\<not> history_raced b4 (AgentId 6)" "envelope_sender e \<noteq> AgentId 6 \<longrightarrow> broker_tasks b4 (AgentId 6) = None"
    using b2(5,7-10) by (simp add: ca_take_def fifo_mpsc_def)
  with that [OF b2(1) b3] show thesis by blast
qed

text \<open>The daemon processes the request and holds its delivery.\<close>

lemma demo_incoming:
  assumes p: "process toy_crypto persistent_store demo_ca frame 0 (demo_store, 7) = (Inr (Deliveries [f]), (store', rng'))"
    and valid: "link_valid (item_frame Kind_Request (MessageId 1, frame))" "link_valid (item_frame Kind_Delivery (MessageId 2, f))"
  obtains c where "cad_incoming toy_crypto persistent_store (\<lambda>_. Inr (MessageId 2)) 0 (item_bytes Kind_Request (MessageId 1, frame))
      demo_daemon = (Continue, [item_bytes Kind_Delivery (MessageId 2, f)], c)" "cad_current c = Some (MessageId 1)"
    "cad_pending c = snd (pending_insert (PendingFrames_new 4096) (MessageId 2) (item_bytes Kind_Delivery (MessageId 2, f)))"
proof -
  let ?d = "item_bytes Kind_Delivery (MessageId 2, f)"
  obtain p5 where ins: "pending_insert (PendingFrames_new 4096) (MessageId 2) ?d = (Inr (), p5)"
    using insert_first by blast
  obtain win where "dedup_insert (DedupWindow_new 1) (MessageId 1) = (Inr (), win)"
    using dedup_insert_refines(1) [OF dedup_new(1), of 1 "MessageId 1"]
    by (metis DedupWindow_new_def DedupWindow.select_convs(1) prod.collapse zero_neq_one)
  moreover have "\<not> dedup_contains (DedupWindow_new 1) (MessageId 1)" "pending_remaining (PendingFrames_new 4096) = 4096"
    by (simp_all add: dedup_contains_order dedup_new pending_remaining_def PendingFrames_new_def bt_empty_def bt_len_def)
  moreover have "encode_link Kind_Delivery (MessageId 2) f = Inr ?d" using valid(2) by (simp add: encode_link_item)
  ultimately show thesis
    using p decode_item [OF valid(1)] ins
    by (intro that [of "\<lparr>cad_ca = demo_ca, cad_store = store', cad_rng = rng', cad_pending = p5, cad_acquired = win,
          cad_current = Some (MessageId 1)\<rparr>"])
      (simp_all add: cad_incoming_def cad_request_def demo_daemon_def)
qed

text \<open>The publication reaches the CA, and its delivery the wire.\<close>

lemma demo_published:
  assumes p: "process toy_crypto persistent_store demo_ca frame 0 (demo_store, 7) = (Inr (Deliveries [f]), (store', rng'))"
    and e: "parse_envelope frame = Inr e" "envelope_recipient e = AgentId_CA" "envelope_sender e \<noteq> AgentId_CA"
      "envelope_message_type e \<noteq> MT_PublicationResponse" and f: "parse_envelope f = Inr ef"
  shows "\<exists>s. system_run fifo_mpsc memory_offline toy_crypto
     [Connects True 0 0, Agents (Connect (envelope_sender e)), Agents (Read (envelope_sender e) (Some frame)),
      Broker_takes (Inr (MessageId 1)) 1, Cad_reads (\<lambda>_. Inr (MessageId 2)) 0 1] demo_start = Some s \<and>
    sys_routed s = [] \<and> sys_published s = [(MessageId 2, f)] \<and> sys_to_broker s = [item_bytes Kind_Delivery (MessageId 2, f)] \<and>
    sys_to_ca s = [] \<and> sys_broker_up s \<and> sys_cad_up s \<and> sys_running s \<and> sys_processed s = sys_taken s \<and>
    router_connections (broker_router (link_system (sys_link s))) = [(envelope_sender e, \<lparr>connection_generation = 1, connection_sender = 0\<rparr>)] \<and>
    router_offline (broker_router (link_system (sys_link s))) = MemoryOfflineQueueStore_new 1 \<and>
    \<not> history_overflowed (link_system (sys_link s)) (AgentId 6) \<and> \<not> history_raced (link_system (sys_link s)) (AgentId 6) \<and>
    (envelope_sender e \<noteq> AgentId 6 \<longrightarrow> broker_tasks (link_system (sys_link s)) (AgentId 6) = None) \<and>
    link_acquired (sys_link s) = DedupWindow_new 4096 \<and> cad_current (sys_cad s) = Some (MessageId 1) \<and>
    link_pending (sys_link s) = snd (pending_insert (PendingFrames_new 2) (MessageId 1) (item_bytes Kind_Request (MessageId 1, frame))) \<and>
    cad_pending (sys_cad s) = snd (pending_insert (PendingFrames_new 4096) (MessageId 2) (item_bytes Kind_Delivery (MessageId 2, f)))"
proof -
  have valid: "link_valid (item_frame Kind_Request (MessageId 1, frame))" "link_valid (item_frame Kind_Delivery (MessageId 2, f))"
    using item_valid [OF e(1)] item_valid [OF f] by simp_all
  obtain b2 b3 b4 where b: "task_connect fifo_mpsc memory_offline (envelope_sender e) (broker_start (snd (take_ca_requests demo_router))) = b2"
    "task_read fifo_mpsc memory_offline (envelope_sender e) (Some frame) b2 = Some b3" "ca_take fifo_mpsc b3 = (Some frame, b4)"
    "router_connections (broker_router b4) = [(envelope_sender e, \<lparr>connection_generation = 1, connection_sender = 0\<rparr>)]"
    "router_offline (broker_router b4) = MemoryOfflineQueueStore_new 1" "\<not> history_overflowed b4 (AgentId 6)" "\<not> history_raced b4 (AgentId 6)" "envelope_sender e \<noteq> AgentId 6 \<longrightarrow> broker_tasks b4 (AgentId 6) = None"
    by (rule demo_agent [OF e])
  obtain c where c: "cad_incoming toy_crypto persistent_store (\<lambda>_. Inr (MessageId 2)) 0 (item_bytes Kind_Request (MessageId 1, frame))
      demo_daemon = (Continue, [item_bytes Kind_Delivery (MessageId 2, f)], c)" "cad_current c = Some (MessageId 1)"
    "cad_pending c = snd (pending_insert (PendingFrames_new 4096) (MessageId 2) (item_bytes Kind_Delivery (MessageId 2, f)))"
    by (rule demo_incoming [OF p valid])
  obtain s1 where s1: "system_step fifo_mpsc memory_offline toy_crypto (Connects True 0 0) demo_start = Some s1"
    "sys_link s1 = link_start demo_router 2 4096" "sys_cad s1 = demo_daemon" "sys_to_ca s1 = []" "sys_to_broker s1 = []"
    "sys_broker_up s1" "sys_cad_up s1" "sys_running s1" "sys_taken s1 = []" "sys_processed s1 = []" "sys_published s1 = []" "sys_routed s1 = []"
    by (simp add: connects_def system_start_def broker_sends_def cad_sends_def link_resend_def cad_resend_def link_start_def
        demo_daemon_def pending_snapshot_def PendingFrames_new_def List.map_filter_def)
  let ?s2 = "s1\<lparr>sys_link := (sys_link s1)\<lparr>link_system := b2\<rparr>\<rparr>" and ?s3 = "s1\<lparr>sys_link := (sys_link s1)\<lparr>link_system := b3\<rparr>\<rparr>"
  have s2: "system_step fifo_mpsc memory_offline toy_crypto (Agents (Connect (envelope_sender e))) s1 = Some ?s2"
    and s3: "system_step fifo_mpsc memory_offline toy_crypto (Agents (Read (envelope_sender e) (Some frame))) ?s2 = Some ?s3"
    using b(1,2) by (simp_all add: s1 link_start_def)
  let ?bs = "item_bytes Kind_Request (MessageId 1, frame)" and ?d = "item_bytes Kind_Delivery (MessageId 2, f)"
  obtain p4 where ins: "pending_insert (PendingFrames_new 2) (MessageId 1) ?bs = (Inr (), p4)"
    using insert_first by blast
  let ?l4 = "\<lparr>link_system = b4, link_pending = p4, link_acquired = DedupWindow_new 4096\<rparr>"
  have "pending_is_empty (PendingFrames_new 2)" "\<not> pending_is_full (PendingFrames_new 2)"
    by (simp_all add: pending_is_empty_def pending_is_full_def PendingFrames_new_def bt_empty_def bt_len_def)
  moreover have "encode_link Kind_Request (MessageId 1) frame = Inr ?bs" using valid(1) by (simp add: encode_link_item)
  ultimately have "link_request fifo_mpsc (Inr (MessageId 1)) (sys_link ?s3) = Some ([?bs], ?l4)"
    using b(3) ins by (simp add: link_request_def s1 link_start_def)
  with s1 obtain s4 where s4: "system_step fifo_mpsc memory_offline toy_crypto (Broker_takes (Inr (MessageId 1)) 1) ?s3 = Some s4"
    "sys_link s4 = ?l4" "sys_cad s4 = demo_daemon" "sys_to_ca s4 = [?bs]" "sys_to_broker s4 = []" "sys_broker_up s4" "sys_cad_up s4"
    "sys_running s4" "sys_taken s4 = [(MessageId 1, frame)]" "sys_processed s4 = []" "sys_published s4 = []" "sys_routed s4 = []"
    using valid(1) by (simp add: broker_takes_def broker_sends_def Let_def fresh_def wire_item_bytes)
  have "cad_current demo_daemon = None" "\<not> dedup_contains (cad_acquired demo_daemon) (MessageId 1)"
    by (simp_all add: demo_daemon_def dedup_contains_order dedup_new)
  then obtain s5 where s5: "system_step fifo_mpsc memory_offline toy_crypto (Cad_reads (\<lambda>_. Inr (MessageId 2)) 0 1) s4 = Some s5"
    "sys_link s5 = ?l4" "sys_cad s5 = c" "sys_to_ca s5 = []" "sys_to_broker s5 = [?d]" "sys_broker_up s5" "sys_cad_up s5"
    "sys_running s5" "sys_processed s5 = [(MessageId 1, frame)]" "sys_taken s5 = [(MessageId 1, frame)]"
    "sys_published s5 = [(MessageId 2, f)]" "sys_routed s5 = []"
    using s4 c(1) valid by (simp add: cad_reads_def cad_sends_def Let_def fresh_def wire_item_bytes)
  show ?thesis
    using s1(1) s2 s3 s4(1) s5 b(4-8) c(2,3) ins by (intro exI [of _ s5]) simp
qed

text \<open>The delivery is routed to the subscriber's offline queue and everything is acknowledged.\<close>

lemma demo_deliver:
  assumes "router_connections (broker_router b) = [(AgentId 5, \<lparr>connection_generation = 1, connection_sender = 0\<rparr>)]"
      "router_offline (broker_router b) = MemoryOfflineQueueStore_new 1"
    and f: "parse_envelope f = Inr ef" "envelope_message_type ef = MT_PublicationResponse" "envelope_sender ef = AgentId_CA"
      "envelope_recipient ef = AgentId 6"
  obtains b' where "ca_deliver fifo_mpsc memory_offline [] f b = (Inr (), b')" "history_overflowed b' = history_overflowed b"
    "broker_tasks b (AgentId 6) = None \<Longrightarrow> history_raced b' = history_raced b"
  using assms
  by (simp add: ca_deliver_def note_accepted_def route_ca_locked_def route_ca_unlocked_def bt_get_def AgentId_CA_def
      memory_offline_def memory_enqueue_def MemoryOfflineQueueStore_new_def Let_def)

lemma demo_routed:
  assumes s: "sys_routed s = []" "sys_to_broker s = [item_bytes Kind_Delivery (MessageId 2, f)]" "sys_to_ca s = []"
      "sys_broker_up s" "sys_cad_up s" "sys_running s" "broker_tasks (link_system (sys_link s)) (AgentId 6) = None"
      "router_connections (broker_router (link_system (sys_link s))) = [(AgentId 5, \<lparr>connection_generation = 1, connection_sender = 0\<rparr>)]"
      "router_offline (broker_router (link_system (sys_link s))) = MemoryOfflineQueueStore_new 1"
      "link_acquired (sys_link s) = DedupWindow_new 4096" "cad_current (sys_cad s) = Some (MessageId 1)"
      "link_pending (sys_link s) = snd (pending_insert (PendingFrames_new 2) (MessageId 1) (item_bytes Kind_Request (MessageId 1, frame)))"
      "cad_pending (sys_cad s) = snd (pending_insert (PendingFrames_new 4096) (MessageId 2) (item_bytes Kind_Delivery (MessageId 2, f)))"
    and f: "parse_envelope f = Inr ef" "envelope_message_type ef = MT_PublicationResponse" "envelope_sender ef = AgentId_CA"
      "envelope_recipient ef = AgentId 6"
    and request: "link_valid (item_frame Kind_Request (MessageId 1, frame))"
  shows "\<exists>s'. system_run fifo_mpsc memory_offline toy_crypto
      [Broker_reads [] 1, Cad_reads (\<lambda>_. Inr (MessageId 2)) 0 1, Broker_reads [] 1] s = Some s' \<and>
    pending_is_empty (link_pending (sys_link s')) \<and>
    history_overflowed (link_system (sys_link s')) = history_overflowed (link_system (sys_link s)) \<and>
    history_raced (link_system (sys_link s')) = history_raced (link_system (sys_link s)) \<and>
    sys_published s' = sys_published s"
proof -
  let ?l = "sys_link s" and ?ack = "\<lambda>i. item_bytes Kind_Ack (MessageId i, [])"
  have valid: "link_valid (item_frame Kind_Delivery (MessageId 2, f))" using item_valid [OF f(1)] by simp
  have ack: "decode_link (?ack i) = Inr (item_frame Kind_Ack (MessageId i, []))" for i
    by (rule decode_item) (simp add: item_frame_def link_valid_def)
  have known: "\<not> dedup_contains (DedupWindow_new 4096) (MessageId 2)" by (simp add: dedup_contains_order dedup_new)
  obtain win where win: "dedup_insert (DedupWindow_new 4096) (MessageId 2) = (Inr (), win)"
    using dedup_insert_refines(1) [OF dedup_new(1), of 4096 "MessageId 2"]
    by (metis DedupWindow_new_def DedupWindow.select_convs(1) prod.collapse zero_neq_numeral)
  obtain b where b: "ca_deliver fifo_mpsc memory_offline [] f (link_system ?l) = (Inr (), b)"
    "history_overflowed b = history_overflowed (link_system ?l)" "history_raced b = history_raced (link_system ?l)"
    using demo_deliver [OF s(8,9) f] s(7) by blast
  let ?s1 = "s\<lparr>sys_link := ?l\<lparr>link_system := b, link_acquired := win\<rparr>, sys_to_broker := [], sys_to_ca := [?ack 2],
    sys_routed := [(MessageId 2, f)]\<rparr>"
  have 1: "system_step fifo_mpsc memory_offline toy_crypto (Broker_reads [] 1) s = Some ?s1"
    using s(1-6,10) known win b(1) wire_item_bytes [OF valid, of Kind_Delivery]
    by (simp add: broker_reads_def link_incoming_delivery [OF decode_item [OF valid]] broker_sends_def)
  have gone: "pending_is_empty (snd (pending_acknowledge (snd (pending_insert (PendingFrames_new (numeral n)) i (item_bytes kind (i, payload)))) i))"
    if "link_valid (item_frame kind (i, payload))" for n i kind payload
  proof -
    obtain p where p: "pending_insert (PendingFrames_new (numeral n)) i (item_bytes kind (i, payload)) = (Inr (), p)"
      using insert_first by blast
    have "encode_link kind i payload = Inr (item_bytes kind (i, payload))" using that by (simp add: encode_link_item)
    from pends_ack(1) [OF pends_insert(1) [OF pends_new this p], of i] p show ?thesis using pends_reads(2) by fastforce
  qed
  have "wire_items Kind_Delivery [?ack 1] = []" using wire_item_ack by simp
  then obtain s2 where 2: "system_step fifo_mpsc memory_offline toy_crypto (Cad_reads (\<lambda>_. Inr (MessageId 2)) 0 1) ?s1 = Some s2"
    "sys_link s2 = sys_link ?s1" "sys_to_broker s2 = [?ack 1]" "sys_broker_up s2" "sys_published s2 = sys_published s"
    using s(4,5,11,13) gone [OF valid]
    by (simp add: cad_reads_def cad_incoming_def ack reply_ack wire_item_ack fresh_def cad_sends_def Let_def)
  obtain s3 where 3: "system_step fifo_mpsc memory_offline toy_crypto (Broker_reads [] 1) s2 = Some s3"
    "link_pending (sys_link s3) = snd (pending_acknowledge (link_pending ?l) (MessageId 1))" "link_system (sys_link s3) = b"
    "sys_published s3 = sys_published s"
    using 2 by (simp add: broker_reads_def link_incoming_def ack wire_item_ack broker_sends_def)
  have "pending_is_empty (link_pending (sys_link s3))" using gone [OF request] s(12) 3(2) by simp
  with 1 2(1) 3 b(2,3) show ?thesis by (intro exI [of _ s3]) simp
qed

lemma demo_system:
  "\<exists>f ef s s'. system_reachable fifo_mpsc memory_offline toy_crypto demo_start s \<and> sys_routed s = [] \<and>
     sys_running s \<and> sys_processed s = sys_taken s \<and> \<not> pending_is_empty (link_pending (sys_link s)) \<and>
     routable fifo_mpsc memory_offline [f] (link_system (sys_link s)) \<and>
     sys_published s = [(MessageId 2, f)] \<and> parse_envelope f = Inr ef \<and> envelope_recipient ef = AgentId 6 \<and>
     system_reachable fifo_mpsc memory_offline toy_crypto demo_start s' \<and> sys_published s' = [(MessageId 2, f)] \<and>
     pending_is_empty (link_pending (sys_link s')) \<and> \<not> history_overflowed (link_system (sys_link s')) (AgentId 6) \<and>
     \<not> history_raced (link_system (sys_link s')) (AgentId 6)"
proof -
  from demo_delivered obtain frame f store' rng' ef e where p:
    "process toy_crypto persistent_store demo_ca frame 0 (demo_store, 7) = (Inr (Deliveries [f]), (store', rng'))"
    and f: "parse_envelope f = Inr ef" "envelope_message_type ef = MT_PublicationResponse" "envelope_sender ef = AgentId_CA"
      "envelope_recipient ef = AgentId 6"
    and e: "parse_envelope frame = Inr e" "envelope_sender e = AgentId 5" "envelope_recipient e = AgentId_CA"
      "envelope_message_type e = MT_Publish"
    by blast
  have e': "envelope_recipient e = AgentId_CA" "envelope_sender e \<noteq> AgentId_CA" "envelope_message_type e \<noteq> MT_PublicationResponse"
    using e by (simp_all add: AgentId_CA_def)
  from demo_published [OF p e(1) e' f(1)] obtain s where run: "system_run fifo_mpsc memory_offline toy_crypto
     [Connects True 0 0, Agents (Connect (envelope_sender e)), Agents (Read (envelope_sender e) (Some frame)),
      Broker_takes (Inr (MessageId 1)) 1, Cad_reads (\<lambda>_. Inr (MessageId 2)) 0 1] demo_start = Some s"
    and s: "sys_routed s = []" "sys_published s = [(MessageId 2, f)]" "\<not> history_overflowed (link_system (sys_link s)) (AgentId 6)"
      "\<not> history_raced (link_system (sys_link s)) (AgentId 6)" "sys_processed s = sys_taken s"
    and fields: "sys_to_broker s = [item_bytes Kind_Delivery (MessageId 2, f)]" "sys_to_ca s = []"
      "sys_broker_up s" "sys_cad_up s" "sys_running s" "broker_tasks (link_system (sys_link s)) (AgentId 6) = None"
      "router_connections (broker_router (link_system (sys_link s))) = [(AgentId 5, \<lparr>connection_generation = 1, connection_sender = 0\<rparr>)]"
      "router_offline (broker_router (link_system (sys_link s))) = MemoryOfflineQueueStore_new 1"
      "link_acquired (sys_link s) = DedupWindow_new 4096" "cad_current (sys_cad s) = Some (MessageId 1)"
      "link_pending (sys_link s) = snd (pending_insert (PendingFrames_new 2) (MessageId 1) (item_bytes Kind_Request (MessageId 1, frame)))"
      "cad_pending (sys_cad s) = snd (pending_insert (PendingFrames_new 4096) (MessageId 2) (item_bytes Kind_Delivery (MessageId 2, f)))"
    unfolding e(2) by auto
  have request: "link_valid (item_frame Kind_Request (MessageId 1, frame))" using item_valid [OF e(1)] by simp
  from demo_routed [OF s(1) fields f request] obtain s' where run': "system_run fifo_mpsc memory_offline toy_crypto
      [Broker_reads [] 1, Cad_reads (\<lambda>_. Inr (MessageId 2)) 0 1, Broker_reads [] 1] s = Some s'"
    "pending_is_empty (link_pending (sys_link s'))"
    "history_overflowed (link_system (sys_link s')) = history_overflowed (link_system (sys_link s))"
    "history_raced (link_system (sys_link s')) = history_raced (link_system (sys_link s))" "sys_published s' = sys_published s"
    by blast
  obtain b where "ca_deliver fifo_mpsc memory_offline [] f (link_system (sys_link s)) = (Inr (), b)"
    by (rule demo_deliver [OF fields(7,8) f])
  then have accepts: "routable fifo_mpsc memory_offline [f] (link_system (sys_link s))" by simp
  note reach = system_run_reachable [OF system_reachable.start run]
  have "system_inv 4096 s" by (rule system_reachable_inv [OF reach system_start_inv]) (simp_all add: demo_daemon_idle)
  then have busy: "\<not> pending_is_empty (link_pending (sys_link s))" using fields(10) by (auto simp: system_inv_def)
  have s': "\<not> history_overflowed (link_system (sys_link s')) (AgentId 6)" "\<not> history_raced (link_system (sys_link s')) (AgentId 6)" "sys_published s' = [(MessageId 2, f)]"
    using run'(3-5) s(2-4) by simp_all
  note reach' = system_run_reachable [OF reach run'(1)]
  show ?thesis
    by (intro exI [of _ f] exI [of _ ef] exI [of _ s] exI [of _ s'] conjI)
       (fact reach reach' s s' f run'(2) accepts fields(5) busy)+
qed

end
