(* ===== verification/Guarantees.thy ===== *)
theory Guarantees
  imports Scenario
begin

text \<open>
  What the system of broker and CA promises: the link is exactly-once and in order in both directions,
  agents are sent what was published for them, one publication is delivered at a time, and the
  handshake admits exactly the brokers that know the key. The scenario's run shows that the statements
  are not empty.
\<close>

section \<open>Order and repetition\<close>

lemma system_exactly_once:
  assumes inv: "system_inv window s"
  shows "prefix (sys_processed s) (sys_taken s) \<and> prefix (sys_routed s) (sys_published s) \<and>
    distinct (map fst (sys_taken s)) \<and> distinct (map fst (sys_published s)) \<and>
    (sys_running s \<longrightarrow> map snd (sys_published s) = concat (map deliveries_of (sys_results s))) \<and>
    (pending_is_empty (link_pending (sys_link s)) \<longrightarrow> sys_processed s = sys_taken s \<and> sys_routed s = sys_published s)"
proof -
  from inv have e: "exchange Kind_Request 1 (sys_taken s) (sys_processed s) (live (sys_cad_up s) (sys_to_ca s))"
    "sender_ok Kind_Request 1 (sys_taken s) (sys_processed s) (link_pending (sys_link s))"
    "exchange Kind_Delivery window (sys_published s) (sys_routed s) (live (sys_broker_up s) (sys_to_broker s))"
    by (simp_all add: system_inv_def)
  have prefix: "prefix received sent" "distinct (map fst sent)" if "exchange kind w sent received wire" for kind w sent received wire
    using that by (auto simp: exchange_def) (metis take_is_prefix)
  have "sys_processed s = sys_taken s \<and> sys_routed s = sys_published s" if idle: "pending_is_empty (link_pending (sys_link s))"
    using sender_idle [OF e(1,2) idle] inv idle by (simp add: system_inv_def)
  with prefix [OF e(1)] prefix [OF e(3)] inv show ?thesis by (simp add: system_inv_def)
qed

section \<open>Properties\<close>

text \<open>The link is an exactly-once, in-order channel in both directions. While both processes live, and
  for any interleaving and any failures of connections, the CA processes the requests the broker took,
  in that order and none twice, and the broker routes the deliveries of the processed publications, in that
  order and none twice; once the broker's request is acknowledged, every request was processed
  and every delivery routed. The broker's window must cover the CA's pending deliveries.\<close>

theorem link_exactly_once:
  fixes s :: "('c, 'q, 'r) system"
  assumes "cad_idle c" "pending_maximum (cad_pending c) \<le> window" "0 < window"
    "system_reachable Q off C (system_start (link_start r pending_depth window) c) s"
  shows "prefix (sys_processed s) (sys_taken s) \<and> prefix (sys_routed s) (sys_published s) \<and>
    distinct (map fst (sys_taken s)) \<and> distinct (map fst (sys_published s)) \<and>
    (sys_running s \<longrightarrow> map snd (sys_published s) = concat (map deliveries_of (sys_results s))) \<and>
    (pending_is_empty (link_pending (sys_link s)) \<longrightarrow> sys_processed s = sys_taken s \<and> sys_routed s = sys_published s)"
  by (rule system_exactly_once [OF system_reachable_inv [OF assms(4) system_start_inv [OF assms(1-3)]]])

text \<open>C2: end to end, for the in-memory offline store: what an agent's socket was sent and is still owed is
  taken from the deliveries the CA published for it, each at most as often as it was published. Without an
  overflow of its offline queue nothing is missing but what the broker has not routed yet, and nothing at all once the broker's
  request is acknowledged. The order is the order of publication, unless a delivery was stored offline for the agent when it had
  just connected, in the gap where \<open>route_ca_delivery\<close> holds no lock.\<close>

theorem deliveries_reach_agents:
  fixes s :: "('c, MemoryOfflineQueueStore, 'r) system" and a :: AgentId
  assumes "mpsc_laws Q view"
    "cad_idle c" "pending_maximum (cad_pending c) \<le> window" "0 < window"
    "system_reachable Q memory_offline C
       (system_start (link_start (with_limits Q maximum online_depth offline_depth ca_depth) pending_depth window) c) s"
  defines "broker \<equiv> link_system (sys_link s)"
  defines "frames \<equiv> history_written broker a @ owed view broker a"
    and "expected \<equiv> filter (addressed a) (map snd (sys_published s))"
  shows "mset frames \<subseteq># mset expected \<and>
    (\<not> history_overflowed broker a \<longrightarrow> (\<exists>routed. prefix routed expected \<and> mset frames = mset routed)) \<and>
    (\<not> history_overflowed broker a \<and> pending_is_empty (link_pending (sys_link s)) \<longrightarrow> mset frames = mset expected) \<and>
    (\<not> history_raced broker a \<longrightarrow> subseq frames expected) \<and>
    (\<not> history_raced broker a \<and> \<not> history_overflowed broker a \<longrightarrow> prefix frames expected) \<and>
    (\<not> history_raced broker a \<and> \<not> history_overflowed broker a \<and> pending_is_empty (link_pending (sys_link s)) \<longrightarrow>
       frames = expected)"
proof -
  let ?r = "with_limits Q maximum online_depth offline_depth ca_depth"
  let ?r' = "snd (take_ca_requests ?r)"
  note inv0 = system_start_inv [OF assms(2-4), of ?r pending_depth]
  have "routes Q memory_offline ?r' s"
    using assms(5)
  proof (induction rule: system_reachable.induct)
    case start
    show ?case by (simp add: routes_def system_start_def link_start_def broker_reachable.start) (simp add: broker_start_def)
  next
    case (step s event s')
    from system_step_routes [OF system_reachable_inv [OF step.hyps(1) inv0] step.IH step.hyps(2)] show ?case .
  qed
  then have reach: "broker_reachable Q memory_offline (broker_start ?r') broker"
    and accepted: "history_accepted broker a = filter (addressed a) (map snd (sys_routed s))"
    by (simp_all add: routes_def broker_def)
  have "memory.broker_ok view (broker_start ?r')"
    using with_limits_ok [of view Q maximum online_depth offline_depth ca_depth]
    by (auto simp: take_ca_requests_def broker_start_def memory.broker_ok_def memory.system_ok_def memory.fifo_ok_def memory.backlog_def)
  from memory.broker_reachable_ok [OF reach assms(1) this]
  have relayed: "relayed (history_raced broker a) (history_overflowed broker a) frames (history_accepted broker a)"
    by (simp add: memory.broker_ok_def memory.fifo_ok_def owed_backlog frames_def)
  note once = link_routed_prefix [OF assms(2-5)]
  have sub: "prefix (history_accepted broker a) expected"
    using once(1) unfolding accepted expected_def by (intro filter_mono_prefix map_mono_prefix)
  have all: "history_accepted broker a = expected" if "pending_is_empty (link_pending (sys_link s))"
    using once(2) [OF that] by (simp add: accepted expected_def)
  from sub have "mset (history_accepted broker a) \<subseteq># mset expected" "subseq (history_accepted broker a) expected"
    by (auto simp: prefix_def)
  with relayed have "mset frames \<subseteq># mset expected" "\<not> history_raced broker a \<longrightarrow> subseq frames expected"
    using subset_mset.order_trans subseq_order.trans unfolding relayed_def by blast+
  with relayed relayed_exact [OF relayed] sub all show ?thesis by (auto simp: relayed_def)
qed


text \<open>C5: nothing is stuck for good. From every state in which \<open>cad\<close> runs and has processed the broker's
  request, whatever was lost, there is a run that completes the request, provided that the router accepts what is left of its
  deliveries: every delivery is routed, and the broker is free for the next request.\<close>

theorem request_completes:
  fixes s :: "('c, 'q, 'r) system"
  assumes "cad_idle c" "pending_maximum (cad_pending c) \<le> window" "0 < window"
    "system_reachable Q off C (system_start (link_start r pending_depth window) c) s"
    "sys_running s" "sys_processed s = sys_taken s"
    "routable Q off (map snd (drop (length (sys_routed s)) (sys_published s))) (link_system (sys_link s))"
  shows "\<exists>events s'. system_run Q off C events s = Some s' \<and> pending_is_empty (link_pending (sys_link s')) \<and>
    sys_taken s' = sys_taken s \<and> sys_routed s' = sys_published s"
proof -
  have inv: "system_inv window s"
    using system_reachable_inv [OF assms(4) system_start_inv [OF assms(1-3)]] .
  from request_completes_inv [OF this assms(5-7)] obtain events s' where s': "system_run Q off C events s = Some s'"
    "pending_is_empty (link_pending (sys_link s'))" "sys_published s' = sys_published s" "sys_taken s' = sys_taken s" by blast
  have "sys_routed s' = sys_published s'"
    by (rule link_routed_prefix(2) [OF assms(1-3) system_run_reachable [OF assms(4) s'(1)] s'(2)])
  with s' show ?thesis by (intro exI [of _ events] exI [of _ s']) simp
qed

section \<open>Witnesses\<close>

theorem link_exactly_once_witness:
  "\<exists>(s :: (channel_view, MemoryOfflineQueueStore, nat) system) f.
     system_reachable fifo_mpsc memory_offline toy_crypto demo_start s \<and> length (sys_processed s) = length (sys_taken s) \<and>
     sys_routed s = [(MessageId 2, f)]"
proof -
  from demo_system obtain f s' where s': "system_reachable fifo_mpsc memory_offline toy_crypto demo_start s'"
    "sys_published s' = [(MessageId 2, f)]" "pending_is_empty (link_pending (sys_link s'))" by blast
  from link_exactly_once [OF demo_daemon_idle(1) _ _ s'(1)] s' demo_daemon_idle(2) show ?thesis by auto
qed

theorem deliveries_reach_agents_witness:
  "\<exists>(s :: (channel_view, MemoryOfflineQueueStore, nat) system) f.
     system_reachable fifo_mpsc memory_offline toy_crypto demo_start s \<and> sys_published s = [(MessageId 2, f)] \<and>
     history_written (link_system (sys_link s)) (AgentId 6) @ owed (\<lambda>ch. ch) (link_system (sys_link s)) (AgentId 6) = [f]"
proof -
  from demo_system obtain f ef s' where s': "system_reachable fifo_mpsc memory_offline toy_crypto demo_start s'"
    "sys_published s' = [(MessageId 2, f)]" "pending_is_empty (link_pending (sys_link s'))" "parse_envelope f = Inr ef"
    "envelope_recipient ef = AgentId 6" "\<not> history_overflowed (link_system (sys_link s')) (AgentId 6)"
    "\<not> history_raced (link_system (sys_link s')) (AgentId 6)" by blast
  from deliveries_reach_agents [OF fifo_mpsc_laws demo_daemon_idle(1) _ _ s'(1), of "AgentId 6"] s' demo_daemon_idle(2)
  show ?thesis by (intro exI [of _ s'] exI [of _ f]) (simp add: addressed_def)
qed


theorem request_completes_witness:
  "\<exists>(s :: (channel_view, MemoryOfflineQueueStore, nat) system) events s'.
     \<not> pending_is_empty (link_pending (sys_link s)) \<and> sys_routed s = [] \<and>
     system_run fifo_mpsc memory_offline toy_crypto events s = Some s' \<and> length (sys_routed s') = 1"
proof -
  from demo_system obtain f s where s: "system_reachable fifo_mpsc memory_offline toy_crypto demo_start s" "sys_routed s = []"
    "sys_running s" "sys_processed s = sys_taken s" "\<not> pending_is_empty (link_pending (sys_link s))"
    "routable fifo_mpsc memory_offline [f] (link_system (sys_link s))" "sys_published s = [(MessageId 2, f)]" by blast
  have "\<exists>events s'. system_run fifo_mpsc memory_offline toy_crypto events s = Some s' \<and>
      pending_is_empty (link_pending (sys_link s')) \<and> sys_taken s' = sys_taken s \<and> sys_routed s' = sys_published s"
    by (rule request_completes [OF demo_daemon_idle(1) _ _ s(1,3,4)]) (use s demo_daemon_idle(2) in \<open>simp_all\<close>)
  then obtain events s' where "system_run fifo_mpsc memory_offline toy_crypto events s = Some s'" "sys_routed s' = sys_published s"
    by blast
  with s show ?thesis by (intro exI [of _ s] exI [of _ events] exI [of _ s']) simp
qed

end
