(* ===== verification/Handshake.thy ===== *)
theory Handshake
  imports Session Cad
begin

text \<open>
  The two ends of the link's handshake together: \<open>authenticate_broker\<close> of \<open>cad\<close> and
  \<open>authenticate_ca\<close> of \<open>brokerd\<close>. The MAC that \<open>infrastructure-link\<close> computes is HMAC, and each
  end accepts exactly one frame.
\<close>

section \<open>The expected response\<close>

text \<open>HMAC with a 64-byte block, for keys of at most a block, as RFC 2104 defines it.\<close>

definition hmac :: "(bytes \<Rightarrow> array32) \<Rightarrow> bytes \<Rightarrow> bytes \<Rightarrow> array32" where
  "hmac sha256 key message =
     (let block = key @ replicate (64 - length key) 0 in
      sha256 (map (xor 0x5c) block @ to_be_bytes (sha256 (map (xor 0x36) block @ message))))"

lemma authentication_mac_hmac:
  "authentication_mac sha256 psk challenge =
     hmac sha256 (to_be_bytes psk) (ascii ''SecurePubSub/Broker-CA/v1'' @ to_be_bytes challenge)"
  by (simp add: authentication_mac_def hmac_def xor_block_def Let_def)

lemma decode_link_item:
  "(\<exists>f. decode_link received = Inr f \<and> link_kind f = kind \<and> link_id f = ident \<and> link_payload f = payload) \<longleftrightarrow>
     link_valid (item_frame kind (ident, payload)) \<and> received = item_bytes kind (ident, payload)" (is "?l \<longleftrightarrow> ?r")
proof
  assume ?l
  then obtain f where "decode_link received = Inr f" "f = item_frame kind (ident, payload)" by (auto simp: item_frame_def)
  then show ?r by (simp add: decode_link_iff item_bytes_def)
qed (use decode_item [of kind "(ident, payload)"] in auto)

lemma handshake_valid:
  "link_valid (item_frame kind (ident, to_be_bytes (x :: array32)))" if "kind \<notin> {Kind_Ack, Kind_AuthOk}"
  using that by (simp add: link_valid_def item_frame_def const_defs)

definition expected_response :: "(bytes \<Rightarrow> array32) \<Rightarrow> array32 \<Rightarrow> array32 \<Rightarrow> bytes" where
  "expected_response sha256 psk challenge =
     to_be_bytes (hmac sha256 (to_be_bytes psk) (ascii ''SecurePubSub/Broker-CA/v1'' @ to_be_bytes challenge))"

text \<open>Both ends of the handshake, exactly: the CA admits precisely the response frame to its challenge
  that carries the HMAC-SHA256, under the shared key, of the challenge; the broker answers precisely
  well-formed challenges, with that response, and accepts precisely the success frame of its challenge.\<close>

lemma handshake_exact:
  "challenge_frame challenge cb = Inr (item_bytes Kind_AuthChallenge (challenge, to_be_bytes cb)) \<and>
    (authenticate_broker sha256 psk challenge cb received = Inr success \<longleftrightarrow>
       received = item_bytes Kind_AuthResponse (challenge, expected_response sha256 psk cb) \<and> success = item_bytes Kind_AuthOk (challenge, [])) \<and>
    (answer_challenge sha256 psk incoming = Inr (challenge, response) \<longleftrightarrow>
       (\<exists>cb. incoming = item_bytes Kind_AuthChallenge (challenge, to_be_bytes cb) \<and>
             response = item_bytes Kind_AuthResponse (challenge, expected_response sha256 psk cb))) \<and>
    (accept_authentication challenge final = Inr () \<longleftrightarrow> final = item_bytes Kind_AuthOk (challenge, []))"
proof -
  let ?mac = "expected_response sha256 psk"
  have valid: "link_valid (item_frame Kind_AuthOk (challenge, []))" by (simp add: link_valid_def item_frame_def)
  have 1: "challenge_frame challenge cb = Inr (item_bytes Kind_AuthChallenge (challenge, to_be_bytes cb))"
    by (simp add: challenge_frame_def encode_link_item handshake_valid)
  have mac: "to_be_bytes (authentication_mac sha256 psk x) = ?mac x" for x by (simp add: expected_response_def authentication_mac_hmac)
  have vmac: "link_valid (item_frame Kind_AuthResponse (challenge, ?mac x))" for x
    unfolding expected_response_def by (rule handshake_valid) simp
  have "verify_authentication sha256 psk cb payload = Inr u \<longleftrightarrow> payload = ?mac cb" for payload u
    by (auto simp: verify_authentication_def mac Let_def)
  then have "authenticate_broker sha256 psk challenge cb received = Inr success \<longleftrightarrow>
      (\<exists>f. decode_link received = Inr f \<and> link_kind f = Kind_AuthResponse \<and> link_id f = challenge \<and> link_payload f = ?mac cb) \<and>
      success = item_bytes Kind_AuthOk (challenge, [])"
    using valid by (auto simp: authenticate_broker_def tryE_Inr_iff encode_link_item)
  then have 2: "authenticate_broker sha256 psk challenge cb received = Inr success \<longleftrightarrow>
      received = item_bytes Kind_AuthResponse (challenge, ?mac cb) \<and> success = item_bytes Kind_AuthOk (challenge, [])"
    using vmac by (simp add: decode_link_item)
  have "answer_challenge sha256 psk incoming = Inr (challenge, response) \<longleftrightarrow>
      (\<exists>x. (\<exists>f. decode_link incoming = Inr f \<and> link_kind f = Kind_AuthChallenge \<and> link_id f = challenge \<and>
          link_payload f = to_be_bytes x) \<and> response = item_bytes Kind_AuthResponse (challenge, ?mac x))"
    using vmac by (auto simp: answer_challenge_def tryE_Inr_iff ok_or_def try_into_array_Some_iff encode_link_item mac split: if_splits option.splits)
  then have 3: "answer_challenge sha256 psk incoming = Inr (challenge, response) \<longleftrightarrow>
      (\<exists>x. incoming = item_bytes Kind_AuthChallenge (challenge, to_be_bytes x) \<and>
           response = item_bytes Kind_AuthResponse (challenge, ?mac x))"
    by (simp add: decode_link_item handshake_valid)
  have "accept_authentication challenge final = Inr () \<longleftrightarrow>
      (\<exists>f. decode_link final = Inr f \<and> link_kind f = Kind_AuthOk \<and> link_id f = challenge \<and> link_payload f = [])"
    by (auto simp: accept_authentication_def tryE_Inr_iff decode_link_iff link_valid_def)
  then have 4: "accept_authentication challenge final = Inr () \<longleftrightarrow> final = item_bytes Kind_AuthOk (challenge, [])"
    using valid by (simp add: decode_link_item)
  from 1 2 3 4 show ?thesis by blast
qed

end
