(* ===== verification/Framing.thy ===== *)
theory Framing
  imports Types
begin

text \<open>
  The two transports. \<open>embassy-transport/src/lib.rs\<close>: length-prefixed frames over any embedded stream,
  written and read with the stream's own calls. \<open>transport/src/lib.rs\<close>: the same frames over the tokio
  codec, whose \<open>Framed\<close> is a parameter: what its \<open>next\<close> yields.

  A stream is what its calls will do: a read yields the next bytes of a chunk, at most as many as
  asked for, or fails, or is still waiting when the deadline passes; at the end it yields nothing.
  \<open>write_all\<close> and \<open>flush\<close> succeed, or fail or run out of time after some of the bytes.
\<close>

section \<open>Streams\<close>

datatype 'e read_event = Data bytes | Read_failed 'e | Read_waits

datatype 'e write_event = Written | Write_failed 'e nat | Write_waits nat

record 'e stream =
  stream_reads :: "'e read_event list"
  stream_writes :: "'e write_event list"
  stream_written :: bytes

datatype 'e EmbassyTransportError = Embassy_Io 'e | Embassy_Timeout | Embassy_Disconnected | Embassy_InvalidFrame

text \<open>\<open>timed\<close>: the transport has a deadline. It covers the whole operation, so the first wait that lasts
  too long ends it; without one the stream waits on.\<close>

fun next_read :: "bool \<Rightarrow> usize \<Rightarrow> 'e read_event list \<Rightarrow> ('e EmbassyTransportError + bytes) \<times> 'e read_event list" where
  "next_read timed n [] = (Inr [], [])"
| "next_read timed n (Data bs # events) =
     (Inr (take n bs), if length bs \<le> n then events else Data (drop n bs) # events)"
| "next_read timed n (Read_failed e # events) = (Inl (Embassy_Io e), events)"
| "next_read timed n (Read_waits # events) =
     (if timed then (Inl Embassy_Timeout, events) else next_read timed n events)"

definition stream_read :: "bool \<Rightarrow> usize \<Rightarrow> 'e stream \<Rightarrow> ('e EmbassyTransportError + bytes) \<times> 'e stream" where
  "stream_read timed n s = (let (result, events) = next_read timed n (stream_reads s) in (result, s\<lparr>stream_reads := events\<rparr>))"

definition stream_write_all :: "bool \<Rightarrow> bytes \<Rightarrow> 'e stream \<Rightarrow> ('e EmbassyTransportError + unit) \<times> 'e stream" where
  "stream_write_all timed bs s =
     (let events = tl (stream_writes s);
          wrote = (\<lambda>n. s\<lparr>stream_writes := events, stream_written := stream_written s @ take n bs\<rparr>) in
      case stream_writes s of
        Write_failed e n # _ \<Rightarrow> (Inl (Embassy_Io e), wrote n)
      | Write_waits n # _ \<Rightarrow> if timed then (Inl Embassy_Timeout, wrote n) else (Inr (), wrote (length bs))
      | _ \<Rightarrow> (Inr (), wrote (length bs)))"

section \<open>The Embassy transport\<close>

definition write_frame :: "bool \<Rightarrow> bytes \<Rightarrow> 'e stream \<Rightarrow> ('e EmbassyTransportError + unit) \<times> 'e stream" where
  "write_frame timed frame s =
     tryS (stream_write_all timed (to_be_bytes (of_nat (length frame) :: u32)) s) (\<lambda>_ s.
     tryS (stream_write_all timed frame s) (\<lambda>_ s.
     stream_write_all timed [] s))"

lemma next_read_length: "next_read timed n events = (Inr bs, events') \<Longrightarrow> length bs \<le> n"
  by (induction timed n events rule: next_read.induct) (auto split: if_splits)

text \<open>\<open>read_exact\<close> also returns the bytes that are in the caller's buffer when it fails.\<close>

function read_exact :: "bool \<Rightarrow> usize \<Rightarrow> 'e stream \<Rightarrow> ('e EmbassyTransportError + unit) \<times> bytes \<times> 'e stream" where
  "read_exact timed n s =
     (if n = 0 then (Inr (), [], s)
      else case stream_read timed n s of
        (Inl e, s) \<Rightarrow> (Inl e, [], s)
      | (Inr [], s) \<Rightarrow> (Inl Embassy_Disconnected, [], s)
      | (Inr (b # bs), s) \<Rightarrow>
          let (result, more, s) = read_exact timed (n - length (b # bs)) s in (result, (b # bs) @ more, s))"
  by pat_completeness auto
termination
  by (relation "measure (\<lambda>(_, n, _). n)") (auto simp: stream_read_def)

declare read_exact.simps [simp del]

definition read_frame :: "bool \<Rightarrow> bytes \<Rightarrow> 'e stream \<Rightarrow> ('e EmbassyTransportError + usize) \<times> bytes \<times> 'e stream" where
  "read_frame timed buffer s =
     (let (result, prefix, s) = read_exact timed 4 s in
      case result of Inl e \<Rightarrow> (Inl e, buffer, s)
      | Inr _ \<Rightarrow>
          let n = unat (from_be_bytes prefix :: u32) in
          if n > MAX_FRAME_LEN \<or> n > length buffer then (Inl Embassy_InvalidFrame, buffer, s)
          else
            let (result, got, s) = read_exact timed n s;
                buffer = got @ drop (length got) buffer in
            case result of Inl e \<Rightarrow> (Inl e, buffer, s) | Inr _ \<Rightarrow> (Inr n, buffer, s))"

definition embassy_send :: "bool \<Rightarrow> bytes \<Rightarrow> 'e stream \<Rightarrow> ('e EmbassyTransportError + unit) \<times> 'e stream" where
  "embassy_send timed frame s =
     (if length frame > MAX_FRAME_LEN then (Inl Embassy_InvalidFrame, s) else write_frame timed frame s)"

definition embassy_receive :: "bool \<Rightarrow> bytes \<Rightarrow> 'e stream \<Rightarrow> ('e EmbassyTransportError + usize) \<times> bytes \<times> 'e stream" where
  "embassy_receive timed buffer s = read_frame timed buffer s"

definition embassy_send_hello :: "bool \<Rightarrow> AgentId \<Rightarrow> 'e stream \<Rightarrow> ('e EmbassyTransportError + unit) \<times> 'e stream" where
  "embassy_send_hello timed identity s = embassy_send timed (to_be_bytes (agent_array identity)) s"

section \<open>The tokio transport\<close>

text \<open>What one \<open>next\<close> of the codec yields within the deadline, and one \<open>send\<close>.\<close>

datatype 'e next_event = Next_elapsed | Next_end | Next_error 'e | Next_frame bytes

datatype 'e TransportError =
    Transport_Random | Transport_Io 'e | Transport_Timeout | Transport_InvalidFrame | Transport_Disconnected

definition HELLO_LEN :: usize where "HELLO_LEN = 16"

text \<open>The random source is its seed, when the system gives one.\<close>

definition SystemRandom_new :: "array32 option \<Rightarrow> 'e TransportError + array32" where
  "SystemRandom_new seed = ok_or seed Transport_Random"

datatype 'e send_event = Send_elapsed | Send_error 'e | Sent

definition tokio_send :: "'e send_event \<Rightarrow> bytes \<Rightarrow> 'e TransportError + bytes" where
  "tokio_send event frame =
     (if length frame > MAX_FRAME_LEN then Inl Transport_InvalidFrame
      else case event of
        Send_elapsed \<Rightarrow> Inl Transport_Timeout | Send_error e \<Rightarrow> Inl (Transport_Io e) | Sent \<Rightarrow> Inr frame)"

fun tokio_receive :: "'e next_event \<Rightarrow> 'e TransportError + bytes" where
  "tokio_receive Next_elapsed = Inl Transport_Timeout"
| "tokio_receive Next_end = Inl Transport_Disconnected"
| "tokio_receive (Next_error e) = Inl (Transport_Io e)"
| "tokio_receive (Next_frame bs) = (if length bs \<le> MAX_FRAME_LEN then Inr bs else Inl Transport_InvalidFrame)"

definition tokio_receive_into :: "'e next_event \<Rightarrow> bytes \<Rightarrow> ('e TransportError + usize) \<times> bytes" where
  "tokio_receive_into event buffer =
     (case tokio_receive event of
        Inl e \<Rightarrow> (Inl e, buffer)
      | Inr bs \<Rightarrow> if length bs > length buffer then (Inl Transport_InvalidFrame, buffer)
                  else (Inr (length bs), bs @ drop (length bs) buffer))"

definition tokio_send_hello :: "'e send_event \<Rightarrow> AgentId \<Rightarrow> 'e TransportError + bytes" where
  "tokio_send_hello event identity = tokio_send event (to_be_bytes (agent_array identity))"

definition tokio_receive_hello :: "'e next_event \<Rightarrow> 'e TransportError + AgentId" where
  "tokio_receive_hello event =
     tryE (tokio_receive event) (\<lambda>bs.
     tryE (ok_or (try_into_array bs) Transport_InvalidFrame) (\<lambda>identity. Inr (AgentId identity)))"

section \<open>What a receiver reads\<close>

text \<open>A stream without failures, whose reads always make progress, and the bytes it carries.\<close>

fun clean :: "bool \<Rightarrow> 'e read_event list \<Rightarrow> bool" where
  "clean timed [] = True"
| "clean timed (Data bs # events) = (bs \<noteq> [] \<and> clean timed events)"
| "clean timed (Read_failed e # events) = False"
| "clean timed (Read_waits # events) = (\<not> timed \<and> clean timed events)"

fun stream_bytes :: "'e read_event list \<Rightarrow> bytes" where
  "stream_bytes [] = []"
| "stream_bytes (Data bs # events) = bs @ stream_bytes events"
| "stream_bytes (_ # events) = stream_bytes events"

lemma next_read_clean:
  assumes "clean timed events" "0 < n"
  obtains bs events' where "next_read timed n events = (Inr bs, events')" "stream_bytes events = bs @ stream_bytes events'"
    "clean timed events'" "length bs \<le> n" "bs = [] \<Longrightarrow> stream_bytes events = []"
proof -
  have "\<exists>bs events'. next_read timed n events = (Inr bs, events') \<and> stream_bytes events = bs @ stream_bytes events' \<and>
      clean timed events' \<and> (bs = [] \<longrightarrow> stream_bytes events = [])"
    using assms by (induction timed n events rule: next_read.induct) auto
  then show thesis using that next_read_length by blast
qed

lemma read_exact_clean:
  assumes "clean timed (stream_reads s)"
  shows "\<exists>events. read_exact timed n s =
      (if n \<le> length (stream_bytes (stream_reads s)) then Inr () else Inl Embassy_Disconnected,
       take n (stream_bytes (stream_reads s)), s\<lparr>stream_reads := events\<rparr>) \<and>
    clean timed events \<and> stream_bytes events = drop n (stream_bytes (stream_reads s))"
  using assms
proof (induction timed n s rule: read_exact.induct)
  case (1 timed n s)
  let ?input = "stream_bytes (stream_reads s)"
  show ?case
  proof (cases "n = 0")
    case True
    with 1(2) show ?thesis by (intro exI [of _ "stream_reads s"]) (simp add: read_exact.simps)
  next
    case False
    then obtain bs events where read: "next_read timed n (stream_reads s) = (Inr bs, events)" "?input = bs @ stream_bytes events"
      "clean timed events" "length bs \<le> n" "bs = [] \<Longrightarrow> ?input = []"
      using next_read_clean [OF 1(2), of n] by blast
    let ?s = "s\<lparr>stream_reads := events\<rparr>"
    from read(1) have step: "stream_read timed n s = (Inr bs, ?s)" by (simp add: stream_read_def)
    show ?thesis
    proof (cases bs)
      case Nil
      with step False read(2,3,5) show ?thesis
        by (intro exI [of _ events]) (simp add: read_exact.simps [of timed n])
    next
      case (Cons b rest)
      with 1(1) [OF False, of "Inr bs" ?s bs b rest] step read(3) obtain events' where
        "read_exact timed (n - length bs) ?s =
          (if n - length bs \<le> length (stream_bytes events) then Inr () else Inl Embassy_Disconnected,
           take (n - length bs) (stream_bytes events), ?s\<lparr>stream_reads := events'\<rparr>)"
        "clean timed events'" "stream_bytes events' = drop (n - length bs) (stream_bytes events)" by auto
      moreover have "read_exact timed n s =
          (let (result, more, s) = read_exact timed (n - length bs) ?s in (result, bs @ more, s))"
        using Cons step False by (simp add: read_exact.simps [of timed n])
      ultimately show ?thesis
        using read(2,4) by (intro exI [of _ events']) auto
    qed
  qed
qed

text \<open>The reference decoder: the frame at the front of the input, and what follows it.\<close>

definition receive_spec :: "bytes \<Rightarrow> bytes \<Rightarrow> ('e EmbassyTransportError + usize) \<times> bytes \<times> bytes" where
  "receive_spec buffer input =
     (if length input < 4 then (Inl Embassy_Disconnected, buffer, [])
      else
        let n = be_value (take 4 input); rest = drop 4 input in
        if n > MAX_FRAME_LEN \<or> n > length buffer then (Inl Embassy_InvalidFrame, buffer, rest)
        else if length rest < n then (Inl Embassy_Disconnected, rest @ drop (length rest) buffer, [])
        else (Inr n, take n rest @ drop n buffer, drop n rest))"

lemma receive_clean:
  fixes s :: "'e stream"
  assumes "clean timed (stream_reads s)" "receive_spec buffer (stream_bytes (stream_reads s)) = (result, buffer', rest)"
  shows "\<exists>events. embassy_receive timed buffer s = (result, buffer', s\<lparr>stream_reads := events\<rparr>) \<and>
    clean timed events \<and> stream_bytes events = rest"
proof -
  let ?input = "stream_bytes (stream_reads s)"
  obtain events where prefix: "read_exact timed 4 s =
      (if 4 \<le> length ?input then Inr () else Inl Embassy_Disconnected, take 4 ?input, s\<lparr>stream_reads := events\<rparr>)"
    "clean timed events" "stream_bytes events = drop 4 ?input"
    using read_exact_clean [OF assms(1), of 4] by blast
  show ?thesis
  proof (cases "4 \<le> length ?input")
    case False
    with prefix assms(2) show ?thesis by (intro exI [of _ events]) (auto simp: embassy_receive_def read_frame_def receive_spec_def)
  next
    case True
    let ?n = "be_value (take 4 ?input)"
    have n: "unat (from_be_bytes (take 4 ?input) :: u32) = ?n" using True by (subst unat_from_be_bytes) simp_all
    obtain events' where frame: "read_exact timed ?n (s\<lparr>stream_reads := events\<rparr>) =
        (if ?n \<le> length (drop 4 ?input) then Inr () else Inl Embassy_Disconnected, take ?n (drop 4 ?input), s\<lparr>stream_reads := events'\<rparr>)"
      "clean timed events'" "stream_bytes events' = drop ?n (drop 4 ?input)"
      using read_exact_clean [of timed "s\<lparr>stream_reads := events\<rparr>" ?n] prefix(2,3) by auto
    show ?thesis
    proof (cases "?n > MAX_FRAME_LEN \<or> ?n > length buffer")
      case True
      with prefix assms(2) n \<open>4 \<le> length ?input\<close> show ?thesis
        by (intro exI [of _ events]) (auto simp: embassy_receive_def read_frame_def receive_spec_def Let_def)
    next
      case False
      with prefix frame assms(2) n True show ?thesis
        by (intro exI [of _ events']) (auto simp: embassy_receive_def read_frame_def receive_spec_def Let_def)
    qed
  qed
qed

section \<open>Frames in sequence\<close>

fun send_frames :: "bool \<Rightarrow> bytes list \<Rightarrow> 'e stream \<Rightarrow> ('e EmbassyTransportError + unit) \<times> 'e stream" where
  "send_frames timed [] s = (Inr (), s)"
| "send_frames timed (frame # frames) s = tryS (embassy_send timed frame s) (\<lambda>_ s. send_frames timed frames s)"

fun receive_frames :: "bool \<Rightarrow> nat \<Rightarrow> bytes \<Rightarrow> 'e stream \<Rightarrow> ('e EmbassyTransportError + bytes list) \<times> 'e stream" where
  "receive_frames timed 0 buffer s = (Inr [], s)"
| "receive_frames timed (Suc k) buffer s =
     (case embassy_receive timed buffer s of
        (Inl e, _, s) \<Rightarrow> (Inl e, s)
      | (Inr n, buffer, s) \<Rightarrow> tryS (receive_frames timed k buffer s) (\<lambda>frames s. (Inr (take n buffer # frames), s)))"

definition framed :: "bytes \<Rightarrow> bytes" where
  "framed frame = to_be_bytes (of_nat (length frame) :: u32) @ frame"

lemma write_all_ok: "stream_write_all timed bs s = (Inr (), s') \<Longrightarrow> stream_written s' = stream_written s @ bs"
  by (auto simp: stream_write_all_def Let_def split: list.splits write_event.splits if_splits)

lemma send_ok: "embassy_send timed frame s = (Inr (), s') \<Longrightarrow>
    length frame \<le> MAX_FRAME_LEN \<and> stream_written s' = stream_written s @ framed frame"
  by (auto simp: embassy_send_def write_frame_def framed_def tryS_Inr_iff dest!: write_all_ok split: if_splits)

lemma send_frames_ok: "send_frames timed frames s = (Inr (), s') \<Longrightarrow>
    (\<forall>frame\<in>set frames. length frame \<le> MAX_FRAME_LEN) \<and> stream_written s' = stream_written s @ concat (map framed frames)"
proof (induction frames arbitrary: s)
  case (Cons frame frames)
  from Cons.prems obtain s1 where "embassy_send timed frame s = (Inr (), s1)" "send_frames timed frames s1 = (Inr (), s')"
    by (auto simp: tryS_Inr_iff)
  with send_ok [OF this(1)] Cons.IH [OF this(2)] show ?case by simp
qed simp

lemma receive_framed:
  assumes "length frame \<le> MAX_FRAME_LEN" "MAX_FRAME_LEN \<le> length buffer"
  shows "receive_spec buffer (framed frame @ rest) = (Inr (length frame), frame @ drop (length frame) buffer, rest)"
proof -
  have small: "length frame < 2 ^ 32" using assms(1) by (simp add: const_defs)
  have "be_value (to_be_bytes (of_nat (length frame) :: u32)) = unat (of_nat (length frame) :: u32)"
    using unat_from_be_bytes [of "to_be_bytes (of_nat (length frame) :: u32)", where 'a = 32] by simp
  also have "\<dots> = length frame" using small by (simp add: unat_of_nat)
  finally have n: "be_value (to_be_bytes (of_nat (length frame) :: u32)) = length frame" .
  have four: "length (to_be_bytes (of_nat (length frame) :: u32)) = 4" by simp
  have "take 4 (framed frame @ rest) = to_be_bytes (of_nat (length frame) :: u32)"
    "drop 4 (framed frame @ rest) = frame @ rest" by (simp_all add: framed_def)
  with n assms show ?thesis by (simp add: receive_spec_def framed_def Let_def)
qed

lemma receive_frames_ok:
  fixes s :: "'e stream"
  assumes "clean timed (stream_reads s)" "stream_bytes (stream_reads s) = concat (map framed frames) @ rest"
    "\<forall>frame\<in>set frames. length frame \<le> MAX_FRAME_LEN" "MAX_FRAME_LEN \<le> length buffer"
  shows "\<exists>s'. receive_frames timed (length frames) buffer s = (Inr frames, s') \<and> stream_bytes (stream_reads s') = rest"
  using assms
proof (induction frames arbitrary: s buffer)
  case (Cons frame frames)
  from Cons.prems have frame: "length frame \<le> MAX_FRAME_LEN" by simp
  have "receive_spec buffer (stream_bytes (stream_reads s)) =
      (Inr (length frame) :: 'e EmbassyTransportError + usize, frame @ drop (length frame) buffer, concat (map framed frames) @ rest)"
    using receive_framed [OF frame Cons.prems(4)] Cons.prems(2) by simp
  from receive_clean [OF Cons.prems(1) this] obtain events where e:
    "embassy_receive timed buffer s = (Inr (length frame), frame @ drop (length frame) buffer, s\<lparr>stream_reads := events\<rparr>)"
    "clean timed events" "stream_bytes events = concat (map framed frames) @ rest" by auto
  have "\<exists>s'. receive_frames timed (length frames) (frame @ drop (length frame) buffer) (s\<lparr>stream_reads := events\<rparr>) =
      (Inr frames, s') \<and> stream_bytes (stream_reads s') = rest"
    by (rule Cons.IH) (use e(2,3) Cons.prems frame in auto)
  with e(1) show ?case by auto
qed simp

section \<open>Properties\<close>

text \<open>C34: \<open>receive\<close> decodes the byte stream, whatever its fragmentation. On every stream whose reads make
  progress, its result, the caller's buffer and the input that is left are those of the reference
  decoder: the front frame, \<open>InvalidFrame\<close> for a length over the protocol's or the buffer's bound before
  any payload is read, \<open>Disconnected\<close> when the input ends early.\<close>

theorem embassy_receive_decodes:
  fixes s :: "'e stream"
  assumes "clean timed (stream_reads s)"
  shows "case receive_spec buffer (stream_bytes (stream_reads s)) of (result, buffer', rest) \<Rightarrow>
    \<exists>events. embassy_receive timed buffer s = (result, buffer', s\<lparr>stream_reads := events\<rparr>) \<and> stream_bytes events = rest"
proof -
  obtain result :: "'e EmbassyTransportError + usize" and buffer' rest where
    spec: "receive_spec buffer (stream_bytes (stream_reads s)) = (result, buffer', rest)"
    by (metis prod.exhaust)
  from receive_clean [OF assms this] spec show ?thesis by auto
qed

theorem embassy_receive_witness:
  "\<exists>events. embassy_receive True [0, 0, 0, 0, 0] \<lparr>stream_reads = [Data [0, 0], Data [0, 3, 7], Data [8, 9, 1]],
      stream_writes = [], stream_written = []\<rparr> =
    (Inr 3, [7, 8, 9, 0, 0], \<lparr>stream_reads = events :: unit read_event list, stream_writes = [], stream_written = []\<rparr>) \<and>
    stream_bytes events = [1]"
proof -
  let ?s = "\<lparr>stream_reads = [Data [0, 0], Data [0, 3, 7], Data [8, 9, 1]], stream_writes = [], stream_written = []\<rparr> :: unit stream"
  have "be_value [0, 0, 0, 3] = 3" by (simp add: be_value_def)
  then have "receive_spec [0, 0, 0, 0, 0] [0, 0, 0, 3, 7, 8, 9, 1] =
      (Inr 3 :: unit EmbassyTransportError + usize, [7, 8, 9, 0, 0], [1])"
    by (simp add: receive_spec_def const_defs)
  moreover have "clean True (stream_reads ?s)" "stream_bytes (stream_reads ?s) = [0, 0, 0, 3, 7, 8, 9, 1]" by simp_all
  ultimately show ?thesis using embassy_receive_decodes [of True ?s "[0, 0, 0, 0, 0]"] by simp
qed

text \<open>Frames survive the stream. What a transport sent successfully as a sequence of frames is received
  as the same sequence by any transport with a full-size buffer, for every way the network cuts
  the bytes into reads.\<close>

theorem frames_roundtrip:
  assumes "send_frames timed frames s = (Inr (), s')" "stream_written s = []"
    "clean timed' (stream_reads r)" "stream_bytes (stream_reads r) = stream_written s' @ rest" "MAX_FRAME_LEN \<le> length buffer"
  shows "\<exists>r'. receive_frames timed' (length frames) buffer r = (Inr frames, r') \<and> stream_bytes (stream_reads r') = rest"
  using receive_frames_ok [OF assms(3), of frames rest buffer] send_frames_ok [OF assms(1)] assms(2,4,5) by simp

theorem frames_roundtrip_witness:
  "\<exists>r'. receive_frames False 2 (replicate MAX_FRAME_LEN 0)
     \<lparr>stream_reads = [Data [0, 0, 0], Read_waits, Data [1, 5, 0, 0, 0, 2, 6], Data [7]] :: unit read_event list, stream_writes = [],
       stream_written = []\<rparr> = (Inr [[5], [6, 7]], r')"
proof -
  let ?s = "\<lparr>stream_reads = [], stream_writes = [], stream_written = []\<rparr> :: unit stream"
  let ?s' = "\<lparr>stream_reads = [], stream_writes = [], stream_written = [0, 0, 0, 1, 5, 0, 0, 0, 2, 6, 7]\<rparr> :: unit stream"
  have "be_bytes 4 k = [of_nat (k div 256 div 256 div 256), of_nat (k div 256 div 256), of_nat (k div 256), of_nat k]" for k
  proof -
    have "4 = Suc (Suc (Suc (Suc 0)))" by simp
    then show ?thesis by (simp only: be_bytes.simps append.simps)
  qed
  then have "to_be_bytes (1 :: u32) = [0, 0, 0, 1]" "to_be_bytes (2 :: u32) = [0, 0, 0, 2]"
    by (simp_all add: to_be_bytes_def)
  then have "send_frames True [[5], [6, 7]] ?s = (Inr (), ?s')"
    by (simp add: embassy_send_def write_frame_def stream_write_all_def const_defs)
  from frames_roundtrip [OF this, of False "\<lparr>stream_reads = [Data [0, 0, 0], Read_waits, Data [1, 5, 0, 0, 0, 2, 6], Data [7]],
      stream_writes = [], stream_written = []\<rparr>" "[]" "replicate MAX_FRAME_LEN 0"]
  show ?thesis by (auto simp: numeral_2_eq_2)
qed

end
