(* ===== verification/Support.thy ===== *)
theory Support
  imports Cad Session Agent Framing
begin

text \<open>
  What the agent programs share, \<open>app-common/src/lib.rs\<close>: key files, the connection to the broker with its
  retries, and sending. The network is a script, as in \<open>Framing\<close>: what each connection attempt and each
  write will do. A call that has used up its script is still retrying, which is the result \<open>None\<close>. The log holds
  what the program did, in order.
\<close>

section \<open>Text\<close>

text \<open>The UTF-8 encodings of the characters with the property \<open>White_Space\<close>, which \<open>str::trim\<close> removes from both ends.\<close>

definition white_space :: "bytes list" where
  "white_space = [[9], [10], [11], [12], [13], [32], [0xC2, 0x85], [0xC2, 0xA0], [0xE1, 0x9A, 0x80], [0xE2, 0x80, 0xA8],
     [0xE2, 0x80, 0xA9], [0xE2, 0x80, 0xAF], [0xE2, 0x81, 0x9F], [0xE3, 0x80, 0x80]] @
     map (\<lambda>k. [0xE2, 0x80, 0x80 + of_nat k]) [0..<11]"

fun skip_spaces :: "bytes list \<Rightarrow> nat \<Rightarrow> bytes \<Rightarrow> bytes" where
  "skip_spaces spaces 0 text = text"
| "skip_spaces spaces (Suc n) text =
     (case find (\<lambda>space. take (length space) text = space) spaces of
        None \<Rightarrow> text | Some space \<Rightarrow> skip_spaces spaces n (drop (length space) text))"

text \<open>There are at most as many spaces as bytes.\<close>

definition trim :: "bytes \<Rightarrow> bytes" where
  "trim text =
     (let start = skip_spaces white_space (length text) text in
      rev (skip_spaces (map rev white_space) (length start) (rev start)))"

definition digit :: "u8 \<Rightarrow> bool" where
  "digit b \<longleftrightarrow> 48 \<le> b \<and> b \<le> 57"

definition alphanumeric :: "u8 \<Rightarrow> bool" where
  "alphanumeric b \<longleftrightarrow> digit b \<or> 65 \<le> b \<and> b \<le> 90 \<or> 97 \<le> b \<and> b \<le> 122"

text \<open>\<open>str::parse::<i64>\<close>: an optional sign, at least one digit, and a value of the type.\<close>

definition parse_i64 :: "bytes \<Rightarrow> i64 option" where
  "parse_i64 text =
     (let (negative, digits) = (case text of
            [] \<Rightarrow> (False, [])
          | b # bs \<Rightarrow> if b = 45 then (True, bs) else if b = 43 then (False, bs) else (False, b # bs));
          magnitude = foldl (\<lambda>n b. n * 10 + (int (unat b) - 48)) 0 digits;
          number = (if negative then - magnitude else magnitude) in
      if digits = [] \<or> \<not> list_all digit digits \<or> number < - (2 ^ 63) \<or> 2 ^ 63 \<le> number then None
      else Some (word_of_int number))"

section \<open>Keys and configuration\<close>

type_synonym files = "string \<Rightarrow> bytes option"

definition read_hex_file :: "(bytes \<Rightarrow> bytes option) \<Rightarrow> files \<Rightarrow> string \<Rightarrow> ConfigError + 'a::len word" where
  "read_hex_file hex files path = tryE (ok_or (files path) File_error) (\<lambda>text. decode_hex hex (trim text))"

record AgentConfig =
  config_agent_id :: bytes
  config_broker_address :: string
  config_connect_timeout_seconds :: u64
  config_reconnect_min_seconds :: u64
  config_reconnect_max_seconds :: u64
  config_ed25519_secret_file :: string
  config_x25519_secret_file :: string
  config_ca_ed25519_public_file :: string
  config_ca_x25519_public_file :: string

definition load_agent :: "(bytes \<Rightarrow> bytes option) \<Rightarrow> files \<Rightarrow> AgentConfig \<Rightarrow> ConfigError + Agent" where
  "load_agent hex files config =
     tryE (decode_hex hex (config_agent_id config)) (\<lambda>agent.
     tryE (read_hex_file hex files (config_ed25519_secret_file config)) (\<lambda>ed_seed.
     tryE (read_hex_file hex files (config_x25519_secret_file config)) (\<lambda>x_secret.
     tryE (read_hex_file hex files (config_ca_ed25519_public_file config)) (\<lambda>ca_ed25519.
     tryE (read_hex_file hex files (config_ca_x25519_public_file config)) (\<lambda>ca_x25519.
     Inr \<lparr>agent_id = AgentId agent, agent_keys = AgentKeys_from_seeds ed_seed x_secret,
          agent_ca = \<lparr>ca_ed25519 = ca_ed25519, ca_x25519 = ca_x25519\<rparr>\<rparr>)))))"

section \<open>Connecting\<close>

text \<open>An attempt fails before the hello, or the socket is there and the hello is sent.\<close>

datatype 'e dial_event = Dial_failed "'e TransportError" | Dialled "'e send_event"

datatype net_action = Dial nat | Hello AgentId | Sleep nat | Wrote bytes | Lost bytes | Closed

record 'e network =
  net_dials :: "'e dial_event list"
  net_sends :: "'e send_event list"
  net_log :: "net_action list"

definition connect_limits :: "AgentConfig \<Rightarrow> nat \<times> nat \<times> nat" where
  "connect_limits config =
     (unat (max (config_connect_timeout_seconds config) 1) * 10 ^ 9,
      unat (max (config_reconnect_min_seconds config) 1) * 10 ^ 9,
      unat (max (max (config_reconnect_max_seconds config) (config_reconnect_min_seconds config)) 1) * 10 ^ 9)"

fun connect_loop ::
  "nat \<Rightarrow> nat \<Rightarrow> AgentId \<Rightarrow> nat \<Rightarrow> 'e dial_event list \<Rightarrow> net_action list \<Rightarrow> ('e dial_event list \<times> net_action list) option" where
  "connect_loop deadline maximum identity backoff [] log = None"
| "connect_loop deadline maximum identity backoff (event # dials) log =
     (let connected = (case event of
            Dial_failed e \<Rightarrow> Inl e
          | Dialled hello \<Rightarrow> tokio_send_hello hello identity) in
      case connected of
        Inr _ \<Rightarrow> Some (dials, log @ [Dial deadline, Hello identity])
      | Inl _ \<Rightarrow> connect_loop deadline maximum identity (min (min (backoff * 2) DURATION_MAX) maximum) dials
                  (log @ [Dial deadline, Sleep backoff]))"

definition connect_agent :: "AgentConfig \<Rightarrow> AgentId \<Rightarrow> 'e network \<Rightarrow> 'e network option" where
  "connect_agent config identity net =
     (let (deadline, minimum, maximum) = connect_limits config in
      case connect_loop deadline maximum identity minimum (net_dials net) (net_log net) of
        None \<Rightarrow> None
      | Some (dials, log) \<Rightarrow> Some (net\<lparr>net_dials := dials, net_log := log\<rparr>))"

section \<open>Sending\<close>

fun send_loop :: "AgentConfig \<Rightarrow> AgentId \<Rightarrow> bytes \<Rightarrow> 'e send_event list \<Rightarrow> 'e network \<Rightarrow> 'e network option" where
  "send_loop config identity frame [] net = None"
| "send_loop config identity frame (event # sends) net =
     (case tokio_send event frame of
        Inr _ \<Rightarrow> Some (net\<lparr>net_sends := sends, net_log := net_log net @ [Wrote frame]\<rparr>)
      | Inl _ \<Rightarrow>
          (case connect_agent config identity (net\<lparr>net_log := net_log net @ [Lost frame]\<rparr>) of
             None \<Rightarrow> None | Some net \<Rightarrow> send_loop config identity frame sends net))"

definition send_agent_frame :: "AgentConfig \<Rightarrow> AgentId \<Rightarrow> bytes \<Rightarrow> 'e network \<Rightarrow> 'e network option" where
  "send_agent_frame config identity frame net = send_loop config identity frame (net_sends net) net"

fun send_agent_frames :: "AgentConfig \<Rightarrow> AgentId \<Rightarrow> bytes list \<Rightarrow> 'e network \<Rightarrow> 'e network option" where
  "send_agent_frames config identity [] net = Some net"
| "send_agent_frames config identity (frame # frames) net =
     (case send_agent_frame config identity frame net of
        None \<Rightarrow> None | Some net \<Rightarrow> send_agent_frames config identity frames net)"

text \<open>The transport is dropped on return.\<close>

definition send_on_demand_frames :: "AgentConfig \<Rightarrow> AgentId \<Rightarrow> bytes list \<Rightarrow> 'e network \<Rightarrow> 'e network option" where
  "send_on_demand_frames config identity frames net =
     (case connect_agent config identity net of
        None \<Rightarrow> None
      | Some net \<Rightarrow>
          (case send_agent_frames config identity frames net of
             None \<Rightarrow> None | Some net \<Rightarrow> Some (net\<lparr>net_log := net_log net @ [Closed]\<rparr>)))"

definition send_on_demand :: "AgentConfig \<Rightarrow> AgentId \<Rightarrow> bytes \<Rightarrow> 'e network \<Rightarrow> 'e network option" where
  "send_on_demand config identity frame net =
     (case connect_agent config identity net of
        None \<Rightarrow> None
      | Some net \<Rightarrow>
          (case send_agent_frame config identity frame net of
             None \<Rightarrow> None | Some net \<Rightarrow> Some (net\<lparr>net_log := net_log net @ [Closed]\<rparr>)))"

section \<open>When the calls return\<close>

definition attaches :: "'e dial_event \<Rightarrow> bool" where
  "attaches event \<longleftrightarrow> event = Dialled Sent"

lemma hello_sent: "is_ok (tokio_send_hello hello identity) \<longleftrightarrow> hello = Sent"
  by (cases hello) (simp_all add: tokio_send_hello_def tokio_send_def const_defs)

text \<open>The log of \<open>n\<close> failed attempts.\<close>

definition dial_failures :: "nat \<Rightarrow> nat \<Rightarrow> nat \<Rightarrow> nat \<Rightarrow> net_action list" where
  "dial_failures deadline minimum maximum n = concat (map (\<lambda>k. [Dial deadline, Sleep (doubled minimum maximum k)]) [0..<n])"

lemma connect_loop_turn:
  "connect_loop deadline maximum identity backoff (event # dials) log =
     (if attaches event then Some (dials, log @ [Dial deadline, Hello identity])
      else connect_loop deadline maximum identity (next_backoff maximum backoff) dials (log @ [Dial deadline, Sleep backoff]))"
proof (cases event)
  case (Dialled hello)
  then show ?thesis
    using hello_sent [of hello identity] by (cases "tokio_send_hello hello identity") (auto simp: attaches_def next_backoff_def)
qed (simp add: attaches_def next_backoff_def)

lemma connect_loop_exact:
  assumes "maximum \<le> DURATION_MAX"
  shows "connect_loop deadline maximum identity (doubled minimum maximum k) dials log =
    (let n = length (takeWhile (\<lambda>e. \<not> attaches e) dials) in
     if n = length dials then None
     else Some (drop (Suc n) dials,
       log @ concat (map (\<lambda>i. [Dial deadline, Sleep (doubled minimum maximum i)]) [k..<k + n]) @ [Dial deadline, Hello identity]))"
proof (induction dials arbitrary: k log)
  case (Cons event dials)
  show ?case
    unfolding connect_loop_turn next_doubled [OF assms] Cons.IH
    by (simp add: Let_def upt_conv_Cons del: upt_Suc)
qed simp

lemma connect_limits_bounds:
  assumes "connect_limits config = (deadline, minimum, maximum)"
  shows "doubled minimum maximum 0 = minimum" "maximum \<le> DURATION_MAX"
  using reconnect_limits_bounds [of "config_reconnect_min_seconds config" "config_reconnect_max_seconds config" minimum maximum] assms
  by (simp_all add: connect_limits_def reconnect_limits_def doubled_def)

lemma connect_agent_exact:
  assumes "connect_limits config = (deadline, minimum, maximum)"
  shows "connect_agent config identity net =
    (let n = length (takeWhile (\<lambda>e. \<not> attaches e) (net_dials net)) in
     if n = length (net_dials net) then None
     else Some (net\<lparr>net_dials := drop (Suc n) (net_dials net),
       net_log := net_log net @ dial_failures deadline minimum maximum n @ [Dial deadline, Hello identity]\<rparr>))"
  using connect_loop_exact [OF connect_limits_bounds(2) [OF assms], of deadline identity minimum 0 "net_dials net" "net_log net"]
  by (simp add: connect_agent_def assms connect_limits_bounds(1) [OF assms] dial_failures_def Let_def)

text \<open>What a program did on the socket: nothing is written before the hello of its connection.\<close>

fun greeted :: "AgentId \<Rightarrow> bool \<Rightarrow> net_action list \<Rightarrow> bool option" where
  "greeted identity up [] = Some up"
| "greeted identity up (Hello i # acts) = (if i = identity then greeted identity True acts else None)"
| "greeted identity up (Wrote frame # acts) = (if up then greeted identity True acts else None)"
| "greeted identity up (Lost frame # acts) = (if up then greeted identity False acts else None)"
| "greeted identity up (Closed # acts) = greeted identity False acts"
| "greeted identity up (Dial deadline # acts) = greeted identity up acts"
| "greeted identity up (Sleep delay # acts) = greeted identity up acts"

lemma greeted_append:
  "greeted identity up (acts @ acts') = (case greeted identity up acts of None \<Rightarrow> None | Some up \<Rightarrow> greeted identity up acts')"
  by (induction identity up acts rule: greeted.induct) simp_all

fun written :: "net_action list \<Rightarrow> bytes list" where
  "written [] = []"
| "written (Wrote frame # acts) = frame # written acts"
| "written (_ # acts) = written acts"

fun tried :: "net_action list \<Rightarrow> bytes list" where
  "tried [] = []"
| "tried (Wrote frame # acts) = frame # tried acts"
| "tried (Lost frame # acts) = frame # tried acts"
| "tried (_ # acts) = tried acts"

lemma written_append [simp]: "written (acts @ acts') = written acts @ written acts'"
  by (induction acts rule: written.induct) simp_all

lemma tried_append [simp]: "tried (acts @ acts') = tried acts @ tried acts'"
  by (induction acts rule: tried.induct) simp_all

lemma dial_failures_quiet:
  "written (dial_failures deadline minimum maximum n) = []" "tried (dial_failures deadline minimum maximum n) = []"
  "greeted identity up (dial_failures deadline minimum maximum n) = Some up"
  unfolding dial_failures_def by (induction n) (simp_all add: greeted_append)

lemma connect_agent_log:
  assumes "connect_agent config identity net = Some net'"
  obtains acts where "net_log net' = net_log net @ acts" "net_sends net' = net_sends net"
    "written acts = []" "tried acts = []" "greeted identity up acts = Some True"
proof -
  obtain deadline minimum maximum where l: "connect_limits config = (deadline, minimum, maximum)" by (metis prod.exhaust)
  from assms have net': "net' = net\<lparr>net_dials := drop (Suc (length (takeWhile (\<lambda>e. \<not> attaches e) (net_dials net)))) (net_dials net),
      net_log := net_log net @ dial_failures deadline minimum maximum (length (takeWhile (\<lambda>e. \<not> attaches e) (net_dials net))) @
        [Dial deadline, Hello identity]\<rparr>"
    unfolding connect_agent_exact [OF l] by (auto simp: Let_def split: if_splits)
  show thesis
    by (rule that [of "dial_failures deadline minimum maximum (length (takeWhile (\<lambda>e. \<not> attaches e) (net_dials net))) @
        [Dial deadline, Hello identity]"])
       (simp_all add: net' dial_failures_quiet greeted_append)
qed

lemma send_loop_log:
  assumes "send_loop config identity frame sends net = Some net'"
  shows "\<exists>acts k. net_log net' = net_log net @ acts \<and> written acts = [frame] \<and> tried acts = replicate (Suc k) frame \<and>
    greeted identity True acts = Some True"
  using assms
proof (induction sends arbitrary: net)
  case (Cons event sends)
  show ?case
  proof (cases "tokio_send event frame")
    case (Inr x)
    with Cons.prems show ?thesis by (intro exI [of _ "[Wrote frame]"] exI [of _ 0]) auto
  next
    case (Inl e)
    with Cons.prems obtain net1 where net1: "connect_agent config identity (net\<lparr>net_log := net_log net @ [Lost frame]\<rparr>) = Some net1"
      "send_loop config identity frame sends net1 = Some net'" by (auto split: option.splits)
    obtain acts where acts: "net_log net1 = net_log net @ [Lost frame] @ acts"
      "written acts = []" "tried acts = []" "greeted identity False acts = Some True"
      by (rule connect_agent_log [OF net1(1), where up = False]) simp
    from Cons.IH [OF net1(2)] obtain acts' k where "net_log net' = net_log net1 @ acts'" "written acts' = [frame]"
      "tried acts' = replicate (Suc k) frame" "greeted identity True acts' = Some True" by blast
    with acts show ?thesis
      by (intro exI [of _ "[Lost frame] @ acts @ acts'"] exI [of _ "Suc k"]) (simp add: greeted_append)
  qed
qed simp

lemma send_agent_frames_log:
  assumes "send_agent_frames config identity frames net = Some net'"
  shows "\<exists>acts ks. net_log net' = net_log net @ acts \<and> written acts = frames \<and> length ks = length frames \<and>
    tried acts = concat (map2 (\<lambda>k. replicate (Suc k)) ks frames) \<and> greeted identity True acts = Some True"
  using assms
proof (induction frames arbitrary: net)
  case Nil
  then show ?case by (intro exI [of _ "[]"]) simp
next
  case (Cons frame frames)
  then obtain net1 where net1: "send_loop config identity frame (net_sends net) net = Some net1"
    "send_agent_frames config identity frames net1 = Some net'" by (auto simp: send_agent_frame_def split: option.splits)
  from send_loop_log [OF net1(1)] obtain acts k where "net_log net1 = net_log net @ acts" "written acts = [frame]"
    "tried acts = replicate (Suc k) frame" "greeted identity True acts = Some True" by blast
  moreover from Cons.IH [OF net1(2)] obtain acts' ks where "net_log net' = net_log net1 @ acts'" "written acts' = frames"
    "length ks = length frames" "tried acts' = concat (map2 (\<lambda>k. replicate (Suc k)) ks frames)"
    "greeted identity True acts' = Some True" by blast
  ultimately show ?case by (intro exI [of _ "acts @ acts'"] exI [of _ "k # ks"]) (simp add: greeted_append)
qed

abbreviation attachments :: "'e network \<Rightarrow> nat" where
  "attachments net \<equiv> length (filter attaches (net_dials net))"

lemma connect_agent_enough:
  assumes "0 < attachments net"
  obtains net' where "connect_agent config identity net = Some net'" "attachments net' = attachments net - 1"
    "net_sends net' = net_sends net"
proof -
  obtain deadline minimum maximum where l: "connect_limits config = (deadline, minimum, maximum)" by (metis prod.exhaust)
  let ?dials = "net_dials net" and ?n = "length (takeWhile (\<lambda>e. \<not> attaches e) (net_dials net))"
  have "?dials = takeWhile (\<lambda>e. \<not> attaches e) ?dials @ dropWhile (\<lambda>e. \<not> attaches e) ?dials" by simp
  moreover have some: "dropWhile (\<lambda>e. \<not> attaches e) ?dials \<noteq> []" using assms by (auto simp: filter_empty_conv)
  ultimately have n: "?n < length ?dials" by (metis length_append length_greater_0_conv less_add_same_cancel1)
  have at: "attaches (?dials ! ?n)" using nth_length_takeWhile [OF n] by simp
  have "filter attaches ?dials = filter attaches (take ?n ?dials) @ filter attaches (drop ?n ?dials)"
    by (metis append_take_drop_id filter_append)
  also have "filter attaches (take ?n ?dials) = []" by (auto simp: filter_empty_conv takeWhile_eq_take [symmetric] dest: set_takeWhileD)
  also have "drop ?n ?dials = ?dials ! ?n # drop (Suc ?n) ?dials" using n by (simp add: Cons_nth_drop_Suc)
  finally have "attachments net = Suc (length (filter attaches (drop (Suc ?n) ?dials)))" using at by simp
  with n that show thesis by (simp add: connect_agent_exact [OF l] Let_def)
qed

abbreviation acceptances :: "'e network \<Rightarrow> nat" where
  "acceptances net \<equiv> length (filter (\<lambda>e. e = Sent) (net_sends net))"

abbreviation refusals :: "'e network \<Rightarrow> nat" where
  "refusals net \<equiv> length (filter (\<lambda>e. e \<noteq> Sent) (net_sends net))"

lemma send_loop_enough:
  assumes "length frame \<le> MAX_FRAME_LEN" "0 < length (filter (\<lambda>e. e = Sent) sends)"
    "length (filter (\<lambda>e. e \<noteq> Sent) sends) \<le> attachments net"
  shows "\<exists>net'. send_loop config identity frame sends net = Some net' \<and>
    Suc (acceptances net') = length (filter (\<lambda>e. e = Sent) sends) \<and> refusals net' \<le> attachments net'"
  using assms(2,3)
proof (induction sends arbitrary: net)
  case (Cons event sends)
  show ?case
  proof (cases "event = Sent")
    case True
    with assms(1) Cons.prems show ?thesis by (simp add: tokio_send_def)
  next
    case False
    then obtain e where e: "tokio_send event frame = Inl e" using assms(1) by (cases event) (auto simp: tokio_send_def)
    let ?net = "net\<lparr>net_log := net_log net @ [Lost frame]\<rparr>"
    have "0 < attachments ?net" using Cons.prems(2) False by (cases "filter attaches (net_dials net)") simp_all
    from connect_agent_enough [OF this, of config identity] obtain net1 where net1: "connect_agent config identity ?net = Some net1"
      "attachments net1 = attachments net - 1" by auto
    from Cons.IH [of net1] Cons.prems net1(2) False e net1(1) show ?thesis by simp
  qed
qed simp

lemma send_agent_frames_enough:
  assumes "\<forall>frame\<in>set frames. length frame \<le> MAX_FRAME_LEN" "length frames \<le> acceptances net" "refusals net \<le> attachments net"
  shows "\<exists>net'. send_agent_frames config identity frames net = Some net'"
  using assms
proof (induction frames arbitrary: net)
  case (Cons frame frames)
  have "0 < acceptances net" using Cons.prems(2) by (cases "filter (\<lambda>e. e = Sent) (net_sends net)") simp_all
  from send_loop_enough [OF _ this, of frame net config identity] Cons.prems obtain net1 where
    "send_loop config identity frame (net_sends net) net = Some net1" "Suc (acceptances net1) = acceptances net"
    "refusals net1 \<le> attachments net1" by auto
  with Cons.IH [of net1] Cons.prems show ?case by (simp add: send_agent_frame_def)
qed simp

section \<open>Properties\<close>

text \<open>C24: connecting ends exactly when an attempt succeeds. \<open>connect_agent\<close> returns if and only if some attempt opens
  the socket and writes the hello; it returns at the first one. Before attempt \<open>k + 1\<close> it slept
  for the minimum doubled \<open>k\<close> times, never longer than the maximum, and the limits are at least a second.\<close>

theorem connect_agent_returns:
  "case connect_limits config of (deadline, minimum, maximum) \<Rightarrow>
     10 ^ 9 \<le> minimum \<and> minimum \<le> maximum \<and>
     (connect_agent config identity net = Some net' \<longleftrightarrow>
        (\<exists>n < length (net_dials net). list_all (\<lambda>e. \<not> attaches e) (take n (net_dials net)) \<and> attaches (net_dials net ! n) \<and>
           net' = net\<lparr>net_dials := drop (Suc n) (net_dials net),
             net_log := net_log net @ concat (map (\<lambda>k. [Dial deadline, Sleep (min (minimum * 2 ^ k) maximum)]) [0..<n]) @
               [Dial deadline, Hello identity]\<rparr>))"
proof -
  obtain deadline minimum maximum where l: "connect_limits config = (deadline, minimum, maximum)" by (metis prod.exhaust)
  let ?dials = "net_dials net" and ?n = "length (takeWhile (\<lambda>e. \<not> attaches e) (net_dials net))"
  have limits: "10 ^ 9 \<le> minimum \<and> minimum \<le> maximum"
    using l reconnect_limits_bounds(1,2) [of "config_reconnect_min_seconds config" "config_reconnect_max_seconds config" minimum maximum]
    by (auto simp: connect_limits_def reconnect_limits_def)
  have first: "n = ?n" if "n < length ?dials" "list_all (\<lambda>e. \<not> attaches e) (take n ?dials)" "attaches (?dials ! n)" for n
  proof -
    have "takeWhile (\<lambda>e. \<not> attaches e) (take n ?dials @ ?dials ! n # drop (Suc n) ?dials) = take n ?dials"
      using that(2,3) by (subst takeWhile_append2) (simp_all add: list_all_iff)
    with that(1) show ?thesis by (simp add: id_take_nth_drop [symmetric])
  qed
  have known: "list_all (\<lambda>e. \<not> attaches e) (take ?n ?dials)" "?n < length ?dials \<Longrightarrow> attaches (?dials ! ?n)"
    using nth_length_takeWhile [of "\<lambda>e. \<not> attaches e" ?dials]
    by (auto simp: list_all_iff takeWhile_eq_take [symmetric] dest: set_takeWhileD)
  have le: "?n \<le> length ?dials" by (rule length_takeWhile_le)
  let ?net = "\<lambda>n. net\<lparr>net_dials := drop (Suc n) ?dials, net_log := net_log net @
      concat (map (\<lambda>k. [Dial deadline, Sleep (min (minimum * 2 ^ k) maximum)]) [0..<n]) @ [Dial deadline, Hello identity]\<rparr>"
  have run: "connect_agent config identity net = (if ?n = length ?dials then None else Some (?net ?n))"
    unfolding connect_agent_exact [OF l, of identity net] Let_def dial_failures_def doubled_def by (rule refl)
  have "connect_agent config identity net = Some net' \<longleftrightarrow>
      (\<exists>n < length ?dials. list_all (\<lambda>e. \<not> attaches e) (take n ?dials) \<and> attaches (?dials ! n) \<and> net' = ?net n)" (is "?L \<longleftrightarrow> ?R")
  proof
    assume ?L
    with run le have "?n < length ?dials" "net' = ?net ?n" by (simp_all split: if_splits)
    with known show ?R by blast
  next
    assume ?R
    then obtain n where n: "n < length ?dials" "list_all (\<lambda>e. \<not> attaches e) (take n ?dials)" "attaches (?dials ! n)" "net' = ?net n"
      by blast
    with first [OF n(1-3)] run show ?L by simp
  qed
  with limits show ?thesis unfolding l by simp
qed

text \<open>C23: an on-demand batch is sent completely, in order, and on greeted connections only. With enough
  working connections and writes the call returns. Whenever it returns, the socket accepted exactly the frames of the
  batch in their order; each write that failed was followed by a new connection and the same frame again; and every write
  happened after the hello of this agent on the connection.\<close>

theorem on_demand_frames_sent:
  "((\<forall>frame\<in>set frames. length frame \<le> MAX_FRAME_LEN) \<and> length frames \<le> acceptances net \<and> refusals net < attachments net \<longrightarrow>
     send_on_demand_frames config identity frames net \<noteq> None) \<and>
   (send_on_demand_frames config identity frames net = Some net' \<longrightarrow>
     (\<exists>acts repeats. net_log net' = net_log net @ acts \<and> written acts = frames \<and> length repeats = length frames \<and>
        tried acts = concat (map2 (\<lambda>k. replicate (Suc k)) repeats frames) \<and> greeted identity False acts = Some False))"
proof (intro conjI impI)
  assume enough: "(\<forall>frame\<in>set frames. length frame \<le> MAX_FRAME_LEN) \<and> length frames \<le> acceptances net \<and> refusals net < attachments net"
  then obtain net1 where net1: "connect_agent config identity net = Some net1" "attachments net1 = attachments net - 1"
    "net_sends net1 = net_sends net" by (metis connect_agent_enough gr_zeroI not_less_zero)
  from enough net1 have "length frames \<le> acceptances net1" "refusals net1 \<le> attachments net1"
    by (simp, unfold net1(2,3)) linarith
  with enough net1 send_agent_frames_enough [of frames net1 config identity] show "send_on_demand_frames config identity frames net \<noteq> None"
    by (auto simp: send_on_demand_frames_def)
next
  assume "send_on_demand_frames config identity frames net = Some net'"
  then obtain net1 net2 where net1: "connect_agent config identity net = Some net1"
    "send_agent_frames config identity frames net1 = Some net2" "net' = net2\<lparr>net_log := net_log net2 @ [Closed]\<rparr>"
    by (auto simp: send_on_demand_frames_def split: option.splits)
  obtain acts where acts: "net_log net1 = net_log net @ acts" "written acts = []" "tried acts = []" "greeted identity False acts = Some True"
    by (rule connect_agent_log [OF net1(1), where up = False]) simp
  from send_agent_frames_log [OF net1(2)] obtain acts' ks where "net_log net2 = net_log net1 @ acts'" "written acts' = frames"
    "length ks = length frames" "tried acts' = concat (map2 (\<lambda>k. replicate (Suc k)) ks frames)"
    "greeted identity True acts' = Some True" by blast
  with acts net1(3) show "\<exists>acts repeats. net_log net' = net_log net @ acts \<and> written acts = frames \<and> length repeats = length frames \<and>
      tried acts = concat (map2 (\<lambda>k. replicate (Suc k)) repeats frames) \<and> greeted identity False acts = Some False"
    by (intro exI [of _ "acts @ acts' @ [Closed]"] exI [of _ ks]) (simp add: greeted_append)
qed

text \<open>The first connection fails, the second one breaks before the second frame.\<close>

theorem on_demand_frames_witness:
  fixes net :: "unit network"
  defines "net \<equiv> \<lparr>net_dials = [Dial_failed Transport_Timeout, Dialled Sent, Dialled Sent], net_sends = [Sent, Send_elapsed, Sent], net_log = []\<rparr>"
  shows "\<exists>config net'. send_on_demand_frames config (AgentId 5) [[1], [2]] net = Some net' \<and> written (net_log net') = [[1], [2]]"
proof -
  let ?config = "\<lparr>config_agent_id = [], config_broker_address = [], config_connect_timeout_seconds = 0, config_reconnect_min_seconds = 1, config_reconnect_max_seconds = 0,
    config_ed25519_secret_file = [], config_x25519_secret_file = [], config_ca_ed25519_public_file = [], config_ca_x25519_public_file = []\<rparr>"
  have enough: "(\<forall>frame\<in>set [[1 :: u8], [2]]. length frame \<le> MAX_FRAME_LEN) \<and> length [[1 :: u8], [2]] \<le> acceptances net \<and> refusals net < attachments net"
    by (simp add: net_def attaches_def const_defs)
  then obtain net' where net': "send_on_demand_frames ?config (AgentId 5) [[1], [2]] net = Some net'"
    using on_demand_frames_sent [THEN conjunct1, of "[[1], [2]]" net ?config "AgentId 5"] by blast
  from on_demand_frames_sent [THEN conjunct2, THEN mp, OF this] have "written (net_log net') = [[1], [2]]" by (auto simp: net_def)
  with net' show ?thesis by blast
qed

end
