(* ===== verification/Listener.thy ===== *)
theory Listener
  imports Brokerd Support
begin

text \<open>
  The accept loop of \<open>brokerd/src/main.rs\<close>: a permit for every connection that has not said hello, and the task
  that the hello starts. The state is the broker with its tasks, the free permits and the connections
  that hold one. A failed \<open>accept\<close> ends the process.
\<close>

section \<open>Definitions\<close>

record ('c, 'q) listener =
  listener_system :: "('c, 'q) broker_system"
  listener_permits :: nat
  listener_handshakes :: nat
  listener_ended :: bool

definition listener_start :: "('c, 'q) BrokerRouter \<Rightarrow> usize \<Rightarrow> ('c, 'q) listener" where
  "listener_start r max_pending_handshakes =
     \<lparr>listener_system = broker_start r, listener_permits = max_pending_handshakes, listener_handshakes = 0, listener_ended = False\<rparr>"

definition listener_accept :: "bool \<Rightarrow> ('c, 'q) listener \<Rightarrow> ('c, 'q) listener" where
  "listener_accept accepted s =
     (if \<not> accepted then s\<lparr>listener_ended := True\<rparr>
      else if listener_permits s = 0 then s
      else s\<lparr>listener_permits := listener_permits s - 1, listener_handshakes := listener_handshakes s + 1\<rparr>)"

text \<open>The hello of a connection, or what came instead of it. Each end of the handshake drops the permit.\<close>

definition listener_greet ::
  "'c mpsc \<Rightarrow> 'q OfflineQueueStore \<Rightarrow> 'e next_event \<Rightarrow> ('c, 'q) listener \<Rightarrow> ('c, 'q) listener option" where
  "listener_greet Q off event s =
     (if listener_handshakes s = 0 then None
      else
        let s = s\<lparr>listener_permits := listener_permits s + 1, listener_handshakes := listener_handshakes s - 1\<rparr> in
        case tokio_receive_hello event of
          Inl _ \<Rightarrow> Some s
        | Inr identity \<Rightarrow> Some (s\<lparr>listener_system := task_connect Q off identity (listener_system s)\<rparr>))"

datatype 'e listener_event = Accepts bool | Greets "'e next_event" | Tasks broker_event

text \<open>A delivery from the CA leaves a gap in which agents may connect; each of them is a handshake that ends.\<close>

fun gap_connections :: "broker_event \<Rightarrow> nat" where
  "gap_connections (Ca_delivery between frame) = length (filter is_Connect between)"
| "gap_connections _ = 0"

fun listener_step ::
  "'c mpsc \<Rightarrow> 'q OfflineQueueStore \<Rightarrow> 'e listener_event \<Rightarrow> ('c, 'q) listener \<Rightarrow> ('c, 'q) listener option" where
  "listener_step Q off event s =
     (if listener_ended s then None
      else case event of
        Accepts accepted \<Rightarrow> Some (listener_accept accepted s)
      | Greets hello \<Rightarrow> listener_greet Q off hello s
      | Tasks (Task (Connect _)) \<Rightarrow> None
      | Tasks task \<Rightarrow>
          if listener_handshakes s < gap_connections task then None
          else map_option (\<lambda>b. s\<lparr>listener_system := b, listener_permits := listener_permits s + gap_connections task,
                   listener_handshakes := listener_handshakes s - gap_connections task\<rparr>)
                 (broker_step Q off task (listener_system s)))"

inductive listener_reachable ::
  "'c mpsc \<Rightarrow> 'q OfflineQueueStore \<Rightarrow> 'e itself \<Rightarrow> ('c, 'q) listener \<Rightarrow> ('c, 'q) listener \<Rightarrow> bool"
  for Q off and errors :: "'e itself" and s0 where
  start: "listener_reachable Q off errors s0 s0"
| step: "listener_reachable Q off errors s0 s \<Longrightarrow> listener_step Q off (event :: 'e listener_event) s = Some s' \<Longrightarrow>
    listener_reachable Q off errors s0 s'"

fun listener_run ::
  "'c mpsc \<Rightarrow> 'q OfflineQueueStore \<Rightarrow> 'e listener_event list \<Rightarrow> ('c, 'q) listener \<Rightarrow> ('c, 'q) listener option" where
  "listener_run Q off [] s = Some s"
| "listener_run Q off (event # events) s =
     (case listener_step Q off event s of None \<Rightarrow> None | Some s \<Rightarrow> listener_run Q off events s)"

lemma listener_run_reachable:
  fixes events :: "'e listener_event list"
  shows "listener_reachable Q off (errors :: 'e itself) s0 s \<Longrightarrow> listener_run Q off events s = Some s' \<Longrightarrow>
    listener_reachable Q off errors s0 s'"
  by (induction events arbitrary: s) (auto simp del: listener_step.simps intro: listener_reachable.step split: option.splits)

section \<open>The broker inside\<close>

text \<open>Every step of the daemon is a step of its broker, or leaves it alone.\<close>

lemma listener_step_broker:
  assumes "listener_step Q off event s = Some s'"
  shows "(listener_system s' = listener_system s \<or>
      (\<exists>task. broker_step Q off task (listener_system s) = Some (listener_system s'))) \<and>
    listener_permits s' + listener_handshakes s' = listener_permits s + listener_handshakes s"
proof (cases event)
  case (Accepts accepted)
  with assms show ?thesis by (auto simp: listener_accept_def split: if_splits)
next
  case (Greets hello)
  show ?thesis
  proof (cases "tokio_receive_hello hello")
    case (Inl e)
    with Greets assms show ?thesis by (auto simp: listener_greet_def Let_def split: if_splits)
  next
    case (Inr a)
    then have s': "s' = s\<lparr>listener_permits := listener_permits s + 1, listener_handshakes := listener_handshakes s - 1,
        listener_system := task_connect Q off a (listener_system s)\<rparr>" "0 < listener_handshakes s"
      using Greets assms by (auto simp: listener_greet_def Let_def split: if_splits)
    have "broker_step Q off (Task (Connect a)) (listener_system s) = Some (listener_system s')" by (simp add: s'(1))
    then have "\<exists>task. broker_step Q off task (listener_system s) = Some (listener_system s')" by (rule exI)
    moreover have "listener_permits s' + listener_handshakes s' = listener_permits s + listener_handshakes s" using s' by simp
    ultimately show ?thesis by blast
  qed
next
  case (Tasks task)
  let ?n = "gap_connections task"
  have no_connect: "task \<noteq> Task (Connect a)" for a using Tasks assms by (auto split: if_splits)
  let ?f = "\<lambda>b. s\<lparr>listener_system := b, listener_permits := listener_permits s + ?n,
             listener_handshakes := listener_handshakes s - ?n\<rparr>"
  have eq: "listener_step Q off (Tasks task) s = (if listener_ended s \<or> listener_handshakes s < ?n then None
      else map_option ?f (broker_step Q off task (listener_system s)))"
  proof (cases task)
    case (Task event)
    with no_connect show ?thesis by (cases event) auto
  qed simp_all
  have "?n \<le> listener_handshakes s" "map_option ?f (broker_step Q off task (listener_system s)) = Some s'"
    using assms unfolding Tasks eq by (simp_all split: if_splits)
  moreover from this(2) obtain b where "broker_step Q off task (listener_system s) = Some b" "s' = ?f b"
    unfolding map_option_eq_Some by blast
  ultimately show ?thesis by auto
qed

lemma listener_reachable_broker:
  assumes "listener_reachable Q off errors (listener_start r n) s"
  shows "broker_reachable Q off (broker_start r) (listener_system s) \<and> listener_permits s + listener_handshakes s = n"
  using assms
proof (induction rule: listener_reachable.induct)
  case start
  show ?case by (simp add: listener_start_def broker_reachable.start)
next
  case (step s event s')
  then show ?case using listener_step_broker [OF step(2)] by (auto intro: broker_reachable.step)
qed

lemma task_is_connected:
  assumes "mpsc_laws Q view" "broker_reachable Q memory_offline (broker_start (with_limits Q maximum online_depth offline_depth ca_depth)) b"
    "broker_tasks b a = Some registration"
  shows "bt_contains_key (router_connections (broker_router b)) a"
  using memory.broker_reachable_ok [OF assms(2,1) with_limits_ok] assms(3)
  by (auto simp: memory.broker_ok_def memory.system_ok_def memory.task_ok_def bt_contains_key_def)

text \<open>A second hello for a connected agent is refused.\<close>

lemma register_connected:
  assumes "bt_contains_key (router_connections r) a"
  shows "\<exists>e. register Q off r a = (Inl e, r)"
  using assms by (simp add: register_def)

lemma hello_received: "tokio_receive_hello (Next_frame (to_be_bytes a)) = Inr (AgentId a)"
  by (simp add: tokio_receive_hello_def const_defs tryE_def ok_or_def)

section \<open>Properties\<close>

text \<open>C28: the daemon's sockets are bounded, and it runs the broker. In every reachable state what the connection tasks did is a
  run of the broker of \<open>broker_system\<close>, so what is proved of that broker holds in the daemon; the connections that have not
  said hello hold all the permits that are not free, and together with the registered agents they are at most the two configured limits;
  each agent's offline queue and each live queue keep their depth.\<close>

theorem listener_bounded:
  assumes "mpsc_laws Q view"
    "listener_reachable Q memory_offline errors (listener_start (with_limits Q maximum online_depth offline_depth ca_depth) pending) s"
  shows "broker_reachable Q memory_offline (broker_start (with_limits Q maximum online_depth offline_depth ca_depth)) (listener_system s) \<and>
    listener_handshakes s = pending - listener_permits s \<and> listener_permits s \<le> pending \<and>
    connection_count (broker_router (listener_system s)) + listener_handshakes s \<le> maximum + pending \<and>
    memory_len (router_offline (broker_router (listener_system s))) a \<le> offline_depth \<and>
    (\<forall>registration. broker_tasks (listener_system s) a = Some registration \<longrightarrow>
       length (channel_queue (view (router_channels (broker_router (listener_system s)) ! registration_receiver registration))) \<le> online_depth)"
proof -
  have b: "broker_reachable Q memory_offline (broker_start (with_limits Q maximum online_depth offline_depth ca_depth)) (listener_system s)"
    "listener_permits s + listener_handshakes s = pending"
    using listener_reachable_broker [OF assms(2)] by simp_all
  from broker_bounded [OF assms(1) b(1), of a] b show ?thesis by auto
qed

text \<open>C29: a frame can be lost in a reconnection. The agent opens its new connection before it drops the old one, so the broker may
  read the hello while the old task still runs. It then refuses the new connection and changes nothing but the permit,
  while the agent's call, whose frame the new socket took, returns as if the frame was sent.\<close>

theorem reconnection_loses_frame:
  assumes "mpsc_laws Q view"
    "listener_reachable Q memory_offline errors (listener_start (with_limits Q maximum online_depth offline_depth ca_depth) pending) s"
    "\<not> listener_ended s" "0 < listener_handshakes s" "broker_tasks (listener_system s) identity = Some registration"
    "length frame \<le> MAX_FRAME_LEN" "net_sends net = Send_elapsed # Sent # sends" "net_dials net = Dialled Sent # dials"
  shows "\<exists>deadline. send_agent_frame config identity frame net =
      Some (net\<lparr>net_sends := sends, net_dials := dials,
        net_log := net_log net @ [Lost frame, Dial deadline, Hello identity, Wrote frame]\<rparr>) \<and>
    listener_step Q memory_offline (Greets (Next_frame (to_be_bytes (agent_array identity)) :: 'e next_event)) s =
      Some (s\<lparr>listener_permits := listener_permits s + 1, listener_handshakes := listener_handshakes s - 1\<rparr>)"
proof -
  let ?b = "listener_system s"
  have "bt_contains_key (router_connections (broker_router ?b)) identity"
    by (rule task_is_connected [OF assms(1) _ assms(5)]) (use listener_reachable_broker [OF assms(2)] in blast)
  then obtain e where "register Q memory_offline (broker_router ?b) identity = (Inl e, broker_router ?b)"
    using register_connected by blast
  then have "task_connect Q memory_offline identity ?b = ?b" by (simp add: task_connect_def)
  then have "listener_step Q memory_offline (Greets (Next_frame (to_be_bytes (agent_array identity)) :: 'e next_event)) s =
      Some (s\<lparr>listener_permits := listener_permits s + 1, listener_handshakes := listener_handshakes s - 1\<rparr>)"
    using assms(3,4) by (cases identity) (simp add: listener_greet_def hello_received)
  moreover have "send_agent_frame config identity frame net =
      Some (net\<lparr>net_sends := sends, net_dials := dials,
        net_log := net_log net @ [Lost frame, Dial (fst (connect_limits config)), Hello identity, Wrote frame]\<rparr>)"
    using assms(6-8)
    by (simp add: send_agent_frame_def tokio_send_def connect_agent_def tokio_send_hello_def const_defs split: prod.splits)
  ultimately show ?thesis by blast
qed

text \<open>Agent 6 connects; a second connection waits with its hello.\<close>

abbreviation demo_hello :: "unit listener_event" where
  "demo_hello \<equiv> Greets (Next_frame (to_be_bytes (agent_array (AgentId 6))))"

lemma demo_listener:
  "\<exists>s registration. listener_run fifo_mpsc memory_offline [Accepts True, demo_hello, Accepts True] (listener_start demo_router 1) = Some s \<and>
     broker_tasks (listener_system s) (AgentId 6) = Some registration \<and> listener_handshakes s = 1 \<and> listener_permits s = 0 \<and> \<not> listener_ended s"
proof -
  have known: "\<exists>registration r. register fifo_mpsc memory_offline demo_router (AgentId 6) = (Inr registration, r)"
    by (simp add: register_def with_limits_def with_offline_store_def AgentId_CA_def bt_contains_key_def bt_get_def bt_empty_def bt_len_def Let_def split: prod.splits)
  then show ?thesis
    by (auto simp: listener_start_def listener_accept_def listener_greet_def hello_received task_connect_def broker_start_def Let_def)
qed

theorem listener_bounded_witness:
  "\<exists>s. listener_run fifo_mpsc memory_offline [Accepts True, demo_hello, Accepts True] (listener_start demo_router 1) = Some s \<and>
     connection_count (broker_router (listener_system s)) + listener_handshakes s \<le> 3"
proof -
  from demo_listener obtain s where s: "listener_run fifo_mpsc memory_offline [Accepts True, demo_hello, Accepts True] (listener_start demo_router 1) = Some s"
    by blast
  from listener_bounded [OF fifo_mpsc_laws listener_run_reachable [OF listener_reachable.start s, of "TYPE(unit)"], of "AgentId 6"] s show ?thesis by auto
qed

theorem reconnection_loses_witness:
  "\<exists>s s'. listener_run fifo_mpsc memory_offline [Accepts True, demo_hello, Accepts True] (listener_start demo_router 1) = Some s \<and>
     listener_step fifo_mpsc memory_offline demo_hello s = Some s' \<and> listener_system s' = listener_system s \<and>
     map_option net_log (send_agent_frame
       \<lparr>config_agent_id = [], config_broker_address = [], config_connect_timeout_seconds = 10, config_reconnect_min_seconds = 1, config_reconnect_max_seconds = 30,
        config_ed25519_secret_file = [], config_x25519_secret_file = [], config_ca_ed25519_public_file = [], config_ca_x25519_public_file = []\<rparr>
       (AgentId 6) [1, 2] (\<lparr>net_dials = [Dialled Sent], net_sends = [Send_elapsed, Sent], net_log = []\<rparr> :: unit network)) =
     Some [Lost [1, 2], Dial (10 * 10 ^ 9), Hello (AgentId 6), Wrote [1, 2]]"
proof -
  let ?config = "\<lparr>config_agent_id = [], config_broker_address = [], config_connect_timeout_seconds = 10, config_reconnect_min_seconds = 1, config_reconnect_max_seconds = 30,
    config_ed25519_secret_file = [], config_x25519_secret_file = [], config_ca_ed25519_public_file = [], config_ca_x25519_public_file = []\<rparr>"
  let ?net = "\<lparr>net_dials = [Dialled Sent], net_sends = [Send_elapsed, Sent], net_log = []\<rparr> :: unit network"
  from demo_listener obtain s registration where s: "listener_run fifo_mpsc memory_offline [Accepts True, demo_hello, Accepts True] (listener_start demo_router 1) = Some s"
    "broker_tasks (listener_system s) (AgentId 6) = Some registration" "listener_handshakes s = 1" "\<not> listener_ended s"
    by blast
  have "\<exists>deadline. send_agent_frame ?config (AgentId 6) [1, 2] ?net =
      Some (?net\<lparr>net_sends := [], net_dials := [], net_log := net_log ?net @ [Lost [1, 2], Dial deadline, Hello (AgentId 6), Wrote [1, 2]]\<rparr>) \<and>
    listener_step fifo_mpsc memory_offline demo_hello s =
      Some (s\<lparr>listener_permits := listener_permits s + 1, listener_handshakes := listener_handshakes s - 1\<rparr>)"
    by (rule reconnection_loses_frame [OF fifo_mpsc_laws listener_run_reachable [OF listener_reachable.start s(1), of "TYPE(unit)"] s(4) _ s(2)])
      (simp_all add: s(3) const_defs)
  moreover have "map_option net_log (send_agent_frame ?config (AgentId 6) [1, 2] ?net) =
      Some [Lost [1, 2], Dial (10 * 10 ^ 9), Hello (AgentId 6), Wrote [1, 2]]"
    by (simp add: send_agent_frame_def tokio_send_def connect_agent_def connect_limits_def tokio_send_hello_def const_defs)
  ultimately show ?thesis using s(1) by auto
qed

end
