(* ===== verification/Keygen.thy ===== *)
theory Keygen
  imports Support
begin

text \<open>
  \<open>cad/src/keygen.rs\<close>, the program that writes the key files, and what the agents read from them. A file is
  its mode (\<open>True\<close>: readable by its owner only) and its text. The random source, the writes that fail and the
  crate \<open>hex\<close> are parameters.
\<close>

section \<open>Writing a key\<close>

type_synonym key_files = "string \<Rightarrow> (bool \<times> bytes) option"

datatype write_fault = Open_denied | Write_stops nat | Sync_fails

datatype KeygenError = Keygen_io | Keygen_random | Keygen_prefix

definition readable :: "key_files \<Rightarrow> files" where
  "readable files path = map_option snd (files path)"

text \<open>\<open>create_new\<close> refuses a path that exists.\<close>

definition write_new :: "bool \<Rightarrow> bytes \<Rightarrow> write_fault option \<Rightarrow> string \<Rightarrow> key_files \<Rightarrow> (KeygenError + unit) \<times> key_files" where
  "write_new mode text fault path files =
     (if fault = Some Open_denied \<or> path \<in> dom files then (Inl Keygen_io, files)
      else case fault of
        Some (Write_stops n) \<Rightarrow> (Inl Keygen_io, files(path \<mapsto> (mode, take n text)))
      | Some Sync_fails \<Rightarrow> (Inl Keygen_io, files(path \<mapsto> (mode, text)))
      | _ \<Rightarrow> (Inr (), files(path \<mapsto> (mode, text))))"

definition write_private ::
  "(bytes \<Rightarrow> bytes) \<Rightarrow> write_fault option \<Rightarrow> string \<Rightarrow> bytes \<Rightarrow> key_files \<Rightarrow> (KeygenError + unit) \<times> key_files" where
  "write_private encode fault path key files = write_new True (encode key @ [10]) fault path files"

definition write_public ::
  "(bytes \<Rightarrow> bytes) \<Rightarrow> write_fault option \<Rightarrow> string \<Rightarrow> bytes \<Rightarrow> key_files \<Rightarrow> (KeygenError + unit) \<times> key_files" where
  "write_public encode fault path key files = write_new False (encode key @ [10]) fault path files"

section \<open>The program\<close>

datatype Kind = Kind_Ca | Kind_Agent

definition join :: "string \<Rightarrow> string \<Rightarrow> string" where
  "join directory name = (if directory = [] \<or> last directory = CHR ''/'' then directory @ name else directory @ ''/'' @ name)"

definition prefix_valid :: "string \<Rightarrow> bool" where
  "prefix_valid name \<longleftrightarrow> name \<noteq> [] \<and> list_all (\<lambda>c. alphanumeric (of_char c) \<or> c = CHR ''-'' \<or> c = CHR ''_'') name"

record keygen_run =
  keygen_output :: string
  keygen_kind :: Kind
  keygen_prefix :: "string option"
  keygen_directory_ok :: bool
  keygen_ed_seed :: "array32 option"
  keygen_x_secret :: "array32 option"
  keygen_faults :: "nat \<Rightarrow> write_fault option"

definition chosen_prefix :: "keygen_run \<Rightarrow> string" where
  "chosen_prefix run = unwrap_or (keygen_prefix run) (case keygen_kind run of Kind_Ca \<Rightarrow> ''ca'' | Kind_Agent \<Rightarrow> ''agent'')"

definition key_path :: "keygen_run \<Rightarrow> string \<Rightarrow> string" where
  "key_path run ending = join (keygen_output run) (chosen_prefix run @ ending)"

definition keygen :: "'r crypto \<Rightarrow> (bytes \<Rightarrow> bytes) \<Rightarrow> keygen_run \<Rightarrow> key_files \<Rightarrow> (KeygenError + unit) \<times> key_files" where
  "keygen C encode run files =
     tryS (if keygen_directory_ok run then Inr () else Inl Keygen_io, files) (\<lambda>_ files.
     tryS (ok_or (keygen_ed_seed run) Keygen_random, files) (\<lambda>ed_seed files.
     tryS (ok_or (keygen_x_secret run) Keygen_random, files) (\<lambda>x_secret files.
     if \<not> prefix_valid (chosen_prefix run) then (Inl Keygen_prefix, files)
     else
       tryS (write_private encode (keygen_faults run 0) (key_path run ''-ed25519.secret'') (to_be_bytes ed_seed) files) (\<lambda>_ files.
       tryS (write_private encode (keygen_faults run 1) (key_path run ''-x25519.secret'') (to_be_bytes x_secret) files) (\<lambda>_ files.
       tryS (write_public encode (keygen_faults run 2) (key_path run ''-ed25519.public'') (to_be_bytes (ed_public C ed_seed)) files) (\<lambda>_ files.
       write_public encode (keygen_faults run 3) (key_path run ''-x25519.public'') (to_be_bytes (x_public C x_secret)) files))))))"

section \<open>Hexadecimal text\<close>

text \<open>What is relied on of the crate \<open>hex\<close>.\<close>

definition hex_digits :: "u8 set" where
  "hex_digits = {48..57} \<union> {97..102}"

definition hex_laws :: "(bytes \<Rightarrow> bytes) \<Rightarrow> (bytes \<Rightarrow> bytes option) \<Rightarrow> bool" where
  "hex_laws encode hex \<longleftrightarrow>
     (\<forall>bs. hex (encode bs) = Some bs \<and> length (encode bs) = 2 * length bs \<and> set (encode bs) \<subseteq> hex_digits)"

lemma spaces_no_digits: "list_all (\<lambda>space. space \<noteq> [] \<and> hd space \<notin> hex_digits \<and> last space \<notin> hex_digits) white_space"
  unfolding white_space_def hex_digits_def by (simp add: upt_rec [of _ 11] upt_rec)

lemma spaces_ends: "space \<in> set white_space \<Longrightarrow> space \<noteq> [] \<and> hd space \<notin> hex_digits \<and> last space \<notin> hex_digits"
  using spaces_no_digits unfolding list_all_iff by blast

lemma no_match:
  assumes "list_all (\<lambda>space. space \<noteq> [] \<and> hd space \<notin> hex_digits) spaces" "text = [] \<or> hd text \<in> hex_digits"
  shows "skip_spaces spaces n text = text"
proof -
  have "take (length space) text \<noteq> space" if "space \<in> set spaces" for space
  proof -
    have "space \<noteq> []" "hd space \<notin> hex_digits" using assms(1) that by (auto simp: list_all_iff)
    with assms(2) show ?thesis by (cases "text"; cases space) auto
  qed
  then have "find (\<lambda>space. take (length space) text = space) spaces = None" by (simp add: find_None_iff)
  then show ?thesis by (cases n) simp_all
qed

lemma no_space:
  assumes "text = [] \<or> hd text \<in> hex_digits"
  shows "skip_spaces white_space n text = text" "skip_spaces (map rev white_space) n text = text"
  by (rule no_match [OF _ assms], simp add: list_all_iff spaces_ends hd_rev)+

lemma trim_line:
  assumes "set text \<subseteq> hex_digits" "text \<noteq> []"
  shows "trim (text @ [10]) = text"
proof -
  have digits: "hd (text @ [10]) \<in> hex_digits" "rev text = [] \<or> hd (rev text) \<in> hex_digits"
    using assms by (auto simp: hd_rev)
  then have "skip_spaces white_space (length (text @ [10])) (text @ [10]) = text @ [10]" by (intro no_space) simp
  moreover have "skip_spaces (map rev white_space) (length (text @ [10])) (rev (text @ [10])) = rev text"
  proof -
    have "find (\<lambda>space. take (length space) (10 # rev text) = space) (map rev white_space) = Some [10]"
      by (simp add: white_space_def)
    then show ?thesis using no_space(2) [OF digits(2)] by simp
  qed
  ultimately show ?thesis by (simp add: trim_def Let_def)
qed

lemma read_key:
  assumes "hex_laws encode hex" "files path = Some (mode, encode (to_be_bytes (key :: array32)) @ [10])"
  shows "read_hex_file hex (readable files) path = Inr key"
proof -
  have "set (encode (to_be_bytes key)) \<subseteq> hex_digits" "length (encode (to_be_bytes key)) = 64" "hex (encode (to_be_bytes key)) = Some (to_be_bytes key)"
    using assms(1) by (simp_all add: hex_laws_def)
  moreover from this have "encode (to_be_bytes key) \<noteq> []" by auto
  ultimately show ?thesis
    using assms(2) trim_line [of "encode (to_be_bytes key)"] by (simp add: read_hex_file_def readable_def decode_hex_def)
qed

section \<open>What a run writes\<close>

lemma write_new_keeps: "files \<subseteq>\<^sub>m snd (write_new mode contents fault path files)"
  by (auto simp: write_new_def map_le_def dom_def split: option.splits write_fault.splits)

lemma write_new_ok:
  "write_new mode contents fault path files = (Inr u, files') \<Longrightarrow> files' = files(path \<mapsto> (mode, contents)) \<and> path \<notin> dom files"
  by (auto simp: write_new_def split: option.splits write_fault.splits if_splits)

lemma tryS_keeps:
  assumes "files \<subseteq>\<^sub>m snd r" "\<And>x s. r = (Inr x, s) \<Longrightarrow> s \<subseteq>\<^sub>m snd (k x s)"
  shows "files \<subseteq>\<^sub>m snd (tryS r k)"
proof (cases r)
  case (Pair result s)
  with assms show ?thesis by (cases result) (auto intro: map_le_trans)
qed

lemma keygen_keeps: "files \<subseteq>\<^sub>m snd (keygen C encode run files)"
  unfolding keygen_def write_private_def write_public_def
  by (intro tryS_keeps) (auto simp: write_new_keeps intro!: tryS_keeps)

text \<open>The files of a complete run.\<close>

definition holds_keys :: "'r crypto \<Rightarrow> (bytes \<Rightarrow> bytes) \<Rightarrow> keygen_run \<Rightarrow> array32 \<Rightarrow> array32 \<Rightarrow> key_files \<Rightarrow> bool" where
  "holds_keys C encode run ed_seed x_secret files \<longleftrightarrow>
     files (key_path run ''-ed25519.secret'') = Some (True, encode (to_be_bytes ed_seed) @ [10]) \<and>
     files (key_path run ''-x25519.secret'') = Some (True, encode (to_be_bytes x_secret) @ [10]) \<and>
     files (key_path run ''-ed25519.public'') = Some (False, encode (to_be_bytes (ed_public C ed_seed)) @ [10]) \<and>
     files (key_path run ''-x25519.public'') = Some (False, encode (to_be_bytes (x_public C x_secret)) @ [10])"

lemma holds_keys_mono:
  assumes "holds_keys C encode run ed_seed x_secret files" "files \<subseteq>\<^sub>m files'"
  shows "holds_keys C encode run ed_seed x_secret files'"
proof -
  have "files' path = Some v" if "files path = Some v" for path v
    using assms(2) that by (metis domI map_le_def)
  with assms(1) show ?thesis by (simp add: holds_keys_def)
qed

lemma keygen_ok:
  assumes "keygen C encode run files = (Inr u, files')"
  obtains ed_seed x_secret where "keygen_ed_seed run = Some ed_seed" "keygen_x_secret run = Some x_secret"
    "holds_keys C encode run ed_seed x_secret files'"
proof -
  let ?p = "key_path run"
  from assms obtain ed_seed x_secret files1 files2 files3 where
    seeds: "keygen_ed_seed run = Some ed_seed" "keygen_x_secret run = Some x_secret"
    and steps: "write_new True (encode (to_be_bytes ed_seed) @ [10]) (keygen_faults run 0) (?p ''-ed25519.secret'') files = (Inr (), files1)"
      "write_new True (encode (to_be_bytes x_secret) @ [10]) (keygen_faults run 1) (?p ''-x25519.secret'') files1 = (Inr (), files2)"
      "write_new False (encode (to_be_bytes (ed_public C ed_seed)) @ [10]) (keygen_faults run 2) (?p ''-ed25519.public'') files2 = (Inr (), files3)"
      "write_new False (encode (to_be_bytes (x_public C x_secret)) @ [10]) (keygen_faults run 3) (?p ''-x25519.public'') files3 = (Inr (), files')"
    by (auto simp: keygen_def write_private_def write_public_def tryS_Inr_iff ok_or_Inr_iff split: if_splits)
  note ok = steps [THEN write_new_ok]
  have paths: "?p ''-ed25519.secret'' \<notin> {?p ''-x25519.secret'', ?p ''-ed25519.public'', ?p ''-x25519.public''}"
    "?p ''-x25519.secret'' \<notin> {?p ''-ed25519.public'', ?p ''-x25519.public''}" "?p ''-ed25519.public'' \<noteq> ?p ''-x25519.public''"
    using ok by auto
  with ok have "holds_keys C encode run ed_seed x_secret files'" by (simp add: holds_keys_def)
  with seeds that show thesis by blast
qed

section \<open>Properties\<close>

text \<open>C22: the keys that are generated are the keys that are loaded. After a run for the CA and one for an agent, an
  agent program whose configuration names their files loads the agent's seeds and the CA's public
  keys. Secrets are readable by their owner only, and no run, complete or not, changes a file
  that exists.\<close>

theorem generated_keys_load:
  assumes "hex_laws encode hex" "keygen C encode ca_run files = (Inr (), files1)" "keygen C encode agent_run files1 = (Inr (), files2)"
    "config_agent_id config = encode (to_be_bytes (agent_array agent))"
    "config_ed25519_secret_file config = key_path agent_run ''-ed25519.secret''"
    "config_x25519_secret_file config = key_path agent_run ''-x25519.secret''"
    "config_ca_ed25519_public_file config = key_path ca_run ''-ed25519.public''"
    "config_ca_x25519_public_file config = key_path ca_run ''-x25519.public''"
  shows "\<exists>ed_seed x_secret ca_ed_seed ca_x_secret.
    keygen_ed_seed agent_run = Some ed_seed \<and> keygen_x_secret agent_run = Some x_secret \<and>
    keygen_ed_seed ca_run = Some ca_ed_seed \<and> keygen_x_secret ca_run = Some ca_x_secret \<and>
    load_agent hex (readable files2) config = Inr \<lparr>agent_id = agent, agent_keys = AgentKeys_from_seeds ed_seed x_secret,
      agent_ca = \<lparr>ca_ed25519 = ed_public C ca_ed_seed, ca_x25519 = x_public C ca_x_secret\<rparr>\<rparr> \<and>
    map_option fst (files2 (config_ed25519_secret_file config)) = Some True \<and>
    map_option fst (files2 (config_x25519_secret_file config)) = Some True \<and>
    (\<forall>run files. files \<subseteq>\<^sub>m snd (keygen C encode run files))"
proof -
  from keygen_ok [OF assms(2)] obtain ca_ed_seed ca_x_secret where ca: "keygen_ed_seed ca_run = Some ca_ed_seed"
    "keygen_x_secret ca_run = Some ca_x_secret" "holds_keys C encode ca_run ca_ed_seed ca_x_secret files1" by blast
  from keygen_ok [OF assms(3)] obtain ed_seed x_secret where own: "keygen_ed_seed agent_run = Some ed_seed"
    "keygen_x_secret agent_run = Some x_secret" "holds_keys C encode agent_run ed_seed x_secret files2" by blast
  have "files1 \<subseteq>\<^sub>m files2" using keygen_keeps [of files1 C encode agent_run] assms(3) by simp
  with ca(3) have ca_files: "holds_keys C encode ca_run ca_ed_seed ca_x_secret files2" by (rule holds_keys_mono)
  have "decode_hex hex (config_agent_id config) = (Inr (agent_array agent) :: ConfigError + array16)"
    using assms(1,4) by (simp add: decode_hex_def hex_laws_def)
  moreover have "read_hex_file hex (readable files2) (key_path agent_run ''-ed25519.secret'') = Inr ed_seed"
    "read_hex_file hex (readable files2) (key_path agent_run ''-x25519.secret'') = Inr x_secret"
    "read_hex_file hex (readable files2) (key_path ca_run ''-ed25519.public'') = Inr (ed_public C ca_ed_seed)"
    "read_hex_file hex (readable files2) (key_path ca_run ''-x25519.public'') = Inr (x_public C ca_x_secret)"
    using own(3) ca_files read_key [OF assms(1)] by (auto simp: holds_keys_def)
  ultimately have "load_agent hex (readable files2) config = Inr \<lparr>agent_id = agent, agent_keys = AgentKeys_from_seeds ed_seed x_secret,
      agent_ca = \<lparr>ca_ed25519 = ed_public C ca_ed_seed, ca_x25519 = x_public C ca_x_secret\<rparr>\<rparr>"
    using assms(5-8) by (simp add: load_agent_def)
  with ca own assms(5,6) keygen_keeps show ?thesis by (auto simp: holds_keys_def)
qed

section \<open>A run\<close>

text \<open>The lower-case digits of \<open>hex::encode\<close>.\<close>

definition nibble :: "nat \<Rightarrow> u8" where
  "nibble n = (if n < 10 then of_nat (48 + n) else of_nat (87 + n))"

definition nibble_value :: "u8 \<Rightarrow> nat option" where
  "nibble_value b = (if 48 \<le> b \<and> b \<le> 57 then Some (unat b - 48) else if 97 \<le> b \<and> b \<le> 102 then Some (unat b - 87) else None)"

definition hex_encode :: "bytes \<Rightarrow> bytes" where
  "hex_encode bs = concat (map (\<lambda>b. [nibble (unat b div 16), nibble (unat b mod 16)]) bs)"

fun hex_decode :: "bytes \<Rightarrow> bytes option" where
  "hex_decode [] = Some []"
| "hex_decode (a # b # bs) =
     (case (nibble_value a, nibble_value b, hex_decode bs) of
        (Some high, Some low, Some rest) \<Rightarrow> Some (of_nat (high * 16 + low) # rest) | _ \<Rightarrow> None)"
| "hex_decode _ = None"

lemma nibble_ok: "n < 16 \<Longrightarrow> nibble_value (nibble n) = Some n \<and> nibble n \<in> hex_digits"
proof -
  have "\<forall>n\<in>{0..<16}. nibble_value (nibble n) = Some n \<and> nibble n \<in> hex_digits"
    by (simp add: nibble_def nibble_value_def hex_digits_def atLeastLessThan_nat_numeral)
  then show "n < 16 \<Longrightarrow> nibble_value (nibble n) = Some n \<and> nibble n \<in> hex_digits" by simp
qed

lemma hex_laws_hold: "hex_laws hex_encode hex_decode"
proof -
  have "hex_decode (hex_encode bs) = Some bs \<and> length (hex_encode bs) = 2 * length bs \<and> set (hex_encode bs) \<subseteq> hex_digits" for bs
  proof (induction bs)
    case (Cons b bs)
    have "unat b div 16 < 16" "unat b mod 16 < 16" using unat_u8_less [of b] less_mult_imp_div_less [of "unat b" 16 16] by simp_all
    with nibble_ok [of "unat b div 16"] nibble_ok [of "unat b mod 16"] Cons show ?case by (simp add: hex_encode_def)
  qed (simp add: hex_encode_def)
  then show ?thesis by (simp add: hex_laws_def)
qed

lemma key_path_inj: "key_path run ending = key_path run ending' \<longleftrightarrow> ending = ending'"
  by (simp add: key_path_def join_def)

lemma keygen_writes:
  assumes "keygen_directory_ok run" "keygen_ed_seed run = Some ed_seed" "keygen_x_secret run = Some x_secret"
    "prefix_valid (chosen_prefix run)" "keygen_faults run = (\<lambda>_. None)" "\<And>ending. files (key_path run ending) = None"
  shows "\<exists>files'. keygen C encode run files = (Inr (), files') \<and> dom files' \<subseteq> dom files \<union> range (key_path run)"
proof -
  have "keygen C encode run files = (Inr (), files
      (key_path run ''-ed25519.secret'' \<mapsto> (True, encode (to_be_bytes ed_seed) @ [10]),
       key_path run ''-x25519.secret'' \<mapsto> (True, encode (to_be_bytes x_secret) @ [10]),
       key_path run ''-ed25519.public'' \<mapsto> (False, encode (to_be_bytes (ed_public C ed_seed)) @ [10]),
       key_path run ''-x25519.public'' \<mapsto> (False, encode (to_be_bytes (x_public C x_secret)) @ [10])))"
    using assms by (simp add: keygen_def write_private_def write_public_def write_new_def key_path_inj dom_def)
  then show ?thesis by auto
qed

definition demo_run :: "Kind \<Rightarrow> array32 \<Rightarrow> keygen_run" where
  "demo_run kind seed = \<lparr>keygen_output = ''s'', keygen_kind = kind, keygen_prefix = None, keygen_directory_ok = True,
     keygen_ed_seed = Some seed, keygen_x_secret = Some (seed + 1), keygen_faults = (\<lambda>_. None)\<rparr>"

lemma demo_run_fields:
  "keygen_directory_ok (demo_run kind seed)" "keygen_ed_seed (demo_run kind seed) = Some seed"
  "keygen_x_secret (demo_run kind seed) = Some (seed + 1)" "keygen_faults (demo_run kind seed) = (\<lambda>_. None)"
  "prefix_valid (chosen_prefix (demo_run kind seed))"
  "key_path (demo_run Kind_Ca seed) ending = ''s/ca'' @ ending" "key_path (demo_run Kind_Agent seed) ending = ''s/agent'' @ ending"
  by (simp_all add: demo_run_def key_path_def chosen_prefix_def unwrap_or_def join_def)
     (cases kind; simp add: prefix_valid_def alphanumeric_def digit_def)

theorem generated_keys_witness:
  "\<exists>files config. load_agent hex_decode (readable files) config = Inr \<lparr>agent_id = AgentId 5, agent_keys = AgentKeys_from_seeds 11 12,
     agent_ca = \<lparr>ca_ed25519 = ed_public toy_crypto 21, ca_x25519 = x_public toy_crypto 22\<rparr>\<rparr>"
proof -
  let ?ca = "demo_run Kind_Ca 21" and ?agent = "demo_run Kind_Agent 11"
  obtain files1 where files1: "keygen toy_crypto hex_encode ?ca (\<lambda>_. None) = (Inr (), files1)"
    "dom files1 \<subseteq> dom (\<lambda>_. None :: (bool \<times> bytes) option) \<union> range (key_path ?ca)"
    using keygen_writes [OF demo_run_fields(1-3,5,4), of "\<lambda>_. None" Kind_Ca 21 toy_crypto hex_encode] by auto
  have fresh: "\<And>ending. files1 (key_path ?agent ending) = None"
  proof (rule ccontr)
    fix ending
    assume "files1 (key_path ?agent ending) \<noteq> None"
    then have "key_path ?agent ending \<in> range (key_path ?ca)" using files1(2) by auto
    then show False by (auto simp: demo_run_fields(6,7))
  qed
  obtain files2 where files2: "keygen toy_crypto hex_encode ?agent files1 = (Inr (), files2)"
    using keygen_writes [of ?agent 11 12 files1 toy_crypto hex_encode, OF _ _ _ _ _ fresh] by (auto simp: demo_run_fields(1-5))
  let ?config = "\<lparr>config_agent_id = hex_encode (to_be_bytes (agent_array (AgentId 5))), config_broker_address = [], config_connect_timeout_seconds = 10,
    config_reconnect_min_seconds = 1, config_reconnect_max_seconds = 30,
    config_ed25519_secret_file = key_path ?agent ''-ed25519.secret'', config_x25519_secret_file = key_path ?agent ''-x25519.secret'',
    config_ca_ed25519_public_file = key_path ?ca ''-ed25519.public'', config_ca_x25519_public_file = key_path ?ca ''-x25519.public''\<rparr>"
  from generated_keys_load [OF hex_laws_hold files1(1) files2, of ?config "AgentId 5"] show ?thesis
    by (auto simp: demo_run_fields(2,3))
qed

end
