(* ===== verification/Startup.thy ===== *)
theory Startup
  imports Guarantees Handshake Listener Keygen
begin

text \<open>
  The \<open>main\<close> functions of the two daemons up to their loops: the arguments of \<open>brokerd\<close>, the configuration file of \<open>cad\<close>, the
  pre-shared key of each, and the state in which each starts. The parser of the JSON file is a
  parameter; the outcome of binding the socket and of seeding the random source are arguments.
\<close>

section \<open>The broker\<close>

datatype StartError = Start_config ConfigError | Json_failed | Bind_failed | Seed_failed | Receiver_taken

definition read_psk :: "(bytes \<Rightarrow> bytes option) \<Rightarrow> files \<Rightarrow> string \<Rightarrow> ConfigError + array32" where
  "read_psk hex files path =
     tryE (ok_or (files path) File_error) (\<lambda>text.
     tryE (ok_or (hex (trim text)) Hex_error) (\<lambda>bytes.
     ok_or (try_into_array bytes) Length_error))"

record broker_args =
  args_listen :: string
  args_ca :: string
  args_ca_psk_file :: string
  args_max_connections :: usize
  args_max_pending_handshakes :: usize
  args_online_queue_depth :: usize
  args_offline_queue_depth :: usize
  args_ca_queue_depth :: usize
  args_agent_handshake_timeout_seconds :: u64
  args_agent_io_timeout_seconds :: u64
  args_ca_connect_timeout_seconds :: u64
  args_ca_reconnect_min_seconds :: u64
  args_ca_reconnect_max_seconds :: u64
  args_ca_ack_retry_seconds :: u64
  args_ca_dedup_depth :: usize

text \<open>The defaults of the command line, for the one argument that has none.\<close>

definition broker_args_default :: "string \<Rightarrow> broker_args" where
  "broker_args_default ca_psk_file =
     \<lparr>args_listen = ''127.0.0.1:7400'', args_ca = ''127.0.0.1:7500'', args_ca_psk_file = ca_psk_file,
      args_max_connections = DEFAULT_MAX_CONNECTIONS, args_max_pending_handshakes = DEFAULT_MAX_CONNECTIONS,
      args_online_queue_depth = DEFAULT_QUEUE_DEPTH, args_offline_queue_depth = DEFAULT_OFFLINE_QUEUE_DEPTH,
      args_ca_queue_depth = DEFAULT_CA_QUEUE_DEPTH, args_agent_handshake_timeout_seconds = 10, args_agent_io_timeout_seconds = 300,
      args_ca_connect_timeout_seconds = 5, args_ca_reconnect_min_seconds = 1, args_ca_reconnect_max_seconds = 30,
      args_ca_ack_retry_seconds = 2, args_ca_dedup_depth = DEFAULT_CA_QUEUE_DEPTH * 2\<rparr>"

text \<open>Durations are in nanoseconds.\<close>

record CaLinkConfig =
  link_address :: string
  link_connect_deadline :: nat
  link_reconnect_min :: nat
  link_reconnect_max :: nat
  link_retry_period :: nat
  link_psk :: array32
  link_pending_depth :: usize
  link_dedup_depth :: usize

definition at_least_second :: "u64 \<Rightarrow> nat" where
  "at_least_second seconds = unat (max seconds 1) * 10 ^ 9"

definition ca_link_config :: "broker_args \<Rightarrow> array32 \<Rightarrow> CaLinkConfig" where
  "ca_link_config args psk =
     (let (reconnect_min, reconnect_max) = reconnect_limits (args_ca_reconnect_min_seconds args) (args_ca_reconnect_max_seconds args) in
      \<lparr>link_address = args_ca args, link_connect_deadline = at_least_second (args_ca_connect_timeout_seconds args),
       link_reconnect_min = reconnect_min, link_reconnect_max = reconnect_max,
       link_retry_period = at_least_second (args_ca_ack_retry_seconds args), link_psk = psk,
       link_pending_depth = args_ca_queue_depth args, link_dedup_depth = args_ca_dedup_depth args\<rparr>)"

lemma ca_link_config_fields [simp]:
  "link_psk (ca_link_config args psk) = psk" "link_pending_depth (ca_link_config args psk) = args_ca_queue_depth args"
  "link_dedup_depth (ca_link_config args psk) = args_ca_dedup_depth args"
  by (simp_all add: ca_link_config_def split: prod.splits)

text \<open>The configuration of the link, the state of its task with the shared router, and the permits of the accept loop.\<close>

definition brokerd_main ::
  "'c mpsc \<Rightarrow> (bytes \<Rightarrow> bytes option) \<Rightarrow> files \<Rightarrow> bool \<Rightarrow> broker_args
     \<Rightarrow> StartError + CaLinkConfig \<times> ('c, MemoryOfflineQueueStore) ca_link \<times> usize" where
  "brokerd_main Q hex files bound args =
     tryE (if bound then Inr () else Inl Bind_failed) (\<lambda>_.
     tryE (map_err Start_config (read_psk hex files (args_ca_psk_file args))) (\<lambda>ca_psk.
     let router = with_limits Q (args_max_connections args) (args_online_queue_depth args) (args_offline_queue_depth args)
           (args_ca_queue_depth args);
         config = ca_link_config args ca_psk in
     tryE (if fst (take_ca_requests router) then Inr () else Inl Receiver_taken) (\<lambda>_.
     Inr (config, link_start router (link_pending_depth config) (link_dedup_depth config), args_max_pending_handshakes args))))"

section \<open>The certificate authority\<close>

record Config =
  daemon_listen :: string
  daemon_state :: string
  daemon_ca_ed25519_secret_file :: string
  daemon_ca_x25519_secret_file :: string
  daemon_broker_link_psk_file :: string
  daemon_broker_auth_timeout_seconds :: u64
  daemon_broker_link_io_timeout_seconds :: u64
  daemon_broker_link_retry_seconds :: u64
  daemon_broker_pending_deliveries :: usize
  daemon_broker_dedup_entries :: usize
  daemon_limits :: Limits
  daemon_agents :: "AgentEntry list"
  daemon_policy :: PolicyConfig
  daemon_reload_seconds :: u64

definition default_reload_seconds :: u64 where "default_reload_seconds = 2"
definition default_auth_timeout_seconds :: u64 where "default_auth_timeout_seconds = 5"
definition default_link_io_timeout_seconds :: u64 where "default_link_io_timeout_seconds = 10"
definition default_link_retry_seconds :: u64 where "default_link_retry_seconds = 2"
definition default_pending_deliveries :: usize where "default_pending_deliveries = 4096"
definition default_dedup_entries :: usize where "default_dedup_entries = 8192"

definition load :: "(bytes \<Rightarrow> Config option) \<Rightarrow> files \<Rightarrow> string \<Rightarrow> StartError + Config" where
  "load json files path = tryE (ok_or (files path) (Start_config File_error)) (\<lambda>bytes. ok_or (json bytes) Json_failed)"

text \<open>The state directory has its own files, faults and read outcome, as in \<open>cad_start\<close>. The pre-shared key is returned beside the state.\<close>

definition cad_main ::
  "(bytes \<Rightarrow> bytes option) \<Rightarrow> (bytes \<Rightarrow> Config option) \<Rightarrow> files \<Rightarrow> string \<Rightarrow> bool \<Rightarrow> io_faults list \<Rightarrow> snapshot_files \<Rightarrow> bool \<Rightarrow> 'r option
     \<Rightarrow> StartError + array32 \<times> (PersistentStore, 'r) cad" where
  "cad_main hex json files path read_fault faults snapshot bound seeded =
     tryE (load json files path) (\<lambda>config.
     let limits = Limits_resolve (daemon_limits config) in
     if daemon_broker_pending_deliveries config < limit_subscriptions limits then Inl (Start_config Deliveries_error)
     else
       tryE (map_err Start_config (read_hex_file hex files (daemon_broker_link_psk_file config))) (\<lambda>broker_psk.
       tryE (map_err (Start_config \<circ> Store_error) (ps_open read_fault faults snapshot limits)) (\<lambda>store.
       tryE (map_err Start_config (configured_agents hex (read_hex_file hex files) (daemon_agents config))) (\<lambda>agents.
       let (reconciled, store) = reconcile_agents store agents in
       tryE (map_err (Start_config \<circ> Store_error) reconciled) (\<lambda>_ :: unit.
       tryE (map_err Start_config (build_policy hex (daemon_policy config))) (\<lambda>policy.
       tryE (map_err Start_config (read_hex_file hex files (daemon_ca_ed25519_secret_file config))) (\<lambda>ed25519.
       tryE (map_err Start_config (read_hex_file hex files (daemon_ca_x25519_secret_file config))) (\<lambda>x25519.
       tryE (if bound then Inr () else Inl Bind_failed) (\<lambda>_.
       tryE (ok_or seeded Seed_failed) (\<lambda>rng.
       Inr (broker_psk, \<lparr>cad_ca = \<lparr>authority_keys = CaKeys_from_seeds ed25519 x25519,
              authority_policy = dynamic_policy (DynamicEnvironmentPolicy_new policy)\<rparr>,
            cad_store = store, cad_rng = rng, cad_pending = PendingFrames_new (daemon_broker_pending_deliveries config),
            cad_acquired = DedupWindow_new (daemon_broker_dedup_entries config), cad_current = None\<rparr>)))))))))))"

lemma read_psk_hex: "read_psk hex files path = read_hex_file hex files path"
  by (simp add: read_psk_def read_hex_file_def decode_hex_def)

text \<open>The daemon that \<open>cad_main\<close> starts is the one of \<open>cad_start\<close>.\<close>

lemma cad_main_start:
  assumes "cad_main hex json files path read_fault faults snapshot bound seeded = Inr (psk, c)"
  obtains bytes config ed25519 x25519 rng where "files path = Some bytes" "json bytes = Some config"
    "read_hex_file hex files (daemon_broker_link_psk_file config) = Inr psk"
    "read_hex_file hex files (daemon_ca_ed25519_secret_file config) = Inr ed25519"
    "read_hex_file hex files (daemon_ca_x25519_secret_file config) = Inr x25519" "seeded = Some rng"
    "cad_start hex (read_hex_file hex files) (CaKeys_from_seeds ed25519 x25519) (daemon_limits config)
       (daemon_broker_pending_deliveries config) (daemon_broker_dedup_entries config) (daemon_agents config) (daemon_policy config)
       read_fault faults snapshot rng = Inr c"
  using assms
  by (auto simp: cad_main_def cad_start_def load_def tryE_Inr_iff Let_def dynamic_policy_static(2) ok_or_Inr_iff case_prod_beta prod_eq_iff
      split: if_splits)

lemma cad_main_ok:
  assumes "files path = Some bytes" "json bytes = Some config"
    "read_hex_file hex files (daemon_broker_link_psk_file config) = Inr psk"
    "read_hex_file hex files (daemon_ca_ed25519_secret_file config) = Inr ed"
    "read_hex_file hex files (daemon_ca_x25519_secret_file config) = Inr x"
    "cad_start hex (read_hex_file hex files) (CaKeys_from_seeds ed x) (daemon_limits config)
       (daemon_broker_pending_deliveries config) (daemon_broker_dedup_entries config) (daemon_agents config) (daemon_policy config)
       read_fault faults snapshot rng = Inr c"
  shows "cad_main hex json files path read_fault faults snapshot True (Some rng) = Inr (psk, c)"
  using assms
  by (auto simp: cad_main_def cad_start_def load_def tryE_Inr_iff Let_def dynamic_policy_static(2) ok_or_Inr_iff case_prod_beta prod_eq_iff
      split: if_splits)

lemma brokerd_main_start:
  assumes "brokerd_main Q hex files bound args = Inr (config, link, permits)"
  shows "bound \<and> permits = args_max_pending_handshakes args \<and> read_hex_file hex files (args_ca_psk_file args) = Inr (link_psk config) \<and>
    link = link_start (with_limits Q (args_max_connections args) (args_online_queue_depth args) (args_offline_queue_depth args)
      (args_ca_queue_depth args)) (args_ca_queue_depth args) (args_ca_dedup_depth args)"
  using assms by (auto simp: brokerd_main_def read_psk_hex tryE_Inr_iff Let_def split: if_splits)

section \<open>Properties\<close>

text \<open>C4: two daemons that were started do what the link promises. Whatever the arguments, the files and the configuration: if both start
  from the same key, every handshake between them succeeds; \<open>cad\<close> starts with nothing pending, and with room for the
  deliveries of a publication; and if the broker's window covers the CA's pending deliveries, then in every state
  that they reach together the requests were processed and the deliveries routed in order and exactly once. The defaults of the two do
  not grant this condition.\<close>

theorem daemons_exactly_once:
  assumes "brokerd_main Q hex broker_files broker_bound args = Inr (config, link, permits)"
    "cad_main hex json ca_files path read_fault faults snapshot ca_bound seeded = Inr (psk, c)"
  shows "(broker_files (args_ca_psk_file args) = Some key_text \<and>
      (\<forall>bytes ca_config. ca_files path = Some bytes \<and> json bytes = Some ca_config \<longrightarrow>
        ca_files (daemon_broker_link_psk_file ca_config) = Some key_text) \<longrightarrow>
      (\<exists>request response success. challenge_frame challenge challenge_bytes = Inr request \<and>
        answer_challenge sha256 (link_psk config) request = Inr (challenge, response) \<and>
        authenticate_broker sha256 psk challenge challenge_bytes response = Inr success \<and>
        accept_authentication challenge success = Inr ())) \<and>
    cad_idle c \<and> limit_subscriptions (ps_limits (cad_store c)) \<le> pending_maximum (cad_pending c) \<and>
    (pending_maximum (cad_pending c) \<le> args_ca_dedup_depth args \<and> 0 < args_ca_dedup_depth args \<and>
      system_reachable Q memory_offline C (system_start link c) s \<longrightarrow>
      prefix (sys_processed s) (sys_taken s) \<and> prefix (sys_routed s) (sys_published s) \<and>
      distinct (map fst (sys_taken s)) \<and> distinct (map fst (sys_published s)) \<and>
      (pending_is_empty (link_pending (sys_link s)) \<longrightarrow> sys_processed s = sys_taken s \<and> sys_routed s = sys_published s)) \<and>
    args_ca_dedup_depth (broker_args_default key_file) < default_pending_deliveries"
proof -
  obtain bytes ca_config ed25519 x25519 rng where cad: "ca_files path = Some bytes" "json bytes = Some ca_config"
    "read_hex_file hex ca_files (daemon_broker_link_psk_file ca_config) = Inr psk"
    "cad_start hex (read_hex_file hex ca_files) (CaKeys_from_seeds ed25519 x25519) (daemon_limits ca_config)
       (daemon_broker_pending_deliveries ca_config) (daemon_broker_dedup_entries ca_config) (daemon_agents ca_config) (daemon_policy ca_config)
       read_fault faults snapshot rng = Inr c"
    by (rule cad_main_start [OF assms(2)])
  note broker = brokerd_main_start [OF assms(1)]
  note idle = cad_start_idle [OF cad(4)]
  have same: "psk = link_psk config"
    if "broker_files (args_ca_psk_file args) = Some key_text" "ca_files (daemon_broker_link_psk_file ca_config) = Some key_text"
    using broker cad(3) that by (simp add: read_hex_file_def)
  have "limit_subscriptions (Limits_resolve (daemon_limits ca_config)) \<le> daemon_broker_pending_deliveries ca_config"
    using cad(4) by (simp add: cad_start_def Let_def split: if_splits)
  moreover have "system_inv (args_ca_dedup_depth args) s"
    if "pending_maximum (cad_pending c) \<le> args_ca_dedup_depth args" "0 < args_ca_dedup_depth args"
      "system_reachable Q memory_offline C (system_start link c) s"
    using system_reachable_inv [OF that(3)] system_start_inv [OF idle(1) that(1,2)] broker by auto
  moreover have "\<exists>request response success. challenge_frame challenge challenge_bytes = Inr request \<and>
      answer_challenge sha256 psk request = Inr (challenge, response) \<and>
      authenticate_broker sha256 psk challenge challenge_bytes response = Inr success \<and> accept_authentication challenge success = Inr ()"
    using handshake_exact by blast
  ultimately show ?thesis
    using same cad(1,2) idle system_exactly_once
    by (auto simp: broker_args_default_def default_pending_deliveries_def const_defs)
qed

text \<open>Both daemons with one key file, and a broker whose window is as large as the default of the CA.\<close>

definition psk_file :: "array32 \<Rightarrow> files" where
  "psk_file key = readable (\<lambda>path. Some (False, if path = ''cad.json'' then [] else hex_encode (to_be_bytes key) @ [10]))"

abbreviation demo_config :: Config where
  "demo_config \<equiv> \<lparr>daemon_listen = [], daemon_state = [], daemon_ca_ed25519_secret_file = ''ed'', daemon_ca_x25519_secret_file = ''x'',
     daemon_broker_link_psk_file = ''psk'', daemon_broker_auth_timeout_seconds = default_auth_timeout_seconds,
     daemon_broker_link_io_timeout_seconds = default_link_io_timeout_seconds,
     daemon_broker_link_retry_seconds = default_link_retry_seconds, daemon_broker_pending_deliveries = default_pending_deliveries,
     daemon_broker_dedup_entries = 1,
     daemon_limits = \<lparr>cfg_agents = None, cfg_environments = None, cfg_subscriptions = Some 3, cfg_replays = None, cfg_replay_ttl_seconds = None\<rparr>,
     daemon_agents = [], daemon_policy = \<lparr>cfg_attributes = [], cfg_approvals = [], cfg_isolations = [], cfg_requirements = []\<rparr>,
     daemon_reload_seconds = default_reload_seconds\<rparr>"

theorem daemons_exactly_once_witness:
  "\<exists>config link permits psk (c :: (PersistentStore, nat) cad) request response success.
     brokerd_main fifo_mpsc hex_decode (psk_file 9) True (broker_args_default ''psk'' \<lparr>args_ca_dedup_depth := 4096\<rparr>) = Inr (config, link, permits) \<and>
     cad_main hex_decode (\<lambda>_. Some demo_config) (psk_file 9) ''cad.json'' False [] \<lparr>snapshot_path = None, temporary_path = None\<rparr> True (Some 7) = Inr (psk, c) \<and>
     challenge_frame (MessageId 1) 2 = Inr request \<and> answer_challenge (\<lambda>bs. of_nat (length bs)) (link_psk config) request = Inr (MessageId 1, response) \<and>
     authenticate_broker (\<lambda>bs. of_nat (length bs)) psk (MessageId 1) 2 response = Inr success \<and>
     prefix (sys_routed (system_start link c)) (sys_published (system_start link c))"
proof -
  let ?args = "broker_args_default ''psk'' \<lparr>args_ca_dedup_depth := 4096\<rparr>" and ?key = "9 :: array32"
  have read: "read_hex_file hex_decode (psk_file ?key) path = Inr ?key" if "path \<noteq> ''cad.json''" for path
    unfolding psk_file_def by (rule read_key [OF hex_laws_hold, of _ _ False]) (simp add: that)
  have json_file: "psk_file ?key ''cad.json'' = Some []" by (simp add: psk_file_def readable_def)
  obtain c :: "(PersistentStore, nat) cad" where start: "cad_start hex_decode (read_hex_file hex_decode (psk_file ?key)) (CaKeys_from_seeds ?key ?key)
     \<lparr>cfg_agents = None, cfg_environments = None, cfg_subscriptions = Some 3, cfg_replays = None, cfg_replay_ttl_seconds = None\<rparr>
     4096 1 [] \<lparr>cfg_attributes = [], cfg_approvals = [], cfg_isolations = [], cfg_requirements = []\<rparr>
     False [] \<lparr>snapshot_path = None, temporary_path = None\<rparr> 7 = Inr c" using empty_start [of hex_decode "read_hex_file hex_decode (psk_file ?key)" "CaKeys_from_seeds ?key ?key" 7] by blast
  have cad: "cad_main hex_decode (\<lambda>_. Some demo_config) (psk_file ?key) ''cad.json'' False [] \<lparr>snapshot_path = None, temporary_path = None\<rparr> True (Some 7) =
      Inr (?key, c)"
    by (rule cad_main_ok [where bytes = "[]" and config = demo_config and ed = ?key and x = ?key]; insert start)
      (simp_all add: read json_file default_pending_deliveries_def)
  obtain config link permits where broker: "brokerd_main fifo_mpsc hex_decode (psk_file ?key) True ?args = Inr (config, link, permits)"
    by (simp add: brokerd_main_def read_psk_hex broker_args_default_def read take_ca_requests_def with_limits_def with_offline_store_def)
  from daemons_exactly_once [OF broker cad, of "hex_encode (to_be_bytes ?key) @ [10]" "MessageId 1" 2 "\<lambda>bs. of_nat (length bs)" "toy_crypto" "system_start link c" "''psk''"]
    cad_start_idle(2) [OF start] broker cad
  show ?thesis by (auto simp: psk_file_def readable_def broker_args_default_def system_reachable.start default_pending_deliveries_def)
qed

end
