(* ===== verification/Usecase.thy ===== *)
theory Usecase
  imports Payload
begin

text \<open>
  \<open>usecase-models/src/lib.rs\<close>: typed builders over the payload codec for the bundled domains. The
  domain parameter is a phantom type here as in the code, so an attribute of one domain does
  not fit the builder of another; the attribute constructors are private to the crate, so the
  constants below are all the attributes there are. The trait \<open>DomainSchema\<close> is a function argument.
  The fixed arrays of the builders are lists of their length.
\<close>

section \<open>Attributes\<close>

datatype ModelAuthority = Authority_SelfDeclared | Authority_CaIssued

datatype AttributeKind = AttributeKind_Bool | AttributeKind_I64 | AttributeKind_Bytes

datatype ModelError =
    Model_Capacity | Model_DuplicateAttribute | Model_AttributeTooLong | Model_UnknownAttribute | Model_WrongAttributeType

datatype 'd BoolAttribute = BoolAttribute (bool_id: AttributeId) (bool_authority: ModelAuthority)
datatype 'd I64Attribute = I64Attribute (i64_id: AttributeId) (i64_authority: ModelAuthority)
datatype 'd BytesAttribute = BytesAttribute (bytes_id: AttributeId) (bytes_authority: ModelAuthority)

type_synonym schema = "AttributeId \<Rightarrow> (AttributeKind \<times> ModelAuthority) option"

definition schema_entry :: "AttributeId \<Rightarrow> (AttributeId \<times> AttributeKind \<times> ModelAuthority) list \<Rightarrow> (AttributeKind \<times> ModelAuthority) option" where
  "schema_entry wanted entries = map_option snd (find (\<lambda>(i, _, _). i = wanted) entries)"

definition model_validate_attribute :: "schema \<Rightarrow> AttributeRef \<Rightarrow> ModelError + unit" where
  "model_validate_attribute schema attribute =
     tryE (ok_or (schema (attribute_id attribute)) Model_UnknownAttribute) (\<lambda>(expected, _).
     tryE (case attribute_value attribute of
             Value_Bool _ \<Rightarrow> Inr AttributeKind_Bool
           | Value_I64 _ \<Rightarrow> Inr AttributeKind_I64
           | Value_Bytes val \<Rightarrow>
               if length val > MAX_ATTRIBUTE_BYTES then Inl Model_AttributeTooLong else Inr AttributeKind_Bytes) (\<lambda>actual.
     if expected \<noteq> actual then Inl Model_WrongAttributeType else Inr ()))"

section \<open>The environment builder\<close>

datatype 'd EnvironmentBuilder = EnvironmentBuilder (env_entries: "AttributeRef list") (env_len: usize)

definition EnvironmentBuilder_new :: "'d EnvironmentBuilder" where
  "EnvironmentBuilder_new =
     EnvironmentBuilder (replicate MAX_ATTRIBUTES \<lparr>attribute_id = AttributeId 0, attribute_value = Value_Bool False\<rparr>) 0"

definition env_push :: "'d EnvironmentBuilder \<Rightarrow> AttributeId \<Rightarrow> ValueRef \<Rightarrow> (ModelError + unit) \<times> 'd EnvironmentBuilder" where
  "env_push b i val =
     (if list_ex (\<lambda>entry. attribute_id entry = i) (take (env_len b) (env_entries b)) then (Inl Model_DuplicateAttribute, b)
      else if \<not> env_len b < length (env_entries b) then (Inl Model_Capacity, b)
      else (Inr (), EnvironmentBuilder ((env_entries b)[env_len b := \<lparr>attribute_id = i, attribute_value = val\<rparr>]) (env_len b + 1)))"

definition env_bool :: "'d EnvironmentBuilder \<Rightarrow> 'd BoolAttribute \<Rightarrow> bool \<Rightarrow> (ModelError + unit) \<times> 'd EnvironmentBuilder" where
  "env_bool b attribute val = env_push b (bool_id attribute) (Value_Bool val)"

definition env_i64 :: "'d EnvironmentBuilder \<Rightarrow> 'd I64Attribute \<Rightarrow> i64 \<Rightarrow> (ModelError + unit) \<times> 'd EnvironmentBuilder" where
  "env_i64 b attribute val = env_push b (i64_id attribute) (Value_I64 val)"

definition env_bytes :: "'d EnvironmentBuilder \<Rightarrow> 'd BytesAttribute \<Rightarrow> bytes \<Rightarrow> (ModelError + unit) \<times> 'd EnvironmentBuilder" where
  "env_bytes b attribute val =
     (if length val > MAX_ATTRIBUTE_BYTES then (Inl Model_AttributeTooLong, b)
      else env_push b (bytes_id attribute) (Value_Bytes val))"

definition env_attributes :: "'d EnvironmentBuilder \<Rightarrow> AttributeRef list" where
  "env_attributes b = take (env_len b) (env_entries b)"

section \<open>The predicate builders\<close>

text \<open>\<open>SubscriptionBuilder\<close> and \<open>AudienceBuilder\<close> are two expansions of one macro around \<open>ClauseBuilder\<close>.\<close>

datatype 'd ClauseBuilder = ClauseBuilder (builder_clauses: "ClauseRef list") (builder_len: usize)

definition ClauseBuilder_new :: "'d ClauseBuilder" where
  "ClauseBuilder_new =
     ClauseBuilder (replicate MAX_CLAUSES
        \<lparr>clause_attribute = AttributeId 0, clause_operator = Operator_Eq, clause_value = Value_Bool False\<rparr>) 0"

definition clause_push ::
  "'d ClauseBuilder \<Rightarrow> AttributeId \<Rightarrow> Operator \<Rightarrow> ValueRef \<Rightarrow> (ModelError + unit) \<times> 'd ClauseBuilder" where
  "clause_push b attribute operator val =
     (if \<not> builder_len b < length (builder_clauses b) then (Inl Model_Capacity, b)
      else (Inr (), ClauseBuilder ((builder_clauses b)[builder_len b :=
                        \<lparr>clause_attribute = attribute, clause_operator = operator, clause_value = val\<rparr>])
                      (builder_len b + 1)))"

definition predicate_bool ::
  "'d ClauseBuilder \<Rightarrow> 'd BoolAttribute \<Rightarrow> Operator \<Rightarrow> bool \<Rightarrow> (ModelError + unit) \<times> 'd ClauseBuilder" where
  "predicate_bool b attribute operator val = clause_push b (bool_id attribute) operator (Value_Bool val)"

definition predicate_i64 ::
  "'d ClauseBuilder \<Rightarrow> 'd I64Attribute \<Rightarrow> Operator \<Rightarrow> i64 \<Rightarrow> (ModelError + unit) \<times> 'd ClauseBuilder" where
  "predicate_i64 b attribute operator val = clause_push b (i64_id attribute) operator (Value_I64 val)"

definition predicate_bytes_clause ::
  "'d ClauseBuilder \<Rightarrow> 'd BytesAttribute \<Rightarrow> Operator \<Rightarrow> bytes \<Rightarrow> (ModelError + unit) \<times> 'd ClauseBuilder" where
  "predicate_bytes_clause b attribute operator val =
     (if length val > MAX_ATTRIBUTE_BYTES then (Inl Model_AttributeTooLong, b)
      else clause_push b (bytes_id attribute) operator (Value_Bytes val))"

definition predicate_clauses :: "'d ClauseBuilder \<Rightarrow> ClauseRef list" where
  "predicate_clauses b = take (builder_len b) (builder_clauses b)"

section \<open>What the builders keep\<close>

text \<open>The calls an application can make, in any order; a failed call leaves the builder as it was.\<close>

datatype 'd env_call =
  Env_bool "'d BoolAttribute" bool | Env_i64 "'d I64Attribute" i64 | Env_bytes "'d BytesAttribute" bytes

fun env_apply :: "'d env_call \<Rightarrow> 'd EnvironmentBuilder \<Rightarrow> (ModelError + unit) \<times> 'd EnvironmentBuilder" where
  "env_apply (Env_bool attribute val) b = env_bool b attribute val"
| "env_apply (Env_i64 attribute val) b = env_i64 b attribute val"
| "env_apply (Env_bytes attribute val) b = env_bytes b attribute val"

definition env_run :: "'d env_call list \<Rightarrow> 'd EnvironmentBuilder \<Rightarrow> 'd EnvironmentBuilder" where
  "env_run calls b = fold (\<lambda>call b. snd (env_apply call b)) calls b"

datatype 'd predicate_call =
  Clause_bool "'d BoolAttribute" Operator bool | Clause_i64 "'d I64Attribute" Operator i64
  | Clause_bytes "'d BytesAttribute" Operator bytes

fun predicate_apply :: "'d predicate_call \<Rightarrow> 'd ClauseBuilder \<Rightarrow> (ModelError + unit) \<times> 'd ClauseBuilder" where
  "predicate_apply (Clause_bool attribute operator val) b = predicate_bool b attribute operator val"
| "predicate_apply (Clause_i64 attribute operator val) b = predicate_i64 b attribute operator val"
| "predicate_apply (Clause_bytes attribute operator val) b = predicate_bytes_clause b attribute operator val"

definition predicate_run :: "'d predicate_call list \<Rightarrow> 'd ClauseBuilder \<Rightarrow> 'd ClauseBuilder" where
  "predicate_run calls b = fold (\<lambda>call b. snd (predicate_apply call b)) calls b"

text \<open>A push appends or changes nothing.\<close>

definition env_ok :: "'d EnvironmentBuilder \<Rightarrow> bool" where
  "env_ok b \<longleftrightarrow> length (env_entries b) = MAX_ATTRIBUTES \<and> env_len b \<le> MAX_ATTRIBUTES \<and> attributes_valid (env_attributes b)"

definition clauses_ok :: "'d ClauseBuilder \<Rightarrow> bool" where
  "clauses_ok b \<longleftrightarrow> length (builder_clauses b) = MAX_CLAUSES \<and> builder_len b \<le> MAX_CLAUSES \<and> clauses_valid (predicate_clauses b)"

lemma env_new: "env_ok EnvironmentBuilder_new" "env_attributes EnvironmentBuilder_new = []"
  by (simp_all add: env_ok_def EnvironmentBuilder_new_def env_attributes_def attributes_valid_def)

lemma clauses_new: "clauses_ok ClauseBuilder_new" "predicate_clauses ClauseBuilder_new = []"
  by (simp_all add: clauses_ok_def ClauseBuilder_new_def predicate_clauses_def clauses_valid_def)

lemma take_Suc_update: "n < length xs \<Longrightarrow> take (Suc n) (xs[n := x]) = take n xs @ [x]"
  by (simp add: take_Suc_conv_app_nth)

lemma env_push_ok:
  assumes "env_ok b" "value_valid val"
  shows "env_ok (snd (env_push b i val))"
    "set (env_attributes (snd (env_push b i val))) \<subseteq> insert \<lparr>attribute_id = i, attribute_value = val\<rparr> (set (env_attributes b))"
proof -
  let ?x = "\<lparr>attribute_id = i, attribute_value = val\<rparr>"
  have "env_ok (snd (env_push b i val)) \<and> set (env_attributes (snd (env_push b i val))) \<subseteq> insert ?x (set (env_attributes b))"
  proof (cases "env_push b i val = (Inr (), EnvironmentBuilder ((env_entries b)[env_len b := ?x]) (env_len b + 1)) \<and>
      i \<notin> attribute_id ` set (env_attributes b) \<and> env_len b < length (env_entries b)")
    case True
    then have "env_attributes (snd (env_push b i val)) = env_attributes b @ [?x]"
      by (simp add: env_attributes_def take_Suc_update)
    with True assms show ?thesis by (simp add: env_ok_def attributes_valid_def) (simp add: env_attributes_def)
  next
    case False
    then have "snd (env_push b i val) = b" by (auto simp: env_push_def env_attributes_def list_ex_iff)
    with assms(1) show ?thesis by auto
  qed
  then show "env_ok (snd (env_push b i val))"
    "set (env_attributes (snd (env_push b i val))) \<subseteq> insert ?x (set (env_attributes b))" by blast+
qed

lemma clause_push_ok:
  assumes "clauses_ok b" "value_valid val"
  shows "clauses_ok (snd (clause_push b i operator val))"
    "set (predicate_clauses b) \<subseteq> set (predicate_clauses (snd (clause_push b i operator val)))"
proof -
  let ?x = "\<lparr>clause_attribute = i, clause_operator = operator, clause_value = val\<rparr>"
  have "clauses_ok (snd (clause_push b i operator val)) \<and>
    set (predicate_clauses b) \<subseteq> set (predicate_clauses (snd (clause_push b i operator val)))"
  proof (cases "builder_len b < length (builder_clauses b)")
    case True
    then have "predicate_clauses (snd (clause_push b i operator val)) = predicate_clauses b @ [?x]"
      by (simp add: clause_push_def predicate_clauses_def take_Suc_update)
    with True assms show ?thesis
      by (simp add: clauses_ok_def clauses_valid_def) (auto simp: clause_push_def predicate_clauses_def)
  qed (use assms(1) in \<open>simp add: clause_push_def\<close>)
  then show "clauses_ok (snd (clause_push b i operator val))"
    "set (predicate_clauses b) \<subseteq> set (predicate_clauses (snd (clause_push b i operator val)))" by blast+
qed

lemma predicate_apply_ok:
  assumes "clauses_ok b"
  shows "clauses_ok (snd (predicate_apply call b))" "set (predicate_clauses b) \<subseteq> set (predicate_clauses (snd (predicate_apply call b)))"
  using clause_push_ok [OF assms] assms
  by (cases call; simp add: predicate_bool_def predicate_i64_def predicate_bytes_clause_def)+

lemma clause_push_adds:
  assumes "clause_push b i operator val = (Inr (), b')" "clauses_ok b"
  shows "\<lparr>clause_attribute = i, clause_operator = operator, clause_value = val\<rparr> \<in> set (predicate_clauses b')"
  using assms by (auto simp: clause_push_def predicate_clauses_def take_Suc_update split: if_splits)

lemma predicate_run_ok:
  assumes "clauses_ok b"
  shows "clauses_ok (predicate_run calls b)" "set (predicate_clauses b) \<subseteq> set (predicate_clauses (predicate_run calls b))"
proof -
  have "clauses_ok (predicate_run calls b) \<and> set (predicate_clauses b) \<subseteq> set (predicate_clauses (predicate_run calls b))"
    using assms
  proof (induction calls arbitrary: b)
    case (Cons call calls)
    from Cons.IH [OF predicate_apply_ok(1) [OF Cons.prems, of call]] predicate_apply_ok(2) [OF Cons.prems, of call]
    show ?case by (simp add: predicate_run_def) blast
  qed (simp add: predicate_run_def)
  then show "clauses_ok (predicate_run calls b)" "set (predicate_clauses b) \<subseteq> set (predicate_clauses (predicate_run calls b))" by blast+
qed

lemma values_equal: "values_compare Operator_Eq v w \<Longrightarrow> v = w"
  by (cases v; cases w) (simp_all add: signed_word_eqI)

text \<open>A clause in the builder binds every environment that the predicate accepts.\<close>

lemma clause_binds:
  assumes "clauses_ok b" "c \<in> set (predicate_clauses b)" "clause_operator c = Operator_Eq" "attributes_valid as"
    "predicate_evaluate (predicate_of (predicate_clauses (predicate_run calls b))) (environment_of as)"
  shows "attribute_lookup as (clause_attribute c) = Some (clause_value c)"
proof -
  note run = predicate_run_ok [OF assms(1), of calls]
  have "list_all (clause_holds as) (predicate_clauses (predicate_run calls b))"
    using predicate_evaluate_of [of "predicate_clauses (predicate_run calls b)" as] assms(4,5) run(1) by (simp add: clauses_ok_def)
  then have "clause_holds as c" using run(2) assms(2) by (auto simp: list_all_iff)
  with assms(3) show ?thesis by (auto simp: clause_holds_def dest: values_equal split: option.splits)
qed

section \<open>Schemas\<close>

text \<open>A domain: its attributes and the schema that describes them.\<close>

locale domain_schema =
  fixes bools :: "'d BoolAttribute set" and i64s :: "'d I64Attribute set" and bytess :: "'d BytesAttribute set"
    and schema :: schema
  assumes bool_law: "a \<in> bools \<Longrightarrow> schema (bool_id a) = Some (AttributeKind_Bool, bool_authority a)"
    and i64_law: "b \<in> i64s \<Longrightarrow> schema (i64_id b) = Some (AttributeKind_I64, i64_authority b)"
    and bytes_law: "c \<in> bytess \<Longrightarrow> schema (bytes_id c) = Some (AttributeKind_Bytes, bytes_authority c)"
begin

definition declared :: "'d env_call \<Rightarrow> bool" where
  "declared call = (case call of Env_bool a _ \<Rightarrow> a \<in> bools | Env_i64 a _ \<Rightarrow> a \<in> i64s | Env_bytes a _ \<Rightarrow> a \<in> bytess)"

definition conforms :: "'d EnvironmentBuilder \<Rightarrow> bool" where
  "conforms b \<longleftrightarrow> env_ok b \<and> list_all (\<lambda>a. model_validate_attribute schema a = Inr ()) (env_attributes b)"

lemma call_conforms:
  assumes "conforms b" "declared call"
  shows "conforms (snd (env_apply call b))"
proof -
  have push: "conforms (snd (env_push b i val))"
    if "value_valid val" "model_validate_attribute schema \<lparr>attribute_id = i, attribute_value = val\<rparr> = Inr ()" for i val
    using that assms(1) env_push_ok [of b val i] by (auto simp: conforms_def list_all_iff)
  show ?thesis
    using assms bool_law i64_law bytes_law
    by (cases call) (auto simp: declared_def env_bool_def env_i64_def env_bytes_def model_validate_attribute_def intro!: push)
qed

lemma run_conforms: "conforms b \<Longrightarrow> list_all declared calls \<Longrightarrow> conforms (env_run calls b)"
  using call_conforms by (induction calls arbitrary: b) (simp_all add: env_run_def)

end

end
