(* ===== verification/Domains.thy ===== *)
theory Domains
  imports Usecase
begin

text \<open>
  The three domains of \<open>usecase-models/src/lib.rs\<close>: identifiers, typed attributes, the enumerations
  with their discriminants, the builders with the mandatory boundary of the domain, and the schemas.
\<close>

section \<open>The domain \<open>smart_building\<close>\<close>

datatype smart_building = Smart_building

definition building_SENSOR_READING :: TypeId where "building_SENSOR_READING = TypeId 0x1001"
definition building_TEMPERATURE_ALERT :: TypeId where "building_TEMPERATURE_ALERT = TypeId 0x1002"
definition building_FIRE_ALERT :: TypeId where "building_FIRE_ALERT = TypeId 0x1003"
definition building_MAINTENANCE_COMMAND :: TypeId where "building_MAINTENANCE_COMMAND = TypeId 0x1004"

definition building_BUILDING_ID :: "smart_building BytesAttribute" where
  "building_BUILDING_ID = BytesAttribute (AttributeId 0x1001) Authority_CaIssued"
definition building_FLOOR_ID :: "smart_building I64Attribute" where
  "building_FLOOR_ID = I64Attribute (AttributeId 0x1002) Authority_CaIssued"
definition building_DEVICE_CLASS :: "smart_building I64Attribute" where
  "building_DEVICE_CLASS = I64Attribute (AttributeId 0x1003) Authority_CaIssued"
definition building_CERTIFIED_DEVICE :: "smart_building BoolAttribute" where
  "building_CERTIFIED_DEVICE = BoolAttribute (AttributeId 0x1004) Authority_CaIssued"
definition building_USER_ROLE :: "smart_building I64Attribute" where
  "building_USER_ROLE = I64Attribute (AttributeId 0x1005) Authority_CaIssued"
definition building_OPERATIONAL :: "smart_building BoolAttribute" where
  "building_OPERATIONAL = BoolAttribute (AttributeId 0x1006) Authority_SelfDeclared"
definition building_TEMPERATURE :: "smart_building I64Attribute" where
  "building_TEMPERATURE = I64Attribute (AttributeId 0x1007) Authority_SelfDeclared"
definition building_OCCUPANCY :: "smart_building I64Attribute" where
  "building_OCCUPANCY = I64Attribute (AttributeId 0x1008) Authority_SelfDeclared"
definition building_ALERT_ZONE :: "smart_building BytesAttribute" where
  "building_ALERT_ZONE = BytesAttribute (AttributeId 0x1009) Authority_CaIssued"

datatype DeviceClass = Sensor | ControlPanel | MaintenanceTerminal

fun DeviceClass_i64 :: "DeviceClass \<Rightarrow> i64" where
  "DeviceClass_i64 Sensor = 1"
| "DeviceClass_i64 ControlPanel = 2"
| "DeviceClass_i64 MaintenanceTerminal = 3"

datatype UserRole = ControlOperator | MaintenanceOperator | Observer

fun UserRole_i64 :: "UserRole \<Rightarrow> i64" where
  "UserRole_i64 ControlOperator = 1"
| "UserRole_i64 MaintenanceOperator = 2"
| "UserRole_i64 Observer = 3"

definition building_environment :: "smart_building EnvironmentBuilder" where
  "building_environment = EnvironmentBuilder_new"

definition building_subscription :: "bytes \<Rightarrow> ModelError + smart_building ClauseBuilder" where
  "building_subscription building_id =
     (let (result, builder) = predicate_bytes_clause ClauseBuilder_new building_BUILDING_ID Operator_Eq building_id in
      tryE result (\<lambda>_. Inr builder))"

definition building_audience :: "bytes \<Rightarrow> ModelError + smart_building ClauseBuilder" where
  "building_audience building_id =
     (let (result, builder) = predicate_bytes_clause ClauseBuilder_new building_BUILDING_ID Operator_Eq building_id in
      tryE result (\<lambda>_. Inr builder))"

definition building_schema :: schema where
  "building_schema wanted = schema_entry wanted
     [(bytes_id building_BUILDING_ID, AttributeKind_Bytes, bytes_authority building_BUILDING_ID),
      (i64_id building_FLOOR_ID, AttributeKind_I64, i64_authority building_FLOOR_ID),
      (i64_id building_DEVICE_CLASS, AttributeKind_I64, i64_authority building_DEVICE_CLASS),
      (bool_id building_CERTIFIED_DEVICE, AttributeKind_Bool, bool_authority building_CERTIFIED_DEVICE),
      (i64_id building_USER_ROLE, AttributeKind_I64, i64_authority building_USER_ROLE),
      (bool_id building_OPERATIONAL, AttributeKind_Bool, bool_authority building_OPERATIONAL),
      (i64_id building_TEMPERATURE, AttributeKind_I64, i64_authority building_TEMPERATURE),
      (i64_id building_OCCUPANCY, AttributeKind_I64, i64_authority building_OCCUPANCY),
      (bytes_id building_ALERT_ZONE, AttributeKind_Bytes, bytes_authority building_ALERT_ZONE)]"

lemmas building_defs =
  building_BUILDING_ID_def building_FLOOR_ID_def building_DEVICE_CLASS_def building_CERTIFIED_DEVICE_def
  building_USER_ROLE_def building_OPERATIONAL_def building_TEMPERATURE_def building_OCCUPANCY_def
  building_ALERT_ZONE_def

section \<open>The domain \<open>robot_swarm\<close>\<close>

datatype robot_swarm = Robot_swarm

definition swarm_DRONE_TELEMETRY :: TypeId where "swarm_DRONE_TELEMETRY = TypeId 0x2001"
definition swarm_TARGET_DETECTED :: TypeId where "swarm_TARGET_DETECTED = TypeId 0x2002"
definition swarm_MISSION_COMMAND :: TypeId where "swarm_MISSION_COMMAND = TypeId 0x2003"
definition swarm_TASK_ASSIGNMENT :: TypeId where "swarm_TASK_ASSIGNMENT = TypeId 0x2004"
definition swarm_FORMATION_UPDATE :: TypeId where "swarm_FORMATION_UPDATE = TypeId 0x2005"
definition swarm_EMERGENCY_ALERT :: TypeId where "swarm_EMERGENCY_ALERT = TypeId 0x2006"

definition swarm_SWARM_ID :: "robot_swarm BytesAttribute" where
  "swarm_SWARM_ID = BytesAttribute (AttributeId 0x2001) Authority_CaIssued"
definition swarm_MISSION_EPOCH :: "robot_swarm I64Attribute" where
  "swarm_MISSION_EPOCH = I64Attribute (AttributeId 0x2002) Authority_CaIssued"
definition swarm_ROBOT_ROLE :: "robot_swarm I64Attribute" where
  "swarm_ROBOT_ROLE = I64Attribute (AttributeId 0x2003) Authority_CaIssued"
definition swarm_CAPABILITY :: "robot_swarm I64Attribute" where
  "swarm_CAPABILITY = I64Attribute (AttributeId 0x2004) Authority_CaIssued"
definition swarm_PAYLOAD_CAPACITY :: "robot_swarm I64Attribute" where
  "swarm_PAYLOAD_CAPACITY = I64Attribute (AttributeId 0x2005) Authority_CaIssued"
definition swarm_OPERATIONAL :: "robot_swarm BoolAttribute" where
  "swarm_OPERATIONAL = BoolAttribute (AttributeId 0x2006) Authority_SelfDeclared"
definition swarm_BATTERY_LEVEL :: "robot_swarm I64Attribute" where
  "swarm_BATTERY_LEVEL = I64Attribute (AttributeId 0x2007) Authority_SelfDeclared"
definition swarm_ZONE :: "robot_swarm BytesAttribute" where
  "swarm_ZONE = BytesAttribute (AttributeId 0x2008) Authority_SelfDeclared"
definition swarm_ASSIGNED_TASK :: "robot_swarm BytesAttribute" where
  "swarm_ASSIGNED_TASK = BytesAttribute (AttributeId 0x2009) Authority_CaIssued"
definition swarm_RECIPIENT_ID :: "robot_swarm BytesAttribute" where
  "swarm_RECIPIENT_ID = BytesAttribute (AttributeId 0x200a) Authority_CaIssued"

datatype RobotRole = Coordinator | Scout | Responder | Relay

fun RobotRole_i64 :: "RobotRole \<Rightarrow> i64" where
  "RobotRole_i64 Coordinator = 1"
| "RobotRole_i64 Scout = 2"
| "RobotRole_i64 Responder = 3"
| "RobotRole_i64 Relay = 4"

datatype Capability = RgbCamera | ThermalCamera | Transport_capability | Manipulation | NetworkRelay

fun Capability_i64 :: "Capability \<Rightarrow> i64" where
  "Capability_i64 RgbCamera = 1"
| "Capability_i64 ThermalCamera = 2"
| "Capability_i64 Transport_capability = 3"
| "Capability_i64 Manipulation = 4"
| "Capability_i64 NetworkRelay = 5"

definition swarm_environment :: "robot_swarm EnvironmentBuilder" where
  "swarm_environment = EnvironmentBuilder_new"

definition swarm_subscription :: "bytes \<Rightarrow> i64 \<Rightarrow> ModelError + robot_swarm ClauseBuilder" where
  "swarm_subscription swarm_id mission_epoch =
     (let (result, builder) = predicate_bytes_clause ClauseBuilder_new swarm_SWARM_ID Operator_Eq swarm_id in
      tryE result (\<lambda>_.
      let (result, builder) = predicate_i64 builder swarm_MISSION_EPOCH Operator_Eq mission_epoch in
      tryE result (\<lambda>_. Inr builder)))"

definition swarm_audience :: "bytes \<Rightarrow> i64 \<Rightarrow> ModelError + robot_swarm ClauseBuilder" where
  "swarm_audience swarm_id mission_epoch =
     (let (result, builder) = predicate_bytes_clause ClauseBuilder_new swarm_SWARM_ID Operator_Eq swarm_id in
      tryE result (\<lambda>_.
      let (result, builder) = predicate_i64 builder swarm_MISSION_EPOCH Operator_Eq mission_epoch in
      tryE result (\<lambda>_. Inr builder)))"

definition swarm_schema :: schema where
  "swarm_schema wanted = schema_entry wanted
     [(bytes_id swarm_SWARM_ID, AttributeKind_Bytes, bytes_authority swarm_SWARM_ID),
      (i64_id swarm_MISSION_EPOCH, AttributeKind_I64, i64_authority swarm_MISSION_EPOCH),
      (i64_id swarm_ROBOT_ROLE, AttributeKind_I64, i64_authority swarm_ROBOT_ROLE),
      (i64_id swarm_CAPABILITY, AttributeKind_I64, i64_authority swarm_CAPABILITY),
      (i64_id swarm_PAYLOAD_CAPACITY, AttributeKind_I64, i64_authority swarm_PAYLOAD_CAPACITY),
      (bool_id swarm_OPERATIONAL, AttributeKind_Bool, bool_authority swarm_OPERATIONAL),
      (i64_id swarm_BATTERY_LEVEL, AttributeKind_I64, i64_authority swarm_BATTERY_LEVEL),
      (bytes_id swarm_ZONE, AttributeKind_Bytes, bytes_authority swarm_ZONE),
      (bytes_id swarm_ASSIGNED_TASK, AttributeKind_Bytes, bytes_authority swarm_ASSIGNED_TASK),
      (bytes_id swarm_RECIPIENT_ID, AttributeKind_Bytes, bytes_authority swarm_RECIPIENT_ID)]"

lemmas swarm_defs =
  swarm_SWARM_ID_def swarm_MISSION_EPOCH_def swarm_ROBOT_ROLE_def swarm_CAPABILITY_def
  swarm_PAYLOAD_CAPACITY_def swarm_OPERATIONAL_def swarm_BATTERY_LEVEL_def swarm_ZONE_def
  swarm_ASSIGNED_TASK_def swarm_RECIPIENT_ID_def

section \<open>The domain \<open>multi_tenant\<close>\<close>

datatype multi_tenant = Multi_tenant

definition tenant_DOMAIN_EVENT :: TypeId where "tenant_DOMAIN_EVENT = TypeId 0x3001"
definition tenant_AUDIT_EVENT :: TypeId where "tenant_AUDIT_EVENT = TypeId 0x3002"
definition tenant_DEPLOYMENT_EVENT :: TypeId where "tenant_DEPLOYMENT_EVENT = TypeId 0x3003"
definition tenant_SECURITY_ALERT :: TypeId where "tenant_SECURITY_ALERT = TypeId 0x3004"

definition tenant_TENANT_ID :: "multi_tenant BytesAttribute" where
  "tenant_TENANT_ID = BytesAttribute (AttributeId 0x3001) Authority_CaIssued"
definition tenant_SERVICE_ID :: "multi_tenant BytesAttribute" where
  "tenant_SERVICE_ID = BytesAttribute (AttributeId 0x3002) Authority_CaIssued"
definition tenant_DEPLOYMENT_ENVIRONMENT :: "multi_tenant I64Attribute" where
  "tenant_DEPLOYMENT_ENVIRONMENT = I64Attribute (AttributeId 0x3003) Authority_CaIssued"
definition tenant_SERVICE_ROLE :: "multi_tenant I64Attribute" where
  "tenant_SERVICE_ROLE = I64Attribute (AttributeId 0x3004) Authority_CaIssued"
definition tenant_CLEARANCE_LEVEL :: "multi_tenant I64Attribute" where
  "tenant_CLEARANCE_LEVEL = I64Attribute (AttributeId 0x3005) Authority_CaIssued"
definition tenant_SERVICE_HEALTH :: "multi_tenant BoolAttribute" where
  "tenant_SERVICE_HEALTH = BoolAttribute (AttributeId 0x3006) Authority_SelfDeclared"
definition tenant_REGION :: "multi_tenant BytesAttribute" where
  "tenant_REGION = BytesAttribute (AttributeId 0x3007) Authority_CaIssued"

datatype DeploymentEnvironment = Production | Staging

fun DeploymentEnvironment_i64 :: "DeploymentEnvironment \<Rightarrow> i64" where
  "DeploymentEnvironment_i64 Production = 1"
| "DeploymentEnvironment_i64 Staging = 2"

datatype ServiceRole = Publisher | Consumer | Auditor | SecurityOperator

fun ServiceRole_i64 :: "ServiceRole \<Rightarrow> i64" where
  "ServiceRole_i64 Publisher = 1"
| "ServiceRole_i64 Consumer = 2"
| "ServiceRole_i64 Auditor = 3"
| "ServiceRole_i64 SecurityOperator = 4"

definition tenant_environment :: "multi_tenant EnvironmentBuilder" where
  "tenant_environment = EnvironmentBuilder_new"

definition tenant_subscription :: "bytes \<Rightarrow> ModelError + multi_tenant ClauseBuilder" where
  "tenant_subscription tenant_id =
     (let (result, builder) = predicate_bytes_clause ClauseBuilder_new tenant_TENANT_ID Operator_Eq tenant_id in
      tryE result (\<lambda>_. Inr builder))"

definition tenant_audience :: "bytes \<Rightarrow> ModelError + multi_tenant ClauseBuilder" where
  "tenant_audience tenant_id =
     (let (result, builder) = predicate_bytes_clause ClauseBuilder_new tenant_TENANT_ID Operator_Eq tenant_id in
      tryE result (\<lambda>_. Inr builder))"

definition tenant_schema :: schema where
  "tenant_schema wanted = schema_entry wanted
     [(bytes_id tenant_TENANT_ID, AttributeKind_Bytes, bytes_authority tenant_TENANT_ID),
      (bytes_id tenant_SERVICE_ID, AttributeKind_Bytes, bytes_authority tenant_SERVICE_ID),
      (i64_id tenant_DEPLOYMENT_ENVIRONMENT, AttributeKind_I64, i64_authority tenant_DEPLOYMENT_ENVIRONMENT),
      (i64_id tenant_SERVICE_ROLE, AttributeKind_I64, i64_authority tenant_SERVICE_ROLE),
      (i64_id tenant_CLEARANCE_LEVEL, AttributeKind_I64, i64_authority tenant_CLEARANCE_LEVEL),
      (bool_id tenant_SERVICE_HEALTH, AttributeKind_Bool, bool_authority tenant_SERVICE_HEALTH),
      (bytes_id tenant_REGION, AttributeKind_Bytes, bytes_authority tenant_REGION)]"

lemmas tenant_defs =
  tenant_TENANT_ID_def tenant_SERVICE_ID_def tenant_DEPLOYMENT_ENVIRONMENT_def tenant_SERVICE_ROLE_def
  tenant_CLEARANCE_LEVEL_def tenant_SERVICE_HEALTH_def tenant_REGION_def

section \<open>The schemas describe the attributes\<close>

definition building_declared :: "smart_building env_call \<Rightarrow> bool" where
  "building_declared call = (case call of
     Env_bool a _ \<Rightarrow> a \<in> {building_CERTIFIED_DEVICE, building_OPERATIONAL}
   | Env_i64 a _ \<Rightarrow> a \<in> {building_FLOOR_ID, building_DEVICE_CLASS, building_USER_ROLE, building_TEMPERATURE, building_OCCUPANCY}
   | Env_bytes a _ \<Rightarrow> a \<in> {building_BUILDING_ID, building_ALERT_ZONE})"

definition swarm_declared :: "robot_swarm env_call \<Rightarrow> bool" where
  "swarm_declared call = (case call of
     Env_bool a _ \<Rightarrow> a \<in> {swarm_OPERATIONAL}
   | Env_i64 a _ \<Rightarrow> a \<in> {swarm_MISSION_EPOCH, swarm_ROBOT_ROLE, swarm_CAPABILITY, swarm_PAYLOAD_CAPACITY, swarm_BATTERY_LEVEL}
   | Env_bytes a _ \<Rightarrow> a \<in> {swarm_SWARM_ID, swarm_ZONE, swarm_ASSIGNED_TASK, swarm_RECIPIENT_ID})"

definition tenant_declared :: "multi_tenant env_call \<Rightarrow> bool" where
  "tenant_declared call = (case call of
     Env_bool a _ \<Rightarrow> a \<in> {tenant_SERVICE_HEALTH}
   | Env_i64 a _ \<Rightarrow> a \<in> {tenant_DEPLOYMENT_ENVIRONMENT, tenant_SERVICE_ROLE, tenant_CLEARANCE_LEVEL}
   | Env_bytes a _ \<Rightarrow> a \<in> {tenant_TENANT_ID, tenant_SERVICE_ID, tenant_REGION})"

interpretation building: domain_schema "{building_CERTIFIED_DEVICE, building_OPERATIONAL}"
  "{building_FLOOR_ID, building_DEVICE_CLASS, building_USER_ROLE, building_TEMPERATURE, building_OCCUPANCY}"
  "{building_BUILDING_ID, building_ALERT_ZONE}" building_schema
  by unfold_locales (elim insertE emptyE; hypsubst; simp add: building_schema_def schema_entry_def building_defs)+

interpretation swarm: domain_schema "{swarm_OPERATIONAL}"
  "{swarm_MISSION_EPOCH, swarm_ROBOT_ROLE, swarm_CAPABILITY, swarm_PAYLOAD_CAPACITY, swarm_BATTERY_LEVEL}"
  "{swarm_SWARM_ID, swarm_ZONE, swarm_ASSIGNED_TASK, swarm_RECIPIENT_ID}" swarm_schema
  by unfold_locales (elim insertE emptyE; hypsubst; simp add: swarm_schema_def schema_entry_def swarm_defs)+

interpretation tenant: domain_schema "{tenant_SERVICE_HEALTH}"
  "{tenant_DEPLOYMENT_ENVIRONMENT, tenant_SERVICE_ROLE, tenant_CLEARANCE_LEVEL}"
  "{tenant_TENANT_ID, tenant_SERVICE_ID, tenant_REGION}" tenant_schema
  by unfold_locales (elim insertE emptyE; hypsubst; simp add: tenant_schema_def schema_entry_def tenant_defs)+

lemma declared_eq: "building.declared = building_declared" "swarm.declared = swarm_declared" "tenant.declared = tenant_declared"
  by (simp_all add: fun_eq_iff building.declared_def building_declared_def swarm.declared_def swarm_declared_def
      tenant.declared_def tenant_declared_def)

text \<open>What an application may rely on: its environment passes the schema and the wire encoder, which
  needs at most \<open>MAX_PLAINTEXT_LEN\<close> bytes.\<close>

definition environment_accepted :: "schema \<Rightarrow> AttributeRef list \<Rightarrow> bool" where
  "environment_accepted schema attributes \<longleftrightarrow>
     list_all (\<lambda>a. model_validate_attribute schema a = Inr ()) attributes \<and>
     (\<exists>n written. encode_environment (replicate MAX_PLAINTEXT_LEN 0) attributes = (Inr n, written) \<and>
        parse_operation (take n written) = Inr (Op_SetEnvironment (environment_of attributes)))"

lemma environment_accepted_iff: "attributes_valid attributes \<Longrightarrow>
  environment_accepted schema attributes \<longleftrightarrow> list_all (\<lambda>a. model_validate_attribute schema a = Inr ()) attributes"
proof -
  assume valid: "attributes_valid attributes"
  let ?op = "SetEnvironment attributes"
  have op: "operation_valid ?op" using valid by simp
  have "length (operation_bytes ?op) \<le> MAX_PLAINTEXT_LEN"
    using length_operation_bytes [OF op] by (simp add: const_defs del: operation_bytes.simps)
  with encode_operation_ok [OF op, of "replicate MAX_PLAINTEXT_LEN 0"] parse_operation_print [OF op] show ?thesis
    by (simp add: environment_accepted_def del: operation_bytes.simps)
qed

section \<open>Boundaries\<close>

lemma bytes_boundary:
  assumes "predicate_bytes_clause b i Operator_Eq val = (Inr (), b')" "clauses_ok b"
  shows "clauses_ok b'" "\<lparr>clause_attribute = bytes_id i, clause_operator = Operator_Eq, clause_value = Value_Bytes val\<rparr> \<in> set (predicate_clauses b')"
proof -
  from assms(1) have push: "clause_push b (bytes_id i) Operator_Eq (Value_Bytes val) = (Inr (), b')" "value_valid (Value_Bytes val)"
    by (auto simp: predicate_bytes_clause_def split: if_splits)
  with clause_push_ok(1) [OF assms(2) push(2), of "bytes_id i" Operator_Eq] show "clauses_ok b'" by simp
  from clause_push_adds [OF push(1) assms(2)]
  show "\<lparr>clause_attribute = bytes_id i, clause_operator = Operator_Eq, clause_value = Value_Bytes val\<rparr> \<in> set (predicate_clauses b')" .
qed

lemma building_start:
  assumes "building_subscription building = Inr b \<or> building_audience building = Inr b"
  shows "clauses_ok b" "\<lparr>clause_attribute = bytes_id building_BUILDING_ID, clause_operator = Operator_Eq,
    clause_value = Value_Bytes building\<rparr> \<in> set (predicate_clauses b)"
proof -
  from assms have "predicate_bytes_clause ClauseBuilder_new building_BUILDING_ID Operator_Eq building = (Inr (), b)"
    by (auto simp: building_subscription_def building_audience_def tryE_Inr_iff Let_def split: prod.splits)
  note bytes_boundary [OF this clauses_new(1)]
  then show "clauses_ok b" "\<lparr>clause_attribute = bytes_id building_BUILDING_ID, clause_operator = Operator_Eq,
    clause_value = Value_Bytes building\<rparr> \<in> set (predicate_clauses b)" .
qed

lemma tenant_start:
  assumes "tenant_subscription tenant = Inr b \<or> tenant_audience tenant = Inr b"
  shows "clauses_ok b" "\<lparr>clause_attribute = bytes_id tenant_TENANT_ID, clause_operator = Operator_Eq,
    clause_value = Value_Bytes tenant\<rparr> \<in> set (predicate_clauses b)"
proof -
  from assms have "predicate_bytes_clause ClauseBuilder_new tenant_TENANT_ID Operator_Eq tenant = (Inr (), b)"
    by (auto simp: tenant_subscription_def tenant_audience_def tryE_Inr_iff Let_def split: prod.splits)
  note bytes_boundary [OF this clauses_new(1)]
  then show "clauses_ok b" "\<lparr>clause_attribute = bytes_id tenant_TENANT_ID, clause_operator = Operator_Eq,
    clause_value = Value_Bytes tenant\<rparr> \<in> set (predicate_clauses b)" .
qed

lemma swarm_start:
  assumes "swarm_subscription swarm epoch = Inr b \<or> swarm_audience swarm epoch = Inr b"
  shows "clauses_ok b"
    "\<lparr>clause_attribute = bytes_id swarm_SWARM_ID, clause_operator = Operator_Eq, clause_value = Value_Bytes swarm\<rparr> \<in> set (predicate_clauses b)"
    "\<lparr>clause_attribute = i64_id swarm_MISSION_EPOCH, clause_operator = Operator_Eq, clause_value = Value_I64 epoch\<rparr> \<in> set (predicate_clauses b)"
proof -
  from assms obtain b0 where b0: "predicate_bytes_clause ClauseBuilder_new swarm_SWARM_ID Operator_Eq swarm = (Inr (), b0)"
    "clause_push b0 (i64_id swarm_MISSION_EPOCH) Operator_Eq (Value_I64 epoch) = (Inr (), b)"
    by (auto simp: swarm_subscription_def swarm_audience_def predicate_i64_def tryE_Inr_iff Let_def split: prod.splits)
  note first = bytes_boundary [OF b0(1) clauses_new(1)]
  from clause_push_ok [OF first(1), of "Value_I64 epoch" "i64_id swarm_MISSION_EPOCH" Operator_Eq] b0(2) first(2)
  show "clauses_ok b"
    "\<lparr>clause_attribute = bytes_id swarm_SWARM_ID, clause_operator = Operator_Eq, clause_value = Value_Bytes swarm\<rparr> \<in> set (predicate_clauses b)"
    by auto
  show "\<lparr>clause_attribute = i64_id swarm_MISSION_EPOCH, clause_operator = Operator_Eq, clause_value = Value_I64 epoch\<rparr> \<in> set (predicate_clauses b)"
    by (rule clause_push_adds [OF b0(2) first(1)])
qed

section \<open>Properties\<close>

text \<open>C33: typed environments are never refused. Whatever calls an application makes on a domain's builder with
  the domain's attributes, in any order and also after failed calls, what the builder holds passes
  the domain's schema, is encoded into any buffer of \<open>MAX_PLAINTEXT_LEN\<close> bytes, and the CA
  parses it back.\<close>

theorem typed_environments_accepted:
  assumes "list_all building_declared calls" "list_all swarm_declared calls'" "list_all tenant_declared calls''"
  shows "environment_accepted building_schema (env_attributes (env_run calls building_environment)) \<and>
    environment_accepted swarm_schema (env_attributes (env_run calls' swarm_environment)) \<and>
    environment_accepted tenant_schema (env_attributes (env_run calls'' tenant_environment))"
proof -
  have start: "building.conforms building_environment" "swarm.conforms swarm_environment" "tenant.conforms tenant_environment"
    by (simp_all add: building.conforms_def swarm.conforms_def tenant.conforms_def env_new building_environment_def
        swarm_environment_def tenant_environment_def)
  from building.run_conforms [OF start(1)] swarm.run_conforms [OF start(2)] tenant.run_conforms [OF start(3)] assms
  show ?thesis
    by (simp add: building.conforms_def swarm.conforms_def tenant.conforms_def declared_eq env_ok_def environment_accepted_iff)
qed

theorem typed_environments_witness:
  "environment_accepted building_schema [\<lparr>attribute_id = AttributeId 0x1002, attribute_value = Value_I64 4\<rparr>]"
proof -
  have "list_all building_declared [Env_i64 building_FLOOR_ID 4, Env_i64 building_FLOOR_ID 5]" by (simp add: building_declared_def)
  from typed_environments_accepted [OF this, of "[]" "[]"] have accepted:
    "environment_accepted building_schema (env_attributes (env_run [Env_i64 building_FLOOR_ID 4, Env_i64 building_FLOOR_ID 5] building_environment))"
    by simp
  let ?x = "\<lparr>attribute_id = AttributeId 0x1002, attribute_value = Value_I64 4\<rparr>"
  let ?b = "EnvironmentBuilder (?x # replicate 15 \<lparr>attribute_id = AttributeId 0, attribute_value = Value_Bool False\<rparr>) 1 ::
    smart_building EnvironmentBuilder"
  have "env_push building_environment (AttributeId 0x1002) (Value_I64 4) = (Inr (), ?b)"
    by (simp add: env_push_def building_environment_def EnvironmentBuilder_new_def const_defs eval_nat_numeral)
  moreover have "env_push ?b (AttributeId 0x1002) (Value_I64 5) = (Inl Model_DuplicateAttribute, ?b)"
    by (simp add: env_push_def)
  ultimately show ?thesis
    using accepted by (simp add: env_run_def env_i64_def building_FLOOR_ID_def) (simp add: env_attributes_def)
qed

text \<open>The domain boundary cannot be built away. A predicate that starts from \<open>subscription\<close> or
  \<open>audience\<close>, whatever clauses are added, accepts only environments with the boundary's value:
  the same building, the same swarm and mission, the same tenant.\<close>

theorem domain_boundary:
  assumes "attributes_valid as"
  shows "((building_subscription building = Inr b \<or> building_audience building = Inr b) \<and>
       predicate_evaluate (predicate_of (predicate_clauses (predicate_run calls b))) (environment_of as) \<longrightarrow>
       environment_get (environment_of as) (bytes_id building_BUILDING_ID) = Some (Value_Bytes building)) \<and>
    ((swarm_subscription swarm epoch = Inr b' \<or> swarm_audience swarm epoch = Inr b') \<and>
       predicate_evaluate (predicate_of (predicate_clauses (predicate_run calls' b'))) (environment_of as) \<longrightarrow>
       environment_get (environment_of as) (bytes_id swarm_SWARM_ID) = Some (Value_Bytes swarm) \<and>
       environment_get (environment_of as) (i64_id swarm_MISSION_EPOCH) = Some (Value_I64 epoch)) \<and>
    ((tenant_subscription tenant = Inr b'' \<or> tenant_audience tenant = Inr b'') \<and>
       predicate_evaluate (predicate_of (predicate_clauses (predicate_run calls'' b''))) (environment_of as) \<longrightarrow>
       environment_get (environment_of as) (bytes_id tenant_TENANT_ID) = Some (Value_Bytes tenant))"
proof -
  have 1: "attribute_lookup as (bytes_id building_BUILDING_ID) = Some (Value_Bytes building)"
    if start: "building_subscription building = Inr b \<or> building_audience building = Inr b"
      and met: "predicate_evaluate (predicate_of (predicate_clauses (predicate_run calls b))) (environment_of as)"
    using clause_binds [OF building_start [OF start] _ assms met] by simp
  have 2: "attribute_lookup as (bytes_id swarm_SWARM_ID) = Some (Value_Bytes swarm) \<and>
      attribute_lookup as (i64_id swarm_MISSION_EPOCH) = Some (Value_I64 epoch)"
    if start: "swarm_subscription swarm epoch = Inr b' \<or> swarm_audience swarm epoch = Inr b'"
      and met: "predicate_evaluate (predicate_of (predicate_clauses (predicate_run calls' b'))) (environment_of as)"
    using clause_binds [OF swarm_start(1) [OF start] swarm_start(2) [OF start] _ assms met]
      clause_binds [OF swarm_start(1) [OF start] swarm_start(3) [OF start] _ assms met] by simp
  have 3: "attribute_lookup as (bytes_id tenant_TENANT_ID) = Some (Value_Bytes tenant)"
    if start: "tenant_subscription tenant = Inr b'' \<or> tenant_audience tenant = Inr b''"
      and met: "predicate_evaluate (predicate_of (predicate_clauses (predicate_run calls'' b''))) (environment_of as)"
    using clause_binds [OF tenant_start [OF start] _ assms met] by simp
  from 1 2 3 show ?thesis unfolding environment_get_of [OF assms] by blast
qed

theorem domain_boundary_witness:
  "\<exists>b. building_audience [7] = Inr b \<and>
     environment_get (environment_of [\<lparr>attribute_id = AttributeId 0x1001, attribute_value = Value_Bytes [7]\<rparr>]) (AttributeId 0x1001) =
       Some (Value_Bytes [7])"
proof -
  let ?as = "[\<lparr>attribute_id = AttributeId 0x1001, attribute_value = Value_Bytes [7]\<rparr>] :: AttributeRef list"
  have valid: "attributes_valid ?as" by (simp add: attributes_valid_def const_defs)
  obtain b where b: "building_audience [7] = Inr b" "predicate_clauses b =
      [\<lparr>clause_attribute = AttributeId 0x1001, clause_operator = Operator_Eq, clause_value = Value_Bytes [7]\<rparr>]"
    by (simp add: building_audience_def predicate_bytes_clause_def clause_push_def ClauseBuilder_new_def const_defs
        predicate_clauses_def building_BUILDING_ID_def eval_nat_numeral)
  have "predicate_run [] b = b" by (simp add: predicate_run_def)
  moreover have "predicate_evaluate (predicate_of (predicate_clauses b)) (environment_of ?as)"
    unfolding b(2) using valid by (subst predicate_evaluate_of) (simp_all add: clauses_valid_def const_defs clause_holds_def)
  ultimately show ?thesis
    using domain_boundary [OF valid, THEN conjunct1, of "[7]" b "[]"] b(1) by (simp add: building_BUILDING_ID_def)
qed
end
