(* ===== verification/Boundary.thy ===== *)
theory Boundary
  imports Protocol Domains
begin

text \<open>
  The domain boundaries end to end: the typed builders of \<open>usecase-models\<close>, the agent that publishes with
  them, the CA with a policy that reserves the boundary attribute to itself, and the agent that
  accepts the delivery.
\<close>

section \<open>What a written request opens to\<close>

lemma request_into_weak_key:
  assumes "operation_valid op" "MAX_FRAME_LEN \<le> length out" "request_draws C rng = (session, salt, secret, rng')"
    "x_dh C secret (ca_x25519 (agent_ca agent)) = 0"
  shows "fst (request_into C agent out t h rng (\<lambda>plain. encode_operation plain op)) = Inl CryptoFailure"
proof -
  let ?n = "length (operation_bytes op)" and ?room = "range_of out HEADER_LEN MAX_FRAME_LEN"
  let ?plain = "operation_bytes op @ drop ?n ?room"
  let ?out = "copy_at out HEADER_LEN ?plain"
  have n: "?n \<le> 3640" by (rule length_operation_bytes [OF assms(1)])
  have room: "length ?room = 4176" using assms(2) by (simp add: length_range_of const_defs)
  have enc: "encode_operation ?room op = (Inr ?n, ?plain)"
    using n room by (intro encode_operation_ok assms(1)) simp
  have "length ?out = length out" using assms(2) n room by (simp add: const_defs)
  then have "fst (seal_in_place C ?out ?n t (agent_id agent) AgentId_CA h (SessionId session) salt secret
      (ca_x25519 (agent_ca agent)) (keys_signing (agent_keys agent))) = Inl CryptoFailure"
    using n assms(2,4) by (intro seal_in_place_weak_key) (simp_all add: const_defs)
  then show ?thesis
    using assms(2,3) enc
    by (auto simp: request_into_def request_draws_def OneShotSecret_generate_def Let_def split: prod.splits)
qed

text \<open>A request that was written is a valid operation, and its frame passes the checks of the CA and opens to it.\<close>

lemma request_opens:
  assumes laws: "crypto_laws C" and ca: "ca_x25519 (agent_ca agent) = x_public C ca_secret" and out: "MAX_FRAME_LEN \<le> length out"
    and run: "request_into C agent out t h rng (\<lambda>plain. encode_operation plain op) = (Inr n, written, rng')"
  obtains e where "operation_valid op" "take n written = frame_bytes e" "parse_envelope (frame_bytes e) = Inr e"
    "envelope_message_type e = t" "envelope_sender e = agent_id agent" "envelope_recipient e = AgentId_CA" "envelope_handler e = h"
    "envelope_session_id e = SessionId (fst (request_draws C rng))"
    "verify_envelope_signature C e (ed_public C (keys_signing (agent_keys agent))) = Inr ()"
    "open_in_place C (frame_bytes e) AgentId_CA t (ed_public C (keys_signing (agent_keys agent))) ca_secret = Inr (operation_bytes op)"
    "length written = length out"
proof -
  have valid: "operation_valid op" using request_into_invalid [OF out, of op C agent t h rng] run by auto
  obtain session salt secret rng2 where draws: "request_draws C rng = (session, salt, secret, rng2)" by (metis prod.exhaust)
  have dh: "x_dh C secret (x_public C ca_secret) \<noteq> 0"
    using request_into_weak_key [OF valid out draws, of agent t h] run ca by auto
  show thesis
    by (rule request_into_ok [OF laws valid out draws ca dh, of t h], rule that [OF valid]) (use run draws in simp_all)
qed

lemma publish_request_opens:
  assumes laws: "crypto_laws C" and ca: "ca_x25519 (agent_ca agent) = x_public C ca_secret"
    and run: "publish_request C agent t clauses val rng = (Inr frame, rng')"
  shows "operation_valid (Publish t clauses val)"
    "\<exists>e. parse_envelope frame = Inr e \<and> envelope_sender e = agent_id agent"
    "open_in_place C frame AgentId_CA MT_Publish (ed_public C (keys_signing (agent_keys agent))) ca_secret =
       Inr (operation_bytes (Publish t clauses val))"
proof -
  let ?op = "Publish t clauses val" and ?out = "replicate MAX_FRAME_LEN 0"
  from run obtain n written where r:
    "request_into C agent ?out MT_Publish HandlerId_NONE rng (\<lambda>plain. encode_operation plain ?op) = (Inr n, written, rng')"
    "frame = take n written"
    by (auto simp: publish_request_def request_owned_def publish_into_def split: prod.splits sum.splits)
  have out: "MAX_FRAME_LEN \<le> length ?out" by simp
  obtain e where e: "operation_valid ?op" "take n written = frame_bytes e" "parse_envelope (frame_bytes e) = Inr e" "envelope_sender e = agent_id agent"
    "open_in_place C (frame_bytes e) AgentId_CA MT_Publish (ed_public C (keys_signing (agent_keys agent))) ca_secret = Inr (operation_bytes ?op)"
    by (rule request_opens [OF laws ca out r(1)]) blast
  then show "operation_valid ?op" "\<exists>e. parse_envelope frame = Inr e \<and> envelope_sender e = agent_id agent"
    "open_in_place C frame AgentId_CA MT_Publish (ed_public C (keys_signing (agent_keys agent))) ca_secret = Inr (operation_bytes ?op)"
    using r(2) by auto
qed

section \<open>What a delivery proves\<close>

text \<open>An equality clause of the publisher on an attribute that the CA issues holds of the approvals of every
  agent that accepts the delivery.\<close>

context ca_store_laws begin

lemma audience_approved:
  assumes laws: "crypto_laws C" and ok: "view_ok (view store)"
    and policy: "policy_wf p" "authority_policy ca = static_policy p"
    and published: "publish_request C publisher t clauses val r = (Inr frame, r')"
    and publisher: "ca_x25519 (agent_ca publisher) = CaKeys_x25519_public C (authority_keys ca)"
      "view_keys (view store) (agent_id publisher) = Some pkeys" "public_ed25519 pkeys = AgentKeys_verifying_key C (agent_keys publisher)"
    and run: "process C S ca frame now (store, rng) = (Inr (Deliveries ds), (store', rng'))"
    and sent: "frame' \<in> set ds"
    and agent: "ca_ed25519 (agent_ca agent) = CaKeys_verifying_key C (authority_keys ca)"
      "\<forall>keys. view_keys (view store) (agent_id agent) = Some keys \<longrightarrow>
         public_x25519 keys = AgentKeys_x25519_public C (agent_keys agent)"
    and received: "receive C mark agent frame' h replay later = (Inr d, replay')"
    and clause: "c \<in> set clauses" "clause_operator c = Operator_Eq" "ca_issued p (clause_attribute c)"
  shows "map_option value_of (bt_get (policy_approvals p) (agent_id agent, clause_attribute c)) = Some (clause_value c)"
    "delivery_publisher d = agent_id publisher \<and> delivery_type_id d = t \<and> delivery_value d = val"
proof -
  let ?secret = "ca_x25519_secret (authority_keys ca)"
  have ca': "ca_x25519 (agent_ca publisher) = x_public C ?secret" using publisher(1) by (simp add: CaKeys_x25519_public_def)
  note opens = publish_request_opens [OF laws ca' published]
  from publication_delivered [OF laws ok run sent agent received] obtain e :: EnvelopeRef and keys plain pred pas sas sub where
    auth: "authentic C S store frame e keys" and who: "delivery_publisher d = envelope_sender e"
    and plain: "open_in_place C frame AgentId_CA MT_Publish (public_ed25519 keys) ?secret = Inr plain"
      "parse_operation plain = Inr (Op_Publish (delivery_type_id d) pred (delivery_value d))"
    and d: "delivered_for C ca (view store) (agent_id agent) d pas sas pred sub"
    by blast
  have sender: "envelope_sender e = agent_id publisher" using opens(2) auth by (auto simp: authentic_def)
  have "keys = pkeys" using auth publisher(2) by (simp add: authentic_def keys_law sender ok_or_Inr_iff)
  then have "plain = operation_bytes (Publish t clauses val)"
    using plain(1) opens(3) publisher(3) by (simp add: AgentKeys_verifying_key_def)
  with plain(2) parse_operation_print [OF opens(1)] have fields: "delivery_type_id d = t" "pred = predicate_of clauses" "delivery_value d = val"
    by simp_all
  with who sender show "delivery_publisher d = agent_id publisher \<and> delivery_type_id d = t \<and> delivery_value d = val" by simp
  have valid: "clauses_valid clauses" "attributes_valid sas" using opens(1) d by (simp_all add: delivered_for_def)
  have "list_all (clause_holds sas) clauses"
    using d predicate_evaluate_of [OF valid] by (simp add: delivered_for_def fields(2))
  then have "clause_holds sas c" using clause(1) by (simp add: list_all_iff)
  then have "attribute_lookup sas (clause_attribute c) = Some (clause_value c)"
    using clause(2) by (auto simp: clause_holds_def dest: values_equal split: option.splits)
  moreover have "static_validate_environment p (agent_id agent) None (environment_of sas) = Inr ()"
    using d by (simp add: delivered_for_def policy(2) static_policy_def static_authorize_delivery_def is_ok_iff)
  ultimately show "map_option value_of (bt_get (policy_approvals p) (agent_id agent, clause_attribute c)) = Some (clause_value c)"
    using validated_ca_attributes [OF policy(1) valid(2) _ clause(3)] by simp
qed

end

section \<open>Properties\<close>

text \<open>C16: a publication for one building stays in it. When an agent publishes with a predicate that it built
  from \<open>smart_building::audience\<close>, with any further clauses, and the CA's policy reserves the building
  identifier to the CA, then whatever agent accepts a delivery of that publication was approved by the
  CA for exactly that building, and reads the published fields.\<close>

theorem audience_stays_in_building:
  assumes "crypto_laws C" "view_ok (ps_view store)" "policy_wf p" "authority_policy ca = static_policy p"
    "ca_issued p (bytes_id building_BUILDING_ID)" "building_audience building = Inr b"
    "publish_request C publisher t (predicate_clauses (predicate_run calls b)) val r = (Inr frame, r')"
    "ca_x25519 (agent_ca publisher) = CaKeys_x25519_public C (authority_keys ca)"
    "view_keys (ps_view store) (agent_id publisher) = Some pkeys"
    "public_ed25519 pkeys = AgentKeys_verifying_key C (agent_keys publisher)"
    "process C persistent_store ca frame now (store, rng) = (Inr (Deliveries ds), (store', rng'))" "frame' \<in> set ds"
    "ca_ed25519 (agent_ca agent) = CaKeys_verifying_key C (authority_keys ca)"
    "\<forall>keys. view_keys (ps_view store) (agent_id agent) = Some keys \<longrightarrow>
       public_x25519 keys = AgentKeys_x25519_public C (agent_keys agent)"
    "receive C mark agent frame' h replay later = (Inr d, replay')"
  shows "bt_get (policy_approvals p) (agent_id agent, bytes_id building_BUILDING_ID) = Some (Attr_Bytes building) \<and>
    delivery_publisher d = agent_id publisher \<and> delivery_type_id d = t \<and> delivery_value d = val"
proof -
  have start: "building_subscription building = Inr b \<or> building_audience building = Inr b" using assms(6) by simp
  have clause: "\<lparr>clause_attribute = bytes_id building_BUILDING_ID, clause_operator = Operator_Eq, clause_value = Value_Bytes building\<rparr>
      \<in> set (predicate_clauses (predicate_run calls b))"
    using building_start(2) [OF start] predicate_run_ok(2) [OF building_start(1) [OF start]] by blast
  note approved = ps.audience_approved [OF assms(1-4,7-15) clause]
  have "v = Attr_Bytes building" if "value_of v = Value_Bytes building" for v using that by (cases v) simp_all
  with approved assms(5) show ?thesis by auto
qed

text \<open>The demonstration world's publisher addresses building 7, for which the CA approved the subscriber.\<close>

theorem audience_stays_witness:
  "\<exists>b frame f d replay' store' rng'. building_audience [7] = Inr b \<and>
     publish_request toy_crypto (demo_agent (AgentId 5) 11 12) (TypeId 9) (predicate_clauses b) [42] 7 = (Inr frame, 10) \<and>
     process toy_crypto persistent_store demo_ca frame 0 (demo_store, 7) = (Inr (Deliveries [f]), (store', rng')) \<and>
     receive toy_crypto fixed_check_and_mark demo_subscriber f (HandlerId 3) (FixedReplayCache_new 1 10) 5 = (Inr d, replay') \<and>
     bt_get (policy_approvals pair_policy) (AgentId 6, AttributeId 0x1001) = Some (Attr_Bytes [7]) \<and> delivery_value d = [42]"
proof -
  let ?c = "\<lparr>clause_attribute = AttributeId 0x1001, clause_operator = Operator_Eq, clause_value = Value_Bytes [7]\<rparr>"
  obtain b where b: "building_audience [7] = Inr b" "predicate_clauses b = [?c]"
    by (simp add: building_audience_def predicate_bytes_clause_def clause_push_def ClauseBuilder_new_def const_defs
        predicate_clauses_def building_BUILDING_ID_def eval_nat_numeral)
  have cs: "clauses_valid [?c]" by (simp add: clauses_valid_def const_defs)
  have "predicate_evaluate (predicate_of [?c]) (environment_of pair_environment)"
    using pair_environment_valid by (subst predicate_evaluate_of) (simp_all add: cs clause_holds_def pair_environment_def)
  from demo_delivered_for [OF cs this] obtain frame f store' rng' where
    run: "process toy_crypto persistent_store demo_ca frame 0 (demo_store, 7) = (Inr (Deliveries [f]), (store', rng'))"
    and request: "publish_request toy_crypto (demo_agent (AgentId 5) 11 12) (TypeId 9) (predicate_clauses (predicate_run [] b)) [42] 7 =
      (Inr frame, 10)"
    unfolding b(2) [symmetric] by (auto simp: predicate_run_def)
  from demo_received [OF run] obtain d replay' where received:
    "receive toy_crypto fixed_check_and_mark demo_subscriber f (HandlerId 3) (FixedReplayCache_new 1 10) 5 = (Inr d, replay')" by blast
  have policy: "authority_policy demo_ca = static_policy pair_policy" "ca_issued pair_policy (bytes_id building_BUILDING_ID)"
    by (simp_all add: demo_ca_def ca_issued_def pair_policy_eq building_BUILDING_ID_def bt_get_def)
  let ?publisher = "demo_agent (AgentId 5) 11 12"
  have keys: "ca_x25519 (agent_ca ?publisher) = CaKeys_x25519_public toy_crypto (authority_keys demo_ca)"
    "view_keys (ps_view demo_store) (agent_id ?publisher) = Some \<lparr>public_ed25519 = 11, public_x25519 = 12\<rparr>"
    "public_ed25519 \<lparr>public_ed25519 = 11, public_x25519 = 12\<rparr> = AgentKeys_verifying_key toy_crypto (agent_keys ?publisher)"
    by (simp_all add: demo_agent_def demo_ca_def CaKeys_x25519_public_def CaKeys_from_seeds_def toy_crypto_def
        ps_view_def demo_store_def demo_state_def bt_get_def AgentKeys_verifying_key_def AgentKeys_from_seeds_def)
  from audience_stays_in_building [OF toy_crypto_laws demo_view_ok pair_policy_wf policy b(1) request keys run _
      demo_subscriber_keys(2,4) received]
  have "bt_get (policy_approvals pair_policy) (AgentId 6, AttributeId 0x1001) = Some (Attr_Bytes [7]) \<and> delivery_value d = [42]"
    by (simp add: demo_subscriber_keys(1) building_BUILDING_ID_def)
  with b(1) request run received show ?thesis by (auto simp: predicate_run_def)
qed

end
