(* ===== verification/Transports.thy ===== *)
theory Transports
  imports Boundary Framing
begin

text \<open>
  The agent on its transports: \<open>EmbassyFramedTransport\<close> and \<open>FramedTransport\<close> as implementations of the trait
  \<open>AsyncTransport\<close>, and the subscription methods of \<open>agent-core\<close> over them. What the methods rely on is the
  locale \<open>async_transport\<close>; both transports interpret it. Time passes while a transport
  waits: each \<open>receive\<close> moves to the next reading of the clock.
\<close>

section \<open>The transports\<close>

record 't world =
  world_transport :: 't
  world_clock :: "nat \<Rightarrow> u64"

definition now_seconds :: "'t world \<Rightarrow> u64" where
  "now_seconds w = world_clock w 0"

definition waited :: "'t \<Rightarrow> 't world \<Rightarrow> 't world" where
  "waited t w = \<lparr>world_transport = t, world_clock = (\<lambda>i. world_clock w (Suc i))\<rparr>"

record 'e EmbassyFramedTransport =
  embassy_stream :: "'e stream"
  embassy_deadline :: "nat option"

definition EmbassyFramedTransport_new :: "'e stream \<Rightarrow> 'e EmbassyFramedTransport" where
  "EmbassyFramedTransport_new stream = \<lparr>embassy_stream = stream, embassy_deadline = None\<rparr>"

definition EmbassyFramedTransport_with_timeout :: "'e stream \<Rightarrow> nat \<Rightarrow> 'e EmbassyFramedTransport" where
  "EmbassyFramedTransport_with_timeout stream deadline = \<lparr>embassy_stream = stream, embassy_deadline = Some deadline\<rparr>"

definition embassy_into_inner :: "'e EmbassyFramedTransport \<Rightarrow> 'e stream" where
  "embassy_into_inner t = embassy_stream t"

definition embassy_platform :: "('e EmbassyFramedTransport world, 'e EmbassyTransportError) platform" where
  "embassy_platform =
     \<lparr>transport_send = (\<lambda>frame w.
        let t = world_transport w; (result, stream) = embassy_send (embassy_deadline t \<noteq> None) frame (embassy_stream t) in
        (result, w\<lparr>world_transport := t\<lparr>embassy_stream := stream\<rparr>\<rparr>)),
      transport_receive = (\<lambda>buffer w.
        let t = world_transport w;
            (result, buffer, stream) = embassy_receive (embassy_deadline t \<noteq> None) buffer (embassy_stream t) in
        (result, buffer, waited (t\<lparr>embassy_stream := stream\<rparr>) w)),
      clock_now_seconds = now_seconds\<rparr>"

text \<open>The tokio transport holds what its \<open>Framed\<close> will yield; the deadline is part of each event. After the last one the peer has closed.\<close>

record 'e FramedTransport =
  framed_incoming :: "'e next_event list"
  framed_outgoing :: "'e send_event list"
  framed_sent :: "bytes list"

definition next_incoming :: "'e FramedTransport \<Rightarrow> 'e next_event" where
  "next_incoming t = (case framed_incoming t of [] \<Rightarrow> Next_end | event # _ \<Rightarrow> event)"

definition next_outgoing :: "'e FramedTransport \<Rightarrow> 'e send_event" where
  "next_outgoing t = (case framed_outgoing t of [] \<Rightarrow> Sent | event # _ \<Rightarrow> event)"

definition tokio_platform :: "('e FramedTransport world, 'e TransportError) platform" where
  "tokio_platform =
     \<lparr>transport_send = (\<lambda>frame w.
        let t = world_transport w in
        case tokio_send (next_outgoing t) frame of
          Inl Transport_InvalidFrame \<Rightarrow> (Inl Transport_InvalidFrame, w)
        | Inl e \<Rightarrow> (Inl e, w\<lparr>world_transport := t\<lparr>framed_outgoing := tl (framed_outgoing t)\<rparr>\<rparr>)
        | Inr sent \<Rightarrow> (Inr (), w\<lparr>world_transport := t\<lparr>framed_outgoing := tl (framed_outgoing t), framed_sent := framed_sent t @ [sent]\<rparr>\<rparr>)),
      transport_receive = (\<lambda>buffer w.
        let t = world_transport w; (result, buffer) = tokio_receive_into (next_incoming t) buffer in
        (result, buffer, waited (t\<lparr>framed_incoming := tl (framed_incoming t)\<rparr>) w)),
      clock_now_seconds = now_seconds\<rparr>"

section \<open>The contract\<close>

text \<open>Frames with the time at which they are looked at.\<close>

fun stamped :: "(nat \<Rightarrow> u64) \<Rightarrow> bytes list \<Rightarrow> (bytes \<times> u64) list" where
  "stamped clock [] = []"
| "stamped clock (frame # frames) = (frame, clock 1) # stamped (\<lambda>i. clock (Suc i)) frames"

locale async_transport =
  fixes P :: "('w, 'e) platform" and good :: "'w \<Rightarrow> bool" and arriving :: "'w \<Rightarrow> (bytes \<times> u64) list" and sent :: "'w \<Rightarrow> bytes list \<Rightarrow> bool"
  assumes receive_next: "good w \<Longrightarrow> arriving w = (frame, t) # later \<Longrightarrow> MAX_FRAME_LEN \<le> length buffer \<Longrightarrow>
      \<exists>w'. transport_receive P buffer w = (Inr (length frame), frame @ drop (length frame) buffer, w') \<and>
        length frame \<le> MAX_FRAME_LEN \<and> good w' \<and> arriving w' = later \<and> clock_now_seconds P w' = t \<and> (\<forall>frames. sent w frames \<longrightarrow> sent w' frames)"
    and receive_none: "good w \<Longrightarrow> arriving w = [] \<Longrightarrow> MAX_FRAME_LEN \<le> length buffer \<Longrightarrow>
      \<exists>e buffer' w'. transport_receive P buffer w = (Inl e, buffer', w') \<and> (\<forall>frames. sent w frames \<longrightarrow> sent w' frames)"
    and send_frame: "good w \<Longrightarrow> transport_send P frame w = (Inr (), w') \<Longrightarrow>
      good w' \<and> arriving w' = arriving w \<and> (\<forall>frames. sent w frames \<longrightarrow> sent w' (frames @ [frame]))"

text \<open>What a subscriber does with frames: the deliveries it hands over, its replay memory, and the error that stops it before the
  transport does.\<close>

fun handle_frames ::
  "'r crypto \<Rightarrow> 's mark \<Rightarrow> Agent \<Rightarrow> TypeId \<Rightarrow> HandlerId \<Rightarrow> (bytes \<times> u64) list \<Rightarrow> 's \<Rightarrow> Delivery list \<times> 's \<times> Error option" where
  "handle_frames C mark agent type_id handler [] replay = ([], replay, None)"
| "handle_frames C mark agent type_id handler ((frame, now) # frames) replay =
     (case receive C mark agent frame handler replay now of
        (Inl e, replay) \<Rightarrow> ([], replay, Some e)
      | (Inr d, replay) \<Rightarrow>
          if delivery_type_id d \<noteq> type_id then ([], replay, Some WrongMessageType)
          else let (ds, replay, stop) = handle_frames C mark agent type_id handler frames replay in (d # ds, replay, stop))"

definition stopped_by :: "Error option \<Rightarrow> 'e SubscriptionError \<Rightarrow> bool" where
  "stopped_by stop err \<longleftrightarrow> (case stop of Some e \<Rightarrow> err = Protocol e | None \<Rightarrow> \<exists>e. err = Transport e)"

context async_transport begin

lemma receive_delivery_next:
  assumes "good (sub_world st)" "arriving (sub_world st) = (frame, t) # later" "MAX_FRAME_LEN \<le> length (sub_frame st)"
  obtains st' where "good (sub_world st')" "arriving (sub_world st') = later" "MAX_FRAME_LEN \<le> length (sub_frame st')"
    "\<forall>frames. sent (sub_world st) frames \<longrightarrow> sent (sub_world st') frames"
    "receive_delivery C mark P agent type_id handler st =
       (let (delivered, replay) = receive C mark agent frame handler (sub_replay st) t; st' = st'\<lparr>sub_replay := replay\<rparr> in
        tryS (map_err Protocol delivered, st') (\<lambda>delivery st.
        if delivery_type_id delivery \<noteq> type_id then (Inl (Protocol WrongMessageType), st) else (Inr delivery, st)))"
proof -
  from receive_next [OF assms] obtain w' where w': "transport_receive P (sub_frame st) (sub_world st) =
      (Inr (length frame), frame @ drop (length frame) (sub_frame st), w')"
    "length frame \<le> MAX_FRAME_LEN" "good w'" "arriving w' = later" "clock_now_seconds P w' = t"
    "\<forall>frames. sent (sub_world st) frames \<longrightarrow> sent w' frames" by blast
  let ?st = "st\<lparr>sub_frame := frame @ drop (length frame) (sub_frame st), sub_world := w'\<rparr>"
  show thesis
  proof (rule that [of ?st])
    show "receive_delivery C mark P agent type_id handler st =
       (let (delivered, replay) = receive C mark agent frame handler (sub_replay st) t; st' = ?st\<lparr>sub_replay := replay\<rparr> in
        tryS (map_err Protocol delivered, st') (\<lambda>delivery st.
        if delivery_type_id delivery \<noteq> type_id then (Inl (Protocol WrongMessageType), st) else (Inr delivery, st)))"
      by (simp add: receive_delivery_def w'(1,5))
  qed (use w' assms(3) in simp_all)
qed

text \<open>The endless loop ends with the transport's failure or the first frame it refuses, and the handler has seen exactly the deliveries before.\<close>

lemma permanent_loop_handles:
  assumes "good (sub_world st)" "MAX_FRAME_LEN \<le> length (sub_frame st)"
    "handle_frames C mark agent type_id handler (arriving (sub_world st)) (sub_replay st) = (ds, replay, stop)"
  shows "\<exists>err st'. permanent_loop C mark P agent type_id handler on_publication st h = Some (err, st', fold on_publication ds h) \<and>
    sub_replay st' = replay \<and> stopped_by stop err \<and> (\<forall>frames. sent (sub_world st) frames \<longrightarrow> sent (sub_world st') frames)"
  using assms
proof (induction "arriving (sub_world st)" arbitrary: st ds h)
  case Nil
  from receive_none [OF Nil(2) Nil(1) [symmetric] Nil(3)] obtain e buffer w' where
    "transport_receive P (sub_frame st) (sub_world st) = (Inl e, buffer, w')" "\<forall>frames. sent (sub_world st) frames \<longrightarrow> sent w' frames" by blast
  with Nil(1,4) show ?case
    by (subst permanent_loop.simps) (auto simp: receive_delivery_def stopped_by_def)
next
  case (Cons item later)
  obtain frame t where item: "item = (frame, t)" by fastforce
  obtain delivered replay1 where r: "receive C mark agent frame handler (sub_replay st) t = (delivered, replay1)" by fastforce
  from receive_delivery_next [OF Cons(3) Cons(2) [symmetric, unfolded item] Cons(4), of C mark agent type_id handler]
  obtain st1 where st1: "good (sub_world st1)" "arriving (sub_world st1) = later" "MAX_FRAME_LEN \<le> length (sub_frame st1)"
    "\<forall>frames. sent (sub_world st) frames \<longrightarrow> sent (sub_world st1) frames"
    "receive_delivery C mark P agent type_id handler st =
       (let st' = st1\<lparr>sub_replay := replay1\<rparr> in
        tryS (map_err Protocol delivered, st') (\<lambda>delivery st.
        if delivery_type_id delivery \<noteq> type_id then (Inl (Protocol WrongMessageType), st) else (Inr delivery, st)))"
    using r by auto
  have run: "handle_frames C mark agent type_id handler ((frame, t) # later) (sub_replay st) = (ds, replay, stop)"
    using Cons(5) Cons(2) [symmetric] item by simp
  show ?case
  proof (cases "\<exists>d. delivered = Inr d \<and> delivery_type_id d = type_id")
    case False
    with run r st1(5) obtain e where "stop = Some e" "ds = []" "replay = replay1"
      "receive_delivery C mark P agent type_id handler st = (Inl (Protocol e), st1\<lparr>sub_replay := replay1\<rparr>)"
      by (cases delivered) auto
    with st1(4) show ?thesis by (subst permanent_loop.simps) (simp add: stopped_by_def)
  next
    case True
    then obtain d where d: "delivered = Inr d" "delivery_type_id d = type_id" by blast
    let ?st = "st1\<lparr>sub_replay := replay1\<rparr>"
    obtain ds1 where ds1: "handle_frames C mark agent type_id handler later replay1 = (ds1, replay, stop)" "ds = d # ds1"
      using run r d by (auto split: prod.splits)
    have "permanent_loop C mark P agent type_id handler on_publication st h =
        permanent_loop C mark P agent type_id handler on_publication ?st (on_publication d h)"
      by (subst permanent_loop.simps) (simp add: st1(5) d)
    moreover from Cons(1) [of ?st ds1 "on_publication d h"] st1(1-3) ds1(1) obtain err st' where
      "permanent_loop C mark P agent type_id handler on_publication ?st (on_publication d h) = Some (err, st', fold on_publication ds1 (on_publication d h))"
      "sub_replay st' = replay" "stopped_by stop err" "\<forall>frames. sent (sub_world ?st) frames \<longrightarrow> sent (sub_world st') frames" by auto
    ultimately show ?thesis using ds1(2) st1(4) by auto
  qed
qed

lemma subscribe_permanent_handles:
  assumes "good (sub_world st)" "sent (sub_world st) frames"
    "subscribe_permanent_into C agent (sub_frame st) type_id handler predicate (sub_rng st) = (Inr n, request, rng)" "MAX_FRAME_LEN \<le> length request"
    "transport_send P (take n request) (sub_world st) = (Inr (), w)"
    "handle_frames C mark agent type_id handler (arriving (sub_world st)) (sub_replay st) = (ds, replay, stop)"
  shows "\<exists>err st'. subscribe_permanent C mark P agent type_id handler predicate on_publication st h =
      Some (err, st', fold on_publication ds h) \<and> sub_replay st' = replay \<and> stopped_by stop err \<and> sent (sub_world st') (frames @ [take n request])"
proof -
  let ?st = "st\<lparr>sub_frame := request, sub_rng := rng, sub_world := w\<rparr>"
  have "subscribe_permanent C mark P agent type_id handler predicate on_publication st h =
      permanent_loop C mark P agent type_id handler on_publication ?st h"
    using assms(3,5) by (simp add: subscribe_permanent_def send_request_def)
  moreover have "good (sub_world ?st)" "arriving (sub_world ?st) = arriving (sub_world st)" "sent (sub_world ?st) (frames @ [take n request])"
    using send_frame [OF assms(1,5)] assms(2) by auto
  ultimately show ?thesis
    using permanent_loop_handles [of ?st C mark agent type_id handler ds replay stop on_publication h] assms(4,6) by auto
qed

end

section \<open>Both transports keep it\<close>

text \<open>The frames of a byte stream, up to the first that is incomplete or too long.\<close>

function stream_frames :: "bytes \<Rightarrow> bytes list" where
  "stream_frames input =
     (let n = be_value (take 4 input) in
      if length input < 4 \<or> MAX_FRAME_LEN < n \<or> length input < 4 + n then []
      else take n (drop 4 input) # stream_frames (drop (4 + n) input))"
  by pat_completeness auto
termination by (relation "measure length") auto

declare stream_frames.simps [simp del]

fun tokio_frames :: "'e next_event list \<Rightarrow> bytes list" where
  "tokio_frames (Next_frame frame # events) = (if length frame \<le> MAX_FRAME_LEN then frame # tokio_frames events else [])"
| "tokio_frames _ = []"

lemma stream_frames_framed:
  assumes "length frame \<le> MAX_FRAME_LEN"
  shows "stream_frames (framed frame @ rest) = frame # stream_frames rest"
proof -
  have "receive_spec (replicate MAX_FRAME_LEN 0) (framed frame @ rest) =
      (Inr (length frame) :: unit EmbassyTransportError + usize, frame @ drop (length frame) (replicate MAX_FRAME_LEN 0), rest)"
    by (rule receive_framed [OF assms]) simp
  then have "be_value (take 4 (framed frame @ rest)) = length frame" by (auto simp: receive_spec_def Let_def split: if_splits)
  then show ?thesis using assms by (subst stream_frames.simps) (simp add: framed_def)
qed

lemma stream_frames_concat:
  "\<forall>frame\<in>set frames. length frame \<le> MAX_FRAME_LEN \<Longrightarrow> stream_frames (concat (map framed frames)) = frames"
proof (induction frames)
  case Nil
  show ?case by (subst stream_frames.simps) simp
qed (simp add: stream_frames_framed)

lemma receive_spec_frames:
  assumes "MAX_FRAME_LEN \<le> length buffer"
  shows "stream_frames input = frame # frames \<Longrightarrow>
      \<exists>rest. receive_spec buffer input = (Inr (length frame), frame @ drop (length frame) buffer, rest) \<and>
        length frame \<le> MAX_FRAME_LEN \<and> stream_frames rest = frames"
    and "stream_frames input = [] \<Longrightarrow> \<exists>e buffer' rest. receive_spec buffer input = (Inl e, buffer', rest)"
  using assms by (subst (asm) stream_frames.simps, auto simp: receive_spec_def Let_def add.commute split: if_splits)+

lemma embassy_receive_frames:
  fixes s :: "'e stream"
  assumes "clean timed (stream_reads s)" "MAX_FRAME_LEN \<le> length buffer"
  shows "stream_frames (stream_bytes (stream_reads s)) = frame # frames \<Longrightarrow>
      \<exists>s'. embassy_receive timed buffer s = (Inr (length frame), frame @ drop (length frame) buffer, s') \<and> length frame \<le> MAX_FRAME_LEN \<and>
        clean timed (stream_reads s') \<and> stream_frames (stream_bytes (stream_reads s')) = frames \<and> stream_written s' = stream_written s"
    and "stream_frames (stream_bytes (stream_reads s)) = [] \<Longrightarrow>
      \<exists>e buffer' s'. embassy_receive timed buffer s = (Inl e, buffer', s') \<and> stream_written s' = stream_written s"
proof -
  let ?input = "stream_bytes (stream_reads s)"
  assume "stream_frames ?input = frame # frames"
  from receive_spec_frames(1) [OF assms(2) this] obtain rest where
    "receive_spec buffer ?input = (Inr (length frame) :: 'e EmbassyTransportError + usize, frame @ drop (length frame) buffer, rest)"
    "length frame \<le> MAX_FRAME_LEN" "stream_frames rest = frames" by blast
  with receive_clean [OF assms(1) this(1)]
  show "\<exists>s'. embassy_receive timed buffer s = (Inr (length frame), frame @ drop (length frame) buffer, s') \<and> length frame \<le> MAX_FRAME_LEN \<and>
      clean timed (stream_reads s') \<and> stream_frames (stream_bytes (stream_reads s')) = frames \<and> stream_written s' = stream_written s" by auto
next
  let ?input = "stream_bytes (stream_reads s)"
  assume "stream_frames ?input = []"
  from receive_spec_frames(2) [OF assms(2) this] obtain e buffer' rest where
    "receive_spec buffer ?input = (Inl e :: 'e EmbassyTransportError + usize, buffer', rest)" by blast
  from receive_clean [OF assms(1) this]
  show "\<exists>e buffer' s'. embassy_receive timed buffer s = (Inl e, buffer', s') \<and> stream_written s' = stream_written s" by auto
qed

lemma write_all_reads: "stream_write_all timed bs s = (result, s') \<Longrightarrow> stream_reads s' = stream_reads s"
  by (auto simp: stream_write_all_def Let_def split: list.splits write_event.splits if_splits)

lemma embassy_send_reads: "embassy_send timed frame s = (Inr u, s') \<Longrightarrow> stream_reads s' = stream_reads s"
  by (auto simp: embassy_send_def write_frame_def tryS_Inr_iff dest!: write_all_reads split: if_splits)

lemma embassy_send_effect: "embassy_send timed frame s = (Inr u, s') \<Longrightarrow>
    stream_reads s' = stream_reads s \<and> stream_written s' = stream_written s @ framed frame"
  using send_ok [of timed frame s s'] embassy_send_reads [of timed frame s u s'] by simp

definition embassy_good :: "'e EmbassyFramedTransport world \<Rightarrow> bool" where
  "embassy_good w = (let t = world_transport w in clean (embassy_deadline t \<noteq> None) (stream_reads (embassy_stream t)))"

definition embassy_arriving :: "'e EmbassyFramedTransport world \<Rightarrow> (bytes \<times> u64) list" where
  "embassy_arriving w = stamped (world_clock w) (stream_frames (stream_bytes (stream_reads (embassy_stream (world_transport w)))))"

definition embassy_wrote :: "bytes \<Rightarrow> 'e EmbassyFramedTransport world \<Rightarrow> bytes list \<Rightarrow> bool" where
  "embassy_wrote before w frames \<longleftrightarrow> stream_written (embassy_stream (world_transport w)) = before @ concat (map framed frames)"

definition tokio_arriving :: "'e FramedTransport world \<Rightarrow> (bytes \<times> u64) list" where
  "tokio_arriving w = stamped (world_clock w) (tokio_frames (framed_incoming (world_transport w)))"

definition tokio_wrote :: "bytes list \<Rightarrow> 'e FramedTransport world \<Rightarrow> bytes list \<Rightarrow> bool" where
  "tokio_wrote before w frames \<longleftrightarrow> framed_sent (world_transport w) = before @ frames"

lemma stamped_Cons: "stamped clock frames = (frame, t) # later \<longleftrightarrow>
    (\<exists>rest. frames = frame # rest \<and> t = clock 1 \<and> later = stamped (\<lambda>i. clock (Suc i)) rest)"
  by (cases frames) auto

lemma stamped_Nil: "stamped clock frames = [] \<longleftrightarrow> frames = []"
  by (cases frames) auto

interpretation embassy: async_transport embassy_platform embassy_good embassy_arriving "embassy_wrote before" for before
proof (unfold_locales, goal_cases)
  case (1 w frame t later buffer)
  let ?t = "world_transport w"
  from 1(2) obtain rest where rest: "stream_frames (stream_bytes (stream_reads (embassy_stream ?t))) = frame # rest"
    "t = world_clock w 1" "later = stamped (\<lambda>i. world_clock w (Suc i)) rest"
    by (auto simp: embassy_arriving_def stamped_Cons)
  with embassy_receive_frames(1) [OF 1(1) [unfolded embassy_good_def Let_def] 1(3) rest(1)] show ?case
    by (auto simp: embassy_platform_def embassy_good_def embassy_arriving_def embassy_wrote_def waited_def now_seconds_def Let_def)
next
  case (2 w buffer)
  from 2(2) have "stream_frames (stream_bytes (stream_reads (embassy_stream (world_transport w)))) = []"
    by (simp add: embassy_arriving_def stamped_Nil)
  with embassy_receive_frames(2) [OF 2(1) [unfolded embassy_good_def Let_def] 2(3)] show ?case
    by (auto simp: embassy_platform_def embassy_wrote_def waited_def Let_def)
next
  case (3 w frame w')
  then show ?case
    by (auto simp: embassy_platform_def embassy_good_def embassy_arriving_def embassy_wrote_def Let_def split: prod.splits
        dest!: embassy_send_effect)
qed

interpretation tokio: async_transport tokio_platform "\<lambda>_. True" tokio_arriving "tokio_wrote before" for before
proof (unfold_locales, goal_cases)
  case (1 w frame t later buffer)
  then show ?case
    by (cases "framed_incoming (world_transport w)"; cases "hd (framed_incoming (world_transport w))")
      (auto simp: tokio_platform_def tokio_arriving_def tokio_wrote_def waited_def now_seconds_def next_incoming_def tokio_receive_into_def
        split: if_splits)
next
  case (2 w buffer)
  then show ?case
    by (cases "framed_incoming (world_transport w)"; cases "hd (framed_incoming (world_transport w))")
      (auto simp: tokio_platform_def tokio_arriving_def tokio_wrote_def waited_def next_incoming_def tokio_receive_into_def split: if_splits)
next
  case (3 w frame w')
  then show ?case
    by (auto simp: tokio_platform_def tokio_arriving_def tokio_wrote_def Let_def tokio_send_def
        split: sum.splits TransportError.splits send_event.splits if_splits)
qed

lemma permanent_request:
  assumes "crypto_laws C" "ca_x25519 (agent_ca agent) = x_public C ca_secret" "MAX_FRAME_LEN \<le> length buffer"
    "subscribe_permanent_into C agent buffer type_id handler predicate rng = (Inr n, request, rng')"
  shows "length request = length buffer"
    "open_in_place C (take n request) AgentId_CA MT_SubscribePermanent (ed_public C (keys_signing (agent_keys agent))) ca_secret =
       Inr (operation_bytes (SubscribePermanent type_id predicate))"
proof -
  have "request_into C agent buffer MT_SubscribePermanent handler rng (\<lambda>plain. encode_operation plain (SubscribePermanent type_id predicate)) =
      (Inr n, request, rng')"
    using assms(4) by (simp add: subscribe_permanent_into_def split: if_splits)
  from request_opens [OF assms(1-3) this]
  have "length request = length buffer \<and>
      open_in_place C (take n request) AgentId_CA MT_SubscribePermanent (ed_public C (keys_signing (agent_keys agent))) ca_secret =
        Inr (operation_bytes (SubscribePermanent type_id predicate))" by metis
  then show "length request = length buffer"
    "open_in_place C (take n request) AgentId_CA MT_SubscribePermanent (ed_public C (keys_signing (agent_keys agent))) ca_secret =
       Inr (operation_bytes (SubscribePermanent type_id predicate))" by simp_all
qed

section \<open>Properties\<close>

text \<open>C12: a permanent subscription is the same program on both transports. When the request could be sent, \<open>subscribe_permanent\<close> sends
  exactly one frame, which the CA opens as the subscription; then the handler is called on exactly the deliveries that the frames of the
  stream carry up to the first that is refused, in order, however the network cuts the bytes. The method returns: with the protocol error
  of that frame, or with the transport's error where the frames end. Where the same frames arrive at the same times, both
  transports lead to the same calls and the same replay memory.\<close>

theorem subscription_over_transports:
  fixes stream :: "'e stream" and framed_transport :: "'f FramedTransport"
  assumes "crypto_laws C" "ca_x25519 (agent_ca agent) = x_public C ca_secret" "MAX_FRAME_LEN \<le> length buffer"
    "subscribe_permanent_into C agent buffer type_id handler predicate rng = (Inr n, request, rng')"
    "clean (deadline \<noteq> None) (stream_reads stream)" "embassy_send (deadline \<noteq> None) (take n request) stream = (Inr (), stream')"
    "tokio_send (next_outgoing framed_transport) (take n request) = Inr (take n request)"
    "stream_frames (stream_bytes (stream_reads stream)) = tokio_frames (framed_incoming framed_transport)"
    "handle_frames C mark agent type_id handler (stamped clock (tokio_frames (framed_incoming framed_transport))) replay = (ds, replay', stop)"
  shows "\<exists>err st err' st'.
    subscribe_permanent C mark embassy_platform agent type_id handler predicate on_publication
      \<lparr>sub_world = \<lparr>world_transport = \<lparr>embassy_stream = stream, embassy_deadline = deadline\<rparr>, world_clock = clock\<rparr>,
       sub_replay = replay, sub_rng = rng, sub_frame = buffer\<rparr> h = Some (err, st, fold on_publication ds h) \<and>
    subscribe_permanent C mark tokio_platform agent type_id handler predicate on_publication
      \<lparr>sub_world = \<lparr>world_transport = framed_transport, world_clock = clock\<rparr>, sub_replay = replay, sub_rng = rng, sub_frame = buffer\<rparr> h =
      Some (err', st', fold on_publication ds h) \<and>
    stopped_by stop err \<and> stopped_by stop err' \<and> sub_replay st = replay' \<and> sub_replay st' = replay' \<and>
    stream_written (embassy_stream (world_transport (sub_world st))) = stream_written stream @ framed (take n request) \<and>
    framed_sent (world_transport (sub_world st')) = framed_sent framed_transport @ [take n request] \<and>
    open_in_place C (take n request) AgentId_CA MT_SubscribePermanent (ed_public C (keys_signing (agent_keys agent))) ca_secret =
      Inr (operation_bytes (SubscribePermanent type_id predicate))"
proof -
  let ?embassy = "\<lparr>sub_world = \<lparr>world_transport = \<lparr>embassy_stream = stream, embassy_deadline = deadline\<rparr>, world_clock = clock\<rparr>,
    sub_replay = replay, sub_rng = rng, sub_frame = buffer\<rparr>"
  let ?tokio = "\<lparr>sub_world = \<lparr>world_transport = framed_transport, world_clock = clock\<rparr>, sub_replay = replay, sub_rng = rng, sub_frame = buffer\<rparr>"
  note request = permanent_request [OF assms(1-4)]
  have "\<exists>err st. subscribe_permanent C mark embassy_platform agent type_id handler predicate on_publication ?embassy h =
      Some (err, st, fold on_publication ds h) \<and> sub_replay st = replay' \<and> stopped_by stop err \<and>
      embassy_wrote (stream_written stream) (sub_world st) ([] @ [take n request])"
    by (rule embassy.subscribe_permanent_handles)
      (use assms request(1) in \<open>auto simp: embassy_good_def embassy_wrote_def embassy_arriving_def embassy_platform_def\<close>)
  moreover have "\<exists>err st. subscribe_permanent C mark tokio_platform agent type_id handler predicate on_publication ?tokio h =
      Some (err, st, fold on_publication ds h) \<and> sub_replay st = replay' \<and> stopped_by stop err \<and>
      tokio_wrote (framed_sent framed_transport) (sub_world st) ([] @ [take n request])"
    by (rule tokio.subscribe_permanent_handles)
      (use assms request(1) in \<open>auto simp: tokio_wrote_def tokio_arriving_def tokio_platform_def\<close>)
  ultimately show ?thesis using request(2) by (auto simp: embassy_wrote_def tokio_wrote_def)
qed

text \<open>One delivery, cut into two chunks on the embedded side, and then the end of the stream.\<close>

theorem subscription_over_transports_witness:
  "\<exists>frame d err st err' st'.
    subscribe_permanent toy_crypto fixed_check_and_mark embassy_platform (demo_agent (AgentId 5) 11 12) (TypeId 9) (HandlerId 3) []
      (\<lambda>d ds. ds @ [d])
      \<lparr>sub_world = \<lparr>world_transport = EmbassyFramedTransport_with_timeout (\<lparr>stream_reads = [Data (take 7 (framed frame)), Data (drop 7 (framed frame))],
         stream_writes = [], stream_written = []\<rparr> :: unit stream) 10, world_clock = (\<lambda>i. of_nat i)\<rparr>,
       sub_replay = FixedReplayCache_new 2 10, sub_rng = 1, sub_frame = replicate MAX_FRAME_LEN 0\<rparr> [] = Some (Transport err, st, [d]) \<and>
    subscribe_permanent toy_crypto fixed_check_and_mark tokio_platform (demo_agent (AgentId 5) 11 12) (TypeId 9) (HandlerId 3) []
      (\<lambda>d ds. ds @ [d])
      \<lparr>sub_world = \<lparr>world_transport = \<lparr>framed_incoming = [Next_frame frame :: unit next_event], framed_outgoing = [], framed_sent = []\<rparr>,
         world_clock = (\<lambda>i. of_nat i)\<rparr>, sub_replay = FixedReplayCache_new 2 10, sub_rng = 1, sub_frame = replicate MAX_FRAME_LEN 0\<rparr> [] =
      Some (Transport err', st', [d]) \<and> delivery_value d = [42]"
proof -
  let ?agent = "demo_agent (AgentId 5) 11 12"
  have new: "FixedReplayCache_new 2 10 = \<lparr>fixed_entries = [None, None], fixed_ttl_seconds = 10\<rparr>"
    by (simp add: FixedReplayCache_new_def numeral_2_eq_2)
  let ?cache = "\<lparr>fixed_entries = [Some \<lparr>replay_sender = AgentId_CA, replay_session = SessionId 6, replay_expires_at = 11\<rparr>, None], fixed_ttl_seconds = 10\<rparr>"
  let ?d = "\<lparr>delivery_type_id = TypeId 9, delivery_publisher = AgentId 4, delivery_handler = HandlerId 3, delivery_value = [42]\<rparr>"
  obtain frame where frame: "receive toy_crypto fixed_check_and_mark ?agent frame (HandlerId 3) (FixedReplayCache_new 2 10) 1 = (Inr ?d, ?cache)"
    by (rule receive_sealed_response [where C = toy_crypto and agent = ?agent and s = AgentId_CA and eph = 1 and
          seed = 21 and i = "SessionId 6" and h = "HandlerId 3" and mark = fixed_check_and_mark and
          replay = "FixedReplayCache_new 2 10" and now = 1 and t = "TypeId 9" and publisher = "AgentId 4" and val = "[42]"])
      (simp_all add: toy_crypto_laws new, simp_all add: toy_crypto_def demo_agent_def AgentKeys_from_seeds_def const_defs HandlerId_NONE_def
        fixed_check_and_mark_def expire_entry_def saturating_add_def)
  have len: "length frame \<le> MAX_FRAME_LEN" "148 \<le> length frame"
    using frame by (auto simp: receive_Inr_iff parse_envelope_def const_defs split: if_splits)
  let ?reads = "[Data (take 7 (framed frame)), Data (drop 7 (framed frame))] :: unit read_event list"
  have "7 < length (framed frame)" using len(2) by (simp add: framed_def)
  then have "take 7 (framed frame) \<noteq> []" "drop 7 (framed frame) \<noteq> []" by auto
  with stream_frames_concat [of "[frame]"] len(1)
  have bytes: "stream_frames (stream_bytes ?reads) = [frame]" "clean True ?reads" by simp_all
  have op: "operation_valid (SubscribePermanent (TypeId 9) [])" by (simp add: clauses_valid_def)
  have draws: "request_draws toy_crypto 1 = (1, 2, 3, 4)" by (simp add: request_draws_def toy_crypto_def)
  have keys: "ca_x25519 (agent_ca ?agent) = x_public toy_crypto 22" "x_dh toy_crypto 3 (x_public toy_crypto 22) \<noteq> 0"
    by (simp_all add: demo_agent_def toy_crypto_def)
  obtain e rest where request: "request_into toy_crypto ?agent (replicate MAX_FRAME_LEN 0) MT_SubscribePermanent (HandlerId 3) 1
      (\<lambda>plain. encode_operation plain (SubscribePermanent (TypeId 9) [])) = (Inr (length (frame_bytes e)), frame_bytes e @ rest, 4)"
    "parse_envelope (frame_bytes e) = Inr e"
    by (rule request_into_ok [OF toy_crypto_laws op _ draws keys]) auto
  have sub: "subscribe_permanent_into toy_crypto ?agent (replicate MAX_FRAME_LEN 0) (TypeId 9) (HandlerId 3) [] 1 =
      (Inr (length (frame_bytes e)), frame_bytes e @ rest, 4)"
    using request(1) by (simp add: subscribe_permanent_into_def HandlerId_NONE_def)
  have fits: "\<not> MAX_FRAME_LEN < length (frame_bytes e)" using request(2) by (simp add: parse_envelope_def const_defs split: if_splits)
  let ?stream = "\<lparr>stream_reads = ?reads, stream_writes = [], stream_written = []\<rparr>"
  let ?framed = "\<lparr>framed_incoming = [Next_frame frame :: unit next_event], framed_outgoing = [], framed_sent = []\<rparr>"
  let ?out = "take (length (frame_bytes e)) (frame_bytes e @ rest)"
  have send: "embassy_send (Some (10 :: nat) \<noteq> None) ?out ?stream = (Inr (), ?stream\<lparr>stream_written := framed (frame_bytes e)\<rparr>)"
    using fits by (simp add: embassy_send_def write_frame_def stream_write_all_def framed_def)
  have tokio: "tokio_send (next_outgoing ?framed) ?out = Inr ?out"
    using fits by (simp add: tokio_send_def next_outgoing_def)
  have same: "stream_frames (stream_bytes (stream_reads ?stream)) = tokio_frames (framed_incoming ?framed)"
    "clean (Some (10 :: nat) \<noteq> None) (stream_reads ?stream)" "MAX_FRAME_LEN \<le> length (replicate MAX_FRAME_LEN (0 :: u8))"
    using bytes len(1) by simp_all
  have run: "handle_frames toy_crypto fixed_check_and_mark ?agent (TypeId 9) (HandlerId 3)
      (stamped (\<lambda>i. of_nat i) (tokio_frames (framed_incoming ?framed))) (FixedReplayCache_new 2 10) = ([?d], ?cache, None)"
    using frame len(1) by simp
  from subscription_over_transports [OF toy_crypto_laws keys(1) same(3) sub same(2) send tokio same(1) run, of "\<lambda>d ds. ds @ [d]" "[]"]
  show ?thesis
    by (intro exI [of _ frame] exI [of _ ?d]) (auto simp: stopped_by_def EmbassyFramedTransport_with_timeout_def)
qed

end
