(* ===== verification/Daemon_loops.thy ===== *)
theory Daemon_loops
  imports Startup Transports Scenario
begin

text \<open>
  The two daemons as programs over their sockets: \<open>authenticate_broker\<close> and the accept loop of \<open>cad\<close>, and
  \<open>authenticate_ca\<close>, \<open>run_ca_session\<close> and \<open>maintain_ca_link\<close> of \<open>brokerd\<close>, composed of the turns of \<open>Cad\<close>
  and \<open>Session\<close>. A socket is what its \<open>Framed\<close> will yield and what becomes of each send; a session is the list of
  the branches its \<open>select!\<close> takes, with what other tasks do to the router in between. A function is \<open>None\<close> on a list that the
  code cannot follow: a branch whose guard is false, or a branch after the return.
\<close>

section \<open>Sockets\<close>

definition framed_next :: "'e FramedTransport \<Rightarrow> 'e next_event \<times> 'e FramedTransport" where
  "framed_next sock = (next_incoming sock, sock\<lparr>framed_incoming := tl (framed_incoming sock)\<rparr>)"

definition framed_send :: "bytes \<Rightarrow> 'e FramedTransport \<Rightarrow> bool \<times> 'e FramedTransport" where
  "framed_send frame sock =
     (let rest = sock\<lparr>framed_outgoing := tl (framed_outgoing sock)\<rparr> in
      case next_outgoing sock of
        Sent \<Rightarrow> (True, rest\<lparr>framed_sent := framed_sent sock @ [frame]\<rparr>)
      | _ \<Rightarrow> (False, rest))"

text \<open>The loops \<open>for frame in ...\<close> around \<open>send_link_frame\<close>, up to the first failure.\<close>

fun send_link_frames :: "bytes list \<Rightarrow> 'e FramedTransport \<Rightarrow> bool \<times> 'e FramedTransport" where
  "send_link_frames [] sock = (True, sock)"
| "send_link_frames (frame # frames) sock =
     (let (sent, sock) = framed_send frame sock in if sent then send_link_frames frames sock else (False, sock))"

definition random_id :: "array16 option \<Rightarrow> LinkError + MessageId" where
  "random_id fill = (case fill of None \<Rightarrow> Inl Authentication | Some ident \<Rightarrow> Inr (MessageId ident))"

definition handshake_frame :: "'e next_event \<Rightarrow> LinkError + bytes" where
  "handshake_frame event = (case event of Next_frame bs \<Rightarrow> Inr bs | _ \<Rightarrow> Inl Authentication)"

section \<open>The handshakes\<close>

definition authenticate_ca :: "(bytes \<Rightarrow> array32) \<Rightarrow> array32 \<Rightarrow> 'e FramedTransport \<Rightarrow> (LinkError + unit) \<times> 'e FramedTransport" where
  "authenticate_ca sha256 psk sock =
     (let (event, sock) = framed_next sock in
      tryS (handshake_frame event, sock) (\<lambda>incoming sock.
      tryS (answer_challenge sha256 psk incoming, sock) (\<lambda>(challenge, response) sock.
      let (sent, sock) = framed_send response sock in
      if \<not> sent then (Inl Authentication, sock)
      else
        let (event, sock) = framed_next sock in
        tryS (handshake_frame event, sock) (\<lambda>incoming sock. (accept_authentication challenge incoming, sock)))))"

text \<open>The two fills of the random source are arguments.\<close>

definition authenticate_broker_on ::
  "(bytes \<Rightarrow> array32) \<Rightarrow> array32 \<Rightarrow> array16 option \<Rightarrow> array32 option \<Rightarrow> 'e FramedTransport \<Rightarrow> (LinkError + unit) \<times> 'e FramedTransport" where
  "authenticate_broker_on sha256 psk id_fill bytes_fill sock =
     tryS (random_id id_fill, sock) (\<lambda>challenge sock.
     tryS (ok_or bytes_fill Authentication, sock) (\<lambda>challenge_bytes sock.
     tryS (challenge_frame challenge challenge_bytes, sock) (\<lambda>encoded sock.
     let (sent, sock) = framed_send encoded sock in
     if \<not> sent then (Inl InvalidFrame, sock)
     else
       let (event, sock) = framed_next sock in
       tryS (handshake_frame event, sock) (\<lambda>response sock.
       tryS (authenticate_broker sha256 psk challenge challenge_bytes response, sock) (\<lambda>accepted sock.
       let (sent, sock) = framed_send accepted sock in
       (if sent then Inr () else Inl InvalidFrame, sock))))))"

section \<open>The loops of the broker\<close>

datatype session_event = Takes "array16 option" | is_Arrives: Arrives "task_event list" | Ticks | Elsewhere task_event

definition session_turn ::
  "'c mpsc \<Rightarrow> 'q OfflineQueueStore \<Rightarrow> session_event \<Rightarrow> 'e FramedTransport \<times> ('c, 'q) ca_link
     \<Rightarrow> (bool \<times> 'e FramedTransport \<times> ('c, 'q) ca_link) option" where
  "session_turn Q off event st =
     (let (sock, s) = st in
      case event of
        Takes fill \<Rightarrow>
          (case link_request Q (random_id fill) s of
             None \<Rightarrow> None
           | Some (frames, s) \<Rightarrow> let (sent, sock) = send_link_frames frames sock in Some (sent, sock, s))
      | Arrives between \<Rightarrow>
          (case framed_next sock of
             (Next_frame bytes, sock) \<Rightarrow>
               let (go_on, frames, s) = link_incoming Q off between bytes s; (sent, sock) = send_link_frames frames sock in
               Some (go_on \<and> sent, sock, s)
           | (Next_elapsed, _) \<Rightarrow> None
           | (_, sock) \<Rightarrow> Some (False, sock, s))
      | Ticks \<Rightarrow>
          if pending_is_empty (link_pending s) then None
          else let (sent, sock) = send_link_frames (link_resend s) sock in Some (sent, sock, s)
      | Elsewhere event \<Rightarrow>
          (case task_step Q off event (link_system s) of
             None \<Rightarrow> None | Some system \<Rightarrow> Some (True, sock, s\<lparr>link_system := system\<rparr>)))"

text \<open>\<open>True\<close>: the session returned; \<open>False\<close>: it waits at the end of the list.\<close>

fun session_loop ::
  "'c mpsc \<Rightarrow> 'q OfflineQueueStore \<Rightarrow> session_event list \<Rightarrow> 'e FramedTransport \<times> ('c, 'q) ca_link
     \<Rightarrow> (bool \<times> 'e FramedTransport \<times> ('c, 'q) ca_link) option" where
  "session_loop Q off [] st = Some (False, st)"
| "session_loop Q off (event # events) st =
     (case session_turn Q off event st of
        None \<Rightarrow> None
      | Some (True, st) \<Rightarrow> session_loop Q off events st
      | Some (False, st) \<Rightarrow> if events = [] then Some (True, st) else None)"

definition run_ca_session ::
  "'c mpsc \<Rightarrow> 'q OfflineQueueStore \<Rightarrow> session_event list \<Rightarrow> 'e FramedTransport \<times> ('c, 'q) ca_link
     \<Rightarrow> (bool \<times> 'e FramedTransport \<times> ('c, 'q) ca_link) option" where
  "run_ca_session Q off events st =
     (let (sock, s) = st; (sent, sock) = send_link_frames (link_resend s) sock in
      if sent then session_loop Q off events (sock, s)
      else if events = [] then Some (True, sock, s) else None)"

text \<open>One turn of \<open>maintain_ca_link\<close>: the attempt to connect, and what other tasks do until the next one.\<close>

datatype 'e connection = Refused | Established bool "'e FramedTransport" "session_event list"

fun others_run :: "'c mpsc \<Rightarrow> 'q OfflineQueueStore \<Rightarrow> task_event list \<Rightarrow> ('c, 'q) ca_link \<Rightarrow> ('c, 'q) ca_link option" where
  "others_run Q off [] s = Some s"
| "others_run Q off (event # events) s =
     (case task_step Q off event (link_system s) of
        None \<Rightarrow> None | Some system \<Rightarrow> others_run Q off events (s\<lparr>link_system := system\<rparr>))"

text \<open>What a connection comes to: its outcome, none while its session still runs, its socket and the state.\<close>

fun run_connection ::
  "'c mpsc \<Rightarrow> 'q OfflineQueueStore \<Rightarrow> (bytes \<Rightarrow> array32) \<Rightarrow> array32 \<Rightarrow> 'e connection \<Rightarrow> ('c, 'q) ca_link
     \<Rightarrow> (connect_outcome option \<times> 'e FramedTransport list \<times> ('c, 'q) ca_link) option" where
  "run_connection Q off sha256 psk Refused s = Some (Some Connect_failed, [], s)"
| "run_connection Q off sha256 psk (Established nodelay sock events) s =
     (if \<not> nodelay then (if events = [] then Some (Some Nodelay_failed, [sock], s) else None)
      else
        let (authenticated, sock) = authenticate_ca sha256 psk sock in
        case authenticated of
          Inl _ \<Rightarrow> if events = [] then Some (Some Authentication_failed, [sock], s) else None
        | Inr _ \<Rightarrow>
            (case run_ca_session Q off events (sock, s) of
               None \<Rightarrow> None
             | Some (returned, sock, s) \<Rightarrow> Some (if returned then Some Session_ended else None, [sock], s)))"

text \<open>The delays it slept, its sockets and the state.\<close>

fun maintain_loop ::
  "'c mpsc \<Rightarrow> 'q OfflineQueueStore \<Rightarrow> (bytes \<Rightarrow> array32) \<Rightarrow> CaLinkConfig \<Rightarrow> nat \<Rightarrow> ('e connection \<times> task_event list) list
     \<Rightarrow> ('c, 'q) ca_link \<Rightarrow> (nat list \<times> 'e FramedTransport list \<times> ('c, 'q) ca_link) option" where
  "maintain_loop Q off sha256 config backoff [] s = Some ([], [], s)"
| "maintain_loop Q off sha256 config backoff ((connection, others) # turns) s =
     (case run_connection Q off sha256 (link_psk config) connection s of
        None \<Rightarrow> None
      | Some (None, sockets, s) \<Rightarrow> if turns = [] \<and> others = [] then Some ([], sockets, s) else None
      | Some (Some outcome, sockets, s) \<Rightarrow>
          let (delay, backoff) = reconnect (link_reconnect_min config) (link_reconnect_max config) outcome backoff in
          (case others_run Q off others s of
             None \<Rightarrow> None
           | Some s \<Rightarrow>
               (case maintain_loop Q off sha256 config backoff turns s of
                  None \<Rightarrow> None
                | Some (delays, later, s) \<Rightarrow> Some (delay # delays, sockets @ later, s))))"

definition maintain_ca_link ::
  "'c mpsc \<Rightarrow> 'q OfflineQueueStore \<Rightarrow> (bytes \<Rightarrow> array32) \<Rightarrow> CaLinkConfig \<Rightarrow> ('e connection \<times> task_event list) list
     \<Rightarrow> ('c, 'q) broker_system \<Rightarrow> (nat list \<times> 'e FramedTransport list \<times> ('c, 'q) ca_link) option" where
  "maintain_ca_link Q off sha256 config turns system =
     maintain_loop Q off sha256 config (link_reconnect_min config) turns
       \<lparr>link_system = system, link_pending = PendingFrames_new (link_pending_depth config),
        link_acquired = DedupWindow_new (link_dedup_depth config)\<rparr>"

section \<open>The loop of the certificate authority\<close>

datatype cad_event =
    Reads "nat \<Rightarrow> LinkError + MessageId" u64
  | Retries
  | Reloads "ConfigError + StaticEnvironmentPolicy \<times> (AgentId \<times> PublicKeys) list"

text \<open>A turn says how the loop goes on. A failed send leaves the inner loop, unless the turn already left it.\<close>

definition cad_turn ::
  "'r crypto \<Rightarrow> cad_event \<Rightarrow> 'e FramedTransport \<times> (PersistentStore, 'r) cad
     \<Rightarrow> (flow \<times> 'e FramedTransport \<times> (PersistentStore, 'r) cad) option" where
  "cad_turn C event st =
     (let (sock, s) = st in
      case event of
        Reads ids now \<Rightarrow>
          (case framed_next sock of
             (Next_frame bytes, sock) \<Rightarrow>
               let (flow, frames, s) = cad_incoming C persistent_store ids now bytes s; (sent, sock) = send_link_frames frames sock in
               Some (if sent then flow else Break, sock, s)
           | (Next_elapsed, _) \<Rightarrow> None
           | (_, sock) \<Rightarrow> Some (Break, sock, s))
      | Retries \<Rightarrow>
          if pending_is_empty (cad_pending s) then None
          else let (sent, sock) = send_link_frames (cad_resend s) sock in Some (if sent then Continue else Break, sock, s)
      | Reloads candidate \<Rightarrow> Some (Continue, sock, cad_reload candidate s))"

fun cad_session_loop ::
  "'r crypto \<Rightarrow> cad_event list \<Rightarrow> 'e FramedTransport \<times> (PersistentStore, 'r) cad
     \<Rightarrow> (flow \<times> 'e FramedTransport \<times> (PersistentStore, 'r) cad) option" where
  "cad_session_loop C [] st = Some (Continue, st)"
| "cad_session_loop C (event # events) st =
     (case cad_turn C event st of
        None \<Rightarrow> None
      | Some (Continue, st) \<Rightarrow> cad_session_loop C events st
      | Some (flow, st) \<Rightarrow> if events = [] then Some (flow, st) else None)"

text \<open>A turn of the accept loop: the accepted socket with its fills of the random source and what its session does.\<close>

record 'e accepted =
  accepted_nodelay :: bool
  accepted_id :: "array16 option"
  accepted_challenge :: "array32 option"
  accepted_socket :: "'e FramedTransport"
  accepted_events :: "cad_event list"

definition cad_connection ::
  "'r crypto \<Rightarrow> (bytes \<Rightarrow> array32) \<Rightarrow> array32 \<Rightarrow> 'e accepted \<Rightarrow> (PersistentStore, 'r) cad
     \<Rightarrow> (flow \<times> 'e FramedTransport \<times> (PersistentStore, 'r) cad) option" where
  "cad_connection C sha256 psk a s =
     (let stop = (\<lambda>flow sock. if accepted_events a = [] then Some (flow, sock, s) else None) in
      if \<not> accepted_nodelay a then stop Exit (accepted_socket a)
      else
        let (authenticated, sock) = authenticate_broker_on sha256 psk (accepted_id a) (accepted_challenge a) (accepted_socket a) in
        case authenticated of
          Inl _ \<Rightarrow> stop Break sock
        | Inr _ \<Rightarrow>
            let (sent, sock) = send_link_frames (cad_resend s) sock in
            if sent then cad_session_loop C (accepted_events a) (sock, s) else stop Break sock)"

text \<open>The accept loop: \<open>None\<close> in the list is a failed \<open>accept\<close>. It ends with \<open>Exit\<close>; with \<open>Continue\<close> while a session runs and
  \<open>Break\<close> while it waits for a connection.\<close>

fun cad_accept_loop ::
  "'r crypto \<Rightarrow> (bytes \<Rightarrow> array32) \<Rightarrow> array32 \<Rightarrow> 'e accepted option list \<Rightarrow> (PersistentStore, 'r) cad
     \<Rightarrow> (flow \<times> 'e FramedTransport list \<times> (PersistentStore, 'r) cad) option" where
  "cad_accept_loop C sha256 psk [] s = Some (Break, [], s)"
| "cad_accept_loop C sha256 psk (None # accepts) s = (if accepts = [] then Some (Exit, [], s) else None)"
| "cad_accept_loop C sha256 psk (Some a # accepts) s =
     (case cad_connection C sha256 psk a s of
        None \<Rightarrow> None
      | Some (Break, sock, s) \<Rightarrow>
          (case cad_accept_loop C sha256 psk accepts s of
             None \<Rightarrow> None | Some (flow, sockets, s) \<Rightarrow> Some (flow, sock # sockets, s))
      | Some (flow, sock, s) \<Rightarrow> if accepts = [] then Some (flow, [sock], s) else None)"

section \<open>What is sent and read\<close>

lemma framed_send_cases:
  obtains "framed_send frame sock = (True, sock\<lparr>framed_outgoing := tl (framed_outgoing sock), framed_sent := framed_sent sock @ [frame]\<rparr>)"
      "next_outgoing sock = Sent"
  | "framed_send frame sock = (False, sock\<lparr>framed_outgoing := tl (framed_outgoing sock)\<rparr>)" "next_outgoing sock \<noteq> Sent"
  by (cases "next_outgoing sock") (simp_all add: framed_send_def Let_def)

lemma send_link_frames_sent:
  "send_link_frames frames sock = (sent, sock') \<Longrightarrow>
     \<exists>n. framed_sent sock' = framed_sent sock @ take n frames \<and> (sent \<longleftrightarrow> length frames \<le> n) \<and> framed_incoming sock' = framed_incoming sock"
proof (induction frames arbitrary: sock)
  case (Cons frame frames)
  show ?case
  proof (cases rule: framed_send_cases [of frame sock])
    case 1
    with Cons.prems have rest: "send_link_frames frames
        (sock\<lparr>framed_outgoing := tl (framed_outgoing sock), framed_sent := framed_sent sock @ [frame]\<rparr>) = (sent, sock')" by simp
    from Cons.IH [OF this] obtain n where "framed_sent sock' = (framed_sent sock @ [frame]) @ take n frames" "sent \<longleftrightarrow> length frames \<le> n"
      "framed_incoming sock' = framed_incoming sock" by auto
    then show ?thesis by (intro exI [of _ "Suc n"]) auto
  next
    case 2
    with Cons.prems show ?thesis by (intro exI [of _ 0]) auto
  qed
qed simp

text \<open>The frame that the next turn finds.\<close>

definition arrived :: "'e FramedTransport \<Rightarrow> bytes list" where
  "arrived sock = (case next_incoming sock of Next_frame bytes \<Rightarrow> [bytes] | _ \<Rightarrow> [])"

section \<open>The handshakes on sockets\<close>

lemma handshake_frame_Inr [simp]: "handshake_frame event = Inr bytes \<longleftrightarrow> event = Next_frame bytes"
  "handshake_frame (Next_frame bytes) = Inr bytes"
  by (cases event, simp_all add: handshake_frame_def)

lemma next_incoming_frame: "next_incoming sock = Next_frame bytes \<longleftrightarrow> (\<exists>rest. framed_incoming sock = Next_frame bytes # rest)"
  by (cases "framed_incoming sock") (auto simp: next_incoming_def)

text \<open>The broker's end: what it needs to read and what it has sent at the end.\<close>

lemma authenticate_ca_exact:
  "authenticate_ca sha256 psk sock = (Inr (), sock') \<longleftrightarrow>
     (\<exists>challenge cb rest.
        framed_incoming sock = Next_frame (item_bytes Kind_AuthChallenge (challenge, to_be_bytes cb)) #
          Next_frame (item_bytes Kind_AuthOk (challenge, [])) # rest \<and> next_outgoing sock = Sent \<and>
        sock' = \<lparr>framed_incoming = rest, framed_outgoing = tl (framed_outgoing sock),
          framed_sent = framed_sent sock @ [item_bytes Kind_AuthResponse (challenge, expected_response sha256 psk cb)]\<rparr>)" (is "?l \<longleftrightarrow> ?r")
proof
  let ?sock1 = "sock\<lparr>framed_incoming := tl (framed_incoming sock)\<rparr>"
  have out: "next_outgoing ?sock1 = next_outgoing sock" by (simp add: next_outgoing_def)
  assume l: ?l
  then obtain incoming challenge response where first: "next_incoming sock = Next_frame incoming"
    "answer_challenge sha256 psk incoming = Inr (challenge, response)"
    by (auto simp: authenticate_ca_def framed_next_def tryS_Inr_iff)
  from first(2) handshake_exact [of challenge _ sha256 psk _ _ incoming response] obtain cb where
    cb: "incoming = item_bytes Kind_AuthChallenge (challenge, to_be_bytes cb)" "response = item_bytes Kind_AuthResponse (challenge, expected_response sha256 psk cb)"
    by blast
  show ?r
  proof (cases rule: framed_send_cases [of response ?sock1])
    case 1
    let ?sock2 = "?sock1\<lparr>framed_outgoing := tl (framed_outgoing ?sock1), framed_sent := framed_sent ?sock1 @ [response]\<rparr>"
    from l 1 obtain final where "next_incoming ?sock2 = Next_frame final" "accept_authentication challenge final = Inr ()"
      "sock' = ?sock2\<lparr>framed_incoming := tl (framed_incoming ?sock2)\<rparr>"
      by (auto simp: authenticate_ca_def framed_next_def tryS_Inr_iff first)
    moreover from this(2) have "final = item_bytes Kind_AuthOk (challenge, [])" using handshake_exact [of challenge] by blast
    ultimately show ?r using first(1) cb 1(2) out
      by (intro exI [of _ challenge] exI [of _ cb], cases sock) (auto simp: next_incoming_frame)
  next
    case 2
    with l first show ?r by (simp add: authenticate_ca_def framed_next_def)
  qed
next
  assume ?r
  then obtain challenge cb rest where r: "framed_incoming sock = Next_frame (item_bytes Kind_AuthChallenge (challenge, to_be_bytes cb)) #
      Next_frame (item_bytes Kind_AuthOk (challenge, [])) # rest" "next_outgoing sock = Sent"
    "sock' = \<lparr>framed_incoming = rest, framed_outgoing = tl (framed_outgoing sock),
      framed_sent = framed_sent sock @ [item_bytes Kind_AuthResponse (challenge, expected_response sha256 psk cb)]\<rparr>" by blast
  have "answer_challenge sha256 psk (item_bytes Kind_AuthChallenge (challenge, to_be_bytes cb)) =
      Inr (challenge, item_bytes Kind_AuthResponse (challenge, expected_response sha256 psk cb))"
    "accept_authentication challenge (item_bytes Kind_AuthOk (challenge, [])) = Inr ()"
    using handshake_exact [of challenge _ sha256 psk] by blast+
  with r show ?l
    by (cases sock) (simp add: authenticate_ca_def framed_next_def next_incoming_def next_outgoing_def framed_send_def)
qed

text \<open>The CA's end.\<close>

lemma authenticate_broker_on_exact:
  "authenticate_broker_on sha256 psk id_fill bytes_fill sock = (Inr (), sock') \<longleftrightarrow>
     (\<exists>ident cb rest. id_fill = Some ident \<and> bytes_fill = Some cb \<and>
        framed_incoming sock = Next_frame (item_bytes Kind_AuthResponse (MessageId ident, expected_response sha256 psk cb)) # rest \<and>
        (\<forall>event\<in>set (take 2 (framed_outgoing sock)). event = Sent) \<and>
        sock' = \<lparr>framed_incoming = rest, framed_outgoing = drop 2 (framed_outgoing sock),
          framed_sent = framed_sent sock @ [item_bytes Kind_AuthChallenge (MessageId ident, to_be_bytes cb), item_bytes Kind_AuthOk (MessageId ident, [])]\<rparr>)"
    (is "?l \<longleftrightarrow> ?r")
proof (cases "id_fill = None \<or> bytes_fill = None")
  case True
  then show ?thesis by (auto simp: authenticate_broker_on_def random_id_def split: option.splits)
next
  case False
  then obtain ident cb where fills: "id_fill = Some ident" "bytes_fill = Some cb" by auto
  let ?c = "MessageId ident" and ?response = "item_bytes Kind_AuthResponse (MessageId ident, expected_response sha256 psk cb)"
  note exact = handshake_exact [of ?c cb sha256 psk]
  have check: "authenticate_broker sha256 psk ?c cb received = Inr success \<longleftrightarrow> received = ?response \<and> success = item_bytes Kind_AuthOk (?c, [])"
    for received success using exact by blast
  then have check': "authenticate_broker sha256 psk ?c cb ?response = Inr (item_bytes Kind_AuthOk (?c, []))" by simp
  have challenge: "challenge_frame ?c cb = Inr (item_bytes Kind_AuthChallenge (?c, to_be_bytes cb))" using exact by blast
  have two: "(\<forall>event\<in>set (take 2 events). event = Sent) \<longleftrightarrow>
      (case events of [] \<Rightarrow> True | e # _ \<Rightarrow> e = Sent) \<and> (case tl events of [] \<Rightarrow> True | e # _ \<Rightarrow> e = Sent)" for events :: "'b send_event list"
    by (cases events; cases "tl events") (auto simp: numeral_2_eq_2)
  have drop: "drop 2 xs = tl (tl xs)" for xs :: "'b send_event list" by (simp add: numeral_2_eq_2 drop_Suc)
  let ?first = "item_bytes Kind_AuthChallenge (?c, to_be_bytes cb)" and ?last = "item_bytes Kind_AuthOk (?c, [])"
  have sent: "next_outgoing sock = Sent \<longleftrightarrow> (case framed_outgoing sock of [] \<Rightarrow> True | e # _ \<Rightarrow> e = Sent)" for sock :: "'b FramedTransport"
    by (cases "framed_outgoing sock") (simp_all add: next_outgoing_def)
  note unfolded = authenticate_broker_on_def fills random_id_def ok_or_def challenge framed_next_def two drop sent next_incoming_frame
  show ?thesis
  proof (cases rule: framed_send_cases [of ?first sock])
    case first: 1
    show ?thesis
    proof (cases "\<exists>rest. framed_incoming sock = Next_frame ?response # rest")
      case True
      then obtain rest where rest: "framed_incoming sock = Next_frame ?response # rest" by blast
      let ?sock = "sock\<lparr>framed_outgoing := tl (framed_outgoing sock), framed_sent := framed_sent sock @ [?first], framed_incoming := rest\<rparr>"
      have shape: "?sock\<lparr>framed_outgoing := outgoing, framed_sent := out\<rparr> = \<lparr>framed_incoming = rest, framed_outgoing = outgoing, framed_sent = out\<rparr>"
        for outgoing out by (cases sock) simp
      have run: "authenticate_broker_on sha256 psk (Some ident) (Some cb) sock =
          (let (sent, sock) = framed_send ?last ?sock in (if sent then Inr () else Inl InvalidFrame, sock))"
        using first(1) rest by (simp add: authenticate_broker_on_def fills random_id_def ok_or_def challenge framed_next_def next_incoming_def check')
      show ?thesis
        using first(2) by (cases rule: framed_send_cases [of ?last ?sock])
          (auto simp: run rest fills two drop sent shape)
    next
      case False
      then have "\<not> ?l" using first check by (auto simp: unfolded tryS_Inr_iff)
      with False show ?thesis using fills by auto
    qed
  next
    case 2
    then have "\<not> ?l" by (simp add: unfolded)
    with 2(2) show ?thesis by (auto simp: two sent)
  qed
qed

section \<open>Whom the CA serves\<close>

definition authentic :: "(bytes \<Rightarrow> array32) \<Rightarrow> array32 \<Rightarrow> 'e accepted \<Rightarrow> bool" where
  "authentic sha256 psk a =
     (case (accepted_id a, accepted_challenge a, framed_incoming (accepted_socket a)) of
        (Some ident, Some cb, Next_frame response # _) \<Rightarrow>
          response = item_bytes Kind_AuthResponse (MessageId ident, expected_response sha256 psk cb)
      | _ \<Rightarrow> False)"

definition admitted :: "(bytes \<Rightarrow> array32) \<Rightarrow> array32 \<Rightarrow> 'e accepted option \<Rightarrow> bool" where
  "admitted sha256 psk turn = (case turn of None \<Rightarrow> True | Some a \<Rightarrow> accepted_nodelay a \<longrightarrow> authentic sha256 psk a)"

definition only_challenged :: "'e accepted \<Rightarrow> bytes list \<Rightarrow> bool" where
  "only_challenged a frames \<longleftrightarrow> frames = [] \<or>
     (\<exists>ident cb. accepted_id a = Some ident \<and> accepted_challenge a = Some cb \<and> frames = [item_bytes Kind_AuthChallenge (MessageId ident, to_be_bytes cb)])"

lemma not_authentic:
  assumes "\<not> authentic sha256 psk a"
    "authenticate_broker_on sha256 psk (accepted_id a) (accepted_challenge a) (accepted_socket a) = (result, sock)"
  shows "\<not> is_ok result" "\<exists>frames. framed_sent sock = framed_sent (accepted_socket a) @ frames \<and> only_challenged a frames"
proof -
  let ?sock = "accepted_socket a"
  show fails: "\<not> is_ok result"
    using assms authenticate_broker_on_exact [of sha256 psk "accepted_id a" "accepted_challenge a" ?sock sock]
    by (cases result) (auto simp: authentic_def)
  show "\<exists>frames. framed_sent sock = framed_sent ?sock @ frames \<and> only_challenged a frames"
  proof (cases "accepted_id a = None \<or> accepted_challenge a = None")
    case True
    with assms(2) have "framed_sent sock = framed_sent ?sock" by (auto simp: authenticate_broker_on_def random_id_def split: option.splits)
    then show ?thesis by (simp add: only_challenged_def)
  next
    case False
    then obtain ident cb where fills: "accepted_id a = Some ident" "accepted_challenge a = Some cb" by auto
    let ?first = "item_bytes Kind_AuthChallenge (MessageId ident, to_be_bytes cb)"
    have challenge: "challenge_frame (MessageId ident) cb = Inr ?first" using handshake_exact [of "MessageId ident" cb] by blast
    have check: "authenticate_broker sha256 psk (MessageId ident) cb received = Inr success \<longleftrightarrow>
        received = item_bytes Kind_AuthResponse (MessageId ident, expected_response sha256 psk cb) \<and> success = item_bytes Kind_AuthOk (MessageId ident, [])"
      for received success using handshake_exact [of "MessageId ident" cb] by blast
    note unfolded = authenticate_broker_on_def random_id_def fills ok_or_def challenge
    show ?thesis
    proof (cases rule: framed_send_cases [of ?first ?sock])
      case 1
      let ?sent = "?sock\<lparr>framed_outgoing := tl (framed_outgoing ?sock), framed_sent := framed_sent ?sock @ [?first]\<rparr>"
      obtain event sock2 where event: "framed_next ?sent = (event, sock2)" by fastforce
      have same: "event = next_incoming ?sock" "framed_sent sock2 = framed_sent ?sock @ [?first]"
        using event by (auto simp: framed_next_def next_incoming_def)
      have "sock = sock2"
      proof (cases "handshake_frame event")
        case (Inl e)
        with assms(2) 1 event show ?thesis by (simp add: unfolded)
      next
        case (Inr response)
        with assms(1) same(1) fills have "response \<noteq> item_bytes Kind_AuthResponse (MessageId ident, expected_response sha256 psk cb)"
          by (auto simp: authentic_def next_incoming_frame)
        with check obtain e where "authenticate_broker sha256 psk (MessageId ident) cb response = Inl e"
          by (cases "authenticate_broker sha256 psk (MessageId ident) cb response") auto
        with assms(2) 1 event Inr show ?thesis by (simp add: unfolded)
      qed
      with same(2) fills show ?thesis by (auto simp: only_challenged_def)
    next
      case 2
      with assms(2) have "framed_sent sock = framed_sent ?sock" by (simp add: unfolded) auto
      then show ?thesis by (simp add: only_challenged_def)
    qed
  qed
qed

lemma not_admitted:
  assumes "\<not> admitted sha256 psk (Some a)" "cad_connection C sha256 psk a s = Some (flow, sock, s')"
  shows "flow = Break" "s' = s" "\<exists>frames. framed_sent sock = framed_sent (accepted_socket a) @ frames \<and> only_challenged a frames"
proof -
  have a: "accepted_nodelay a" "\<not> authentic sha256 psk a" using assms(1) by (simp_all add: admitted_def)
  obtain result sock1 where run: "authenticate_broker_on sha256 psk (accepted_id a) (accepted_challenge a) (accepted_socket a) = (result, sock1)" by fastforce
  note na = not_authentic [OF a(2) run]
  with assms(2) run a(1) have "flow = Break \<and> s' = s \<and> sock = sock1"
    by (cases result) (auto simp: cad_connection_def Let_def split: if_splits)
  with na(2) show "flow = Break" "s' = s" "\<exists>frames. framed_sent sock = framed_sent (accepted_socket a) @ frames \<and> only_challenged a frames" by simp_all
qed

lemma accept_loop_admitted:
  "cad_accept_loop C sha256 psk accepts s = Some (flow, sockets, s') \<Longrightarrow>
     \<exists>served. cad_accept_loop C sha256 psk (filter (admitted sha256 psk) accepts) s = Some (flow, served, s')"
proof (induction accepts arbitrary: s sockets)
  case (Cons turn accepts)
  show ?case
  proof (cases turn)
    case None
    with Cons.prems show ?thesis by (auto simp: admitted_def split: if_splits)
  next
    case (Some a)
    with Cons.prems obtain flow1 sock s1 where run: "cad_connection C sha256 psk a s = Some (flow1, sock, s1)"
      by (auto split: option.splits)
    show ?thesis
    proof (cases "flow1 = Break")
      case True
      with Cons.prems Some run obtain later where later: "cad_accept_loop C sha256 psk accepts s1 = Some (flow, later, s')"
        by (auto split: option.splits)
      from Cons.IH [OF this] obtain served where "cad_accept_loop C sha256 psk (filter (admitted sha256 psk) accepts) s1 = Some (flow, served, s')" by blast
      moreover have "s1 = s" if "\<not> admitted sha256 psk (Some a)" using not_admitted(2) [OF that run] .
      ultimately show ?thesis using Some run True by (cases "admitted sha256 psk (Some a)") auto
    next
      case False
      then have "admitted sha256 psk (Some a)" using not_admitted(1) [OF _ run] by blast
      with False Cons.prems Some run show ?thesis by (cases flow1) (auto split: if_splits)
    qed
  qed
qed simp

lemma accept_loop_sockets:
  "cad_accept_loop C sha256 psk accepts s = Some (flow, sockets, s') \<Longrightarrow> i < length sockets \<Longrightarrow>
     \<exists>a s1 flow1 s2. i < length accepts \<and> accepts ! i = Some a \<and> cad_connection C sha256 psk a s1 = Some (flow1, sockets ! i, s2)"
proof (induction accepts arbitrary: s sockets i)
  case (Cons turn accepts)
  then obtain a flow1 sock s1 where run: "turn = Some a" "cad_connection C sha256 psk a s = Some (flow1, sock, s1)"
    by (cases turn) (auto split: option.splits if_splits)
  show ?case
  proof (cases "i = 0")
    case True
    with Cons.prems run have "sockets ! 0 = sock" by (cases flow1) (auto split: option.splits if_splits)
    with True run show ?thesis by auto
  next
    case False
    with Cons.prems run obtain later where "flow1 = Break" "cad_accept_loop C sha256 psk accepts s1 = Some (flow, later, s')" "sockets = sock # later"
      by (cases flow1) (auto split: option.splits if_splits)
    with Cons.IH [OF this(2), of "i - 1"] Cons.prems(2) False show ?thesis by (cases i) auto
  qed
qed simp

section \<open>Turns are steps of the system\<close>

lemma link_request_ids:
  assumes "link_request Q ident s = Some (frames, s')"
  shows "\<forall>x\<in>set (wire_items Kind_Request frames). ident = Inr (fst x)"
proof -
  from assms obtain request system where "ca_take Q (link_system s) = (Some request, system)"
    "pending_is_empty (link_pending s) \<and> \<not> pending_is_full (link_pending s)"
    by (auto simp: link_request_def split: if_splits prod.splits option.splits)
  with assms have "frames = [] \<or> (\<exists>i. ident = Inr i \<and> frames = [item_bytes Kind_Request (i, request)] \<and>
      link_valid (item_frame Kind_Request (i, request)))"
    by (cases ident; cases "encode_link Kind_Request (projr ident) request")
      (auto simp: link_request_def Let_def split: prod.splits if_splits dest: encode_link_item [THEN iffD1])
  then show ?thesis by (auto simp: wire_item_bytes)
qed

lemma cad_incoming_ids:
  assumes "cad_ok s" "cad_incoming C persistent_store ids now received s = (flow, frames, s')"
  shows "fst ` set (wire_items Kind_Delivery frames) \<subseteq> drawn ids \<and> (flow = Exit \<longrightarrow> frames = [])"
proof -
  consider (ack) f where "decode_link received = Inr f" "link_kind f = Kind_Ack"
    | (request) f where "decode_link received = Inr f" "link_kind f = Kind_Request"
    | (other) "\<And>f. decode_link received = Inr f \<Longrightarrow> link_kind f \<notin> {Kind_Ack, Kind_Request}"
    by blast
  then show ?thesis
  proof cases
    case ack
    with cad_incoming_ack(1) [OF assms(1) ack] assms(2) show ?thesis by (auto simp: wire_item_ack split: option.splits if_splits)
  next
    case request
    show ?thesis
    proof (cases "cad_current s = None \<and> \<not> dedup_contains (cad_acquired s) (link_id f)")
      case idle: True
      obtain result store rng where p: "process C persistent_store (cad_ca s) (link_payload f) now (cad_store s, cad_rng s) = (result, (store, rng))"
        by (metis prod.exhaust)
      have "cad_request C persistent_store ids now (link_id f) (link_payload f) s = (flow, frames, s')"
        using assms(2) idle by (simp add: cad_incoming_request [OF request])
      note eff = cad_request_effect [OF assms(1) conjunct1 [OF idle] this p]
      show ?thesis
      proof (cases flow)
        case Continue
        with eff obtain group where "fst ` set group \<subseteq> drawn ids" "pends Kind_Delivery (cad_pending s') group"
          "frames = (if group = [] then [item_bytes Kind_Ack (link_id f, [])] else map (item_bytes Kind_Delivery) group)" by blast
        then show ?thesis using wire_items_bytes [of group Kind_Delivery Kind_Delivery] Continue by (auto simp: pends_def wire_item_ack)
      qed (use eff in auto)
    next
      case False
      with assms show ?thesis by (auto simp: cad_incoming_request [OF request] wire_item_ack split: if_splits)
    qed
  next
    case other
    then have "cad_incoming C persistent_store ids now received s = (Break, [], s)" by (rule cad_incoming_other)
    with assms show ?thesis by simp
  qed
qed

lemma broker_turn_steps:
  assumes "session_turn Q off event (sock, sys_link s) = Some (go_on, sock', link)" "sys_broker_up s"
    "sys_to_broker s = (if is_Arrives event then arrived sock else []) @ wire"
    "\<forall>fill. event = Takes (Some fill) \<longrightarrow> MessageId fill \<notin> fst ` set (sys_taken s)"
  shows "\<exists>step s' new. system_step Q off C step s = Some s' \<and> sys_link s' = link \<and> sys_broker_up s' = go_on \<and> sys_to_broker s' = wire \<and>
    sys_to_ca s' = sys_to_ca s @ new \<and> framed_sent sock' = framed_sent sock @ new \<and> sys_cad s' = sys_cad s \<and>
    sys_cad_up s' = sys_cad_up s \<and> sys_running s' = sys_running s"
proof (cases event)
  case (Takes fill)
  with assms(1) obtain frames where f: "link_request Q (random_id fill) (sys_link s) = Some (frames, link)"
    "send_link_frames frames sock = (go_on, sock')" by (auto simp: session_turn_def split: option.splits prod.splits)
  from send_link_frames_sent [OF f(2)] obtain n where n: "framed_sent sock' = framed_sent sock @ take n frames" "go_on \<longleftrightarrow> length frames \<le> n" by blast
  have "fresh (wire_items Kind_Request frames) (sys_taken s)"
    using link_request_ids [OF f(1)] assms(4) Takes by (cases fill) (auto simp: fresh_def random_id_def image_iff)
  with n f(1) assms(2,3) Takes show ?thesis
    by (intro exI [of _ "Broker_takes (random_id fill) n"]) (simp add: broker_takes_def broker_sends_def)
next
  case (Arrives between)
  show ?thesis
  proof (cases "next_incoming sock")
    case (Next_frame bytes)
    with assms(1) Arrives obtain go frames sock1 sent where f: "link_incoming Q off between bytes (sys_link s) = (go, frames, link)"
      "send_link_frames frames sock1 = (sent, sock')" "go_on = (go \<and> sent)" "framed_sent sock1 = framed_sent sock"
      by (auto simp: session_turn_def framed_next_def split: prod.splits)
    from send_link_frames_sent [OF f(2)] obtain n where n: "framed_sent sock' = framed_sent sock1 @ take n frames" "sent \<longleftrightarrow> length frames \<le> n" by blast
    with f Next_frame assms(2,3) Arrives show ?thesis
      by (intro exI [of _ "Broker_reads between n"]) (simp add: broker_reads_def broker_sends_def arrived_def Let_def)
  qed (use assms Arrives in \<open>auto simp: session_turn_def framed_next_def arrived_def intro!: exI [of _ Broker_leaves]\<close>)
next
  case Ticks
  with assms(1) have f: "send_link_frames (link_resend (sys_link s)) sock = (go_on, sock')" "link = sys_link s" "\<not> pending_is_empty (link_pending (sys_link s))"
    by (auto simp: session_turn_def split: prod.splits if_splits)
  from send_link_frames_sent [OF f(1)] obtain n where
    n: "framed_sent sock' = framed_sent sock @ take n (link_resend (sys_link s))" "go_on \<longleftrightarrow> length (link_resend (sys_link s)) \<le> n" by blast
  with f assms(2,3) Ticks show ?thesis
    by (intro exI [of _ "Broker_retries n"]) (simp add: broker_retries_def broker_sends_def)
next
  case (Elsewhere e)
  with assms show ?thesis
    by (intro exI [of _ "Agents e"]) (auto simp: session_turn_def split: option.splits)
qed

lemma cad_turn_steps:
  assumes "cad_turn C event (sock, sys_cad s) = Some (flow, sock', c)" "sys_cad_up s" "sys_running s" "cad_ok (sys_cad s)"
    "sys_to_ca s = (case event of Reads _ _ \<Rightarrow> arrived sock | _ \<Rightarrow> []) @ wire"
    "\<forall>ids now. event = Reads ids now \<longrightarrow> drawn ids \<inter> fst ` set (sys_published s) = {}"
  shows "\<exists>step s' new. system_step Q off C step s = Some s' \<and> sys_cad s' = c \<and> sys_cad_up s' = (flow = Continue) \<and>
    sys_running s' = (flow \<noteq> Exit) \<and> sys_to_ca s' = wire \<and> sys_to_broker s' = sys_to_broker s @ new \<and>
    framed_sent sock' = framed_sent sock @ new \<and> sys_link s' = sys_link s \<and> sys_broker_up s' = sys_broker_up s"
proof (cases event)
  case (Reads ids now)
  show ?thesis
  proof (cases "next_incoming sock")
    case (Next_frame bytes)
    with assms(1) Reads obtain flow1 frames sock1 sent where f: "cad_incoming C persistent_store ids now bytes (sys_cad s) = (flow1, frames, c)"
      "send_link_frames frames sock1 = (sent, sock')" "flow = (if sent then flow1 else Break)" "framed_sent sock1 = framed_sent sock"
      by (auto simp: cad_turn_def framed_next_def split: prod.splits)
    from send_link_frames_sent [OF f(2)] obtain n where n: "framed_sent sock' = framed_sent sock1 @ take n frames" "sent \<longleftrightarrow> length frames \<le> n" by blast
    have "fresh (wire_items Kind_Delivery frames) (sys_published s)"
      using cad_incoming_ids [OF assms(4) f(1)] assms(6) Reads by (auto simp: fresh_def)
    moreover have "frames = []" if "flow1 = Exit" using cad_incoming_ids [OF assms(4) f(1)] that by simp
    ultimately show ?thesis using n f Next_frame assms(2,3,5) Reads
      by (intro exI [of _ "Cad_reads ids now n"]) (auto simp: cad_reads_def cad_sends_def arrived_def Let_def)
  qed (use assms Reads in \<open>auto simp: cad_turn_def framed_next_def arrived_def intro!: exI [of _ Cad_leaves]\<close>)
next
  case Retries
  with assms(1) obtain sent where f: "send_link_frames (cad_resend (sys_cad s)) sock = (sent, sock')" "c = sys_cad s" "\<not> pending_is_empty (cad_pending (sys_cad s))"
    "flow = (if sent then Continue else Break)"
    by (auto simp: cad_turn_def split: prod.splits if_splits)
  from send_link_frames_sent [OF f(1)] obtain n where
    n: "framed_sent sock' = framed_sent sock @ take n (cad_resend (sys_cad s))" "sent \<longleftrightarrow> length (cad_resend (sys_cad s)) \<le> n" by blast
  with f assms(2,3,5) Retries show ?thesis
    by (intro exI [of _ "Cad_retries n"]) (simp add: cad_retries_def cad_sends_def)
next
  case (Reloads candidate)
  with assms show ?thesis by (intro exI [of _ "Cad_reloads candidate"]) (auto simp: cad_turn_def)
qed

lemma connection_steps:
  assumes "send_link_frames (cad_resend (sys_cad s)) cad_sock = (cad_sent, cad_sock')"
    "send_link_frames (if joined then link_resend (sys_link s) else []) sock = (sent, sock')"
    "\<not> sys_broker_up s" "\<not> sys_cad_up s" "sys_running s"
  shows "\<exists>step s'. system_step Q off C step s = Some s' \<and> sys_link s' = sys_link s \<and> sys_cad s' = sys_cad s \<and> sys_running s' \<and>
    sys_broker_up s' = (joined \<and> sent) \<and> sys_cad_up s' = cad_sent \<and>
    framed_sent cad_sock' = framed_sent cad_sock @ sys_to_broker s' \<and> framed_sent sock' = framed_sent sock @ sys_to_ca s'"
proof -
  from send_link_frames_sent [OF assms(1)] send_link_frames_sent [OF assms(2)] obtain m n where
    "framed_sent cad_sock' = framed_sent cad_sock @ take m (cad_resend (sys_cad s))" "cad_sent \<longleftrightarrow> length (cad_resend (sys_cad s)) \<le> m"
    "framed_sent sock' = framed_sent sock @ take n (if joined then link_resend (sys_link s) else [])"
    "sent \<longleftrightarrow> length (if joined then link_resend (sys_link s) else []) \<le> n" by blast
  with assms(3-5) show ?thesis
    by (intro exI [of _ "Connects joined n m"]) (simp add: connects_def broker_sends_def cad_sends_def)
qed

section \<open>What the broker says\<close>

lemma session_sends:
  assumes "session_loop Q off events (sock, s) = Some (returned, sock', s')"
  shows "\<exists>frames. framed_sent sock' = framed_sent sock @ frames"
  using assms
proof (induction events arbitrary: sock s)
  case (Cons event events)
  then obtain go sock1 s1 where turn: "session_turn Q off event (sock, s) = Some (go, sock1, s1)" by (auto split: option.splits)
  have "\<exists>frames. framed_sent sock1 = framed_sent sock @ frames"
  proof (cases event)
    case (Arrives between)
    with turn show ?thesis
      by (auto simp: session_turn_def framed_next_def split: next_event.splits prod.splits dest!: send_link_frames_sent)
  qed (use turn in \<open>auto simp: session_turn_def split: option.splits prod.splits if_splits dest!: send_link_frames_sent\<close>)
  moreover have "\<exists>frames. framed_sent sock' = framed_sent sock1 @ frames"
    using Cons turn by (cases go) (auto split: if_splits)
  ultimately show ?case by auto
qed simp

text \<open>What the broker has sent on a socket: nothing; its response to the challenge; or, once the peer has
  accepted it, its response and frames of the session.\<close>

definition speaks_for :: "(bytes \<Rightarrow> array32) \<Rightarrow> array32 \<Rightarrow> 'e FramedTransport \<Rightarrow> bytes list \<Rightarrow> bool" where
  "speaks_for sha256 psk sock frames \<longleftrightarrow> frames = [] \<or>
     (\<exists>challenge cb rest session.
        framed_incoming sock = Next_frame (item_bytes Kind_AuthChallenge (challenge, to_be_bytes cb)) # rest \<and>
        frames = item_bytes Kind_AuthResponse (challenge, expected_response sha256 psk cb) # session \<and>
        (session = [] \<or> (\<exists>rest'. rest = Next_frame (item_bytes Kind_AuthOk (challenge, [])) # rest')))"

lemma authenticate_ca_sends:
  assumes "authenticate_ca sha256 psk sock = (result, sock')"
  obtains frames where "framed_sent sock' = framed_sent sock @ frames" "speaks_for sha256 psk sock frames" "length frames \<le> 1"
proof -
  let ?sock1 = "sock\<lparr>framed_incoming := tl (framed_incoming sock)\<rparr>"
  note unfolded = authenticate_ca_def framed_next_def
  show thesis
  proof (cases "\<exists>incoming challenge response. next_incoming sock = Next_frame incoming \<and> answer_challenge sha256 psk incoming = Inr (challenge, response)")
    case False
    then have "sock' = ?sock1"
      using assms by (cases "next_incoming sock"; cases "answer_challenge sha256 psk (case next_incoming sock of Next_frame bytes \<Rightarrow> bytes | _ \<Rightarrow> [])") (auto simp: unfolded handshake_frame_def)
    then show thesis by (intro that [of "[]"]) (simp_all add: speaks_for_def)
  next
    case True
    then obtain incoming challenge response where first: "next_incoming sock = Next_frame incoming"
      "answer_challenge sha256 psk incoming = Inr (challenge, response)" by blast
    from first(2) obtain cb where
      cb: "incoming = item_bytes Kind_AuthChallenge (challenge, to_be_bytes cb)" "response = item_bytes Kind_AuthResponse (challenge, expected_response sha256 psk cb)"
      using handshake_exact [of challenge _ sha256 psk _ _ incoming response] by blast
    show thesis
    proof (cases rule: framed_send_cases [of response ?sock1])
      case 1
      have "framed_sent sock' = framed_sent sock @ [response]"
        using assms first 1 by (auto simp: unfolded tryS_def split: sum.splits)
      with first(1) cb show thesis by (intro that [of "[response]"]) (auto simp: speaks_for_def next_incoming_frame)
    next
      case 2
      with assms first have "framed_sent sock' = framed_sent sock" by (auto simp: unfolded)
      then show thesis by (intro that [of "[]"]) (simp_all add: speaks_for_def)
    qed
  qed
qed

lemma run_connection_sends:
  assumes "run_connection Q off sha256 psk (Established nodelay sock events) s = Some (outcome, sockets, s')"
  shows "\<exists>sock' frames. sockets = [sock'] \<and> framed_sent sock' = framed_sent sock @ frames \<and> speaks_for sha256 psk sock frames"
proof (cases nodelay)
  case True
  obtain result sock1 where auth: "authenticate_ca sha256 psk sock = (result, sock1)" by fastforce
  obtain frames where frames: "framed_sent sock1 = framed_sent sock @ frames" "speaks_for sha256 psk sock frames" by (rule authenticate_ca_sends [OF auth])
  show ?thesis
  proof (cases result)
    case Inl
    with assms True auth frames show ?thesis by (auto split: if_splits)
  next
    case (Inr u)
    with auth have auth': "authenticate_ca sha256 psk sock = (Inr (), sock1)" by simp
    from auth' [unfolded authenticate_ca_exact] obtain challenge cb rest where
      hs: "framed_incoming sock = Next_frame (item_bytes Kind_AuthChallenge (challenge, to_be_bytes cb)) #
          Next_frame (item_bytes Kind_AuthOk (challenge, [])) # rest"
        "framed_sent sock1 = framed_sent sock @ [item_bytes Kind_AuthResponse (challenge, expected_response sha256 psk cb)]" by force
    from assms True Inr auth obtain sock2 where two: "sockets = [sock2]" "\<exists>returned. run_ca_session Q off events (sock1, s) = Some (returned, sock2, s')"
      by (auto split: option.splits)
    obtain sent sock3 where resend: "send_link_frames (link_resend s) sock1 = (sent, sock3)" by fastforce
    then have "\<exists>frames. framed_sent sock3 = framed_sent sock1 @ frames" using send_link_frames_sent by blast
    moreover have "\<exists>frames. framed_sent sock2 = framed_sent sock3 @ frames"
      using two(2) resend session_sends by (fastforce simp: run_ca_session_def split: if_splits)
    ultimately obtain session where "framed_sent sock2 = framed_sent sock1 @ session" by auto
    with hs two(1) show ?thesis by (auto simp: speaks_for_def)
  qed
qed (use assms in \<open>auto simp: speaks_for_def split: if_splits\<close>)

lemma maintain_loop_sends:
  assumes "maintain_loop Q off sha256 config backoff turns s = Some (delays, sockets, s')" "sock' \<in> set sockets"
  shows "\<exists>nodelay sock events others frames. (Established nodelay sock events, others) \<in> set turns \<and>
    framed_sent sock' = framed_sent sock @ frames \<and> speaks_for sha256 (link_psk config) sock frames"
  using assms
proof (induction turns arbitrary: s backoff delays sockets)
  case (Cons turn turns)
  obtain connection others where turn: "turn = (connection, others)" by fastforce
  from Cons.prems(1) turn obtain outcome sockets1 s1 where run: "run_connection Q off sha256 (link_psk config) connection s = Some (outcome, sockets1, s1)"
    by (auto split: option.splits)
  show ?case
  proof (cases "sock' \<in> set sockets1")
    case True
    then obtain nodelay sock events where "connection = Established nodelay sock events" using run by (cases connection) auto
    with run_connection_sends [of Q off sha256 "link_psk config" nodelay sock events s] run True turn show ?thesis by fastforce
  next
    case False
    with Cons.prems turn run obtain backoff2 s2 delays2 later where
      "maintain_loop Q off sha256 config backoff2 turns s2 = Some (delays2, later, s')" "sock' \<in> set later"
      by (auto split: option.splits prod.splits if_splits)
    from Cons.IH [OF this] show ?thesis by (metis list.set_intros(2))
  qed
qed simp

text \<open>What a turn comes to, read off the connection it was given.\<close>

fun turn_outcome :: "(bytes \<Rightarrow> array32) \<Rightarrow> array32 \<Rightarrow> 'e connection \<Rightarrow> connect_outcome" where
  "turn_outcome sha256 psk Refused = Connect_failed"
| "turn_outcome sha256 psk (Established nodelay sock events) =
     (if \<not> nodelay then Nodelay_failed
      else if is_ok (fst (authenticate_ca sha256 psk sock)) then Session_ended else Authentication_failed)"

lemma run_connection_outcome:
  assumes "run_connection Q off sha256 psk connection s = Some (outcome, sockets, s')"
  shows "case outcome of None \<Rightarrow> turn_outcome sha256 psk connection = Session_ended | Some out \<Rightarrow> turn_outcome sha256 psk connection = out"
  using assms by (cases connection) (auto simp: is_ok_def split: if_splits sum.splits prod.splits option.splits)

lemma maintain_loop_delays:
  fixes sha256 :: "bytes \<Rightarrow> array32" and config :: CaLinkConfig
  defines "outcomes \<equiv> \<lambda>turns. map (\<lambda>turn. turn_outcome sha256 (link_psk config) (fst turn)) turns"
  assumes "maintain_loop Q off sha256 config backoff turns s = Some (delays, sockets, s')"
  shows "delays = reconnect_delays (link_reconnect_min config) (link_reconnect_max config) backoff (take (length delays) (outcomes turns)) \<and>
    (length delays = length turns \<or> Suc (length delays) = length turns \<and> last (outcomes turns) = Session_ended)"
  using assms(2)
proof (induction turns arbitrary: s backoff delays sockets)
  case Nil
  then show ?case by (simp add: outcomes_def)
next
  case (Cons turn turns)
  obtain connection others where turn: "turn = (connection, others)" by fastforce
  from Cons.prems turn obtain outcome sockets1 s1 where run: "run_connection Q off sha256 (link_psk config) connection s = Some (outcome, sockets1, s1)"
    by (auto split: option.splits)
  note out = run_connection_outcome [OF run]
  show ?case
  proof (cases outcome)
    case None
    with Cons.prems turn run out show ?thesis by (auto simp: outcomes_def split: if_splits)
  next
    case (Some out1)
    obtain delay backoff2 where next_turn: "reconnect (link_reconnect_min config) (link_reconnect_max config) out1 backoff = (delay, backoff2)" by fastforce
    from Cons.prems turn run Some next_turn obtain s2 delays2 later where
      rest: "maintain_loop Q off sha256 config backoff2 turns s2 = Some (delays2, later, s')" "delays = delay # delays2"
      by (auto split: option.splits)
    from Cons.IH [OF rest(1)] show ?thesis
      using next_turn out Some turn rest(2) by (auto simp: outcomes_def)
  qed
qed

section \<open>Properties\<close>

text \<open>C10: \<open>cad\<close> serves only who knows the key. Run the accept loop on any connections: take out those that do not begin with the frame
  carrying the HMAC, under the pre-shared key, of the challenge drawn for them, and the loop ends the same way and in the same state
  (stored data, pending deliveries, everything). On a connection that was taken out it has sent at most the challenge.\<close>

theorem cad_serves_authenticated:
  assumes "cad_accept_loop C sha256 psk accepts s = Some (flow, sockets, s')"
  shows "(\<exists>served. cad_accept_loop C sha256 psk (filter (admitted sha256 psk) accepts) s = Some (flow, served, s')) \<and>
    (\<forall>i<length sockets. \<not> admitted sha256 psk (accepts ! i) \<longrightarrow>
      (\<exists>a frames. accepts ! i = Some a \<and> framed_sent (sockets ! i) = framed_sent (accepted_socket a) @ frames \<and> only_challenged a frames))"
proof (intro conjI allI impI)
  show "\<exists>served. cad_accept_loop C sha256 psk (filter (admitted sha256 psk) accepts) s = Some (flow, served, s')"
    by (rule accept_loop_admitted [OF assms])
next
  fix i assume i: "i < length sockets" "\<not> admitted sha256 psk (accepts ! i)"
  from accept_loop_sockets [OF assms i(1)] obtain a s1 flow1 s2 where
    a: "accepts ! i = Some a" "cad_connection C sha256 psk a s1 = Some (flow1, sockets ! i, s2)" by blast
  from not_admitted(3) [OF i(2) [unfolded a(1)] a(2)] a(1)
  show "\<exists>a frames. accepts ! i = Some a \<and> framed_sent (sockets ! i) = framed_sent (accepted_socket a) @ frames \<and> only_challenged a frames" by blast
qed

text \<open>C15: \<open>maintain_ca_link\<close> on any peer. What the broker writes to a socket is nothing, or the HMAC of the
  peer's challenge under the pre-shared key, and requests and acknowledgements only after the peer accepted that
  response. After each connection it sleeps, and no other delays: the minimum of the command line after a session; after a failure the
  minimum, doubled once for the last session, if there was one, and once for every refused connection and failed handshake since then, up
  to the maximum.
  Only a session that still runs, the last turn, has no delay yet.\<close>

theorem broker_speaks_after_handshake:
  fixes sock' :: "'e FramedTransport" and sha256 :: "bytes \<Rightarrow> array32" and turns :: "('e connection \<times> task_event list) list"
  assumes "maintain_ca_link Q off sha256 (ca_link_config args psk) turns system = Some (delays, sockets, s')" "sock' \<in> set sockets"
    "reconnect_limits (args_ca_reconnect_min_seconds args) (args_ca_reconnect_max_seconds args) = (lo, hi)"
  defines "outcomes \<equiv> map (\<lambda>turn. turn_outcome sha256 psk (fst turn)) turns"
  shows "(\<exists>nodelay sock events others frames. (Established nodelay sock events, others) \<in> set turns \<and>
      framed_sent sock' = framed_sent sock @ frames \<and> speaks_for sha256 psk sock frames) \<and>
    (length delays = length turns \<or> Suc (length delays) = length turns \<and> last outcomes = Session_ended) \<and>
    delays = map (\<lambda>i. min (lo * 2 ^ (if outcomes ! i = Session_ended then 0 else streak (take i outcomes) 0)) hi) [0..<length delays] \<and>
    set delays \<subseteq> {lo..hi} \<and> 0 < lo"
proof -
  let ?config = "ca_link_config args psk"
  have limits: "link_reconnect_min ?config = lo" "link_reconnect_max ?config = hi" "link_psk ?config = psk"
    using assms(3) by (simp_all add: ca_link_config_def)
  note run = assms(1) [unfolded maintain_ca_link_def]
  from maintain_loop_delays [OF run, unfolded limits, folded outcomes_def]
  have delays: "delays = reconnect_delays lo hi lo (take (length delays) outcomes)"
    and count: "length delays = length turns \<or> Suc (length delays) = length turns \<and> last outcomes = Session_ended" by blast+
  have "length delays \<le> length outcomes" using count by (auto simp: outcomes_def)
  then have len: "length (take (length delays) outcomes) = length delays" by simp
  from reconnect_backoff [where min_seconds = "args_ca_reconnect_min_seconds args" and
      max_seconds = "args_ca_reconnect_max_seconds args" and outcomes = "take (length delays) outcomes", unfolded assms(3) prod.case len, folded delays]
  have short: "delays = map (\<lambda>i. min (lo * 2 ^ (if take (length delays) outcomes ! i = Session_ended then 0
        else streak (take i (take (length delays) outcomes)) 0)) hi) [0..<length delays]"
    and bounds: "set delays \<subseteq> {lo..hi}" "0 < lo" by blast+
  have "map (\<lambda>i. min (lo * 2 ^ (if take (length delays) outcomes ! i = Session_ended then 0
        else streak (take i (take (length delays) outcomes)) 0)) hi) [0..<length delays] =
      map (\<lambda>i. min (lo * 2 ^ (if outcomes ! i = Session_ended then 0 else streak (take i outcomes) 0)) hi) [0..<length delays]"
    by (intro map_cong) (simp_all add: min_absorb1)
  with short have exact: "delays = map (\<lambda>i. min (lo * 2 ^ (if outcomes ! i = Session_ended then 0 else streak (take i outcomes) 0)) hi)
      [0..<length delays]" by (rule trans)
  from maintain_loop_sends [OF run assms(2)] have "\<exists>nodelay sock events others frames. (Established nodelay sock events, others) \<in> set turns \<and>
      framed_sent sock' = framed_sent sock @ frames \<and> speaks_for sha256 psk sock frames" by (simp add: limits)
  with count exact bounds show ?thesis by blast
qed

text \<open>C11: the sessions of the programs are executions of the composed system. From every state that satisfies its invariant, a turn of
  \<open>run_ca_session\<close> whose socket yields the oldest frame on the wire is a step of \<open>System\<close> that leaves the same state behind, puts on
  the wire the frames that the socket took, also where a send fails, and ends the session as the program does; a turn
  of the loop of \<open>cad\<close> likewise, and so is the start of both sessions on a new connection.\<close>

theorem daemon_turns_refine:
  assumes "system_inv w s" "sys_running s"
  shows "(session_turn Q off event (sock, sys_link s) = Some (go_on, sock', link) \<and> sys_broker_up s \<and>
      sys_to_broker s = (if is_Arrives event then arrived sock else []) @ wire \<and>
      (\<forall>fill. event = Takes (Some fill) \<longrightarrow> MessageId fill \<notin> fst ` set (sys_taken s)) \<longrightarrow>
      (\<exists>step s' new. system_step Q off C step s = Some s' \<and> sys_link s' = link \<and> sys_broker_up s' = go_on \<and> sys_to_broker s' = wire \<and>
        sys_to_ca s' = sys_to_ca s @ new \<and> framed_sent sock' = framed_sent sock @ new \<and> sys_cad s' = sys_cad s \<and>
        sys_cad_up s' = sys_cad_up s \<and> sys_running s' = sys_running s)) \<and>
    (cad_turn C cad_event (cad_sock, sys_cad s) = Some (flow, cad_sock', c) \<and> sys_cad_up s \<and>
      sys_to_ca s = (case cad_event of Reads _ _ \<Rightarrow> arrived cad_sock | _ \<Rightarrow> []) @ wire \<and>
      (\<forall>ids now. cad_event = Reads ids now \<longrightarrow> drawn ids \<inter> fst ` set (sys_published s) = {}) \<longrightarrow>
      (\<exists>step s' new. system_step Q off C step s = Some s' \<and> sys_cad s' = c \<and> sys_cad_up s' = (flow = Continue) \<and>
        sys_running s' = (flow \<noteq> Exit) \<and> sys_to_ca s' = wire \<and> sys_to_broker s' = sys_to_broker s @ new \<and>
        framed_sent cad_sock' = framed_sent cad_sock @ new \<and> sys_link s' = sys_link s \<and> sys_broker_up s' = sys_broker_up s)) \<and>
    (send_link_frames (cad_resend (sys_cad s)) cad_sock = (cad_sent, cad_sock1) \<and>
      send_link_frames (if joined then link_resend (sys_link s) else []) sock = (sent, sock1) \<and> \<not> sys_broker_up s \<and> \<not> sys_cad_up s \<longrightarrow>
      (\<exists>step s'. system_step Q off C step s = Some s' \<and> sys_link s' = sys_link s \<and> sys_cad s' = sys_cad s \<and> sys_running s' \<and>
        sys_broker_up s' = (joined \<and> sent) \<and> sys_cad_up s' = cad_sent \<and>
        framed_sent cad_sock1 = framed_sent cad_sock @ sys_to_broker s' \<and> framed_sent sock1 = framed_sent sock @ sys_to_ca s'))"
proof -
  have ok: "cad_ok (sys_cad s)" using assms by (simp add: system_inv_def)
  show ?thesis
    by (intro conjI impI; elim conjE;
        (rule broker_turn_steps | rule cad_turn_steps [OF _ _ assms(2) ok] | rule connection_steps [OF _ _ _ _ assms(2)]); assumption)
qed

section \<open>Witnesses\<close>

lemma sends_all: "framed_outgoing sock = [] \<Longrightarrow> send_link_frames frames sock = (True, sock\<lparr>framed_sent := framed_sent sock @ frames\<rparr>)"
  by (induction frames arbitrary: sock) (simp_all add: framed_send_def next_outgoing_def)

text \<open>A stranger that hangs up, and then the broker.\<close>

theorem cad_serves_authenticated_witness:
  "\<exists>(stranger :: unit accepted) broker (s :: (PersistentStore, nat) cad) sockets served.
    \<not> admitted (\<lambda>bs. of_nat (length bs)) 9 (Some stranger) \<and> admitted (\<lambda>bs. of_nat (length bs)) 9 (Some broker) \<and>
    cad_accept_loop toy_crypto (\<lambda>bs. of_nat (length bs)) 9 [Some stranger, Some broker] s = Some (Continue, sockets, s) \<and>
    cad_accept_loop toy_crypto (\<lambda>bs. of_nat (length bs)) 9 [Some broker] s = Some (Continue, served, s)"
proof -
  let ?sha = "\<lambda>bs :: bytes. of_nat (length bs) :: array32"
  let ?s = demo_daemon
  let ?response = "item_bytes Kind_AuthResponse (MessageId 1, expected_response ?sha 9 2)"
  let ?stranger = "\<lparr>accepted_nodelay = True, accepted_id = Some 1, accepted_challenge = Some 2,
    accepted_socket = (\<lparr>framed_incoming = [], framed_outgoing = [], framed_sent = []\<rparr> :: unit FramedTransport), accepted_events = []\<rparr>"
  let ?broker = "\<lparr>accepted_nodelay = True, accepted_id = Some 1, accepted_challenge = Some 2,
    accepted_socket = (\<lparr>framed_incoming = [Next_frame ?response], framed_outgoing = [], framed_sent = []\<rparr> :: unit FramedTransport), accepted_events = []\<rparr>"
  have who: "\<not> authentic ?sha 9 ?stranger" "authentic ?sha 9 ?broker" by (simp_all add: authentic_def)
  have idle: "cad_resend ?s = []" using demo_daemon_idle(1) pends_reads(1) by (auto simp: cad_idle_def cad_resend_def)
  obtain result sock where stranger: "authenticate_broker_on ?sha 9 (Some 1) (Some 2) (accepted_socket ?stranger) = (result, sock)" by fastforce
  have "\<not> is_ok result" using not_authentic(1) [OF who(1)] stranger by simp
  then have 1: "cad_connection toy_crypto ?sha 9 ?stranger ?s = Some (Break, sock, ?s)"
    using stranger by (cases result) (simp_all add: cad_connection_def)
  obtain sock' where "authenticate_broker_on ?sha 9 (Some 1) (Some 2) (accepted_socket ?broker) = (Inr (), sock')"
    by (simp add: authenticate_broker_on_exact)
  then have 2: "cad_connection toy_crypto ?sha 9 ?broker ?s = Some (Continue, sock', ?s)"
    by (simp add: cad_connection_def idle)
  have run: "cad_accept_loop toy_crypto ?sha 9 [Some ?stranger, Some ?broker] ?s = Some (Continue, [sock, sock'], ?s)"
    by (simp add: 1 2)
  have a: "\<not> admitted ?sha 9 (Some ?stranger)" "admitted ?sha 9 (Some ?broker)" using who by (simp_all add: admitted_def)
  from cad_serves_authenticated [OF run] a obtain served where "cad_accept_loop toy_crypto ?sha 9 [Some ?broker] ?s = Some (Continue, served, ?s)"
    by auto
  with run a show ?thesis by blast
qed

text \<open>The CA is down twice and then completes the handshake.\<close>

theorem broker_speaks_after_handshake_witness:
  "\<exists>(sock :: unit FramedTransport) sock' s'.
    maintain_ca_link fifo_mpsc memory_offline (\<lambda>bs. of_nat (length bs)) (ca_link_config (broker_args_default ''psk'') 9)
      [(Refused, []), (Refused, []), (Established True sock [], [])] (link_system (sys_link demo_start)) = Some ([10 ^ 9, 2 * 10 ^ 9], [sock'], s') \<and>
    framed_sent sock' = [item_bytes Kind_AuthResponse (MessageId 1, expected_response (\<lambda>bs. of_nat (length bs)) 9 2)] \<and>
    speaks_for (\<lambda>bs. of_nat (length bs)) 9 sock (framed_sent sock')"
proof -
  let ?sha = "\<lambda>bs :: bytes. of_nat (length bs) :: array32" and ?args = "broker_args_default ''psk''"
  let ?config = "ca_link_config ?args 9" and ?response = "item_bytes Kind_AuthResponse (MessageId 1, expected_response ?sha 9 2)"
  let ?sock = "\<lparr>framed_incoming = [Next_frame (item_bytes Kind_AuthChallenge (MessageId 1, to_be_bytes (2 :: array32))),
    Next_frame (item_bytes Kind_AuthOk (MessageId 1, []))], framed_outgoing = [], framed_sent = []\<rparr> :: unit FramedTransport"
  let ?sock' = "\<lparr>framed_incoming = [], framed_outgoing = [], framed_sent = [?response]\<rparr> :: unit FramedTransport"
  have auth: "authenticate_ca ?sha 9 ?sock = (Inr (), ?sock')"
    unfolding authenticate_ca_exact by (intro exI [of _ "MessageId 1"] exI [of _ 2]) (simp add: next_outgoing_def)
  have "max (30 :: u64) 1 = 30" "max (1 :: u64) 1 = 1" "max (30 :: u64) 1 = 30" by (rule max_absorb1; simp add: word_le_nat_alt)+
  then have limits: "reconnect_limits (args_ca_reconnect_min_seconds ?args) (args_ca_reconnect_max_seconds ?args) = (10 ^ 9, 30 * 10 ^ 9)"
    by (simp add: reconnect_limits_def broker_args_default_def)
  have none: "pending_snapshot (PendingFrames_new n) = []" for n using pends_reads(1) [OF pends_new] by simp
  obtain s' where run: "maintain_ca_link fifo_mpsc memory_offline ?sha ?config [(Refused, []), (Refused, []), (Established True ?sock [], [])]
      (link_system (sys_link demo_start)) = Some ([10 ^ 9, 2 * 10 ^ 9], [?sock'], s')"
    using limits by (simp add: maintain_ca_link_def auth run_ca_session_def link_resend_def none ca_link_config_def next_backoff_def DURATION_MAX_def)
  from broker_speaks_after_handshake [OF run _ limits, of ?sock'] have "speaks_for ?sha 9 ?sock [?response]" by auto
  with run show ?thesis by (intro exI [of _ ?sock] exI [of _ ?sock']) auto
qed

text \<open>The retry timer of the broker, while a request is pending.\<close>

theorem daemon_turns_refine_witness:
  "\<exists>(s :: (channel_view, MemoryOfflineQueueStore, nat) system) step s'.
     system_step fifo_mpsc memory_offline toy_crypto step s = Some s' \<and> sys_to_ca s' = sys_to_ca s @ link_resend (sys_link s) \<and> link_resend (sys_link s) \<noteq> []"
proof -
  from demo_system obtain s0 where s0: "system_reachable fifo_mpsc memory_offline toy_crypto demo_start s0" "sys_running s0"
    "\<not> pending_is_empty (link_pending (sys_link s0))" by blast
  let ?down = "s0\<lparr>sys_broker_up := False, sys_cad_up := False\<rparr>"
  let ?sent = "length (link_resend (sys_link s0))" and ?cad_sent = "length (cad_resend (sys_cad s0))"
  obtain s where s: "system_run fifo_mpsc memory_offline toy_crypto [Broker_leaves, Cad_leaves, Connects True ?sent ?cad_sent] s0 = Some s"
    "sys_link s = sys_link s0" "sys_broker_up s" "sys_running s"
    using s0(2) by (simp add: connects_def broker_sends_def cad_sends_def)
  have inv: "system_inv 4096 s"
    by (rule system_reachable_inv [OF system_run_reachable [OF s0(1) s(1)] system_start_inv]) (simp_all add: demo_daemon_idle)
  let ?sock = "\<lparr>framed_incoming = [], framed_outgoing = [], framed_sent = []\<rparr> :: unit FramedTransport"
  let ?frames = "link_resend (sys_link s)"
  have turn: "session_turn fifo_mpsc memory_offline Ticks (?sock, sys_link s) = Some (True, ?sock\<lparr>framed_sent := ?frames\<rparr>, sys_link s)"
    using s0(3) s(2) by (simp add: session_turn_def sends_all)
  have "\<exists>items. pends Kind_Request (link_pending (sys_link s)) items" using inv sender_pends by (auto simp: system_inv_def)
  then have "?frames \<noteq> []" using s0(3) s(2) pends_reads(1,2) by (fastforce simp: link_resend_def)
  with daemon_turns_refine [THEN conjunct1, OF inv s(4), of fifo_mpsc memory_offline Ticks ?sock True "?sock\<lparr>framed_sent := ?frames\<rparr>" "sys_link s"
      "sys_to_broker s" toy_crypto] turn s(3)
  show ?thesis by auto
qed

end
