(* ===== verification/Limitations.thy ===== *)
theory Limitations
  imports Disk Progress Daemon_loops
begin

text \<open>
  Where the guarantees end: behaviours of the code at its limits, each stated as it is. A refused subscription
  grows the table of the memory store, the persistent store accepts a subscription with which its snapshot does not open
  again, a deduplication window that is smaller than the resent deliveries routes them twice, a request without an
  identifier is dropped, and the broker takes anybody for the CA who answers on the connection.
\<close>

section \<open>Refused subscriptions\<close>

lemma bt_len_insert_fresh: "bt_wf m \<Longrightarrow> bt_get m k = None \<Longrightarrow> bt_len (bt_insert k v m) = Suc (bt_len m)"
  by (simp add: bt.len_insert bt_contains_key_def)

lemma mem_put_new_type:
  assumes "bt_wf (mem_subscriptions s)" "limit_subscriptions (mem_limits s) \<le> subscription_count (mem_subscriptions s)"
    "bt_get (mem_subscriptions s) (sub_type_id sub) = None"
  shows "mem_put_subscription s sub = (Inl Capacity, s\<lparr>mem_subscriptions := bt_insert (sub_type_id sub) [] (mem_subscriptions s)\<rparr>)"
    "subscription_count (bt_insert (sub_type_id sub) [] (mem_subscriptions s)) = subscription_count (mem_subscriptions s)"
  using assms subscription_count_insert [OF assms(1), of "sub_type_id sub" "[]"]
  by (simp_all add: mem_put_subscription_def upsert_subscription_def bucket_of_def)

text \<open>A memory store at its limit refuses every subscription of a new type, and each refused call adds an entry to the map.\<close>

theorem refused_subscriptions_grow:
  assumes "bt_wf (mem_subscriptions s)" "limit_subscriptions (mem_limits s) \<le> subscription_count (mem_subscriptions s)"
    "\<forall>sub\<in>set subs. bt_get (mem_subscriptions s) (sub_type_id sub) = None" "distinct (map sub_type_id subs)"
  shows "bt_len (mem_subscriptions (fold (\<lambda>sub s. snd (mem_put_subscription s sub)) subs s)) = bt_len (mem_subscriptions s) + length subs \<and>
    (\<forall>i<length subs. fst (mem_put_subscription (fold (\<lambda>sub s. snd (mem_put_subscription s sub)) (take i subs) s) (subs ! i)) = Inl Capacity)"
  using assms
proof (induction subs arbitrary: s)
  case (Cons sub subs)
  let ?s = "s\<lparr>mem_subscriptions := bt_insert (sub_type_id sub) [] (mem_subscriptions s)\<rparr>"
  have new: "bt_get (mem_subscriptions s) (sub_type_id sub) = None" using Cons.prems(3) by simp
  note put = mem_put_new_type [OF Cons.prems(1,2) new]
  have "bt_get (mem_subscriptions ?s) (sub_type_id x) = None" if "x \<in> set subs" for x
    using that Cons.prems(3,4) by (auto simp: image_iff)
  with Cons.IH [of ?s] Cons.prems put have IH: "bt_len (mem_subscriptions (fold (\<lambda>sub s. snd (mem_put_subscription s sub)) subs ?s)) =
      bt_len (mem_subscriptions ?s) + length subs"
    "\<forall>i<length subs. fst (mem_put_subscription (fold (\<lambda>sub s. snd (mem_put_subscription s sub)) (take i subs) ?s) (subs ! i)) = Inl Capacity"
    by auto
  show ?case
  proof (intro conjI allI impI)
    show "bt_len (mem_subscriptions (fold (\<lambda>sub s. snd (mem_put_subscription s sub)) (sub # subs) s)) =
        bt_len (mem_subscriptions s) + length (sub # subs)"
      using IH(1) put(1) bt_len_insert_fresh [OF Cons.prems(1) new] by simp
  next
    fix i assume "i < length (sub # subs)"
    then show "fst (mem_put_subscription (fold (\<lambda>sub s. snd (mem_put_subscription s sub)) (take i (sub # subs)) s) ((sub # subs) ! i)) = Inl Capacity"
      using IH(2) put(1) by (cases i) simp_all
  qed
qed simp

section \<open>A snapshot that does not open\<close>

lemma none_handler_decodes:
  assumes "kind_of (sub_encoded sub) (sub_type_id sub) = Some (sub_kind sub)" "sub_handler sub = HandlerId_NONE"
  shows "decode_subscriptions (Suc n) acc (scur pre (subscription_bytes sub @ rest)) = Inl Malformed"
proof -
  have "length (sub_encoded sub) \<le> 3640" using assms(1) by (rule kind_of_length)
  then show ?thesis
    using assms by (simp add: subscription_bytes_def state_reads state_blobs.parse_print const_defs)
qed

lemma none_handler_layout:
  assumes wf: "state_wf limits st" and limits: "limits_ok limits" "0 < limit_subscriptions limits"
    and sub: "kind_of (sub_encoded sub) (sub_type_id sub) = Some (sub_kind sub)" "sub_handler sub = HandlerId_NONE"
  defines "st' \<equiv> st\<lparr>state_subscriptions := [(sub_type_id sub, [sub])]\<rparr>"
  shows "encode_state st' = Inr (state_layout st')" "decode_state (state_layout st') limits = Inl Malformed"
    "length (state_layout st') \<le> snapshot_bound limits"
proof -
  let ?rest = "count_bytes (bt_len (cache_entries (state_replay st))) @ concat (map replay_bytes (cache_entries (state_replay st)))"
  have len: "length (sub_encoded sub) \<le> 3640" using sub(1) by (rule kind_of_length)
  have c: "bt_len (state_keys st) \<le> limit_agents limits" "bt_len (state_keys st) < 2 ^ 32"
    "bt_len (state_environments st) \<le> limit_environments limits" "bt_len (state_environments st) < 2 ^ 32"
    "bt_len (cache_entries (state_replay st)) < 2 ^ 32" "1 \<le> limit_subscriptions limits"
    using assms by (auto simp: state_wf_def limits_ok_def)
  have parsed: "\<forall>(a, e)\<in>set (state_environments st). is_environment e" using wf by (simp add: state_wf_def)
  have one: "subscription_count (state_subscriptions st') = 1" "all_subscriptions (state_subscriptions st') = [sub]"
    by (simp_all add: st'_def subscription_count_def all_subscriptions_def)
  have "encode_subscriptions out (state_subscriptions st') = Inr (out @ subscription_bytes sub)" for out
    using len by (simp add: st'_def push_bytes_ok subscription_bytes_def)
  then show "encode_state st' = Inr (state_layout st')"
    using c parsed
    by (simp add: encode_state_def one push_u32_ok encode_keys_layout encode_environments_layout encode_replays_layout state_layout_def)
      (simp add: st'_def push_u32_ok encode_keys_layout encode_environments_layout encode_replays_layout)
  have "\<forall>(a, _)\<in>set (state_keys st). a \<noteq> AgentId_CA" using wf by (auto simp: state_wf_def bt_iter_iff)
  then have k: "decode_keys (bt_len (state_keys st)) bt_empty (scur pre (concat (map key_bytes (state_keys st)) @ rest)) =
      Inr (state_keys st, scur (pre @ concat (map key_bytes (state_keys st))) rest)" for pre rest
    using decode_keys_layout [of "[]" "state_keys st"] wf by (simp add: state_wf_def bt_len_def bt_empty_def)
  have e: "decode_environments (bt_len (state_environments st)) bt_empty (scur pre (concat (map environment_entry_bytes (state_environments st)) @ rest)) =
      Inr (state_environments st, scur (pre @ concat (map environment_entry_bytes (state_environments st))) rest)" for pre rest
    using decode_environments_layout [of "[]" "state_environments st"] wf by (simp add: state_wf_def bt_len_def bt_empty_def)
  have s: "decode_subscriptions 1 bt_empty (scur pre (subscription_bytes sub @ rest)) = Inl Malformed" for pre rest
    using none_handler_decodes [OF sub, of 0] by simp
  have layout: "state_layout st' = STATE_MAGIC @ count_bytes (bt_len (state_keys st)) @ concat (map key_bytes (state_keys st)) @
      count_bytes (bt_len (state_environments st)) @ concat (map environment_entry_bytes (state_environments st)) @
      count_bytes 1 @ subscription_bytes sub @ ?rest"
    by (simp add: state_layout_def one) (simp add: st'_def)
  have start: "\<lparr>state_input = state_layout st', state_position = 0\<rparr> = scur [] (state_layout st')" by (simp add: scur_def)
  have magic: "length STATE_MAGIC = 8" by (simp add: STATE_MAGIC_def)
  show "decode_state (state_layout st') limits = Inl Malformed"
    unfolding decode_state_def start
    by (simp add: layout state_take_scur magic state_counts.parse_print c [simplified] k e s [simplified])
  let ?sub = "sub\<lparr>sub_handler := HandlerId 1\<rparr>"
  have "state_wf limits (st\<lparr>state_subscriptions := [(sub_type_id sub, [?sub])]\<rparr>)"
    using sub limits(2)
    by (intro state_wf_set_subscriptions [OF wf])
      (simp_all add: bt_wf_def subscription_count_def buckets_ok_def stored_ok_def HandlerId_NONE_def)
  from state_layout_bound [OF this] show "length (state_layout st') \<le> snapshot_bound limits"
    by (simp add: state_layout_def all_subscriptions_def subscription_count_def subscription_bytes_def st'_def)
qed

text \<open>On a working disk the persistent store without subscriptions accepts one for the handler \<open>NONE\<close> and commits it; then the
  file does not open.\<close>

theorem none_handler_snapshot_lost:
  assumes "ready s" "state_subscriptions (ps_state s) = []" "0 < limit_subscriptions (ps_limits s)"
    "kind_of (sub_encoded sub) (sub_type_id sub) = Some (sub_kind sub)" "sub_handler sub = HandlerId_NONE"
  shows "\<exists>s'. ps_put_subscription s sub = (Inr (), s') \<and> ps_open False faults (ps_files s') (ps_limits s') = Inl Malformed"
proof -
  let ?st = "(ps_state s)\<lparr>state_subscriptions := [(sub_type_id sub, [sub])]\<rparr>"
  have wf: "state_wf (ps_limits s) (ps_state s)" "limits_ok (ps_limits s)" using assms(1) by (simp_all add: ready_def ps_inv_def)
  note layout = none_handler_layout [OF wf assms(3-5)]
  have small: "length (state_layout ?st) \<le> SNAPSHOT_MAX" using layout(3) assms(1) by (simp add: ready_def)
  have "upsert_subscription (limit_subscriptions (ps_limits s)) sub [] = (Inr (), [(sub_type_id sub, [sub])])"
    using assms(3) by (simp add: upsert_subscription_def subscription_count_def bucket_of_def bt_get_def)
  with assms layout(1) small have "ps_put_subscription s sub = (Inr (), s\<lparr>ps_files := \<lparr>snapshot_path = Some (state_layout ?st), temporary_path = None\<rparr>,
      ps_faults := [], ps_state := ?st\<rparr>)"
    by (simp add: ps_put_subscription_def ps_commit_def snapshot_commit_def no_faults_def ready_def Let_def)
  with small layout(2) show ?thesis by (simp add: ps_open_def snapshot_load_def)
qed

section \<open>A window that is too small\<close>

fun link_reads ::
  "'c mpsc \<Rightarrow> 'q OfflineQueueStore \<Rightarrow> bytes list \<Rightarrow> ('c, 'q) ca_link \<Rightarrow> bool \<times> bytes list \<times> ('c, 'q) ca_link" where
  "link_reads Q off [] s = (True, [], s)"
| "link_reads Q off (received # frames) s =
     (let (go_on, sent, s) = link_incoming Q off [] received s in
      if \<not> go_on then (False, sent, s)
      else let (go_on, later, s) = link_reads Q off frames s in (go_on, sent @ later, s))"

lemma reads_fresh:
  assumes "distinct (xs @ map fst items)" "\<forall>x\<in>set items. link_valid (item_frame Kind_Delivery x)" "0 < dedup_maximum (link_acquired s)"
    "dedup_inv (link_acquired s)" "dedup_order (link_acquired s) = last_n (dedup_maximum (link_acquired s)) xs"
    "routable Q off (map snd items @ tail) (link_system s)"
  shows "\<exists>s'. link_reads Q off (map (item_bytes Kind_Delivery) items) s = (True, map (\<lambda>x. item_bytes Kind_Ack (fst x, [])) items, s') \<and>
    dedup_inv (link_acquired s') \<and> dedup_order (link_acquired s') = last_n (dedup_maximum (link_acquired s)) (xs @ map fst items) \<and>
    dedup_maximum (link_acquired s') = dedup_maximum (link_acquired s) \<and>
    link_system s' = fold (\<lambda>x system. snd (ca_deliver Q off [] (snd x) system)) items (link_system s) \<and> routable Q off tail (link_system s')"
  using assms
proof (induction items arbitrary: s xs)
  case (Cons x items)
  obtain system where deliver: "ca_deliver Q off [] (snd x) (link_system s) = (Inr (), system)" "routable Q off (map snd items @ tail) system"
    using Cons.prems(6) by (auto simp: is_ok_iff split: prod.splits)
  let ?w = "link_acquired s"
  have fresh: "\<not> dedup_contains ?w (fst x)"
    using Cons.prems(1,4,5) set_drop_subset by (fastforce simp: dedup_contains_order last_n_def)
  note ins = dedup_insert_refines [OF Cons.prems(4), of "fst x"]
  let ?s = "s\<lparr>link_system := system, link_acquired := snd (dedup_insert ?w (fst x))\<rparr>"
  have "link_incoming Q off [] (item_bytes Kind_Delivery x) s = (True, [item_bytes Kind_Ack (fst x, [])], ?s)"
    using fresh deliver(1) ins(1) Cons.prems(2,3)
    by (cases "dedup_insert ?w (fst x)") (simp add: link_incoming_delivery [OF decode_item])
  moreover have "dedup_order (link_acquired ?s) = last_n (dedup_maximum ?w) (xs @ [fst x])"
    using ins(3) fresh Cons.prems(4,5) by (simp add: dedup_contains_order last_n_append_one)
  moreover note Cons.IH [of "xs @ [fst x]" ?s] Cons.prems(1-3) ins(2,4) deliver
  ultimately show ?case by auto
qed simp

text \<open>A broker whose window holds \<open>w\<close> identifiers reads tail than \<open>w\<close> deliveries, acknowledges all of them, and then reads the
  first one again because its acknowledgement was lost: it is handed to the router a second time.\<close>

theorem small_window_routes_twice:
  assumes "distinct (map fst (x # items))" "dedup_maximum w \<le> length items" "0 < dedup_maximum w" "dedup_inv w" "dedup_order w = []"
    "\<forall>y\<in>set (x # items). link_valid (item_frame Kind_Delivery y)"
    "routable Q off (map snd (x # items) @ [snd x]) (link_system s)" "link_acquired s = w"
  shows "\<exists>s'. link_reads Q off (map (item_bytes Kind_Delivery) (x # items @ [x])) s =
      (True, map (\<lambda>x. item_bytes Kind_Ack (fst x, [])) (x # items @ [x]), s') \<and>
    link_system s' = fold (\<lambda>x system. snd (ca_deliver Q off [] (snd x) system)) (x # items @ [x]) (link_system s)"
proof -
  let ?n = "dedup_maximum w"
  have drop: "last_n ?n (fst x # map fst items) = last_n ?n (map fst items)"
    using assms(2) by (simp add: last_n_def Suc_diff_le)
  have kept: "last_n ?n (last_n ?n (map fst items)) = last_n ?n (map fst items)" by (simp add: last_n_def)
  from reads_fresh [of "[]" "x # items" s Q off "[snd x]"] assms obtain s1 where
    1: "link_reads Q off (map (item_bytes Kind_Delivery) (x # items)) s = (True, map (\<lambda>x. item_bytes Kind_Ack (fst x, [])) (x # items), s1)"
    "dedup_inv (link_acquired s1)" "dedup_order (link_acquired s1) = last_n ?n (map fst items)" "dedup_maximum (link_acquired s1) = ?n"
    "link_system s1 = fold (\<lambda>x system. snd (ca_deliver Q off [] (snd x) system)) (x # items) (link_system s)" "routable Q off [snd x] (link_system s1)"
    by (auto simp: last_n_def [of _ "[]"] drop)
  have "distinct (last_n ?n (map fst items) @ [fst x])"
    using assms(1) set_drop_subset [of _ "map fst items"] by (auto simp: last_n_def dest: in_set_dropD)
  with reads_fresh [of "last_n ?n (map fst items)" "[x]" s1 Q off "[]"] 1 assms(3,6) kept obtain s2 where
    2: "link_reads Q off [item_bytes Kind_Delivery x] s1 = (True, [item_bytes Kind_Ack (fst x, [])], s2)"
    "link_system s2 = snd (ca_deliver Q off [] (snd x) (link_system s1))"
    by auto
  have reads: "link_reads Q off (frames @ frames') s = (True, sent @ sent', s')"
    if "link_reads Q off frames s = (True, sent, s1)" "link_reads Q off frames' s1 = (True, sent', s')" for frames frames' sent sent' s s1 s'
    using that
  proof (induction frames arbitrary: s sent)
    case (Cons frame frames)
    obtain go first s2 where step: "link_incoming Q off [] frame s = (go, first, s2)" by (metis prod.exhaust)
    with Cons.prems(1) obtain later where "go" "link_reads Q off frames s2 = (True, later, s1)" "sent = first @ later"
      by (auto split: if_splits prod.splits)
    with Cons.IH [OF _ Cons.prems(2)] step show ?case by simp
  qed simp
  from reads [OF 1(1) 2(1)] 1(5) 2(2) show ?thesis by simp
qed

section \<open>The link\<close>

text \<open>A request that was taken from the queue while no identifier could be drawn is neither sent nor pending.\<close>

theorem request_without_identifier_lost:
  assumes "link_request Q (random_id None) s = Some (frames, s')"
  shows "frames = [] \<and> link_pending s' = link_pending s \<and> (\<exists>request. ca_take Q (link_system s) = (Some request, link_system s'))"
  using assms by (auto simp: link_request_def random_id_def Let_def split: if_splits prod.splits option.splits)

text \<open>The MAC authenticates the broker to the CA only. A peer that knows no key completes the broker's side of the
  handshake with any challenge and its success frame, and then its acknowledgement removes the pending request.\<close>

theorem impostor_acknowledges:
  assumes "pends Kind_Request (link_pending s) [(i, request)]"
    and sock: "sock = \<lparr>framed_incoming = [Next_frame (item_bytes Kind_AuthChallenge (challenge, to_be_bytes (cb :: array32))),
      Next_frame (item_bytes Kind_AuthOk (challenge, [])), Next_frame (item_bytes Kind_Ack (i, []))], framed_outgoing = [], framed_sent = []\<rparr>"
  shows "\<exists>sock' s'. run_connection Q off sha256 psk (Established True sock [Arrives []]) s = Some (None, [sock'], s') \<and>
    framed_sent sock' = [item_bytes Kind_AuthResponse (challenge, expected_response sha256 psk cb), item_bytes Kind_Request (i, request)] \<and>
    link_system s' = link_system s \<and> pending_is_empty (link_pending s')"
proof -
  let ?response = "item_bytes Kind_AuthResponse (challenge, expected_response sha256 psk cb)"
  let ?sock = "\<lparr>framed_incoming = [Next_frame (item_bytes Kind_Ack (i, []))], framed_outgoing = [], framed_sent = [?response]\<rparr>"
  have auth: "authenticate_ca sha256 psk sock = (Inr (), ?sock)"
    unfolding authenticate_ca_exact sock by (intro exI [of _ challenge] exI [of _ cb]) (simp add: next_outgoing_def)
  have resend: "link_resend s = [item_bytes Kind_Request (i, request)]"
    using pends_reads(1) [OF assms(1)] by (simp add: link_resend_def)
  have ack: "decode_link (item_bytes Kind_Ack (i, [])) = Inr (item_frame Kind_Ack (i, []))"
    by (rule decode_item) (simp add: link_valid_def item_frame_def)
  have "pending_is_empty (snd (pending_acknowledge (link_pending s) i))"
    using pends_ack(1) [OF assms(1), of i] pends_reads(2) by fastforce
  then show ?thesis
    by (simp add: auth run_ca_session_def resend sends_all session_turn_def framed_next_def next_incoming_def
        link_incoming_ack [OF ack] del: send_link_frames.simps)
qed

end
