(* ===== verification/Application.thy ===== *)
theory Application
  imports Support Domains
begin

text \<open>
  The shape of the command-line agents: a state with the network, the random source and the replay cache, requests that
  are built and submitted, and the turn of every receive loop. A program ends with an error or at the end of its
  input, or it is waiting for what comes next; it is \<open>None\<close> while a network call is still retrying. What the programs print
  on the standard output is modelled line by line; the messages on the standard error are not. A program keeps nothing of a delivery
  but the line it prints; what \<open>Agent::receive\<close> returned to it is recorded in a history field that nothing reads.
\<close>

datatype AppError =
    Config_failed ConfigError | Random_failed | Invalid_model ModelError | Missing_floor | Protocol_failed Error | Input_failed | Bad_input

datatype program_end = Program_failed AppError | Program_done | Program_waits

record ('e, 'r) app =
  app_net :: "'e network"
  app_rng :: 'r
  app_replay :: FixedReplayCache
  app_stdout :: "bytes list"
  history_deliveries :: "Delivery list"

definition println :: "bytes \<Rightarrow> ('e, 'r) app \<Rightarrow> ('e, 'r) app" where
  "println line s = s\<lparr>app_stdout := app_stdout s @ [line]\<rparr>"

text \<open>The display of an unsigned integer.\<close>

fun display_nat :: "nat \<Rightarrow> bytes" where
  "display_nat n = (if n < 10 then [of_nat (48 + n)] else display_nat (n div 10) @ [of_nat (48 + n mod 10)])"

declare display_nat.simps [simp del]

datatype line_event = Line bytes | Line_failed | Line_end

type_synonym ('e, 'r) program = "(program_end \<times> ('e, 'r) app) option"

text \<open>\<open>?\<close> in a program, on a result and on a result with the state after it.\<close>

definition tryP :: "AppError + 'a \<Rightarrow> ('e, 'r) app \<Rightarrow> ('a \<Rightarrow> ('e, 'r) program) \<Rightarrow> ('e, 'r) program" where
  "tryP result s k = (case result of Inl e \<Rightarrow> Some (Program_failed e, s) | Inr x \<Rightarrow> k x)"

definition tryR :: "(Error + 'a) \<times> 'r \<Rightarrow> ('e, 'r) app \<Rightarrow> ('a \<Rightarrow> ('e, 'r) app \<Rightarrow> ('e, 'r) program) \<Rightarrow> ('e, 'r) program" where
  "tryR result s k =
     (case result of
        (Inl e, rng) \<Rightarrow> Some (Program_failed (Protocol_failed e), s\<lparr>app_rng := rng\<rparr>)
      | (Inr x, rng) \<Rightarrow> k x (s\<lparr>app_rng := rng\<rparr>))"

text \<open>A network call that returned.\<close>

definition tryN :: "'e network option \<Rightarrow> ('e, 'r) app \<Rightarrow> (('e, 'r) app \<Rightarrow> ('e, 'r) program) \<Rightarrow> ('e, 'r) program" where
  "tryN net s k = (case net of None \<Rightarrow> None | Some net \<Rightarrow> k (s\<lparr>app_net := net\<rparr>))"

lemma program_simps [simp]:
  "tryP (Inl e) s k = Some (Program_failed e, s)" "tryP (Inr x) s k = k x"
  "tryR (Inl f, rng) s k' = Some (Program_failed (Protocol_failed f), s\<lparr>app_rng := rng\<rparr>)" "tryR (Inr y, rng) s k' = k' y (s\<lparr>app_rng := rng\<rparr>)"
  "tryN None s k'' = None" "tryN (Some net) s k'' = k'' (s\<lparr>app_net := net\<rparr>)"
  by (simp_all add: tryP_def tryR_def tryN_def)

definition model_result :: "(ModelError + unit) \<times> 'b \<Rightarrow> (AppError + unit) \<times> 'b" where
  "model_result r = (map_err Invalid_model (fst r), snd r)"

lemma model_result_simps [simp]:
  "model_result (Inl e, b) = (Inl (Invalid_model e), b)" "model_result (Inr u, b) = (Inr u, b)"
  by (simp_all add: model_result_def)

section \<open>Receive loops\<close>

text \<open>One turn: a failed socket is replaced, a rejected frame is skipped, and for a delivery the program prints its line, \<open>announce\<close>
  followed by the type of the delivery.\<close>

definition receive_turn ::
  "'r crypto \<Rightarrow> AgentConfig \<Rightarrow> Agent \<Rightarrow> HandlerId \<Rightarrow> bytes \<Rightarrow> 'e next_event \<Rightarrow> u64 \<Rightarrow> ('e, 'r) app \<Rightarrow> (bool \<times> ('e, 'r) app) option" where
  "receive_turn C config agent handler announce event now s =
     (case tokio_receive event of
        Inl _ \<Rightarrow>
          (case connect_agent config (agent_id agent) (app_net s) of
             None \<Rightarrow> None | Some net \<Rightarrow> Some (False, s\<lparr>app_net := net\<rparr>))
      | Inr frame \<Rightarrow>
          (case receive C fixed_check_and_mark agent frame handler (app_replay s) now of
             (Inl _, replay) \<Rightarrow> Some (False, s\<lparr>app_replay := replay\<rparr>)
           | (Inr d, replay) \<Rightarrow>
               let s = s\<lparr>app_replay := replay, history_deliveries := history_deliveries s @ [d]\<rparr> in
               Some (True, println (announce @ display_nat (unat (type_u32 (delivery_type_id d)))) s)))"

fun receive_loop ::
  "'r crypto \<Rightarrow> AgentConfig \<Rightarrow> Agent \<Rightarrow> HandlerId \<Rightarrow> bytes \<Rightarrow> ('e next_event \<times> u64) list \<Rightarrow> ('e, 'r) app \<Rightarrow> ('e, 'r) program" where
  "receive_loop C config agent handler announce [] s = Some (Program_waits, s)"
| "receive_loop C config agent handler announce ((event, now) # events) s =
     (case receive_turn C config agent handler announce event now s of
        None \<Rightarrow> None | Some (_, s) \<Rightarrow> receive_loop C config agent handler announce events s)"

definition app_start :: "'e network \<Rightarrow> 'r \<Rightarrow> ('e, 'r) app" where
  "app_start net rng = \<lparr>app_net = net, app_rng = rng, app_replay = FixedReplayCache_new 256 600, app_stdout = [],
     history_deliveries = []\<rparr>"

end
