(* ===== verification/Building_app.thy ===== *)
theory Building_app
  imports Application
begin

text \<open>
  \<open>smart-building-agent/src/main.rs\<close>: the sensor, the control panel and the maintenance terminal. JSON and the
  command line are parsed by other crates.
\<close>

datatype building_role = Role_Sensor | Role_ControlPanel | Role_MaintenanceTerminal

record building_config =
  building_common :: AgentConfig
  building_role :: building_role
  building_id :: bytes
  building_floor_id :: "i64 option"
  building_alert_zone :: bytes
  building_operational :: bool
  building_temperature_centi_celsius :: i64

definition building_HANDLER :: HandlerId where
  "building_HANDLER = HandlerId (from_be_bytes (ascii ''building-handler''))"

definition building_log :: "string \<Rightarrow> bytes" where
  "building_log event = ascii (''smart-building-agent event='' @ event)"

section \<open>The environment of each role\<close>

definition building_agent_environment :: "building_config \<Rightarrow> (AppError + unit) \<times> smart_building EnvironmentBuilder" where
  "building_agent_environment config =
     tryS (model_result (env_bytes building_environment building_BUILDING_ID (building_id config))) (\<lambda>_ environment.
     tryS (model_result (env_bytes environment building_ALERT_ZONE (building_alert_zone config))) (\<lambda>_ environment.
     tryS (model_result (env_bool environment building_OPERATIONAL (building_operational config))) (\<lambda>_ environment.
     case building_role config of
       Role_Sensor \<Rightarrow>
         tryS (ok_or (building_floor_id config) Missing_floor, environment) (\<lambda>floor environment.
         tryS (model_result (env_i64 environment building_FLOOR_ID floor)) (\<lambda>_ environment.
         tryS (model_result (env_i64 environment building_DEVICE_CLASS (DeviceClass_i64 Sensor))) (\<lambda>_ environment.
         tryS (model_result (env_bool environment building_CERTIFIED_DEVICE True)) (\<lambda>_ environment.
         model_result (env_i64 environment building_TEMPERATURE (building_temperature_centi_celsius config))))))
     | Role_ControlPanel \<Rightarrow>
         tryS (model_result (env_i64 environment building_DEVICE_CLASS (DeviceClass_i64 ControlPanel))) (\<lambda>_ environment.
         model_result (env_i64 environment building_USER_ROLE (UserRole_i64 ControlOperator)))
     | Role_MaintenanceTerminal \<Rightarrow>
         tryS (model_result (env_i64 environment building_DEVICE_CLASS (DeviceClass_i64 MaintenanceTerminal))) (\<lambda>_ environment.
         model_result (env_i64 environment building_USER_ROLE (UserRole_i64 MaintenanceOperator))))))"

section \<open>The predicates\<close>

definition sensor_audience :: "bytes \<Rightarrow> AppError + ClauseRef list" where
  "sensor_audience building =
     tryE (map_err Invalid_model (building_audience building)) (\<lambda>audience.
     case model_result (predicate_i64 audience building_USER_ROLE Operator_Eq (UserRole_i64 ControlOperator)) of
       (Inl e, _) \<Rightarrow> Inl e | (Inr _, audience) \<Rightarrow> Inr (predicate_clauses audience))"

definition panel_subscription :: "bytes \<Rightarrow> AppError + ClauseRef list" where
  "panel_subscription building =
     tryE (map_err Invalid_model (building_subscription building)) (\<lambda>subscription.
     case model_result (predicate_bool subscription building_CERTIFIED_DEVICE Operator_Eq True) of
       (Inl e, _) \<Rightarrow> Inl e | (Inr _, subscription) \<Rightarrow> Inr (predicate_clauses subscription))"

section \<open>The programs\<close>

fun sensor_loop ::
  "'r crypto \<Rightarrow> building_config \<Rightarrow> Agent \<Rightarrow> AttributeRef list \<Rightarrow> line_event list \<Rightarrow> ('e, 'r) app \<Rightarrow> ('e, 'r) program" where
  "sensor_loop C config agent environment [] s = Some (Program_waits, s)"
| "sensor_loop C config agent environment (Line_failed # lines) s = Some (Program_failed Input_failed, s)"
| "sensor_loop C config agent environment (Line_end # lines) s = Some (Program_done, s)"
| "sensor_loop C config agent environment (Line line # lines) s =
     tryP (ok_or (parse_i64 (trim line)) Bad_input) s (\<lambda>temperature.
     tryP (sensor_audience (building_id config)) s (\<lambda>audience.
     tryR (publish_request C agent building_SENSOR_READING audience (to_be_bytes temperature) (app_rng s)) s (\<lambda>frame s.
     tryR (set_environment_request C agent environment (app_rng s)) s (\<lambda>environment_frame s.
     tryN (send_on_demand_frames (building_common config) (agent_id agent) [environment_frame, frame] (app_net s)) s (\<lambda>s.
     sensor_loop C config agent environment lines
       (println (building_log ''publication-submitted type='' @ display_nat (unat (type_u32 building_SENSOR_READING))) s))))))"

definition run_sensor ::
  "'r crypto \<Rightarrow> building_config \<Rightarrow> Agent \<Rightarrow> AttributeRef list \<Rightarrow> line_event list \<Rightarrow> ('e, 'r) app \<Rightarrow> ('e, 'r) program" where
  "run_sensor C config agent environment lines s =
     sensor_loop C config agent environment lines (println (building_log ''request-submitted role=sensor v1-ack=unavailable'') s)"

definition run_panel ::
  "'r crypto \<Rightarrow> building_config \<Rightarrow> Agent \<Rightarrow> ('e next_event \<times> u64) list \<Rightarrow> ('e, 'r) app \<Rightarrow> ('e, 'r) program" where
  "run_panel C config agent events s =
     tryP (panel_subscription (building_id config)) s (\<lambda>subscription.
     tryR (subscribe_permanent_request C agent building_SENSOR_READING building_HANDLER subscription (app_rng s)) s (\<lambda>frame s.
     tryN (send_agent_frame (building_common config) (agent_id agent) frame (app_net s)) s (\<lambda>s.
     let s = println (building_log ''request-submitted role=control-panel v1-ack=unavailable'') s in
     receive_loop C (building_common config) agent building_HANDLER (building_log ''delivery-accepted type='') events
       (s\<lparr>app_replay := FixedReplayCache_new 256 600\<rparr>))))"

definition run_maintenance ::
  "'r crypto \<Rightarrow> building_config \<Rightarrow> Agent \<Rightarrow> ('e next_event \<times> u64) list \<Rightarrow> ('e, 'r) app \<Rightarrow> ('e, 'r) program" where
  "run_maintenance C config agent events s =
     tryP (map_err Invalid_model (building_subscription (building_id config))) s (\<lambda>subscription.
     tryR (subscribe_permanent_request C agent building_MAINTENANCE_COMMAND building_HANDLER (predicate_clauses subscription) (app_rng s)) s (\<lambda>frame s.
     tryN (send_agent_frame (building_common config) (agent_id agent) frame (app_net s)) s (\<lambda>s.
     let s = println (building_log ''request-submitted role=maintenance-terminal v1-ack=unavailable'') s in
     receive_loop C (building_common config) agent building_HANDLER (building_log ''delivery-accepted type='') events
       (s\<lparr>app_replay := FixedReplayCache_new 256 600\<rparr>))))"

text \<open>\<open>main\<close> after its configuration was read; the random source may fail.\<close>

definition building_main ::
  "'r crypto \<Rightarrow> (bytes \<Rightarrow> bytes option) \<Rightarrow> files \<Rightarrow> building_config \<Rightarrow> 'r option \<Rightarrow> line_event list \<Rightarrow> ('e next_event \<times> u64) list
     \<Rightarrow> ('e, 'r) app \<Rightarrow> ('e, 'r) program" where
  "building_main C hex files config seeded lines events s =
     tryP (map_err Config_failed (load_agent hex files (building_common config))) s (\<lambda>agent.
     tryP (ok_or seeded Random_failed) s (\<lambda>rng.
     let s = s\<lparr>app_rng := rng\<rparr>; (built, environment) = building_agent_environment config in
     tryP built s (\<lambda>_.
     case building_role config of
       Role_Sensor \<Rightarrow> run_sensor C config agent (env_attributes environment) lines s
     | Role_ControlPanel \<Rightarrow>
         tryN (connect_agent (building_common config) (agent_id agent) (app_net s)) s (\<lambda>s.
         tryR (set_environment_request C agent (env_attributes environment) (app_rng s)) s (\<lambda>frame s.
         tryN (send_agent_frame (building_common config) (agent_id agent) frame (app_net s)) s (\<lambda>s.
         run_panel C config agent events s)))
     | Role_MaintenanceTerminal \<Rightarrow>
         tryN (connect_agent (building_common config) (agent_id agent) (app_net s)) s (\<lambda>s.
         tryR (set_environment_request C agent (env_attributes environment) (app_rng s)) s (\<lambda>frame s.
         tryN (send_agent_frame (building_common config) (agent_id agent) frame (app_net s)) s (\<lambda>s.
         run_maintenance C config agent events s))))))"

end
