(* ===== verification/Swarm_app.thy ===== *)
theory Swarm_app
  imports Application
begin

text \<open>
  \<open>robot-swarm-agent/src/main.rs\<close>: the scout, the coordinator, whose loop selects between the broker and its input, and the
  responder, which subscribes once for each task.
\<close>

datatype swarm_role = Role_Scout | Role_Coordinator | Role_Responder

record swarm_config =
  swarm_common :: AgentConfig
  swarm_role :: swarm_role
  swarm_id :: bytes
  swarm_mission_epoch :: i64
  swarm_capability :: i64
  swarm_payload_capacity :: i64
  swarm_battery_level :: i64
  swarm_operational :: bool
  swarm_zone :: bytes

definition swarm_HANDLER :: HandlerId where
  "swarm_HANDLER = HandlerId (from_be_bytes (ascii ''swarm-task-hndlr''))"

definition swarm_log :: "string \<Rightarrow> bytes" where
  "swarm_log event = ascii (''robot-swarm-agent event='' @ event)"

fun swarm_robot_role :: "swarm_role \<Rightarrow> RobotRole" where
  "swarm_robot_role Role_Scout = Scout"
| "swarm_robot_role Role_Coordinator = Coordinator"
| "swarm_robot_role Role_Responder = Responder"

section \<open>The environment\<close>

definition swarm_agent_environment :: "swarm_config \<Rightarrow> array16 \<Rightarrow> (AppError + unit) \<times> robot_swarm EnvironmentBuilder" where
  "swarm_agent_environment config recipient_id =
     tryS (model_result (env_bytes swarm_environment swarm_SWARM_ID (swarm_id config))) (\<lambda>_ environment.
     tryS (model_result (env_i64 environment swarm_MISSION_EPOCH (swarm_mission_epoch config))) (\<lambda>_ environment.
     tryS (model_result (env_i64 environment swarm_ROBOT_ROLE (RobotRole_i64 (swarm_robot_role (swarm_role config))))) (\<lambda>_ environment.
     tryS (model_result (env_i64 environment swarm_CAPABILITY (swarm_capability config))) (\<lambda>_ environment.
     tryS (model_result (env_i64 environment swarm_PAYLOAD_CAPACITY (swarm_payload_capacity config))) (\<lambda>_ environment.
     tryS (model_result (env_bool environment swarm_OPERATIONAL (swarm_operational config))) (\<lambda>_ environment.
     tryS (model_result (env_i64 environment swarm_BATTERY_LEVEL (swarm_battery_level config))) (\<lambda>_ environment.
     tryS (model_result (env_bytes environment swarm_ZONE (swarm_zone config))) (\<lambda>_ environment.
     tryS (model_result (env_bytes environment swarm_ASSIGNED_TASK (ascii ''none''))) (\<lambda>_ environment.
     model_result (env_bytes environment swarm_RECIPIENT_ID (to_be_bytes recipient_id)))))))))))"

section \<open>The predicates\<close>

definition swarm_role_clauses :: "ModelError + robot_swarm ClauseBuilder \<Rightarrow> RobotRole \<Rightarrow> AppError + ClauseRef list" where
  "swarm_role_clauses start role =
     tryE (map_err Invalid_model start) (\<lambda>builder.
     case model_result (predicate_i64 builder swarm_ROBOT_ROLE Operator_Eq (RobotRole_i64 role)) of
       (Inl e, _) \<Rightarrow> Inl e | (Inr _, builder) \<Rightarrow> Inr (predicate_clauses builder))"

definition scout_audience :: "swarm_config \<Rightarrow> TypeId \<Rightarrow> AppError + ClauseRef list" where
  "scout_audience config type_id =
     (let role = (if type_id = swarm_DRONE_TELEMETRY then Coordinator else Responder) in
      swarm_role_clauses (swarm_audience (swarm_id config) (swarm_mission_epoch config)) role)"

definition task_audience :: "swarm_config \<Rightarrow> array16 \<Rightarrow> AppError + ClauseRef list" where
  "task_audience config recipient =
     tryE (map_err Invalid_model (swarm_audience (swarm_id config) (swarm_mission_epoch config))) (\<lambda>audience.
     case (tryS (model_result (predicate_i64 audience swarm_ROBOT_ROLE Operator_Eq (RobotRole_i64 Responder))) (\<lambda>_ audience.
           tryS (model_result (predicate_i64 audience swarm_CAPABILITY Operator_Eq (Capability_i64 Transport_capability))) (\<lambda>_ audience.
           tryS (model_result (predicate_bool audience swarm_OPERATIONAL Operator_Eq True)) (\<lambda>_ audience.
           tryS (model_result (predicate_i64 audience swarm_BATTERY_LEVEL Operator_Ge 25)) (\<lambda>_ audience.
           model_result (predicate_bytes_clause audience swarm_RECIPIENT_ID Operator_Eq (to_be_bytes recipient))))))) of
       (Inl e, _) \<Rightarrow> Inl e | (Inr _, audience) \<Rightarrow> Inr (predicate_clauses audience))"

section \<open>The programs\<close>

text \<open>\<open>target \<close> starts a detection, any other line is telemetry.\<close>

definition scout_message :: "bytes \<Rightarrow> TypeId \<times> bytes" where
  "scout_message line =
     (if take 7 line = ascii ''target '' then (swarm_TARGET_DETECTED, drop 7 line) else (swarm_DRONE_TELEMETRY, line))"

fun scout_loop ::
  "'r crypto \<Rightarrow> swarm_config \<Rightarrow> Agent \<Rightarrow> AttributeRef list \<Rightarrow> line_event list \<Rightarrow> ('e, 'r) app \<Rightarrow> ('e, 'r) program" where
  "scout_loop C config agent environment [] s = Some (Program_waits, s)"
| "scout_loop C config agent environment (Line_failed # lines) s = Some (Program_failed Input_failed, s)"
| "scout_loop C config agent environment (Line_end # lines) s = Some (Program_done, s)"
| "scout_loop C config agent environment (Line line # lines) s =
     (let (type_id, payload) = scout_message line in
      tryP (scout_audience config type_id) s (\<lambda>audience.
      tryR (publish_request C agent type_id audience payload (app_rng s)) s (\<lambda>frame s.
      tryR (set_environment_request C agent environment (app_rng s)) s (\<lambda>environment_frame s.
      tryN (send_on_demand_frames (swarm_common config) (agent_id agent) [environment_frame, frame] (app_net s)) s (\<lambda>s.
      scout_loop C config agent environment lines
        (println (swarm_log ''publication-submitted type='' @ display_nat (unat (type_u32 type_id))) s))))))"

definition run_scout ::
  "'r crypto \<Rightarrow> swarm_config \<Rightarrow> Agent \<Rightarrow> AttributeRef list \<Rightarrow> line_event list \<Rightarrow> ('e, 'r) app \<Rightarrow> ('e, 'r) program" where
  "run_scout C config agent environment lines s =
     scout_loop C config agent environment lines (println (swarm_log ''request-submitted role=scout v1-ack=unavailable'') s)"

datatype 'e coordinator_event = Coordinator_frame "'e next_event" u64 | Coordinator_line line_event

definition split_once :: "u8 \<Rightarrow> bytes \<Rightarrow> (bytes \<times> bytes) option" where
  "split_once separator line =
     (case dropWhile (\<lambda>b. b \<noteq> separator) line of
        [] \<Rightarrow> None | _ # rest \<Rightarrow> Some (takeWhile (\<lambda>b. b \<noteq> separator) line, rest))"

text \<open>The arm of the input is disabled once the input has ended.\<close>

fun coordinator_loop ::
  "'r crypto \<Rightarrow> (bytes \<Rightarrow> bytes option) \<Rightarrow> swarm_config \<Rightarrow> Agent \<Rightarrow> bool \<Rightarrow> 'e coordinator_event list \<Rightarrow> ('e, 'r) app \<Rightarrow> ('e, 'r) program" where
  "coordinator_loop C hex config agent stdin_open [] s = Some (Program_waits, s)"
| "coordinator_loop C hex config agent stdin_open (Coordinator_frame event now # events) s =
     (case receive_turn C (swarm_common config) agent swarm_HANDLER (swarm_log ''telemetry-received type='') event now s of
        None \<Rightarrow> None | Some (_, s) \<Rightarrow> coordinator_loop C hex config agent stdin_open events s)"
| "coordinator_loop C hex config agent stdin_open (Coordinator_line read # events) s =
     (if \<not> stdin_open then coordinator_loop C hex config agent stdin_open events s
      else case read of
        Line_failed \<Rightarrow> Some (Program_failed Input_failed, s)
      | Line_end \<Rightarrow> coordinator_loop C hex config agent False events s
      | Line line \<Rightarrow>
          tryP (ok_or (split_once 32 line) Bad_input) s (\<lambda>(recipient, task).
          tryP (map_err (\<lambda>_. Bad_input) (decode_hex hex recipient)) s (\<lambda>recipient.
          tryP (task_audience config recipient) s (\<lambda>audience.
          tryR (publish_request C agent swarm_TASK_ASSIGNMENT audience task (app_rng s)) s (\<lambda>frame s.
          tryN (send_agent_frame (swarm_common config) (agent_id agent) frame (app_net s)) s (\<lambda>s.
          coordinator_loop C hex config agent stdin_open events (println (swarm_log ''task-published'') s)))))))"

definition run_coordinator ::
  "'r crypto \<Rightarrow> (bytes \<Rightarrow> bytes option) \<Rightarrow> swarm_config \<Rightarrow> Agent \<Rightarrow> 'e coordinator_event list \<Rightarrow> ('e, 'r) app \<Rightarrow> ('e, 'r) program" where
  "run_coordinator C hex config agent events s =
     tryP (swarm_role_clauses (swarm_subscription (swarm_id config) (swarm_mission_epoch config)) Scout) s (\<lambda>subscription.
     tryR (subscribe_permanent_request C agent swarm_DRONE_TELEMETRY swarm_HANDLER subscription (app_rng s)) s (\<lambda>frame s.
     tryN (send_agent_frame (swarm_common config) (agent_id agent) frame (app_net s)) s (\<lambda>s.
     let s = println (swarm_log ''request-submitted role=coordinator v1-ack=unavailable input=<responder-id-hex> <task>'') s in
     coordinator_loop C hex config agent True events (s\<lparr>app_replay := FixedReplayCache_new 256 600\<rparr>))))"

definition responder_subscribes ::
  "'r crypto \<Rightarrow> swarm_config \<Rightarrow> Agent \<Rightarrow> ('e, 'r) app \<Rightarrow> (('e, 'r) app \<Rightarrow> ('e, 'r) program) \<Rightarrow> ('e, 'r) program" where
  "responder_subscribes C config agent s k =
     tryP (swarm_role_clauses (swarm_subscription (swarm_id config) (swarm_mission_epoch config)) Coordinator) s (\<lambda>subscription.
     tryR (subscribe_request C agent swarm_TASK_ASSIGNMENT swarm_HANDLER subscription (app_rng s)) s (\<lambda>frame s.
     tryN (send_agent_frame (swarm_common config) (agent_id agent) frame (app_net s)) s k))"

text \<open>The inner loop; a delivery leaves it, and the outer loop subscribes again.\<close>

fun responder_loop ::
  "'r crypto \<Rightarrow> swarm_config \<Rightarrow> Agent \<Rightarrow> ('e next_event \<times> u64) list \<Rightarrow> ('e, 'r) app \<Rightarrow> ('e, 'r) program" where
  "responder_loop C config agent [] s = Some (Program_waits, s)"
| "responder_loop C config agent ((event, now) # events) s =
     (case receive_turn C (swarm_common config) agent swarm_HANDLER (swarm_log ''task-received type='') event now s of
        None \<Rightarrow> None
      | Some (False, s) \<Rightarrow> responder_loop C config agent events s
      | Some (True, s) \<Rightarrow> responder_subscribes C config agent s (\<lambda>s. responder_loop C config agent events s))"

definition run_responder ::
  "'r crypto \<Rightarrow> swarm_config \<Rightarrow> Agent \<Rightarrow> ('e next_event \<times> u64) list \<Rightarrow> ('e, 'r) app \<Rightarrow> ('e, 'r) program" where
  "run_responder C config agent events s =
     (let s = println (swarm_log ''request-submitted role=responder v1-ack=unavailable'') s in
      responder_subscribes C config agent (s\<lparr>app_replay := FixedReplayCache_new 256 600\<rparr>) (\<lambda>s. responder_loop C config agent events s))"

definition swarm_main ::
  "'r crypto \<Rightarrow> (bytes \<Rightarrow> bytes option) \<Rightarrow> files \<Rightarrow> swarm_config \<Rightarrow> 'r option \<Rightarrow> line_event list \<Rightarrow> 'e coordinator_event list
     \<Rightarrow> ('e next_event \<times> u64) list \<Rightarrow> ('e, 'r) app \<Rightarrow> ('e, 'r) program" where
  "swarm_main C hex files config seeded lines selected events s =
     tryP (map_err Config_failed (load_agent hex files (swarm_common config))) s (\<lambda>agent.
     tryP (ok_or seeded Random_failed) s (\<lambda>rng.
     let s = s\<lparr>app_rng := rng\<rparr> in
     tryP (map_err Config_failed (decode_hex hex (config_agent_id (swarm_common config)))) s (\<lambda>recipient_id.
     let (built, environment) = swarm_agent_environment config recipient_id in
     tryP built s (\<lambda>_.
     case swarm_role config of
       Role_Scout \<Rightarrow> run_scout C config agent (env_attributes environment) lines s
     | Role_Coordinator \<Rightarrow>
         tryN (connect_agent (swarm_common config) (agent_id agent) (app_net s)) s (\<lambda>s.
         tryR (set_environment_request C agent (env_attributes environment) (app_rng s)) s (\<lambda>frame s.
         tryN (send_agent_frame (swarm_common config) (agent_id agent) frame (app_net s)) s (\<lambda>s.
         run_coordinator C hex config agent selected s)))
     | Role_Responder \<Rightarrow>
         tryN (connect_agent (swarm_common config) (agent_id agent) (app_net s)) s (\<lambda>s.
         tryR (set_environment_request C agent (env_attributes environment) (app_rng s)) s (\<lambda>frame s.
         tryN (send_agent_frame (swarm_common config) (agent_id agent) frame (app_net s)) s (\<lambda>s.
         run_responder C config agent events s)))))))"

end
