(* ===== verification/Tenant_app.thy ===== *)
theory Tenant_app
  imports Application
begin

text \<open>\<open>multi-tenant-agent/src/main.rs\<close>: the publisher and the consumer of domain events.\<close>

datatype tenant_role = Role_Publisher | Role_Consumer

record tenant_config =
  tenant_common :: AgentConfig
  tenant_role :: tenant_role
  tenant_id :: bytes
  tenant_service_id :: bytes
  tenant_deployment_environment :: i64
  tenant_clearance_level :: i64
  tenant_region :: bytes
  tenant_service_health :: bool

definition tenant_HANDLER :: HandlerId where
  "tenant_HANDLER = HandlerId (from_be_bytes (ascii ''tenant-event-hnd''))"

definition tenant_log :: "string \<Rightarrow> bytes" where
  "tenant_log event = ascii (''multi-tenant-agent event='' @ event)"

fun tenant_service_role :: "tenant_role \<Rightarrow> ServiceRole" where
  "tenant_service_role Role_Publisher = Publisher"
| "tenant_service_role Role_Consumer = Consumer"

definition tenant_agent_environment :: "tenant_config \<Rightarrow> (AppError + unit) \<times> multi_tenant EnvironmentBuilder" where
  "tenant_agent_environment config =
     tryS (model_result (env_bytes tenant_environment tenant_TENANT_ID (tenant_id config))) (\<lambda>_ environment.
     tryS (model_result (env_bytes environment tenant_SERVICE_ID (tenant_service_id config))) (\<lambda>_ environment.
     tryS (model_result (env_i64 environment tenant_DEPLOYMENT_ENVIRONMENT (tenant_deployment_environment config))) (\<lambda>_ environment.
     tryS (model_result (env_i64 environment tenant_SERVICE_ROLE (ServiceRole_i64 (tenant_service_role (tenant_role config))))) (\<lambda>_ environment.
     tryS (model_result (env_i64 environment tenant_CLEARANCE_LEVEL (tenant_clearance_level config))) (\<lambda>_ environment.
     tryS (model_result (env_bool environment tenant_SERVICE_HEALTH (tenant_service_health config))) (\<lambda>_ environment.
     model_result (env_bytes environment tenant_REGION (tenant_region config))))))))"

definition publisher_audience :: "bytes \<Rightarrow> AppError + ClauseRef list" where
  "publisher_audience tenant =
     tryE (map_err Invalid_model (tenant_audience tenant)) (\<lambda>audience.
     case (tryS (model_result (predicate_i64 audience tenant_SERVICE_ROLE Operator_Eq (ServiceRole_i64 Consumer))) (\<lambda>_ audience.
           model_result (predicate_i64 audience tenant_CLEARANCE_LEVEL Operator_Ge 1))) of
       (Inl e, _) \<Rightarrow> Inl e | (Inr _, audience) \<Rightarrow> Inr (predicate_clauses audience))"

definition consumer_subscription :: "bytes \<Rightarrow> AppError + ClauseRef list" where
  "consumer_subscription tenant =
     tryE (map_err Invalid_model (tenant_subscription tenant)) (\<lambda>subscription.
     case model_result (predicate_i64 subscription tenant_SERVICE_ROLE Operator_Eq (ServiceRole_i64 Publisher)) of
       (Inl e, _) \<Rightarrow> Inl e | (Inr _, subscription) \<Rightarrow> Inr (predicate_clauses subscription))"

fun publisher_loop ::
  "'r crypto \<Rightarrow> tenant_config \<Rightarrow> Agent \<Rightarrow> AttributeRef list \<Rightarrow> line_event list \<Rightarrow> ('e, 'r) app \<Rightarrow> ('e, 'r) program" where
  "publisher_loop C config agent environment [] s = Some (Program_waits, s)"
| "publisher_loop C config agent environment (Line_failed # lines) s = Some (Program_failed Input_failed, s)"
| "publisher_loop C config agent environment (Line_end # lines) s = Some (Program_done, s)"
| "publisher_loop C config agent environment (Line line # lines) s =
     tryP (publisher_audience (tenant_id config)) s (\<lambda>audience.
     tryR (publish_request C agent tenant_DOMAIN_EVENT audience line (app_rng s)) s (\<lambda>frame s.
     tryR (set_environment_request C agent environment (app_rng s)) s (\<lambda>environment_frame s.
     tryN (send_on_demand_frames (tenant_common config) (agent_id agent) [environment_frame, frame] (app_net s)) s (\<lambda>s.
     publisher_loop C config agent environment lines (println (tenant_log ''publication-submitted'') s)))))"

definition run_publisher ::
  "'r crypto \<Rightarrow> tenant_config \<Rightarrow> Agent \<Rightarrow> AttributeRef list \<Rightarrow> line_event list \<Rightarrow> ('e, 'r) app \<Rightarrow> ('e, 'r) program" where
  "run_publisher C config agent environment lines s =
     publisher_loop C config agent environment lines (println (tenant_log ''request-submitted role=publisher v1-ack=unavailable'') s)"

definition run_consumer ::
  "'r crypto \<Rightarrow> tenant_config \<Rightarrow> Agent \<Rightarrow> ('e next_event \<times> u64) list \<Rightarrow> ('e, 'r) app \<Rightarrow> ('e, 'r) program" where
  "run_consumer C config agent events s =
     tryP (consumer_subscription (tenant_id config)) s (\<lambda>subscription.
     tryR (subscribe_permanent_request C agent tenant_DOMAIN_EVENT tenant_HANDLER subscription (app_rng s)) s (\<lambda>frame s.
     tryN (send_agent_frame (tenant_common config) (agent_id agent) frame (app_net s)) s (\<lambda>s.
     let s = println (tenant_log ''request-submitted role=consumer v1-ack=unavailable'') s in
     receive_loop C (tenant_common config) agent tenant_HANDLER (tenant_log ''delivery-accepted type='') events (s\<lparr>app_replay := FixedReplayCache_new 256 600\<rparr>))))"

definition tenant_main ::
  "'r crypto \<Rightarrow> (bytes \<Rightarrow> bytes option) \<Rightarrow> files \<Rightarrow> tenant_config \<Rightarrow> 'r option \<Rightarrow> line_event list \<Rightarrow> ('e next_event \<times> u64) list
     \<Rightarrow> ('e, 'r) app \<Rightarrow> ('e, 'r) program" where
  "tenant_main C hex files config seeded lines events s =
     tryP (map_err Config_failed (load_agent hex files (tenant_common config))) s (\<lambda>agent.
     tryP (ok_or seeded Random_failed) s (\<lambda>rng.
     let s = s\<lparr>app_rng := rng\<rparr>; (built, environment) = tenant_agent_environment config in
     tryP built s (\<lambda>_.
     case tenant_role config of
       Role_Publisher \<Rightarrow> run_publisher C config agent (env_attributes environment) lines s
     | Role_Consumer \<Rightarrow>
         tryN (connect_agent (tenant_common config) (agent_id agent) (app_net s)) s (\<lambda>s.
         tryR (set_environment_request C agent (env_attributes environment) (app_rng s)) s (\<lambda>frame s.
         tryN (send_agent_frame (tenant_common config) (agent_id agent) frame (app_net s)) s (\<lambda>s.
         run_consumer C config agent events s))))))"

end
