(* ===== verification/Embassy_app.thy ===== *)
theory Embassy_app
  imports Agent Framing Domains
begin

text \<open>
  \<open>smart-building-embassy-agent/src/lib.rs\<close>: the sensor for firmware. It works on the caller's socket, random source and
  frame buffer.
\<close>

record SensorConfig =
  sensor_building_id :: bytes
  sensor_alert_zone :: bytes
  sensor_floor_id :: i64
  sensor_operational :: bool
  sensor_initial_temperature :: i64

datatype 'e SensorError = Sensor_model ModelError | Sensor_protocol Error | Sensor_transport "'e EmbassyTransportError"

record EmbassySensorAgent =
  sensor_agent :: Agent
  sensor_config :: SensorConfig

definition EmbassySensorAgent_new :: "Agent \<Rightarrow> SensorConfig \<Rightarrow> EmbassySensorAgent" where
  "EmbassySensorAgent_new agent config = \<lparr>sensor_agent = agent, sensor_config = config\<rparr>"

text \<open>What the two operations borrow mutably.\<close>

record ('e, 'r) firmware =
  firmware_stream :: "'e stream"
  firmware_rng :: 'r
  firmware_frame :: bytes

definition sensor_send :: "bool \<Rightarrow> bytes \<Rightarrow> ('e, 'r) firmware \<Rightarrow> ('e SensorError + unit) \<times> ('e, 'r) firmware" where
  "sensor_send timed frame s =
     (let (result, stream) = embassy_send timed frame (firmware_stream s) in
      (map_err Sensor_transport result, s\<lparr>firmware_stream := stream\<rparr>))"

definition sensor_hello :: "bool \<Rightarrow> AgentId \<Rightarrow> ('e, 'r) firmware \<Rightarrow> ('e SensorError + unit) \<times> ('e, 'r) firmware" where
  "sensor_hello timed identity s =
     (let (result, stream) = embassy_send_hello timed identity (firmware_stream s) in
      (map_err Sensor_transport result, s\<lparr>firmware_stream := stream\<rparr>))"

definition sensor_request ::
  "(bytes \<Rightarrow> 'r \<Rightarrow> (Error + usize) \<times> bytes \<times> 'r) \<Rightarrow> ('e, 'r) firmware \<Rightarrow> ('e SensorError + usize) \<times> ('e, 'r) firmware" where
  "sensor_request build s =
     (let (result, frame, rng) = build (firmware_frame s) (firmware_rng s) in
      (map_err Sensor_protocol result, s\<lparr>firmware_frame := frame, firmware_rng := rng\<rparr>))"

definition sensor_environment :: "SensorConfig \<Rightarrow> (ModelError + unit) \<times> smart_building EnvironmentBuilder" where
  "sensor_environment config =
     tryS (env_bytes building_environment building_BUILDING_ID (sensor_building_id config)) (\<lambda>_ environment.
     tryS (env_bytes environment building_ALERT_ZONE (sensor_alert_zone config)) (\<lambda>_ environment.
     tryS (env_i64 environment building_FLOOR_ID (sensor_floor_id config)) (\<lambda>_ environment.
     tryS (env_i64 environment building_DEVICE_CLASS (DeviceClass_i64 Sensor)) (\<lambda>_ environment.
     tryS (env_bool environment building_CERTIFIED_DEVICE True) (\<lambda>_ environment.
     tryS (env_bool environment building_OPERATIONAL (sensor_operational config)) (\<lambda>_ environment.
     env_i64 environment building_TEMPERATURE (sensor_initial_temperature config)))))))"

definition sensor_initialize ::
  "'r crypto \<Rightarrow> EmbassySensorAgent \<Rightarrow> bool \<Rightarrow> ('e, 'r) firmware \<Rightarrow> ('e SensorError + unit) \<times> ('e, 'r) firmware" where
  "sensor_initialize C sensor timed s =
     tryS (sensor_hello timed (agent_id (sensor_agent sensor)) s) (\<lambda>_ s.
     let (built, environment) = sensor_environment (sensor_config sensor) in
     tryS (map_err Sensor_model built, s) (\<lambda>_ s.
     tryS (sensor_request (\<lambda>frame rng. set_environment_into C (sensor_agent sensor) frame (env_attributes environment) rng) s) (\<lambda>n s.
     sensor_send timed (take n (firmware_frame s)) s)))"

definition temperature_audience :: "bytes \<Rightarrow> ModelError + ClauseRef list" where
  "temperature_audience building =
     tryE (building_audience building) (\<lambda>audience.
     case predicate_i64 audience building_USER_ROLE Operator_Eq (UserRole_i64 ControlOperator) of
       (Inl e, _) \<Rightarrow> Inl e | (Inr _, audience) \<Rightarrow> Inr (predicate_clauses audience))"

definition publish_temperature ::
  "'r crypto \<Rightarrow> EmbassySensorAgent \<Rightarrow> i64 \<Rightarrow> bool \<Rightarrow> ('e, 'r) firmware \<Rightarrow> ('e SensorError + unit) \<times> ('e, 'r) firmware" where
  "publish_temperature C sensor temperature timed s =
     tryS (map_err Sensor_model (temperature_audience (sensor_building_id (sensor_config sensor))), s) (\<lambda>audience s.
     tryS (sensor_request (\<lambda>frame rng. publish_into C (sensor_agent sensor) frame building_SENSOR_READING audience
             (to_be_bytes temperature) rng) s) (\<lambda>n s.
     sensor_send timed (take n (firmware_frame s)) s))"

end
