(* ===== verification/Flows.thy ===== *)
theory Flows
  imports Building_app Swarm_app Tenant_app Embassy_app
begin

text \<open>
  Who hears whom: the environments and predicates that the agent programs build, evaluated against each other as
  the CA does.
\<close>

section \<open>Chains of builder calls\<close>

fun env_chain :: "'d env_call list \<Rightarrow> 'd EnvironmentBuilder \<Rightarrow> (ModelError + unit) \<times> 'd EnvironmentBuilder" where
  "env_chain [] b = (Inr (), b)"
| "env_chain (call # calls) b = tryS (env_apply call b) (\<lambda>_ b. env_chain calls b)"

fun call_attribute :: "'d env_call \<Rightarrow> AttributeRef" where
  "call_attribute (Env_bool attribute val) = \<lparr>attribute_id = bool_id attribute, attribute_value = Value_Bool val\<rparr>"
| "call_attribute (Env_i64 attribute val) = \<lparr>attribute_id = i64_id attribute, attribute_value = Value_I64 val\<rparr>"
| "call_attribute (Env_bytes attribute val) = \<lparr>attribute_id = bytes_id attribute, attribute_value = Value_Bytes val\<rparr>"

lemma env_push_adds:
  assumes "env_ok b" "value_valid val" "i \<notin> attribute_id ` set (env_attributes b)" "length (env_attributes b) < MAX_ATTRIBUTES"
  shows "\<exists>b'. env_push b i val = (Inr (), b') \<and> env_ok b' \<and> env_attributes b' = env_attributes b @ [\<lparr>attribute_id = i, attribute_value = val\<rparr>]"
proof -
  have len: "env_len b < length (env_entries b)" using assms(1,4) by (simp add: env_ok_def env_attributes_def)
  then have push: "env_push b i val = (Inr (), EnvironmentBuilder ((env_entries b)[env_len b := \<lparr>attribute_id = i, attribute_value = val\<rparr>]) (env_len b + 1))"
    using assms(3) by (auto simp: env_push_def env_attributes_def list_ex_iff)
  with env_push_ok(1) [OF assms(1,2), of i] len show ?thesis by (simp add: env_attributes_def take_Suc_update)
qed

lemma env_apply_adds:
  assumes "env_ok b" "attribute_id (call_attribute call) \<notin> attribute_id ` set (env_attributes b)" "length (env_attributes b) < MAX_ATTRIBUTES"
  shows "if value_valid (attribute_value (call_attribute call))
    then \<exists>b'. env_apply call b = (Inr (), b') \<and> env_ok b' \<and> env_attributes b' = env_attributes b @ [call_attribute call]
    else env_apply call b = (Inl Model_AttributeTooLong, b)"
  using env_push_adds [OF assms(1)] assms(2,3)
  by (cases call) (auto simp: env_bool_def env_i64_def env_bytes_def)

lemma env_chain_exact:
  assumes "env_ok b" "distinct (map attribute_id (env_attributes b @ map call_attribute calls))"
    "length (env_attributes b) + length calls \<le> MAX_ATTRIBUTES"
  shows "if list_all (\<lambda>call. value_valid (attribute_value (call_attribute call))) calls
    then \<exists>b'. env_chain calls b = (Inr (), b') \<and> env_ok b' \<and> env_attributes b' = env_attributes b @ map call_attribute calls
    else fst (env_chain calls b) = Inl Model_AttributeTooLong"
  using assms
proof (induction calls arbitrary: b)
  case (Cons call calls)
  have fresh: "attribute_id (call_attribute call) \<notin> attribute_id ` set (env_attributes b)" using Cons.prems(2) by auto
  note add = env_apply_adds [OF Cons.prems(1) fresh]
  show ?case
  proof (cases "value_valid (attribute_value (call_attribute call))")
    case True
    with add Cons.prems(3) obtain b1 where b1: "env_apply call b = (Inr (), b1)" "env_ok b1"
      "env_attributes b1 = env_attributes b @ [call_attribute call]" by auto
    from Cons.IH [OF b1(2)] Cons.prems(2,3) b1 True show ?thesis by auto
  next
    case False
    with add Cons.prems(3) show ?thesis by auto
  qed
qed simp

fun predicate_chain :: "'d predicate_call list \<Rightarrow> 'd ClauseBuilder \<Rightarrow> (ModelError + unit) \<times> 'd ClauseBuilder" where
  "predicate_chain [] b = (Inr (), b)"
| "predicate_chain (call # calls) b = tryS (predicate_apply call b) (\<lambda>_ b. predicate_chain calls b)"

fun call_clause :: "'d predicate_call \<Rightarrow> ClauseRef" where
  "call_clause (Clause_bool attribute operator val) =
     \<lparr>clause_attribute = bool_id attribute, clause_operator = operator, clause_value = Value_Bool val\<rparr>"
| "call_clause (Clause_i64 attribute operator val) =
     \<lparr>clause_attribute = i64_id attribute, clause_operator = operator, clause_value = Value_I64 val\<rparr>"
| "call_clause (Clause_bytes attribute operator val) =
     \<lparr>clause_attribute = bytes_id attribute, clause_operator = operator, clause_value = Value_Bytes val\<rparr>"

lemma clause_push_appends:
  assumes "clauses_ok b" "value_valid val" "length (predicate_clauses b) < MAX_CLAUSES"
  shows "\<exists>b'. clause_push b i operator val = (Inr (), b') \<and> clauses_ok b' \<and>
    predicate_clauses b' = predicate_clauses b @ [\<lparr>clause_attribute = i, clause_operator = operator, clause_value = val\<rparr>]"
proof -
  have len: "builder_len b < length (builder_clauses b)" using assms(1,3) by (simp add: clauses_ok_def predicate_clauses_def)
  then have "clause_push b i operator val = (Inr (), ClauseBuilder ((builder_clauses b)[builder_len b :=
      \<lparr>clause_attribute = i, clause_operator = operator, clause_value = val\<rparr>]) (builder_len b + 1))"
    by (simp add: clause_push_def)
  with clause_push_ok(1) [OF assms(1,2), of i operator] len show ?thesis by (simp add: predicate_clauses_def take_Suc_update)
qed

lemma predicate_chain_exact:
  assumes "clauses_ok b" "length (predicate_clauses b) + length calls \<le> MAX_CLAUSES"
  shows "if list_all (\<lambda>call. value_valid (clause_value (call_clause call))) calls
    then \<exists>b'. predicate_chain calls b = (Inr (), b') \<and> clauses_ok b' \<and> predicate_clauses b' = predicate_clauses b @ map call_clause calls
    else fst (predicate_chain calls b) = Inl Model_AttributeTooLong"
  using assms
proof (induction calls arbitrary: b)
  case (Cons call calls)
  show ?case
  proof (cases "value_valid (clause_value (call_clause call))")
    case True
    with clause_push_appends [OF Cons.prems(1)] Cons.prems(2) obtain b1 where b1: "predicate_apply call b = (Inr (), b1)" "clauses_ok b1"
      "predicate_clauses b1 = predicate_clauses b @ [call_clause call]"
      by (cases call) (fastforce simp: predicate_bool_def predicate_i64_def predicate_bytes_clause_def)+
    from Cons.IH [OF b1(2)] Cons.prems(2) b1 True show ?thesis by auto
  next
    case False
    then have "predicate_apply call b = (Inl Model_AttributeTooLong, b)"
      by (cases call) (auto simp: predicate_bytes_clause_def)
    with False show ?thesis by simp
  qed
qed simp

lemma env_chain_built:
  assumes "env_chain calls EnvironmentBuilder_new = (Inr (), b)" "distinct (map (attribute_id \<circ> call_attribute) calls)"
    "length calls \<le> MAX_ATTRIBUTES"
  shows "env_attributes b = map call_attribute calls" "attributes_valid (map call_attribute calls)"
    "list_all (\<lambda>call. value_valid (attribute_value (call_attribute call))) calls"
proof -
  from env_chain_exact [OF env_new(1), of calls] assms
  have "env_ok b \<and> env_attributes b = map call_attribute calls \<and> list_all (\<lambda>call. value_valid (attribute_value (call_attribute call))) calls"
    by (simp add: env_new(2) split: if_splits)
  then show "env_attributes b = map call_attribute calls" "attributes_valid (map call_attribute calls)"
    "list_all (\<lambda>call. value_valid (attribute_value (call_attribute call))) calls"
    by (auto simp: env_ok_def)
qed

lemma env_chain_builds:
  assumes "distinct (map (attribute_id \<circ> call_attribute) calls)" "length calls \<le> MAX_ATTRIBUTES"
    "list_all (\<lambda>call. value_valid (attribute_value (call_attribute call))) calls"
  shows "\<exists>b. env_chain calls EnvironmentBuilder_new = (Inr (), b)"
  using env_chain_exact [OF env_new(1), of calls] assms by (auto simp: env_new(2))

definition clauses_of :: "'d predicate_call list \<Rightarrow> AppError + ClauseRef list" where
  "clauses_of calls =
     (case predicate_chain calls ClauseBuilder_new of
        (Inl e, _) \<Rightarrow> Inl (Invalid_model e) | (Inr _, b) \<Rightarrow> Inr (predicate_clauses b))"

lemma clauses_of_exact:
  assumes "length calls \<le> MAX_CLAUSES"
  shows "clauses_of calls =
    (if list_all (\<lambda>call. value_valid (clause_value (call_clause call))) calls then Inr (map call_clause calls)
     else Inl (Invalid_model Model_AttributeTooLong))"
    "list_all (\<lambda>call. value_valid (clause_value (call_clause call))) calls \<Longrightarrow> clauses_valid (map call_clause calls)"
  using predicate_chain_exact [OF clauses_new(1), of calls] assms
  by (auto simp: clauses_of_def clauses_new(2) clauses_ok_def split: if_splits prod.splits sum.splits)

lemma tryS_unit [simp]: "tryS r (\<lambda>_ b. (Inr (), b)) = r"
  by (cases r; cases "fst r") auto

lemma model_result_tryS: "model_result (tryS r k) = tryS (model_result r) (\<lambda>x b. model_result (k x b))"
  by (cases r; cases "fst r") auto

lemma model_result_Inr [simp]: "model_result r = (Inr u, b) \<longleftrightarrow> r = (Inr u, b)"
  by (cases r; cases "fst r") auto

lemma predicate_chain_Cons: "predicate_chain (call # calls) = (\<lambda>b. tryS (predicate_apply call b) (\<lambda>_. predicate_chain calls))"
  by (rule ext) simp

lemma predicate_chain_Nil: "predicate_chain [] = Pair (Inr ())"
  by (rule ext) simp

text \<open>A boundary clause and then a chain.\<close>

lemma boundary_chain:
  "tryE (map_err Invalid_model (let (result, builder) = r in tryE result (\<lambda>_. Inr builder)))
     (\<lambda>b. case model_result (k b) of (Inl e, _) \<Rightarrow> Inl e | (Inr _, b) \<Rightarrow> Inr (predicate_clauses b)) =
   (case tryS r (\<lambda>_. k) of (Inl e, _) \<Rightarrow> Inl (Invalid_model e) | (Inr _, b) \<Rightarrow> Inr (predicate_clauses b))"
  by (cases r; cases "fst r"; cases "k (snd r)"; cases "fst (k (snd r))") auto

lemma boundary_pair:
  "(let (result, builder) = r in tryE result (\<lambda>_. let (result, builder) = k builder in tryE result (\<lambda>_. Inr builder))) =
   (let (result, builder) = tryS r (\<lambda>_. k) in tryE result (\<lambda>_. Inr builder))"
  by (cases r; cases "fst r"; cases "k (snd r)") auto

lemma tryS_tryS: "tryS (tryS r k) f = tryS r (\<lambda>x s. tryS (k x s) f)"
  by (cases r; cases "fst r") auto

section \<open>The building\<close>

definition building_calls :: "building_config \<Rightarrow> i64 \<Rightarrow> smart_building env_call list" where
  "building_calls config floor =
     [Env_bytes building_BUILDING_ID (building_id config), Env_bytes building_ALERT_ZONE (building_alert_zone config),
      Env_bool building_OPERATIONAL (building_operational config)] @
     (case building_role config of
        Role_Sensor \<Rightarrow> [Env_i64 building_FLOOR_ID floor, Env_i64 building_DEVICE_CLASS 1, Env_bool building_CERTIFIED_DEVICE True,
          Env_i64 building_TEMPERATURE (building_temperature_centi_celsius config)]
      | Role_ControlPanel \<Rightarrow> [Env_i64 building_DEVICE_CLASS 2, Env_i64 building_USER_ROLE 1]
      | Role_MaintenanceTerminal \<Rightarrow> [Env_i64 building_DEVICE_CLASS 3, Env_i64 building_USER_ROLE 2])"

lemma building_chain:
  assumes "building_role config = Role_Sensor \<longrightarrow> building_floor_id config = Some floor"
  shows "building_agent_environment config = model_result (env_chain (building_calls config floor) EnvironmentBuilder_new)"
    "distinct (map (attribute_id \<circ> call_attribute) (building_calls config floor))" "length (building_calls config floor) \<le> MAX_ATTRIBUTES"
  using assms
  by (cases "building_role config"; simp add: building_agent_environment_def building_calls_def model_result_tryS building_environment_def
      building_defs const_defs)+

lemma building_environment_chain:
  assumes "building_agent_environment config = (Inr (), b)"
  obtains floor where "building_role config = Role_Sensor \<longrightarrow> building_floor_id config = Some floor"
    "env_attributes b = map call_attribute (building_calls config floor)" "attributes_valid (env_attributes b)"
proof -
  obtain floor where floor: "building_role config = Role_Sensor \<longrightarrow> building_floor_id config = Some floor"
  proof (cases "building_role config = Role_Sensor")
    case True
    with assms that show thesis by (auto simp: building_agent_environment_def tryS_Inr_iff ok_or_Inr_iff)
  qed (use that in simp)
  note chain = building_chain [OF floor]
  from env_chain_built [OF _ chain(2,3)] assms chain(1) show thesis by (intro that [OF floor]) simp_all
qed

lemma sensor_audience_calls:
  "sensor_audience building = clauses_of [Clause_bytes building_BUILDING_ID Operator_Eq building, Clause_i64 building_USER_ROLE Operator_Eq 1]"
  unfolding sensor_audience_def building_audience_def boundary_chain by (simp add: clauses_of_def predicate_chain_Nil predicate_chain_Cons)

lemma panel_subscription_calls:
  "panel_subscription building = clauses_of [Clause_bytes building_BUILDING_ID Operator_Eq building, Clause_bool building_CERTIFIED_DEVICE Operator_Eq True]"
  unfolding panel_subscription_def building_subscription_def boundary_chain by (simp add: clauses_of_def predicate_chain_Nil predicate_chain_Cons)

section \<open>The swarm\<close>

definition swarm_calls :: "swarm_config \<Rightarrow> array16 \<Rightarrow> robot_swarm env_call list" where
  "swarm_calls config recipient =
     [Env_bytes swarm_SWARM_ID (swarm_id config), Env_i64 swarm_MISSION_EPOCH (swarm_mission_epoch config),
      Env_i64 swarm_ROBOT_ROLE (RobotRole_i64 (swarm_robot_role (swarm_role config))), Env_i64 swarm_CAPABILITY (swarm_capability config),
      Env_i64 swarm_PAYLOAD_CAPACITY (swarm_payload_capacity config), Env_bool swarm_OPERATIONAL (swarm_operational config),
      Env_i64 swarm_BATTERY_LEVEL (swarm_battery_level config), Env_bytes swarm_ZONE (swarm_zone config),
      Env_bytes swarm_ASSIGNED_TASK (ascii ''none''), Env_bytes swarm_RECIPIENT_ID (to_be_bytes recipient)]"

lemma swarm_chain:
  "swarm_agent_environment config recipient = model_result (env_chain (swarm_calls config recipient) EnvironmentBuilder_new)"
  "distinct (map (attribute_id \<circ> call_attribute) (swarm_calls config recipient))" "length (swarm_calls config recipient) \<le> MAX_ATTRIBUTES"
  by (simp_all add: swarm_agent_environment_def swarm_calls_def model_result_tryS swarm_environment_def swarm_defs const_defs)

lemma swarm_environment_chain:
  assumes "swarm_agent_environment config recipient = (Inr (), b)"
  shows "env_attributes b = map call_attribute (swarm_calls config recipient)" "attributes_valid (env_attributes b)"
    "length (swarm_id config) \<le> MAX_ATTRIBUTE_BYTES"
proof -
  have chain: "env_chain (swarm_calls config recipient) EnvironmentBuilder_new = (Inr (), b)" using assms by (simp add: swarm_chain(1))
  from env_chain_built [OF chain swarm_chain(2,3)]
  show "env_attributes b = map call_attribute (swarm_calls config recipient)" "attributes_valid (env_attributes b)"
    "length (swarm_id config) \<le> MAX_ATTRIBUTE_BYTES" by (simp_all add: swarm_calls_def)
qed

definition swarm_boundary :: "swarm_config \<Rightarrow> robot_swarm predicate_call list" where
  "swarm_boundary config =
     [Clause_bytes swarm_SWARM_ID Operator_Eq (swarm_id config), Clause_i64 swarm_MISSION_EPOCH Operator_Eq (swarm_mission_epoch config)]"

lemma swarm_role_calls:
  "swarm_role_clauses (swarm_audience (swarm_id config) (swarm_mission_epoch config)) role =
     clauses_of (swarm_boundary config @ [Clause_i64 swarm_ROBOT_ROLE Operator_Eq (RobotRole_i64 role)])"
  "swarm_role_clauses (swarm_subscription (swarm_id config) (swarm_mission_epoch config)) role =
     clauses_of (swarm_boundary config @ [Clause_i64 swarm_ROBOT_ROLE Operator_Eq (RobotRole_i64 role)])"
  unfolding swarm_role_clauses_def swarm_audience_def swarm_subscription_def boundary_pair boundary_chain tryS_tryS
  by (simp_all add: clauses_of_def swarm_boundary_def predicate_chain_Nil predicate_chain_Cons)

lemma task_audience_calls:
  "task_audience config recipient = clauses_of (swarm_boundary config @
     [Clause_i64 swarm_ROBOT_ROLE Operator_Eq 3, Clause_i64 swarm_CAPABILITY Operator_Eq 3, Clause_bool swarm_OPERATIONAL Operator_Eq True,
      Clause_i64 swarm_BATTERY_LEVEL Operator_Ge 25, Clause_bytes swarm_RECIPIENT_ID Operator_Eq (to_be_bytes recipient)])"
  unfolding task_audience_def swarm_audience_def boundary_pair model_result_tryS [symmetric] boundary_chain tryS_tryS
  by (simp add: clauses_of_def swarm_boundary_def predicate_chain_Nil predicate_chain_Cons)

section \<open>The tenants\<close>

definition tenant_calls :: "tenant_config \<Rightarrow> multi_tenant env_call list" where
  "tenant_calls config =
     [Env_bytes tenant_TENANT_ID (tenant_id config), Env_bytes tenant_SERVICE_ID (tenant_service_id config),
      Env_i64 tenant_DEPLOYMENT_ENVIRONMENT (tenant_deployment_environment config),
      Env_i64 tenant_SERVICE_ROLE (ServiceRole_i64 (tenant_service_role (tenant_role config))),
      Env_i64 tenant_CLEARANCE_LEVEL (tenant_clearance_level config), Env_bool tenant_SERVICE_HEALTH (tenant_service_health config),
      Env_bytes tenant_REGION (tenant_region config)]"

lemma tenant_chain:
  "tenant_agent_environment config = model_result (env_chain (tenant_calls config) EnvironmentBuilder_new)"
  "distinct (map (attribute_id \<circ> call_attribute) (tenant_calls config))" "length (tenant_calls config) \<le> MAX_ATTRIBUTES"
  by (simp_all add: tenant_agent_environment_def tenant_calls_def model_result_tryS tenant_environment_def tenant_defs const_defs)

lemma tenant_environment_chain:
  assumes "tenant_agent_environment config = (Inr (), b)"
  shows "env_attributes b = map call_attribute (tenant_calls config)" "attributes_valid (env_attributes b)"
    "length (tenant_id config) \<le> MAX_ATTRIBUTE_BYTES"
proof -
  have chain: "env_chain (tenant_calls config) EnvironmentBuilder_new = (Inr (), b)" using assms by (simp add: tenant_chain(1))
  from env_chain_built [OF chain tenant_chain(2,3)]
  show "env_attributes b = map call_attribute (tenant_calls config)" "attributes_valid (env_attributes b)"
    "length (tenant_id config) \<le> MAX_ATTRIBUTE_BYTES" by (simp_all add: tenant_calls_def)
qed

lemma publisher_audience_calls:
  "publisher_audience tenant = clauses_of [Clause_bytes tenant_TENANT_ID Operator_Eq tenant, Clause_i64 tenant_SERVICE_ROLE Operator_Eq 2,
     Clause_i64 tenant_CLEARANCE_LEVEL Operator_Ge 1]"
  unfolding publisher_audience_def tenant_audience_def model_result_tryS [symmetric] boundary_chain
  by (simp add: clauses_of_def predicate_chain_Nil predicate_chain_Cons)

lemma consumer_subscription_calls:
  "consumer_subscription tenant = clauses_of [Clause_bytes tenant_TENANT_ID Operator_Eq tenant, Clause_i64 tenant_SERVICE_ROLE Operator_Eq 1]"
  unfolding consumer_subscription_def tenant_subscription_def boundary_chain by (simp add: clauses_of_def predicate_chain_Nil predicate_chain_Cons)

section \<open>Properties\<close>

lemma built_clauses:
  assumes "length calls \<le> MAX_CLAUSES" "list_all (\<lambda>call. value_valid (clause_value (call_clause call))) calls" "attributes_valid as"
  shows "clauses_of calls = Inr (map call_clause calls)"
    "predicate_evaluate (predicate_of (map call_clause calls)) (environment_of as) \<longleftrightarrow>
      list_all (\<lambda>call. clause_holds as (call_clause call)) calls"
  using clauses_of_exact [OF assms(1)] assms(2) predicate_evaluate_of [OF _ assms(3)] by (simp_all add: list_all_iff)

lemma value_equal [simp]:
  "values_compare Operator_Eq (Value_Bool a) (Value_Bool b) \<longleftrightarrow> a = b"
  "values_compare Operator_Eq (Value_I64 i) (Value_I64 j) \<longleftrightarrow> i = j"
  "values_compare Operator_Eq (Value_Bytes v) (Value_Bytes w) \<longleftrightarrow> v = w"
  "values_compare Operator_Ge (Value_I64 i) (Value_I64 j) \<longleftrightarrow> sint j \<le> sint i"
  by (auto intro: signed_word_eqI)

declare values_compare.simps(2) [simp del]

lemma building_id_fits: "building_agent_environment config = (Inr (), env) \<Longrightarrow> length (building_id config) \<le> MAX_ATTRIBUTE_BYTES"
  by (erule building_environment_chain) (simp add: attributes_valid_def building_calls_def)

text \<open>Who meets the audience of a reading, and whose readings a panel wants.\<close>

lemma audience_heard:
  assumes "building_agent_environment config = (Inr (), env)" "length building \<le> MAX_ATTRIBUTE_BYTES"
    "sensor_audience building = Inr audience"
  shows "predicate_evaluate (predicate_of audience) (environment_of (env_attributes env)) \<longleftrightarrow>
    building_id config = building \<and> building_role config = Role_ControlPanel"
proof -
  obtain f where e: "env_attributes env = map call_attribute (building_calls config f)" "attributes_valid (env_attributes env)"
    by (rule building_environment_chain [OF assms(1)])
  let ?calls = "[Clause_bytes building_BUILDING_ID Operator_Eq building, Clause_i64 building_USER_ROLE Operator_Eq 1]"
  have "length ?calls \<le> MAX_CLAUSES" "list_all (\<lambda>call. value_valid (clause_value (call_clause call))) ?calls"
    using assms(2) by (simp_all add: const_defs)
  note built = built_clauses [OF this e(2)]
  have "list_all (\<lambda>call. clause_holds (env_attributes env) (call_clause call)) ?calls \<longleftrightarrow>
      building_id config = building \<and> building_role config = Role_ControlPanel"
    unfolding e(1)
    by (cases "building_role config") (auto simp: clause_holds_def attribute_lookup_def building_calls_def building_defs)
  with built assms(3) show ?thesis by (simp add: sensor_audience_calls)
qed

lemma subscription_heard:
  assumes "building_agent_environment config = (Inr (), env)" "length building \<le> MAX_ATTRIBUTE_BYTES"
    "panel_subscription building = Inr subscription"
  shows "predicate_evaluate (predicate_of subscription) (environment_of (env_attributes env)) \<longleftrightarrow>
    building_id config = building \<and> building_role config = Role_Sensor"
proof -
  obtain f where e: "env_attributes env = map call_attribute (building_calls config f)" "attributes_valid (env_attributes env)"
    by (rule building_environment_chain [OF assms(1)])
  let ?calls = "[Clause_bytes building_BUILDING_ID Operator_Eq building, Clause_bool building_CERTIFIED_DEVICE Operator_Eq True]"
  have "length ?calls \<le> MAX_CLAUSES" "list_all (\<lambda>call. value_valid (clause_value (call_clause call))) ?calls"
    using assms(2) by (simp_all add: const_defs)
  note built = built_clauses [OF this e(2)]
  have "list_all (\<lambda>call. clause_holds (env_attributes env) (call_clause call)) ?calls \<longleftrightarrow>
      building_id config = building \<and> building_role config = Role_Sensor"
    unfolding e(1)
    by (cases "building_role config") (auto simp: clause_holds_def attribute_lookup_def building_calls_def building_defs)
  with built assms(3) show ?thesis by (simp add: panel_subscription_calls)
qed

lemma building_predicates:
  assumes "length building \<le> MAX_ATTRIBUTE_BYTES"
  shows "\<exists>audience. sensor_audience building = Inr audience" "\<exists>subscription. panel_subscription building = Inr subscription"
  using assms by (simp_all add: sensor_audience_calls panel_subscription_calls clauses_of_exact(1) const_defs)

text \<open>The smart-building programs hear each other exactly within a building. From the environments and
  predicates that the programs build, the CA finds that a control panel meets the audience of a sensor's reading, and the
  sensor the panel's subscription, if and only if both are configured for the same building; a maintenance
  terminal never meets the audience of a reading.\<close>

theorem building_flow:
  assumes "building_agent_environment sensor = (Inr (), sensor_env)" "building_role sensor = Role_Sensor"
    "building_agent_environment panel = (Inr (), panel_env)" "building_role panel = Role_ControlPanel"
    "building_agent_environment terminal = (Inr (), terminal_env)" "building_role terminal = Role_MaintenanceTerminal"
  shows "\<exists>audience subscription. sensor_audience (building_id sensor) = Inr audience \<and>
    panel_subscription (building_id panel) = Inr subscription \<and>
    (predicate_evaluate (predicate_of audience) (environment_of (env_attributes panel_env)) \<longleftrightarrow> building_id panel = building_id sensor) \<and>
    (predicate_evaluate (predicate_of subscription) (environment_of (env_attributes sensor_env)) \<longleftrightarrow> building_id panel = building_id sensor) \<and>
    \<not> predicate_evaluate (predicate_of audience) (environment_of (env_attributes terminal_env))"
proof -
  note fits = building_id_fits [OF assms(1)] building_id_fits [OF assms(3)]
  obtain audience subscription where built: "sensor_audience (building_id sensor) = Inr audience" "panel_subscription (building_id panel) = Inr subscription"
    using building_predicates(1) [OF fits(1)] building_predicates(2) [OF fits(2)] by blast
  from audience_heard [OF assms(3) fits(1) built(1)] audience_heard [OF assms(5) fits(1) built(1)] subscription_heard [OF assms(1) fits(2) built(2)]
    built assms(2,4,6) show ?thesis by auto
qed

definition same_mission :: "swarm_config \<Rightarrow> swarm_config \<Rightarrow> bool" where
  "same_mission a b \<longleftrightarrow> swarm_id a = swarm_id b \<and> swarm_mission_epoch a = swarm_mission_epoch b"

text \<open>C25: the swarm's messages find the right robots. Telemetry of a scout and a coordinator meet each other's
  predicates if and only if swarm and mission are the same. A task that a coordinator addresses to a robot meets
  a responder exactly in the same mission, when it is that robot, it can transport, is operational and has at
  least a quarter of its battery; the responder accepts tasks of the coordinators of its mission.\<close>

theorem swarm_flow:
  assumes "swarm_agent_environment scout i = (Inr (), scout_env)" "swarm_role scout = Role_Scout"
    "swarm_agent_environment coordinator j = (Inr (), coordinator_env)" "swarm_role coordinator = Role_Coordinator"
    "swarm_agent_environment responder k = (Inr (), responder_env)" "swarm_role responder = Role_Responder"
  shows "\<exists>telemetry interest task request.
    scout_audience scout swarm_DRONE_TELEMETRY = Inr telemetry \<and>
    swarm_role_clauses (swarm_subscription (swarm_id coordinator) (swarm_mission_epoch coordinator)) Scout = Inr interest \<and>
    task_audience coordinator target = Inr task \<and>
    swarm_role_clauses (swarm_subscription (swarm_id responder) (swarm_mission_epoch responder)) Coordinator = Inr request \<and>
    (predicate_evaluate (predicate_of telemetry) (environment_of (env_attributes coordinator_env)) \<longleftrightarrow> same_mission coordinator scout) \<and>
    (predicate_evaluate (predicate_of interest) (environment_of (env_attributes scout_env)) \<longleftrightarrow> same_mission scout coordinator) \<and>
    (predicate_evaluate (predicate_of task) (environment_of (env_attributes responder_env)) \<longleftrightarrow>
       same_mission responder coordinator \<and> k = target \<and> swarm_capability responder = Capability_i64 Transport_capability \<and>
       swarm_operational responder \<and> 25 \<le> sint (swarm_battery_level responder)) \<and>
    (predicate_evaluate (predicate_of request) (environment_of (env_attributes coordinator_env)) \<longleftrightarrow> same_mission coordinator responder)"
proof -
  note s = swarm_environment_chain [OF assms(1)] and c = swarm_environment_chain [OF assms(3)] and r = swarm_environment_chain [OF assms(5)]
  let ?telemetry = "swarm_boundary scout @ [Clause_i64 swarm_ROBOT_ROLE Operator_Eq (RobotRole_i64 Coordinator)]"
  let ?interest = "swarm_boundary coordinator @ [Clause_i64 swarm_ROBOT_ROLE Operator_Eq (RobotRole_i64 Scout)]"
  let ?task = "swarm_boundary coordinator @
     [Clause_i64 swarm_ROBOT_ROLE Operator_Eq 3, Clause_i64 swarm_CAPABILITY Operator_Eq 3, Clause_bool swarm_OPERATIONAL Operator_Eq True,
      Clause_i64 swarm_BATTERY_LEVEL Operator_Ge 25, Clause_bytes swarm_RECIPIENT_ID Operator_Eq (to_be_bytes target)]"
  let ?request = "swarm_boundary responder @ [Clause_i64 swarm_ROBOT_ROLE Operator_Eq (RobotRole_i64 Coordinator)]"
  have size: "length ?telemetry \<le> MAX_CLAUSES" "length ?interest \<le> MAX_CLAUSES" "length ?task \<le> MAX_CLAUSES" "length ?request \<le> MAX_CLAUSES"
    by (simp_all add: swarm_boundary_def const_defs)
  have ok: "list_all (\<lambda>call. value_valid (clause_value (call_clause call))) ?telemetry"
    "list_all (\<lambda>call. value_valid (clause_value (call_clause call))) ?interest"
    "list_all (\<lambda>call. value_valid (clause_value (call_clause call))) ?task"
    "list_all (\<lambda>call. value_valid (clause_value (call_clause call))) ?request"
    using s(3) c(3) r(3) by (simp_all add: swarm_boundary_def MAX_ATTRIBUTE_BYTES_def)
  note built = built_clauses [OF size(1) ok(1) c(2)] built_clauses [OF size(2) ok(2) s(2)]
    built_clauses [OF size(3) ok(3) r(2)] built_clauses [OF size(4) ok(4) c(2)]
  note eval = clause_holds_def swarm_calls_def swarm_boundary_def swarm_defs same_mission_def
  have "list_all (\<lambda>call. clause_holds (env_attributes coordinator_env) (call_clause call)) ?telemetry \<longleftrightarrow> same_mission coordinator scout"
    "list_all (\<lambda>call. clause_holds (env_attributes scout_env) (call_clause call)) ?interest \<longleftrightarrow> same_mission scout coordinator"
    "list_all (\<lambda>call. clause_holds (env_attributes responder_env) (call_clause call)) ?task \<longleftrightarrow>
       same_mission responder coordinator \<and> k = target \<and> swarm_capability responder = Capability_i64 Transport_capability \<and>
       swarm_operational responder \<and> 25 \<le> sint (swarm_battery_level responder)"
    "list_all (\<lambda>call. clause_holds (env_attributes coordinator_env) (call_clause call)) ?request \<longleftrightarrow> same_mission coordinator responder"
    unfolding s(1) c(1) r(1) using assms(2,4,6) by (auto simp: eval to_be_bytes_inject)
  with built show ?thesis
    unfolding scout_audience_def swarm_role_calls task_audience_calls
    by (intro exI [of _ "map call_clause ?telemetry"] exI [of _ "map call_clause ?interest"] exI [of _ "map call_clause ?task"]
        exI [of _ "map call_clause ?request"]) (simp only: Let_def if_True simp_thms)
qed

text \<open>The multi-tenant programs hear each other exactly within a tenant. A consumer meets the audience of an event
  if and only if it is of the publisher's tenant and has a clearance of at least one; the publisher meets the
  consumer's subscription if and only if the tenant is the same.\<close>

theorem tenant_flow:
  assumes "tenant_agent_environment publisher = (Inr (), publisher_env)" "tenant_role publisher = Role_Publisher"
    "tenant_agent_environment consumer = (Inr (), consumer_env)" "tenant_role consumer = Role_Consumer"
  shows "\<exists>audience subscription. publisher_audience (tenant_id publisher) = Inr audience \<and>
    consumer_subscription (tenant_id consumer) = Inr subscription \<and>
    (predicate_evaluate (predicate_of audience) (environment_of (env_attributes consumer_env)) \<longleftrightarrow>
       tenant_id consumer = tenant_id publisher \<and> 1 \<le> sint (tenant_clearance_level consumer)) \<and>
    (predicate_evaluate (predicate_of subscription) (environment_of (env_attributes publisher_env)) \<longleftrightarrow>
       tenant_id consumer = tenant_id publisher)"
proof -
  note p = tenant_environment_chain [OF assms(1)] and c = tenant_environment_chain [OF assms(3)]
  let ?audience = "[Clause_bytes tenant_TENANT_ID Operator_Eq (tenant_id publisher), Clause_i64 tenant_SERVICE_ROLE Operator_Eq 2,
     Clause_i64 tenant_CLEARANCE_LEVEL Operator_Ge 1]"
  let ?subscription = "[Clause_bytes tenant_TENANT_ID Operator_Eq (tenant_id consumer), Clause_i64 tenant_SERVICE_ROLE Operator_Eq 1]"
  have size: "length ?audience \<le> MAX_CLAUSES" "length ?subscription \<le> MAX_CLAUSES" by (simp_all add: const_defs)
  have ok: "list_all (\<lambda>call. value_valid (clause_value (call_clause call))) ?audience"
    "list_all (\<lambda>call. value_valid (clause_value (call_clause call))) ?subscription" using p(3) c(3) by simp_all
  note built = built_clauses [OF size(1) ok(1) c(2)] built_clauses [OF size(2) ok(2) p(2)]
  note eval = clause_holds_def tenant_calls_def tenant_defs
  have "list_all (\<lambda>call. clause_holds (env_attributes consumer_env) (call_clause call)) ?audience \<longleftrightarrow>
      tenant_id consumer = tenant_id publisher \<and> 1 \<le> sint (tenant_clearance_level consumer)"
    "list_all (\<lambda>call. clause_holds (env_attributes publisher_env) (call_clause call)) ?subscription \<longleftrightarrow>
      tenant_id consumer = tenant_id publisher"
    unfolding p(1) c(1) using assms(2,4) by (auto simp: eval)
  with built show ?thesis
    unfolding publisher_audience_calls consumer_subscription_calls
    by (intro exI [of _ "map call_clause ?audience"] exI [of _ "map call_clause ?subscription"]) blast
qed

section \<open>Witnesses\<close>

abbreviation no_agent_config :: AgentConfig where
  "no_agent_config \<equiv> \<lparr>config_agent_id = [], config_broker_address = [], config_connect_timeout_seconds = 10, config_reconnect_min_seconds = 1, config_reconnect_max_seconds = 30,
     config_ed25519_secret_file = [], config_x25519_secret_file = [], config_ca_ed25519_public_file = [], config_ca_x25519_public_file = []\<rparr>"

definition demo_building :: "building_role \<Rightarrow> building_config" where
  "demo_building role = \<lparr>building_common = no_agent_config, building_role = role, building_id = [7], building_floor_id = Some 2,
     building_alert_zone = [1], building_operational = True, building_temperature_centi_celsius = 2150\<rparr>"

definition demo_swarm :: "swarm_role \<Rightarrow> swarm_config" where
  "demo_swarm role = \<lparr>swarm_common = no_agent_config, swarm_role = role, swarm_id = [7], swarm_mission_epoch = 7, swarm_capability = 3,
     swarm_payload_capacity = 5000, swarm_battery_level = 85, swarm_operational = True, swarm_zone = [1]\<rparr>"

definition demo_tenant :: "tenant_role \<Rightarrow> tenant_config" where
  "demo_tenant role = \<lparr>tenant_common = no_agent_config, tenant_role = role, tenant_id = [7], tenant_service_id = [1],
     tenant_deployment_environment = 1, tenant_clearance_level = 2, tenant_region = [2], tenant_service_health = True\<rparr>"

lemma demo_environments:
  "\<exists>b. building_agent_environment (demo_building role) = (Inr (), b)" "\<exists>b. swarm_agent_environment (demo_swarm role') i = (Inr (), b)"
  "\<exists>b. tenant_agent_environment (demo_tenant role'') = (Inr (), b)"
proof -
  have floor: "building_role (demo_building role) = Role_Sensor \<longrightarrow> building_floor_id (demo_building role) = Some 2" by (simp add: demo_building_def)
  note b = building_chain [OF floor]
  have "list_all (\<lambda>call. value_valid (attribute_value (call_attribute call))) (building_calls (demo_building role) 2)"
    by (cases role) (simp_all add: building_calls_def demo_building_def const_defs)
  from env_chain_builds [OF b(2,3) this] show "\<exists>b. building_agent_environment (demo_building role) = (Inr (), b)" by (simp add: b(1))
  have "list_all (\<lambda>call. value_valid (attribute_value (call_attribute call))) (swarm_calls (demo_swarm role') i)"
    by (simp add: swarm_calls_def demo_swarm_def const_defs)
  from env_chain_builds [OF swarm_chain(2,3) this] show "\<exists>b. swarm_agent_environment (demo_swarm role') i = (Inr (), b)" by (simp add: swarm_chain(1))
  have "list_all (\<lambda>call. value_valid (attribute_value (call_attribute call))) (tenant_calls (demo_tenant role''))"
    by (simp add: tenant_calls_def demo_tenant_def const_defs)
  from env_chain_builds [OF tenant_chain(2,3) this] show "\<exists>b. tenant_agent_environment (demo_tenant role'') = (Inr (), b)" by (simp add: tenant_chain(1))
qed

theorem building_flow_witness:
  "\<exists>panel_env audience. building_agent_environment (demo_building Role_ControlPanel) = (Inr (), panel_env) \<and> sensor_audience [7] = Inr audience \<and>
     predicate_evaluate (predicate_of audience) (environment_of (env_attributes panel_env))"
proof -
  obtain sensor_env panel_env terminal_env where envs: "building_agent_environment (demo_building Role_Sensor) = (Inr (), sensor_env)"
    "building_agent_environment (demo_building Role_ControlPanel) = (Inr (), panel_env)"
    "building_agent_environment (demo_building Role_MaintenanceTerminal) = (Inr (), terminal_env)"
    using demo_environments(1) by metis
  from building_flow [OF envs(1) _ envs(2) _ envs(3)] envs(2) show ?thesis by (simp add: demo_building_def) blast
qed

theorem swarm_flow_witness:
  "\<exists>responder_env task. swarm_agent_environment (demo_swarm Role_Responder) 3 = (Inr (), responder_env) \<and>
     task_audience (demo_swarm Role_Coordinator) 3 = Inr task \<and>
     predicate_evaluate (predicate_of task) (environment_of (env_attributes responder_env))"
proof -
  obtain scout_env coordinator_env responder_env where envs: "swarm_agent_environment (demo_swarm Role_Scout) 1 = (Inr (), scout_env)"
    "swarm_agent_environment (demo_swarm Role_Coordinator) 2 = (Inr (), coordinator_env)"
    "swarm_agent_environment (demo_swarm Role_Responder) 3 = (Inr (), responder_env)"
    using demo_environments(2) by metis
  have roles: "swarm_role (demo_swarm role) = role" for role by (simp add: demo_swarm_def)
  have "same_mission (demo_swarm Role_Responder) (demo_swarm Role_Coordinator)" by (simp add: demo_swarm_def same_mission_def)
  moreover have "swarm_capability (demo_swarm Role_Responder) = Capability_i64 Transport_capability" "swarm_operational (demo_swarm Role_Responder)"
    "25 \<le> sint (swarm_battery_level (demo_swarm Role_Responder))" by (simp_all add: demo_swarm_def)
  ultimately show ?thesis
    using swarm_flow [OF envs(1) roles envs(2) roles envs(3) roles, of 3] envs(3) by blast
qed

theorem tenant_flow_witness:
  "\<exists>consumer_env audience. tenant_agent_environment (demo_tenant Role_Consumer) = (Inr (), consumer_env) \<and> publisher_audience [7] = Inr audience \<and>
     predicate_evaluate (predicate_of audience) (environment_of (env_attributes consumer_env))"
proof -
  obtain publisher_env consumer_env where envs: "tenant_agent_environment (demo_tenant Role_Publisher) = (Inr (), publisher_env)"
    "tenant_agent_environment (demo_tenant Role_Consumer) = (Inr (), consumer_env)" using demo_environments(3) by metis
  from tenant_flow [OF envs(1) _ envs(2)] envs(2) show ?thesis by (simp add: demo_tenant_def) blast
qed

end
