(* ===== verification/Conversation.thy ===== *)
theory Conversation
  imports Flows Boundary
begin

text \<open>
  Whole conversations: an agent provisioned with the CA sets its environment and subscribes, another one sets
  its environment and publishes, the CA serves the four requests, and the first agent receives what comes back. The
  properties run the agent programs for this, from their configuration to the reading that arrives.
\<close>

section \<open>Requests in general\<close>

definition op_request :: "'r crypto \<Rightarrow> Agent \<Rightarrow> Operation \<Rightarrow> HandlerId \<Rightarrow> 'r \<Rightarrow> (Error + bytes) \<times> 'r" where
  "op_request C agent op h rng =
     request_owned (\<lambda>output. request_into C agent output (operation_type op) h rng (\<lambda>plain. encode_operation plain op))"

lemma op_requests:
  "set_environment_request C agent as rng = op_request C agent (SetEnvironment as) HandlerId_NONE rng"
  "publish_request C agent t clauses val rng = op_request C agent (Publish t clauses val) HandlerId_NONE rng"
  "subscribe_permanent_request C agent t h clauses rng =
     (if h = HandlerId_NONE then (Inl WrongHandler, rng) else op_request C agent (SubscribePermanent t clauses) h rng)"
  by (simp_all add: set_environment_request_def set_environment_into_def publish_request_def publish_into_def
      subscribe_permanent_request_def subscribe_permanent_into_def op_request_def request_owned_def)

text \<open>The CA and an agent know each other's keys.\<close>

definition provisioned :: "'r crypto \<Rightarrow> CertificateAuthority \<Rightarrow> store_view \<Rightarrow> Agent \<Rightarrow> bool" where
  "provisioned C ca v agent \<longleftrightarrow>
     ca_ed25519 (agent_ca agent) = CaKeys_verifying_key C (authority_keys ca) \<and>
     ca_x25519 (agent_ca agent) = CaKeys_x25519_public C (authority_keys ca) \<and>
     view_keys v (agent_id agent) = Some \<lparr>public_ed25519 = AgentKeys_verifying_key C (agent_keys agent),
       public_x25519 = AgentKeys_x25519_public C (agent_keys agent)\<rparr>"

lemma op_request_opens:
  assumes laws: "crypto_laws C" and ca: "provisioned C ca v agent" and run: "op_request C agent op h rng = (Inr frame, rng')"
  obtains e where "operation_valid op" "parse_envelope frame = Inr e"
    "envelope_message_type e = operation_type op" "envelope_sender e = agent_id agent" "envelope_recipient e = AgentId_CA" "envelope_handler e = h"
    "envelope_session_id e = SessionId (fst (request_draws C rng))"
    "verify_envelope_signature C e (AgentKeys_verifying_key C (agent_keys agent)) = Inr ()"
    "open_in_place C frame AgentId_CA (operation_type op) (AgentKeys_verifying_key C (agent_keys agent)) (ca_x25519_secret (authority_keys ca)) =
       Inr (operation_bytes op)"
proof -
  let ?out = "replicate MAX_FRAME_LEN 0"
  from run obtain n written where r:
    "request_into C agent ?out (operation_type op) h rng (\<lambda>plain. encode_operation plain op) = (Inr n, written, rng')"
    "frame = take n written"
    by (auto simp: op_request_def request_owned_def split: prod.splits sum.splits)
  have ca': "ca_x25519 (agent_ca agent) = x_public C (ca_x25519_secret (authority_keys ca))"
    using ca by (simp add: provisioned_def CaKeys_x25519_public_def)
  show thesis
    by (rule request_opens [OF laws ca' _ r(1)]) (simp, rule that, simp_all add: r(2) AgentKeys_verifying_key_def)
qed

context ca_store_laws begin

text \<open>The request of a provisioned agent is stopped by the replay memory only, and then dispatched as the operation the agent asked for.\<close>

lemma request_served:
  assumes laws: "crypto_laws C" and ca: "provisioned C ca (view store) agent"
    and op: "operation_type op \<noteq> MT_PublicationResponse" "agent_id agent \<noteq> AgentId_CA"
    and run: "op_request C agent op h r = (Inr frame, r')"
  shows "process C S ca frame now (store, rng) =
      (case store_check_and_mark S store (agent_id agent) (SessionId (fst (request_draws C r))) now of
         (Inl err, store1) \<Rightarrow> (Inl err, (store1, rng))
       | (Inr _, store1) \<Rightarrow> dispatch C S ca (agent_id agent) (operation_type op) h (operation_bytes op) (operation_ref op) (store1, rng))"
proof (rule op_request_opens [OF laws ca run])
  fix e
  let ?key = "AgentKeys_verifying_key C (agent_keys agent)"
  assume e: "operation_valid op" "parse_envelope frame = Inr e" "envelope_message_type e = operation_type op"
    "envelope_sender e = agent_id agent" "envelope_recipient e = AgentId_CA" "envelope_handler e = h"
    "envelope_session_id e = SessionId (fst (request_draws C r))" "verify_envelope_signature C e ?key = Inr ()"
    "open_in_place C frame AgentId_CA (operation_type op) ?key (ca_x25519_secret (authority_keys ca)) = Inr (operation_bytes op)"
  have "authentic C S store frame e \<lparr>public_ed25519 = ?key, public_x25519 = AgentKeys_x25519_public C (agent_keys agent)\<rparr>"
    using e(2-8) ca op crypto_lawsD(1) [OF laws]
    by (simp add: authentic_def keys_law provisioned_def AgentKeys_verifying_key_def ok_or_def verify_envelope_signature_def split: if_splits)
  from process_authentic [OF this] e parse_operation_print [OF e(1)] show ?thesis
    by (simp split: prod.splits sum.splits)
qed

text \<open>What the CA accepts of a provisioned agent, it dispatches as the operation the agent asked for.\<close>

lemma request_performed:
  assumes laws: "crypto_laws C" and ca: "provisioned C ca (view store) agent"
    and run: "op_request C agent op h r = (Inr frame, r')"
    and served: "process C S ca frame now (store, rng) = (Inr res, (store', rng'))"
  shows "operation_valid op \<and> (\<exists>store1. view store1 = view store \<and>
    dispatch C S ca (agent_id agent) (operation_type op) h (operation_bytes op) (operation_ref op) (store1, rng) = (Inr res, (store', rng')))"
proof -
  obtain e where e: "operation_valid op" "parse_envelope frame = Inr e" "envelope_message_type e = operation_type op"
    "envelope_sender e = agent_id agent" by (rule op_request_opens [OF laws ca run])
  from process_Inr_authentic [OF served] e(2) obtain keys where "authentic C S store frame e keys" by (auto simp: authentic_def)
  with e(3,4) have op: "operation_type op \<noteq> MT_PublicationResponse" "agent_id agent \<noteq> AgentId_CA" by (simp_all add: authentic_def)
  from request_served [OF laws ca op run, of now rng] served mark_law [of store "agent_id agent" "SessionId (fst (request_draws C r))" now] e(1)
  show ?thesis by (auto split: prod.splits sum.splits)
qed

lemma environment_set:
  assumes "crypto_laws C" "provisioned C ca (view store) agent" "op_request C agent (SetEnvironment as) h r = (Inr frame, r')"
    "process C S ca frame now (store, rng) = (Inr res, (store', rng'))"
  shows "attributes_valid as" "view store' = (view store)\<lparr>view_environments :=
    (view_environments (view store))(agent_id agent \<mapsto> operation_bytes (SetEnvironment as))\<rparr>"
proof -
  from request_performed [OF assms] obtain store1 where "attributes_valid as" "view store1 = view store"
    "process_set_environment S ca (agent_id agent) h (operation_bytes (SetEnvironment as)) (environment_of as) (store1, rng) = (Inr res, (store', rng'))"
    by (auto simp: dispatch_def)
  with process_set_environment_effect(1) [OF this(3)] show "attributes_valid as" "view store' = (view store)\<lparr>view_environments :=
    (view_environments (view store))(agent_id agent \<mapsto> operation_bytes (SetEnvironment as))\<rparr>" by simp_all
qed

lemma subscribed:
  assumes "crypto_laws C" "provisioned C ca (view store) agent" "op_request C agent (SubscribePermanent t clauses) h r = (Inr frame, r')"
    "process C S ca frame now (store, rng) = (Inr res, (store', rng'))"
  shows "clauses_valid clauses" "h \<noteq> HandlerId_NONE" "view store' = (view store)\<lparr>view_subscriptions := (view_subscriptions (view store))
    (t := upsert \<lparr>sub_subscriber = agent_id agent, sub_type_id = t, sub_handler = h, sub_kind = Permanent,
       sub_encoded = operation_bytes (SubscribePermanent t clauses)\<rparr> (view_subscriptions (view store) t))\<rparr>"
proof -
  from request_performed [OF assms] obtain store1 where 1: "clauses_valid clauses" "view store1 = view store"
    "process_subscribe S ca (agent_id agent) h (operation_bytes (SubscribePermanent t clauses)) t Permanent (store1, rng) = (Inr res, (store', rng'))"
    by (auto simp: dispatch_def)
  from process_subscribe_effect [OF 1(3)] 1(1,2) show "clauses_valid clauses" "h \<noteq> HandlerId_NONE"
    "view store' = (view store)\<lparr>view_subscriptions := (view_subscriptions (view store))
    (t := upsert \<lparr>sub_subscriber = agent_id agent, sub_type_id = t, sub_handler = h, sub_kind = Permanent,
       sub_encoded = operation_bytes (SubscribePermanent t clauses)\<rparr> (view_subscriptions (view store) t))\<rparr>" by simp_all
qed

text \<open>A publication goes to the subscriptions that are eligible under the publisher's stored environment.\<close>

lemma publication_sent:
  assumes laws: "crypto_laws C" and ok: "view_ok (view store)" and ca: "provisioned C ca (view store) agent"
    and run: "op_request C agent (Publish t clauses val) h r = (Inr frame, r')"
    and served: "process C S ca frame now (store, rng) = (Inr (Deliveries ds), (store', rng'))"
    and env: "view_environments (view store) (agent_id agent) = Some (operation_bytes (SetEnvironment as))" "attributes_valid as"
  shows "clauses_valid clauses" "length val \<le> MAX_VALUE_BYTES"
    "list_all2 (\<lambda>sub frame. \<exists>rkeys r r'. view_keys (view store) (sub_subscriber sub) = Some rkeys \<and>
        delivery C ca (agent_id agent) (sub_subscriber sub) (sub_handler sub) t val (public_x25519 rkeys) r = (Inr frame, r'))
       (filter (eligible (authority_policy ca) (view_environments (view store)) (agent_id agent) (environment_of as) t (predicate_of clauses))
         (view_subscriptions (view store) t)) ds"
proof -
  obtain e where e: "operation_valid (Publish t clauses val)" "parse_envelope frame = Inr e" "envelope_sender e = agent_id agent"
    "open_in_place C frame AgentId_CA MT_Publish (AgentKeys_verifying_key C (agent_keys agent)) (ca_x25519_secret (authority_keys ca)) =
       Inr (operation_bytes (Publish t clauses val))"
    by (rule op_request_opens [OF laws ca run]) (auto simp del: operation_bytes.simps)
  from process_published [OF served ok] obtain e' :: EnvelopeRef and keys plain t' pred' val' encoded penv where
    p: "authentic C S store frame e' keys"
      "open_in_place C frame AgentId_CA MT_Publish (public_ed25519 keys) (ca_x25519_secret (authority_keys ca)) = Inr plain"
      "parse_operation plain = Inr (Op_Publish t' pred' val')"
      "view_environments (view store) (envelope_sender e') = Some encoded" "parse_stored_environment encoded = Inr penv"
    and goes: "list_all2 (\<lambda>sub frame. \<exists>rkeys r r'. view_keys (view store) (sub_subscriber sub) = Some rkeys \<and>
        delivery C ca (envelope_sender e') (sub_subscriber sub) (sub_handler sub) t' val' (public_x25519 rkeys) r = (Inr frame, r'))
       (filter (eligible (authority_policy ca) (view_environments (view store)) (envelope_sender e') penv t' pred')
         (view_subscriptions (view store) t')) ds"
    unfolding Let_def by blast
  have "e' = e" using p(1) e(2) by (simp add: authentic_def)
  with e(3) have sender: "envelope_sender e' = agent_id agent" by simp
  have "public_ed25519 keys = AgentKeys_verifying_key C (agent_keys agent)"
    using p(1) ca sender by (auto simp: authentic_def keys_law provisioned_def ok_or_def)
  with p(2) e(4) have "plain = operation_bytes (Publish t clauses val)" by simp
  with p(3) parse_operation_print [OF e(1)] have fields: "t' = t" "pred' = predicate_of clauses" "val' = val" by simp_all
  have "operation_valid (SetEnvironment as)" using env(2) by simp
  with p(4,5) env(1) sender have "penv = environment_of as"
    by (auto simp: parse_stored_environment_def parse_operation_print simp del: operation_bytes.simps)
  with goes fields sender show "list_all2 (\<lambda>sub frame. \<exists>rkeys r r'. view_keys (view store) (sub_subscriber sub) = Some rkeys \<and>
        delivery C ca (agent_id agent) (sub_subscriber sub) (sub_handler sub) t val (public_x25519 rkeys) r = (Inr frame, r'))
       (filter (eligible (authority_policy ca) (view_environments (view store)) (agent_id agent) (environment_of as) t (predicate_of clauses))
         (view_subscriptions (view store) t)) ds" by simp
  show "clauses_valid clauses" "length val \<le> MAX_VALUE_BYTES" using e(1) by simp_all
qed

end

section \<open>A conversation\<close>

lemma upsert_member: "sub \<in> set (upsert sub bucket)"
proof -
  have "sub \<in> set bucket'" if "replace_first p sub bucket = Some bucket'" for p bucket'
    using that by (induction bucket arbitrary: bucket') (auto split: if_splits)
  then show ?thesis by (auto simp: upsert_def split: option.splits)
qed

text \<open>The subscriber hears the publisher: both predicates hold and the policy agrees.\<close>

definition hears ::
  "CertificateAuthority \<Rightarrow> AgentId \<Rightarrow> AttributeRef list \<Rightarrow> ClauseRef list \<Rightarrow> AgentId \<Rightarrow> AttributeRef list \<Rightarrow> ClauseRef list \<Rightarrow> TypeId \<Rightarrow> bool" where
  "hears ca subscriber sas wanted publisher pas audience t \<longleftrightarrow>
     predicate_evaluate (predicate_of wanted) (environment_of pas) \<and>
     predicate_evaluate (predicate_of audience) (environment_of sas) \<and>
     authorize_delivery (authority_policy ca) publisher (environment_of pas) subscriber (environment_of sas) t"

context ca_store_laws begin

text \<open>Once the environments and the subscription are stored, a publication reaches the subscriber exactly if it hears the publisher.\<close>

lemma heard_exactly:
  assumes laws: "crypto_laws C" and ok: "view_ok (view store)"
    and ca: "provisioned C ca (view store) publisher" "provisioned C ca (view store) subscriber"
    and run: "op_request C publisher (Publish t audience val) h' r = (Inr frame, r')"
    and served: "process C S ca frame now (store, rng) = (Inr (Deliveries ds), (store', rng'))"
    and penv: "view_environments (view store) (agent_id publisher) = Some (operation_bytes (SetEnvironment pas))" "attributes_valid pas"
    and senv: "view_environments (view store) (agent_id subscriber) = Some (operation_bytes (SetEnvironment sas))" "attributes_valid sas"
    and stored: "\<lparr>sub_subscriber = agent_id subscriber, sub_type_id = t, sub_handler = h, sub_kind = Permanent,
       sub_encoded = operation_bytes (SubscribePermanent t wanted)\<rparr> \<in> set (view_subscriptions (view store) t)"
    and wanted: "clauses_valid wanted" "h \<noteq> HandlerId_NONE"
  shows "if hears ca (agent_id subscriber) sas wanted (agent_id publisher) pas audience t
    then \<exists>f\<in>set ds. \<exists>session. \<forall>replay later replay'. mark replay AgentId_CA session later = (Inr (), replay') \<longrightarrow>
      receive C mark subscriber f h replay later =
        (Inr \<lparr>delivery_type_id = t, delivery_publisher = agent_id publisher, delivery_handler = h, delivery_value = val\<rparr>, replay')
    else \<forall>f\<in>set ds. \<forall>replay later. \<not> is_ok (fst (receive C mark subscriber f h replay later))"
proof -
  let ?sub = "\<lparr>sub_subscriber = agent_id subscriber, sub_type_id = t, sub_handler = h, sub_kind = Permanent,
       sub_encoded = operation_bytes (SubscribePermanent t wanted)\<rparr>"
  let ?eligible = "eligible (authority_policy ca) (view_environments (view store)) (agent_id publisher) (environment_of pas) t (predicate_of audience)"
  note sent = publication_sent [OF laws ok ca(1) run served penv]
  have parsed: "parse_operation (operation_bytes (SubscribePermanent t wanted)) = Inr (Op_SubscribePermanent t (predicate_of wanted))"
    "parse_operation (operation_bytes (SetEnvironment sas)) = Inr (Op_SetEnvironment (environment_of sas))"
    using parse_operation_print [of "SubscribePermanent t wanted"] parse_operation_print [of "SetEnvironment sas"] wanted(1) senv(2) by simp_all
  have eligible: "?eligible ?sub \<longleftrightarrow> hears ca (agent_id subscriber) sas wanted (agent_id publisher) pas audience t"
    using senv(1) parsed
    by (simp add: eligible_iff subscription_predicate_def parse_stored_environment_def hears_def del: operation_bytes.simps)
  have keys: "public_x25519 rkeys = AgentKeys_x25519_public C (agent_keys subscriber)"
    if "view_keys (view store) (agent_id subscriber) = Some rkeys" for rkeys
    using ca(2) that by (simp add: provisioned_def)
  have signer: "ca_ed25519 (agent_ca subscriber) = CaKeys_verifying_key C (authority_keys ca)" using ca(2) by (simp add: provisioned_def)
  show ?thesis
  proof (cases "?eligible ?sub")
    case True
    with stored have "?sub \<in> set (filter ?eligible (view_subscriptions (view store) t))" by simp
    then obtain i where i: "i < length (filter ?eligible (view_subscriptions (view store) t))"
      "filter ?eligible (view_subscriptions (view store) t) ! i = ?sub" unfolding in_set_conv_nth by blast
    with list_all2_nthD [OF sent(3) i(1)] keys obtain r r' where
      d: "delivery C ca (agent_id publisher) (agent_id subscriber) h t val (AgentKeys_x25519_public C (agent_keys subscriber)) r = (Inr (ds ! i), r')"
      by auto
    have "receive C mark subscriber (ds ! i) h replay later =
        (Inr \<lparr>delivery_type_id = t, delivery_publisher = agent_id publisher, delivery_handler = h, delivery_value = val\<rparr>, replay')"
      if "mark replay AgentId_CA (SessionId (fst (request_draws C r))) later = (Inr (), replay')" for replay later replay'
      using delivery_received [of C val ca "agent_id publisher" subscriber h t r "ds ! i" r' mark replay later replay'] laws sent(2) d signer wanted(2) that
      by blast
    moreover have "ds ! i \<in> set ds" using i(1) list_all2_lengthD [OF sent(3)] by simp
    ultimately show ?thesis using True eligible by auto
  next
    case False
    have "\<not> is_ok (fst (receive C mark subscriber f h replay later))" if f: "f \<in> set ds" for f replay later
    proof
      assume "is_ok (fst (receive C mark subscriber f h replay later))"
      then obtain d replay' where got: "receive C mark subscriber f h replay later = (Inr d, replay')" by (metis is_ok_iff prod.collapse)
      from f obtain i where i: "i < length ds" "ds ! i = f" unfolding in_set_conv_nth by blast
      let ?other = "filter ?eligible (view_subscriptions (view store) t) ! i"
      from list_all2_nthD2 [OF sent(3) i(1)] i(2) obtain rkeys r r' where d:
        "view_keys (view store) (sub_subscriber ?other) = Some rkeys"
        "delivery C ca (agent_id publisher) (sub_subscriber ?other) (sub_handler ?other) t val (public_x25519 rkeys) r = (Inr f, r')" by blast
      from delivery_addressed [OF laws sent(2) d(2)] got have who: "sub_subscriber ?other = agent_id subscriber"
        by (auto simp: receive_Inr_iff)
      with d keys have "delivery C ca (agent_id publisher) (agent_id subscriber) (sub_handler ?other) t val
          (AgentKeys_x25519_public C (agent_keys subscriber)) r = (Inr f, r')" by simp
      from delivery_read [OF laws sent(2) this signer got] have "sub_handler ?other = h" by simp
      with who have slot: "slot ?other = slot ?sub" by (simp add: slot_def)
      have "?other \<in> set (filter ?eligible (view_subscriptions (view store) t))"
        using i(1) list_all2_lengthD [OF sent(3)] by (intro nth_mem) simp
      then have other: "?eligible ?other" "?other \<in> set (view_subscriptions (view store) t)" by simp_all
      have "distinct (map slot (view_subscriptions (view store) t))" using ok by (simp add: view_ok_def)
      with slot other(2) stored have "?other = ?sub" by (meson distinct_map inj_onD)
      with other(1) False show False by simp
    qed
    with False eligible show ?thesis by simp
  qed
qed

lemma deliveries_parse:
  assumes "crypto_laws C" "view_ok (view store)" "process C S ca frame now (store, rng) = (Inr (Deliveries ds), (store', rng'))" "f \<in> set ds"
  shows "\<exists>e. parse_envelope f = Inr e"
proof -
  from process_published [OF assms(3,2)] obtain e :: EnvelopeRef and plain t pred val penv where
    val: "parse_operation plain = Inr (Op_Publish t pred val)"
    and goes: "list_all2 (\<lambda>sub frame. \<exists>rkeys r r'. view_keys (view store) (sub_subscriber sub) = Some rkeys \<and>
        delivery C ca (envelope_sender e) (sub_subscriber sub) (sub_handler sub) t val (public_x25519 rkeys) r = (Inr frame, r'))
       (filter (eligible (authority_policy ca) (view_environments (view store)) (envelope_sender e) penv t pred)
         (view_subscriptions (view store) t)) ds"
    unfolding Let_def by blast
  from assms(4) obtain i where i: "i < length ds" "ds ! i = f" unfolding in_set_conv_nth by blast
  from list_all2_nthD2 [OF goes i(1)] i(2) delivery_addressed [OF assms(1) published_value_fits [OF val]] show ?thesis by blast
qed

text \<open>The four requests in order.\<close>

lemma conversation:
  assumes laws: "crypto_laws C" and ok: "view_ok (view store)"
    and ca: "provisioned C ca (view store) publisher" "provisioned C ca (view store) subscriber"
    and ids: "agent_id subscriber \<noteq> agent_id publisher"
    and requests: "op_request C subscriber (SetEnvironment sas) HandlerId_NONE r1 = (Inr f1, r1')"
      "op_request C subscriber (SubscribePermanent t wanted) h r2 = (Inr f2, r2')"
      "op_request C publisher (SetEnvironment pas) HandlerId_NONE r3 = (Inr f3, r3')"
      "op_request C publisher (Publish t audience val) HandlerId_NONE r4 = (Inr f4, r4')"
    and served: "process C S ca f1 t1 (store, g) = (Inr x1, (store1, g1))" "process C S ca f2 t2 (store1, g1) = (Inr x2, (store2, g2))"
      "process C S ca f3 t3 (store2, g2) = (Inr x3, (store3, g3))" "process C S ca f4 t4 (store3, g3) = (Inr (Deliveries ds), (store4, g4))"
  shows "if hears ca (agent_id subscriber) sas wanted (agent_id publisher) pas audience t
    then \<exists>f\<in>set ds. \<exists>session. \<forall>replay later replay'. mark replay AgentId_CA session later = (Inr (), replay') \<longrightarrow>
      receive C mark subscriber f h replay later =
        (Inr \<lparr>delivery_type_id = t, delivery_publisher = agent_id publisher, delivery_handler = h, delivery_value = val\<rparr>, replay')
    else \<forall>f\<in>set ds. \<forall>replay later. \<not> is_ok (fst (receive C mark subscriber f h replay later))"
proof -
  note v1 = environment_set [OF laws ca(2) requests(1) served(1)]
  have ca1: "provisioned C ca (view store1) publisher" "provisioned C ca (view store1) subscriber" using ca by (simp_all add: provisioned_def v1(2))
  note v2 = subscribed [OF laws ca1(2) requests(2) served(2)]
  have ca2: "provisioned C ca (view store2) publisher" "provisioned C ca (view store2) subscriber" using ca1 by (simp_all add: provisioned_def v2(3))
  note v3 = environment_set [OF laws ca2(1) requests(3) served(3)]
  have ca3: "provisioned C ca (view store3) publisher" "provisioned C ca (view store3) subscriber" using ca2 by (simp_all add: provisioned_def v3(2))
  have "view_ok (view store3)"
    by (rule process_view_ok [OF served(3) process_view_ok [OF served(2) process_view_ok [OF served(1) ok]]])
  then show ?thesis
    by (rule heard_exactly [OF laws _ ca3 requests(4) served(4) _ v3(1) _ v1(1) _ v2(1,2)])
       (simp_all add: v1(2) v2(3) v3(2) upsert_member ids del: operation_bytes.simps)
qed

end

text \<open>The CA serving one frame after another.\<close>

fun ca_serves ::
  "'r crypto \<Rightarrow> 's ca_store \<Rightarrow> CertificateAuthority \<Rightarrow> (bytes \<times> u64) list \<Rightarrow> 's \<times> 'r \<Rightarrow> (Error + ProcessResult) list \<times> ('s \<times> 'r)" where
  "ca_serves C S ca [] st = ([], st)"
| "ca_serves C S ca ((frame, now) # frames) st =
     (let (result, st) = process C S ca frame now st; (results, st) = ca_serves C S ca frames st in (result # results, st))"

lemma ca_serves_Cons:
  "ca_serves C S ca ((frame, now) # frames) st = (result # results, st') \<longleftrightarrow>
     (\<exists>st1. process C S ca frame now st = (result, st1) \<and> ca_serves C S ca frames st1 = (results, st'))"
  by (auto split: prod.splits)

end
