(* ===== verification/Programs.thy ===== *)
theory Programs
  imports Conversation
begin

text \<open>
  The agent programs in a conversation: what \<open>main\<close> of each role asks the CA for, the reading that arrives, and the line that is printed for it.
\<close>

section \<open>Runs of the programs\<close>

lemma program_waits:
  "tryP r s k = Some (Program_waits, p) \<longleftrightarrow> (\<exists>x. r = Inr x \<and> k x = Some (Program_waits, p))"
  "tryR q s k' = Some (Program_waits, p) \<longleftrightarrow> (\<exists>x rng. q = (Inr x, rng) \<and> k' x (s\<lparr>app_rng := rng\<rparr>) = Some (Program_waits, p))"
  "tryN net s k'' = Some (Program_waits, p) \<longleftrightarrow> (\<exists>n. net = Some n \<and> k'' (s\<lparr>app_net := n\<rparr>) = Some (Program_waits, p))"
  by (auto simp: tryP_def tryR_def tryN_def split: sum.splits prod.splits option.splits)

lemma connect_writes:
  "connect_agent config identity net = Some net' \<Longrightarrow> written (net_log net') = written (net_log net)"
  by (rule connect_agent_log [where up = True]) auto

lemma send_writes:
  "send_agent_frame config identity frame net = Some net' \<Longrightarrow> written (net_log net') = written (net_log net) @ [frame]"
  unfolding send_agent_frame_def by (drule send_loop_log) auto

lemma send_on_demand_writes:
  assumes "send_on_demand_frames config identity frames net = Some net'"
  shows "written (net_log net') = written (net_log net) @ frames"
proof -
  from assms obtain net1 net2 where net: "connect_agent config identity net = Some net1"
    "send_agent_frames config identity frames net1 = Some net2" "net' = net2\<lparr>net_log := net_log net2 @ [Closed]\<rparr>"
    by (auto simp: send_on_demand_frames_def split: option.splits)
  from send_agent_frames_log [OF net(2)] connect_writes [OF net(1)] net(3) show ?thesis by auto
qed

text \<open>A program that sets an environment, subscribes for good, prints that it did, and then runs its receive loop.\<close>

definition subscribes ::
  "bytes \<Rightarrow> 'r crypto \<Rightarrow> Agent \<Rightarrow> AttributeRef list \<Rightarrow> TypeId \<Rightarrow> HandlerId \<Rightarrow> ClauseRef list \<Rightarrow> ('e, 'r) app \<Rightarrow> ('e, 'r) app \<Rightarrow> bool" where
  "subscribes submitted C agent environment t h wanted s p \<longleftrightarrow>
     (\<exists>r1 f1 r2 f2 r3. op_request C agent (SetEnvironment environment) HandlerId_NONE r1 = (Inr f1, r2) \<and>
        op_request C agent (SubscribePermanent t wanted) h r2 = (Inr f2, r3) \<and>
        written (net_log (app_net p)) = written (net_log (app_net s)) @ [f1, f2]) \<and>
     history_deliveries p = history_deliveries s \<and> app_stdout p = app_stdout s @ [submitted] \<and> app_replay p = FixedReplayCache_new 256 600"

text \<open>One turn of a program that publishes what it reads.\<close>

definition publishes ::
  "'r crypto \<Rightarrow> Agent \<Rightarrow> AttributeRef list \<Rightarrow> TypeId \<Rightarrow> ClauseRef list \<Rightarrow> bytes \<Rightarrow> ('e, 'r) app \<Rightarrow> ('e, 'r) app \<Rightarrow> bool" where
  "publishes C agent environment t audience val s q \<longleftrightarrow>
     (\<exists>r1 f1 r2 f2 r3. op_request C agent (Publish t audience val) HandlerId_NONE r1 = (Inr f2, r2) \<and>
        op_request C agent (SetEnvironment environment) HandlerId_NONE r2 = (Inr f1, r3) \<and>
        written (net_log (app_net q)) = written (net_log (app_net s)) @ [f1, f2])"

abbreviation panel_submitted :: bytes where
  "panel_submitted \<equiv> building_log ''request-submitted role=control-panel v1-ack=unavailable''"

abbreviation reading_accepted :: bytes where
  "reading_accepted \<equiv> building_log ''delivery-accepted type=''"

lemma panel_runs:
  assumes "building_role config = Role_ControlPanel" "building_main C hex files config seeded lines [] s = Some (Program_waits, p)"
  obtains agent environment wanted where "load_agent hex files (building_common config) = Inr agent"
    "building_agent_environment config = (Inr (), environment)" "panel_subscription (building_id config) = Inr wanted"
    "subscribes panel_submitted C agent (env_attributes environment) building_SENSOR_READING building_HANDLER wanted s p"
    "\<And>events. building_main C hex files config seeded lines events s = receive_loop C (building_common config) agent building_HANDLER reading_accepted events p"
proof -
  obtain built environment' where env: "building_agent_environment config = (built, environment')" by fastforce
  from assms(2) obtain agent rng environment net1 f1 r1 net2 wanted f2 r2 net3 where
    start: "load_agent hex files (building_common config) = Inr agent" "seeded = Some rng"
      "building_agent_environment config = (Inr (), environment)" "panel_subscription (building_id config) = Inr wanted"
    and net: "connect_agent (building_common config) (agent_id agent) (app_net s) = Some net1"
      "send_agent_frame (building_common config) (agent_id agent) f1 net1 = Some net2"
      "send_agent_frame (building_common config) (agent_id agent) f2 net2 = Some net3"
    and requests: "set_environment_request C agent (env_attributes environment) rng = (Inr f1, r1)"
      "subscribe_permanent_request C agent building_SENSOR_READING building_HANDLER wanted r1 = (Inr f2, r2)"
    and p: "p = s\<lparr>app_rng := r2, app_net := net3, app_stdout := app_stdout s @ [panel_submitted], app_replay := FixedReplayCache_new 256 600\<rparr>"
    by (clarsimp simp: Let_def building_main_def run_panel_def program_waits env assms(1) ok_or_Inr_iff println_def)
  show thesis
  proof (rule that [OF start(1,3,4)])
    have "written (net_log (app_net p)) = written (net_log (app_net s)) @ [f1, f2]"
      using send_writes [OF net(3)] send_writes [OF net(2)] connect_writes [OF net(1)] p by simp
    with requests p show "subscribes panel_submitted C agent (env_attributes environment) building_SENSOR_READING building_HANDLER wanted s p"
      unfolding op_requests subscribes_def by (auto split: if_splits)
    show "building_main C hex files config seeded lines events s = receive_loop C (building_common config) agent building_HANDLER reading_accepted events p" for events
      using assms(1) start net requests p by (simp add: building_main_def run_panel_def Let_def println_def)
  qed
qed

lemma sensor_runs:
  assumes "building_role config = Role_Sensor" "building_main C hex files config seeded [Line line] events s = Some (Program_waits, q)"
  obtains agent environment audience temperature where "load_agent hex files (building_common config) = Inr agent"
    "building_agent_environment config = (Inr (), environment)" "sensor_audience (building_id config) = Inr audience"
    "parse_i64 (trim line) = Some temperature"
    "publishes C agent (env_attributes environment) building_SENSOR_READING audience (to_be_bytes temperature) s q"
proof -
  obtain built environment' where env: "building_agent_environment config = (built, environment')" by fastforce
  from assms(2) obtain agent rng environment temperature audience f2 r1 f1 r2 net where
    start: "load_agent hex files (building_common config) = Inr agent"
      "building_agent_environment config = (Inr (), environment)" "sensor_audience (building_id config) = Inr audience"
      "parse_i64 (trim line) = Some temperature"
    and net: "send_on_demand_frames (building_common config) (agent_id agent) [f1, f2] (app_net s) = Some net"
    and requests: "publish_request C agent building_SENSOR_READING audience (to_be_bytes temperature) rng = (Inr f2, r1)"
      "set_environment_request C agent (env_attributes environment) r1 = (Inr f1, r2)"
    and q: "app_net q = net"
    by (clarsimp simp: Let_def building_main_def run_sensor_def program_waits env assms(1) ok_or_Inr_iff println_def)
  have "written (net_log (app_net q)) = written (net_log (app_net s)) @ [f1, f2]" using send_on_demand_writes [OF net] q by simp
  with requests have "publishes C agent (env_attributes environment) building_SENSOR_READING audience (to_be_bytes temperature) s q"
    unfolding op_requests publishes_def by blast
  with start that show thesis by blast
qed

section \<open>What a receive loop shows\<close>

lemma fresh_marks: "\<exists>replay. fixed_check_and_mark (FixedReplayCache_new 256 600) a session now = (Inr (), replay)"
proof -
  have entries: "fixed_entries (FixedReplayCache_new 256 600) = None # replicate 255 None"
    by (simp add: FixedReplayCache_new_def numeral_eq_Suc)
  show ?thesis unfolding fixed_check_and_mark_def entries by (simp add: Let_def list_ex_iff expire_entry_def)
qed

text \<open>A program that was at the subscriber's end of a conversation, and is given a frame.\<close>

lemma receives_frame:
  assumes "parse_envelope f = Inr e"
  shows "receive_loop C config agent h announce [(Next_frame f, now)] p =
    (case receive C fixed_check_and_mark agent f h (app_replay p) now of
       (Inl _, replay) \<Rightarrow> Some (Program_waits, p\<lparr>app_replay := replay\<rparr>)
     | (Inr d, replay) \<Rightarrow> Some (Program_waits, p\<lparr>app_replay := replay, history_deliveries := history_deliveries p @ [d],
         app_stdout := app_stdout p @ [announce @ display_nat (unat (type_u32 (delivery_type_id d)))]\<rparr>))"
  using assms by (simp add: receive_turn_def println_def Let_def parse_envelope_def split: prod.splits sum.splits if_splits)

text \<open>The program then waits; \<open>Agent::receive\<close> has returned exactly \<open>ds\<close> to it and it has printed exactly \<open>lines\<close>.\<close>

definition accepts_and_prints :: "('e, 'r) program \<Rightarrow> Delivery list \<Rightarrow> bytes list \<Rightarrow> bool" where
  "accepts_and_prints program ds lines \<longleftrightarrow>
     (\<exists>p. program = Some (Program_waits, p) \<and> history_deliveries p = ds \<and> app_stdout p = lines)"

text \<open>The CA serves what a subscribing and then a publishing program wrote.\<close>

lemma programs_converse:
  assumes laws: "crypto_laws C" and ok: "view_ok (ps_view store)"
    and ca: "provisioned C ca (ps_view store) publisher" "provisioned C ca (ps_view store) subscriber"
    and ids: "agent_id subscriber \<noteq> agent_id publisher"
    and subscribes: "subscribes submitted C subscriber sas t h wanted s p" "written (net_log (app_net s)) = []" "history_deliveries s = []" "app_stdout s = []"
    and publishes: "publishes C publisher pas t audience val s' q" "written (net_log (app_net s')) = []"
    and served: "ca_serves C persistent_store ca (zip (written (net_log (app_net p)) @ written (net_log (app_net q))) [t1, t2, t3, t4]) (store, rng) =
      ([Inr x1, Inr x2, Inr x3, Inr (Deliveries ds)], st')"
  shows "if hears ca (agent_id subscriber) sas wanted (agent_id publisher) pas audience t
    then \<exists>f\<in>set ds. \<forall>now. accepts_and_prints (receive_loop C config subscriber h announce [(Next_frame f, now)] p)
      [\<lparr>delivery_type_id = t, delivery_publisher = agent_id publisher, delivery_handler = h, delivery_value = val\<rparr>]
      [submitted, announce @ display_nat (unat (type_u32 t))]
    else \<forall>f\<in>set ds. \<forall>now. accepts_and_prints (receive_loop C config subscriber h announce [(Next_frame f, now)] p) [] [submitted]"
proof -
  from subscribes obtain r1 f1 r2 f2 r3 where panel: "op_request C subscriber (SetEnvironment sas) HandlerId_NONE r1 = (Inr f1, r2)"
    "op_request C subscriber (SubscribePermanent t wanted) h r2 = (Inr f2, r3)" "written (net_log (app_net p)) = [f1, f2]"
    "history_deliveries p = []" "app_stdout p = [submitted]" "app_replay p = FixedReplayCache_new 256 600"
    by (auto simp: subscribes_def)
  from publishes obtain r4 f3 r5 f4 r6 where sensor: "op_request C publisher (Publish t audience val) HandlerId_NONE r4 = (Inr f4, r5)"
    "op_request C publisher (SetEnvironment pas) HandlerId_NONE r5 = (Inr f3, r6)" "written (net_log (app_net q)) = [f3, f4]"
    by (auto simp: publishes_def)
  from served obtain store1 g1 store2 g2 store3 g3 store4 g4 where run:
    "process C persistent_store ca f1 t1 (store, rng) = (Inr x1, (store1, g1))" "process C persistent_store ca f2 t2 (store1, g1) = (Inr x2, (store2, g2))"
    "process C persistent_store ca f3 t3 (store2, g2) = (Inr x3, (store3, g3))"
    "process C persistent_store ca f4 t4 (store3, g3) = (Inr (Deliveries ds), (store4, g4))"
    unfolding panel(3) sensor(3) by (auto simp del: ca_serves.simps(2) simp: ca_serves_Cons)
  have "view_ok (ps_view store3)"
    by (rule ps.process_view_ok [OF run(3) ps.process_view_ok [OF run(2) ps.process_view_ok [OF run(1) ok]]])
  then have parse: "\<exists>e. parse_envelope f = Inr e" if "f \<in> set ds" for f by (rule ps.deliveries_parse [OF laws _ run(4) that])
  note heard = ps.conversation [OF laws ok ca ids panel(1,2) sensor(2,1) run, of fixed_check_and_mark]
  show ?thesis
  proof (cases "hears ca (agent_id subscriber) sas wanted (agent_id publisher) pas audience t")
    case True
    with heard obtain f session where f: "f \<in> set ds" "\<And>replay later replay'. fixed_check_and_mark replay AgentId_CA session later = (Inr (), replay') \<Longrightarrow>
      receive C fixed_check_and_mark subscriber f h replay later =
        (Inr \<lparr>delivery_type_id = t, delivery_publisher = agent_id publisher, delivery_handler = h, delivery_value = val\<rparr>, replay')"
      by auto
    have "accepts_and_prints (receive_loop C config subscriber h announce [(Next_frame f, now)] p)
      [\<lparr>delivery_type_id = t, delivery_publisher = agent_id publisher, delivery_handler = h, delivery_value = val\<rparr>]
      [submitted, announce @ display_nat (unat (type_u32 t))]" for now
    proof -
      obtain replay where mark: "fixed_check_and_mark (FixedReplayCache_new 256 600) AgentId_CA session now = (Inr (), replay)" using fresh_marks by blast
      from parse [OF f(1)] obtain e where e: "parse_envelope f = Inr e" by blast
      from f(2) [OF mark] panel(4-6) show ?thesis unfolding accepts_and_prints_def receives_frame [OF e] by simp
    qed
    with True f(1) show ?thesis by auto
  next
    case False
    have "accepts_and_prints (receive_loop C config subscriber h announce [(Next_frame f, now)] p) [] [submitted]" if f: "f \<in> set ds" for f now
    proof -
      from parse [OF f] obtain e where e: "parse_envelope f = Inr e" by blast
      have "\<not> is_ok (fst (receive C fixed_check_and_mark subscriber f h (app_replay p) now))" using heard False f by auto
      then obtain err replay where "receive C fixed_check_and_mark subscriber f h (app_replay p) now = (Inl err, replay)"
        by (metis is_ok_iff obj_sumE prod.collapse)
      then show ?thesis using panel(4,5) unfolding accepts_and_prints_def receives_frame [OF e] by simp
    qed
    with False show ?thesis by simp
  qed
qed

section \<open>Properties\<close>

text \<open>C3: a reading reaches the control panels of its building, and no others. The two agents are different, their keys are the
  ones the CA holds, the panel program is started and the sensor program is given a line, both from their configuration files and
  over any network that lets them write, and the CA serves the four requests they wrote, in order and successfully. Then the
  line was a number, and if both are configured for the same building and the policy authorises the delivery, the CA
  answers with a frame that the panel accepts, whenever it arrives, as exactly that reading of that sensor; the panel prints one line
  with the type of the reading, and nothing else of it. Otherwise there is no such frame: whatever the CA answers, the panel accepts and
  prints nothing.\<close>

theorem reading_reaches_panel:
  assumes "crypto_laws C" "view_ok (ps_view store)"
    "building_role panel = Role_ControlPanel" "load_agent hex files (building_common panel) = Inr agent_p"
    "building_role sensor = Role_Sensor" "load_agent hex files' (building_common sensor) = Inr agent_s"
    "provisioned C ca (ps_view store) agent_p" "provisioned C ca (ps_view store) agent_s" "agent_id agent_p \<noteq> agent_id agent_s"
    "net_log net = []" "building_main C hex files panel seeded lines [] (app_start net r) = Some (Program_waits, p)"
    "net_log net' = []" "building_main C hex files' sensor seeded' [Line line] events' (app_start net' r') = Some (Program_waits, q)"
    "ca_serves C persistent_store ca (zip (written (net_log (app_net p)) @ written (net_log (app_net q))) [t1, t2, t3, t4]) (store, rng) =
      ([Inr x1, Inr x2, Inr x3, Inr (Deliveries ds)], st')"
  shows "\<exists>temperature panel_env sensor_env. parse_i64 (trim line) = Some temperature \<and>
    building_agent_environment panel = (Inr (), panel_env) \<and> building_agent_environment sensor = (Inr (), sensor_env) \<and>
    (if building_id panel = building_id sensor \<and>
        authorize_delivery (authority_policy ca) (agent_id agent_s) (environment_of (env_attributes sensor_env))
          (agent_id agent_p) (environment_of (env_attributes panel_env)) building_SENSOR_READING
     then \<exists>f\<in>set ds. \<forall>now. accepts_and_prints (building_main C hex files panel seeded lines [(Next_frame f, now)] (app_start net r))
       [\<lparr>delivery_type_id = building_SENSOR_READING, delivery_publisher = agent_id agent_s, delivery_handler = building_HANDLER,
         delivery_value = to_be_bytes temperature\<rparr>]
       [panel_submitted, reading_accepted @ display_nat (unat (type_u32 building_SENSOR_READING))]
     else \<forall>f\<in>set ds. \<forall>now. accepts_and_prints (building_main C hex files panel seeded lines [(Next_frame f, now)] (app_start net r)) [] [panel_submitted])"
proof -
  obtain panel_env wanted where p: "building_agent_environment panel = (Inr (), panel_env)" "panel_subscription (building_id panel) = Inr wanted"
    "subscribes panel_submitted C agent_p (env_attributes panel_env) building_SENSOR_READING building_HANDLER wanted (app_start net r) p"
    "\<And>events. building_main C hex files panel seeded lines events (app_start net r) =
       receive_loop C (building_common panel) agent_p building_HANDLER reading_accepted events p"
    by (rule panel_runs [OF assms(3,11)]) (use assms(4) in auto)
  obtain sensor_env audience temperature where q: "building_agent_environment sensor = (Inr (), sensor_env)"
    "sensor_audience (building_id sensor) = Inr audience" "parse_i64 (trim line) = Some temperature"
    "publishes C agent_s (env_attributes sensor_env) building_SENSOR_READING audience (to_be_bytes temperature) (app_start net' r') q"
    by (rule sensor_runs [OF assms(5,13)]) (use assms(6) in auto)
  have start: "written (net_log (app_net (app_start net r))) = []" "history_deliveries (app_start net r) = []" "app_stdout (app_start net r) = []"
    "written (net_log (app_net (app_start net' r'))) = []" using assms(10,12) by (simp_all add: app_start_def)
  have hears: "hears ca (agent_id agent_p) (env_attributes panel_env) wanted (agent_id agent_s) (env_attributes sensor_env) audience
      building_SENSOR_READING \<longleftrightarrow> building_id panel = building_id sensor \<and>
        authorize_delivery (authority_policy ca) (agent_id agent_s) (environment_of (env_attributes sensor_env))
          (agent_id agent_p) (environment_of (env_attributes panel_env)) building_SENSOR_READING"
    using audience_heard [OF p(1) building_id_fits [OF q(1)] q(2)] subscription_heard [OF q(1) building_id_fits [OF p(1)] p(2)] assms(3,5)
    by (auto simp: hears_def)
  from programs_converse [OF assms(1,2,8,7,9) p(3) start(1-3) q(4) start(4) assms(14), of "building_common panel"]
  show ?thesis unfolding hears p(4) using p(1) q(1,3) by blast
qed

end
