(* ===== verification/Admission.thy ===== *)
theory Admission
  imports Conversation Disk
begin

text \<open>
  When the CA accepts: with a working disk, room in its tables and a policy that agrees, the requests of provisioned agents go
  through.
\<close>

text \<open>Room for \<open>n\<close> more requests, and the sessions that may be remembered.\<close>

definition admits :: "nat \<Rightarrow> (AgentId \<times> SessionId) set \<Rightarrow> PersistentStore \<Rightarrow> bool" where
  "admits n K s \<longleftrightarrow> ready s \<and>
     bt_len (state_environments (ps_state s)) + n \<le> limit_environments (ps_limits s) \<and>
     subscription_count (state_subscriptions (ps_state s)) + n \<le> limit_subscriptions (ps_limits s) \<and>
     bt_len (cache_entries (state_replay (ps_state s))) + n \<le> cache_maximum (state_replay (ps_state s)) \<and>
     fst ` set (cache_entries (state_replay (ps_state s))) \<subseteq> K"

lemma admits_mark:
  assumes "admits (Suc n) K s" "(a, i) \<notin> K"
  obtains s' where "ps_check_and_mark s a i now = (Inr (), s')" "ready s'" "ps_limits s' = ps_limits s"
    "ps_state s' = (ps_state s)\<lparr>state_replay := state_replay (ps_state s')\<rparr>"
    "fst ` set (cache_entries (state_replay (ps_state s'))) \<subseteq> insert (a, i) K"
    "bt_len (cache_entries (state_replay (ps_state s'))) + n \<le> cache_maximum (state_replay (ps_state s'))"
proof -
  let ?c = "state_replay (ps_state s)" and ?kept = "bt_retain (\<lambda>_ expires. expires > now) (cache_entries (state_replay (ps_state s)))"
  have kept: "set ?kept \<subseteq> set (cache_entries ?c)" "bt_len ?kept \<le> bt_len (cache_entries ?c)" by (auto simp: bt_retain_def bt_len_def)
  have "bt_get ?kept (a, i) = None"
  proof (rule ccontr)
    assume "bt_get ?kept (a, i) \<noteq> None"
    then have "(a, i) \<in> fst ` set ?kept" by (force simp: bt_get_def dest: map_of_SomeD)
    with kept(1) assms show False by (auto simp: admits_def)
  qed
  then have mark: "cache_check_and_mark ?c a i now = (Inr (), ?c\<lparr>cache_entries := bt_insert (a, i) (saturating_add now (cache_ttl_seconds ?c)) ?kept\<rparr>)"
    using assms(1) kept(2) by (simp add: cache_check_and_mark_def bt_contains_key_def admits_def)
  have "bt_wf (cache_entries ?c)" using assms(1) by (simp add: admits_def ready_def ps_inv_def state_wf_def)
  then have "bt_wf ?kept" by (rule bt.wf_retain)
  then have len: "bt_len (bt_insert (a, i) (saturating_add now (cache_ttl_seconds ?c)) ?kept) \<le> Suc (bt_len ?kept)" by (simp add: bt.len_insert)
  have "ready s" using assms(1) by (simp add: admits_def)
  then obtain s' where s': "ps_check_and_mark s a i now = (Inr (), s')" "ready s'" "ps_limits s' = ps_limits s"
    "ps_state s' = (ps_state s)\<lparr>state_replay := ?c\<lparr>cache_entries := bt_insert (a, i) (saturating_add now (cache_ttl_seconds ?c)) ?kept\<rparr>\<rparr>"
    by (rule ready_mark [of s a i now]) (use mark in simp)
  show thesis
  proof (rule that [OF s'(1-3)])
    show "fst ` set (cache_entries (state_replay (ps_state s'))) \<subseteq> insert (a, i) K"
      using s'(4) kept(1) assms(1) set_bt_insert [of "(a, i)" "saturating_add now (cache_ttl_seconds ?c)" ?kept] by (fastforce simp: admits_def)
    show "bt_len (cache_entries (state_replay (ps_state s'))) + n \<le> cache_maximum (state_replay (ps_state s'))"
      using s'(4) len kept(2) assms(1) by (simp add: admits_def)
  qed (simp add: s'(4))
qed

lemma ps_operations:
  "store_check_and_mark persistent_store = ps_check_and_mark" "store_set_environment persistent_store = ps_set_environment"
  "store_put_subscription persistent_store = ps_put_subscription"
  by (simp_all add: persistent_store_def)

lemma ps_claim_operation: "store_claim_subscription persistent_store = ps_claim_subscription"
  by (simp add: persistent_store_def)

lemma ready_stored:
  assumes "ready s" "view_environments (ps_view s) a = Some encoded"
  shows "is_environment encoded" "\<exists>env. parse_stored_environment encoded = Inr env"
proof -
  from assms(2) have "(a, encoded) \<in> set (state_environments (ps_state s))" by (auto simp: ps_view_def bt_get_def dest: map_of_SomeD)
  with assms(1) show "is_environment encoded" by (auto simp: ready_def ps_inv_def state_wf_def)
  then show "\<exists>env. parse_stored_environment encoded = Inr env"
    by (auto simp: is_environment_def parse_stored_environment_def split: sum.splits OperationRef.splits)
qed

lemma admits_environment:
  assumes laws: "crypto_laws C" and room: "admits (Suc n) K s"
    and ca: "provisioned C ca (ps_view s) agent" "agent_id agent \<noteq> AgentId_CA"
    and run: "op_request C agent (SetEnvironment as) HandlerId_NONE r = (Inr frame, r')"
    and fresh: "(agent_id agent, SessionId (fst (request_draws C r))) \<notin> K"
    and policy: "\<And>current. validate_environment (authority_policy ca) (agent_id agent) current (environment_of as) = Inr ()"
  shows "\<exists>s'. process C persistent_store ca frame now (s, g) = (Inr Accepted, (s', g)) \<and>
    admits n (insert (agent_id agent, SessionId (fst (request_draws C r))) K) s'"
proof -
  let ?e = "operation_bytes (SetEnvironment as)" and ?a = "agent_id agent" and ?K = "insert (agent_id agent, SessionId (fst (request_draws C r))) K"
  have valid: "operation_valid (SetEnvironment as)" by (rule op_request_opens [OF laws ca(1) run])
  then have env: "is_environment ?e" using parse_operation_print [of "SetEnvironment as"] by (simp add: is_environment_def)
  obtain s1 where s1: "ps_check_and_mark s ?a (SessionId (fst (request_draws C r))) now = (Inr (), s1)" "ready s1" "ps_limits s1 = ps_limits s"
    "ps_state s1 = (ps_state s)\<lparr>state_replay := state_replay (ps_state s1)\<rparr>"
    "fst ` set (cache_entries (state_replay (ps_state s1))) \<subseteq> ?K"
    "bt_len (cache_entries (state_replay (ps_state s1))) + n \<le> cache_maximum (state_replay (ps_state s1))"
    by (rule admits_mark [OF room fresh])
  have same: "state_environments (ps_state s1) = state_environments (ps_state s)" "state_subscriptions (ps_state s1) = state_subscriptions (ps_state s)"
    by (subst s1(4), simp)+
  obtain s2 where s2: "snd (ps_set_environment s1 ?a ?e) = s2" "ready s2" "ps_limits s2 = ps_limits s1" "is_ok (fst (ps_set_environment s1 ?a ?e)) \<longleftrightarrow>
      is_environment ?e \<and> (bt_contains_key (state_environments (ps_state s1)) ?a \<or> bt_len (state_environments (ps_state s1)) < limit_environments (ps_limits s1))"
    "is_ok (fst (ps_set_environment s1 ?a ?e)) \<longrightarrow> ps_state s2 = (ps_state s1)\<lparr>state_environments := bt_insert ?a ?e (state_environments (ps_state s1))\<rparr>"
    by (rule ready_environment [OF s1(2), of ?a ?e])
  have ok: "ps_set_environment s1 ?a ?e = (Inr (), s2)"
    using s2(1,4) env room same(1) s1(3) by (cases "ps_set_environment s1 ?a ?e") (auto simp: admits_def is_ok_iff)
  have "process_set_environment persistent_store ca ?a HandlerId_NONE ?e (environment_of as) (s1, g) = (Inr Accepted, (s2, g))"
    using ok policy ready_stored(2) [OF s1(2), of ?a]
    by (auto simp: process_set_environment_def ps.environment_law ps_operations map_err_def Let_def simp del: operation_bytes.simps split: option.splits)
  with ps.request_served [OF laws ca(1) _ ca(2) run, of now g] s1(1)
  have "process C persistent_store ca frame now (s, g) = (Inr Accepted, (s2, g))" by (simp add: ps_operations dispatch_def del: operation_bytes.simps)
  moreover have "admits n ?K s2"
  proof -
    have "bt_wf (state_environments (ps_state s1))" using s1(2) by (simp add: ready_def ps_inv_def state_wf_def)
    then have "bt_len (bt_insert ?a ?e (state_environments (ps_state s1))) \<le> Suc (bt_len (state_environments (ps_state s1)))" by (simp add: bt.len_insert)
    with s1 s2 ok room same show ?thesis by (simp add: admits_def)
  qed
  ultimately show ?thesis by blast
qed

lemma upsert_grows:
  assumes "upsert_subscription limit sub m = (r, m')" "bt_wf m"
  shows "subscription_count m' \<le> Suc (subscription_count m)"
proof (cases "subscription_count m < limit")
  case True
  then have "upsert_subscription (Suc (subscription_count m)) sub m = (r, m')"
    using assms(1) by (simp add: upsert_subscription_def Let_def split: option.splits)
  from upsert_subscription_wf(2) [OF this assms(2)] show ?thesis by simp
next
  case False
  then have "fst (upsert_subscription (subscription_count m) sub m) = r \<and> snd (upsert_subscription (subscription_count m) sub m) = m'"
    using assms(1) by (simp add: upsert_subscription_def Let_def split: option.splits)
  then have "upsert_subscription (subscription_count m) sub m = (r, m')" by (cases "upsert_subscription (subscription_count m) sub m") simp
  from upsert_subscription_wf(2) [OF this assms(2)] show ?thesis by simp
qed

lemma admits_subscription:
  assumes laws: "crypto_laws C" and room: "admits (Suc n) K s"
    and ca: "provisioned C ca (ps_view s) agent" "agent_id agent \<noteq> AgentId_CA"
    and run: "op_request C agent (SubscribePermanent t wanted) h r = (Inr frame, r')" "h \<noteq> HandlerId_NONE"
    and fresh: "(agent_id agent, SessionId (fst (request_draws C r))) \<notin> K"
    and stored: "view_environments (ps_view s) (agent_id agent) = Some encoded"
    and policy: "\<And>env. validate_environment (authority_policy ca) (agent_id agent) None env = Inr ()"
  shows "\<exists>s'. process C persistent_store ca frame now (s, g) = (Inr Accepted, (s', g)) \<and>
    admits n (insert (agent_id agent, SessionId (fst (request_draws C r))) K) s'"
proof -
  let ?a = "agent_id agent" and ?K = "insert (agent_id agent, SessionId (fst (request_draws C r))) K"
  let ?sub = "\<lparr>sub_subscriber = ?a, sub_type_id = t, sub_handler = h, sub_kind = Permanent, sub_encoded = operation_bytes (SubscribePermanent t wanted)\<rparr>"
  have valid: "operation_valid (SubscribePermanent t wanted)" by (rule op_request_opens [OF laws ca(1) run(1)])
  then have kind: "kind_of (sub_encoded ?sub) (sub_type_id ?sub) = Some (sub_kind ?sub)"
    using parse_operation_print [of "SubscribePermanent t wanted"] by (simp add: kind_of_def)
  obtain s1 where s1: "ps_check_and_mark s ?a (SessionId (fst (request_draws C r))) now = (Inr (), s1)" "ready s1" "ps_limits s1 = ps_limits s"
    "ps_state s1 = (ps_state s)\<lparr>state_replay := state_replay (ps_state s1)\<rparr>"
    "fst ` set (cache_entries (state_replay (ps_state s1))) \<subseteq> ?K"
    "bt_len (cache_entries (state_replay (ps_state s1))) + n \<le> cache_maximum (state_replay (ps_state s1))"
    by (rule admits_mark [OF room fresh])
  have same: "state_environments (ps_state s1) = state_environments (ps_state s)" "state_subscriptions (ps_state s1) = state_subscriptions (ps_state s)"
    by (subst s1(4), simp)+
  have stored1: "view_environments (ps_view s1) ?a = Some encoded" using stored same(1) by (simp add: ps_view_def)
  obtain s2 where s2: "snd (ps_put_subscription s1 ?sub) = s2" "ready s2" "ps_limits s2 = ps_limits s1"
    "is_ok (fst (ps_put_subscription s1 ?sub)) \<longleftrightarrow> kind_of (sub_encoded ?sub) (sub_type_id ?sub) = Some (sub_kind ?sub) \<and>
       (list_ex (same_slot ?sub) (bucket_of (state_subscriptions (ps_state s1)) (sub_type_id ?sub)) \<or>
        subscription_count (state_subscriptions (ps_state s1)) < limit_subscriptions (ps_limits s1))"
    "is_ok (fst (ps_put_subscription s1 ?sub)) \<longrightarrow> ps_state s2 = (ps_state s1)\<lparr>state_subscriptions :=
       snd (upsert_subscription (limit_subscriptions (ps_limits s1)) ?sub (state_subscriptions (ps_state s1)))\<rparr>"
    by (rule ready_put [OF s1(2), of ?sub]) (use run(2) in simp)
  have room1: "subscription_count (state_subscriptions (ps_state s1)) < limit_subscriptions (ps_limits s1)"
    using room same(2) s1(3) by (simp add: admits_def)
  with s2(4) kind have okr: "is_ok (fst (ps_put_subscription s1 ?sub))" by blast
  then have ok: "ps_put_subscription s1 ?sub = (Inr (), s2)" using s2(1) by (cases "ps_put_subscription s1 ?sub") (auto simp: is_ok_iff)
  from ready_stored(2) [OF s1(2) stored1] stored1 have "validate_stored_environment persistent_store ca ?a s1 = Inr ()"
    using policy by (auto simp: validate_stored_environment_def ps.environment_law)
  with ok run(2) have "process_subscribe persistent_store ca ?a h (operation_bytes (SubscribePermanent t wanted)) t Permanent (s1, g) = (Inr Accepted, (s2, g))"
    by (simp add: process_subscribe_def ps_operations del: operation_bytes.simps)
  with ps.request_served [OF laws ca(1) _ ca(2) run(1), of now g] s1(1)
  have "process C persistent_store ca frame now (s, g) = (Inr Accepted, (s2, g))" by (simp add: ps_operations dispatch_def del: operation_bytes.simps)
  moreover have "admits n ?K s2"
  proof -
    obtain u m where u: "upsert_subscription (limit_subscriptions (ps_limits s1)) ?sub (state_subscriptions (ps_state s1)) = (u, m)" by fastforce
    have m: "bt_wf (state_subscriptions (ps_state s1))" using s1(2) by (simp add: ready_def ps_inv_def state_wf_def)
    have "subscription_count m + n \<le> limit_subscriptions (ps_limits s1)"
      using upsert_grows [OF u m] room same(2) s1(3) by (simp add: admits_def)
    with s1 s2 okr u room same show ?thesis by (simp add: admits_def)
  qed
  ultimately show ?thesis by blast
qed

text \<open>A publication with one subscription to consider.\<close>

lemma admits_publication:
  assumes laws: "crypto_laws C" and room: "admits (Suc n) K s"
    and ca: "provisioned C ca (ps_view s) agent" "agent_id agent \<noteq> AgentId_CA"
    and run: "op_request C agent (Publish t audience val) HandlerId_NONE r = (Inr frame, r')"
    and fresh: "(agent_id agent, SessionId (fst (request_draws C r))) \<notin> K"
    and stored: "view_environments (ps_view s) (agent_id agent) = Some encoded"
    and policy: "\<And>env. validate_environment (authority_policy ca) (agent_id agent) None env = Inr ()"
    and bucket: "view_subscriptions (ps_view s) t = [sub]" "sub_encoded sub = operation_bytes (SubscribePermanent t wanted)"
      "sub_kind sub = Permanent" "clauses_valid wanted"
    and keys: "view_keys (ps_view s) (sub_subscriber sub) = Some rkeys" "x_dh C (fst (snd (snd (request_draws C g)))) (public_x25519 rkeys) \<noteq> 0"
      "public_x25519 rkeys = x_public C rsecret"
  shows "\<exists>ds st. process C persistent_store ca frame now (s, g) = (Inr (Deliveries ds), st)"
proof -
  let ?a = "agent_id agent" and ?op = "Publish t audience val"
  have valid: "operation_valid ?op" by (rule op_request_opens [OF laws ca(1) run])
  obtain s1 where s1: "ps_check_and_mark s ?a (SessionId (fst (request_draws C r))) now = (Inr (), s1)" "ready s1" "ps_limits s1 = ps_limits s"
    "ps_state s1 = (ps_state s)\<lparr>state_replay := state_replay (ps_state s1)\<rparr>"
    by (rule admits_mark [OF room fresh])
  have same: "ps_view s1 = ps_view s" by (subst (2) ps_view_def, subst ps_view_def, subst (1 2 3) s1(4)) simp
  have parsed: "subscription_predicate sub t = Inr (predicate_of wanted)"
    using parse_operation_print [of "SubscribePermanent t wanted"] bucket(2-4)
    by (simp add: subscription_predicate_def del: operation_bytes.simps)
  obtain frame' rng' where sent: "delivery C ca ?a (sub_subscriber sub) (sub_handler sub) t val (public_x25519 rkeys) g = (Inr frame', rng')"
  proof -
    obtain session salt secret rng1 where draws: "request_draws C g = (session, salt, secret, rng1)" by (metis prod.exhaust)
    have "length val \<le> MAX_VALUE_BYTES" "x_dh C secret (x_public C rsecret) \<noteq> 0" using valid keys(2,3) draws by simp_all
    from delivery_ok [OF laws this(1) draws this(2), of ca ?a "sub_subscriber sub" "sub_handler sub" t] that keys(3) show thesis by metis
  qed
  obtain s2 where claim: "ps_claim_subscription s1 sub = (Inr (sub \<in> set (bucket_of (state_subscriptions (ps_state s1)) (sub_type_id sub))), s2)"
    by (rule ready_claim [OF s1(2)])
  have loop: "\<exists>ds st. publish_loop C persistent_store ca ?a penv t (predicate_of audience) val [sub] [] (s1, g) = (Inr ds, st)" for penv
    using parsed sent claim keys(1) ready_stored(2) [OF s1(2)]
    by (cases "view_environments (ps_view s1) (sub_subscriber sub)")
      (fastforce simp: ps.environment_law ps.keys_law same ok_or_def ps_claim_operation split: if_splits)+
  obtain penv where penv: "parse_stored_environment encoded = Inr penv" using ready_stored(2) [OF s1(2)] stored same by metis
  from loop [of penv] obtain ds st where
    "publish_loop C persistent_store ca ?a penv t (predicate_of audience) val [sub] [] (s1, g) = (Inr ds, st)" by blast
  then have "process_publish C persistent_store ca ?a HandlerId_NONE t (predicate_of audience) val (s1, g) = (Inr (Deliveries ds), st)"
    using penv policy stored bucket(1)
    by (simp add: process_publish_def ps.environment_law ps.subscriptions_law same ok_or_def map_err_def del: publish_loop.simps)
  with ps.request_served [OF laws ca(1) _ ca(2) run, of now g] s1(1) show ?thesis
    by (simp add: ps_operations dispatch_def del: operation_bytes.simps)
qed

end
