(* ===== verification/Reading.thy ===== *)
theory Reading
  imports Programs Admission Keygen
begin

text \<open>
  A building with one sensor and one panel, from the key files to the line that the panel prints for a reading.
\<close>

definition hub :: CertificateAuthority where
  "hub = \<lparr>authority_keys = CaKeys_from_seeds 21 22, authority_policy = allow_all_policy\<rparr>"

definition hub_state :: PersistentState where
  "hub_state = (empty_state StoreLimits_default)\<lparr>state_keys :=
     [(AgentId 5, \<lparr>public_ed25519 = 11, public_x25519 = 12\<rparr>), (AgentId 6, \<lparr>public_ed25519 = 13, public_x25519 = 14\<rparr>)]\<rparr>"

definition hub_store :: PersistentStore where
  "hub_store = \<lparr>ps_state = hub_state, ps_files = \<lparr>snapshot_path = Some (state_layout hub_state), temporary_path = None\<rparr>,
     ps_limits = StoreLimits_default, ps_faults = []\<rparr>"

lemma hub_state_wf: "state_wf StoreLimits_default hub_state"
  by (simp add: state_wf_def hub_state_def empty_state_def ReplayCache_new_def bt_empty_def bt_wf_def bt_len_def bt_get_def AgentId_CA_def
      subscription_count_def less_AgentId_def StoreLimits_default_def DEFAULT_MAX_AGENTS_def)

lemma hub_admits: "admits (Suc (Suc (Suc (Suc 0)))) {} hub_store"
proof -
  have "compact hub_state = hub_state" by (simp add: compact_def hub_state_def empty_state_def bt_empty_def bt_retain_def)
  with decode_encode_state [OF hub_state_wf default_limits(1)] have "ready hub_store"
    using default_limits hub_state_wf state_layout_bound [OF hub_state_wf] by (simp add: ready_def ps_inv_def on_disk_def hub_store_def)
  then show ?thesis
    by (simp add: admits_def hub_store_def hub_state_def empty_state_def ReplayCache_new_def bt_empty_def bt_len_def subscription_count_def
        StoreLimits_default_def DEFAULT_MAX_ENVIRONMENTS_def DEFAULT_MAX_SUBSCRIPTIONS_def DEFAULT_MAX_REPLAYS_def)
qed

lemma hub_view: "view_ok (ps_view hub_store)"
  "provisioned toy_crypto hub (ps_view hub_store) (demo_agent (AgentId 5) 11 12)"
  "provisioned toy_crypto hub (ps_view hub_store) (demo_agent (AgentId 6) 13 14)"
  by (simp_all add: view_ok_def ps_view_def hub_store_def hub_state_def empty_state_def bt_empty_def bt_get_def bucket_of_def provisioned_def hub_def
      demo_agent_def CaKeys_verifying_key_def CaKeys_x25519_public_def CaKeys_from_seeds_def toy_crypto_def
      AgentKeys_verifying_key_def AgentKeys_x25519_public_def AgentKeys_from_seeds_def)

lemma hub_request:
  assumes "operation_valid op" "of_nat (r + 2) + 22 \<noteq> (0 :: array32)"
  shows "\<exists>frame. op_request toy_crypto (demo_agent a ed x) op h r = (Inr frame, r + 3) \<and> length frame \<le> MAX_FRAME_LEN"
proof -
  have draws: "request_draws toy_crypto r = (of_nat r, of_nat (r + 1), of_nat (r + 2), r + 3)" by (simp add: request_draws_def toy_crypto_def)
  have keys: "ca_x25519 (agent_ca (demo_agent a ed x)) = x_public toy_crypto 22" "x_dh toy_crypto (of_nat (r + 2)) (x_public toy_crypto 22) \<noteq> 0"
    using assms(2) by (simp_all add: demo_agent_def toy_crypto_def)
  obtain e rest where "request_into toy_crypto (demo_agent a ed x) (replicate MAX_FRAME_LEN 0) (operation_type op) h r (\<lambda>plain. encode_operation plain op) =
       (Inr (length (frame_bytes e)), frame_bytes e @ rest, r + 3)" "parse_envelope (frame_bytes e) = Inr e"
    by (rule request_into_ok [OF toy_crypto_laws assms(1) _ draws keys]) auto
  then show ?thesis by (auto simp: op_request_def request_owned_def parse_envelope_def split: if_splits)
qed

section \<open>The programs start\<close>

definition home_files :: key_files where
  "home_files path = Some (True, hex_encode (to_be_bytes ((if path = ''5.ed'' then 11 else if path = ''5.x'' then 12 else if path = ''6.ed'' then 13
     else if path = ''6.x'' then 14 else if path = ''ca.ed'' then 21 else 22) :: array32)) @ [10])"

definition home_config :: "building_role \<Rightarrow> building_config" where
  "home_config role = (demo_building role)\<lparr>building_common := \<lparr>config_agent_id = hex_encode (to_be_bytes ((if role = Role_Sensor then 5 else 6) :: array16)),
     config_broker_address = [], config_connect_timeout_seconds = 10, config_reconnect_min_seconds = 1, config_reconnect_max_seconds = 30,
     config_ed25519_secret_file = (if role = Role_Sensor then ''5.ed'' else ''6.ed''), config_x25519_secret_file = (if role = Role_Sensor then ''5.x'' else ''6.x''),
     config_ca_ed25519_public_file = ''ca.ed'', config_ca_x25519_public_file = ''ca.x''\<rparr>\<rparr>"

lemma home_load:
  "load_agent hex_decode (readable home_files) (building_common (home_config role)) =
     Inr (if role = Role_Sensor then demo_agent (AgentId 5) 11 12 else demo_agent (AgentId 6) 13 14)"
proof -
  have key: "read_hex_file hex_decode (readable home_files) path = Inr ((if path = ''5.ed'' then 11 else if path = ''5.x'' then 12 else if path = ''6.ed'' then 13
     else if path = ''6.x'' then 14 else if path = ''ca.ed'' then 21 else 22) :: array32)" for path
    by (rule read_key [OF hex_laws_hold]) (rule home_files_def)
  have hex: "decode_hex hex_decode (hex_encode (to_be_bytes w)) = Inr w" for w :: array16
    using hex_laws_hold by (simp add: hex_laws_def decode_hex_def)
  show ?thesis by (simp add: load_agent_def home_config_def key hex demo_agent_def)
qed

lemma home_environment:
  "\<exists>b. building_agent_environment (home_config role) = (Inr (), b)" "building_role (home_config role) = role" "building_id (home_config role) = [7]"
proof -
  have "building_agent_environment (c\<lparr>building_common := x\<rparr>) = building_agent_environment c" for c x
    by (cases "building_role c") (simp_all add: building_agent_environment_def)
  with demo_environments(1) [of role] show "\<exists>b. building_agent_environment (home_config role) = (Inr (), b)" by (simp add: home_config_def)
qed (simp_all add: home_config_def demo_building_def)

definition home_net :: "unit network" where
  "home_net = \<lparr>net_dials = [Dialled Sent], net_sends = [Sent, Sent], net_log = []\<rparr>"

lemma home_connects:
  assumes "length f1 \<le> MAX_FRAME_LEN" "length f2 \<le> MAX_FRAME_LEN"
  obtains net1 net2 net3 where "connect_agent config a home_net = Some net1" "send_agent_frame config a f1 net1 = Some net2"
    "send_agent_frame config a f2 net2 = Some net3"
proof -
  have "\<exists>net1. connect_agent config a home_net = Some net1 \<and> net_sends net1 = [Sent, Sent]"
    by (simp add: connect_agent_def connect_limits_def home_net_def tokio_send_hello_def tokio_send_def const_defs)
  with assms that show thesis by (auto simp: send_agent_frame_def tokio_send_def)
qed

lemma built_environment_valid: "building_agent_environment config = (Inr (), b) \<Longrightarrow> attributes_valid (env_attributes b)"
  by (erule building_environment_chain)

lemma clauses_of_valid:
  assumes "clauses_of calls = Inr cs" "length calls \<le> MAX_CLAUSES"
  shows "clauses_valid cs"
  using assms clauses_of_exact [OF assms(2)] by (simp split: if_splits)

lemma handler_exists: "building_HANDLER \<noteq> HandlerId_NONE"
proof
  assume "building_HANDLER = HandlerId_NONE"
  then have "from_be_bytes (ascii ''building-handler'') = (0 :: array16)" by (simp add: building_HANDLER_def HandlerId_NONE_def)
  then have "be_value (ascii ''building-handler'') = 0" using unat_from_be_bytes [of "ascii ''building-handler''", where 'a = 128] by simp
  then show False by (simp add: ascii_def be_value_def)
qed

lemma home_panel:
  obtains p b wanted f1 f2 where
    "building_main toy_crypto hex_decode (readable home_files) (home_config Role_ControlPanel) (Some 1) [] [] (app_start home_net 0) = Some (Program_waits, p)"
    "building_agent_environment (home_config Role_ControlPanel) = (Inr (), b)" "clauses_valid wanted"
    "op_request toy_crypto (demo_agent (AgentId 6) 13 14) (SetEnvironment (env_attributes b)) HandlerId_NONE 1 = (Inr f1, 4)"
    "op_request toy_crypto (demo_agent (AgentId 6) 13 14) (SubscribePermanent building_SENSOR_READING wanted) building_HANDLER 4 = (Inr f2, 7)"
    "written (net_log (app_net p)) = [f1, f2]"
proof -
  let ?agent = "demo_agent (AgentId 6) 13 14" and ?config = "home_config Role_ControlPanel"
  obtain b where b: "building_agent_environment ?config = (Inr (), b)" using home_environment(1) by blast
  obtain wanted where wanted: "panel_subscription (building_id ?config) = Inr wanted"
    using building_predicates(2) [OF building_id_fits [OF b]] by blast
  have valid: "operation_valid (SetEnvironment (env_attributes b))" "operation_valid (SubscribePermanent building_SENSOR_READING wanted)"
    using built_environment_valid [OF b] clauses_of_valid [OF wanted [unfolded panel_subscription_calls]] by (simp_all add: const_defs)
  from hub_request [OF valid(1), of 1 "AgentId 6" 13 14 HandlerId_NONE] obtain f1 where
    f1: "op_request toy_crypto ?agent (SetEnvironment (env_attributes b)) HandlerId_NONE 1 = (Inr f1, 4)" "length f1 \<le> MAX_FRAME_LEN" by auto
  from hub_request [OF valid(2), of 4 "AgentId 6" 13 14 building_HANDLER] obtain f2 where
    f2: "op_request toy_crypto ?agent (SubscribePermanent building_SENSOR_READING wanted) building_HANDLER 4 = (Inr f2, 7)" "length f2 \<le> MAX_FRAME_LEN" by auto
  obtain net1 net2 net3 where net: "connect_agent (building_common ?config) (AgentId 6) home_net = Some net1"
    "send_agent_frame (building_common ?config) (AgentId 6) f1 net1 = Some net2" "send_agent_frame (building_common ?config) (AgentId 6) f2 net2 = Some net3"
    by (rule home_connects [OF f1(2) f2(2)])
  moreover have "agent_id ?agent = AgentId 6" by (simp add: demo_agent_def)
  ultimately have run: "building_main toy_crypto hex_decode (readable home_files) ?config (Some 1) [] [] (app_start home_net 0) =
      Some (Program_waits, (app_start net3 7)\<lparr>app_stdout := [panel_submitted]\<rparr>)"
    using home_load [of Role_ControlPanel] b wanted f1(1) f2(1) handler_exists home_environment(2) [of Role_ControlPanel]
    by (simp add: building_main_def run_panel_def app_start_def op_requests println_def)
  have "written (net_log net3) = [f1, f2]"
    using send_writes [OF net(3)] send_writes [OF net(2)] connect_writes [OF net(1)] by (simp add: home_net_def)
  with valid(2) show thesis by (intro that [OF run b _ f1(1) f2(1)]) (simp_all add: app_start_def)
qed

lemma home_line: "parse_i64 (trim [50, 49]) = Some 21"
proof -
  have "skip_spaces white_space (length [50, 49 :: u8]) [50, 49] = [50, 49]"
    "skip_spaces (map rev white_space) (length [50, 49 :: u8]) (rev [50, 49]) = rev [50, 49]"
    by (rule no_space; simp add: hex_digits_def)+
  then have "trim [50, 49] = [50, 49]" unfolding trim_def Let_def by (simp only: rev_rev_ident)
  then show ?thesis by (simp add: parse_i64_def digit_def)
qed

abbreviation sensor_printed :: "bytes list" where
  "sensor_printed \<equiv> [building_log ''request-submitted role=sensor v1-ack=unavailable'',
     building_log ''publication-submitted type='' @ display_nat (unat (type_u32 building_SENSOR_READING))]"

lemma home_sensor:
  obtains q b audience f3 f4 where
    "building_main toy_crypto hex_decode (readable home_files) (home_config Role_Sensor) (Some 10) [Line [50, 49]] [] (app_start home_net 0) =
      Some (Program_waits, q)"
    "building_agent_environment (home_config Role_Sensor) = (Inr (), b)"
    "op_request toy_crypto (demo_agent (AgentId 5) 11 12) (SetEnvironment (env_attributes b)) HandlerId_NONE 13 = (Inr f3, 16)"
    "op_request toy_crypto (demo_agent (AgentId 5) 11 12) (Publish building_SENSOR_READING audience (to_be_bytes (21 :: i64))) HandlerId_NONE 10 = (Inr f4, 13)"
    "written (net_log (app_net q)) = [f3, f4]"
proof -
  let ?agent = "demo_agent (AgentId 5) 11 12" and ?config = "home_config Role_Sensor" and ?val = "to_be_bytes (21 :: i64)"
  obtain b where b: "building_agent_environment ?config = (Inr (), b)" using home_environment(1) by blast
  obtain audience where audience: "sensor_audience (building_id ?config) = Inr audience"
    using building_predicates(1) [OF building_id_fits [OF b]] by blast
  have valid: "operation_valid (SetEnvironment (env_attributes b))" "operation_valid (Publish building_SENSOR_READING audience ?val)"
    using built_environment_valid [OF b] clauses_of_valid [OF audience [unfolded sensor_audience_calls]] by (simp_all add: const_defs)
  from hub_request [OF valid(2), of 10 "AgentId 5" 11 12 HandlerId_NONE] obtain f4 where
    f4: "op_request toy_crypto ?agent (Publish building_SENSOR_READING audience ?val) HandlerId_NONE 10 = (Inr f4, 13)" "length f4 \<le> MAX_FRAME_LEN" by auto
  from hub_request [OF valid(1), of 13 "AgentId 5" 11 12 HandlerId_NONE] obtain f3 where
    f3: "op_request toy_crypto ?agent (SetEnvironment (env_attributes b)) HandlerId_NONE 13 = (Inr f3, 16)" "length f3 \<le> MAX_FRAME_LEN" by auto
  obtain net1 net2 net3 where "connect_agent (building_common ?config) (AgentId 5) home_net = Some net1"
    "send_agent_frame (building_common ?config) (AgentId 5) f3 net1 = Some net2" "send_agent_frame (building_common ?config) (AgentId 5) f4 net2 = Some net3"
    by (rule home_connects [OF f3(2) f4(2)])
  then obtain net where net: "send_on_demand_frames (building_common ?config) (AgentId 5) [f3, f4] home_net = Some net"
    by (simp add: send_on_demand_frames_def)
  moreover have "agent_id ?agent = AgentId 5" by (simp add: demo_agent_def)
  ultimately have run: "building_main toy_crypto hex_decode (readable home_files) ?config (Some 10) [Line [50, 49]] [] (app_start home_net 0) =
      Some (Program_waits, (app_start net 16)\<lparr>app_stdout := sensor_printed\<rparr>)"
    using home_load [of Role_Sensor] b audience f3(1) f4(1) home_environment(2) [of Role_Sensor] home_line
    by (simp add: building_main_def run_sensor_def app_start_def op_requests println_def)
  have "written (net_log net) = [f3, f4]" using send_on_demand_writes [OF net] by (simp add: home_net_def)
  then show thesis by (intro that [OF run b f3(1) f4(1)]) (simp add: app_start_def)
qed

section \<open>The CA serves them\<close>

lemma toy_session: "fst (request_draws toy_crypto r) = of_nat r"
  by (simp add: request_draws_def toy_crypto_def)

lemma hub_policy: "validate_environment (authority_policy hub) a current env = Inr ()" "authorize_delivery (authority_policy hub) a env b env' t"
  by (simp_all add: hub_def allow_all_policy_def)

lemma hub_serves:
  assumes panel: "op_request toy_crypto (demo_agent (AgentId 6) 13 14) (SetEnvironment sas) HandlerId_NONE 1 = (Inr f1, 4)"
    "op_request toy_crypto (demo_agent (AgentId 6) 13 14) (SubscribePermanent t wanted) building_HANDLER 4 = (Inr f2, 7)" "clauses_valid wanted"
    and sensor: "op_request toy_crypto (demo_agent (AgentId 5) 11 12) (SetEnvironment pas) HandlerId_NONE 13 = (Inr f3, 16)"
    "op_request toy_crypto (demo_agent (AgentId 5) 11 12) (Publish t audience val) HandlerId_NONE 10 = (Inr f4, 13)"
  obtains ds st where "ca_serves toy_crypto persistent_store hub [(f1, 0), (f2, 0), (f3, 0), (f4, 0)] (hub_store, 100) =
    ([Inr Accepted, Inr Accepted, Inr Accepted, Inr (Deliveries ds)], st)"
proof -
  let ?p = "demo_agent (AgentId 6) 13 14" and ?s = "demo_agent (AgentId 5) 11 12"
  let ?sub = "\<lparr>sub_subscriber = AgentId 6, sub_type_id = t, sub_handler = building_HANDLER, sub_kind = Permanent,
     sub_encoded = operation_bytes (SubscribePermanent t wanted)\<rparr>"
  have ids: "agent_id ?p = AgentId 6" "agent_id ?s = AgentId 5" "agent_id ?p \<noteq> AgentId_CA" "agent_id ?s \<noteq> AgentId_CA"
    by (simp_all add: demo_agent_def AgentId_CA_def)
  from admits_environment [OF toy_crypto_laws hub_admits hub_view(3) ids(3) panel(1) _ hub_policy(1), of 0 100] obtain s1 where
    s1: "process toy_crypto persistent_store hub f1 0 (hub_store, 100) = (Inr Accepted, (s1, 100))" "admits (Suc (Suc (Suc 0))) {(AgentId 6, SessionId 1)} s1"
    by (auto simp: toy_session ids)
  note v1 = ps.environment_set(2) [OF toy_crypto_laws hub_view(3) panel(1) s1(1)]
  have p1: "provisioned toy_crypto hub (ps_view s1) ?p" "provisioned toy_crypto hub (ps_view s1) ?s" using hub_view by (simp_all add: provisioned_def v1)
  have e1: "view_environments (ps_view s1) (agent_id ?p) = Some (operation_bytes (SetEnvironment sas))" by (simp add: v1 del: operation_bytes.simps)
  from admits_subscription [OF toy_crypto_laws s1(2) p1(1) ids(3) panel(2) handler_exists _ e1 hub_policy(1), of 0 100] obtain s2 where
    s2: "process toy_crypto persistent_store hub f2 0 (s1, 100) = (Inr Accepted, (s2, 100))"
    "admits (Suc (Suc 0)) {(AgentId 6, SessionId 4), (AgentId 6, SessionId 1)} s2"
    by (auto simp: toy_session ids)
  note v2 = ps.subscribed(3) [OF toy_crypto_laws p1(1) panel(2) s2(1)]
  have p2: "provisioned toy_crypto hub (ps_view s2) ?s" using p1(2) by (simp add: provisioned_def v2)
  from admits_environment [OF toy_crypto_laws s2(2) p2 ids(4) sensor(1) _ hub_policy(1), of 0 100] obtain s3 where
    s3: "process toy_crypto persistent_store hub f3 0 (s2, 100) = (Inr Accepted, (s3, 100))"
    "admits (Suc 0) {(AgentId 5, SessionId 13), (AgentId 6, SessionId 4), (AgentId 6, SessionId 1)} s3"
    by (auto simp: toy_session ids)
  note v3 = ps.environment_set(2) [OF toy_crypto_laws p2 sensor(1) s3(1)]
  have p3: "provisioned toy_crypto hub (ps_view s3) ?s" using p2 by (simp add: provisioned_def v3)
  have e3: "view_environments (ps_view s3) (agent_id ?s) = Some (operation_bytes (SetEnvironment pas))" by (simp add: v3 del: operation_bytes.simps)
  have "view_subscriptions (ps_view hub_store) t = []"
    by (simp add: ps_view_def hub_store_def hub_state_def empty_state_def bt_empty_def bucket_of_def bt_get_def)
  then have bucket: "view_subscriptions (ps_view s3) t = [?sub]" by (simp add: v1 v2 v3 upsert_def ids del: operation_bytes.simps)
  have key: "view_keys (ps_view hub_store) (AgentId 6) = Some \<lparr>public_ed25519 = 13, public_x25519 = 14\<rparr>"
    by (simp add: ps_view_def hub_store_def hub_state_def bt_get_def)
  have sub: "sub_encoded ?sub = operation_bytes (SubscribePermanent t wanted)" "sub_kind ?sub = Permanent"
    "view_keys (ps_view s3) (sub_subscriber ?sub) = Some \<lparr>public_ed25519 = 13, public_x25519 = 14\<rparr>"
    "x_dh toy_crypto (fst (snd (snd (request_draws toy_crypto 100)))) (public_x25519 \<lparr>public_ed25519 = 13, public_x25519 = 14\<rparr>) \<noteq> 0"
    "public_x25519 \<lparr>public_ed25519 = 13, public_x25519 = 14\<rparr> = x_public toy_crypto 14"
    by (simp_all add: v1 v2 v3 key request_draws_def toy_crypto_def del: operation_bytes.simps)
  have "(agent_id ?s, SessionId (fst (request_draws toy_crypto 10))) \<notin>
      {(AgentId 5, SessionId 13), (AgentId 6, SessionId 4), (AgentId 6, SessionId 1)}" by (simp add: toy_session ids)
  from admits_publication [OF toy_crypto_laws s3(2) p3 ids(4) sensor(2) this e3 hub_policy(1) bucket sub(1,2) panel(3) sub(3-5), of 0]
  obtain ds st where "process toy_crypto persistent_store hub f4 0 (s3, 100) = (Inr (Deliveries ds), st)" by blast
  with s1(1) s2(1) s3(1) that show thesis by simp
qed

lemma printed_lines:
  "panel_submitted = ascii ''smart-building-agent event=request-submitted role=control-panel v1-ack=unavailable''"
  "reading_accepted @ display_nat (unat (type_u32 building_SENSOR_READING)) = ascii ''smart-building-agent event=delivery-accepted type=4097''"
proof -
  have "display_nat 4097 = ascii ''4097''" by (simp add: display_nat.simps ascii_def)
  then show "reading_accepted @ display_nat (unat (type_u32 building_SENSOR_READING)) =
      ascii ''smart-building-agent event=delivery-accepted type=4097''"
    by (simp add: building_log_def ascii_def building_SENSOR_READING_def)
qed (simp add: building_log_def)

theorem reading_reaches_panel_witness:
  "\<exists>ds f reading. f \<in> set ds \<and> delivery_value reading = to_be_bytes (21 :: i64) \<and> delivery_publisher reading = AgentId 5 \<and>
     accepts_and_prints (building_main toy_crypto hex_decode (readable home_files) (home_config Role_ControlPanel) (Some 1) [] [(Next_frame f, 9)]
       (app_start home_net 0)) [reading]
       [ascii ''smart-building-agent event=request-submitted role=control-panel v1-ack=unavailable'',
        ascii ''smart-building-agent event=delivery-accepted type=4097'']"
proof -
  obtain p b wanted f1 f2 where panel:
    "building_main toy_crypto hex_decode (readable home_files) (home_config Role_ControlPanel) (Some 1) [] [] (app_start home_net 0) = Some (Program_waits, p)"
    "building_agent_environment (home_config Role_ControlPanel) = (Inr (), b)"
    "clauses_valid wanted" "op_request toy_crypto (demo_agent (AgentId 6) 13 14) (SetEnvironment (env_attributes b)) HandlerId_NONE 1 = (Inr f1, 4)"
    "op_request toy_crypto (demo_agent (AgentId 6) 13 14) (SubscribePermanent building_SENSOR_READING wanted) building_HANDLER 4 = (Inr f2, 7)"
    "written (net_log (app_net p)) = [f1, f2]"
    by (rule home_panel)
  obtain q b' audience f3 f4 where sensor:
    "building_main toy_crypto hex_decode (readable home_files) (home_config Role_Sensor) (Some 10) [Line [50, 49]] [] (app_start home_net 0) =
      Some (Program_waits, q)"
    "building_agent_environment (home_config Role_Sensor) = (Inr (), b')"
    "op_request toy_crypto (demo_agent (AgentId 5) 11 12) (SetEnvironment (env_attributes b')) HandlerId_NONE 13 = (Inr f3, 16)"
    "op_request toy_crypto (demo_agent (AgentId 5) 11 12) (Publish building_SENSOR_READING audience (to_be_bytes (21 :: i64))) HandlerId_NONE 10 = (Inr f4, 13)"
    "written (net_log (app_net q)) = [f3, f4]"
    by (rule home_sensor)
  obtain ds st where "ca_serves toy_crypto persistent_store hub [(f1, 0), (f2, 0), (f3, 0), (f4, 0)] (hub_store, 100) =
      ([Inr Accepted, Inr Accepted, Inr Accepted, Inr (Deliveries ds)], st)"
    by (rule hub_serves [OF panel(4,5,3) sensor(3,4)])
  then have served: "ca_serves toy_crypto persistent_store hub (zip (written (net_log (app_net p)) @ written (net_log (app_net q))) [0, 0, 0, 0])
      (hub_store, 100) = ([Inr Accepted, Inr Accepted, Inr Accepted, Inr (Deliveries ds)], st)"
    by (simp only: panel(6) sensor(5) append.simps zip_Cons_Cons zip_Nil)
  have load: "load_agent hex_decode (readable home_files) (building_common (home_config Role_ControlPanel)) = Inr (demo_agent (AgentId 6) 13 14)"
    "load_agent hex_decode (readable home_files) (building_common (home_config Role_Sensor)) = Inr (demo_agent (AgentId 5) 11 12)"
    by (simp_all add: home_load)
  have ids: "agent_id (demo_agent (AgentId 6) 13 14) \<noteq> agent_id (demo_agent (AgentId 5) 11 12)" "agent_id (demo_agent (AgentId 5) 11 12) = AgentId 5"
    "net_log home_net = []" by (simp_all add: demo_agent_def home_net_def)
  from reading_reaches_panel [OF toy_crypto_laws hub_view(1) home_environment(2) load(1) home_environment(2) load(2) hub_view(3,2) ids(1,3) panel(1)
      ids(3) sensor(1) served]
  obtain f where "f \<in> set ds" "\<forall>now. accepts_and_prints (building_main toy_crypto hex_decode (readable home_files) (home_config Role_ControlPanel) (Some 1) []
      [(Next_frame f, now)] (app_start home_net 0))
    [\<lparr>delivery_type_id = building_SENSOR_READING, delivery_publisher = AgentId 5, delivery_handler = building_HANDLER, delivery_value = to_be_bytes (21 :: i64)\<rparr>]
    [panel_submitted, reading_accepted @ display_nat (unat (type_u32 building_SENSOR_READING))]"
    by (auto simp: home_environment(3) hub_policy(2) home_line ids(2))
  then show ?thesis
    by (intro exI [of _ ds] exI [of _ f] exI [of _ "\<lparr>delivery_type_id = building_SENSOR_READING, delivery_publisher = AgentId 5,
        delivery_handler = building_HANDLER, delivery_value = to_be_bytes (21 :: i64)\<rparr>"]) (simp add: printed_lines)
qed

end
