(* ===== verification/Responder.thy ===== *)
theory Responder
  imports Swarm_app Protocol
begin

text \<open>
  The responder of the swarm between the CA, which consumes its one-shot subscription with the delivery, and its own
  replay memory, which may refuse that delivery.
\<close>

text \<open>Every place of the memory is taken until \<open>deadline\<close>.\<close>

definition full_until :: "u64 \<Rightarrow> FixedReplayCache \<Rightarrow> bool" where
  "full_until deadline cache \<longleftrightarrow> (\<forall>entry\<in>set (fixed_entries cache). \<exists>e. entry = Some e \<and> deadline \<le> replay_expires_at e)"

lemma full_refuses:
  assumes "full_until deadline cache" "now < deadline"
  shows "\<exists>err. fixed_check_and_mark cache a i now = (Inl err, cache)"
proof -
  have same: "map (expire_entry now) (fixed_entries cache) = fixed_entries cache"
    using assms by (intro map_idI) (auto simp: full_until_def expire_entry_def dest!: bspec)
  have "fill_vacant e entries = None" if "\<forall>entry\<in>set entries. entry \<noteq> None" for e entries
    using that by (induction e entries rule: fill_vacant.induct) auto
  moreover have "\<forall>entry\<in>set (fixed_entries cache). entry \<noteq> None" using assms(1) by (auto simp: full_until_def)
  ultimately show ?thesis by (simp add: fixed_check_and_mark_def same Let_def)
qed

lemma full_rejects:
  assumes "full_until deadline cache" "now < deadline"
  shows "\<exists>err. receive C fixed_check_and_mark agent frame h cache now = (Inl err, cache)"
proof (cases "\<exists>e. parse_envelope frame = Inr e \<and> envelope_recipient e = agent_id agent \<and> envelope_message_type e = MT_PublicationResponse \<and>
    envelope_handler e = h \<and> h \<noteq> HandlerId_NONE \<and>
    ed_verify_strict C (ca_ed25519 (agent_ca agent)) (envelope_signed_bytes e) (envelope_signature e)")
  case True
  then obtain e where e: "parse_envelope frame = Inr e" "envelope_recipient e = agent_id agent" "envelope_message_type e = MT_PublicationResponse"
    "envelope_handler e = h" "h \<noteq> HandlerId_NONE"
    "ed_verify_strict C (ca_ed25519 (agent_ca agent)) (envelope_signed_bytes e) (envelope_signature e)" by blast
  from full_refuses [OF assms] obtain err where mark: "fixed_check_and_mark cache (envelope_sender e) (envelope_session_id e) now = (Inl err, cache)" by blast
  show ?thesis
  proof (cases "ed_key_ok C (ca_ed25519 (agent_ca agent))")
    case True
    from receive_replay(1) [OF e(1-5) True e(6), of fixed_check_and_mark cache now] receive_replay(2) [OF e(1-5) True e(6), of fixed_check_and_mark cache now err] mark show ?thesis
      by (cases "receive C fixed_check_and_mark agent frame h cache now") simp
  qed (simp add: receive_def)
next
  case False
  from receive_unauthenticated [OF False, where mark = fixed_check_and_mark and replay = cache and now = now] show ?thesis
    by (cases "receive C fixed_check_and_mark agent frame h cache now"; cases "fst (receive C fixed_check_and_mark agent frame h cache now)") auto
qed

lemma full_turn:
  assumes "full_until deadline (app_replay s)" "now < deadline" "receive_turn C config agent h announce event now s = Some (b, s')"
  shows "\<not> b \<and> app_replay s' = app_replay s \<and> history_deliveries s' = history_deliveries s \<and>
    written (net_log (app_net s')) = written (net_log (app_net s))"
proof (cases "tokio_receive event")
  case (Inl e)
  with assms(3) obtain net where "connect_agent config (agent_id agent) (app_net s) = Some net" "s' = s\<lparr>app_net := net\<rparr>" "\<not> b"
    by (auto simp: receive_turn_def split: option.splits)
  then show ?thesis by (auto elim!: connect_agent_log [where up = True])
next
  case (Inr frame)
  from full_rejects [OF assms(1,2)] obtain err where "receive C fixed_check_and_mark agent frame h (app_replay s) now = (Inl err, app_replay s)" by blast
  with Inr assms(3) show ?thesis by (auto simp: receive_turn_def)
qed

lemma full_loop:
  assumes "full_until deadline (app_replay s)" "\<forall>(event, now)\<in>set events. now < deadline" "responder_loop C config agent events s = Some (result, s')"
  shows "result = Program_waits \<and> history_deliveries s' = history_deliveries s \<and> written (net_log (app_net s')) = written (net_log (app_net s))"
  using assms
proof (induction events arbitrary: s)
  case (Cons entry events)
  obtain event now where [simp]: "entry = (event, now)" by fastforce
  from Cons.prems(3) obtain b s1 where turn: "receive_turn C (swarm_common config) agent swarm_HANDLER (swarm_log ''task-received type='') event now s = Some (b, s1)"
    by (auto split: option.splits)
  from full_turn [OF Cons.prems(1) _ turn] Cons.prems(2) have s1: "\<not> b" "app_replay s1 = app_replay s" "history_deliveries s1 = history_deliveries s"
    "written (net_log (app_net s1)) = written (net_log (app_net s))" by simp_all
  with Cons.IH [of s1] Cons.prems turn show ?case by simp
qed simp

section \<open>Properties\<close>

text \<open>C31: a responder can be left without a subscription. A publication consumes the one-shot subscriptions it is delivered
  for, whatever becomes of the deliveries. While the responder's replay memory is full it rejects every one of them and
  stays in its inner loop: whatever frames, failures and reconnections come, it writes nothing, so it does not
  subscribe again.\<close>

theorem responder_left_waiting:
  assumes "crypto_laws C" "view_ok (ps_view store)"
    "process C persistent_store ca frame now (store, rng) = (Inr (Deliveries ds), (store', rng'))"
    "full_until deadline (app_replay s)" "\<forall>(event, time)\<in>set events. time < deadline"
    "responder_loop C config agent events s = Some (result, s')"
  shows "(\<exists>t chosen. length chosen = length ds \<and> set chosen \<subseteq> set (view_subscriptions (ps_view store) t) \<and>
      (\<forall>sub\<in>set chosen. sub_kind sub = OneShot \<longrightarrow> sub \<notin> set (view_subscriptions (ps_view store') t))) \<and>
    result = Program_waits \<and> history_deliveries s' = history_deliveries s \<and> written (net_log (app_net s')) = written (net_log (app_net s))"
proof -
  from ps.publication_run [OF assms(1-3), of fixed_check_and_mark] obtain P t r where
    run: "list_all2 r (filter P (view_subscriptions (ps_view store) t)) ds"
    "ps_view store' = consume t (one_shots (filter P (view_subscriptions (ps_view store) t))) (ps_view store)"
    unfolding Let_def by blast
  let ?chosen = "filter P (view_subscriptions (ps_view store) t)"
  have "length ?chosen = length ds" using list_all2_lengthD [OF run(1)] .
  moreover have "sub \<notin> set (view_subscriptions (ps_view store') t)" if "sub \<in> set ?chosen" "sub_kind sub = OneShot" for sub
    using that by (simp add: run(2) one_shots_def)
  ultimately show ?thesis
    using full_loop [OF assms(4-6)] by (intro conjI exI [of _ t] exI [of _ ?chosen]) auto
qed

text \<open>A memory of one place that is taken, and the delivery of the demonstration world.\<close>

theorem responder_waiting_witness:
  "\<exists>config f store' rng' frame s'. process toy_crypto persistent_store demo_ca frame 0 (demo_store, 7) = (Inr (Deliveries [f]), (store', rng')) \<and>
     responder_loop toy_crypto config demo_subscriber [(Next_frame f, 5), (Next_frame f, 6)]
       ((app_start (\<lparr>net_dials = [], net_sends = [], net_log = []\<rparr> :: unit network) 0)\<lparr>app_replay := \<lparr>fixed_entries = [Some \<lparr>replay_sender = AgentId_CA,
          replay_session = SessionId 1, replay_expires_at = 600\<rparr>], fixed_ttl_seconds = 600\<rparr>\<rparr>) = Some (Program_waits, s') \<and>
     written (net_log (app_net s')) = []"
proof -
  let ?s = "(app_start (\<lparr>net_dials = [], net_sends = [], net_log = []\<rparr> :: unit network) 0)\<lparr>app_replay := \<lparr>fixed_entries = [Some \<lparr>replay_sender = AgentId_CA,
     replay_session = SessionId 1, replay_expires_at = 600\<rparr>], fixed_ttl_seconds = 600\<rparr>\<rparr>"
  from demo_delivered obtain frame f store' rng' e where run: "process toy_crypto persistent_store demo_ca frame 0 (demo_store, 7) =
     (Inr (Deliveries [f]), (store', rng'))" "parse_envelope f = Inr e" by blast
  have full: "full_until 600 (app_replay ?s)" by (simp add: full_until_def)
  have events: "\<forall>(event, time)\<in>set [(Next_frame f, 5), (Next_frame f, 6)]. time < (600 :: u64)" by simp
  have fits: "tokio_receive (Next_frame f) = Inr f" using run(2) by (simp add: parse_envelope_def split: if_splits)
  obtain config s' where s': "responder_loop toy_crypto config demo_subscriber [(Next_frame f, 5), (Next_frame f, 6)] ?s = Some (Program_waits, s')"
  proof -
    have turn: "receive_turn toy_crypto (swarm_common config) demo_subscriber swarm_HANDLER (swarm_log ''task-received type='') (Next_frame f) time ?s = Some (False, ?s)" if "time < 600" for config time
      using full_rejects [OF full that, of toy_crypto demo_subscriber f swarm_HANDLER] fits by (auto simp: receive_turn_def)
    show thesis by (rule that [of _ ?s]) (simp add: turn)
  qed
  from responder_left_waiting [OF toy_crypto_laws demo_view_ok run(1) full events s']
  have "written (net_log (app_net s')) = []" by (simp add: app_start_def)
  with run(1) s' show ?thesis by blast
qed

end
