(* ===== verification/Firmware.thy ===== *)
theory Firmware
  imports Conversation
begin

text \<open>
  The firmware's sensor on the wire: what it writes to its socket, what the CA makes of it, and that it speaks as the
  command-line sensor does.
\<close>

definition sensor_calls :: "SensorConfig \<Rightarrow> smart_building env_call list" where
  "sensor_calls config =
     [Env_bytes building_BUILDING_ID (sensor_building_id config), Env_bytes building_ALERT_ZONE (sensor_alert_zone config),
      Env_i64 building_FLOOR_ID (sensor_floor_id config), Env_i64 building_DEVICE_CLASS 1, Env_bool building_CERTIFIED_DEVICE True,
      Env_bool building_OPERATIONAL (sensor_operational config), Env_i64 building_TEMPERATURE (sensor_initial_temperature config)]"

lemma env_chain_steps:
  "env_chain (call # calls) = (\<lambda>b. tryS (env_apply call b) (\<lambda>_. env_chain calls))" "env_chain [] = Pair (Inr ())"
  by (rule ext, simp)+

lemma sensor_chain:
  "sensor_environment config = env_chain (sensor_calls config) EnvironmentBuilder_new"
  "distinct (map (attribute_id \<circ> call_attribute) (sensor_calls config))" "length (sensor_calls config) \<le> MAX_ATTRIBUTES"
  by (simp_all add: sensor_environment_def sensor_calls_def building_environment_def building_defs const_defs env_chain_steps)

text \<open>The configuration of a command-line sensor that stands for this one.\<close>

definition as_program :: "SensorConfig \<Rightarrow> AgentConfig \<Rightarrow> building_config" where
  "as_program config common = \<lparr>building_common = common, building_role = Role_Sensor, building_id = sensor_building_id config,
     building_floor_id = Some (sensor_floor_id config), building_alert_zone = sensor_alert_zone config,
     building_operational = sensor_operational config, building_temperature_centi_celsius = sensor_initial_temperature config\<rparr>"

lemma sensor_as_program:
  assumes "sensor_environment config = (Inr (), b)"
  shows "attributes_valid (env_attributes b)"
    "\<exists>b'. building_agent_environment (as_program config common) = (Inr (), b') \<and> set (env_attributes b') = set (env_attributes b)"
proof -
  note built = env_chain_built [OF assms [unfolded sensor_chain(1)] sensor_chain(2,3)]
  then show "attributes_valid (env_attributes b)" by simp
  let ?calls = "building_calls (as_program config common) (sensor_floor_id config)"
  have floor: "building_role (as_program config common) = Role_Sensor \<longrightarrow> building_floor_id (as_program config common) = Some (sensor_floor_id config)"
    by (simp add: as_program_def)
  have calls: "set ?calls = set (sensor_calls config)" by (auto simp: building_calls_def sensor_calls_def as_program_def)
  with built(3) have "list_all (\<lambda>call. value_valid (attribute_value (call_attribute call))) ?calls" by (simp add: list_all_iff)
  from env_chain_builds [OF building_chain(2,3) [OF floor] this] obtain b' where
    b': "env_chain ?calls EnvironmentBuilder_new = (Inr (), b')" by blast
  then have "building_agent_environment (as_program config common) = (Inr (), b')" by (simp add: building_chain(1) [OF floor])
  moreover have "set (env_attributes b') = set (env_attributes b)"
    using env_chain_built(1) [OF b' building_chain(2,3) [OF floor]] built(1) calls by simp
  ultimately show "\<exists>b'. building_agent_environment (as_program config common) = (Inr (), b') \<and> set (env_attributes b') = set (env_attributes b)"
    by blast
qed

lemma temperature_audience_same:
  "sensor_audience building = map_err Invalid_model (temperature_audience building)"
  by (cases "building_audience building")
    (auto simp: sensor_audience_def temperature_audience_def model_result_def split: prod.splits sum.splits)

section \<open>What is on the wire\<close>

text \<open>A frame that the CA opens as a request of the agent.\<close>

definition opens_as :: "'r crypto \<Rightarrow> CertificateAuthority \<Rightarrow> Agent \<Rightarrow> Operation \<Rightarrow> bytes \<Rightarrow> bool" where
  "opens_as C ca agent op frame \<longleftrightarrow>
     (\<exists>e. parse_envelope frame = Inr e \<and> envelope_message_type e = operation_type op \<and> envelope_sender e = agent_id agent \<and>
        envelope_recipient e = AgentId_CA \<and> envelope_handler e = HandlerId_NONE \<and>
        verify_envelope_signature C e (AgentKeys_verifying_key C (agent_keys agent)) = Inr () \<and>
        open_in_place C frame AgentId_CA (operation_type op) (AgentKeys_verifying_key C (agent_keys agent)) (ca_x25519_secret (authority_keys ca)) =
          Inr (operation_bytes op))"

lemma request_opens_as:
  assumes "crypto_laws C" "ca_x25519 (agent_ca agent) = CaKeys_x25519_public C (authority_keys ca)" "MAX_FRAME_LEN \<le> length out"
    "request_into C agent out (operation_type op) HandlerId_NONE rng (\<lambda>plain. encode_operation plain op) = (Inr n, out1, rng')"
  shows "opens_as C ca agent op (take n out1)"
proof (rule request_opens [OF assms(1) assms(2) [unfolded CaKeys_x25519_public_def] assms(3,4)])
  fix e
  assume "take n out1 = frame_bytes e" "parse_envelope (frame_bytes e) = Inr e"
    "envelope_message_type e = operation_type op" "envelope_sender e = agent_id agent" "envelope_recipient e = AgentId_CA"
    "envelope_handler e = HandlerId_NONE" "verify_envelope_signature C e (ed_public C (keys_signing (agent_keys agent))) = Inr ()"
    "open_in_place C (frame_bytes e) AgentId_CA (operation_type op) (ed_public C (keys_signing (agent_keys agent))) (ca_x25519_secret (authority_keys ca)) =
       Inr (operation_bytes op)"
  then show ?thesis by (simp add: opens_as_def AgentKeys_verifying_key_def)
qed

lemma sensor_send_ok:
  "sensor_send timed frame s = (Inr u, s') \<Longrightarrow> stream_written (firmware_stream s') = stream_written (firmware_stream s) @ framed frame"
  "sensor_hello timed identity s = (Inr u, s') \<Longrightarrow>
     stream_written (firmware_stream s') = stream_written (firmware_stream s) @ framed (to_be_bytes (agent_array identity))"
  "sensor_hello timed identity s = (Inr u, s') \<Longrightarrow> firmware_frame s' = firmware_frame s"
  by (auto simp: sensor_send_def sensor_hello_def embassy_send_hello_def split: prod.splits dest!: send_ok)

section \<open>Properties\<close>

text \<open>C21: the firmware's sensor is the command-line sensor. When \<open>initialize\<close> succeeds, the socket carries the hello and one frame, which
  the CA opens as the environment that the command-line sensor of the same configuration builds; when \<open>publish_temperature\<close> succeeds, it
  carries one more frame, which the CA opens as the publication of the same value with the same audience.\<close>

theorem firmware_speaks_as_sensor:
  assumes "crypto_laws C" "ca_x25519 (agent_ca (sensor_agent sensor)) = CaKeys_x25519_public C (authority_keys ca)"
    "length (firmware_frame s) = MAX_FRAME_LEN"
  shows "(sensor_initialize C sensor timed s = (Inr (), s') \<longrightarrow>
      (\<exists>frame as b. stream_written (firmware_stream s') =
          stream_written (firmware_stream s) @ framed (to_be_bytes (agent_array (agent_id (sensor_agent sensor)))) @ framed frame \<and>
        opens_as C ca (sensor_agent sensor) (SetEnvironment as) frame \<and>
        building_agent_environment (as_program (sensor_config sensor) common) = (Inr (), b) \<and> set (env_attributes b) = set as)) \<and>
    (publish_temperature C sensor temperature timed s = (Inr (), s') \<longrightarrow>
      (\<exists>frame audience. stream_written (firmware_stream s') = stream_written (firmware_stream s) @ framed frame \<and>
        opens_as C ca (sensor_agent sensor) (Publish building_SENSOR_READING audience (to_be_bytes temperature)) frame \<and>
        sensor_audience (sensor_building_id (sensor_config sensor)) = Inr audience))"
proof (intro conjI impI)
  let ?agent = "sensor_agent sensor" and ?config = "sensor_config sensor"
  assume "sensor_initialize C sensor timed s = (Inr (), s')"
  then obtain s1 b n s2 where run: "sensor_hello timed (agent_id ?agent) s = (Inr (), s1)" "sensor_environment ?config = (Inr (), b)"
    "sensor_request (\<lambda>frame rng. set_environment_into C ?agent frame (env_attributes b) rng) s1 = (Inr n, s2)"
    "sensor_send timed (take n (firmware_frame s2)) s2 = (Inr (), s')"
    by (cases "sensor_environment ?config") (auto simp: sensor_initialize_def tryS_Inr_iff)
  let ?op = "SetEnvironment (env_attributes b)"
  have len: "MAX_FRAME_LEN \<le> length (firmware_frame s1)" using sensor_send_ok(3) [OF run(1)] assms(3) by simp
  from run(3) obtain rng where "request_into C ?agent (firmware_frame s1) (operation_type ?op) HandlerId_NONE (firmware_rng s1)
      (\<lambda>plain. encode_operation plain ?op) = (Inr n, firmware_frame s2, rng)" "firmware_stream s2 = firmware_stream s1"
    by (auto simp: sensor_request_def set_environment_into_def split: prod.splits)
  with request_opens_as [OF assms(1,2) len this(1)] sensor_send_ok(2) [OF run(1)] sensor_send_ok(1) [OF run(4)]
    sensor_as_program(2) [OF run(2), of common]
  show "\<exists>frame as b. stream_written (firmware_stream s') =
          stream_written (firmware_stream s) @ framed (to_be_bytes (agent_array (agent_id ?agent))) @ framed frame \<and>
        opens_as C ca ?agent (SetEnvironment as) frame \<and>
        building_agent_environment (as_program ?config common) = (Inr (), b) \<and> set (env_attributes b) = set as"
    by (intro exI [of _ "take n (firmware_frame s2)"] exI [of _ "env_attributes b"]) auto
next
  let ?agent = "sensor_agent sensor" and ?building = "sensor_building_id (sensor_config sensor)"
  assume "publish_temperature C sensor temperature timed s = (Inr (), s')"
  then obtain audience n s1 where run: "temperature_audience ?building = Inr audience"
    "sensor_request (\<lambda>frame rng. publish_into C ?agent frame building_SENSOR_READING audience (to_be_bytes temperature) rng) s = (Inr n, s1)"
    "sensor_send timed (take n (firmware_frame s1)) s1 = (Inr (), s')"
    by (auto simp: publish_temperature_def tryS_Inr_iff)
  let ?op = "Publish building_SENSOR_READING audience (to_be_bytes temperature)"
  have len: "MAX_FRAME_LEN \<le> length (firmware_frame s)" using assms(3) by simp
  from run(2) obtain rng where "request_into C ?agent (firmware_frame s) (operation_type ?op) HandlerId_NONE (firmware_rng s)
      (\<lambda>plain. encode_operation plain ?op) = (Inr n, firmware_frame s1, rng)" "firmware_stream s1 = firmware_stream s"
    by (auto simp: sensor_request_def publish_into_def split: prod.splits)
  with request_opens_as [OF assms(1,2) len this(1)] sensor_send_ok(1) [OF run(3)] temperature_audience_same [of ?building] run(1)
  show "\<exists>frame audience. stream_written (firmware_stream s') = stream_written (firmware_stream s) @ framed frame \<and>
        opens_as C ca ?agent (Publish building_SENSOR_READING audience (to_be_bytes temperature)) frame \<and>
        sensor_audience ?building = Inr audience"
    by (intro exI [of _ "take n (firmware_frame s1)"] exI [of _ audience]) auto
qed

text \<open>Building 7's sensor over a socket that takes everything.\<close>

theorem firmware_speaks_witness:
  "\<exists>sensor s' frame as. sensor_initialize toy_crypto sensor False
      \<lparr>firmware_stream = (\<lparr>stream_reads = [], stream_writes = [], stream_written = []\<rparr> :: unit stream), firmware_rng = 1,
       firmware_frame = replicate MAX_FRAME_LEN 0\<rparr> = (Inr (), s') \<and>
     stream_written (firmware_stream s') = framed (to_be_bytes (agent_array (AgentId 5))) @ framed frame \<and>
     opens_as toy_crypto demo_ca (demo_agent (AgentId 5) 11 12) (SetEnvironment as) frame"
proof -
  let ?config = "\<lparr>sensor_building_id = [7], sensor_alert_zone = [1], sensor_floor_id = 2, sensor_operational = True, sensor_initial_temperature = 2150\<rparr>"
  let ?sensor = "EmbassySensorAgent_new (demo_agent (AgentId 5) 11 12) ?config"
  let ?s = "\<lparr>firmware_stream = (\<lparr>stream_reads = [], stream_writes = [], stream_written = []\<rparr> :: unit stream), firmware_rng = 1 :: nat,
    firmware_frame = replicate MAX_FRAME_LEN 0\<rparr>"
  have fields: "sensor_agent ?sensor = demo_agent (AgentId 5) 11 12" "sensor_config ?sensor = ?config" "agent_id (demo_agent (AgentId 5) 11 12) = AgentId 5"
    by (simp_all add: EmbassySensorAgent_new_def demo_agent_def)
  have "list_all (\<lambda>call. value_valid (attribute_value (call_attribute call))) (sensor_calls ?config)" by (simp add: sensor_calls_def const_defs)
  from env_chain_builds [OF sensor_chain(2,3) this] obtain b where b: "sensor_environment ?config = (Inr (), b)" by (auto simp: sensor_chain(1))
  have op: "operation_valid (SetEnvironment (env_attributes b))" using sensor_as_program(1) [OF b] by simp
  have draws: "request_draws toy_crypto 1 = (1, 2, 3, 4)" by (simp add: request_draws_def toy_crypto_def)
  have keys: "ca_x25519 (agent_ca (demo_agent (AgentId 5) 11 12)) = x_public toy_crypto 22" "x_dh toy_crypto 3 (x_public toy_crypto 22) \<noteq> 0"
    by (simp_all add: demo_agent_def toy_crypto_def)
  obtain e rest where request: "request_into toy_crypto (demo_agent (AgentId 5) 11 12) (replicate MAX_FRAME_LEN 0) MT_SetEnvironment HandlerId_NONE 1
      (\<lambda>plain. encode_operation plain (SetEnvironment (env_attributes b))) = (Inr (length (frame_bytes e)), frame_bytes e @ rest, 4)"
    "parse_envelope (frame_bytes e) = Inr e"
    by (rule request_into_ok [OF toy_crypto_laws op _ draws keys]) auto
  have fits: "\<not> MAX_FRAME_LEN < length (frame_bytes e)" "\<not> MAX_FRAME_LEN < 16" using request(2) by (simp_all add: parse_envelope_def const_defs split: if_splits)
  obtain s' where run: "sensor_initialize toy_crypto ?sensor False ?s = (Inr (), s')"
    using b request(1) fits
    by (simp add: sensor_initialize_def fields sensor_hello_def sensor_request_def sensor_send_def embassy_send_hello_def embassy_send_def write_frame_def
        stream_write_all_def set_environment_into_def)
  have ca: "ca_x25519 (agent_ca (sensor_agent ?sensor)) = CaKeys_x25519_public toy_crypto (authority_keys demo_ca)"
    "length (firmware_frame ?s) = MAX_FRAME_LEN"
    by (simp_all add: EmbassySensorAgent_new_def demo_agent_def demo_ca_def CaKeys_x25519_public_def CaKeys_from_seeds_def toy_crypto_def)
  from firmware_speaks_as_sensor [OF toy_crypto_laws ca, THEN conjunct1, THEN mp, OF run]
  obtain frame as where "stream_written (firmware_stream s') = stream_written (firmware_stream ?s) @ framed (to_be_bytes (agent_array (agent_id (sensor_agent ?sensor)))) @ framed frame"
    "opens_as toy_crypto demo_ca (sensor_agent ?sensor) (SetEnvironment as) frame"
    by blast
  then have "stream_written (firmware_stream s') = framed (to_be_bytes (agent_array (AgentId 5))) @ framed frame"
    "opens_as toy_crypto demo_ca (demo_agent (AgentId 5) 11 12) (SetEnvironment as) frame"
    unfolding fields by simp_all
  with run show ?thesis by blast
qed

end
