(* ===== verification/Spec2Isabelle.thy ===== *)
theory Spec2Isabelle
  imports Limitations Reading Responder Firmware
begin

text \<open>
  Secure publish/subscribe: the Rust implementation under \<open>src/implementations/rust/\<close>. Agents exchange
  publications through an untrusted broker. Every request goes, signed and encrypted, to a certificate
  authority (CA); the CA authenticates it, applies the environment policy and encrypts a delivery for
  each subscriber it selects; the broker relays frames it cannot read. This development models the
  protocol library, the agents, the CA with its storage, the broker, the link between the two
  daemons and the daemons themselves, down to the bytes of every frame, and proves what they promise
  alone and together.

  The parts of the program and where they are modelled.

  \<^item> \<open>Prelude\<close>, \<open>Btree\<close>: what the code uses of Rust's standard library. Results are sums (\<open>tryE\<close> is
    \<open>?\<close>, \<open>tryS\<close> is \<open>?\<close> in a function that changes state), fixed-size arrays are words with their
    big-endian bytes, a \<open>BTreeMap\<close> is a sorted association list, \<open>usize\<close> is \<open>nat\<close> where the code
    bounds it and the other integers are words.
  \<^item> \<open>Types\<close>, \<open>Wire\<close>, \<open>Codec\<close>: \<open>protocol-core/src/types.rs\<close> and \<open>codec.rs\<close>. The envelope parser
    accepts exactly the canonical frames.
  \<^item> \<open>Payload\<close>: \<open>payload.rs\<close>: cursor, writer, the encoders, the operation parser, environments and
    predicates. The parser is exact for the canonical encodings; a predicate evaluated on bytes is the
    conjunction of its clauses over the attribute map.
  \<^item> \<open>Crypto\<close>: \<open>crypto.rs\<close>: key derivation, sealing and opening. The primitives (SHA-256, HKDF expansion,
    X25519, Ed25519, ChaCha20-Poly1305) are other crates, so they are the fields of the record \<open>crypto\<close>,
    with the laws of \<open>crypto_laws\<close> where a statement needs them; \<open>toy_crypto\<close> shows the laws can hold.
  \<^item> \<open>Replay\<close>: the replay caches of \<open>agent-core\<close> and \<open>ca-core\<close>, both behind one contract.
  \<^item> \<open>Agent\<close>: \<open>agent-core/src/lib.rs\<close>: requests, \<open>receive\<close> and the subscription loops, over a transport,
    a clock and a handler.
  \<^item> \<open>Policy\<close>: the environment policies of \<open>ca-core/src/lib.rs\<close>.
  \<^item> \<open>Store\<close>, \<open>Persistence\<close>: \<open>MemoryStore\<close>, \<open>SnapshotFile\<close>, \<open>PersistentStore\<close> and the encoding of the
    snapshot. A file is its contents, the temporary file beside it, and the outcome of each call that can
    fail (\<open>io_faults\<close>).
  \<^item> \<open>Authority\<close>: \<open>CertificateAuthority::process\<close> with its delivery loop, over any store and policy.
    \<open>Capacity\<close> bounds what one request can produce by the limits of the store.
  \<^item> \<open>Broker\<close>: \<open>broker-core/src/lib.rs\<close>: the router, its live queues (tokio channels, the parameter
    \<open>mpsc\<close> with \<open>mpsc_laws\<close>) and the offline queues. \<open>Brokerd\<close>: the connection tasks of
    \<open>brokerd/src/main.rs\<close>; an execution is a sequence of events, one for each time a task holds the
    router's lock; a task that waits for its socket is between two of them. \<open>route_ca_delivery\<close> gives the lock back
    before it stores a frame offline, so a delivery carries the events of the tasks that fall into this gap (\<open>ca_deliver\<close>), in the
    broker, the listener, the composed system and the loops of the daemons alike. A connection made in the gap can overtake the
    delivery: the guarantees about order name this case (\<open>history_raced\<close>), those about loss and repetition hold in it too.
  \<^item> \<open>Link\<close>: \<open>infrastructure-link/src/lib.rs\<close>: the framing, the authentication MAC, \<open>PendingFrames\<close> and
    \<open>DedupWindow\<close>. \<open>Exchange\<close> states the acknowledged, retransmitting channel built of them.
  \<^item> \<open>Session\<close>: the broker's end of the link (\<open>run_ca_session\<close>, \<open>authenticate_ca\<close> and the reconnection loop
    \<open>maintain_ca_link\<close> of \<open>brokerd\<close>). \<open>Cad\<close>: the daemon \<open>cad/src/main.rs\<close>: its configuration, startup,
    the handshake, each branch of its session and the reload.
  \<^item> \<open>System\<close>: both daemons and the connection between them as one transition system.
    \<open>Listener\<close>: the accept loop of \<open>brokerd\<close> with its handshake permits. \<open>Startup\<close>: the \<open>main\<close> functions of both daemons, from
    arguments, configuration and key files to the first state of \<open>System\<close>.
    \<open>Daemon_loops\<close>: the loops of both daemons over scripts of their sockets, \<open>maintain_ca_link\<close> with \<open>authenticate_ca\<close> and
    \<open>run_ca_session\<close>, and the accept loop of \<open>cad\<close> with \<open>authenticate_broker\<close>; each turn is a step of \<open>System\<close>.
    \<open>Guarantees\<close>, \<open>Handshake\<close> and \<open>Protocol\<close> state what the composition promises: \<open>Protocol\<close> for agents
    and CA (a request that an agent writes is the request the CA executes, a delivery that the CA
    writes is the one the subscriber accepts, and isolation end to end), \<open>Guarantees\<close> for broker and
    CA, \<open>Handshake\<close> for the authentication of their connection. \<open>Progress\<close> shows that a request whose
    acknowledgements were lost can always be completed, and \<open>Scenario\<close> runs the whole system once.
  \<^item> \<open>Usecase\<close>, \<open>Domains\<close>: \<open>usecase-models/src/lib.rs\<close>: the typed builders, with their phantom domains,
    and the three domains with their schemas. \<open>Boundary\<close> joins an audience built there with the CA's policy.
  \<^item> \<open>Framing\<close>: \<open>embassy-transport\<close> and \<open>transport\<close>: length-prefixed frames over a byte stream that
    fragments and fails; the codec of tokio-util is a parameter. \<open>Transports\<close>: both as implementations of \<open>AsyncTransport\<close>, with the
    subscription methods of the agent over them; \<open>handle_frames\<close> is what a subscriber does with a list of frames.
  \<^item> \<open>Support\<close>: \<open>app-common/src/lib.rs\<close>: configuration and key files, \<open>connect_agent\<close> with its backoff, the sends
    that reconnect. \<open>Keygen\<close>: \<open>cad/src/keygen.rs\<close>, whose files \<open>load_agent\<close> reads; the crate \<open>hex\<close> is a
    parameter with the laws \<open>hex_laws\<close>, which \<open>hex_encode\<close> and \<open>hex_decode\<close> meet.
  \<^item> \<open>Application\<close>, \<open>Building_app\<close>, \<open>Swarm_app\<close>, \<open>Tenant_app\<close>: the \<open>main.rs\<close> of the three command-line agents,
    from the configuration to the receive loops. The network and the input are scripts: lists of the outcomes of their calls, and a
    log of what was dialled, slept, written and lost; the lines that they print on the standard output are part of the state. \<open>Embassy_app\<close>: the library of the embedded sensor.
  \<^item> \<open>Flows\<close>: whose predicates meet whose environment, for the roles of each program. \<open>Conversation\<close> and \<open>Programs\<close> join the
    programs with the CA: a reading typed at the sensor is accepted by the panel, which prints a line with its type. \<open>Firmware\<close> compares the embedded sensor with the
    command-line one, \<open>Responder\<close> follows the responder of the swarm when it rejects a delivery.
  \<^item> \<open>Disk\<close>: when the persistent store refuses a call on a disk that works; \<open>Admission\<close> lifts this to requests, and
    \<open>Reading\<close> runs panel, CA and sensor once, from key files to the printed line. \<open>Limitations\<close> states where the guarantees
    end: what the code does when a table is full, a window too small, an identifier missing, a peer not the CA.

  Interfaces. The operations that one part uses of another are locales: \<open>replay_protector\<close>, the
  policy, the CA's store with its view (the clients are \<open>process\<close> and the delivery loop), the limit of
  the store, the offline queue, the schema of a domain (\<open>domain_schema\<close>), the transport of a subscriber (\<open>async_transport\<close>). Each is interpreted on the model of the code that provides it, and the
  properties use the facts of the interpretation.

  The composed system. A state of \<open>System\<close> holds both daemons, a wire in each direction, whether each end
  is up, and histories: the requests taken, processed and their results, the deliveries published and
  routed. A step is one branch of a \<open>select!\<close> loop, an event of the broker's tasks, the end of a
  connection at either side, or a new connection; the branch that routes a delivery carries the events of the gap. Each frame is lost when the connection fails before it
  is written or read: a send writes any prefix. The invariant \<open>system_inv\<close> relates the pending
  frames, the deduplication windows, the wires and the histories, and gives exactly-once delivery
  in order. It needs the broker's window to cover the CA's pending deliveries, which the default
  configuration of the two daemons does not grant (512 against 4096).

  Bounds. No definition uses fuel. The loops that wait for the network or for input recurse on its script: they return \<open>None\<close> while a
  call is still retrying at the end of the script, and \<open>connect_agent_returns\<close> and \<open>on_demand_frames_sent\<close> say when they return. The loops over buffers are recursive on the rest of the buffer, or
  have a measure (\<open>permanent_loop\<close> runs over the finite list of frames its transport gives). Lengths are
  compared as the code does, and conversions to narrower integers are checked where it checks them.

  Not modelled. Sockets, timers, locks and the scheduling of tokio: what they do is the event of a step or the script of a loop,
  and the router's lock is the granularity of the steps. The process-wide \<open>io_deadline\<close>s end a connection like any failure. The restart of a
  daemon (the broker then forgets its queues, the CA its pending deliveries) starts a new system.
  JSON and command-line parsing, the seeding of the random sources, \<open>Display\<close> texts of errors, the log lines of the daemons and the
  messages of the agents on the standard error are input and output.
  The MAC authenticates the broker to the CA only: any peer that holds the TCP connection
  can complete the broker's side of the handshake, and frames after it are not authenticated.
\<close>

end
